(* ===== verification/Jetway_Prelude.thy ===== *)
theory Jetway_Prelude
  imports Main "HOL-Library.Word" "HOL-Library.AList"
begin

text \<open>
  What every component of the development shares: the \<open>named_theorems\<close> collections, the model
  of Go's byte-order helpers (\<open>encoding/binary\<close>), of \<open>io.ReadFull\<close> on a byte stream, of the
  \<open>strings\<close> and \<open>strconv\<close> functions the sources call, and of Go maps.

  Conventions. Binary protocols are lists of \<open>8 word\<close>. Text is \<open>string\<close>, a list of bytes; the
  \<open>strings\<close> functions are the ones Go computes on 7-bit text, which is what the teletype and
  EDIFACT traffic carries (on bytes above 127 Go consults Unicode tables, which are not
  modelled). Go's \<open>int\<close> is \<open>int\<close> or \<open>nat\<close> where no value the code can hold reaches 64 bits,
  and a word where the width is part of the behaviour. An error return is the left side of a
  sum. A Go map is an association list with distinct keys.
\<close>

unbundle bit_operations_syntax

named_theorems wire_simps \<open>evaluation of the byte and word codecs\<close>
named_theorems gostr_simps \<open>evaluation of the string helpers\<close>
named_theorems gomap_simps \<open>lookup after an update of a Go map\<close>

type_synonym byte = "8 word"
type_synonym bytes = "8 word list"
type_synonym 'v strmap = "(string \<times> 'v) list"

section \<open>Big- and little-endian integers\<close>

definition put_u16_be :: "16 word \<Rightarrow> bytes" where
  "put_u16_be w = [ucast (drop_bit 8 w), ucast w]"

definition u16_be :: "byte \<Rightarrow> byte \<Rightarrow> 16 word" where
  "u16_be a b = push_bit 8 (ucast a) OR ucast b"

definition put_u32_be :: "32 word \<Rightarrow> bytes" where
  "put_u32_be w = [ucast (drop_bit 24 w), ucast (drop_bit 16 w), ucast (drop_bit 8 w), ucast w]"

definition u32_be :: "byte \<Rightarrow> byte \<Rightarrow> byte \<Rightarrow> byte \<Rightarrow> 32 word" where
  "u32_be a b c d = push_bit 24 (ucast a) OR push_bit 16 (ucast b) OR push_bit 8 (ucast c) OR ucast d"

lemma length_put_u16_be [simp]: "length (put_u16_be w) = 2"
  by (simp add: put_u16_be_def)

lemma length_put_u32_be [simp]: "length (put_u32_be w) = 4"
  by (simp add: put_u32_be_def)

lemma u16_be_put [simp, wire_simps]: "u16_be (ucast (drop_bit 8 w)) (ucast w) = (w :: 16 word)"
  unfolding u16_be_def by (rule bit_word_eqI) (auto simp: bit_simps)

lemma u32_be_put [simp, wire_simps]:
  "u32_be (ucast (drop_bit 24 w)) (ucast (drop_bit 16 w)) (ucast (drop_bit 8 w)) (ucast w) = (w :: 32 word)"
proof (rule bit_word_eqI)
  fix n
  assume n: "n < LENGTH(32)"
  consider "n < 8" | "8 \<le> n \<and> n < 16" | "16 \<le> n \<and> n < 24" | "24 \<le> n" by linarith
  then show "bit (u32_be (ucast (drop_bit 24 w)) (ucast (drop_bit 16 w)) (ucast (drop_bit 8 w)) (ucast w)) n = bit w n"
    using n by cases (auto simp: u32_be_def bit_simps)
qed

lemma byte_masks:
  "(0x7F :: byte) = mask 7" "(0x80 :: byte) = 2 ^ 7" "(0xF8 :: byte) = push_bit 3 (mask 5)"
  "(0x07 :: byte) = mask 3" "(0x3F :: byte) = mask 6" "(0x40 :: byte) = 2 ^ 6" "(0x0F :: byte) = mask 4"
  by (simp_all add: mask_eq_exp_minus_1)

lemma byte_eqI: "(\<And>n. n < 8 \<Longrightarrow> bit a n = bit b n) \<Longrightarrow> a = (b :: byte)"
  by (rule bit_word_eqI) simp

lemma less_8: "n < 8 \<longleftrightarrow> n \<in> {0, 1, 2, 3, 4, 5, 6, 7 :: nat}"
  by auto

lemma put_u16_be_u16 [simp, wire_simps]: "put_u16_be (u16_be a b) = [a, b]"
proof -
  have "ucast (drop_bit 8 (u16_be a b)) = a" "ucast (u16_be a b) = b"
    by (rule byte_eqI; auto simp: u16_be_def bit_simps dest: bit_imp_le_length)+
  then show ?thesis by (simp add: put_u16_be_def)
qed

lemma unat_of_nat_16: "n < 65536 \<Longrightarrow> unat (of_nat n :: 16 word) = n"
  by (simp add: unat_of_nat)

lemma unat_of_nat_32: "n < 4294967296 \<Longrightarrow> unat (of_nat n :: 32 word) = n"
  by (simp add: unat_of_nat)

section \<open>Reading a byte stream: \<open>io.ReadFull\<close>\<close>

text \<open>A reader is the list of the bytes still to come before end of file.\<close>

datatype io_error = EOF | UnexpectedEOF

definition ReadFull :: "nat \<Rightarrow> 'b list \<Rightarrow> io_error + ('b list \<times> 'b list)" where
  "ReadFull n r =
     (if n \<le> length r then Inr (take n r, drop n r)
      else if r = [] then Inl EOF else Inl UnexpectedEOF)"

lemma ReadFull_append [simp]: "length xs = n \<Longrightarrow> ReadFull n (xs @ ys) = Inr (xs, ys)"
  by (simp add: ReadFull_def)

lemma ReadFull_InrD:
  "ReadFull n r = Inr (xs, ys) \<Longrightarrow> r = xs @ ys \<and> length xs = n"
  by (auto simp: ReadFull_def split: if_splits)

section \<open>Go maps\<close>

text \<open>
  \<open>m[k]\<close>, \<open>m[k] = v\<close> and \<open>delete(m, k)\<close>. A read of an absent key in Go gives the zero
  value: \<open>gm_get d m k\<close> with \<open>d\<close> the zero value.
\<close>

definition gm_get :: "'v \<Rightarrow> ('k \<times> 'v) list \<Rightarrow> 'k \<Rightarrow> 'v" where
  "gm_get d m k = (case map_of m k of None \<Rightarrow> d | Some v \<Rightarrow> v)"

definition gm_put :: "'k \<Rightarrow> 'v \<Rightarrow> ('k \<times> 'v) list \<Rightarrow> ('k \<times> 'v) list" where
  "gm_put k v m = AList.update k v m"

definition gm_del :: "'k \<Rightarrow> ('k \<times> 'v) list \<Rightarrow> ('k \<times> 'v) list" where
  "gm_del k m = AList.delete k m"

definition gm_wf :: "('k \<times> 'v) list \<Rightarrow> bool" where
  "gm_wf m \<longleftrightarrow> distinct (map fst m)"

lemma map_of_gm_put [simp, gomap_simps]: "map_of (gm_put k v m) = (map_of m)(k \<mapsto> v)"
  by (simp add: gm_put_def update_conv')

lemma map_of_gm_del [simp, gomap_simps]: "map_of (gm_del k m) = (map_of m)(k := None)"
  by (simp add: gm_del_def delete_conv')

lemma gm_get_put [simp, gomap_simps]:
  "gm_get d (gm_put k v m) k' = (if k' = k then v else gm_get d m k')"
  by (simp add: gm_get_def)

lemma gm_get_del [simp, gomap_simps]:
  "gm_get d (gm_del k m) k' = (if k' = k then d else gm_get d m k')"
  by (simp add: gm_get_def)

lemma gm_get_Nil [simp, gomap_simps]: "gm_get d [] k = d"
  by (simp add: gm_get_def)

lemma gm_wf_Nil [simp]: "gm_wf []"
  by (simp add: gm_wf_def)

lemma gm_wf_put [simp, intro]: "gm_wf m \<Longrightarrow> gm_wf (gm_put k v m)"
  by (simp add: gm_wf_def gm_put_def distinct_update)

lemma gm_wf_del [simp, intro]: "gm_wf m \<Longrightarrow> gm_wf (gm_del k m)"
  by (simp add: gm_wf_def gm_del_def distinct_delete)

lemma gm_wf_in_set: "gm_wf m \<Longrightarrow> (k, v) \<in> set m \<longleftrightarrow> map_of m k = Some v"
  by (simp add: gm_wf_def)

section \<open>Strings\<close>

subsection \<open>Character classes of 7-bit text\<close>

definition is_space :: "char \<Rightarrow> bool" where
  "is_space c \<longleftrightarrow> c \<in> {CHR 0x09, CHR 0x0A, CHR 0x0B, CHR 0x0C, CHR 0x0D, CHR 0x20}"

definition is_digit :: "char \<Rightarrow> bool" where
  "is_digit c \<longleftrightarrow> (48 :: nat) \<le> of_char c \<and> of_char c \<le> (57 :: nat)"

definition is_upper :: "char \<Rightarrow> bool" where
  "is_upper c \<longleftrightarrow> (65 :: nat) \<le> of_char c \<and> of_char c \<le> (90 :: nat)"

definition is_lower :: "char \<Rightarrow> bool" where
  "is_lower c \<longleftrightarrow> (97 :: nat) \<le> of_char c \<and> of_char c \<le> (122 :: nat)"

definition is_upalnum :: "char \<Rightarrow> bool" where
  "is_upalnum c \<longleftrightarrow> is_upper c \<or> is_digit c"

definition upper_char :: "char \<Rightarrow> char" where
  "upper_char c = (if is_lower c then char_of (of_char c - 32 :: nat) else c)"

lemma not_space_upalnum [simp]: "is_upalnum c \<Longrightarrow> \<not> is_space c"
  by (auto simp: is_upalnum_def is_upper_def is_digit_def is_space_def)

lemma upper_char_upalnum [simp]: "is_upalnum c \<Longrightarrow> upper_char c = c"
  by (auto simp: is_upalnum_def is_upper_def is_digit_def upper_char_def is_lower_def)

lemma upper_char_idem [simp]: "upper_char (upper_char c) = upper_char c"
proof (cases "is_lower c")
  case True
  then have "of_char (char_of (of_char c - 32 :: nat)) = (of_char c - 32 :: nat)"
    by (auto simp: is_lower_def)
  with True show ?thesis
    by (auto simp: upper_char_def is_lower_def)
qed (simp add: upper_char_def)

text \<open>The classes read off the bits of a character, for evaluation.\<close>

lemma char_class_code [code]:
  "is_lower (Char a b c d e f g h) \<longleftrightarrow> \<not> h \<and> g \<and> f \<and> (a \<or> b \<or> c \<or> d \<or> e) \<and> \<not> (e \<and> d \<and> (c \<or> a \<and> b))"
  "is_upper (Char a b c d e f g h) \<longleftrightarrow> \<not> h \<and> g \<and> \<not> f \<and> (a \<or> b \<or> c \<or> d \<or> e) \<and> \<not> (e \<and> d \<and> (c \<or> a \<and> b))"
  "is_digit (Char a b c d e f g h) \<longleftrightarrow> \<not> h \<and> \<not> g \<and> f \<and> e \<and> \<not> (d \<and> (b \<or> c))"
  by (simp_all add: is_lower_def is_upper_def is_digit_def of_char_Char horner_sum_simps split: if_splits)
lemma upper_char_code [code]:
  "upper_char (Char a b c d e f g h) = (if is_lower (Char a b c d e f g h) then Char a b c d e False g h else Char a b c d e f g h)"
proof (cases "is_lower (Char a b c d e f g h)")
  case True
  then have eq: "of_char (Char a b c d e f g h) - 32 = (of_char (Char a b c d e False g h) :: nat)"
    by (cases f) (simp_all add: char_class_code of_char_Char algebra_simps)
  show ?thesis by (simp only: upper_char_def True if_True eq char_of_char)
qed (simp add: upper_char_def)

subsection \<open>The \<open>strings\<close> package\<close>

definition ToUpper :: "string \<Rightarrow> string" where
  "ToUpper = map upper_char"

definition TrimSpace :: "string \<Rightarrow> string" where
  "TrimSpace s = rev (dropWhile is_space (rev (dropWhile is_space s)))"

definition HasPrefix :: "string \<Rightarrow> string \<Rightarrow> bool" where
  "HasPrefix s p \<longleftrightarrow> take (length p) s = p"

definition HasSuffix :: "string \<Rightarrow> string \<Rightarrow> bool" where
  "HasSuffix s p \<longleftrightarrow> length p \<le> length s \<and> drop (length s - length p) s = p"

definition EqualFold :: "string \<Rightarrow> string \<Rightarrow> bool" where
  "EqualFold s t \<longleftrightarrow> ToUpper s = ToUpper t"

text \<open>\<open>strings.Split(s, sep)\<close> for a separator of one byte: never empty.\<close>

fun split_on :: "char \<Rightarrow> string \<Rightarrow> string list" where
  "split_on c [] = [[]]"
| "split_on c (x # xs) =
     (if x = c then [] # split_on c xs
      else (case split_on c xs of [] \<Rightarrow> [[x]] | y # ys \<Rightarrow> (x # y) # ys))"

fun Join :: "string list \<Rightarrow> string \<Rightarrow> string" where
  "Join [] sep = []"
| "Join [x] sep = x"
| "Join (x # xs) sep = x @ sep @ Join xs sep"

text \<open>\<open>strings.Fields\<close>: the maximal runs of non-space characters.\<close>

function Fields :: "string \<Rightarrow> string list" where
  "Fields s =
     (let t = dropWhile is_space s
      in if t = [] then []
         else takeWhile (\<lambda>c. \<not> is_space c) t # Fields (dropWhile (\<lambda>c. \<not> is_space c) t))"
  by pat_completeness auto

lemma length_dropWhile_nonspace:
  "dropWhile is_space s \<noteq> [] \<Longrightarrow>
   length (dropWhile (\<lambda>c. \<not> is_space c) (dropWhile is_space s)) < length s"
proof -
  assume ne: "dropWhile is_space s \<noteq> []"
  let ?t = "dropWhile is_space s"
  from ne have "\<not> is_space (hd ?t)" by (rule hd_dropWhile)
  with ne have "length (dropWhile (\<lambda>c. \<not> is_space c) ?t) < length ?t"
    by (cases ?t) (auto simp: le_imp_less_Suc length_dropWhile_le)
  also have "length ?t \<le> length s" by (rule length_dropWhile_le)
  finally show ?thesis .
qed

termination Fields
  by (relation "measure length") (auto simp: length_dropWhile_nonspace)

declare Fields.simps [simp del]

lemma split_on_nonempty [simp]: "split_on c s \<noteq> []"
  by (induction s) (auto split: list.splits)

lemma split_on_no_sep: "c \<notin> set s \<Longrightarrow> split_on c s = [s]"
  by (induction s) auto

lemma split_on_append_sep: "c \<notin> set s \<Longrightarrow> split_on c (s @ c # t) = s # split_on c t"
  by (induction s) (auto split: list.splits)

lemma Join_split_on: "Join (split_on c s) [c] = s"
proof (induction s)
  case (Cons x xs)
  then show ?case by (cases "split_on c xs") (auto, (metis Join.simps list.exhaust append_Cons)+)
qed simp

lemma split_on_Join:
  "ls \<noteq> [] \<Longrightarrow> \<forall>l \<in> set ls. c \<notin> set l \<Longrightarrow> split_on c (Join ls [c]) = ls"
proof (induction ls)
  case (Cons l ls)
  then show ?case
    by (cases ls) (auto simp: split_on_no_sep split_on_append_sep)
qed simp

lemma ToUpper_idem [simp]: "ToUpper (ToUpper s) = ToUpper s"
  by (simp add: ToUpper_def)

lemma length_ToUpper [simp]: "length (ToUpper s) = length s"
  by (simp add: ToUpper_def)

lemma ToUpper_upalnum [simp]: "list_all is_upalnum s \<Longrightarrow> ToUpper s = s"
  by (induction s) (auto simp: ToUpper_def)

lemma dropWhile_none: "\<forall>x \<in> set xs. \<not> p x \<Longrightarrow> dropWhile p xs = xs"
  by (cases xs) auto

lemma TrimSpace_nospace [simp]: "\<forall>c \<in> set s. \<not> is_space c \<Longrightarrow> TrimSpace s = s"
  by (simp add: TrimSpace_def dropWhile_none)

lemma TrimSpace_ends:
  assumes "s \<noteq> []" "\<not> is_space (hd s)" "\<not> is_space (last s)"
  shows "TrimSpace s = s"
proof -
  have "dropWhile is_space s = s" using assms by (cases s) auto
  moreover have "dropWhile is_space (rev s) = rev s" using assms by (cases s rule: rev_cases) auto
  ultimately show ?thesis by (simp add: TrimSpace_def)
qed

subsection \<open>The \<open>strconv\<close> package\<close>

definition digit_val :: "char \<Rightarrow> nat" where
  "digit_val c = of_char c - 48"

definition digit_char :: "nat \<Rightarrow> char" where
  "digit_char d = char_of (48 + d)"

fun dec_val :: "string \<Rightarrow> nat" where
  "dec_val s = foldl (\<lambda>n c. 10 * n + digit_val c) 0 s"

declare dec_val.simps [simp del]

definition all_digits :: "string \<Rightarrow> bool" where
  "all_digits s \<longleftrightarrow> list_all is_digit s"

text \<open>
  \<open>strconv.Atoi\<close>: an optional sign and at least one decimal digit, within the range of a
  64-bit \<open>int\<close>; every other input is an error.
\<close>

definition Atoi :: "string \<Rightarrow> int option" where
  "Atoi s =
     (let neg = (s \<noteq> [] \<and> hd s = CHR ''-'');
          body = (if s \<noteq> [] \<and> (hd s = CHR ''-'' \<or> hd s = CHR ''+'') then tl s else s);
          v = (if neg then - int (dec_val body) else int (dec_val body))
      in if body \<noteq> [] \<and> all_digits body \<and> - (2 ^ 63) \<le> v \<and> v < 2 ^ 63 then Some v else None)"

text \<open>\<open>strconv.Itoa\<close> on a value that is not negative.\<close>

fun Itoa :: "nat \<Rightarrow> string" where
  "Itoa n = (if n < 10 then [digit_char n] else Itoa (n div 10) @ [digit_char (n mod 10)])"

declare Itoa.simps [simp del]

text \<open>\<open>fmt.Sprintf("%02d", n)\<close> on a value that is not negative.\<close>

definition pad2 :: "nat \<Rightarrow> string" where
  "pad2 n = (if n < 10 then CHR ''0'' # Itoa n else Itoa n)"

lemma of_char_digit_char: "d < 10 \<Longrightarrow> of_char (digit_char d) = 48 + d"
  by (simp add: digit_char_def)

lemma is_digit_digit_char [simp]: "d < 10 \<Longrightarrow> is_digit (digit_char d)"
  by (simp add: is_digit_def of_char_digit_char)

lemma digit_val_digit_char [simp]: "d < 10 \<Longrightarrow> digit_val (digit_char d) = d"
  by (simp add: digit_val_def of_char_digit_char)

lemma dec_val_snoc [simp]: "dec_val (s @ [c]) = 10 * dec_val s + digit_val c"
  by (simp add: dec_val.simps)

lemma dec_val_single [simp]: "dec_val [c] = digit_val c"
  by (simp add: dec_val.simps)

lemma all_digits_snoc [simp]: "all_digits (s @ t) \<longleftrightarrow> all_digits s \<and> all_digits t"
  by (simp add: all_digits_def)

lemma Itoa_digits [simp]: "all_digits (Itoa n)"
proof (induction n rule: Itoa.induct)
  case (1 n)
  then show ?case by (subst Itoa.simps) (auto simp: all_digits_def)
qed

lemma Itoa_nonempty [simp]: "Itoa n \<noteq> []"
  by (subst Itoa.simps) simp

lemma dec_val_Itoa [simp]: "dec_val (Itoa n) = n"
proof (induction n rule: Itoa.induct)
  case (1 n)
  show ?case
  proof (cases "n < 10")
    case True
    then show ?thesis by (subst Itoa.simps) simp
  next
    case False
    with "1.IH" have "dec_val (Itoa (n div 10)) = n div 10" by simp
    with False show ?thesis by (subst Itoa.simps) simp
  qed
qed

lemma digit_not_sign: "is_digit c \<Longrightarrow> c \<noteq> CHR ''-'' \<and> c \<noteq> CHR ''+''"
  by (auto simp: is_digit_def)

lemma Atoi_digits:
  "s \<noteq> [] \<Longrightarrow> all_digits s \<Longrightarrow> dec_val s < 2 ^ 63 \<Longrightarrow> Atoi s = Some (int (dec_val s))"
  by (cases s) (auto simp: Atoi_def all_digits_def Let_def dest: digit_not_sign)

lemma Atoi_Itoa [simp]: "n < 2 ^ 63 \<Longrightarrow> Atoi (Itoa n) = Some (int n)"
  by (simp add: Atoi_digits)

lemma Itoa_inj: "Itoa m = Itoa n \<longleftrightarrow> m = n"
  by (metis dec_val_Itoa)

end
