(* ===== verification/Matip.thy ===== *)
theory Matip
  imports Jetway_Prelude
begin

text \<open>
  MATIP (\<open>src/pkg/matip\<close>): the four-byte packet header, the session-control packets and the
  session handshake of RFC 2351. \<open>packet.go\<close> is \<open>MarshalBinary\<close>, \<open>ParseHeader\<close> and
  \<open>ReadPacket\<close>; \<open>control.go\<close> the session open, open confirm and session close bodies;
  \<open>session.go\<close> the two sides of the handshake (\<open>Dial\<close>, \<open>Accept\<close>), \<open>Receive\<close> and \<open>Close\<close>
  over an explicit connection: the bytes still to be read, the bytes written so far and
  whether the socket is closed. A read past the end of the stream is an I/O error; a write
  always succeeds, and deadlines are not modelled. The lemmas show that reading is the exact
  inverse of writing in both directions, that a read is bounded by the 16-bit length field,
  and that the two sides of a handshake always agree on its outcome.
\<close>

section \<open>Packets: \<open>packet.go\<close>\<close>

datatype matip_error =
    ErrShortPacket
  | ErrBadVersion byte
  | ErrBadLength nat
  | ErrPayloadTooBig nat
  | ErrIO io_error
  | NotSessionOpen byte
  | SessionOpenLength nat
  | ReservedCodingBits byte
  | HLDFlagMismatch bool nat
  | NotOpenConfirm byte
  | OpenConfirmLength nat
  | OpenConfirmByte byte
  | NotSessionClose byte
  | SessionCloseLength nat
  | ErrRefused byte
  | ErrClosed byte
  | NonControlCommand byte
  | PeerReopened
  | UnknownControl byte

abbreviation "Version \<equiv> (1 :: byte)"
abbreviation "HeaderLen \<equiv> (4 :: nat)"
abbreviation "MaxPacket \<equiv> (65535 :: nat)"
abbreviation "MaxPayload \<equiv> MaxPacket - HeaderLen"

definition CmdData :: byte where "CmdData = 0x00"
definition CmdSessionOpen :: byte where "CmdSessionOpen = 0x7E"
definition CmdOpenConfirm :: byte where "CmdOpenConfirm = 0x7D"
definition CmdSessionClose :: byte where "CmdSessionClose = 0x7C"

lemmas cmd_defs [wire_simps] = CmdData_def CmdSessionOpen_def CmdOpenConfirm_def CmdSessionClose_def

record packet =
  Control :: bool
  Cmd :: byte
  Payload :: bytes

definition IsData :: "packet \<Rightarrow> bool" where
  "IsData p \<longleftrightarrow> \<not> Control p \<and> Cmd p = CmdData"

definition MarshalBinary :: "packet \<Rightarrow> matip_error + bytes" where
  "MarshalBinary p =
     (if length (Payload p) > MaxPayload then Inl (ErrPayloadTooBig (length (Payload p)))
      else Inr ([Version AND 0x07,
                 (if Control p then (Cmd p AND 0x7F) OR 0x80 else Cmd p AND 0x7F)]
                @ put_u16_be (of_nat (HeaderLen + length (Payload p)))
                @ Payload p))"

definition ParseHeader :: "bytes \<Rightarrow> matip_error + (bool \<times> byte \<times> nat)" where
  "ParseHeader b =
     (case b of
        b0 # b1 # b2 # b3 # _ \<Rightarrow>
          if b0 AND 0xF8 \<noteq> 0 then Inl (ErrBadVersion b0)
          else if b0 AND 0x07 \<noteq> Version then Inl (ErrBadVersion b0)
          else let tot = unat (u16_be b2 b3)
               in if tot < HeaderLen then Inl (ErrBadLength tot)
                  else Inr (b1 AND 0x80 \<noteq> 0, b1 AND 0x7F, tot)
      | _ \<Rightarrow> Inl ErrShortPacket)"

definition ReadPacket :: "bytes \<Rightarrow> matip_error + (packet \<times> bytes)" where
  "ReadPacket r =
     (case ReadFull HeaderLen r of
        Inl e \<Rightarrow> Inl (ErrIO e)
      | Inr (hdr, r1) \<Rightarrow>
          (case ParseHeader hdr of
             Inl e \<Rightarrow> Inl e
           | Inr (control, cmd, tot) \<Rightarrow>
               if tot - HeaderLen > 0
               then (case ReadFull (tot - HeaderLen) r1 of
                       Inl e \<Rightarrow> Inl (ErrIO e)
                     | Inr (body, r2) \<Rightarrow> Inr (\<lparr>Control = control, Cmd = cmd, Payload = body\<rparr>, r2))
               else Inr (\<lparr>Control = control, Cmd = cmd, Payload = []\<rparr>, r1)))"

definition DataPacket :: "bytes \<Rightarrow> packet" where
  "DataPacket payload = \<lparr>Control = False, Cmd = CmdData, Payload = payload\<rparr>"

section \<open>Session control: \<open>control.go\<close>\<close>

record session_open =
  Coding :: byte
  Protection :: byte
  Origin :: byte
  HasHLD :: bool
  SenderHLD :: "16 word"
  RecipientHLD :: "16 word"

definition CodingASCII :: byte where "CodingASCII = 4"

definition SessionOpen_Packet :: "session_open \<Rightarrow> packet" where
  "SessionOpen_Packet s =
     (let bflag = (if HasHLD s then push_bit 2 (Origin s) OR 0x02 else push_bit 2 (Origin s));
          head = [Coding s AND 0x07, push_bit 4 (Protection s AND 0x0F) OR (bflag AND 0x0F)];
          body = (if HasHLD s then head @ put_u16_be (SenderHLD s) @ put_u16_be (RecipientHLD s)
                  else head)
      in \<lparr>Control = True, Cmd = CmdSessionOpen, Payload = body\<rparr>)"

definition ParseSessionOpen :: "packet \<Rightarrow> matip_error + session_open" where
  "ParseSessionOpen p =
     (if \<not> Control p \<or> Cmd p \<noteq> CmdSessionOpen then Inl (NotSessionOpen (Cmd p))
      else if length (Payload p) \<noteq> 2 \<and> length (Payload p) \<noteq> 6
        then Inl (SessionOpenLength (HeaderLen + length (Payload p)))
      else if Payload p ! 0 AND 0xF8 \<noteq> 0 then Inl (ReservedCodingBits (Payload p ! 0))
      else let bflag = Payload p ! 1 AND 0x0F;
               hld = (bflag AND 0x02 \<noteq> 0)
           in if hld \<noteq> (length (Payload p) = 6)
              then Inl (HLDFlagMismatch hld (HeaderLen + length (Payload p)))
              else Inr \<lparr>Coding = Payload p ! 0 AND 0x07,
                        Protection = drop_bit 4 (Payload p ! 1),
                        Origin = drop_bit 2 bflag,
                        HasHLD = hld,
                        SenderHLD = (if hld then u16_be (Payload p ! 2) (Payload p ! 3) else 0),
                        RecipientHLD = (if hld then u16_be (Payload p ! 4) (Payload p ! 5) else 0)\<rparr>)"

definition CauseNoTrafficMatch :: byte where "CauseNoTrafficMatch = 1"
definition CauseIncoherentHeader :: byte where "CauseIncoherentHeader = 2"

definition AcceptPacket :: packet where
  "AcceptPacket = \<lparr>Control = True, Cmd = CmdOpenConfirm, Payload = [0x00]\<rparr>"

definition RefusePacket :: "byte \<Rightarrow> packet" where
  "RefusePacket c = \<lparr>Control = True, Cmd = CmdOpenConfirm, Payload = [0x40 OR (c AND 0x3F)]\<rparr>"

definition ParseOpenConfirm :: "packet \<Rightarrow> matip_error + (bool \<times> byte)" where
  "ParseOpenConfirm p =
     (if \<not> Control p \<or> Cmd p \<noteq> CmdOpenConfirm then Inl (NotOpenConfirm (Cmd p))
      else if length (Payload p) \<noteq> 1 then Inl (OpenConfirmLength (HeaderLen + length (Payload p)))
      else let b = Payload p ! 0
           in if b = 0x00 then Inr (True, 0)
              else if b AND 0x40 = 0 then Inl (OpenConfirmByte b)
              else Inr (False, b AND 0x3F))"

definition ClosePacket :: "byte \<Rightarrow> packet" where
  "ClosePacket c = \<lparr>Control = True, Cmd = CmdSessionClose, Payload = [c]\<rparr>"

definition ParseSessionClose :: "packet \<Rightarrow> matip_error + byte" where
  "ParseSessionClose p =
     (if \<not> Control p \<or> Cmd p \<noteq> CmdSessionClose then Inl (NotSessionClose (Cmd p))
      else if length (Payload p) \<noteq> 1 then Inl (SessionCloseLength (HeaderLen + length (Payload p)))
      else Inr (Payload p ! 0))"

section \<open>Sessions: \<open>session.go\<close>\<close>

text \<open>
  The timeouts of \<open>Config\<close> are dropped. A connection is what is still to be read, what has
  been written, and whether it has been closed.
\<close>

record config =
  cfg_Coding :: byte
  cfg_Protection :: byte
  cfg_Origin :: byte
  cfg_HasHLD :: bool
  cfg_SenderHLD :: "16 word"
  cfg_RecipientHLD :: "16 word"

record conn =
  inb :: bytes
  outb :: bytes
  conn_closed :: bool

record session =
  s_cfg :: config
  s_remote :: session_open
  s_closed :: bool

definition zero_open :: session_open where
  "zero_open = \<lparr>Coding = 0, Protection = 0, Origin = 0, HasHLD = False, SenderHLD = 0, RecipientHLD = 0\<rparr>"

definition withDefaults :: "config \<Rightarrow> config" where
  "withDefaults c = (if cfg_Coding c = 0 \<and> cfg_Protection c = 0 then c\<lparr>cfg_Coding := CodingASCII\<rparr> else c)"

definition sessionOpen :: "config \<Rightarrow> session_open" where
  "sessionOpen c = \<lparr>Coding = cfg_Coding c, Protection = cfg_Protection c, Origin = cfg_Origin c,
     HasHLD = cfg_HasHLD c, SenderHLD = cfg_SenderHLD c, RecipientHLD = cfg_RecipientHLD c\<rparr>"

definition WritePacket :: "packet \<Rightarrow> conn \<Rightarrow> matip_error + conn" where
  "WritePacket p c = (case MarshalBinary p of Inl e \<Rightarrow> Inl e | Inr b \<Rightarrow> Inr (c\<lparr>outb := outb c @ b\<rparr>))"

definition Dial :: "conn \<Rightarrow> config \<Rightarrow> conn \<times> (matip_error + session)" where
  "Dial c cfg0 =
     (let cfg = withDefaults cfg0 in
      case WritePacket (SessionOpen_Packet (sessionOpen cfg)) c of
        Inl e \<Rightarrow> (c, Inl e)
      | Inr c1 \<Rightarrow>
          (case ReadPacket (inb c1) of
             Inl e \<Rightarrow> (c1, Inl e)
           | Inr (p, r) \<Rightarrow>
               (let c2 = c1\<lparr>inb := r\<rparr> in
                case ParseOpenConfirm p of
                  Inl e \<Rightarrow> (c2, Inl e)
                | Inr (accepted, cause) \<Rightarrow>
                    if \<not> accepted then (c2, Inl (ErrRefused cause))
                    else (c2, Inr \<lparr>s_cfg = cfg, s_remote = zero_open, s_closed = False\<rparr>))))"

text \<open>The answer to a refusal is written and its own error ignored, as in the source.\<close>

definition write_ignoring :: "packet \<Rightarrow> conn \<Rightarrow> conn" where
  "write_ignoring p c = (case WritePacket p c of Inl _ \<Rightarrow> c | Inr c' \<Rightarrow> c')"

definition Accept :: "conn \<Rightarrow> config \<Rightarrow> (session_open \<Rightarrow> byte) option \<Rightarrow> conn \<times> (matip_error + session)" where
  "Accept c cfg0 approve =
     (let cfg = withDefaults cfg0 in
      case ReadPacket (inb c) of
        Inl e \<Rightarrow> (c, Inl e)
      | Inr (p, r) \<Rightarrow>
          (let c1 = c\<lparr>inb := r\<rparr> in
           case ParseSessionOpen p of
             Inl e \<Rightarrow> (write_ignoring (RefusePacket CauseIncoherentHeader) c1, Inl e)
           | Inr so \<Rightarrow>
               (let cause0 = (case approve of None \<Rightarrow> 0 | Some f \<Rightarrow> f so);
                    cause = (if cause0 = 0 \<and> Coding so \<noteq> cfg_Coding cfg then CauseNoTrafficMatch else cause0)
                in if cause \<noteq> 0 then (write_ignoring (RefusePacket cause) c1, Inl (ErrRefused cause))
                   else (case WritePacket AcceptPacket c1 of
                           Inl e \<Rightarrow> (c1, Inl e)
                         | Inr c2 \<Rightarrow> (c2, Inr \<lparr>s_cfg = cfg, s_remote = so, s_closed = False\<rparr>)))))"

lemma ReadPacket_shorter: "ReadPacket r = Inr (p, r') \<Longrightarrow> length r' < length r"
  by (auto simp: ReadPacket_def split: sum.splits prod.splits if_splits dest!: ReadFull_InrD)

function Receive :: "bytes \<Rightarrow> (matip_error + bytes) \<times> bytes" where
  "Receive r =
     (case ReadPacket r of
        Inl e \<Rightarrow> (Inl e, r)
      | Inr (p, r') \<Rightarrow>
          if IsData p then (Inr (Payload p), r')
          else if \<not> Control p then (Inl (NonControlCommand (Cmd p)), r')
          else if Cmd p = CmdSessionClose
            then (case ParseSessionClose p of Inl e \<Rightarrow> (Inl e, r') | Inr cause \<Rightarrow> (Inl (ErrClosed cause), r'))
          else if Cmd p = CmdSessionOpen then (Inl PeerReopened, r')
          else if Cmd p = CmdOpenConfirm then Receive r'
          else (Inl (UnknownControl (Cmd p)), r'))"
  by pat_completeness auto

termination Receive
  by (relation "measure length") (auto dest: ReadPacket_shorter)

declare Receive.simps [simp del]

definition Close :: "byte \<Rightarrow> conn \<Rightarrow> session \<Rightarrow> conn \<times> session" where
  "Close cause c s =
     (if s_closed s then (c, s)
      else ((write_ignoring (ClosePacket cause) c)\<lparr>conn_closed := True\<rparr>, s\<lparr>s_closed := True\<rparr>))"

fun compareIP :: "bytes \<Rightarrow> bytes \<Rightarrow> int" where
  "compareIP (a # as) (b # bs) = (if a < b then -1 else if a > b then 1 else compareIP as bs)"
| "compareIP _ _ = 0"

section \<open>Reading inverts writing\<close>

lemma and_7F_not_80: "(w AND 0x7F) AND 0x80 = (0 :: byte)"
  by (simp add: and.assoc)

lemma cmd_byte_flag: "((w AND 0x7F) OR 0x80) AND 0x80 = (0x80 :: byte)"
  by (simp add: bit.conj_disj_distrib2 and_7F_not_80)

lemma cmd_byte_cmd: "((w AND 0x7F) OR 0x80) AND 0x7F = (w AND 0x7F :: byte)"
  by (simp add: bit.conj_disj_distrib2 and.assoc)

lemma cmd_byte_set: "(w :: byte) AND 0x80 \<noteq> 0 \<Longrightarrow> (w AND 0x7F) OR 0x80 = w"
  unfolding byte_masks and_exp_eq_0_iff_not_bit
  by (rule byte_eqI) (auto simp: bit_simps less_8)

lemma cmd_byte_clear: "(w :: byte) AND 0x80 = 0 \<Longrightarrow> w AND 0x7F = w"
  unfolding byte_masks and_exp_eq_0_iff_not_bit
  by (rule byte_eqI) (auto simp: bit_simps less_8)

lemma version_byte: "(w :: byte) AND 0xF8 = 0 \<Longrightarrow> w AND 0x07 = 1 \<Longrightarrow> w = 1"
proof -
  assume w: "w AND 0xF8 = 0" "w AND 0x07 = 1"
  have "w = (w AND 0xF8) OR (w AND 0x07)"
    unfolding byte_masks by (rule byte_eqI) (auto simp: bit_simps less_8)
  with w show ?thesis by simp
qed

lemmas cmd_byte = and_7F_not_80 cmd_byte_flag cmd_byte_cmd

lemma ParseHeader_marshalled:
  assumes "length (Payload p) \<le> MaxPayload"
  shows "ParseHeader [Version AND 0x07, (if Control p then (Cmd p AND 0x7F) OR 0x80 else Cmd p AND 0x7F),
           ucast (drop_bit 8 (of_nat (HeaderLen + length (Payload p)) :: 16 word)),
           ucast (of_nat (HeaderLen + length (Payload p)) :: 16 word)]
         = Inr (Control p, Cmd p AND 0x7F, HeaderLen + length (Payload p))"
  using assms by (simp add: ParseHeader_def Let_def cmd_byte unat_of_nat_16 del: of_nat_add)

lemma ReadPacket_MarshalBinary:
  assumes "MarshalBinary p = Inr b"
  shows "ReadPacket (b @ rest) = Inr (p\<lparr>Cmd := Cmd p AND 0x7F\<rparr>, rest)"
proof -
  from assms have len: "length (Payload p) \<le> MaxPayload"
    and b: "b = [Version AND 0x07, (if Control p then (Cmd p AND 0x7F) OR 0x80 else Cmd p AND 0x7F)]
                @ put_u16_be (of_nat (HeaderLen + length (Payload p))) @ Payload p"
    by (auto simp: MarshalBinary_def split: if_splits)
  show ?thesis
    using ParseHeader_marshalled [OF len]
    by (simp add: ReadPacket_def b ReadFull_def put_u16_be_def numeral_eq_Suc del: of_nat_add)
qed

lemma ParseHeader_InrD:
  assumes "ParseHeader hdr = Inr (control, cmd, tot)" "length hdr = HeaderLen"
  obtains b1 b2 b3 where "hdr = [1, b1, b2, b3]" "control \<longleftrightarrow> b1 AND 0x80 \<noteq> 0" "cmd = b1 AND 0x7F"
    "tot = unat (u16_be b2 b3)" "HeaderLen \<le> tot"
  using assms by (auto simp: ParseHeader_def Let_def dest: version_byte split: list.splits if_splits)

lemma MarshalBinary_ReadPacket:
  assumes "ReadPacket r = Inr (p, rest)"
  shows "\<exists>b. MarshalBinary p = Inr b \<and> r = b @ rest"
proof -
  from assms obtain hdr r1 control cmd tot where
    hdr: "ReadFull HeaderLen r = Inr (hdr, r1)" and ph: "ParseHeader hdr = Inr (control, cmd, tot)"
    by (auto simp: ReadPacket_def split: sum.splits)
  from hdr have r: "r = hdr @ r1" "length hdr = HeaderLen" by (auto dest: ReadFull_InrD)
  from ph r(2) obtain b1 b2 b3 where b: "hdr = [1, b1, b2, b3]" "control \<longleftrightarrow> b1 AND 0x80 \<noteq> 0"
    "cmd = b1 AND 0x7F" "tot = unat (u16_be b2 b3)" "HeaderLen \<le> tot"
    by (rule ParseHeader_InrD)
  from assms hdr ph have p: "p = \<lparr>Control = control, Cmd = cmd, Payload = Payload p\<rparr>"
    and pay: "r1 = Payload p @ rest" "length (Payload p) = tot - HeaderLen"
    using b(5) by (auto simp: ReadPacket_def split: sum.splits if_splits dest: ReadFull_InrD)
  have "tot \<le> MaxPacket" using unsigned_less [of "u16_be b2 b3", where ?'a = nat] b(4) by simp
  then show ?thesis
    using b r pay
    by (subst p, simp add: MarshalBinary_def and.assoc)
       (auto simp: cmd_byte_set cmd_byte_clear simp flip: of_nat_add)
qed

section \<open>Control bodies\<close>

definition so_wf :: "session_open \<Rightarrow> bool" where
  "so_wf s \<longleftrightarrow> Coding s < 8 \<and> Protection s < 16 \<and> Origin s < 4
     \<and> (HasHLD s \<or> SenderHLD s = 0 \<and> RecipientHLD s = 0)"

lemma small_bits:
  assumes "unat (w :: byte) < 2 ^ k" "bit w n"
  shows "n < k"
proof (rule ccontr)
  assume "\<not> n < k"
  then have "(2 :: nat) ^ k \<le> 2 ^ n" by simp
  with assms(1) have "unat w div 2 ^ n = 0" by (meson div_less order_less_le_trans)
  moreover from assms(2) have "bit (unat w) n" by (simp add: bit_unsigned_iff bit_imp_le_length)
  ultimately show False by (simp add: bit_iff_odd)
qed

lemma coding_bits: "(c :: byte) < 8 \<Longrightarrow> c AND 0x07 = c \<and> c AND 0xF8 = 0"
proof -
  assume "c < 8"
  then have b: "bit c n \<Longrightarrow> n < 3" for n using small_bits [of c 3 n] by (simp add: word_less_nat_alt)
  show ?thesis
    unfolding byte_masks by (safe; rule byte_eqI) (auto simp: bit_simps dest: b)
qed

text \<open>The packed byte of a session open: protection in the high nibble, flags in the low one.\<close>

lemma nibble_bits:
  assumes "(p :: byte) < 16"
  shows "drop_bit 4 (push_bit 4 (p AND 0x0F) OR (f AND 0x0F)) = p"
    and "(push_bit 4 (p AND 0x0F) OR (f AND 0x0F)) AND 0x0F = f AND 0x0F"
proof -
  from assms have b: "bit p n \<Longrightarrow> n < 4" for n using small_bits [of p 4 n] by (simp add: word_less_nat_alt)
  show "drop_bit 4 (push_bit 4 (p AND 0x0F) OR (f AND 0x0F)) = p"
    unfolding byte_masks by (rule byte_eqI) (auto simp: bit_simps less_8 dest: b)
  show "(push_bit 4 (p AND 0x0F) OR (f AND 0x0F)) AND 0x0F = f AND 0x0F"
    unfolding byte_masks by (rule byte_eqI) (auto simp: bit_simps less_8)
qed

lemma byte_two: "(0x02 :: byte) = push_bit 1 1"
  by simp

lemma and_two_eq_0: "(w :: byte) AND 0x02 = 0 \<longleftrightarrow> \<not> bit w 1"
  using and_exp_eq_0_iff_not_bit [of w 1] by simp

lemma flag_bits:
  fixes x :: byte and h :: bool
  assumes "x < 4"
  defines "f \<equiv> (if h then push_bit 2 x OR 0x02 else push_bit 2 x)"
  shows "(f AND 0x0F) AND 0x02 \<noteq> 0 \<longleftrightarrow> h" and "drop_bit 2 (f AND 0x0F) = x"
proof -
  from assms(1) have b: "bit x n \<Longrightarrow> n < 2" for n using small_bits [of x 2 n] by (simp add: word_less_nat_alt)
  show "(f AND 0x0F) AND 0x02 \<noteq> 0 \<longleftrightarrow> h"
    unfolding and_two_eq_0 unfolding f_def byte_masks byte_two by (simp add: bit_simps)
  show "drop_bit 2 (f AND 0x0F) = x"
    unfolding f_def byte_masks byte_two by (rule byte_eqI) (auto simp: bit_simps less_8 dest: b)
qed

lemma SessionOpen_body:
  assumes "so_wf s"
  obtains w0 w1 f where
    "SessionOpen_Packet s = \<lparr>Control = True, Cmd = CmdSessionOpen,
       Payload = w0 # w1 # (if HasHLD s then put_u16_be (SenderHLD s) @ put_u16_be (RecipientHLD s) else [])\<rparr>"
    "w0 AND 0xF8 = 0" "w0 AND 0x07 = Coding s" "drop_bit 4 w1 = Protection s"
    "w1 AND 0x0F = f" "drop_bit 2 f = Origin s" "f AND 0x02 = 0 \<longleftrightarrow> \<not> HasHLD s"
proof
  let ?f = "if HasHLD s then push_bit 2 (Origin s) OR 0x02 else push_bit 2 (Origin s)"
  let ?w1 = "push_bit 4 (Protection s AND 0x0F) OR (?f AND 0x0F)"
  from assms have s: "Coding s < 8" "Protection s < 16" "Origin s < 4" by (simp_all add: so_wf_def)
  show "SessionOpen_Packet s = \<lparr>Control = True, Cmd = CmdSessionOpen,
       Payload = Coding s # ?w1 # (if HasHLD s then put_u16_be (SenderHLD s) @ put_u16_be (RecipientHLD s) else [])\<rparr>"
    unfolding SessionOpen_Packet_def Let_def coding_bits [OF s(1), THEN conjunct1]
    by (simp only: append.simps if_cancel split: if_split) auto
  show "Coding s AND 0xF8 = 0" "Coding s AND 0x07 = Coding s" using coding_bits [OF s(1)] by auto
  show "drop_bit 4 ?w1 = Protection s" by (rule nibble_bits [OF s(2)])
  show "?w1 AND 0x0F = ?f AND 0x0F" by (rule nibble_bits [OF s(2)])
  show "drop_bit 2 (?f AND 0x0F) = Origin s" by (rule flag_bits [OF s(3)])
  show "(?f AND 0x0F) AND 0x02 = 0 \<longleftrightarrow> \<not> HasHLD s" using flag_bits(1) [OF s(3)] by blast
qed

lemma ParseSessionOpen_Packet:
  assumes "so_wf s"
  shows "ParseSessionOpen (SessionOpen_Packet s) = Inr s"
proof -
  from assms obtain w0 w1 f where w: "SessionOpen_Packet s = \<lparr>Control = True, Cmd = CmdSessionOpen,
       Payload = w0 # w1 # (if HasHLD s then put_u16_be (SenderHLD s) @ put_u16_be (RecipientHLD s) else [])\<rparr>"
    "w0 AND 0xF8 = 0" "w0 AND 0x07 = Coding s" "drop_bit 4 w1 = Protection s"
    "w1 AND 0x0F = f" "drop_bit 2 f = Origin s" "f AND 0x02 = 0 \<longleftrightarrow> \<not> HasHLD s"
    by (rule SessionOpen_body)
  from assms show ?thesis
    unfolding w(1) by (cases "HasHLD s") (simp_all add: w(2-7) so_wf_def ParseSessionOpen_def Let_def put_u16_be_def)
qed

section \<open>The handshake\<close>

lemma MarshalBinary_small [simp]:
  "length (Payload p) \<le> MaxPayload \<Longrightarrow> \<exists>b. MarshalBinary p = Inr b"
  by (simp add: MarshalBinary_def)

lemma Cmd_low [simp]: "CmdSessionOpen AND 0x7F = CmdSessionOpen" "CmdOpenConfirm AND 0x7F = CmdOpenConfirm"
  "CmdSessionClose AND 0x7F = CmdSessionClose" "CmdData AND 0x7F = CmdData"
  by (simp_all add: cmd_defs)

lemma Cmd_distinct [simp]: "CmdOpenConfirm \<noteq> CmdSessionClose" "CmdOpenConfirm \<noteq> CmdSessionOpen"
  by (simp_all add: cmd_defs)

text \<open>A packet whose command fits seven bits is read back as it was.\<close>

lemma read_written:
  "MarshalBinary p = Inr b \<Longrightarrow> Cmd p AND 0x7F = Cmd p \<Longrightarrow> ReadPacket (b @ rest) = Inr (p, rest)"
  by (simp add: ReadPacket_MarshalBinary)

lemma refuse_byte: "(0x40 :: byte) OR (c AND 0x3F) \<noteq> 0"
    "((0x40 :: byte) OR (c AND 0x3F)) AND 0x40 \<noteq> 0"
    "((0x40 :: byte) OR (c AND 0x3F)) AND 0x3F = c AND 0x3F"
proof -
  have b: "bit ((0x40 :: byte) OR (c AND 0x3F)) 6" unfolding byte_masks by (simp add: bit_simps)
  then show "(0x40 :: byte) OR (c AND 0x3F) \<noteq> 0" by auto
  show "((0x40 :: byte) OR (c AND 0x3F)) AND 0x40 \<noteq> 0"
    using b and_exp_eq_0_iff_not_bit [of "(0x40 :: byte) OR (c AND 0x3F)" 6] by simp
  show "((0x40 :: byte) OR (c AND 0x3F)) AND 0x3F = c AND 0x3F"
    unfolding byte_masks by (rule byte_eqI) (auto simp: bit_simps less_8)
qed

lemma ParseOpenConfirm_Accept [simp]: "ParseOpenConfirm AcceptPacket = Inr (True, 0)"
  by (simp add: ParseOpenConfirm_def AcceptPacket_def)

lemma ParseOpenConfirm_Refuse: "ParseOpenConfirm (RefusePacket c) = Inr (False, c AND 0x3F)"
  using refuse_byte [of c] unfolding ParseOpenConfirm_def RefusePacket_def Let_def
  by (simp del: and_numerals or_numerals)

text \<open>
  The two sides wired back to back: what the dialling side writes is what the answering side
  reads, and the answer is what the dialling side reads.
\<close>

definition fresh_conn :: "bytes \<Rightarrow> conn" where
  "fresh_conn r = \<lparr>inb = r, outb = [], conn_closed = False\<rparr>"

definition handshake ::
  "config \<Rightarrow> config \<Rightarrow> (session_open \<Rightarrow> byte) option \<Rightarrow> (matip_error + session) \<times> (matip_error + session)" where
  "handshake d a approve =
     (let request = outb (fst (Dial (fresh_conn []) d));
          (ca, ra) = Accept (fresh_conn request) a approve
      in (snd (Dial (fresh_conn (outb ca)) d), ra))"

text \<open>The cause the answering side decides on, zero for acceptance.\<close>

definition decided_cause :: "config \<Rightarrow> config \<Rightarrow> (session_open \<Rightarrow> byte) option \<Rightarrow> byte" where
  "decided_cause d a approve =
     (let so = sessionOpen (withDefaults d);
          cause = (case approve of None \<Rightarrow> 0 | Some f \<Rightarrow> f so)
      in if cause = 0 \<and> Coding so \<noteq> cfg_Coding (withDefaults a) then CauseNoTrafficMatch else cause)"

lemma so_wf_withDefaults: "so_wf (sessionOpen d) \<Longrightarrow> so_wf (sessionOpen (withDefaults d))"
  by (auto simp: so_wf_def withDefaults_def sessionOpen_def CodingASCII_def)

lemma length_open_payload: "length (Payload (SessionOpen_Packet s)) \<le> 6"
  by (simp add: SessionOpen_Packet_def Let_def)

lemma MarshalBinary_open: obtains b where "MarshalBinary (SessionOpen_Packet s) = Inr b"
  using length_open_payload [of s] by (simp add: MarshalBinary_def)

lemma Dial_request:
  assumes "MarshalBinary (SessionOpen_Packet (sessionOpen (withDefaults d))) = Inr b"
  shows "outb (fst (Dial (fresh_conn []) d)) = b"
  using assms by (simp add: Dial_def fresh_conn_def WritePacket_def ReadPacket_def ReadFull_def Let_def)

lemma Dial_reply:
  assumes "MarshalBinary p = Inr b" "Cmd p AND 0x7F = Cmd p"
  shows "snd (Dial (fresh_conn b) d) =
    (case ParseOpenConfirm p of Inl e \<Rightarrow> Inl e
     | Inr (accepted, cause) \<Rightarrow> if accepted then Inr \<lparr>s_cfg = withDefaults d, s_remote = zero_open, s_closed = False\<rparr>
                                else Inl (ErrRefused cause))"
proof -
  obtain q where q: "MarshalBinary (SessionOpen_Packet (sessionOpen (withDefaults d))) = Inr q"
    by (rule MarshalBinary_open)
  from read_written [OF assms, of "[]"] q show ?thesis
    by (simp add: Dial_def fresh_conn_def WritePacket_def Let_def split: sum.splits)
qed

lemma Accept_answer:
  assumes wf: "so_wf (sessionOpen d)"
    and b: "MarshalBinary (SessionOpen_Packet (sessionOpen (withDefaults d))) = Inr b"
  shows "Accept (fresh_conn b) a approve =
    (let cause = decided_cause d a approve;
         c = fresh_conn []
     in if cause \<noteq> 0 then (write_ignoring (RefusePacket cause) c, Inl (ErrRefused cause))
        else (write_ignoring AcceptPacket c,
              Inr \<lparr>s_cfg = withDefaults a, s_remote = sessionOpen (withDefaults d), s_closed = False\<rparr>))"
proof -
  have "Cmd (SessionOpen_Packet s) AND 0x7F = Cmd (SessionOpen_Packet s)" for s
    by (simp add: SessionOpen_Packet_def Let_def)
  from read_written [OF b this, of "[]"] ParseSessionOpen_Packet [OF so_wf_withDefaults [OF wf]]
  show ?thesis
    by (simp add: Accept_def fresh_conn_def Let_def decided_cause_def write_ignoring_def WritePacket_def
        MarshalBinary_def AcceptPacket_def RefusePacket_def split: option.splits)
qed

lemma handshake_outcome:
  assumes "so_wf (sessionOpen d)"
  shows "handshake d a approve =
    (let cause = decided_cause d a approve
     in if cause \<noteq> 0 then (Inl (ErrRefused (cause AND 0x3F)), Inl (ErrRefused cause))
        else (Inr \<lparr>s_cfg = withDefaults d, s_remote = zero_open, s_closed = False\<rparr>,
              Inr \<lparr>s_cfg = withDefaults a, s_remote = sessionOpen (withDefaults d), s_closed = False\<rparr>))"
proof -
  obtain b where b: "MarshalBinary (SessionOpen_Packet (sessionOpen (withDefaults d))) = Inr b"
    by (rule MarshalBinary_open)
  have out: "MarshalBinary p = Inr (outb (write_ignoring p (fresh_conn [])))" if "length (Payload p) = 1" for p
    using that by (simp add: write_ignoring_def WritePacket_def fresh_conn_def MarshalBinary_def)
  have len: "length (Payload AcceptPacket) = 1" "length (Payload (RefusePacket c)) = 1" for c
    by (simp_all add: AcceptPacket_def RefusePacket_def)
  have cmd: "Cmd AcceptPacket AND 0x7F = Cmd AcceptPacket" "Cmd (RefusePacket c) AND 0x7F = Cmd (RefusePacket c)" for c
    by (simp_all add: AcceptPacket_def RefusePacket_def)
  show ?thesis
    unfolding handshake_def Let_def Dial_request [OF b] Accept_answer [OF assms b]
    by (simp add: Dial_reply [OF out [OF len(1)] cmd(1)] Dial_reply [OF out [OF len(2)] cmd(2)]
        ParseOpenConfirm_Refuse)
qed

section \<open>Receiving\<close>

lemma Receive_data:
  "MarshalBinary (DataPacket m) = Inr b \<Longrightarrow> Receive (b @ rest) = (Inr m, rest)"
  using read_written [of "DataPacket m" b rest]
  by (subst Receive.simps) (simp add: DataPacket_def IsData_def)

lemma Receive_skips_confirm:
  assumes "MarshalBinary p = Inr b" "Control p" "Cmd p = CmdOpenConfirm"
  shows "Receive (b @ rest) = Receive rest"
  using read_written [of p b rest] assms
  by (subst Receive.simps) (simp add: IsData_def)

lemma Receive_skips_confirms:
  "\<forall>p \<in> set ps. Control p \<and> Cmd p = CmdOpenConfirm \<and> length (Payload p) \<le> MaxPayload \<Longrightarrow>
   Receive (concat (map (\<lambda>p. projr (MarshalBinary p)) ps) @ rest) = Receive rest"
proof (induction ps)
  case (Cons p ps)
  from Cons.prems have "length (Payload p) \<le> MaxPayload" by (blast intro: list.set_intros)
  then obtain b where b: "MarshalBinary p = Inr b" using MarshalBinary_small by blast
  from Cons.prems have "Control p" "Cmd p = CmdOpenConfirm" by (blast intro: list.set_intros)+
  note skip = Receive_skips_confirm [OF b this]
  from Cons have "Receive (concat (map (\<lambda>p. projr (MarshalBinary p)) ps) @ rest) = Receive rest"
    by (meson list.set_intros)
  with skip show ?case by (simp add: b)
qed simp

lemma Close_once: "(case Close k c s of (c', s') \<Rightarrow> Close k' c' s') = Close k c s"
  by (auto simp: Close_def)

lemma compareIP_antisym: "length a = length b \<Longrightarrow> compareIP b a = - compareIP a b"
  by (induction a b rule: list_induct2) auto

lemma compareIP_eq: "length a = length b \<Longrightarrow> compareIP a b = 0 \<longleftrightarrow> a = b"
  by (induction a b rule: list_induct2) auto

section \<open>Properties\<close>

lemma ReadPacket_Cmd: "ReadPacket r = Inr (p, rest) \<Longrightarrow> Cmd p AND 0x7F = Cmd p"
  by (auto simp: ReadPacket_def ParseHeader_def Let_def and.assoc
      split: sum.splits if_splits list.splits)

text \<open>
  C19: reading and writing MATIP packets are exact inverses. \<open>ReadPacket\<close> takes a packet off a
  stream precisely when the stream starts with the bytes \<open>MarshalBinary\<close> renders for that
  packet, and the command it yields always fits the seven-bit field. So no two byte strings
  decode to the same packet, a packet is never decoded from bytes the encoder would not have
  produced, and nothing after the packet is consumed.
\<close>

theorem matip_packet_exact:
  "ReadPacket r = Inr (p, rest) \<longleftrightarrow>
   (\<exists>b. MarshalBinary p = Inr b \<and> r = b @ rest) \<and> Cmd p AND 0x7F = Cmd p"
  using MarshalBinary_ReadPacket ReadPacket_Cmd read_written by blast

text \<open>
  C29: both ends of a MATIP handshake agree on its outcome. With the two sides wired back to
  back and a dialling configuration whose fields fit their wire widths, either both obtain a
  session, in which case the answering side's approver consented, the codings are equal and the
  answering side knows exactly what the dialling side declared; or both see a refusal, and the
  cause the dialling side reads is the low six bits of the cause the answering side decided on.
\<close>

theorem matip_handshake_agreement:
  assumes "so_wf (sessionOpen d)"
  shows "case handshake d a approve of
      (Inr sd, Inr sa) \<Rightarrow>
        decided_cause d a approve = 0
        \<and> s_remote sa = sessionOpen (withDefaults d)
        \<and> cfg_Coding (s_cfg sd) = cfg_Coding (s_cfg sa)
    | (Inl ed, Inl ea) \<Rightarrow>
        (\<exists>c. c \<noteq> 0 \<and> c = decided_cause d a approve
             \<and> ea = ErrRefused c \<and> ed = ErrRefused (c AND 0x3F))
    | _ \<Rightarrow> False"
  unfolding handshake_outcome [OF assms] Let_def
  by (auto simp: decided_cause_def Let_def sessionOpen_def CauseNoTrafficMatch_def split: if_splits option.splits)

definition witness_cfg :: "byte \<Rightarrow> config" where
  "witness_cfg coding = \<lparr>cfg_Coding = coding, cfg_Protection = 2, cfg_Origin = 1, cfg_HasHLD = True,
     cfg_SenderHLD = 0x1234, cfg_RecipientHLD = 0xABCD\<rparr>"

theorem matip_handshake_agreement_witness:
  "so_wf (sessionOpen (witness_cfg 4))
   \<and> (\<exists>ed ea. handshake (witness_cfg 4) (witness_cfg 2) None = (Inl ed, Inl ea) \<and> ea = ErrRefused 1)"
proof -
  have wf: "so_wf (sessionOpen (witness_cfg 4))"
    by (simp add: so_wf_def sessionOpen_def witness_cfg_def)
  have c: "decided_cause (witness_cfg 4) (witness_cfg 2) None = 1"
    by (simp add: decided_cause_def sessionOpen_def withDefaults_def witness_cfg_def CauseNoTrafficMatch_def Let_def)
  obtain x y where h: "handshake (witness_cfg 4) (witness_cfg 2) None = (x, y)" by fastforce
  from matip_handshake_agreement [OF wf, of "witness_cfg 2" None] wf c h
  show ?thesis by (cases x; cases y) auto
qed

end
