(* ===== verification/Stream_Codec.thy ===== *)
theory Stream_Codec
  imports Jetway_Prelude
begin

text \<open>
  The interface every link-level codec of the gateway promises its reader: a message it wrote
  comes back unchanged and leaves the rest of the stream alone. The lemmas proved once from
  that promise (a written sequence is read back in order, and two written streams that agree
  as bytes agree as messages) hold for MATIP packets and for both framings of
  \<open>src/pkg/transport/frame.go\<close> through the interpretations in \<open>Framing\<close>.
\<close>

text \<open>Reading a given number of messages off a stream; \<open>None\<close> once a read fails.\<close>

fun read_many :: "('b list \<Rightarrow> 'e + ('m \<times> 'b list)) \<Rightarrow> nat \<Rightarrow> 'b list \<Rightarrow> ('m list \<times> 'b list) option" where
  "read_many rd 0 r = Some ([], r)"
| "read_many rd (Suc n) r =
     (case rd r of
        Inl _ \<Rightarrow> None
      | Inr (m, r') \<Rightarrow> map_option (\<lambda>(ms, r''). (m # ms, r'')) (read_many rd n r'))"

fun write_many :: "('m \<Rightarrow> 'e + 'b list) \<Rightarrow> 'm list \<Rightarrow> 'e + 'b list" where
  "write_many wr [] = Inr []"
| "write_many wr (m # ms) =
     (case wr m of
        Inl e \<Rightarrow> Inl e
      | Inr b \<Rightarrow> (case write_many wr ms of Inl e \<Rightarrow> Inl e | Inr bs \<Rightarrow> Inr (b @ bs)))"

locale stream_codec =
  fixes wr :: "'m \<Rightarrow> 'e + 'b list"
    and rd :: "'b list \<Rightarrow> 'f + ('m \<times> 'b list)"
    and ok :: "'m \<Rightarrow> bool"
  assumes write_ok: "ok m \<Longrightarrow> \<exists>b. wr m = Inr b"
    and read_written: "ok m \<Longrightarrow> wr m = Inr b \<Longrightarrow> rd (b @ rest) = Inr (m, rest)"
begin

lemma write_many_ok: "\<forall>m \<in> set ms. ok m \<Longrightarrow> \<exists>bs. write_many wr ms = Inr bs"
proof (induction ms)
  case (Cons m ms)
  then obtain b bs where "wr m = Inr b" "write_many wr ms = Inr bs"
    using write_ok by (metis list.set_intros)
  then show ?case by simp
qed simp

lemma read_many_written:
  "\<forall>m \<in> set ms. ok m \<Longrightarrow> write_many wr ms = Inr bs \<Longrightarrow>
   read_many rd (length ms) (bs @ rest) = Some (ms, rest)"
proof (induction ms arbitrary: bs)
  case (Cons m ms)
  then obtain b bs' where b: "wr m = Inr b" "write_many wr ms = Inr bs'" "bs = b @ bs'"
    by (auto split: sum.splits)
  with Cons have "read_many rd (length ms) (bs' @ rest) = Some (ms, rest)" by simp
  with b read_written [of m b "bs' @ rest"] Cons.prems show ?case by simp
qed simp

lemma unique_decoding:
  assumes "\<forall>m \<in> set ms. ok m" "\<forall>m \<in> set ms'. ok m" "length ms = length ms'"
    and "write_many wr ms = Inr bs" "write_many wr ms' = Inr bs'" "bs @ r = bs' @ r'"
  shows "ms = ms' \<and> r = r'"
proof -
  have "Some (ms, r) = read_many rd (length ms) (bs @ r)"
    by (rule read_many_written [OF assms(1,4), symmetric])
  also have "\<dots> = read_many rd (length ms') (bs' @ r')" by (simp only: assms(3,6))
  also have "\<dots> = Some (ms', r')" by (rule read_many_written [OF assms(2,5)])
  finally show ?thesis by simp
qed

end

end
