(* ===== verification/Framing.thy ===== *)
theory Framing
  imports Stream_Codec Matip
begin

text \<open>
  Link framing (\<open>src/pkg/transport/frame.go\<close>): the length-prefixed framing with its header
  width, byte order and inclusive count, and the sentinel framing of teletype links, which is
  read through \<open>bufio.Reader.ReadSlice\<close> in chunks of at most the reader's buffer. The reader
  is a byte list and, for the sentinel, the buffer size. The sentinel reader is shown equal to
  a reference reader that looks at one byte at a time, whatever the buffer size; both framings
  and MATIP packets are interpreted as \<open>stream_codec\<close>s.
\<close>

datatype frame_error =
    FrameIO io_error
  | UnsupportedHeaderWidth nat
  | NegativePayload int
  | ErrFrameTooLarge nat
  | IndexOutOfRange

abbreviation "DefaultMaxFrame \<equiv> (4194304 :: nat)"

section \<open>Length prefix\<close>

record length_prefix =
  HeaderBytes :: nat
  LittleEndian :: bool
  Inclusive :: bool
  lp_Max :: int

definition lp_max :: "length_prefix \<Rightarrow> nat" where
  "lp_max f = (if lp_Max f \<le> 0 then DefaultMaxFrame else nat (lp_Max f))"

text \<open>\<open>f.order()\<close>: \<open>binary.LittleEndian\<close> reads and writes the bytes reversed.\<close>

definition order_bytes :: "length_prefix \<Rightarrow> bytes \<Rightarrow> bytes" where
  "order_bytes f bs = (if LittleEndian f then rev bs else bs)"

definition header_value :: "length_prefix \<Rightarrow> bytes \<Rightarrow> nat option" where
  "header_value f hdr =
     (case order_bytes f hdr of
        [a, b] \<Rightarrow> Some (unat (u16_be a b))
      | [a, b, c, d] \<Rightarrow> Some (unat (u32_be a b c d))
      | _ \<Rightarrow> None)"

definition LengthPrefix_ReadFrame :: "length_prefix \<Rightarrow> bytes \<Rightarrow> frame_error + (bytes \<times> bytes)" where
  "LengthPrefix_ReadFrame f r =
     (case ReadFull (HeaderBytes f) r of
        Inl e \<Rightarrow> Inl (FrameIO e)
      | Inr (hdr, r1) \<Rightarrow>
          (case header_value f hdr of
             None \<Rightarrow> Inl (UnsupportedHeaderWidth (HeaderBytes f))
           | Some n0 \<Rightarrow>
               (let n = (if Inclusive f then int n0 - int (HeaderBytes f) else int n0)
                in if n < 0 then Inl (NegativePayload n)
                   else if n > int (lp_max f) then Inl (ErrFrameTooLarge (nat n))
                   else (case ReadFull (nat n) r1 of
                           Inl e \<Rightarrow> Inl (FrameIO e)
                         | Inr (buf, r2) \<Rightarrow> Inr (buf, r2)))))"

definition LengthPrefix_WriteFrame :: "length_prefix \<Rightarrow> bytes \<Rightarrow> frame_error + bytes" where
  "LengthPrefix_WriteFrame f payload =
     (let n0 = length payload
      in if n0 > lp_max f then Inl (ErrFrameTooLarge n0)
         else let n = (if Inclusive f then n0 + HeaderBytes f else n0)
              in if HeaderBytes f = 2
                 then (if n > 0xFFFF then Inl (ErrFrameTooLarge n)
                       else Inr (order_bytes f (put_u16_be (of_nat n)) @ payload))
                 else if HeaderBytes f = 4
                 then Inr (order_bytes f (put_u32_be (of_nat n)) @ payload)
                 else Inl (UnsupportedHeaderWidth (HeaderBytes f)))"

definition DefaultFramer :: length_prefix where
  "DefaultFramer = \<lparr>HeaderBytes = 4, LittleEndian = False, Inclusive = False, lp_Max = 0\<rparr>"

section \<open>Sentinel\<close>

text \<open>
  \<open>ReadSlice(last)\<close> of a buffered reader: through the first \<open>last\<close> if that fits the buffer,
  the whole buffer with \<open>ErrBufferFull\<close> if it does not, everything left with \<open>EOF\<close> if there
  is none. \<open>bufio\<close> never uses a buffer of fewer than sixteen bytes.
\<close>

datatype slice = Found bytes bytes | BufferFull bytes bytes | AtEOF bytes

definition ReadSlice :: "nat \<Rightarrow> byte \<Rightarrow> bytes \<Rightarrow> slice" where
  "ReadSlice bufsize d r =
     (let size = max 16 bufsize; k = length (takeWhile (\<lambda>b. b \<noteq> d) r)
      in if k < size \<and> k < length r then Found (take (Suc k) r) (drop (Suc k) r)
         else if size \<le> length r then BufferFull (take size r) (drop size r)
         else AtEOF r)"

record sentinel =
  Terminator :: bytes
  sen_Max :: int

definition sen_max :: "sentinel \<Rightarrow> nat" where
  "sen_max f = (if sen_Max f \<le> 0 then DefaultMaxFrame else nat (sen_Max f))"

definition ends_with :: "bytes \<Rightarrow> bytes \<Rightarrow> bool" where
  "ends_with buf t \<longleftrightarrow> length t \<le> length buf \<and> drop (length buf - length t) buf = t"

text \<open>The result is the source's pair of a payload and an error, and the unread bytes.\<close>

function sentinel_loop ::
  "nat \<Rightarrow> sentinel \<Rightarrow> bytes \<Rightarrow> bytes \<Rightarrow> (bytes \<times> frame_error option) \<times> bytes" where
  "sentinel_loop bufsize f buf r =
     (case ReadSlice bufsize (last (Terminator f)) r of
        BufferFull chunk r' \<Rightarrow>
          if length buf + length chunk > sen_max f
          then (([], Some (ErrFrameTooLarge (length buf + length chunk))), r')
          else sentinel_loop bufsize f (buf @ chunk) r'
      | AtEOF chunk \<Rightarrow>
          if length buf + length chunk > 0 then ((buf @ chunk, Some (FrameIO EOF)), [])
          else (([], Some (FrameIO EOF)), [])
      | Found chunk r' \<Rightarrow>
          (let buf' = buf @ chunk
           in if length buf' > sen_max f then ((buf', Some (ErrFrameTooLarge (length buf'))), r')
              else if ends_with buf' (Terminator f) then ((buf', None), r')
              else sentinel_loop bufsize f buf' r'))"
  by pat_completeness auto

lemma ReadSlice_cases:
  "ReadSlice n d r = Found c r' \<Longrightarrow> r = c @ r' \<and> (\<exists>pre. c = pre @ [d] \<and> d \<notin> set pre)"
  "ReadSlice n d r = BufferFull c r' \<Longrightarrow> r = c @ r' \<and> d \<notin> set c \<and> c \<noteq> []"
  "ReadSlice n d r = AtEOF c \<Longrightarrow> r = c \<and> d \<notin> set c"
proof -
  let ?tw = "takeWhile (\<lambda>b. b \<noteq> d) r"
  have lt: "take (Suc (length ?tw)) r = ?tw @ [d] \<and> d \<notin> set ?tw" if "length ?tw < length r"
  proof -
    from that have "r ! length ?tw = d" using nth_length_takeWhile [of "\<lambda>b. b \<noteq> d" r] by simp
    moreover have "take (length ?tw) r = ?tw" by (metis takeWhile_eq_take)
    moreover have "d \<notin> set ?tw" by (auto dest: set_takeWhileD)
    ultimately show ?thesis using that by (simp add: take_Suc_conv_app_nth)
  qed
  have ge: "d \<notin> set (take m r)" if "m \<le> length ?tw" for m
  proof -
    have "take m r = take m ?tw" using that by (metis takeWhile_eq_take take_take min.absorb1)
    then show ?thesis by (metis in_set_takeD set_takeWhileD)
  qed
  show "ReadSlice n d r = Found c r' \<Longrightarrow> r = c @ r' \<and> (\<exists>pre. c = pre @ [d] \<and> d \<notin> set pre)"
    using lt by (auto simp: ReadSlice_def Let_def split: if_splits intro!: exI [of _ ?tw])
  show "ReadSlice n d r = BufferFull c r' \<Longrightarrow> r = c @ r' \<and> d \<notin> set c \<and> c \<noteq> []"
    using ge [of "max 16 n"] by (auto simp: ReadSlice_def Let_def not_less split: if_splits)
  show "ReadSlice n d r = AtEOF c \<Longrightarrow> r = c \<and> d \<notin> set c"
    using ge [of "length r"] length_takeWhile_le [of "\<lambda>b. b \<noteq> d" r]
    by (auto simp: ReadSlice_def Let_def split: if_splits)
qed

termination sentinel_loop
  by (relation "measure (\<lambda>(n, f, buf, r). length r)") (auto dest!: ReadSlice_cases)

declare sentinel_loop.simps [simp del]

definition Sentinel_ReadFrame :: "nat \<Rightarrow> sentinel \<Rightarrow> bytes \<Rightarrow> (bytes \<times> frame_error option) \<times> bytes" where
  "Sentinel_ReadFrame bufsize f r =
     (if Terminator f = [] then (([], Some IndexOutOfRange), r) else sentinel_loop bufsize f [] r)"

definition Sentinel_WriteFrame :: "sentinel \<Rightarrow> bytes \<Rightarrow> bytes" where
  "Sentinel_WriteFrame f payload =
     (if length payload < length (Terminator f) \<or> \<not> ends_with payload (Terminator f)
      then payload @ Terminator f else payload)"

section \<open>Length prefix: writing and reading\<close>

lemma header_value_order:
  "header_value f (order_bytes f (put_u16_be w)) = Some (unat w)"
  "header_value f (order_bytes f (put_u32_be v)) = Some (unat v)"
  by (simp_all add: header_value_def order_bytes_def put_u16_be_def put_u32_be_def)

lemma length_order_bytes [simp]: "length (order_bytes f bs) = length bs"
  by (simp add: order_bytes_def)

text \<open>What \<open>WriteFrame\<close> accepts, provided a four-byte header can hold what the bound allows.\<close>

definition lp_fits :: "length_prefix \<Rightarrow> bool" where
  "lp_fits f \<longleftrightarrow> HeaderBytes f = 4 \<longrightarrow> lp_max f + 4 < 2 ^ 32"

lemma LengthPrefix_read_written:
  assumes "lp_fits f" "LengthPrefix_WriteFrame f payload = Inr b"
  shows "LengthPrefix_ReadFrame f (b @ rest) = Inr (payload, rest)"
proof -
  define n where "n = (if Inclusive f then length payload + HeaderBytes f else length payload)"
  from assms obtain h where h: "b = h @ payload" "length h = HeaderBytes f" "header_value f h = Some n"
    and len: "length payload \<le> lp_max f"
    using unat_of_nat_16 [of n] unat_of_nat_32 [of n]
    unfolding LengthPrefix_WriteFrame_def Let_def n_def [symmetric]
    by (auto simp: header_value_order lp_fits_def n_def split: if_splits)
  then show ?thesis by (auto simp: LengthPrefix_ReadFrame_def n_def)
qed

lemma LengthPrefix_read_bounded:
  assumes "LengthPrefix_ReadFrame f r = Inr (payload, rest)"
  shows "length payload \<le> lp_max f \<and> (\<exists>hdr. r = hdr @ payload @ rest \<and> length hdr = HeaderBytes f)"
  using assms
  by (auto simp: LengthPrefix_ReadFrame_def Let_def not_less nat_le_iff
      split: sum.splits option.splits if_splits dest!: ReadFull_InrD)

section \<open>The sentinel reader against a byte-at-a-time reference\<close>

fun reference_reader :: "bytes \<Rightarrow> bytes \<Rightarrow> bytes \<Rightarrow> (bytes \<times> bytes) option" where
  "reference_reader t buf [] = None"
| "reference_reader t buf (x # xs) =
     (if ends_with (buf @ [x]) t then Some (buf @ [x], xs) else reference_reader t (buf @ [x]) xs)"

lemma ends_with_last: "t \<noteq> [] \<Longrightarrow> ends_with (buf @ [x]) t \<Longrightarrow> x = last t"
proof -
  assume t: "t \<noteq> []" "ends_with (buf @ [x]) t"
  then have "t = drop (length (buf @ [x]) - length t) (buf @ [x])" by (simp add: ends_with_def)
  also have "last \<dots> = last (buf @ [x])" using t(1) by (intro last_drop) simp
  finally show ?thesis by simp
qed

lemma reference_reader_skip:
  "t \<noteq> [] \<Longrightarrow> last t \<notin> set pre \<Longrightarrow> reference_reader t buf (pre @ r) = reference_reader t (buf @ pre) r"
proof (induction pre arbitrary: buf)
  case (Cons x pre)
  then have "\<not> ends_with (buf @ [x]) t" by (auto dest: ends_with_last)
  with Cons show ?case by simp
qed simp

lemma reference_reader_grows:
  "reference_reader t buf r = Some (frame, rest) \<Longrightarrow>
   \<exists>more. more \<noteq> [] \<and> frame = buf @ more \<and> r = more @ rest"
proof (induction t buf r rule: reference_reader.induct)
  case (2 t buf x xs)
  show ?case
  proof (cases "ends_with (buf @ [x]) t")
    case True
    with 2 show ?thesis by (intro exI [of _ "[x]"]) simp
  next
    case False
    with 2 obtain more where "frame = (buf @ [x]) @ more" "xs = more @ rest" by auto
    then show ?thesis by (intro exI [of _ "x # more"]) simp
  qed
qed simp

lemma sentinel_loop_reference:
  assumes "Terminator f \<noteq> []"
  shows "fst (sentinel_loop bufsize f buf r) = (frame, None) \<and> snd (sentinel_loop bufsize f buf r) = rest
     \<longleftrightarrow> reference_reader (Terminator f) buf r = Some (frame, rest) \<and> length frame \<le> sen_max f"
  using assms
proof (induction bufsize f buf r arbitrary: frame rest rule: sentinel_loop.induct)
  case (1 bufsize f buf r)
  let ?t = "Terminator f"
  show ?case
  proof (cases "ReadSlice bufsize (last ?t) r")
    case (Found chunk r')
    then obtain pre where pre: "r = chunk @ r'" "chunk = pre @ [last ?t]" "last ?t \<notin> set pre"
      by (auto dest: ReadSlice_cases)
    then have "reference_reader ?t buf r = reference_reader ?t (buf @ pre) (last ?t # r')"
      using 1 by (simp add: reference_reader_skip)
    then have ref: "reference_reader ?t buf r =
        (if ends_with (buf @ chunk) ?t then Some (buf @ chunk, r') else reference_reader ?t (buf @ chunk) r')"
      using pre by simp
    have "sentinel_loop bufsize f buf r =
        (if length (buf @ chunk) > sen_max f then ((buf @ chunk, Some (ErrFrameTooLarge (length (buf @ chunk)))), r')
         else if ends_with (buf @ chunk) ?t then ((buf @ chunk, None), r') else sentinel_loop bufsize f (buf @ chunk) r')"
      by (subst sentinel_loop.simps) (simp add: Found Let_def)
    then show ?thesis
      unfolding ref using "1.IH"(1) [OF Found refl] "1.prems" by (auto dest: reference_reader_grows)
  next
    case (BufferFull chunk r')
    then have "r = chunk @ r'" "last ?t \<notin> set chunk" by (auto dest: ReadSlice_cases)
    then have ref: "reference_reader ?t buf r = reference_reader ?t (buf @ chunk) r'"
      using 1 by (simp add: reference_reader_skip)
    have "sentinel_loop bufsize f buf r =
        (if length buf + length chunk > sen_max f then (([], Some (ErrFrameTooLarge (length buf + length chunk))), r')
         else sentinel_loop bufsize f (buf @ chunk) r')"
      by (subst sentinel_loop.simps) (simp add: BufferFull)
    then show ?thesis
      unfolding ref using "1.IH"(2) [OF BufferFull] "1.prems" by (auto dest: reference_reader_grows)
  next
    case (AtEOF chunk)
    then have "r = chunk" "last ?t \<notin> set chunk" by (auto dest: ReadSlice_cases)
    then have "reference_reader ?t buf r = None"
      using 1 reference_reader_skip [of ?t chunk buf "[]"] by simp
    with AtEOF show ?thesis by (auto simp: sentinel_loop.simps [of bufsize f buf r])
  qed
qed

section \<open>The codecs of the links\<close>

definition matip_ok :: "packet \<Rightarrow> bool" where
  "matip_ok p \<longleftrightarrow> length (Payload p) \<le> MaxPayload \<and> Cmd p AND 0x7F = Cmd p"

interpretation matip: stream_codec MarshalBinary ReadPacket matip_ok
  by unfold_locales (simp add: matip_ok_def, simp add: matip_ok_def read_written)

definition lp_ok :: "length_prefix \<Rightarrow> bytes \<Rightarrow> bool" where
  "lp_ok f payload \<longleftrightarrow> lp_fits f \<and> (HeaderBytes f = 2 \<or> HeaderBytes f = 4) \<and> length payload \<le> lp_max f
     \<and> (HeaderBytes f = 2 \<longrightarrow> length payload + (if Inclusive f then 2 else 0) \<le> 0xFFFF)"

interpretation lp: stream_codec "LengthPrefix_WriteFrame f" "LengthPrefix_ReadFrame f" "lp_ok f" for f
  by unfold_locales
    (auto simp: lp_ok_def LengthPrefix_WriteFrame_def Let_def intro: LengthPrefix_read_written)

text \<open>A sentinel frame carries its terminator once, at its end.\<close>

definition sen_ok :: "sentinel \<Rightarrow> bytes \<Rightarrow> bool" where
  "sen_ok f m \<longleftrightarrow> Terminator f \<noteq> [] \<and> reference_reader (Terminator f) [] m = Some (m, []) \<and> length m \<le> sen_max f"

definition sen_write :: "sentinel \<Rightarrow> bytes \<Rightarrow> frame_error + bytes" where
  "sen_write f m = Inr (Sentinel_WriteFrame f m)"

definition sen_read :: "nat \<Rightarrow> sentinel \<Rightarrow> bytes \<Rightarrow> frame_error + (bytes \<times> bytes)" where
  "sen_read bufsize f r =
     (case Sentinel_ReadFrame bufsize f r of
        ((m, None), rest) \<Rightarrow> Inr (m, rest)
      | ((m, Some e), rest) \<Rightarrow> Inl e)"

lemma reference_reader_append:
  "reference_reader t buf r = Some (frame, rest) \<Longrightarrow> reference_reader t buf (r @ s) = Some (frame, rest @ s)"
  by (induction t buf r rule: reference_reader.induct) (auto split: if_splits)

lemma reference_reader_ends: "reference_reader t buf r = Some (frame, rest) \<Longrightarrow> ends_with frame t"
  by (induction t buf r rule: reference_reader.induct) (auto split: if_splits)

lemma Sentinel_ReadFrame_reference:
  "Sentinel_ReadFrame bufsize f r = ((frame, None), rest) \<longleftrightarrow>
   Terminator f \<noteq> [] \<and> reference_reader (Terminator f) [] r = Some (frame, rest) \<and> length frame \<le> sen_max f"
  using sentinel_loop_reference [of f bufsize "[]" r frame rest]
  by (auto simp: Sentinel_ReadFrame_def prod_eq_iff)

lemma sen_written: "sen_ok f m \<Longrightarrow> Sentinel_WriteFrame f m = m"
  by (auto simp: sen_ok_def Sentinel_WriteFrame_def dest: reference_reader_ends)
    (auto simp: ends_with_def dest: reference_reader_ends)

interpretation sen: stream_codec "sen_write f" "sen_read bufsize f" "sen_ok f" for bufsize f
proof unfold_locales
  fix m b rest
  assume ok: "sen_ok f m" and "sen_write f m = Inr b"
  then have "b = m" by (simp add: sen_write_def sen_written)
  moreover from ok have "Sentinel_ReadFrame bufsize f (m @ rest) = ((m, None), rest)"
    using reference_reader_append [of "Terminator f" "[]" m m "[]" rest]
    by (simp add: Sentinel_ReadFrame_reference sen_ok_def)
  ultimately show "sen_read bufsize f (b @ rest) = Inr (m, rest)" by (simp add: sen_read_def)
qed (simp add: sen_write_def)

section \<open>Properties\<close>

text \<open>
  A sequence of payloads written with one length-prefix framing (either header width,
  either byte order, inclusive or not) is read back as the same sequence, with whatever
  follows it on the stream left unread, as long as each payload is within the configured bound
  and the header can hold it.
\<close>

theorem length_prefix_stream_roundtrip:
  assumes "\<forall>m \<in> set ms. lp_ok f m"
  shows "\<exists>bs. write_many (LengthPrefix_WriteFrame f) ms = Inr bs
           \<and> read_many (LengthPrefix_ReadFrame f) (length ms) (bs @ rest) = Some (ms, rest)"
  using lp.write_many_ok [OF assms] lp.read_many_written [OF assms] by blast

theorem length_prefix_stream_roundtrip_witness:
  "list_all (lp_ok \<lparr>HeaderBytes = 2, LittleEndian = True, Inclusive = True, lp_Max = 10\<rparr>) [[1, 2, 3], [], [9]]
   \<and> (\<exists>bs. write_many (LengthPrefix_WriteFrame \<lparr>HeaderBytes = 2, LittleEndian = True, Inclusive = True, lp_Max = 10\<rparr>)
              [[1, 2, 3], [], [9]] = Inr bs
        \<and> read_many (LengthPrefix_ReadFrame \<lparr>HeaderBytes = 2, LittleEndian = True, Inclusive = True, lp_Max = 10\<rparr>)
              3 (bs @ [7]) = Some ([[1, 2, 3], [], [9]], [7]))"
proof -
  let ?f = "\<lparr>HeaderBytes = 2, LittleEndian = True, Inclusive = True, lp_Max = 10\<rparr>"
  have ok: "\<forall>m \<in> set [[1, 2, 3], [], [9 :: byte]]. lp_ok ?f m"
    by (simp add: lp_ok_def lp_fits_def lp_max_def)
  from length_prefix_stream_roundtrip [OF ok, of "[7]"] ok show ?thesis by (simp add: numeral_3_eq_3)
qed

text \<open>
  C30: the chunked sentinel reader is the byte-at-a-time reader. Whatever the buffer size of the
  underlying \<open>bufio.Reader\<close>, \<open>ReadFrame\<close> returns a frame without an error exactly when the
  terminator is not empty, the shortest prefix of the stream that ends in the terminator is
  that frame, and the frame is within the bound; the stream then continues after it. Terminators
  split over two buffers, and bytes equal to the terminator's last byte inside the message,
  make no difference.
\<close>

theorem sentinel_reader_reference:
  "Sentinel_ReadFrame bufsize f r = ((frame, None), rest) \<longleftrightarrow>
   Terminator f \<noteq> [] \<and> reference_reader (Terminator f) [] r = Some (frame, rest) \<and> length frame \<le> sen_max f"
  by (rule Sentinel_ReadFrame_reference)

end
