(* ===== verification/Outbox.thy ===== *)
theory Outbox
  imports Jetway_Prelude
begin

text \<open>
  The outbound half of a link (\<open>src/pkg/transport/outbox.go\<close>): a bounded channel drained by
  one writer goroutine, with any number of concurrent senders. The goroutines are interleaved
  by a step relation. A sender goes through the points of \<open>Send\<close> where another goroutine can
  intervene: the first look at the stop channel, the choice between the immediate and the
  waiting select, and the select itself. The writer takes a frame, writes it, and on success
  looks at the congestion flag; these two last reads are one step here. Ghost fields record
  the frames accepted into the channel and the frames put on the wire, in order.
\<close>

datatype ob_error = ErrCongested | ErrLinkClosed | WriteError string

text \<open>Where a sender stands inside \<open>Send\<close>.\<close>

datatype 'm sender = Passed 'm | Fast 'm | Slow 'm

datatype 'm writer = Idle | Writing 'm | Failed 'm | Exited

record 'm outbox =
  NoWait :: bool
  depth :: nat
  q :: "'m list"
  stop_err :: "ob_error option" \<comment> \<open>\<open>None\<close> until the stop channel is closed, then \<open>o.err\<close>\<close>
  congested :: bool
  writer :: "'m writer"
  senders :: "'m sender list"
  accepted :: "'m list"
  written :: "'m list"

definition OutboxDepth :: nat where "OutboxDepth = 512"

definition NewOutbox :: "int \<Rightarrow> bool \<Rightarrow> 'm outbox" where
  "NewOutbox d nowait =
     \<lparr>NoWait = nowait, depth = (if d \<le> 0 then OutboxDepth else nat d), q = [], stop_err = None,
      congested = False, writer = Idle, senders = [], accepted = [], written = []\<rparr>"

definition stopped :: "'m outbox \<Rightarrow> bool" where
  "stopped s \<longleftrightarrow> stop_err s \<noteq> None"

text \<open>\<open>fail\<close> runs once: the first error stays.\<close>

definition ob_fail :: "ob_error \<Rightarrow> 'm outbox \<Rightarrow> 'm outbox" where
  "ob_fail e s = (if stopped s then s else s\<lparr>stop_err := Some e\<rparr>)"

definition closedErr :: "'m outbox \<Rightarrow> ob_error" where
  "closedErr s = (case stop_err s of Some e \<Rightarrow> e | None \<Rightarrow> ErrLinkClosed)"

definition ob_put :: "'m \<Rightarrow> 'm outbox \<Rightarrow> 'm outbox" where
  "ob_put m s = s\<lparr>q := q s @ [m], accepted := accepted s @ [m]\<rparr>"

definition leave :: "'m sender \<Rightarrow> 'm outbox \<Rightarrow> 'm outbox" where
  "leave p s = s\<lparr>senders := remove1 p (senders s)\<rparr>"

datatype 'm ob_event =
    Enter 'm
  | Choose 'm
  | Sent 'm
  | Refused 'm ob_error
  | Take 'm
  | Wrote 'm
  | WriteFailed 'm
  | WriterStops
  | Closed

inductive ob_step :: "'m outbox \<Rightarrow> 'm ob_event \<Rightarrow> 'm outbox \<Rightarrow> bool" where
  enter: "\<not> stopped s \<Longrightarrow> ob_step s (Enter m) (s\<lparr>senders := Passed m # senders s\<rparr>)"
| refuse_closed: "stopped s \<Longrightarrow> ob_step s (Refused m (closedErr s)) s"
| choose_fast: "Passed m \<in> set (senders s) \<Longrightarrow> congested s \<or> NoWait s \<Longrightarrow>
    ob_step s (Choose m) (s\<lparr>senders := Fast m # remove1 (Passed m) (senders s)\<rparr>)"
| choose_slow: "Passed m \<in> set (senders s) \<Longrightarrow> \<not> (congested s \<or> NoWait s) \<Longrightarrow>
    ob_step s (Choose m) (s\<lparr>senders := Slow m # remove1 (Passed m) (senders s)\<rparr>)"
| fast_put: "Fast m \<in> set (senders s) \<Longrightarrow> length (q s) < depth s \<Longrightarrow>
    ob_step s (Sent m) (leave (Fast m) (ob_put m s))"
| fast_full: "Fast m \<in> set (senders s) \<Longrightarrow> \<not> length (q s) < depth s \<Longrightarrow>
    ob_step s (Refused m ErrCongested) (leave (Fast m) s)"
| slow_put: "Slow m \<in> set (senders s) \<Longrightarrow> length (q s) < depth s \<Longrightarrow>
    ob_step s (Sent m) (leave (Slow m) (ob_put m s))"
| slow_stop: "Slow m \<in> set (senders s) \<Longrightarrow> stopped s \<Longrightarrow>
    ob_step s (Refused m (closedErr s)) (leave (Slow m) s)"
| slow_timeout: "Slow m \<in> set (senders s) \<Longrightarrow>
    ob_step s (Refused m ErrCongested) ((leave (Slow m) s)\<lparr>congested := True\<rparr>)"
| take: "writer s = Idle \<Longrightarrow> q s = m # ms \<Longrightarrow>
    ob_step s (Take m) (s\<lparr>q := ms, writer := Writing m\<rparr>)"
| wrote: "writer s = Writing m \<Longrightarrow>
    ob_step s (Wrote m) (s\<lparr>writer := Idle, written := written s @ [m],
      congested := (congested s \<and> q s \<noteq> [])\<rparr>)"
| write_failed: "writer s = Writing m \<Longrightarrow>
    ob_step s (WriteFailed m) ((ob_fail (WriteError e) s)\<lparr>writer := Failed m\<rparr>)"
| writer_stops: "writer s = Idle \<Longrightarrow> stopped s \<Longrightarrow> ob_step s WriterStops (s\<lparr>writer := Exited\<rparr>)"
| close: "ob_step s Closed (ob_fail ErrLinkClosed s)"

inductive ob_run :: "'m outbox \<Rightarrow> 'm ob_event list \<Rightarrow> 'm outbox \<Rightarrow> bool" where
  start: "ob_run s [] s"
| step: "ob_run s es t \<Longrightarrow> ob_step t e u \<Longrightarrow> ob_run s (es @ [e]) u"

inductive_cases ob_stepE: "ob_step s e t"
inductive_cases ob_run_NilE: "ob_run s [] t"

text \<open>The frame in the writer's hands: taken from the channel and not on the wire.\<close>

fun in_hand :: "'m writer \<Rightarrow> 'm list" where
  "in_hand (Writing m) = [m]"
| "in_hand (Failed m) = [m]"
| "in_hand Idle = []"
| "in_hand Exited = []"

definition ob_inv :: "'m outbox \<Rightarrow> bool" where
  "ob_inv s \<longleftrightarrow> accepted s = written s @ in_hand (writer s) @ q s \<and> length (q s) \<le> depth s
     \<and> (NoWait s \<longrightarrow> (\<forall>m. Slow m \<notin> set (senders s)))"

lemma ob_inv_new: "ob_inv (NewOutbox d nowait)"
  by (simp add: ob_inv_def NewOutbox_def)

lemma ob_fail_simps [simp]:
  "NoWait (ob_fail e s) = NoWait s" "depth (ob_fail e s) = depth s" "q (ob_fail e s) = q s"
  "congested (ob_fail e s) = congested s" "writer (ob_fail e s) = writer s"
  "senders (ob_fail e s) = senders s" "accepted (ob_fail e s) = accepted s" "written (ob_fail e s) = written s"
  by (simp_all add: ob_fail_def)

lemmas ob_defs = ob_put_def leave_def stopped_def

lemma ob_step_inv: "ob_step s e t \<Longrightarrow> ob_inv s \<Longrightarrow> ob_inv t"
  by (erule ob_stepE) (auto simp: ob_inv_def ob_defs dest: in_set_remove1 [THEN iffD1, rotated] notin_set_remove1)

lemma ob_run_inv: "ob_run s es t \<Longrightarrow> ob_inv s \<Longrightarrow> ob_inv t"
  by (induction rule: ob_run.induct) (blast dest: ob_step_inv)+

text \<open>Congestion is lifted by the writer alone, and only when the channel is empty.\<close>

lemma ob_congestion_lifted: "ob_step s e t \<Longrightarrow> congested s \<Longrightarrow> \<not> congested t \<Longrightarrow> q t = [] \<and> (\<exists>m. e = Wrote m)"
  by (erule ob_stepE) (auto simp: ob_defs)

lemma ob_stop_err_stays: "ob_step s e t \<Longrightarrow> stop_err s = Some x \<Longrightarrow> stop_err t = Some x"
  by (erule ob_stepE) (auto simp: ob_defs ob_fail_def)

text \<open>The frames the callers were told are sent, and the ones written, read off the events.\<close>

fun sent_frames :: "'m ob_event list \<Rightarrow> 'm list" where
  "sent_frames [] = []"
| "sent_frames (Sent m # es) = m # sent_frames es"
| "sent_frames (_ # es) = sent_frames es"

fun wrote_frames :: "'m ob_event list \<Rightarrow> 'm list" where
  "wrote_frames [] = []"
| "wrote_frames (Wrote m # es) = m # wrote_frames es"
| "wrote_frames (_ # es) = wrote_frames es"

lemma sent_frames_snoc: "sent_frames (es @ [e]) = sent_frames es @ (case e of Sent m \<Rightarrow> [m] | _ \<Rightarrow> [])"
  by (induction es rule: sent_frames.induct) (auto split: ob_event.splits)

lemma wrote_frames_snoc: "wrote_frames (es @ [e]) = wrote_frames es @ (case e of Wrote m \<Rightarrow> [m] | _ \<Rightarrow> [])"
  by (induction es rule: wrote_frames.induct) (auto split: ob_event.splits)

lemma ob_step_ghosts:
  "ob_step s e t \<Longrightarrow> accepted t = accepted s @ (case e of Sent m \<Rightarrow> [m] | _ \<Rightarrow> [])
     \<and> written t = written s @ (case e of Wrote m \<Rightarrow> [m] | _ \<Rightarrow> [])"
  by (erule ob_stepE) (auto simp: ob_defs)

lemma ob_run_ghosts:
  "ob_run s es t \<Longrightarrow> accepted s = [] \<Longrightarrow> written s = [] \<Longrightarrow>
   accepted t = sent_frames es \<and> written t = wrote_frames es"
  by (induction rule: ob_run.induct) (auto simp: sent_frames_snoc wrote_frames_snoc dest: ob_step_ghosts)

text \<open>
  C20: in every interleaving of senders, writer and \<open>Close\<close> that starts from a new outbox, the
  frames whose \<open>Send\<close> returned success are, in order, the frames written to the wire, then at
  most one frame in the writer's hands, then the frames still queued: nothing acknowledged is
  lost, duplicated or reordered ahead of a failure. The queue never exceeds its depth, and on a
  link that relays (\<open>NoWait\<close>) no sender ever waits.
\<close>

theorem outbox_fifo:
  assumes "ob_run (NewOutbox d nowait) es t"
  shows "sent_frames es = wrote_frames es @ in_hand (writer t) @ q t
     \<and> length (q t) \<le> (if d \<le> 0 then OutboxDepth else nat d)
     \<and> (nowait \<longrightarrow> (\<forall>m. Slow m \<notin> set (senders t)))"
proof -
  have run_const: "ob_run s es t \<Longrightarrow> depth t = depth s \<and> NoWait t = NoWait s" for s t :: "'a outbox" and es
    by (induction rule: ob_run.induct) (auto elim!: ob_stepE simp: ob_defs)
  from assms ob_inv_new have "ob_inv t" by (rule ob_run_inv)
  with run_const [OF assms] ob_run_ghosts [OF assms] show ?thesis
    by (simp add: ob_inv_def NewOutbox_def)
qed

definition witness_run :: "nat ob_event list" where
  "witness_run = [Enter 7, Choose 7, Sent 7, Take 7, Enter 8, Choose 8, Sent 8, Wrote 7]"

lemma witness_run_ok: "\<exists>t. ob_run (NewOutbox 1 True) witness_run t \<and> q t = [8 :: nat]"
proof -
  let ?s = "NewOutbox 1 True :: nat outbox"
  note d = NewOutbox_def ob_defs
  have 1: "ob_run ?s ([] @ [Enter 7]) (?s\<lparr>senders := [Passed 7]\<rparr>)"
    by (rule ob_run.step [OF ob_run.start]) (use ob_step.enter [of ?s 7] in \<open>simp add: d\<close>)
  have 2: "ob_run ?s (([] @ [Enter 7]) @ [Choose 7]) (?s\<lparr>senders := [Fast 7]\<rparr>)"
    by (rule ob_run.step [OF 1]) (use ob_step.choose_fast [of 7 "?s\<lparr>senders := [Passed 7]\<rparr>"] in \<open>simp add: d\<close>)
  have 3: "ob_run ?s ((([] @ [Enter 7]) @ [Choose 7]) @ [Sent 7]) (?s\<lparr>q := [7], accepted := [7]\<rparr>)"
    by (rule ob_run.step [OF 2]) (use ob_step.fast_put [of 7 "?s\<lparr>senders := [Fast 7]\<rparr>"] in \<open>simp add: d\<close>)
  have 4: "ob_run ?s (((([] @ [Enter 7]) @ [Choose 7]) @ [Sent 7]) @ [Take 7]) (?s\<lparr>writer := Writing 7, accepted := [7]\<rparr>)"
    by (rule ob_run.step [OF 3]) (use ob_step.take [of "?s\<lparr>q := [7], accepted := [7]\<rparr>" 7 "[]"] in \<open>simp add: d\<close>)
  let ?t = "?s\<lparr>writer := Writing 7, accepted := [7 :: nat]\<rparr>"
  have 5: "ob_run ?s ((((([] @ [Enter 7]) @ [Choose 7]) @ [Sent 7]) @ [Take 7]) @ [Enter 8]) (?t\<lparr>senders := [Passed 8]\<rparr>)"
    by (rule ob_run.step [OF 4]) (use ob_step.enter [of ?t 8] in \<open>simp add: d\<close>)
  have 6: "ob_run ?s (((((([] @ [Enter 7]) @ [Choose 7]) @ [Sent 7]) @ [Take 7]) @ [Enter 8]) @ [Choose 8]) (?t\<lparr>senders := [Fast 8]\<rparr>)"
    by (rule ob_run.step [OF 5]) (use ob_step.choose_fast [of 8 "?t\<lparr>senders := [Passed 8]\<rparr>"] in \<open>simp add: d\<close>)
  have 7: "ob_run ?s ((((((([] @ [Enter 7]) @ [Choose 7]) @ [Sent 7]) @ [Take 7]) @ [Enter 8]) @ [Choose 8]) @ [Sent 8]) (?t\<lparr>q := [8], accepted := [7, 8]\<rparr>)"
    by (rule ob_run.step [OF 6]) (use ob_step.fast_put [of 8 "?t\<lparr>senders := [Fast 8]\<rparr>"] in \<open>simp add: d\<close>)
  have 8: "ob_run ?s (((((((([] @ [Enter 7]) @ [Choose 7]) @ [Sent 7]) @ [Take 7]) @ [Enter 8]) @ [Choose 8]) @ [Sent 8]) @ [Wrote 7])
      (?t\<lparr>q := [8], accepted := [7, 8], writer := Idle, written := [7]\<rparr>)"
    by (rule ob_run.step [OF 7]) (use ob_step.wrote [of "?t\<lparr>q := [8], accepted := [7, 8]\<rparr>" 7] in \<open>simp add: d\<close>)
  moreover have "q (?t\<lparr>q := [8], accepted := [7, 8], writer := Idle, written := [7]\<rparr>) = [8 :: nat]" by simp
  ultimately show ?thesis unfolding witness_run_def append.simps by blast
qed

theorem outbox_fifo_witness:
  "\<exists>t. ob_run (NewOutbox 1 True) witness_run t
     \<and> sent_frames witness_run = wrote_frames witness_run @ in_hand (writer t) @ [8]"
  using witness_run_ok outbox_fifo [of 1 True witness_run] by metis

end
