(* ===== verification/Rescode.thy ===== *)
theory Rescode
  imports Jetway_Prelude
begin

text \<open>
  The reservation action and status codes (\<open>src/pkg/rescode/rescode.go\<close>): the table of the
  interline vocabulary, the questions asked of it and the holding a reply implies. The table
  is the source's, entry by entry, without the prose meanings. The property says that the
  hand-written switch of \<open>ReplyTo\<close> and the table never disagree.
\<close>

datatype category = CatUnknown | CatRequest | CatReply | CatHolding | CatCancel | CatAdvice

record code_info =
  ci_Category :: category
  ci_Confirmed :: bool
  ci_Waitlisted :: bool

definition info :: "category \<Rightarrow> bool \<Rightarrow> bool \<Rightarrow> code_info" where
  "info c k w = \<lparr>ci_Category = c, ci_Confirmed = k, ci_Waitlisted = w\<rparr>"

definition Codes :: "code_info strmap" where
  "Codes =
    [(''NN'', info CatRequest False False), (''LL'', info CatRequest False False),
     (''SS'', info CatRequest True False), (''DS'', info CatRequest False False),
     (''GN'', info CatRequest False False), (''PE'', info CatRequest False False),
     (''RQ'', info CatRequest False False),
     (''KK'', info CatReply True False), (''KL'', info CatReply True False),
     (''UC'', info CatReply False False), (''UN'', info CatReply False False),
     (''US'', info CatReply False True), (''UU'', info CatReply False True),
     (''NO'', info CatReply False False), (''TK'', info CatReply True False),
     (''TL'', info CatReply False True),
     (''HK'', info CatHolding True False), (''HL'', info CatHolding False True),
     (''HN'', info CatHolding False False), (''RR'', info CatHolding True False),
     (''PN'', info CatHolding False False),
     (''XX'', info CatCancel False False), (''XK'', info CatCancel False False),
     (''HX'', info CatCancel False False),
     (''SC'', info CatAdvice False False), (''WK'', info CatAdvice False False),
     (''WL'', info CatAdvice False False), (''WN'', info CatAdvice False False),
     (''IX'', info CatAdvice False False), (''DL'', info CatAdvice False False),
     (''MM'', info CatAdvice False False)]"

definition Info :: "string \<Rightarrow> code_info option" where
  "Info a = map_of Codes (ToUpper a)"

definition Category :: "string \<Rightarrow> category" where
  "Category a = (case Info a of Some c \<Rightarrow> ci_Category c | None \<Rightarrow> CatUnknown)"

definition Confirmed :: "string \<Rightarrow> bool" where
  "Confirmed a = (case Info a of Some c \<Rightarrow> ci_Confirmed c | None \<Rightarrow> False)"

definition Waitlisted :: "string \<Rightarrow> bool" where
  "Waitlisted a = (case Info a of Some c \<Rightarrow> ci_Waitlisted c | None \<Rightarrow> False)"

definition NeedsReply :: "string \<Rightarrow> bool" where
  "NeedsReply a \<longleftrightarrow> Category a = CatRequest"

definition ReplyTo :: "string \<Rightarrow> string option" where
  "ReplyTo reply =
     (let r = ToUpper reply
      in if r \<in> {''KK'', ''KL'', ''TK''} then Some ''HK''
         else if r \<in> {''US'', ''UU'', ''TL''} then Some ''HL''
         else if r \<in> {''UC'', ''UN'', ''NO''} then Some ''''
         else None)"

lemmas rescode_defs = Info_def Category_def Confirmed_def Waitlisted_def NeedsReply_def

text \<open>The switch on an upper-case code, checked against each row of the table.\<close>

definition reply_switch :: "string \<Rightarrow> string option" where
  "reply_switch r =
     (if r \<in> {''KK'', ''KL'', ''TK''} then Some ''HK''
      else if r \<in> {''US'', ''UU'', ''TL''} then Some ''HL''
      else if r \<in> {''UC'', ''UN'', ''NO''} then Some ''''
      else None)"

lemma ReplyTo_switch: "ReplyTo a = reply_switch (ToUpper a)"
  by (simp add: ReplyTo_def reply_switch_def Let_def)

lemma reply_switch_rows:
  "list_all (\<lambda>(k, c). reply_switch k =
     (if ci_Category c = CatReply
      then Some (if ci_Confirmed c then ''HK'' else if ci_Waitlisted c then ''HL'' else '''') else None)) Codes"
  by code_simp

definition reply_codes :: "string list" where
  "reply_codes = [''KK'', ''KL'', ''TK'', ''US'', ''UU'', ''TL'', ''UC'', ''UN'', ''NO'']"

lemma reply_codes_known: "list_all (\<lambda>r. r \<in> set (map fst Codes)) reply_codes"
  by code_simp

lemma reply_switch_None: "r \<notin> set reply_codes \<Longrightarrow> reply_switch r = None"
  by (simp add: reply_switch_def reply_codes_def)

lemma holding_codes [simp]: "Confirmed ''HK''" "\<not> Waitlisted ''HK''" "Waitlisted ''HL''" "\<not> Confirmed ''HL''"
  by code_simp+

text \<open>
  The switch that turns a reply into a holding agrees with the code table on every string:
  it answers exactly for the reply codes, holds confirmed exactly for a confirming reply and
  waitlisted exactly for a waitlisting one, and holds nothing for the refusals.
\<close>

theorem ReplyTo_agrees_with_table:
  "ReplyTo a =
     (if Category a = CatReply
      then Some (if Confirmed a then ''HK'' else if Waitlisted a then ''HL'' else '''')
      else None)"
proof (cases "Info a")
  case None
  then have "ToUpper a \<notin> set (map fst Codes)" by (simp add: Info_def map_of_eq_None_iff)
  with reply_codes_known have "ToUpper a \<notin> set reply_codes" unfolding list_all_iff by blast
  then have "ReplyTo a = None" unfolding ReplyTo_switch by (rule reply_switch_None)
  with None show ?thesis by (simp add: rescode_defs)
next
  case (Some c)
  then have "(ToUpper a, c) \<in> set Codes" by (simp add: Info_def map_of_SomeD)
  with reply_switch_rows Some show ?thesis
    by (auto simp: list_all_iff ReplyTo_switch Category_def Confirmed_def Waitlisted_def)
qed

end
