(* ===== verification/Pnr.thy ===== *)
theory Pnr
  imports Rescode
begin

text \<open>
  The canonical record (\<open>src/pkg/pnr/model.go\<close>, \<open>split.go\<close> and the documents of \<open>ticket.go\<close>
  and \<open>emd.go\<close> that the record carries): its data, the accessors, \<open>Recompute\<close>, \<open>Redacted\<close>
  and \<open>Divide\<close>. Times are nanoseconds since the epoch. The lemmas show that a division moves
  exactly the named passengers, leaves every reference pointing at the passenger it pointed at
  before, and neither creates nor loses a seat on a segment held for the whole party.
\<close>

type_synonym time = int

definition zero_time :: time where
  "zero_time = - 62135596800 * 1000000000"

section \<open>The record\<close>

definition StatusOpen :: string where "StatusOpen = ''open''"
definition StatusTicketed :: string where "StatusTicketed = ''ticketed''"
definition StatusCancelled :: string where "StatusCancelled = ''cancelled''"

definition SegmentAir :: string where "SegmentAir = ''air''"
definition SegmentSurface :: string where "SegmentSurface = ''surface''"
definition SegmentAux :: string where "SegmentAux = ''auxiliary''"

record passenger =
  px_Ref :: int
  Surname :: string
  Given :: string
  Title :: string
  px_Type :: string
  Infant :: bool
  FrequentFlyer :: "string list"

record segment =
  sg_Ref :: int
  sg_Type :: string
  Carrier :: string
  OperatingCarrier :: string
  FlightNum :: string
  Class :: string
  Depart :: time
  DepartTime :: string
  ArriveTime :: string
  Board :: string
  Off :: string
  FareBasis :: string
  sg_Status :: string
  Seats :: int
  CarrierLocator :: string
  WireDate :: string

record ssr =
  ssr_Code :: string
  ssr_Carrier :: string
  ssr_Status :: string
  ssr_Count :: int
  ssr_SegmentRef :: int
  ssr_PaxRef :: int
  ssr_Text :: string
  Sensitive :: bool

record contact =
  ct_Type :: string
  ct_Text :: string

record ticketing =
  tk_Text :: string
  Deadline :: "time option"

record external_locator =
  Owner :: string
  lv_Value :: string

record ticket_number =
  AirlineCode :: string
  Serial :: string

record association =
  as_Document :: ticket_number
  as_Coupon :: int
  as_SegmentRef :: int

record coupon =
  cp_Number :: int
  cp_SegmentRef :: int
  cp_Status :: string
  RFISC :: string
  Assoc :: association
  Amount :: string
  Currency :: string

record ticket =
  Number :: ticket_number
  DocType :: string
  RFIC :: string
  tkt_PaxRef :: int
  IssuedAt :: time
  IssuedBy :: string
  Coupons :: "coupon list"
  Conjunction :: "ticket_number list"
  RefundedAt :: "time option"
  ExchangedFrom :: "ticket_number option"

record pricing =
  pr_Currency :: string
  pr_Base :: int
  pr_Taxes :: int
  pr_Total :: int

text \<open>
  \<open>osi\<close>, remark and fragment are read by no operation modelled here beyond being copied; they
  are their text fields. The per-passenger breakdown of \<open>Pricing\<close> is left out.
\<close>

record pnr =
  ID :: string
  RecordLocator :: string
  pnr_Version :: int
  CreatedAt :: time
  UpdatedAt :: time
  pnr_Status :: string
  Passengers :: "passenger list"
  Segments :: "segment list"
  SSRs :: "ssr list"
  OSIs :: "(string \<times> string) list"
  Contacts :: "contact list"
  Ticketing :: "ticketing list"
  Remarks :: "string list"
  Locators :: "external_locator list"
  Pricing :: "pricing option"
  Tickets :: "ticket list"
  SplitFrom :: string
  SplitTo :: "string list"
  ReceivedFrom :: string
  pnr_Origin :: "string \<times> string \<times> string"
  Unparsed :: "(string \<times> string \<times> string) list"

definition zero_pnr :: pnr where
  "zero_pnr = \<lparr>ID = '''', RecordLocator = '''', pnr_Version = 0, CreatedAt = zero_time, UpdatedAt = zero_time,
     pnr_Status = '''', Passengers = [], Segments = [], SSRs = [], OSIs = [], Contacts = [], Ticketing = [],
     Remarks = [], Locators = [], Pricing = None, Tickets = [], SplitFrom = '''', SplitTo = [],
     ReceivedFrom = '''', pnr_Origin = ('''', '''', ''''), Unparsed = []\<rparr>"

section \<open>Accessors: \<open>model.go\<close>\<close>

definition Key :: "segment \<Rightarrow> string" where
  "Key s = Join [Carrier s, FlightNum s, Class s, WireDate s, Board s, Off s] ''|''"

definition titles :: "string list" where
  "titles = [''MSTR'', ''MISS'', ''MRS'', ''DR'', ''MR'', ''MS'']"

fun split_title :: "string \<Rightarrow> string list \<Rightarrow> string \<times> string" where
  "split_title g [] = (g, '''')"
| "split_title g (t # ts) =
     (if length g > length t \<and> HasSuffix g t then (take (length g - length t) g, t) else split_title g ts)"

definition SplitTitle :: "string \<Rightarrow> string \<times> string" where
  "SplitTitle given = split_title (TrimSpace given) titles"

text \<open>A pointer to a segment is its index.\<close>

fun find_index :: "('a \<Rightarrow> bool) \<Rightarrow> 'a list \<Rightarrow> nat option" where
  "find_index P [] = None"
| "find_index P (x # xs) = (if P x then Some 0 else map_option Suc (find_index P xs))"

definition SegmentByKey :: "pnr \<Rightarrow> string \<Rightarrow> nat option" where
  "SegmentByKey p key = find_index (\<lambda>s. Key s = key) (Segments p)"

definition SegmentByRef :: "pnr \<Rightarrow> int \<Rightarrow> nat option" where
  "SegmentByRef p ref = find_index (\<lambda>s. sg_Ref s = ref) (Segments p)"

fun locator_for :: "external_locator list \<Rightarrow> string \<Rightarrow> string option" where
  "locator_for [] owner = None"
| "locator_for (l # ls) owner = (if Owner l = owner then Some (lv_Value l) else locator_for ls owner)"

definition LocatorFor :: "pnr \<Rightarrow> string \<Rightarrow> string option" where
  "LocatorFor p owner = locator_for (Locators p) owner"

fun set_locator :: "string \<Rightarrow> string \<Rightarrow> external_locator list \<Rightarrow> external_locator list" where
  "set_locator owner v [] = [\<lparr>Owner = owner, lv_Value = v\<rparr>]"
| "set_locator owner v (l # ls) =
     (if Owner l = owner then l\<lparr>lv_Value := v\<rparr> # ls else l # set_locator owner v ls)"

definition SetLocator :: "string \<Rightarrow> string \<Rightarrow> pnr \<Rightarrow> pnr" where
  "SetLocator owner v p = p\<lparr>Locators := set_locator owner v (Locators p)\<rparr>"

fun carriers_loop :: "string list \<Rightarrow> segment list \<Rightarrow> string list" where
  "carriers_loop out [] = out"
| "carriers_loop out (s # ss) =
     (if Carrier s = '''' \<or> Carrier s \<in> set out then carriers_loop out ss
      else carriers_loop (out @ [Carrier s]) ss)"

definition Carriers :: "pnr \<Rightarrow> string list" where
  "Carriers p = carriers_loop [] (Segments p)"

definition AwaitingReply :: "pnr \<Rightarrow> bool" where
  "AwaitingReply p \<longleftrightarrow> (\<exists>s \<in> set (Segments p). sg_Status s = ''HN'' \<or> sg_Status s = ''PN'')"

definition segmentLive :: "string \<Rightarrow> bool" where
  "segmentLive status =
     (case Info status of
        None \<Rightarrow> True
      | Some i \<Rightarrow>
          (case ci_Category i of
             CatCancel \<Rightarrow> False
           | CatReply \<Rightarrow> ci_Confirmed i \<or> ci_Waitlisted i
           | CatAdvice \<Rightarrow> status \<noteq> ''IX'' \<and> status \<noteq> ''DL''
           | _ \<Rightarrow> True))"

fun renumber_from :: "(int \<Rightarrow> 'a \<Rightarrow> 'a) \<Rightarrow> int \<Rightarrow> 'a list \<Rightarrow> 'a list" where
  "renumber_from setref i [] = []"
| "renumber_from setref i (x # xs) = setref i x # renumber_from setref (i + 1) xs"

definition live_count :: "segment list \<Rightarrow> nat" where
  "live_count ss = length (filter (\<lambda>s. sg_Type s \<noteq> SegmentSurface \<and> sg_Type s \<noteq> SegmentAux
     \<and> segmentLive (sg_Status s)) ss)"

definition Recompute :: "pnr \<Rightarrow> pnr" where
  "Recompute p =
     (let p1 = p\<lparr>Segments := renumber_from (\<lambda>i s. s\<lparr>sg_Ref := i\<rparr>) 1 (Segments p),
                 Passengers := renumber_from (\<lambda>i x. x\<lparr>px_Ref := i\<rparr>) 1 (Passengers p)\<rparr>;
          live = live_count (Segments p1)
      in p1\<lparr>pnr_Status :=
             (if Segments p1 = [] \<or> live = 0 then StatusCancelled
              else if pnr_Status p1 = StatusTicketed then pnr_Status p1
              else StatusOpen)\<rparr>)"

definition Redacted :: "pnr \<Rightarrow> pnr" where
  "Redacted p = p\<lparr>SSRs := map (\<lambda>s. if Sensitive s then s\<lparr>ssr_Text := ''[redacted]''\<rparr> else s) (SSRs p),
                  Contacts := map (\<lambda>c. \<lparr>ct_Type = ct_Type c, ct_Text = ''[redacted]''\<rparr>) (Contacts p)\<rparr>"

section \<open>Division: \<open>split.go\<close>\<close>

datatype divide_error = NeedsOnePassenger | CannotSplitAll nat | NoSuchPassenger

text \<open>Go's \<open>/\<close> on \<open>int\<close> truncates towards zero; both operands are positive where it is used.\<close>

definition seatShare :: "int \<Rightarrow> int \<Rightarrow> int \<Rightarrow> int" where
  "seatShare seats share tot =
     (if tot \<le> 0 \<or> seats \<le> 0 then seats
      else if seats = tot then share
      else let n = seats * share div tot in if n < 1 then 1 else n)"

fun renumber_loop :: "int \<Rightarrow> int list \<Rightarrow> (int \<times> int) list \<Rightarrow> (int \<times> int) list" where
  "renumber_loop i [] m = m"
| "renumber_loop i (r # rs) m = renumber_loop (i + 1) rs (gm_put r (i + 1) m)"

definition renumber :: "int list \<Rightarrow> (int \<times> int) list" where
  "renumber old = renumber_loop 0 (sort old) []"

definition remap :: "(int \<times> int) list \<Rightarrow> int \<Rightarrow> int" where
  "remap m r = (case map_of m r of Some n \<Rightarrow> n | None \<Rightarrow> r)"

definition remapPassengerRefs :: "(int \<times> int) list \<Rightarrow> pnr \<Rightarrow> pnr" where
  "remapPassengerRefs m p =
     p\<lparr>SSRs := map (\<lambda>s. s\<lparr>ssr_PaxRef := remap m (ssr_PaxRef s)\<rparr>) (SSRs p),
       Tickets := map (\<lambda>t. t\<lparr>tkt_PaxRef := remap m (tkt_PaxRef t)\<rparr>) (Tickets p)\<rparr>"

definition hasPassenger :: "pnr \<Rightarrow> int \<Rightarrow> bool" where
  "hasPassenger p ref \<longleftrightarrow> (\<exists>x \<in> set (Passengers p). px_Ref x = ref)"

definition appendUnique :: "string list \<Rightarrow> string \<Rightarrow> string list" where
  "appendUnique xs v = (if v \<in> set xs then xs else xs @ [v])"

text \<open>\<open>Divide\<close> returns the mutated parent and the child.\<close>

definition Divide :: "pnr \<Rightarrow> int list \<Rightarrow> string \<Rightarrow> divide_error + (pnr \<times> pnr)" where
  "Divide p paxRefs childLocator =
     (let moving = (\<lambda>r. r \<in> set paxRefs);
          n_moving = length (remdups paxRefs)
      in if n_moving = 0 then Inl NeedsOnePassenger
         else if n_moving \<ge> length (Passengers p) then Inl (CannotSplitAll (length (Passengers p)))
         else if \<not> (\<forall>r \<in> set paxRefs. hasPassenger p r) then Inl NoSuchPassenger
         else
           let childPax = filter (\<lambda>x. moving (px_Ref x)) (Passengers p);
               keptPax = filter (\<lambda>x. \<not> moving (px_Ref x)) (Passengers p);
               childPaxOld = map px_Ref childPax;
               parentPaxOld = map px_Ref keptPax;
               moved = int (length childPax);
               kept = int (length keptPax);
               child = zero_pnr\<lparr>
                 RecordLocator := childLocator, pnr_Status := pnr_Status p,
                 CreatedAt := CreatedAt p, UpdatedAt := UpdatedAt p,
                 pnr_Origin := pnr_Origin p, ReceivedFrom := ReceivedFrom p,
                 SplitFrom := RecordLocator p,
                 Passengers := childPax,
                 Segments := map (\<lambda>s. s\<lparr>Seats := seatShare (Seats s) moved (moved + kept)\<rparr>) (Segments p),
                 Contacts := Contacts p, OSIs := OSIs p, Ticketing := Ticketing p, Remarks := Remarks p,
                 SSRs := filter (\<lambda>s. ssr_PaxRef s = 0 \<or> moving (ssr_PaxRef s)) (SSRs p),
                 Tickets := filter (\<lambda>t. moving (tkt_PaxRef t)) (Tickets p)\<rparr>;
               parent = p\<lparr>
                 Segments := map (\<lambda>s. s\<lparr>Seats := seatShare (Seats s) kept (moved + kept)\<rparr>) (Segments p),
                 Passengers := keptPax,
                 SSRs := filter (\<lambda>s. ssr_PaxRef s = 0 \<or> \<not> moving (ssr_PaxRef s)) (SSRs p),
                 Tickets := filter (\<lambda>t. \<not> moving (tkt_PaxRef t)) (Tickets p),
                 SplitTo := appendUnique (SplitTo p) childLocator\<rparr>
           in Inr (remapPassengerRefs (renumber parentPaxOld) (Recompute parent),
                   remapPassengerRefs (renumber childPaxOld) (Recompute child)))"

section \<open>References\<close>

lemma length_renumber_from [simp]: "length (renumber_from f i xs) = length xs"
  by (induction xs arbitrary: i) auto

lemma nth_renumber_from: "k < length xs \<Longrightarrow> renumber_from f i xs ! k = f (i + int k) (xs ! k)"
  by (induction xs arbitrary: i k) (auto simp: nth_Cons' ac_simps)

lemma map_renumber_from:
  "(\<And>i x. g (f i x) = g x) \<Longrightarrow> map g (renumber_from f i xs) = map g xs"
  by (induction xs arbitrary: i) auto

lemma filter_renumber_from:
  "(\<And>i x. P (f i x) = P x) \<Longrightarrow> length (filter P (renumber_from f i xs)) = length (filter P xs)"
  by (induction xs arbitrary: i) auto

lemma live_count_renumber [simp]:
  "live_count (renumber_from (\<lambda>i s. s\<lparr>sg_Ref := i\<rparr>) k ss) = live_count ss"
  unfolding live_count_def by (rule filter_renumber_from) simp

text \<open>References are dense when the k-th entry carries k, counting from one.\<close>

definition dense :: "('a \<Rightarrow> int) \<Rightarrow> 'a list \<Rightarrow> bool" where
  "dense ref xs \<longleftrightarrow> (\<forall>k < length xs. ref (xs ! k) = int k + 1)"

definition pnr_wf :: "pnr \<Rightarrow> bool" where
  "pnr_wf p \<longleftrightarrow> dense px_Ref (Passengers p) \<and> dense sg_Ref (Segments p)"

lemma dense_renumber_from: "(\<And>i x. ref (f i x) = i) \<Longrightarrow> dense ref (renumber_from f 1 xs)"
  by (simp add: dense_def nth_renumber_from)

lemma Recompute_wf [simp]: "pnr_wf (Recompute p)"
  by (simp add: pnr_wf_def Recompute_def Let_def dense_renumber_from)

lemma Recompute_sel [simp]:
  "Passengers (Recompute p) = renumber_from (\<lambda>i x. x\<lparr>px_Ref := i\<rparr>) 1 (Passengers p)"
  "Segments (Recompute p) = renumber_from (\<lambda>i s. s\<lparr>sg_Ref := i\<rparr>) 1 (Segments p)"
  "SSRs (Recompute p) = SSRs p" "Tickets (Recompute p) = Tickets p"
  by (simp_all add: Recompute_def Let_def)

lemma remapPassengerRefs_sel [simp]:
  "Passengers (remapPassengerRefs m p) = Passengers p" "Segments (remapPassengerRefs m p) = Segments p"
  "SSRs (remapPassengerRefs m p) = map (\<lambda>s. s\<lparr>ssr_PaxRef := remap m (ssr_PaxRef s)\<rparr>) (SSRs p)"
  "Tickets (remapPassengerRefs m p) = map (\<lambda>t. t\<lparr>tkt_PaxRef := remap m (tkt_PaxRef t)\<rparr>) (Tickets p)"
  by (simp_all add: remapPassengerRefs_def)

lemma dense_sorted: "dense ref xs \<Longrightarrow> sorted (map ref xs)"
  by (simp add: dense_def sorted_iff_nth_mono)

lemma dense_distinct: "dense ref xs \<Longrightarrow> distinct (map ref xs)"
  by (simp add: dense_def distinct_conv_nth)

lemma dense_refs: "dense ref xs \<Longrightarrow> (\<exists>x \<in> set xs. ref x = r) \<longleftrightarrow> 1 \<le> r \<and> r \<le> int (length xs)"
proof -
  assume d: "dense ref xs"
  have "\<exists>x \<in> set xs. ref x = r" if "1 \<le> r" "r \<le> int (length xs)"
  proof (rule bexI [of _ "xs ! nat (r - 1)"])
    have "nat (r - 1) < length xs" using that by linarith
    with d that show "ref (xs ! nat (r - 1)) = r" "xs ! nat (r - 1) \<in> set xs"
      by (auto simp: dense_def)
  qed
  with d show ?thesis by (auto simp: dense_def in_set_conv_nth)
qed

subsection \<open>Renumbering\<close>

lemma renumber_loop_other: "r \<notin> set rs \<Longrightarrow> map_of (renumber_loop i rs m) r = map_of m r"
  by (induction i rs m rule: renumber_loop.induct) auto

lemma renumber_loop_nth:
  "distinct rs \<Longrightarrow> k < length rs \<Longrightarrow> map_of (renumber_loop i rs m) (rs ! k) = Some (i + int k + 1)"
proof (induction i rs m arbitrary: k rule: renumber_loop.induct)
  case (2 i r rs m)
  then show ?case by (cases k) (auto simp: renumber_loop_other)
qed simp

lemma remap_renumber_nth:
  "sorted rs \<Longrightarrow> distinct rs \<Longrightarrow> k < length rs \<Longrightarrow> remap (renumber rs) (rs ! k) = int k + 1"
  by (simp add: remap_def renumber_def sorted_sort_id renumber_loop_nth)

lemma remap_renumber_other: "r \<notin> set rs \<Longrightarrow> remap (renumber rs) r = r"
  by (simp add: remap_def renumber_def renumber_loop_other)

text \<open>The passenger a reference names, apart from the number itself.\<close>

definition who :: "passenger list \<Rightarrow> int \<Rightarrow> passenger option" where
  "who ps r = map_option (\<lambda>x. x\<lparr>px_Ref := 0\<rparr>) (find (\<lambda>x. px_Ref x = r) ps)"

lemma find_distinct_nth:
  "distinct (map ref xs) \<Longrightarrow> k < length xs \<Longrightarrow> find (\<lambda>x. ref x = ref (xs ! k)) xs = Some (xs ! k)"
proof (induction xs arbitrary: k)
  case (Cons x xs)
  then show ?case by (cases k) (auto simp: image_iff)
qed simp

lemma who_None: "(\<forall>x \<in> set ps. px_Ref x \<noteq> r) \<Longrightarrow> who ps r = None"
  by (simp add: who_def find_None_iff)

lemma who_nth: "distinct (map px_Ref ps) \<Longrightarrow> k < length ps \<Longrightarrow> who ps (px_Ref (ps ! k)) = Some ((ps ! k)\<lparr>px_Ref := 0\<rparr>)"
  by (simp add: who_def find_distinct_nth)

lemma who_filter:
  assumes "distinct (map px_Ref ps)" "\<And>x. x \<in> set ps \<Longrightarrow> px_Ref x = r \<Longrightarrow> P x"
  shows "who (filter P ps) r = who ps r"
  using assms(2) by (induction ps) (auto simp: who_def)

lemma who_renumbered:
  assumes "sorted (map px_Ref ps)" "distinct (map px_Ref ps)" "x \<in> set ps"
  shows "who (renumber_from (\<lambda>i x. x\<lparr>px_Ref := i\<rparr>) 1 ps) (remap (renumber (map px_Ref ps)) (px_Ref x)) = who ps (px_Ref x)"
proof -
  let ?ps = "renumber_from (\<lambda>i x. x\<lparr>px_Ref := i\<rparr>) 1 ps"
  from assms(3) obtain k where k: "k < length ps" "x = ps ! k" by (metis in_set_conv_nth)
  have "remap (renumber (map px_Ref ps)) (px_Ref x) = px_Ref (?ps ! k)"
    using remap_renumber_nth [OF assms(1,2), of k] k by (simp add: nth_renumber_from)
  moreover have "distinct (map px_Ref ?ps)" by (rule dense_distinct) (simp add: dense_renumber_from)
  ultimately show ?thesis
    using k who_nth [of ?ps k] who_nth [OF assms(2) k(1)] by (simp add: nth_renumber_from)
qed

text \<open>
  Where a reference ends up on one side of a division. \<open>P\<close> says which references stay on that
  side: zero and dangling references name nobody before and after.
\<close>

lemma who_side:
  assumes d: "dense px_Ref ps" and r: "P r \<or> r = 0 \<or> (\<forall>x \<in> set ps. px_Ref x \<noteq> r)"
  defines "qs \<equiv> filter (\<lambda>x. P (px_Ref x)) ps"
  shows "who (renumber_from (\<lambda>i x. x\<lparr>px_Ref := i\<rparr>) 1 qs) (remap (renumber (map px_Ref qs)) r) = who ps r"
proof (cases "\<exists>x \<in> set ps. px_Ref x = r")
  case True
  then obtain x where x: "x \<in> set ps" "px_Ref x = r" by blast
  with r dense_refs [OF d, of r] True have "P r" by auto
  with x have "x \<in> set qs" by (simp add: qs_def)
  moreover have "sorted (map px_Ref qs)" "distinct (map px_Ref qs)"
    unfolding qs_def using dense_sorted [OF d] dense_distinct [OF d]
    by (auto simp: sorted_filter distinct_map_filter)
  ultimately have "who (renumber_from (\<lambda>i x. x\<lparr>px_Ref := i\<rparr>) 1 qs) (remap (renumber (map px_Ref qs)) r) = who qs r"
    using who_renumbered [of qs x] x(2) by simp
  also have "who qs r = who ps r"
    unfolding qs_def using dense_distinct [OF d] \<open>P r\<close> by (intro who_filter) auto
  finally show ?thesis .
next
  case False
  let ?qs = "renumber_from (\<lambda>i x. x\<lparr>px_Ref := i\<rparr>) 1 qs"
  have dq: "dense px_Ref ?qs" by (simp add: dense_renumber_from)
  have "remap (renumber (map px_Ref qs)) r = r"
    using False by (intro remap_renumber_other) (auto simp: qs_def)
  moreover have "\<not> (\<exists>x \<in> set ?qs. px_Ref x = r)"
  proof -
    have "length qs \<le> length ps" by (simp add: qs_def)
    with False show ?thesis unfolding dense_refs [OF dq] dense_refs [OF d] by (simp, linarith)
  qed
  ultimately show ?thesis using False by (simp add: who_None)
qed

section \<open>Division\<close>

lemma seatShare_whole: "0 < moved + kept \<Longrightarrow> seatShare (moved + kept) moved (moved + kept) = moved"
  by (simp add: seatShare_def)

lemma seatShare_positive: "0 < seats \<Longrightarrow> 0 < share \<Longrightarrow> 0 < tot \<Longrightarrow> 1 \<le> seatShare seats share tot"
  by (auto simp: seatShare_def Let_def)

lemma seatShare_at_most: "0 < seats \<Longrightarrow> 0 \<le> share \<Longrightarrow> share \<le> tot \<Longrightarrow> seatShare seats share tot \<le> seats"
proof -
  assume h: "0 < seats" "0 \<le> share" "share \<le> tot"
  have "seats * share div tot \<le> seats" if "0 < tot"
  proof -
    have "seats * share div tot \<le> seats * tot div tot"
      using h that by (intro zdiv_mono1 mult_left_mono) auto
    with that show ?thesis by simp
  qed
  with h show ?thesis by (auto simp: seatShare_def Let_def)
qed

lemma Divide_InrD:
  assumes "Divide p refs loc = Inr (parent, child)"
  shows "refs \<noteq> []" "length (remdups refs) < length (Passengers p)" "\<forall>r \<in> set refs. hasPassenger p r"
  using assms by (auto simp: Divide_def Let_def split: if_splits)

lemma Divide_child:
  assumes "Divide p refs loc = Inr (parent, child)"
  defines "qs \<equiv> filter (\<lambda>x. px_Ref x \<in> set refs) (Passengers p)"
  shows "Passengers child = renumber_from (\<lambda>i x. x\<lparr>px_Ref := i\<rparr>) 1 qs"
    and "SSRs child = map (\<lambda>s. s\<lparr>ssr_PaxRef := remap (renumber (map px_Ref qs)) (ssr_PaxRef s)\<rparr>)
           (filter (\<lambda>s. ssr_PaxRef s = 0 \<or> ssr_PaxRef s \<in> set refs) (SSRs p))"
    and "Tickets child = map (\<lambda>t. t\<lparr>tkt_PaxRef := remap (renumber (map px_Ref qs)) (tkt_PaxRef t)\<rparr>)
           (filter (\<lambda>t. tkt_PaxRef t \<in> set refs) (Tickets p))"
    and "map Seats (Segments child) = map (\<lambda>s. seatShare (Seats s) (int (length qs)) (int (length (Passengers p)))) (Segments p)"
  using assms(1) sum_length_filter_compl [of "\<lambda>x. px_Ref x \<in> set refs" "Passengers p"]
  by (auto simp: Divide_def Let_def qs_def map_renumber_from comp_def simp flip: of_nat_add split: if_splits)

lemma Divide_parent:
  assumes "Divide p refs loc = Inr (parent, child)"
  defines "qs \<equiv> filter (\<lambda>x. px_Ref x \<notin> set refs) (Passengers p)"
  shows "Passengers parent = renumber_from (\<lambda>i x. x\<lparr>px_Ref := i\<rparr>) 1 qs"
    and "SSRs parent = map (\<lambda>s. s\<lparr>ssr_PaxRef := remap (renumber (map px_Ref qs)) (ssr_PaxRef s)\<rparr>)
           (filter (\<lambda>s. ssr_PaxRef s = 0 \<or> ssr_PaxRef s \<notin> set refs) (SSRs p))"
    and "Tickets parent = map (\<lambda>t. t\<lparr>tkt_PaxRef := remap (renumber (map px_Ref qs)) (tkt_PaxRef t)\<rparr>)
           (filter (\<lambda>t. tkt_PaxRef t \<notin> set refs) (Tickets p))"
    and "map Seats (Segments parent) = map (\<lambda>s. seatShare (Seats s) (int (length qs)) (int (length (Passengers p)))) (Segments p)"
  using assms(1) sum_length_filter_compl [of "\<lambda>x. px_Ref x \<in> set refs" "Passengers p"]
  by (auto simp: Divide_def Let_def qs_def map_renumber_from comp_def simp flip: of_nat_add split: if_splits)

text \<open>A special service or a document, apart from the reference, with the passenger it names.\<close>

definition owned_ssr :: "passenger list \<Rightarrow> ssr \<Rightarrow> ssr \<times> passenger option" where
  "owned_ssr ps s = (s\<lparr>ssr_PaxRef := 0\<rparr>, who ps (ssr_PaxRef s))"

definition owned_ticket :: "passenger list \<Rightarrow> ticket \<Rightarrow> ticket \<times> passenger option" where
  "owned_ticket ps t = (t\<lparr>tkt_PaxRef := 0\<rparr>, who ps (tkt_PaxRef t))"

text \<open>
  C25: a division keeps every special service and every document with its passenger. On a record
  whose references are dense, the child holds exactly the services of the moved passengers and
  of nobody in particular, the parent exactly those of the others and of nobody in particular,
  each naming on its new record the same passenger it named before, although passengers are
  renumbered on both; documents follow their passenger the same way.
\<close>

theorem divide_keeps_ownership:
  assumes "pnr_wf p" "Divide p refs loc = Inr (parent, child)"
  shows "map (owned_ssr (Passengers child)) (SSRs child) =
         map (owned_ssr (Passengers p)) (filter (\<lambda>s. ssr_PaxRef s = 0 \<or> ssr_PaxRef s \<in> set refs) (SSRs p))
       \<and> map (owned_ssr (Passengers parent)) (SSRs parent) =
         map (owned_ssr (Passengers p)) (filter (\<lambda>s. ssr_PaxRef s = 0 \<or> ssr_PaxRef s \<notin> set refs) (SSRs p))
       \<and> map (owned_ticket (Passengers child)) (Tickets child) =
         map (owned_ticket (Passengers p)) (filter (\<lambda>t. tkt_PaxRef t \<in> set refs) (Tickets p))
       \<and> map (owned_ticket (Passengers parent)) (Tickets parent) =
         map (owned_ticket (Passengers p)) (filter (\<lambda>t. tkt_PaxRef t \<notin> set refs) (Tickets p))"
  using assms(1) unfolding Divide_child [OF assms(2)] Divide_parent [OF assms(2)] pnr_wf_def
  by (auto simp: owned_ssr_def owned_ticket_def who_side [where P = "\<lambda>r. r \<in> set refs"]
      who_side [where P = "\<lambda>r. r \<notin> set refs"])

definition demo_pax :: "int \<Rightarrow> string \<Rightarrow> passenger" where
  "demo_pax r name = \<lparr>px_Ref = r, Surname = name, Given = ''A'', Title = '''', px_Type = ''A'', Infant = False,
     FrequentFlyer = []\<rparr>"

definition demo_seg :: "int \<Rightarrow> int \<Rightarrow> segment" where
  "demo_seg r seats = \<lparr>sg_Ref = r, sg_Type = ''air'', Carrier = ''BA'', OperatingCarrier = '''', FlightNum = ''175'',
     Class = ''Y'', Depart = 0, DepartTime = '''', ArriveTime = '''', Board = ''LHR'', Off = ''JFK'', FareBasis = '''',
     sg_Status = ''HK'', Seats = seats, CarrierLocator = ''XYZ'', WireDate = ''12AUG''\<rparr>"

definition demo_ssr :: "int \<Rightarrow> string \<Rightarrow> ssr" where
  "demo_ssr r code = \<lparr>ssr_Code = code, ssr_Carrier = ''BA'', ssr_Status = ''HK'', ssr_Count = 1, ssr_SegmentRef = 1,
     ssr_PaxRef = r, ssr_Text = '''', Sensitive = False\<rparr>"

definition demo_pnr :: pnr where
  "demo_pnr = zero_pnr\<lparr>ID := ''1'', RecordLocator := ''ABC23D'', pnr_Version := 1, pnr_Status := ''open'',
     Passengers := [demo_pax 1 ''SMITH'', demo_pax 2 ''JONES'', demo_pax 3 ''BROWN''],
     Segments := [demo_seg 1 3], SSRs := [demo_ssr 3 ''VGML'', demo_ssr 2 ''WCHR'', demo_ssr 0 ''OTHS'']\<rparr>"

lemma demo_pnr_wf: "pnr_wf demo_pnr"
  by (auto simp: pnr_wf_def dense_def demo_pnr_def demo_pax_def demo_seg_def less_Suc_eq numeral_2_eq_2)

definition demo_split :: "divide_error + (pnr \<times> pnr)" where
  "demo_split = Divide demo_pnr [2] ''CHILD2''"

lemma demo_split_ok: "\<exists>parent child. Divide demo_pnr [2] ''CHILD2'' = Inr (parent, child)
    \<and> map ssr_PaxRef (SSRs child) = [1, 0] \<and> map ssr_PaxRef (SSRs parent) = [2, 0]"
proof -
  have "case demo_split of Inl _ \<Rightarrow> False | Inr (parent, child) \<Rightarrow>
      map ssr_PaxRef (SSRs child) = [1, 0] \<and> map ssr_PaxRef (SSRs parent) = [2, 0]"
    by code_simp
  then show ?thesis by (auto simp: demo_split_def split: sum.splits)
qed

theorem divide_keeps_ownership_witness:
  "\<exists>parent child. pnr_wf demo_pnr \<and> Divide demo_pnr [2] ''CHILD2'' = Inr (parent, child)
     \<and> map ssr_PaxRef (SSRs parent) = [2, 0]
     \<and> map (owned_ssr (Passengers parent)) (SSRs parent) =
       map (owned_ssr (Passengers demo_pnr)) [demo_ssr 3 ''VGML'', demo_ssr 0 ''OTHS'']"
proof -
  obtain parent child where d: "Divide demo_pnr [2] ''CHILD2'' = Inr (parent, child)"
    and r: "map ssr_PaxRef (SSRs parent) = [2, 0]" by (rule exE [OF demo_split_ok], elim exE conjE, rule that)
  have "filter (\<lambda>s. ssr_PaxRef s = 0 \<or> ssr_PaxRef s \<notin> set [2]) (SSRs demo_pnr) = [demo_ssr 3 ''VGML'', demo_ssr 0 ''OTHS'']"
    by (simp add: demo_pnr_def demo_ssr_def)
  with divide_keeps_ownership [OF demo_pnr_wf d] d r demo_pnr_wf show ?thesis by metis
qed

text \<open>
  C26: a division partitions the party and its seats. Each passenger of the record is on exactly
  one of the two records afterwards, in the original order, the moved ones being those named;
  neither record is empty; both are numbered densely; and on every segment held for the whole
  party the two seat counts are the two party sizes, so their sum is what was held.
\<close>

theorem divide_partitions:
  assumes "pnr_wf p" "Divide p refs loc = Inr (parent, child)"
  shows "map (\<lambda>x. x\<lparr>px_Ref := 0\<rparr>) (Passengers child) =
           map (\<lambda>x. x\<lparr>px_Ref := 0\<rparr>) (filter (\<lambda>x. px_Ref x \<in> set refs) (Passengers p))
       \<and> map (\<lambda>x. x\<lparr>px_Ref := 0\<rparr>) (Passengers parent) =
           map (\<lambda>x. x\<lparr>px_Ref := 0\<rparr>) (filter (\<lambda>x. px_Ref x \<notin> set refs) (Passengers p))
       \<and> Passengers child \<noteq> [] \<and> Passengers parent \<noteq> []
       \<and> pnr_wf parent \<and> pnr_wf child
       \<and> length (Segments parent) = length (Segments p) \<and> length (Segments child) = length (Segments p)
       \<and> (\<forall>k < length (Segments p). Seats (Segments p ! k) = int (length (Passengers p)) \<longrightarrow>
            Seats (Segments child ! k) = int (length (Passengers child))
          \<and> Seats (Segments parent ! k) = int (length (Passengers parent))
          \<and> Seats (Segments child ! k) + Seats (Segments parent ! k) = Seats (Segments p ! k))"
  (is "?c \<and> ?p \<and> ?ce \<and> ?pe \<and> ?pw \<and> ?cw \<and> ?pl \<and> ?cl \<and> ?seats")
proof (intro conjI)
  note ch = Divide_child [OF assms(2)] and pa = Divide_parent [OF assms(2)] and pre = Divide_InrD [OF assms(2)]
  let ?m = "filter (\<lambda>x. px_Ref x \<in> set refs) (Passengers p)"
  let ?k = "filter (\<lambda>x. px_Ref x \<notin> set refs) (Passengers p)"
  have split: "length ?m + length ?k = length (Passengers p)" by (rule sum_length_filter_compl)
  show ?c ?p unfolding ch(1) pa(1) by (simp_all add: map_renumber_from)
  from pre(1,3) obtain r where "r \<in> set refs" "hasPassenger p r" by (cases refs) auto
  then have "?m \<noteq> []" by (auto simp: hasPassenger_def filter_empty_conv)
  then show ?ce unfolding ch(1) by (metis length_renumber_from length_0_conv)
  have "map px_Ref ?m = filter (\<lambda>r. r \<in> set refs) (map px_Ref (Passengers p))" by (simp add: filter_map comp_def)
  then have "distinct (map px_Ref ?m)" using assms(1) dense_distinct by (metis distinct_filter pnr_wf_def)
  then have "length ?m = card (set (map px_Ref ?m))" by (metis distinct_card length_map)
  also have "\<dots> \<le> card (set refs)" by (intro card_mono) auto
  also have "\<dots> = length (remdups refs)" by (simp add: length_remdups_card_conv)
  also have "\<dots> < length (Passengers p)" by (rule pre(2))
  finally have "?k \<noteq> []" using split by (metis add.right_neutral list.size(3) less_irrefl)
  then show ?pe unfolding pa(1) by (metis length_renumber_from length_0_conv)
  show ?pw ?cw using assms(2)
    by (auto simp: Divide_def Let_def pnr_wf_def dense_renumber_from split: if_splits)
  show lens: ?pl ?cl using ch(4) pa(4) by (metis length_map)+
  show ?seats
  proof (intro allI impI)
    fix k assume k: "k < length (Segments p)" "Seats (Segments p ! k) = int (length (Passengers p))"
    then have s: "Seats (Segments child ! k) = seatShare (int (length (Passengers p))) (int (length ?m)) (int (length (Passengers p)))"
      "Seats (Segments parent ! k) = seatShare (int (length (Passengers p))) (int (length ?k)) (int (length (Passengers p)))"
      using ch(4) pa(4) lens by (metis length_map nth_map)+
    have "0 < int (length (Passengers p))" using pre(2) by linarith
    with s split k show "Seats (Segments child ! k) = int (length (Passengers child))
          \<and> Seats (Segments parent ! k) = int (length (Passengers parent))
          \<and> Seats (Segments child ! k) + Seats (Segments parent ! k) = Seats (Segments p ! k)"
      by (auto simp: seatShare_def ch(1) pa(1) simp flip: of_nat_add)
  qed
qed

theorem divide_partitions_witness:
  "\<exists>parent child. pnr_wf demo_pnr \<and> Divide demo_pnr [2] ''CHILD2'' = Inr (parent, child)
     \<and> Seats (Segments child ! 0) + Seats (Segments parent ! 0) = 3"
proof -
  obtain parent child where d: "Divide demo_pnr [2] ''CHILD2'' = Inr (parent, child)"
    by (rule exE [OF demo_split_ok], elim exE conjE, rule that)
  have "0 < length (Segments demo_pnr)" "Seats (Segments demo_pnr ! 0) = int (length (Passengers demo_pnr))"
    "int (length (Passengers demo_pnr)) = 3"
    by (simp_all add: demo_pnr_def demo_seg_def)
  with divide_partitions [OF demo_pnr_wf d] d demo_pnr_wf show ?thesis by metis
qed

text \<open>
  On a segment whose seat count is not the party size, the two shares of a division need not
  add up to what was held. One seat held for a party of three is a seat on each record after one
  passenger leaves, and three seats held for a party of two are one on each: the arithmetic both
  invents and gives back seats, while each half stays between one and the original count.
\<close>

theorem seatShare_not_conservative:
  "seatShare 1 1 3 + seatShare 1 2 3 > 1 \<and> seatShare 3 1 2 + seatShare 3 1 2 < 3"
  by (simp add: seatShare_def)

end
