(* ===== verification/Locator.thy ===== *)
theory Locator
  imports Jetway_Prelude
begin

text \<open>
  Record locator allocation (\<open>src/pkg/pnr/locator.go\<close>): the keyed Feistel network over a
  30-bit counter, the base-32 rendering, and the checks on a locator that arrives from outside.
  SHA-256 and HMAC are parameters: every statement holds for any hash. The lemmas show that the
  network permutes the code space whatever the round function is, so distinct counters modulo
  \<open>2 ^ 30\<close> get distinct locators and every well-formed locator is the one of some counter.
\<close>

section \<open>The allocator\<close>

definition LocatorAlphabet :: string where
  "LocatorAlphabet = ''ABCDEFGHJKLMNPQRSTUVWXYZ23456789''"

definition LocatorLength :: nat where "LocatorLength = 6"

definition LocatorSpace :: "64 word" where "LocatorSpace = push_bit 30 1"

definition feistelRounds :: nat where "feistelRounds = 6"

record locator_allocator =
  la_key :: bytes

definition NewLocatorAllocator :: "(bytes \<Rightarrow> bytes) \<Rightarrow> bytes \<Rightarrow> locator_allocator" where
  "NewLocatorAllocator sha256 secret = \<lparr>la_key = sha256 secret\<rparr>"

definition locator_round ::
  "(bytes \<Rightarrow> bytes \<Rightarrow> bytes) \<Rightarrow> locator_allocator \<Rightarrow> 32 word \<Rightarrow> nat \<Rightarrow> 32 word" where
  "locator_round hmac a r i =
     (let buf = put_u32_be r @ put_u32_be (of_nat i); h = hmac (la_key a) buf in
      u32_be (h ! 0) (h ! 1) (h ! 2) (h ! 3) AND 0x7FFF)"

definition feistel_step :: "(32 word \<Rightarrow> nat \<Rightarrow> 32 word) \<Rightarrow> nat \<Rightarrow> 32 word \<times> 32 word \<Rightarrow> 32 word \<times> 32 word" where
  "feistel_step rd i lr = (snd lr, fst lr XOR rd (snd lr) i)"

definition permute :: "(bytes \<Rightarrow> bytes \<Rightarrow> bytes) \<Rightarrow> locator_allocator \<Rightarrow> 32 word \<Rightarrow> 32 word" where
  "permute hmac a n =
     (let (l, r) = fold (feistel_step (locator_round hmac a)) [0..<feistelRounds]
                     (drop_bit 15 n AND 0x7FFF, n AND 0x7FFF)
      in push_bit 15 l OR r)"

fun alloc_loop :: "nat \<Rightarrow> 32 word \<Rightarrow> string \<Rightarrow> string" where
  "alloc_loop 0 n out = out"
| "alloc_loop (Suc i) n out = alloc_loop i (drop_bit 5 n) (LocatorAlphabet ! unat (n AND 31) # out)"

definition Allocate :: "(bytes \<Rightarrow> bytes \<Rightarrow> bytes) \<Rightarrow> locator_allocator \<Rightarrow> 64 word \<Rightarrow> string" where
  "Allocate hmac a counter = alloc_loop LocatorLength (permute hmac a (ucast (counter mod LocatorSpace))) []"

definition ValidLocator :: "string \<Rightarrow> bool" where
  "ValidLocator s \<longleftrightarrow> length s = LocatorLength \<and> list_all (\<lambda>c. c \<in> set LocatorAlphabet) s"

definition NormaliseLocator :: "string \<Rightarrow> string + string" where
  "NormaliseLocator s0 =
     (let s = filter (\<lambda>c. c \<notin> set '' -.'') (ToUpper (TrimSpace s0)) in
      if ValidLocator s then Inr s else Inl s)"

section \<open>The Feistel network is a permutation\<close>

lemma xor_cancel_right: "a XOR x = b XOR x \<Longrightarrow> a = (b :: 32 word)"
  by (metis xor.assoc xor_self_eq xor.right_neutral)

lemma feistel_step_inj: "feistel_step rd i p = feistel_step rd i q \<Longrightarrow> p = q"
  by (cases p; cases q) (auto simp: feistel_step_def dest: xor_cancel_right)

lemma feistel_inj: "fold (feistel_step rd) is p = fold (feistel_step rd) is q \<Longrightarrow> p = q"
proof (induction "is" arbitrary: p q)
  case (Cons i rest)
  then have "feistel_step rd i p = feistel_step rd i q" by simp
  then show ?case by (rule feistel_step_inj)
qed simp

abbreviation halves :: "32 word \<times> 32 word \<Rightarrow> bool" where
  "halves p \<equiv> fst p AND 0x7FFF = fst p \<and> snd p AND 0x7FFF = snd p"

lemma feistel_halves:
  assumes "\<And>r i. rd r i AND 0x7FFF = rd r i" and "halves p"
  shows "halves (fold (feistel_step rd) is p)"
  using assms(2)
proof (induction "is" arbitrary: p)
  case (Cons i rest)
  have "(fst p XOR rd (snd p) i) AND 0x7FFF = (fst p AND 0x7FFF) XOR (rd (snd p) i AND 0x7FFF)"
    by (rule bit_word_eqI) (auto simp: bit_simps)
  then have "halves (feistel_step rd i p)" using Cons.prems assms(1) by (simp add: feistel_step_def)
  then show ?case using Cons.IH by simp
qed simp

lemma mask15: "(0x7FFF :: 32 word) = mask 15" "(31 :: 32 word) = mask 5"
  by (simp_all add: mask_eq_exp_minus_1)

lemma half_bits: "x AND 0x7FFF = (x :: 32 word) \<Longrightarrow> bit x k \<Longrightarrow> k < 15"
  by (metis bit_and_iff bit_mask_iff mask15(1))

lemma join_halves:
  assumes "halves (l, r)"
  shows "drop_bit 15 (push_bit 15 l OR r) = l" "(push_bit 15 l OR r) AND 0x7FFF = r"
    "take_bit 30 (push_bit 15 l OR r) = push_bit 15 l OR r"
proof -
  note hb = half_bits [of l] half_bits [of r]
  show "drop_bit 15 (push_bit 15 l OR r) = l"
    using assms by (intro bit_word_eqI) (auto simp: bit_simps dest: hb)
  show "(push_bit 15 l OR r) AND 0x7FFF = r"
    using assms hb by (intro bit_word_eqI) (auto simp: mask15 bit_simps)
  show "take_bit 30 (push_bit 15 l OR r) = push_bit 15 l OR r"
    using assms by (intro bit_word_eqI) (auto simp: bit_simps dest: hb)
qed

lemma split_halves:
  "drop_bit 15 n AND 0x7FFF = drop_bit 15 m AND 0x7FFF \<Longrightarrow> n AND 0x7FFF = m AND 0x7FFF
    \<Longrightarrow> take_bit 30 n = take_bit 30 (m :: 32 word)"
proof (rule bit_word_eqI)
  fix k assume h: "drop_bit 15 n AND 0x7FFF = drop_bit 15 m AND 0x7FFF" "n AND 0x7FFF = m AND 0x7FFF"
    and "k < LENGTH(32)"
  have "k < 15 \<Longrightarrow> bit n k = bit m k" using arg_cong [OF h(2), of "\<lambda>w. bit w k"] by (simp add: mask15 bit_simps)
  moreover have "15 \<le> k \<Longrightarrow> k < 30 \<Longrightarrow> bit n k = bit m k"
    using arg_cong [OF h(1), of "\<lambda>w. bit w (k - 15)"] by (auto simp: mask15 bit_simps)
  ultimately show "bit (take_bit 30 n) k = bit (take_bit 30 m) k"
    by (cases "k < 15") (auto simp: bit_simps)
qed

lemma permute_range: "take_bit 30 (permute hmac a n) = permute hmac a n"
  and permute_inj: "permute hmac a n = permute hmac a m \<Longrightarrow> take_bit 30 n = take_bit 30 m"
proof -
  let ?f = "fold (feistel_step (locator_round hmac a)) [0..<feistelRounds]"
  let ?s = "\<lambda>n :: 32 word. (drop_bit 15 n AND 0x7FFF, n AND 0x7FFF)"
  have h: "halves (?f (?s n))" for n
    by (rule feistel_halves) (simp_all add: locator_round_def Let_def and.assoc)
  have p: "permute hmac a n = push_bit 15 (fst (?f (?s n))) OR snd (?f (?s n))" for n
    by (simp add: permute_def case_prod_beta)
  show "take_bit 30 (permute hmac a n) = permute hmac a n"
    unfolding p by (rule join_halves(3)) (use h [of n] in simp)
  assume "permute hmac a n = permute hmac a m"
  then have "?f (?s n) = ?f (?s m)"
    using h [of n] h [of m] by (metis p join_halves(1,2) prod.collapse)
  then have "?s n = ?s m" by (rule feistel_inj)
  then show "take_bit 30 n = take_bit 30 m" by (intro split_halves) simp_all
qed

section \<open>Rendering\<close>

lemma unat_take_low: "k \<le> 32 \<Longrightarrow> unat (take_bit k n) = unat (n :: 32 word) mod 2 ^ k"
  unfolding unsigned_take_bit_eq by (rule take_bit_eq_mod)

fun loc_digits :: "nat \<Rightarrow> nat \<Rightarrow> string" where
  "loc_digits 0 m = []"
| "loc_digits (Suc k) m = loc_digits k (m div 32) @ [LocatorAlphabet ! (m mod 32)]"

lemma alloc_loop_digits: "alloc_loop k n out = loc_digits k (unat n) @ out"
proof (induction k arbitrary: n out)
  case (Suc k)
  have "unat (drop_bit 5 n) = unat n div 32" 
    unfolding drop_bit_eq_div by (simp add: unat_div)
  moreover have "unat (n AND 31) = unat n mod 32"
    unfolding mask15 take_bit_eq_mask [symmetric] by (subst unat_take_low) simp_all
  ultimately show ?case using Suc by simp
qed simp

lemma alphabet_facts: "distinct LocatorAlphabet" "length LocatorAlphabet = 32"
  "list_all is_upalnum LocatorAlphabet"
  by code_simp+

lemma loc_digits_inj: "loc_digits k m = loc_digits k n \<Longrightarrow> m mod 32 ^ k = n mod 32 ^ k"
proof (induction k arbitrary: m n)
  case (Suc k)
  have "loc_digits k (m div 32) = loc_digits k (n div 32)"
    and l: "LocatorAlphabet ! (m mod 32) = LocatorAlphabet ! (n mod 32)"
    using Suc.prems by simp_all
  from Suc.IH [OF this(1)] have "m div 32 mod 32 ^ k = n div 32 mod 32 ^ k" .
  moreover have "m mod 32 = n mod 32"
    using l nth_eq_iff_index_eq [OF alphabet_facts(1), of "m mod 32" "n mod 32"] alphabet_facts(2) by simp
  ultimately show ?case unfolding power_Suc mod_mult2_eq by simp
qed simp

lemma loc_digits_shape: "length (loc_digits k m) = k \<and> set (loc_digits k m) \<subseteq> set LocatorAlphabet"
  by (induction k arbitrary: m) (auto simp: alphabet_facts)

definition slot :: "64 word \<Rightarrow> 32 word" where
  "slot c = ucast (c mod LocatorSpace)"

lemma Allocate_digits: "Allocate hmac a c = loc_digits 6 (unat (permute hmac a (slot c)))"
  by (simp add: Allocate_def alloc_loop_digits slot_def LocatorLength_def)

lemma slot_eq: "take_bit 30 (slot c) = slot c" "slot c = slot d \<longleftrightarrow> c mod LocatorSpace = d mod LocatorSpace"
proof -
  have m: "c mod LocatorSpace = take_bit 30 c" for c
    by (simp add: LocatorSpace_def take_bit_eq_mod)
  show "take_bit 30 (slot c) = slot c" by (rule bit_word_eqI) (auto simp: slot_def m bit_simps)
  show "slot c = slot d \<longleftrightarrow> c mod LocatorSpace = d mod LocatorSpace"
  proof
    assume e: "slot c = slot d"
    have "bit c k = bit d k" if "k < 30" for k
      using arg_cong [OF e, of "\<lambda>w. bit w k"] that by (simp add: slot_def m bit_simps)
    then show "c mod LocatorSpace = d mod LocatorSpace"
      unfolding m by (intro bit_word_eqI) (auto simp: bit_simps)
  qed (simp add: slot_def)
qed

lemma Allocate_eq_iff: "Allocate hmac a c = Allocate hmac a d \<longleftrightarrow> c mod LocatorSpace = d mod LocatorSpace"
proof
  assume "Allocate hmac a c = Allocate hmac a d"
  then have "unat (permute hmac a (slot c)) mod 32 ^ 6 = unat (permute hmac a (slot d)) mod 32 ^ 6"
    unfolding Allocate_digits by (rule loc_digits_inj)
  then have "unat (take_bit 30 (permute hmac a (slot c))) = unat (take_bit 30 (permute hmac a (slot d)))"
    by (simp add: unat_take_low)
  then have "permute hmac a (slot c) = permute hmac a (slot d)"
    unfolding permute_range by (simp add: word_unat_eq_iff)
  then show "c mod LocatorSpace = d mod LocatorSpace" using permute_inj slot_eq by metis
qed (simp add: Allocate_def)

lemma Allocate_valid: "ValidLocator (Allocate hmac a c)"
  using loc_digits_shape [of 6] by (auto simp: ValidLocator_def Allocate_digits LocatorLength_def list_all_iff)

lemma NormaliseLocator_valid: "ValidLocator s \<Longrightarrow> NormaliseLocator s = Inr s"
proof -
  assume v: "ValidLocator s"
  then have up: "list_all is_upalnum s" using alphabet_facts(3) by (auto simp: ValidLocator_def list_all_iff)
  then have "TrimSpace s = s" "ToUpper s = s" by (auto simp: list_all_iff)
  moreover have "list_all (\<lambda>c. c \<notin> set '' -.'') LocatorAlphabet" by code_simp
  then have "filter (\<lambda>c. c \<notin> set '' -.'') s = s"
    using v unfolding filter_id_conv ValidLocator_def list_all_iff by blast
  ultimately show ?thesis using v by (simp add: NormaliseLocator_def)
qed

lemma card_valid: "finite {s. ValidLocator s}" "card {s. ValidLocator s} = 2 ^ 30"
proof -
  have e: "{s. ValidLocator s} = {xs. set xs \<subseteq> set LocatorAlphabet \<and> length xs = 6}"
    by (auto simp: ValidLocator_def LocatorLength_def list_all_iff)
  show "finite {s. ValidLocator s}" unfolding e by (rule finite_lists_length_eq) simp
  show "card {s. ValidLocator s} = 2 ^ 30"
    unfolding e by (simp add: card_lists_length_eq distinct_card alphabet_facts)
qed

lemma card_counters: "card {c :: 64 word. c < LocatorSpace} = 2 ^ 30"
proof -
  have s: "unat LocatorSpace = 2 ^ 30" by (simp add: LocatorSpace_def)
  have "bij_betw unat {c :: 64 word. c < LocatorSpace} {..<2 ^ 30}"
    unfolding bij_betw_def
  proof
    show "unat ` {c :: 64 word. c < LocatorSpace} = {..<2 ^ 30}"
    proof (intro equalityI subsetI)
      fix n :: nat assume "n \<in> {..<2 ^ 30}"
      then have "unat (of_nat n :: 64 word) = n" by (simp add: unat_of_nat take_bit_eq_mod)
      then show "n \<in> unat ` {c :: 64 word. c < LocatorSpace}"
        using \<open>n \<in> _\<close> by (intro image_eqI [where x = "of_nat n"]) (simp_all add: word_less_nat_alt s)
    qed (auto simp: word_less_nat_alt s)
  qed (simp add: inj_on_def word_unat_eq_iff)
  then show ?thesis by (metis bij_betw_same_card card_lessThan)
qed

text \<open>
  C28: the locator allocator is a bijection from counters onto the code space, whatever the keyed
  hash is. Two counters give the same locator exactly when they agree modulo the size of the
  space; over one lap of the counter every well-formed locator is issued exactly once; and what
  is issued passes the checks applied to a locator typed back in, unchanged.
\<close>

theorem locator_allocation_bijective:
  "(\<forall>c d. Allocate hmac a c = Allocate hmac a d \<longleftrightarrow> c mod LocatorSpace = d mod LocatorSpace)
   \<and> bij_betw (Allocate hmac a) {c. c < LocatorSpace} {s. ValidLocator s}
   \<and> (\<forall>c. NormaliseLocator (Allocate hmac a c) = Inr (Allocate hmac a c))"
proof (intro conjI allI)
  show "Allocate hmac a c = Allocate hmac a d \<longleftrightarrow> c mod LocatorSpace = d mod LocatorSpace" for c d
    by (rule Allocate_eq_iff)
  have inj: "inj_on (Allocate hmac a) {c. c < LocatorSpace}"
    by (auto simp: inj_on_def Allocate_eq_iff mod_word_less)
  moreover have "Allocate hmac a ` {c. c < LocatorSpace} = {s. ValidLocator s}"
    by (rule card_subset_eq) (auto simp: card_valid card_image [OF inj] card_counters Allocate_valid)
  ultimately show "bij_betw (Allocate hmac a) {c. c < LocatorSpace} {s. ValidLocator s}"
    by (simp add: bij_betw_def)
qed (simp add: NormaliseLocator_valid Allocate_valid)

end
