(* ===== verification/Ticket.thy ===== *)
theory Ticket
  imports Pnr
begin

text \<open>
  Electronic documents on a record (\<open>src/pkg/pnr/ticket.go\<close> and \<open>emd.go\<close>): document numbers
  and their check digit, coupon statuses, the rules a document is validated against, whether a
  record is ticketed, and the deadline it still owes. The lemmas show the round trip of a number
  through its two printed forms, exactly which mistyped digits the check digit catches, and that
  \<open>Ticketed\<close> and \<open>NextDeadline\<close> answer the questions their names ask.
\<close>

section \<open>Document numbers\<close>

datatype ticket_error = NotATicketNumber | SerialTooShort nat | SerialNotNumeric | BadAirlineCode | BadSerialLength

definition all_digits_n :: "nat \<Rightarrow> string \<Rightarrow> bool" where
  "all_digits_n n s \<longleftrightarrow> length s = n \<and> all_digits s"

text \<open>The expression \<open>^(\d{3})[- ]?(\d{10})$\<close> and its two submatches.\<close>

definition ticketRe :: "string \<Rightarrow> (string \<times> string) option" where
  "ticketRe s =
     (let code = take 3 s; rest = drop 3 s;
          serial = (if rest \<noteq> [] \<and> (hd rest = CHR ''-'' \<or> hd rest = CHR '' '') then tl rest else rest)
      in if all_digits_n 3 code \<and> all_digits_n 10 serial then Some (code, serial) else None)"

definition ParseTicketNumber :: "string \<Rightarrow> ticket_error + ticket_number" where
  "ParseTicketNumber s =
     (case ticketRe (TrimSpace s) of
        None \<Rightarrow> Inl NotATicketNumber
      | Some (c, n) \<Rightarrow> Inr \<lparr>AirlineCode = c, Serial = n\<rparr>)"

definition ticket_String :: "ticket_number \<Rightarrow> string" where
  "ticket_String t = (if AirlineCode t = '''' \<and> Serial t = '''' then '''' else AirlineCode t @ ''-'' @ Serial t)"

definition Compact :: "ticket_number \<Rightarrow> string" where
  "Compact t = AirlineCode t @ Serial t"

definition ticket_IsZero :: "ticket_number \<Rightarrow> bool" where
  "ticket_IsZero t \<longleftrightarrow> AirlineCode t = '''' \<and> Serial t = ''''"

text \<open>\<open>strconv.ParseUint(s, 10, 64)\<close>: decimal digits only, no sign, and less than \<open>2 ^ 64\<close>.\<close>

definition ParseUint :: "string \<Rightarrow> nat option" where
  "ParseUint s = (if s \<noteq> [] \<and> all_digits s \<and> dec_val s < 2 ^ 64 then Some (dec_val s) else None)"

definition CheckDigit :: "string \<Rightarrow> ticket_error + nat" where
  "CheckDigit serial =
     (if length serial < 9 then Inl (SerialTooShort (length serial))
      else case ParseUint (take 9 serial) of None \<Rightarrow> Inl SerialNotNumeric | Some n \<Rightarrow> Inr (n mod 7))"

definition CheckDigitOK :: "ticket_number \<Rightarrow> bool" where
  "CheckDigitOK t =
     (if length (Serial t) \<noteq> 10 then False
      else case CheckDigit (Serial t) of
             Inl _ \<Rightarrow> False
           | Inr want \<Rightarrow> Atoi (drop 9 (Serial t)) = Some (int want))"

definition NewTicketNumber :: "string \<Rightarrow> string \<Rightarrow> ticket_error + ticket_number" where
  "NewTicketNumber airlineCode serial9 =
     (if length airlineCode \<noteq> 3 then Inl BadAirlineCode
      else if length serial9 \<noteq> 9 then Inl BadSerialLength
      else case CheckDigit serial9 of
             Inl e \<Rightarrow> Inl e
           | Inr cd \<Rightarrow> Inr \<lparr>AirlineCode = airlineCode, Serial = serial9 @ Itoa cd\<rparr>)"

section \<open>Coupons\<close>

datatype coupon_class = ClassOpen | ClassInterim | ClassFinal | ClassUnknown

record coupon_info =
  cpi_Meaning :: string
  cpi_Class :: coupon_class

definition couponStatuses :: "coupon_info strmap" where
  "couponStatuses =
     map (\<lambda>(s, m, c). (s, \<lparr>cpi_Meaning = m, cpi_Class = c\<rparr>))
     [(''O'', ''open for use'', ClassOpen),
      (''A'', ''airport control'', ClassInterim),
      (''Y'', ''refund taxes, fees and charges only'', ClassInterim),
      (''S'', ''suspended'', ClassInterim),
      (''U'', ''unavailable'', ClassInterim),
      (''C'', ''checked in'', ClassInterim),
      (''I'', ''irregular operations'', ClassInterim),
      (''L'', ''lifted or boarded'', ClassInterim),
      (''P'', ''printed'', ClassInterim),
      (''X'', ''print exchange'', ClassInterim),
      (''E'', ''exchanged or reissued'', ClassFinal),
      (''G'', ''exchanged against a flight interruption manifest'', ClassFinal),
      (''F'', ''used'', ClassFinal),
      (''R'', ''refunded'', ClassFinal),
      (''V'', ''void'', ClassFinal),
      (''Z'', ''closed'', ClassFinal)]"

definition CouponOpen :: string where "CouponOpen = ''O''"
definition CouponPrinted :: string where "CouponPrinted = ''P''"
definition CouponPrintExchange :: string where "CouponPrintExchange = ''X''"

definition coupon_Meaning :: "string \<Rightarrow> string" where
  "coupon_Meaning c = (case map_of couponStatuses c of None \<Rightarrow> '''' | Some i \<Rightarrow> cpi_Meaning i)"

definition coupon_Class :: "string \<Rightarrow> coupon_class" where
  "coupon_Class c = (case map_of couponStatuses c of None \<Rightarrow> ClassUnknown | Some i \<Rightarrow> cpi_Class i)"

definition Final :: "string \<Rightarrow> bool" where
  "Final c \<longleftrightarrow> coupon_Class c = ClassFinal"

definition Usable :: "string \<Rightarrow> bool" where
  "Usable c = (case coupon_Class c of ClassOpen \<Rightarrow> True | ClassInterim \<Rightarrow> True | _ \<Rightarrow> False)"

definition MaxCoupons :: nat where "MaxCoupons = 4"

section \<open>Documents\<close>

definition DocTicket :: string where "DocTicket = ''T''"
definition DocEMDA :: string where "DocEMDA = ''A''"
definition DocEMDS :: string where "DocEMDS = ''S''"

definition IsEMD :: "string \<Rightarrow> bool" where
  "IsEMD d \<longleftrightarrow> d = DocEMDA \<or> d = DocEMDS"

definition rficMeaning :: "string strmap" where
  "rficMeaning = [(''A'', ''air transportation''), (''B'', ''surface transportation and non-air services''),
     (''C'', ''baggage''), (''D'', ''financial impact''), (''E'', ''airport services''),
     (''F'', ''merchandise''), (''G'', ''in-flight services'')]"

definition RFIC_Known :: "string \<Rightarrow> bool" where
  "RFIC_Known r \<longleftrightarrow> map_of rficMeaning r \<noteq> None"

definition association_IsZero :: "association \<Rightarrow> bool" where
  "association_IsZero a \<longleftrightarrow> ticket_IsZero (as_Document a) \<and> as_Coupon a = 0"

definition emdForbiddenStatuses :: "string list" where
  "emdForbiddenStatuses = [CouponPrinted, CouponPrintExchange]"

definition SupportsStatus :: "string \<Rightarrow> string \<Rightarrow> bool" where
  "SupportsStatus d s =
     (if coupon_Class s = ClassUnknown then False
      else if IsEMD d \<and> s \<in> set emdForbiddenStatuses then False
      else True)"

datatype document_error =
  NoCoupons | TooManyCoupons nat | UnsupportedStatus string | TicketHasRFIC | NeedsRFIC string
  | NeedsRFISC int | AssociatedToNothing int | ClaimsAssociation int

fun check_statuses :: "string \<Rightarrow> coupon list \<Rightarrow> document_error option" where
  "check_statuses typ [] = None"
| "check_statuses typ (c # cs) =
     (if \<not> SupportsStatus typ (cp_Status c) then Some (UnsupportedStatus (cp_Status c)) else check_statuses typ cs)"

fun check_value_coupons :: "string \<Rightarrow> coupon list \<Rightarrow> document_error option" where
  "check_value_coupons typ [] = None"
| "check_value_coupons typ (c # cs) =
     (if TrimSpace (RFISC c) = '''' then Some (NeedsRFISC (cp_Number c))
      else if typ = DocEMDA \<and> association_IsZero (Assoc c) then Some (AssociatedToNothing (cp_Number c))
      else if typ = DocEMDS \<and> \<not> association_IsZero (Assoc c) then Some (ClaimsAssociation (cp_Number c))
      else check_value_coupons typ cs)"

definition ticket_Validate :: "ticket \<Rightarrow> document_error option" where
  "ticket_Validate t =
     (let typ = (if DocType t = '''' then DocTicket else DocType t) in
      if Coupons t = [] then Some NoCoupons
      else if length (Coupons t) > MaxCoupons then Some (TooManyCoupons (length (Coupons t)))
      else case check_statuses typ (Coupons t) of
             Some e \<Rightarrow> Some e
           | None \<Rightarrow>
               if \<not> IsEMD typ then (if RFIC t \<noteq> '''' then Some TicketHasRFIC else None)
               else if \<not> RFIC_Known (RFIC t) then Some (NeedsRFIC (RFIC t))
               else check_value_coupons typ (Coupons t))"

definition EMDs :: "pnr \<Rightarrow> ticket list" where
  "EMDs p = filter (\<lambda>t. IsEMD (DocType t)) (Tickets p)"

definition FlightTickets :: "pnr \<Rightarrow> ticket list" where
  "FlightTickets p = filter (\<lambda>t. \<not> IsEMD (DocType t)) (Tickets p)"

definition Associated :: "pnr \<Rightarrow> ticket_number \<Rightarrow> int \<Rightarrow> coupon list" where
  "Associated p document cpn =
     concat (map (\<lambda>t. if DocType t \<noteq> DocEMDA then []
                      else filter (\<lambda>c. as_Coupon (Assoc c) = cpn
                                     \<and> Compact (as_Document (Assoc c)) = Compact document) (Coupons t))
            (Tickets p))"

definition Refunded :: "ticket \<Rightarrow> bool" where
  "Refunded t = (if RefundedAt t = None then False
                 else list_all (\<lambda>c. cp_Status c \<noteq> CouponOpen) (Coupons t))"

definition Covers :: "ticket \<Rightarrow> int \<Rightarrow> bool" where
  "Covers t segmentRef = list_ex (\<lambda>c. cp_SegmentRef c = segmentRef \<and> Usable (cp_Status c)) (Coupons t)"

fun segments_covered :: "ticket list \<Rightarrow> int \<Rightarrow> segment list \<Rightarrow> bool" where
  "segments_covered flight pax [] = True"
| "segments_covered flight pax (s # ss) =
     (if sg_Type s \<noteq> SegmentAir \<or> sg_Status s = ''XX'' then segments_covered flight pax ss
      else if \<not> list_ex (\<lambda>t. tkt_PaxRef t = pax \<and> Covers t (sg_Ref s)) flight then False
      else segments_covered flight pax ss)"

definition Ticketed :: "pnr \<Rightarrow> bool" where
  "Ticketed p =
     (let flight = FlightTickets p in
      if flight = [] \<or> Passengers p = [] then False
      else list_all (\<lambda>x. segments_covered flight (px_Ref x) (Segments p)) (Passengers p))"

definition TicketFor :: "pnr \<Rightarrow> int \<Rightarrow> ticket option" where
  "TicketFor p paxRef = find (\<lambda>t. tkt_PaxRef t = paxRef) (Tickets p)"

fun soonest_loop :: "time option \<Rightarrow> ticketing list \<Rightarrow> time option" where
  "soonest_loop soonest [] = soonest"
| "soonest_loop soonest (t # ts) =
     (case Deadline t of
        None \<Rightarrow> soonest_loop soonest ts
      | Some d \<Rightarrow>
          (case soonest of
             None \<Rightarrow> soonest_loop (Some d) ts
           | Some b \<Rightarrow> soonest_loop (if d < b then Some d else soonest) ts))"

definition NextDeadline :: "pnr \<Rightarrow> time option" where
  "NextDeadline p =
     (if pnr_Status p = StatusCancelled \<or> Ticketed p then None else soonest_loop None (Ticketing p))"

section \<open>Numbers: round trip and check digit\<close>

lemma digits_nospace: "all_digits s \<Longrightarrow> c \<in> set s \<Longrightarrow> \<not> is_space c"
  by (auto simp: all_digits_def list_all_iff is_digit_def is_space_def)

definition ticket_wf :: "ticket_number \<Rightarrow> bool" where
  "ticket_wf t \<longleftrightarrow> all_digits_n 3 (AirlineCode t) \<and> all_digits_n 10 (Serial t)"

lemma ticketRe_forms:
  assumes "all_digits_n 3 c" "all_digits_n 10 n"
  shows "ticketRe (c @ n) = Some (c, n)" "ticketRe (c @ CHR ''-'' # n) = Some (c, n)"
proof -
  from assms(2) have "n \<noteq> []" by (auto simp: all_digits_n_def)
  then have "is_digit (hd n)" using assms(2) by (cases n) (auto simp: all_digits_n_def all_digits_def)
  then have h: "hd n \<noteq> CHR ''-'' \<and> hd n \<noteq> CHR '' ''" by (auto simp: is_digit_def)
  show "ticketRe (c @ n) = Some (c, n)" using assms h by (auto simp: ticketRe_def all_digits_n_def Let_def)
  show "ticketRe (c @ CHR ''-'' # n) = Some (c, n)" using assms by (auto simp: ticketRe_def all_digits_n_def Let_def)
qed

lemma Parse_forms:
  assumes "ticket_wf t"
  shows "ParseTicketNumber (Compact t) = Inr t" "ParseTicketNumber (ticket_String t) = Inr t"
proof -
  let ?c = "AirlineCode t" and ?n = "Serial t"
  from assms have w: "all_digits_n 3 ?c" "all_digits_n 10 ?n" by (simp_all add: ticket_wf_def)
  then have ne: "?c \<noteq> []" "?n \<noteq> []" by (auto simp: all_digits_n_def)
  then have sp: "\<not> is_space (hd ?c)" "\<not> is_space (last ?n)"
    using w digits_nospace by (auto simp: all_digits_n_def)
  have "TrimSpace (?c @ ?n) = ?c @ ?n" "TrimSpace (?c @ CHR ''-'' # ?n) = ?c @ CHR ''-'' # ?n"
    using ne sp by (auto intro!: TrimSpace_ends)
  then show "ParseTicketNumber (Compact t) = Inr t" "ParseTicketNumber (ticket_String t) = Inr t"
    using ne by (simp_all add: ParseTicketNumber_def Compact_def ticket_String_def ticketRe_forms w)
qed

lemma dec_val_append: "dec_val (a @ b) = dec_val a * 10 ^ length b + dec_val b"
proof (induction b rule: rev_induct)
  case (snoc c b)
  show ?case using snoc by (simp flip: append_assoc add: algebra_simps)
qed (simp add: dec_val.simps)

lemma digit_val_less: "is_digit c \<Longrightarrow> digit_val c < 10"
  by (auto simp: is_digit_def digit_val_def)

lemma digit_eqI: "is_digit a \<Longrightarrow> is_digit b \<Longrightarrow> digit_val a = digit_val b \<Longrightarrow> a = b"
proof -
  assume "is_digit a" "is_digit b" "digit_val a = digit_val b"
  then have "(of_char a :: nat) = of_char b" unfolding is_digit_def digit_val_def by linarith
  then show ?thesis by (simp only: of_char_eq_iff)
qed

lemma dec_val_bound: "all_digits s \<Longrightarrow> dec_val s < 10 ^ length s"
proof (induction s rule: rev_induct)
  case (snoc c s)
  then have "digit_val c < 10" "dec_val s < 10 ^ length s" by (auto simp: all_digits_def intro: digit_val_less)
  then show ?case by simp
qed (simp add: dec_val.simps)

lemma CheckDigit_digits:
  assumes "all_digits (take 9 s)" "9 \<le> length s"
  shows "CheckDigit s = Inr (dec_val (take 9 s) mod 7)"
proof -
  have "dec_val (take 9 s) < 10 ^ 9" using dec_val_bound [OF assms(1)] assms(2) by simp
  then have "dec_val (take 9 s) < 2 ^ 64" by simp
  then show ?thesis using assms by (auto simp: CheckDigit_def ParseUint_def)
qed

lemma CheckDigit_InrD: "CheckDigit s = Inr d \<Longrightarrow> 9 \<le> length s \<and> all_digits (take 9 s) \<and> d = dec_val (take 9 s) mod 7"
  by (auto simp: CheckDigit_def ParseUint_def split: if_splits)

lemma CheckDigitOK_iff:
  assumes "all_digits_n 10 (Serial t)"
  shows "CheckDigitOK t \<longleftrightarrow> digit_val (Serial t ! 9) = dec_val (take 9 (Serial t)) mod 7"
proof -
  let ?s = "Serial t"
  from assms have l: "length ?s = 10" and d: "all_digits ?s" by (simp_all add: all_digits_n_def)
  have "drop 9 ?s = [?s ! 9]" using l by (simp add: Cons_nth_drop_Suc [symmetric])
  moreover have "is_digit (?s ! 9)" using d l by (simp add: all_digits_def list_all_length)
  then have "Atoi [?s ! 9] = Some (int (digit_val (?s ! 9)))"
    using digit_val_less [of "?s ! 9"] by (subst Atoi_digits) (simp_all add: all_digits_def)
  moreover have "all_digits (take 9 ?s)" using d by (metis all_digits_snoc append_take_drop_id)
  ultimately show ?thesis using l by (simp add: CheckDigitOK_def CheckDigit_digits)
qed

text \<open>
  A document number that \<open>NewTicketNumber\<close> builds from a three-digit code survives both of
  its printed forms, hyphenated and solid, carries a check digit that \<open>CheckDigitOK\<close> accepts,
  and that digit is the only one accepted behind the nine it was computed from.
\<close>

theorem ticket_number_roundtrip:
  assumes "NewTicketNumber code serial9 = Inr t" "all_digits code"
  shows "ParseTicketNumber (ticket_String t) = Inr t \<and> ParseTicketNumber (Compact t) = Inr t
       \<and> AirlineCode t = code \<and> take 9 (Serial t) = serial9
       \<and> (\<forall>c. is_digit c \<longrightarrow> CheckDigitOK \<lparr>AirlineCode = code, Serial = serial9 @ [c]\<rparr> \<longleftrightarrow> Serial t = serial9 @ [c])"
proof -
  let ?d = "dec_val serial9 mod 7"
  from assms(1) have l: "length code = 3" "length serial9 = 9" and cd: "CheckDigit serial9 = Inr ?d"
    and t: "t = \<lparr>AirlineCode = code, Serial = serial9 @ Itoa ?d\<rparr>"
    by (auto simp: NewTicketNumber_def split: if_splits sum.splits dest: CheckDigit_InrD)
  have dg: "all_digits serial9" using CheckDigit_InrD [OF cd] l by simp
  have "?d < 10" by (rule less_trans [of _ 7]) simp_all
  then have it: "Itoa ?d = [digit_char ?d]" by (subst Itoa.simps) simp
  have "all_digits (Itoa ?d)" by simp
  then have "ticket_wf t" using l dg assms(2) it by (simp add: t ticket_wf_def all_digits_n_def)
  moreover have "CheckDigitOK \<lparr>AirlineCode = code, Serial = serial9 @ [c]\<rparr> \<longleftrightarrow> Serial t = serial9 @ [c]"
    if c: "is_digit c" for c
  proof -
    have "(digit_val c = ?d) = (c = digit_char ?d)"
      using c \<open>?d < 10\<close> digit_eqI [of c "digit_char ?d"] by auto
    moreover have "(serial9 @ [c]) ! 9 = c" using l by (metis nth_append_length)
    ultimately show ?thesis using l dg c
      by (subst CheckDigitOK_iff) (auto simp: all_digits_n_def all_digits_def t it)
  qed
  ultimately show ?thesis using l by (auto simp: Parse_forms t)
qed

theorem ticket_number_roundtrip_witness:
  "NewTicketNumber ''125'' ''123456789'' = Inr \<lparr>AirlineCode = ''125'', Serial = ''1234567891''\<rparr>
   \<and> ParseTicketNumber ''125-1234567891'' = Inr \<lparr>AirlineCode = ''125'', Serial = ''1234567891''\<rparr>"
proof -
  have "CheckDigit ''123456789'' = Inr 1"
    by (subst CheckDigit_digits) (simp_all add: all_digits_def is_digit_def dec_val.simps digit_val_def)
  moreover have "Itoa 1 = ''1''" by code_simp
  ultimately have n: "NewTicketNumber ''125'' ''123456789'' = Inr \<lparr>AirlineCode = ''125'', Serial = ''1234567891''\<rparr>"
    by (simp add: NewTicketNumber_def)
  have "all_digits ''125''" by code_simp
  from ticket_number_roundtrip [OF n this] n show ?thesis by (simp add: ticket_String_def)
qed

lemma seven_dvd_shift: "(7 :: int) dvd x * 10 ^ k \<longleftrightarrow> 7 dvd x"
proof (induction k)
  case (Suc k)
  have "(7 :: int) dvd 10 * y \<longleftrightarrow> 7 dvd y" for y by presburger
  from this [of "x * 10 ^ k"] show ?case using Suc by (simp add: mult.left_commute)
qed simp

lemma mod_7_eq_iff: "m mod 7 = n mod 7 \<longleftrightarrow> (7 :: int) dvd int m - int n"
proof -
  have "m mod 7 = n mod 7 \<longleftrightarrow> int (m mod 7) = int (n mod 7)" by (rule of_nat_eq_iff [symmetric])
  also have "\<dots> \<longleftrightarrow> int m mod 7 = int n mod 7" by (simp only: zmod_int of_nat_numeral)
  finally show ?thesis by (simp only: mod_eq_dvd_iff)
qed

lemma dec_val_update:
  assumes "i < length s"
  shows "int (dec_val (s[i := c])) - int (dec_val s)
       = (int (digit_val c) - int (digit_val (s ! i))) * 10 ^ (length s - Suc i)"
proof -
  have s: "s = take i s @ s ! i # drop (Suc i) s" by (rule id_take_nth_drop [OF assms])
  have u: "s[i := c] = take i s @ c # drop (Suc i) s" by (rule upd_conv_take_nth_drop [OF assms])
  have split: "dec_val (a # xs) = digit_val a * 10 ^ length xs + dec_val xs" for a xs
    using dec_val_append [of "[a]" xs] by simp
  have "dec_val s = dec_val (take i s) * 10 ^ (length s - i) + (digit_val (s ! i) * 10 ^ (length s - Suc i) + dec_val (drop (Suc i) s))"
    using assms by (subst s, subst dec_val_append) (simp add: split Suc_diff_Suc)
  moreover have "dec_val (s[i := c]) = dec_val (take i s) * 10 ^ (length s - i) + (digit_val c * 10 ^ (length s - Suc i) + dec_val (drop (Suc i) s))"
    using assms by (subst u, subst dec_val_append) (simp add: split Suc_diff_Suc)
  ultimately show ?thesis by (simp add: algebra_simps)
qed

text \<open>
  What the check digit catches. On a number it accepts, changing the check digit itself is
  always caught, and changing one of the nine digits before it is caught exactly when the old and
  the new digit differ modulo seven: the confusions 0-7, 1-8 and 2-9 are the only single-digit
  errors that pass.
\<close>

theorem check_digit_detects:
  assumes "ticket_wf t" "CheckDigitOK t" "i < 10" "is_digit c"
  shows "CheckDigitOK (t\<lparr>Serial := (Serial t)[i := c]\<rparr>) \<longleftrightarrow>
         (if i = 9 then c = Serial t ! 9 else digit_val c mod 7 = digit_val (Serial t ! i) mod 7)"
proof -
  let ?s = "Serial t" and ?u = "(Serial t)[i := c]"
  from assms(1) have l: "length ?s = 10" and d: "all_digits ?s" by (simp_all add: ticket_wf_def all_digits_n_def)
  have du: "all_digits_n 10 ?u"
    using d l assms(3,4) by (simp add: all_digits_n_def all_digits_def list_all_length nth_list_update)
  have ok: "digit_val (?s ! 9) = dec_val (take 9 ?s) mod 7"
    using assms(1,2) CheckDigitOK_iff [of t] by (simp add: ticket_wf_def)
  have "CheckDigitOK (t\<lparr>Serial := ?u\<rparr>) \<longleftrightarrow> digit_val (?u ! 9) = dec_val (take 9 ?u) mod 7"
    using du by (subst CheckDigitOK_iff) simp_all
  also have "\<dots> \<longleftrightarrow> (if i = 9 then c = ?s ! 9 else digit_val c mod 7 = digit_val (?s ! i) mod 7)"
  proof (cases "i = 9")
    case True
    have "is_digit (?s ! 9)" using d l by (simp add: all_digits_def list_all_length)
    then have "digit_val c = digit_val (?s ! 9) \<longleftrightarrow> c = ?s ! 9"
      using assms(4) digit_eqI by blast
    then show ?thesis using True l ok by simp
  next
    case False
    then have i: "i < 9" using assms(3) by simp
    then have tk: "take 9 ?u = (take 9 ?s)[i := c]" by (simp add: take_update_swap)
    have df: "int (dec_val (take 9 ?u)) - int (dec_val (take 9 ?s))
        = (int (digit_val c) - int (digit_val (?s ! i))) * 10 ^ (9 - Suc i)"
      unfolding tk using dec_val_update [of i "take 9 ?s" c] i l by simp
    have "dec_val (take 9 ?u) mod 7 = dec_val (take 9 ?s) mod 7
        \<longleftrightarrow> 7 dvd int (dec_val (take 9 ?u)) - int (dec_val (take 9 ?s))"
      by (rule mod_7_eq_iff)
    also have "\<dots> \<longleftrightarrow> 7 dvd int (digit_val c) - int (digit_val (?s ! i))"
      unfolding df by (rule seven_dvd_shift)
    also have "\<dots> \<longleftrightarrow> digit_val c mod 7 = digit_val (?s ! i) mod 7"
      by (rule mod_7_eq_iff [symmetric])
    finally show ?thesis using False ok by (auto simp: nth_list_update)
  qed
  finally show ?thesis .
qed

definition demo_ticket_number :: ticket_number where
  "demo_ticket_number = \<lparr>AirlineCode = ''125'', Serial = ''1234567891''\<rparr>"

theorem check_digit_detects_witness:
  "ticket_wf demo_ticket_number \<and> CheckDigitOK demo_ticket_number
   \<and> \<not> CheckDigitOK (demo_ticket_number\<lparr>Serial := (Serial demo_ticket_number)[2 := CHR ''4'']\<rparr>)"
proof -
  have w: "ticket_wf demo_ticket_number" "is_digit CHR ''4''"
    and n: "digit_val CHR ''4'' mod 7 \<noteq> digit_val (Serial demo_ticket_number ! 2) mod 7"
    by code_simp+
  moreover have "CheckDigitOK demo_ticket_number"
    by (subst CheckDigitOK_iff) (simp_all add: demo_ticket_number_def all_digits_n_def all_digits_def is_digit_def
        dec_val.simps digit_val_def)
  ultimately have w: "ticket_wf demo_ticket_number" "CheckDigitOK demo_ticket_number" "is_digit CHR ''4''" by blast+
  from check_digit_detects [OF w(1,2) _ w(3), of 2] n w(1,2) show ?thesis by simp
qed

section \<open>Ticketed records and deadlines\<close>

lemma segments_covered_iff:
  "segments_covered flight pax ss \<longleftrightarrow>
     (\<forall>s \<in> set ss. sg_Type s = SegmentAir \<and> sg_Status s \<noteq> ''XX'' \<longrightarrow>
        (\<exists>t \<in> set flight. tkt_PaxRef t = pax \<and> Covers t (sg_Ref s)))"
  by (induction ss) (auto simp: list_ex_iff)

lemma finite_deadlines: "finite {d. Some d \<in> Deadline ` set ts}"
  using finite_vimageI [of "Deadline ` set ts" Some] by (simp add: vimage_def)

lemma soonest_loop_set:
  "soonest_loop b ts = (let ds = set_option b \<union> {d. Some d \<in> Deadline ` set ts} in
     if ds = {} then None else Some (Min ds))"
proof (induction ts arbitrary: b)
  case Nil
  then show ?case by (cases b) (auto simp: Let_def)
next
  case (Cons t ts)
  let ?D = "{d. Some d \<in> Deadline ` set ts}"
  have fin: "finite ?D" by (rule finite_deadlines)
  show ?case
  proof (cases "Deadline t")
    case None
    then have "{d. Some d \<in> Deadline ` set (t # ts)} = ?D" by auto
    then show ?thesis using None Cons.IH by simp
  next
    case (Some d)
    then have D: "{x. Some x \<in> Deadline ` set (t # ts)} = insert d ?D" by auto
    show ?thesis
    proof (cases b)
      case None
      then show ?thesis using Some Cons.IH [of "Some d"] unfolding D by simp
    next
      case (Some b')
      have "Min (insert (if d < b' then d else b') ?D) = Min (insert b' (insert d ?D))"
        using fin by (cases "?D = {}") (auto simp: min_def)
      then show ?thesis using Some \<open>Deadline t = Some d\<close> Cons.IH [of "Some (if d < b' then d else b')"]
        unfolding D by (auto simp: Let_def insert_commute split: if_splits)
    qed
  qed
qed

text \<open>
  A record is ticketed exactly when it has passengers and a flight ticket and every passenger
  holds, for every air segment not cancelled with XX, a coupon in an open or interim status on a
  document that is not an EMD. The deadline it owes is nothing once it is ticketed or cancelled,
  and otherwise the earliest of its ticketing time limits.
\<close>

theorem ticketing_deadline_spec:
  "(Ticketed p \<longleftrightarrow> Passengers p \<noteq> [] \<and> (\<exists>t \<in> set (Tickets p). \<not> IsEMD (DocType t))
      \<and> (\<forall>x \<in> set (Passengers p). \<forall>s \<in> set (Segments p). sg_Type s = SegmentAir \<and> sg_Status s \<noteq> ''XX'' \<longrightarrow>
           (\<exists>t \<in> set (Tickets p). \<exists>c \<in> set (Coupons t). \<not> IsEMD (DocType t) \<and> tkt_PaxRef t = px_Ref x
              \<and> cp_SegmentRef c = sg_Ref s \<and> coupon_Class (cp_Status c) \<in> {ClassOpen, ClassInterim})))
   \<and> (NextDeadline p = None \<longleftrightarrow>
        pnr_Status p = StatusCancelled \<or> Ticketed p \<or> (\<forall>t \<in> set (Ticketing p). Deadline t = None))
   \<and> (\<forall>d. NextDeadline p = Some d \<longrightarrow>
        d \<in> {d. Some d \<in> Deadline ` set (Ticketing p)} \<and> (\<forall>t \<in> set (Ticketing p). \<forall>d'. Deadline t = Some d' \<longrightarrow> d \<le> d'))"
  (is "?t \<and> ?n \<and> ?d")
proof (intro conjI)
  have us: "Usable c \<longleftrightarrow> coupon_Class c \<in> {ClassOpen, ClassInterim}" for c
    by (simp add: Usable_def split: coupon_class.split)
  show ?t
    unfolding Ticketed_def Let_def list_all_iff segments_covered_iff Covers_def list_ex_iff us FlightTickets_def
    by (auto simp: filter_empty_conv) blast+
  let ?D = "{d. Some d \<in> Deadline ` set (Ticketing p)}"
  have fin: "finite ?D" by (rule finite_deadlines)
  have nd: "NextDeadline p = (if pnr_Status p = StatusCancelled \<or> Ticketed p \<or> ?D = {} then None else Some (Min ?D))"
    by (simp add: NextDeadline_def soonest_loop_set Let_def)
  have "?D = {} \<longleftrightarrow> (\<forall>t \<in> set (Ticketing p). Deadline t = None)" by (auto simp: image_iff) (metis option.exhaust)
  then show ?n using nd by auto
  show ?d
  proof (intro allI impI)
    fix d assume "NextDeadline p = Some d"
    then have d: "d = Min ?D" "?D \<noteq> {}" using nd by (auto split: if_splits)
    have "d \<in> ?D" unfolding d(1) using fin d(2) by (rule Min_in)
    moreover have "d \<le> d'" if "t \<in> set (Ticketing p)" "Deadline t = Some d'" for t d'
      unfolding d(1) by (rule Min_le [OF fin]) (use that in \<open>auto intro: rev_image_eqI\<close>)
    ultimately show "d \<in> ?D \<and> (\<forall>t \<in> set (Ticketing p). \<forall>d'. Deadline t = Some d' \<longrightarrow> d \<le> d')" by blast
  qed
qed

definition demo_coupon :: "int \<Rightarrow> string \<Rightarrow> coupon" where
  "demo_coupon seg st = \<lparr>cp_Number = 1, cp_SegmentRef = seg, cp_Status = st, RFISC = '''',
     Assoc = \<lparr>as_Document = \<lparr>AirlineCode = '''', Serial = ''''\<rparr>, as_Coupon = 0, as_SegmentRef = 0\<rparr>,
     Amount = '''', Currency = ''''\<rparr>"

definition demo_tkt :: "int \<Rightarrow> ticket" where
  "demo_tkt pax = \<lparr>Number = demo_ticket_number, DocType = '''', RFIC = '''', tkt_PaxRef = pax, IssuedAt = 0,
     IssuedBy = '''', Coupons = [demo_coupon 1 ''O''], Conjunction = [], RefundedAt = None, ExchangedFrom = None\<rparr>"

text \<open>One of three passengers holds a ticket: the record is not ticketed and its deadline stands.\<close>

theorem ticketing_deadline_spec_witness:
  "NextDeadline (demo_pnr\<lparr>Tickets := [demo_tkt 1], Ticketing := [\<lparr>tk_Text = ''TL'', Deadline = Some 7\<rparr>]\<rparr>) = Some 7
   \<and> Ticketed (demo_pnr\<lparr>Tickets := [demo_tkt 1, demo_tkt 2, demo_tkt 3]\<rparr>)"
proof -
  let ?p = "demo_pnr\<lparr>Tickets := [demo_tkt 1], Ticketing := [\<lparr>tk_Text = ''TL'', Deadline = Some 7\<rparr>]\<rparr>"
  have nt: "\<not> Ticketed ?p" by code_simp
  have "pnr_Status ?p \<noteq> StatusCancelled" by (simp add: demo_pnr_def StatusCancelled_def)
  with nt ticketing_deadline_spec [of ?p] have "NextDeadline ?p \<noteq> None" by simp
  then obtain d where d: "NextDeadline ?p = Some d" by auto
  with ticketing_deadline_spec [of ?p] have "d = 7" by simp
  with d have "NextDeadline ?p = Some 7" by simp
  moreover have "Ticketed (demo_pnr\<lparr>Tickets := [demo_tkt 1, demo_tkt 2, demo_tkt 3]\<rparr>)" by code_simp
  ultimately show ?thesis by blast
qed

end
