(* ===== verification/Store.thy ===== *)
theory Store
  imports Ticket "HOL-Library.Char_ord" "HOL-Library.List_Lexorder"
begin

text \<open>
  The in-memory store (\<open>src/pkg/store/mem.go\<close>, with the data of \<open>store.go\<close> and \<open>queue.go\<close> and
  the matching rules of \<open>lookup.go\<close>): the message log, the records and their events, the work
  queues, and the leases. A Go map is an association list, so a loop over a map runs in the order
  of the list; Go leaves that order open, and no statement depends on it. A method holds the
  store's mutex from its first line to its return, so it is one step on the state. The clock
  reading and the identifiers \<open>ulid.New\<close> draws are arguments: \<open>gen n\<close> is the \<open>n\<close>-th identifier
  drawn. Strings are ordered lexicographically, as Go orders them.
\<close>

section \<open>Data: \<open>store.go\<close>, \<open>queue.go\<close>\<close>

datatype store_error = ErrNotFound | ErrConflict | ErrDuplicate

definition Inbound :: string where "Inbound = ''in''"
definition Outbound :: string where "Outbound = ''out''"

text \<open>The digest and the trace identifiers are carried and never read. A diagnostic is its code.\<close>

record message =
  msg_ID :: string
  Direction :: string
  msg_At :: time
  Transport :: string
  Peer :: string
  Format :: string
  Kind :: string
  Raw :: bytes
  msg_Status :: string
  msg_Error :: string
  DedupKey :: string
  PossibleDuplicate :: bool
  msg_PNRID :: string
  CorrelationID :: string
  msg_Diagnostics :: "string list"

record message_filter =
  mf_Peer :: string
  mf_PNRID :: string
  mf_Status :: string
  mf_Limit :: int
  SinceID :: string

record event =
  ev_ID :: string
  ev_PNRID :: string
  Seq :: int
  ev_Type :: string
  Detail :: string
  ev_MessageID :: string
  Actor :: string
  ev_At :: time

record queue_item =
  qi_ID :: string
  Queue :: string
  qi_PNRID :: string
  qi_Locator :: string
  qi_Code :: string
  Reason :: string
  qi_MessageID :: string
  qi_SegmentRef :: int
  PlacedAt :: time
  PlacedBy :: string
  WorkedAt :: "time option"
  WorkedBy :: string
  Note :: string

definition Pending :: "queue_item \<Rightarrow> bool" where
  "Pending q \<longleftrightarrow> WorkedAt q = None"

record queue_filter =
  qf_Queue :: string
  qf_PNRID :: string
  IncludeWorked :: bool
  qf_Limit :: int

record mem_lease =
  holder :: string
  expires :: time

record purged =
  pg_Messages :: nat
  pg_Records :: nat
  pg_QueueItems :: nat

record mem =
  leases :: "mem_lease strmap"
  MaxMessages :: int
  MaxRecords :: int
  messages :: "message strmap"
  messageIDs :: "string list"
  pnrs :: "pnr strmap"
  byLocator :: "string strmap"
  events :: "event list strmap"
  dedup :: "string strmap"
  counter :: "64 word"
  queue :: "queue_item strmap"
  queueIDs :: "string list"
  queuePending :: "string strmap"
  drawn :: nat

definition NewMem :: mem where
  "NewMem = \<lparr>leases = [], MaxMessages = 0, MaxRecords = 0, messages = [], messageIDs = [], pnrs = [], byLocator = [],
     events = [], dedup = [], counter = 0, queue = [], queueIDs = [], queuePending = [], drawn = 0\<rparr>"

section \<open>Shared steps\<close>

text \<open>Append an identifier and restore the order when it is not the largest.\<close>

definition push_sorted :: "string list \<Rightarrow> string \<Rightarrow> string list" where
  "push_sorted ids i =
     (let xs = ids @ [i]; n = length xs in
      if n > 1 \<and> xs ! (n - 1) < xs ! (n - 2) then sort xs else xs)"

definition dedupKey :: "string \<Rightarrow> string \<Rightarrow> string \<Rightarrow> string" where
  "dedupKey dir peer key = dir @ ''|'' @ peer @ ''|'' @ key"

definition itoa_int :: "int \<Rightarrow> string" where
  "itoa_int n = (if n < 0 then CHR ''-'' # Itoa (nat (- n)) else Itoa (nat n))"

definition pendingKey :: "string \<Rightarrow> string \<Rightarrow> string \<Rightarrow> int \<Rightarrow> string" where
  "pendingKey q pnrID code segRef = q @ ''|'' @ pnrID @ ''|'' @ code @ ''|'' @ itoa_int segRef"

definition item_key :: "queue_item \<Rightarrow> string" where
  "item_key it = pendingKey (Queue it) (qi_PNRID it) (qi_Code it) (qi_SegmentRef it)"

definition index_dedup :: "message \<Rightarrow> mem \<Rightarrow> mem" where
  "index_dedup m s =
     (if DedupKey m = '''' then s
      else let k = dedupKey (Direction m) (Peer m) (DedupKey m) in
           if map_of (dedup s) k \<noteq> None then s else s\<lparr>dedup := gm_put k (msg_ID m) (dedup s)\<rparr>)"

text \<open>What both the trim and the purge do to a discarded message.\<close>

definition drop_message :: "string \<Rightarrow> message \<Rightarrow> mem \<Rightarrow> mem" where
  "drop_message i m s =
     (let k = dedupKey (Direction m) (Peer m) (DedupKey m);
          s1 = (if DedupKey m \<noteq> '''' \<and> map_of (dedup s) k = Some i then s\<lparr>dedup := gm_del k (dedup s)\<rparr> else s)
      in s1\<lparr>messages := gm_del i (messages s1)\<rparr>)"

fun drop_ids :: "string list \<Rightarrow> mem \<Rightarrow> mem" where
  "drop_ids [] s = s"
| "drop_ids (i # is) s =
     drop_ids is (case map_of (messages s) i of None \<Rightarrow> s | Some m \<Rightarrow> drop_message i m s)"

definition trimMessagesLocked :: "mem \<Rightarrow> mem" where
  "trimMessagesLocked s =
     (if MaxMessages s \<le> 0 \<or> int (length (messageIDs s)) \<le> MaxMessages s then s
      else let n = length (messageIDs s) - nat (MaxMessages s) in
           drop_ids (take n (messageIDs s)) (s\<lparr>messageIDs := drop n (messageIDs s)\<rparr>))"

fun drop_queue_loop :: "string \<Rightarrow> string list \<Rightarrow> string list \<Rightarrow> mem \<Rightarrow> mem" where
  "drop_queue_loop pnrID keep [] s = s\<lparr>queueIDs := keep\<rparr>"
| "drop_queue_loop pnrID keep (i # is) s =
     (case map_of (queue s) i of
        None \<Rightarrow> drop_queue_loop pnrID (keep @ [i]) is s
      | Some it \<Rightarrow>
          if qi_PNRID it \<noteq> pnrID then drop_queue_loop pnrID (keep @ [i]) is s
          else let s1 = (if Pending it then s\<lparr>queuePending := gm_del (item_key it) (queuePending s)\<rparr> else s)
               in drop_queue_loop pnrID keep is (s1\<lparr>queue := gm_del i (queue s1)\<rparr>))"

definition dropQueueForRecordLocked :: "string \<Rightarrow> mem \<Rightarrow> mem" where
  "dropQueueForRecordLocked pnrID s = drop_queue_loop pnrID [] (queueIDs s) s"

definition drop_record :: "string \<Rightarrow> pnr \<Rightarrow> mem \<Rightarrow> mem" where
  "drop_record i p s =
     dropQueueForRecordLocked i
       (s\<lparr>byLocator := gm_del (RecordLocator p) (byLocator s), pnrs := gm_del i (pnrs s), events := gm_del i (events s)\<rparr>)"

fun drop_records :: "(string \<times> pnr) list \<Rightarrow> mem \<Rightarrow> mem" where
  "drop_records [] s = s"
| "drop_records ((i, p) # rest) s = drop_records rest (drop_record i p s)"

definition trimRecordsLocked :: "mem \<Rightarrow> mem" where
  "trimRecordsLocked s =
     (if MaxRecords s \<le> 0 \<or> int (length (pnrs s)) \<le> MaxRecords s then s
      else let ids = sort (map fst (pnrs s)); victims = take (length ids - nat (MaxRecords s)) ids in
           drop_records (map (\<lambda>i. (i, the (map_of (pnrs s) i))) victims) s)"

section \<open>The message log\<close>

definition AppendMessage :: "(nat \<Rightarrow> string) \<Rightarrow> message \<Rightarrow> mem \<Rightarrow> mem \<times> message" where
  "AppendMessage gen m0 s0 =
     (let (m, s) = (if msg_ID m0 = '''' then (m0\<lparr>msg_ID := gen (drawn s0)\<rparr>, s0\<lparr>drawn := Suc (drawn s0)\<rparr>) else (m0, s0));
          s1 = s\<lparr>messages := gm_put (msg_ID m) m (messages s), messageIDs := push_sorted (messageIDs s) (msg_ID m)\<rparr>
      in (trimMessagesLocked (index_dedup m s1), m))"

definition UpdateMessage :: "message \<Rightarrow> mem \<Rightarrow> store_error + mem" where
  "UpdateMessage m s =
     (if map_of (messages s) (msg_ID m) = None then Inl ErrNotFound
      else Inr (index_dedup m (s\<lparr>messages := gm_put (msg_ID m) m (messages s)\<rparr>)))"

definition GetMessage :: "mem \<Rightarrow> string \<Rightarrow> store_error + message" where
  "GetMessage s i = (case map_of (messages s) i of None \<Rightarrow> Inl ErrNotFound | Some m \<Rightarrow> Inr m)"

definition message_matches :: "message_filter \<Rightarrow> message \<Rightarrow> bool" where
  "message_matches f m \<longleftrightarrow>
     \<not> (mf_Peer f \<noteq> '''' \<and> Peer m \<noteq> mf_Peer f)
   \<and> \<not> (mf_PNRID f \<noteq> '''' \<and> msg_PNRID m \<noteq> mf_PNRID f)
   \<and> \<not> (mf_Status f \<noteq> '''' \<and> msg_Status m \<noteq> mf_Status f)"

text \<open>
  The walk from the newest identifier. An identifier with no message behind it would be a nil
  dereference; \<open>None\<close> is that panic.
\<close>

fun list_messages_loop :: "mem \<Rightarrow> message_filter \<Rightarrow> nat \<Rightarrow> string list \<Rightarrow> message list \<Rightarrow> message list option" where
  "list_messages_loop s f limit [] out = Some out"
| "list_messages_loop s f limit (i # is) out =
     (if \<not> length out < limit then Some out
      else if SinceID f \<noteq> '''' \<and> i \<le> SinceID f then Some out
      else case map_of (messages s) i of
             None \<Rightarrow> None
           | Some m \<Rightarrow>
               if message_matches f m then list_messages_loop s f limit is (out @ [m])
               else list_messages_loop s f limit is out)"

definition ListMessages :: "mem \<Rightarrow> message_filter \<Rightarrow> message list option" where
  "ListMessages s f =
     (let limit = (if mf_Limit f \<le> 0 then 100 else nat (mf_Limit f)) in
      map_option rev (list_messages_loop s f limit (rev (messageIDs s)) []))"

definition findKey :: "mem \<Rightarrow> string \<Rightarrow> string \<Rightarrow> string \<Rightarrow> string option" where
  "findKey s dir peer key = (if key = '''' then None else map_of (dedup s) (dedupKey dir peer key))"

definition FindByDedupKey :: "mem \<Rightarrow> string \<Rightarrow> string \<Rightarrow> string option" where
  "FindByDedupKey s peer key = findKey s Inbound peer key"

definition FindOutboundByKey :: "mem \<Rightarrow> string \<Rightarrow> string \<Rightarrow> string option" where
  "FindOutboundByKey s peer key = findKey s Outbound peer key"

section \<open>Records and events\<close>

fun append_events_loop :: "(nat \<Rightarrow> string) \<Rightarrow> string \<Rightarrow> int \<Rightarrow> event list \<Rightarrow> mem \<Rightarrow> mem" where
  "append_events_loop gen pnrID seq [] s = s"
| "append_events_loop gen pnrID seq (e # es) s =
     (let (e1, s1) = (if ev_ID e = '''' then (e\<lparr>ev_ID := gen (drawn s)\<rparr>, s\<lparr>drawn := Suc (drawn s)\<rparr>) else (e, s));
          e2 = e1\<lparr>ev_PNRID := pnrID, Seq := seq + 1\<rparr>
      in append_events_loop gen pnrID (seq + 1) es
           (s1\<lparr>events := gm_put pnrID (gm_get [] (events s1) pnrID @ [e2]) (events s1)\<rparr>))"

definition appendEventsLocked :: "(nat \<Rightarrow> string) \<Rightarrow> string \<Rightarrow> event list \<Rightarrow> mem \<Rightarrow> mem" where
  "appendEventsLocked gen pnrID evs s =
     append_events_loop gen pnrID (int (length (gm_get [] (events s) pnrID))) evs s"

definition put_pnr :: "pnr \<Rightarrow> mem \<Rightarrow> mem" where
  "put_pnr p s = s\<lparr>pnrs := gm_put (ID p) p (pnrs s), byLocator := gm_put (RecordLocator p) (ID p) (byLocator s)\<rparr>"

definition CreatePNR :: "(nat \<Rightarrow> string) \<Rightarrow> pnr \<Rightarrow> event list \<Rightarrow> mem \<Rightarrow> store_error + (mem \<times> pnr)" where
  "CreatePNR gen p0 evs s0 =
     (let (p, s) = (if ID p0 = '''' then (p0\<lparr>ID := gen (drawn s0)\<rparr>, s0\<lparr>drawn := Suc (drawn s0)\<rparr>) else (p0, s0)) in
      if map_of (byLocator s) (RecordLocator p) \<noteq> None then Inl ErrDuplicate
      else let p1 = p\<lparr>pnr_Version := 1\<rparr> in
           Inr (trimRecordsLocked (appendEventsLocked gen (ID p1) evs (put_pnr p1 s)), p1))"

definition UpdatePNR :: "(nat \<Rightarrow> string) \<Rightarrow> pnr \<Rightarrow> int \<Rightarrow> event list \<Rightarrow> mem \<Rightarrow> store_error + (mem \<times> pnr)" where
  "UpdatePNR gen p expected evs s =
     (case map_of (pnrs s) (ID p) of
        None \<Rightarrow> Inl ErrNotFound
      | Some cur \<Rightarrow>
          if pnr_Version cur \<noteq> expected then Inl ErrConflict
          else let p1 = p\<lparr>pnr_Version := expected + 1\<rparr> in
               Inr (appendEventsLocked gen (ID p1) evs (put_pnr p1 s), p1))"

definition DividePNR ::
  "(nat \<Rightarrow> string) \<Rightarrow> pnr \<Rightarrow> int \<Rightarrow> pnr \<Rightarrow> event list \<Rightarrow> event list \<Rightarrow> mem \<Rightarrow> store_error + (mem \<times> pnr \<times> pnr)" where
  "DividePNR gen parent expected child0 parentEvents childEvents s0 =
     (case map_of (pnrs s0) (ID parent) of
        None \<Rightarrow> Inl ErrNotFound
      | Some cur \<Rightarrow>
          if pnr_Version cur \<noteq> expected then Inl ErrConflict
          else
            let (child, s) = (if ID child0 = '''' then (child0\<lparr>ID := gen (drawn s0)\<rparr>, s0\<lparr>drawn := Suc (drawn s0)\<rparr>)
                              else (child0, s0)) in
            if map_of (byLocator s) (RecordLocator child) \<noteq> None then Inl ErrDuplicate
            else if map_of (pnrs s) (ID child) \<noteq> None then Inl ErrDuplicate
            else
              let parent1 = parent\<lparr>pnr_Version := expected + 1\<rparr>;
                  s1 = appendEventsLocked gen (ID parent1) parentEvents (put_pnr parent1 s);
                  child1 = child\<lparr>pnr_Version := 1\<rparr>;
                  s2 = appendEventsLocked gen (ID child1) childEvents (put_pnr child1 s1)
              in Inr (trimRecordsLocked s2, parent1, child1))"

text \<open>A locator whose identifier has no record behind it would be a nil dereference: \<open>None\<close>.\<close>

definition GetPNR :: "mem \<Rightarrow> string \<Rightarrow> (store_error + pnr) option" where
  "GetPNR s locator =
     (case map_of (byLocator s) locator of
        None \<Rightarrow> Some (Inl ErrNotFound)
      | Some i \<Rightarrow> map_option Inr (map_of (pnrs s) i))"

definition GetPNRByID :: "mem \<Rightarrow> string \<Rightarrow> store_error + pnr" where
  "GetPNRByID s i = (case map_of (pnrs s) i of None \<Rightarrow> Inl ErrNotFound | Some p \<Rightarrow> Inr p)"

definition ListPNRs :: "mem \<Rightarrow> int \<Rightarrow> pnr list" where
  "ListPNRs s limit0 =
     (let limit = (if limit0 \<le> 0 then 100 else nat limit0) in
      take limit (rev (sort_key ID (map snd (pnrs s)))))"

definition Events :: "mem \<Rightarrow> string \<Rightarrow> event list" where
  "Events s pnrID = gm_get [] (events s) pnrID"

definition NextLocatorCounter :: "mem \<Rightarrow> mem \<times> 64 word" where
  "NextLocatorCounter s = (s\<lparr>counter := counter s + 1\<rparr>, counter s + 1)"

fun load_create :: "(nat \<Rightarrow> string) \<Rightarrow> string \<Rightarrow> pnr list \<Rightarrow> mem \<Rightarrow> store_error option \<times> mem" where
  "load_create gen actor [] s = (None, s)"
| "load_create gen actor (p # ps) s =
     (case CreatePNR gen p [\<lparr>ev_ID = '''', ev_PNRID = '''', Seq = 0, ev_Type = ''loaded'', Detail = '''',
                             ev_MessageID = '''', Actor = actor, ev_At = CreatedAt p\<rparr>] s of
        Inl e \<Rightarrow> (Some e, s)
      | Inr (s', _) \<Rightarrow> load_create gen actor ps s')"

text \<open>
  \<open>LoadPNRs\<close> takes the mutex once per record, not once for the batch, and returns the error
  beside the state it leaves behind.
\<close>

definition LoadPNRs :: "(nat \<Rightarrow> string) \<Rightarrow> pnr list \<Rightarrow> string \<Rightarrow> mem \<Rightarrow> store_error option \<times> mem" where
  "LoadPNRs gen recs actor s =
     (if list_ex (\<lambda>p. RecordLocator p \<noteq> ''''
                    \<and> (case GetPNR s (RecordLocator p) of Some (Inr _) \<Rightarrow> True | _ \<Rightarrow> False)) recs
      then (Some ErrDuplicate, s)
      else load_create gen actor recs s)"

section \<open>Retention\<close>

fun purge_messages_loop :: "time \<Rightarrow> string list \<Rightarrow> string list \<Rightarrow> mem \<Rightarrow> nat \<Rightarrow> mem \<times> nat" where
  "purge_messages_loop before keep [] s n = (s\<lparr>messageIDs := keep\<rparr>, n)"
| "purge_messages_loop before keep (i # is) s n =
     (case map_of (messages s) i of
        None \<Rightarrow> purge_messages_loop before (keep @ [i]) is s n
      | Some m \<Rightarrow>
          if msg_At m < before then purge_messages_loop before keep is (drop_message i m s) (Suc n)
          else purge_messages_loop before (keep @ [i]) is s n)"

fun prune_loop :: "(pnr \<Rightarrow> bool) \<Rightarrow> (string \<times> pnr) list \<Rightarrow> mem \<Rightarrow> purged \<Rightarrow> mem \<times> purged" where
  "prune_loop kp [] s out = (s, out)"
| "prune_loop kp ((i, p) # rest) s out =
     (if kp p then prune_loop kp rest s out
      else let s1 = drop_record i p s in
           prune_loop kp rest s1
             (out\<lparr>pg_QueueItems := pg_QueueItems out + (length (queueIDs s) - length (queueIDs s1)),
                  pg_Records := Suc (pg_Records out)\<rparr>))"

definition PruneRecords :: "(pnr \<Rightarrow> bool) \<Rightarrow> mem \<Rightarrow> mem \<times> purged" where
  "PruneRecords kp s = prune_loop kp (pnrs s) s \<lparr>pg_Messages = 0, pg_Records = 0, pg_QueueItems = 0\<rparr>"

definition Purge :: "time \<Rightarrow> mem \<Rightarrow> mem \<times> purged" where
  "Purge before s =
     (let (s1, n) = purge_messages_loop before [] (messageIDs s) s 0 in
      prune_loop (\<lambda>p. \<not> UpdatedAt p < before) (pnrs s1) s1 \<lparr>pg_Messages = n, pg_Records = 0, pg_QueueItems = 0\<rparr>)"

section \<open>Work queues\<close>

definition Enqueue :: "(nat \<Rightarrow> string) \<Rightarrow> time \<Rightarrow> queue_item \<Rightarrow> mem \<Rightarrow> store_error + (mem \<times> queue_item)" where
  "Enqueue gen now item0 s0 =
     (let (item1, s) = (if qi_ID item0 = '''' then (item0\<lparr>qi_ID := gen (drawn s0)\<rparr>, s0\<lparr>drawn := Suc (drawn s0)\<rparr>)
                        else (item0, s0));
          item = (if PlacedAt item1 = zero_time then item1\<lparr>PlacedAt := now\<rparr> else item1);
          k = item_key item
      in if map_of (queuePending s) k \<noteq> None then Inl ErrDuplicate
         else Inr (s\<lparr>queue := gm_put (qi_ID item) item (queue s),
                     queueIDs := push_sorted (queueIDs s) (qi_ID item),
                     queuePending := gm_put k (qi_ID item) (queuePending s)\<rparr>, item))"

definition WorkQueueItem :: "time \<Rightarrow> string \<Rightarrow> string \<Rightarrow> string \<Rightarrow> mem \<Rightarrow> store_error + mem" where
  "WorkQueueItem now i worker txt s =
     (case map_of (queue s) i of
        None \<Rightarrow> Inl ErrNotFound
      | Some it \<Rightarrow>
          if \<not> Pending it then Inl ErrConflict
          else Inr (s\<lparr>queue := gm_put i (it\<lparr>WorkedAt := Some now, WorkedBy := worker, Note := txt\<rparr>) (queue s),
                      queuePending := gm_del (item_key it) (queuePending s)\<rparr>))"

definition item_matches :: "queue_filter \<Rightarrow> queue_item \<Rightarrow> bool" where
  "item_matches f it \<longleftrightarrow>
     \<not> (qf_Queue f \<noteq> '''' \<and> Queue it \<noteq> qf_Queue f)
   \<and> \<not> (qf_PNRID f \<noteq> '''' \<and> qi_PNRID it \<noteq> qf_PNRID f)
   \<and> \<not> (\<not> IncludeWorked f \<and> \<not> Pending it)"

fun list_queue_loop :: "mem \<Rightarrow> queue_filter \<Rightarrow> nat \<Rightarrow> string list \<Rightarrow> queue_item list \<Rightarrow> queue_item list" where
  "list_queue_loop s f limit [] out = out"
| "list_queue_loop s f limit (i # is) out =
     (if \<not> length out < limit then out
      else case map_of (queue s) i of
             None \<Rightarrow> list_queue_loop s f limit is out
           | Some it \<Rightarrow>
               if item_matches f it then list_queue_loop s f limit is (out @ [it])
               else list_queue_loop s f limit is out)"

definition ListQueue :: "mem \<Rightarrow> queue_filter \<Rightarrow> queue_item list" where
  "ListQueue s f =
     (let limit = (if qf_Limit f \<le> 0 then 200 else nat (qf_Limit f)) in
      list_queue_loop s f limit (rev (queueIDs s)) [])"

definition QueueCounts :: "mem \<Rightarrow> nat strmap" where
  "QueueCounts s =
     fold (\<lambda>it out. if Pending it then gm_put (Queue it) (Suc (gm_get 0 out (Queue it))) out else out)
       (map snd (queue s)) []"

section \<open>Leases\<close>

definition Acquire :: "time \<Rightarrow> string \<Rightarrow> string \<Rightarrow> int \<Rightarrow> mem \<Rightarrow> bool \<times> mem" where
  "Acquire now system h ttl s =
     (case map_of (leases s) system of
        Some l \<Rightarrow>
          if holder l \<noteq> h \<and> expires l > now then (False, s)
          else (True, s\<lparr>leases := gm_put system \<lparr>holder = h, expires = now + ttl\<rparr> (leases s)\<rparr>)
      | None \<Rightarrow> (True, s\<lparr>leases := gm_put system \<lparr>holder = h, expires = now + ttl\<rparr> (leases s)\<rparr>))"

definition Renew :: "time \<Rightarrow> string \<Rightarrow> string \<Rightarrow> int \<Rightarrow> mem \<Rightarrow> bool \<times> mem" where
  "Renew now system h ttl s =
     (case map_of (leases s) system of
        None \<Rightarrow> (False, s)
      | Some l \<Rightarrow>
          if holder l \<noteq> h \<or> \<not> expires l > now then (False, s)
          else (True, s\<lparr>leases := gm_put system \<lparr>holder = h, expires = now + ttl\<rparr> (leases s)\<rparr>))"

definition Release :: "string \<Rightarrow> string \<Rightarrow> mem \<Rightarrow> mem" where
  "Release system h s =
     (case map_of (leases s) system of
        None \<Rightarrow> s
      | Some l \<Rightarrow> if holder l = h then s\<lparr>leases := gm_del system (leases s)\<rparr> else s)"

section \<open>Lookups: \<open>lookup.go\<close>\<close>

definition NormaliseFlightKey :: "string \<Rightarrow> string" where
  "NormaliseFlightKey key =
     (if length key \<le> 2 then key
      else let n = dropWhile (\<lambda>c. c = CHR ''0'') (drop 2 key) in take 2 key @ (if n = '''' then ''0'' else n))"

definition SegmentOnFlight :: "segment \<Rightarrow> string \<Rightarrow> string \<Rightarrow> bool" where
  "SegmentOnFlight seg flightKey wireDate =
     (if sg_Type seg \<noteq> SegmentAir \<or> sg_Status seg = ''XX'' then False
      else if NormaliseFlightKey (Carrier seg @ FlightNum seg) \<noteq> NormaliseFlightKey flightKey then False
      else wireDate = '''' \<or> EqualFold (WireDate seg) wireDate)"

definition pnrEverOnFlight :: "pnr \<Rightarrow> string \<Rightarrow> string \<Rightarrow> bool" where
  "pnrEverOnFlight p flightKey wireDate =
     list_ex (\<lambda>seg. sg_Type seg = SegmentAir
        \<and> NormaliseFlightKey (Carrier seg @ FlightNum seg) = NormaliseFlightKey flightKey
        \<and> (wireDate = '''' \<or> EqualFold (WireDate seg) wireDate)) (Segments p)"

definition pnrOnFlight :: "pnr \<Rightarrow> string \<Rightarrow> string \<Rightarrow> bool" where
  "pnrOnFlight p flightKey wireDate =
     (if pnr_Status p = StatusCancelled then False
      else list_ex (\<lambda>seg. SegmentOnFlight seg flightKey wireDate) (Segments p))"

fun find_on_flight_loop :: "(pnr \<Rightarrow> bool) \<Rightarrow> nat \<Rightarrow> pnr list \<Rightarrow> pnr list \<Rightarrow> pnr list" where
  "find_on_flight_loop match limit [] out = out"
| "find_on_flight_loop match limit (p # ps) out =
     (if \<not> match p then find_on_flight_loop match limit ps out
      else if length (out @ [p]) \<ge> limit then out @ [p]
      else find_on_flight_loop match limit ps (out @ [p]))"

definition findOnFlight :: "mem \<Rightarrow> string \<Rightarrow> string \<Rightarrow> int \<Rightarrow> (pnr \<Rightarrow> string \<Rightarrow> string \<Rightarrow> bool) \<Rightarrow> pnr list" where
  "findOnFlight s flightKey wireDate limit0 match =
     (if flightKey = '''' then []
      else let limit = (if limit0 \<le> 0 then 10000 else nat limit0) in
           find_on_flight_loop (\<lambda>p. match p flightKey wireDate) limit (map snd (pnrs s)) [])"

definition FindPNRsByFlight :: "mem \<Rightarrow> string \<Rightarrow> string \<Rightarrow> int \<Rightarrow> pnr list" where
  "FindPNRsByFlight s flightKey wireDate limit = findOnFlight s flightKey wireDate limit pnrOnFlight"

definition FindPNRsEverOnFlight :: "mem \<Rightarrow> string \<Rightarrow> string \<Rightarrow> int \<Rightarrow> pnr list" where
  "FindPNRsEverOnFlight s flightKey wireDate limit = findOnFlight s flightKey wireDate limit pnrEverOnFlight"

definition FindPNRByDocument :: "mem \<Rightarrow> string \<Rightarrow> pnr option" where
  "FindPNRByDocument s compactNumber =
     (if compactNumber = '''' then None
      else find (\<lambda>p. list_ex (\<lambda>t. Compact (Number t) = compactNumber) (Tickets p)) (map snd (pnrs s)))"

definition FindPNRByExternalLocator :: "mem \<Rightarrow> string \<Rightarrow> string \<Rightarrow> pnr option" where
  "FindPNRByExternalLocator s owner v =
     (if v = '''' then None
      else find (\<lambda>p. list_ex (\<lambda>l. lv_Value l = v \<and> (owner = '''' \<or> Owner l = owner)) (Locators p)) (map snd (pnrs s)))"

definition FindPNRsStale :: "mem \<Rightarrow> time \<Rightarrow> int \<Rightarrow> pnr list" where
  "FindPNRsStale s before limit0 =
     (let limit = (if limit0 \<le> 0 then 10000 else nat limit0) in
      take limit (sort_key UpdatedAt
        (filter (\<lambda>p. \<not> (pnr_Status p = StatusCancelled \<or> \<not> UpdatedAt p < before)) (map snd (pnrs s)))))"

fun due_list :: "time \<Rightarrow> pnr list \<Rightarrow> (pnr \<times> time) list" where
  "due_list deadline [] = []"
| "due_list deadline (p # ps) =
     (case NextDeadline p of
        None \<Rightarrow> due_list deadline ps
      | Some d \<Rightarrow> if \<not> d < deadline then due_list deadline ps else (p, d) # due_list deadline ps)"

definition FindPNRsDueBy :: "mem \<Rightarrow> time \<Rightarrow> int \<Rightarrow> pnr list" where
  "FindPNRsDueBy s deadline limit0 =
     (let limit = (if limit0 \<le> 0 then 10000 else nat limit0) in
      take limit (map fst (sort_key snd (due_list deadline (map snd (pnrs s))))))"

section \<open>Sums over the records\<close>

record sold_seats =
  ss_Carrier :: string
  ss_FlightNum :: string
  ss_WireDate :: string
  ss_Board :: string
  ss_Class :: string
  ss_Status :: string
  ss_Seats :: int

definition TrimLeft0 :: "string \<Rightarrow> string" where
  "TrimLeft0 s = dropWhile (\<lambda>c. c = CHR ''0'') s"

definition sold_key :: "segment \<Rightarrow> sold_seats" where
  "sold_key sg = \<lparr>ss_Carrier = Carrier sg, ss_FlightNum = TrimLeft0 (FlightNum sg), ss_WireDate = ToUpper (WireDate sg),
     ss_Board = Board sg, ss_Class = Class sg, ss_Status = sg_Status sg, ss_Seats = 0\<rparr>"

definition sold_counts :: "string \<Rightarrow> string \<Rightarrow> segment \<Rightarrow> bool" where
  "sold_counts car wireDate sg \<longleftrightarrow>
     \<not> (sg_Type sg \<noteq> SegmentAir \<or> Carrier sg \<noteq> car \<or> sg_Status sg = ''XX'')
   \<and> \<not> (wireDate \<noteq> '''' \<and> \<not> EqualFold (WireDate sg) wireDate)"

fun sold_segments :: "string \<Rightarrow> string \<Rightarrow> segment list \<Rightarrow> (sold_seats \<times> int) list \<Rightarrow> (sold_seats \<times> int) list" where
  "sold_segments car wireDate [] acc = acc"
| "sold_segments car wireDate (sg # sgs) acc =
     (if \<not> sold_counts car wireDate sg then sold_segments car wireDate sgs acc
      else sold_segments car wireDate sgs (gm_put (sold_key sg) (gm_get 0 acc (sold_key sg) + Seats sg) acc))"

fun sold_records :: "string \<Rightarrow> string \<Rightarrow> pnr list \<Rightarrow> (sold_seats \<times> int) list \<Rightarrow> (sold_seats \<times> int) list" where
  "sold_records car wireDate [] acc = acc"
| "sold_records car wireDate (p # ps) acc =
     (if pnr_Status p = StatusCancelled then sold_records car wireDate ps acc
      else sold_records car wireDate ps (sold_segments car wireDate (Segments p) acc))"

definition sold_order :: "sold_seats \<Rightarrow> string list" where
  "sold_order a = [ss_FlightNum a, ss_WireDate a, ss_Board a, ss_Class a, ss_Status a]"

definition SoldSeats :: "mem \<Rightarrow> string \<Rightarrow> string \<Rightarrow> sold_seats list" where
  "SoldSeats s car wireDate =
     sort_key sold_order (map (\<lambda>(k, n). k\<lparr>ss_Seats := n\<rparr>) (sold_records car wireDate (map snd (pnrs s)) []))"

record leg_revenue =
  lr_Carrier :: string
  lr_FlightNum :: string
  lr_WireDate :: string
  lr_Board :: string
  Cents :: int

text \<open>Integer division of Go, which truncates towards zero.\<close>

definition go_div :: "int \<Rightarrow> int \<Rightarrow> int" where
  "go_div a b = sgn a * sgn b * (\<bar>a\<bar> div \<bar>b\<bar>)"

definition revenue_key :: "segment \<Rightarrow> leg_revenue" where
  "revenue_key sg =
     (let car = (if OperatingCarrier sg \<noteq> '''' then OperatingCarrier sg else Carrier sg) in
      \<lparr>lr_Carrier = ToUpper car, lr_FlightNum = TrimLeft0 (FlightNum sg), lr_WireDate = ToUpper (WireDate sg),
       lr_Board = ToUpper (Board sg), Cents = 0\<rparr>)"

fun revenue_segments :: "string \<Rightarrow> int \<Rightarrow> segment list \<Rightarrow> (leg_revenue \<times> int) list \<Rightarrow> (leg_revenue \<times> int) list" where
  "revenue_segments wireDate share [] acc = acc"
| "revenue_segments wireDate share (sg # sgs) acc =
     (if wireDate \<noteq> '''' \<and> \<not> EqualFold (WireDate sg) wireDate then revenue_segments wireDate share sgs acc
      else revenue_segments wireDate share sgs
             (gm_put (revenue_key sg) (gm_get 0 acc (revenue_key sg) + share) acc))"

definition live_air :: "pnr \<Rightarrow> segment list" where
  "live_air p = filter (\<lambda>sg. sg_Type sg = SegmentAir \<and> sg_Status sg \<noteq> ''XX'') (Segments p)"

fun revenue_records :: "string \<Rightarrow> pnr list \<Rightarrow> (leg_revenue \<times> int) list \<Rightarrow> (leg_revenue \<times> int) list" where
  "revenue_records wireDate [] acc = acc"
| "revenue_records wireDate (p # ps) acc =
     (case Pricing p of
        None \<Rightarrow> revenue_records wireDate ps acc
      | Some pr \<Rightarrow>
          if pnr_Status p = StatusCancelled \<or> pr_Total pr = 0 then revenue_records wireDate ps acc
          else let air = live_air p in
               if air = [] then revenue_records wireDate ps acc
               else revenue_records wireDate ps
                      (revenue_segments wireDate (go_div (pr_Total pr) (int (length air))) air acc))"

definition RevenueByLeg :: "mem \<Rightarrow> string \<Rightarrow> leg_revenue list" where
  "RevenueByLeg s wireDate =
     sort_key (\<lambda>a. [lr_Carrier a, lr_FlightNum a, lr_Board a])
       (map (\<lambda>(k, c). k\<lparr>Cents := c\<rparr>) (revenue_records wireDate (map snd (pnrs s)) []))"

definition ExportPNRs :: "mem \<Rightarrow> pnr list" where
  "ExportPNRs s = sort_key ID (map snd (pnrs s))"

end
