(* ===== verification/Store_Inv.thy ===== *)
theory Store_Inv
  imports Store
begin

text \<open>
  The invariant of the in-memory store. \<open>mem_wf\<close> says that
  the three index structures agree with what they index: the locator index with the records, the
  identifier lists and the duplicate index with the message log, and the pending index with the
  work queue; and that events are numbered from one without gaps. The lemmas show that each shared
  step of the methods (indexing, trimming, discarding a record) keeps it.
\<close>

section \<open>The invariant\<close>

definition ev_ok :: "string \<Rightarrow> event list \<Rightarrow> bool" where
  "ev_ok i es \<longleftrightarrow> map Seq es = map int [1..<Suc (length es)] \<and> (\<forall>e \<in> set es. ev_PNRID e = i)"

definition rec_wf :: "mem \<Rightarrow> bool" where
  "rec_wf s \<longleftrightarrow>
     gm_wf (pnrs s)
   \<and> (\<forall>i p. map_of (pnrs s) i = Some p \<longrightarrow>
        ID p = i \<and> 1 \<le> pnr_Version p \<and> map_of (byLocator s) (RecordLocator p) = Some i)
   \<and> (\<forall>l i. map_of (byLocator s) l = Some i \<longrightarrow> (\<exists>p. map_of (pnrs s) i = Some p \<and> RecordLocator p = l))"

definition events_wf :: "mem \<Rightarrow> bool" where
  "events_wf s \<longleftrightarrow> (\<forall>i es. map_of (events s) i = Some es \<longrightarrow> ev_ok i es \<and> map_of (pnrs s) i \<noteq> None)"

definition queue_wf :: "mem \<Rightarrow> bool" where
  "queue_wf s \<longleftrightarrow>
     gm_wf (queue s) \<and> distinct (queueIDs s) \<and> sorted (queueIDs s)
   \<and> (\<forall>i. i \<in> set (queueIDs s) \<longleftrightarrow> map_of (queue s) i \<noteq> None)
   \<and> (\<forall>i it. map_of (queue s) i = Some it \<longrightarrow> qi_ID it = i)
   \<and> (\<forall>k i. map_of (queuePending s) k = Some i \<longleftrightarrow>
        (\<exists>it. map_of (queue s) i = Some it \<and> Pending it \<and> item_key it = k))"

definition msg_key :: "message \<Rightarrow> string" where
  "msg_key m = dedupKey (Direction m) (Peer m) (DedupKey m)"

definition log_wf :: "mem \<Rightarrow> bool" where
  "log_wf s \<longleftrightarrow>
     distinct (messageIDs s) \<and> sorted (messageIDs s)
   \<and> (\<forall>i. i \<in> set (messageIDs s) \<longleftrightarrow> map_of (messages s) i \<noteq> None)
   \<and> (\<forall>i m. map_of (messages s) i = Some m \<longrightarrow> msg_ID m = i)
   \<and> (\<forall>k i. map_of (dedup s) k = Some i \<longrightarrow>
        (\<exists>m. map_of (messages s) i = Some m \<and> DedupKey m \<noteq> '''' \<and> msg_key m = k))"

definition mem_wf :: "mem \<Rightarrow> bool" where
  "mem_wf s \<longleftrightarrow> rec_wf s \<and> events_wf s \<and> queue_wf s \<and> log_wf s"

text \<open>Introduction and destruction rules, so that proofs handle one conjunct at a time.\<close>

lemma rec_wfI:
  assumes "gm_wf (pnrs s)"
    and "\<And>i p. map_of (pnrs s) i = Some p \<Longrightarrow> ID p = i" "\<And>i p. map_of (pnrs s) i = Some p \<Longrightarrow> 1 \<le> pnr_Version p"
    and "\<And>i p. map_of (pnrs s) i = Some p \<Longrightarrow> map_of (byLocator s) (RecordLocator p) = Some i"
    and "\<And>l i. map_of (byLocator s) l = Some i \<Longrightarrow> \<exists>p. map_of (pnrs s) i = Some p \<and> RecordLocator p = l"
  shows "rec_wf s"
  unfolding rec_wf_def using assms by blast

lemma rec_wfD:
  assumes "rec_wf s"
  shows "gm_wf (pnrs s)"
    "map_of (pnrs s) i = Some p \<Longrightarrow> ID p = i" "map_of (pnrs s) i = Some p \<Longrightarrow> 1 \<le> pnr_Version p"
    "map_of (pnrs s) i = Some p \<Longrightarrow> map_of (byLocator s) (RecordLocator p) = Some i"
    "map_of (byLocator s) l = Some i \<Longrightarrow> \<exists>p. map_of (pnrs s) i = Some p \<and> RecordLocator p = l"
  using assms unfolding rec_wf_def by blast+

lemma queue_wfI:
  assumes "gm_wf (queue s)" "distinct (queueIDs s)" "sorted (queueIDs s)"
    and "\<And>i. i \<in> set (queueIDs s) \<longleftrightarrow> map_of (queue s) i \<noteq> None"
    and "\<And>i it. map_of (queue s) i = Some it \<Longrightarrow> qi_ID it = i"
    and "\<And>k i. map_of (queuePending s) k = Some i \<longleftrightarrow>
          (\<exists>it. map_of (queue s) i = Some it \<and> Pending it \<and> item_key it = k)"
  shows "queue_wf s"
  unfolding queue_wf_def using assms by blast

lemma queue_wfD:
  assumes "queue_wf s"
  shows "gm_wf (queue s)" "distinct (queueIDs s)" "sorted (queueIDs s)"
    "i \<in> set (queueIDs s) \<longleftrightarrow> map_of (queue s) i \<noteq> None"
    "map_of (queue s) i = Some it \<Longrightarrow> qi_ID it = i"
    "map_of (queuePending s) k = Some i \<longleftrightarrow> (\<exists>it. map_of (queue s) i = Some it \<and> Pending it \<and> item_key it = k)"
  using assms unfolding queue_wf_def by blast+

lemma log_wfI:
  assumes "distinct (messageIDs s)" "sorted (messageIDs s)"
    and "\<And>i. i \<in> set (messageIDs s) \<longleftrightarrow> map_of (messages s) i \<noteq> None"
    and "\<And>i m. map_of (messages s) i = Some m \<Longrightarrow> msg_ID m = i"
    and "\<And>k i. map_of (dedup s) k = Some i \<Longrightarrow>
          \<exists>m. map_of (messages s) i = Some m \<and> DedupKey m \<noteq> '''' \<and> msg_key m = k"
  shows "log_wf s"
  unfolding log_wf_def using assms by blast

lemma log_wfD:
  assumes "log_wf s"
  shows "distinct (messageIDs s)" "sorted (messageIDs s)"
    "i \<in> set (messageIDs s) \<longleftrightarrow> map_of (messages s) i \<noteq> None"
    "map_of (messages s) i = Some m \<Longrightarrow> msg_ID m = i"
    "map_of (dedup s) k = Some i \<Longrightarrow> \<exists>m. map_of (messages s) i = Some m \<and> DedupKey m \<noteq> '''' \<and> msg_key m = k"
  using assms unfolding log_wf_def by blast+

text \<open>Each part reads only its own fields, so a change elsewhere keeps it.\<close>

lemma rec_wf_cong: "pnrs s = pnrs s' \<Longrightarrow> byLocator s = byLocator s' \<Longrightarrow> rec_wf s = rec_wf s'"
  by (simp add: rec_wf_def)

lemma events_wf_cong: "pnrs s = pnrs s' \<Longrightarrow> events s = events s' \<Longrightarrow> events_wf s = events_wf s'"
  by (simp add: events_wf_def)

lemma queue_wf_cong:
  "queue s = queue s' \<Longrightarrow> queueIDs s = queueIDs s' \<Longrightarrow> queuePending s = queuePending s' \<Longrightarrow> queue_wf s = queue_wf s'"
  by (simp add: queue_wf_def)

lemma log_wf_cong:
  "messages s = messages s' \<Longrightarrow> messageIDs s = messageIDs s' \<Longrightarrow> dedup s = dedup s' \<Longrightarrow> log_wf s = log_wf s'"
  by (simp add: log_wf_def)

lemmas wf_congs = rec_wf_cong events_wf_cong queue_wf_cong log_wf_cong

lemma mem_wf_NewMem: "mem_wf (NewMem\<lparr>MaxMessages := a, MaxRecords := b\<rparr>)"
  by (simp add: mem_wf_def rec_wf_def events_wf_def queue_wf_def log_wf_def NewMem_def)

section \<open>Ordered identifier lists\<close>

lemma set_push_sorted [simp]: "set (push_sorted ids i) = insert i (set ids)"
  by (auto simp: push_sorted_def Let_def)

lemma distinct_push_sorted: "distinct (push_sorted ids i) \<longleftrightarrow> distinct ids \<and> i \<notin> set ids"
  by (auto simp: push_sorted_def Let_def)

lemma sorted_push_sorted: "sorted ids \<Longrightarrow> sorted (push_sorted ids i)"
proof (cases ids rule: rev_cases)
  case (snoc ys y)
  assume s: "sorted ids"
  have "push_sorted ids i = (if i < y then sort (ids @ [i]) else ids @ [i])"
    by (simp add: push_sorted_def snoc nth_append)
  then show ?thesis using s by (auto simp: snoc sorted_append intro: order_trans)
qed (simp add: push_sorted_def)

section \<open>Events\<close>

lemma append_events_loop_frame:
  "let s' = append_events_loop gen i seq evs s in
     pnrs s' = pnrs s \<and> byLocator s' = byLocator s \<and> messages s' = messages s \<and> messageIDs s' = messageIDs s
   \<and> dedup s' = dedup s \<and> queue s' = queue s \<and> queueIDs s' = queueIDs s \<and> queuePending s' = queuePending s
   \<and> leases s' = leases s \<and> MaxRecords s' = MaxRecords s"
  by (induction evs arbitrary: s seq) (simp_all add: Let_def)

lemma append_events_frame [simp]:
  "pnrs (appendEventsLocked gen i evs s) = pnrs s" "byLocator (appendEventsLocked gen i evs s) = byLocator s"
  "messages (appendEventsLocked gen i evs s) = messages s" "messageIDs (appendEventsLocked gen i evs s) = messageIDs s"
  "dedup (appendEventsLocked gen i evs s) = dedup s" "queue (appendEventsLocked gen i evs s) = queue s"
  "queueIDs (appendEventsLocked gen i evs s) = queueIDs s" "queuePending (appendEventsLocked gen i evs s) = queuePending s"
  "leases (appendEventsLocked gen i evs s) = leases s" "MaxRecords (appendEventsLocked gen i evs s) = MaxRecords s"
  unfolding appendEventsLocked_def using append_events_loop_frame [unfolded Let_def] by simp_all

lemma ev_ok_snoc: "ev_ok i es \<Longrightarrow> ev_PNRID e = i \<Longrightarrow> Seq e = int (length es) + 1 \<Longrightarrow> ev_ok i (es @ [e])"
  by (auto simp: ev_ok_def)

lemma append_events_loop_ok:
  assumes "seq = int (length (gm_get [] (events s) i))" "ev_ok i (gm_get [] (events s) i)"
    and "s' = append_events_loop gen i seq evs s"
  shows "ev_ok i (gm_get [] (events s') i)
       \<and> length (gm_get [] (events s') i) = length (gm_get [] (events s) i) + length evs
       \<and> take (length (gm_get [] (events s) i)) (gm_get [] (events s') i) = gm_get [] (events s) i
       \<and> (\<forall>j. j \<noteq> i \<longrightarrow> map_of (events s') j = map_of (events s) j)"
  using assms
proof (induction evs arbitrary: s seq)
  case (Cons e es)
  let ?old = "gm_get [] (events s) i"
  define st where "st = (if ev_ID e = '''' then (e\<lparr>ev_ID := gen (drawn s)\<rparr>, s\<lparr>drawn := Suc (drawn s)\<rparr>) else (e, s))"
  define e2 where "e2 = (fst st)\<lparr>ev_PNRID := i, Seq := seq + 1\<rparr>"
  define s1 where "s1 = (snd st)\<lparr>events := gm_put i (gm_get [] (events (snd st)) i @ [e2]) (events (snd st))\<rparr>"
  have evs: "events (snd st) = events s" by (simp add: st_def)
  have s': "s' = append_events_loop gen i (seq + 1) es s1"
    using Cons.prems(3) by (simp add: st_def [symmetric] case_prod_beta e2_def s1_def)
  have new: "gm_get [] (events s1) i = ?old @ [e2]" by (simp add: s1_def evs)
  have ok: "ev_ok i (?old @ [e2])" using Cons.prems(1,2) by (intro ev_ok_snoc) (simp_all add: e2_def)
  note ih = Cons.IH [of "seq + 1" s1, unfolded new, OF _ ok s']
  have oth: "\<forall>j. j \<noteq> i \<longrightarrow> map_of (events s1) j = map_of (events s) j" by (simp add: s1_def evs)
  have "take (length ?old) (gm_get [] (events s') i) = take (length ?old) (take (length (?old @ [e2])) (gm_get [] (events s') i))"
    by (simp add: min_def)
  also have "\<dots> = ?old" using ih Cons.prems(1) by (metis append_eq_conv_conj length_append_singleton new of_nat_Suc add.commute)
  finally show ?case using ih Cons.prems(1) oth by simp
qed simp

lemma gm_get_Nil_ok: "events_wf s \<Longrightarrow> ev_ok i (gm_get [] (events s) i)"
  by (cases "map_of (events s) i") (auto simp: events_wf_def gm_get_def ev_ok_def [where es = "[]"])

lemma append_events_spec:
  assumes "events_wf s"
  shows "ev_ok i (Events (appendEventsLocked gen i evs s) i)"
    "length (Events (appendEventsLocked gen i evs s) i) = length (Events s i) + length evs"
    "take (length (Events s i)) (Events (appendEventsLocked gen i evs s) i) = Events s i"
    "j \<noteq> i \<Longrightarrow> map_of (events (appendEventsLocked gen i evs s)) j = map_of (events s) j"
  using append_events_loop_ok [OF refl gm_get_Nil_ok [OF assms] refl, of i gen evs]
  by (simp_all add: Events_def appendEventsLocked_def)

lemma events_wf_append:
  assumes "events_wf s" "map_of (pnrs s) i \<noteq> None"
  shows "events_wf (appendEventsLocked gen i evs s)"
  unfolding events_wf_def append_events_frame
proof (intro allI impI)
  fix j es assume es: "map_of (events (appendEventsLocked gen i evs s)) j = Some es"
  show "ev_ok j es \<and> map_of (pnrs s) j \<noteq> None"
  proof (cases "j = i")
    case True
    then have "Events (appendEventsLocked gen i evs s) i = es" using es by (simp add: Events_def gm_get_def)
    then show ?thesis using append_events_spec(1) [OF assms(1)] assms(2) True by metis
  next
    case False
    then show ?thesis using es append_events_spec(4) [OF assms(1)] assms(1) by (auto simp: events_wf_def)
  qed
qed

section \<open>Storing a record\<close>

lemma put_pnr_frame [simp]:
  "messages (put_pnr p s) = messages s" "messageIDs (put_pnr p s) = messageIDs s" "dedup (put_pnr p s) = dedup s"
  "queue (put_pnr p s) = queue s" "queueIDs (put_pnr p s) = queueIDs s" "queuePending (put_pnr p s) = queuePending s"
  "events (put_pnr p s) = events s" "leases (put_pnr p s) = leases s" "MaxRecords (put_pnr p s) = MaxRecords s"
  "map_of (pnrs (put_pnr p s)) = (map_of (pnrs s))(ID p \<mapsto> p)"
  "map_of (byLocator (put_pnr p s)) = (map_of (byLocator s))(RecordLocator p \<mapsto> ID p)"
  "drawn (put_pnr p s) = drawn s"
  by (simp_all add: put_pnr_def)

lemma gm_wf_put_pnr: "gm_wf (pnrs s) \<Longrightarrow> gm_wf (pnrs (put_pnr p s))"
  by (simp add: put_pnr_def gm_wf_put)

lemma rec_wf_put:
  assumes w: "rec_wf s" and v: "1 \<le> pnr_Version p"
    and loc: "\<And>i. map_of (byLocator s) (RecordLocator p) = Some i \<Longrightarrow> i = ID p"
    and old: "\<And>cur. map_of (pnrs s) (ID p) = Some cur \<Longrightarrow> RecordLocator cur = RecordLocator p"
  shows "rec_wf (put_pnr p s)"
proof (rule rec_wfI)
  show "gm_wf (pnrs (put_pnr p s))" by (rule gm_wf_put_pnr [OF rec_wfD(1) [OF w]])
  fix i q assume q: "map_of (pnrs (put_pnr p s)) i = Some q"
  show "ID q = i" using q rec_wfD(2) [OF w] by (auto split: if_splits)
  show "1 \<le> pnr_Version q" using q v rec_wfD(3) [OF w] by (auto split: if_splits)
  show "map_of (byLocator (put_pnr p s)) (RecordLocator q) = Some i"
  proof (cases "i = ID p")
    case True
    then show ?thesis using q by simp
  next
    case False
    then have "map_of (byLocator s) (RecordLocator q) = Some i" using q rec_wfD(4) [OF w] by simp
    then show ?thesis using loc False by auto
  qed
next
  fix l i assume l: "map_of (byLocator (put_pnr p s)) l = Some i"
  show "\<exists>q. map_of (pnrs (put_pnr p s)) i = Some q \<and> RecordLocator q = l"
  proof (cases "l = RecordLocator p")
    case True
    then show ?thesis using l by simp
  next
    case False
    then obtain q where "map_of (pnrs s) i = Some q" "RecordLocator q = l" using l rec_wfD(5) [OF w] by auto
    then show ?thesis using False old by auto
  qed
qed

lemma rec_wf_put_new:
  assumes "rec_wf s" "map_of (byLocator s) (RecordLocator p) = None" "map_of (pnrs s) (ID p) = None" "1 \<le> pnr_Version p"
  shows "rec_wf (put_pnr p s)"
  using assms by (intro rec_wf_put) auto

lemma rec_wf_put_same:
  assumes "rec_wf s" "map_of (pnrs s) (ID p) = Some cur" "RecordLocator p = RecordLocator cur" "1 \<le> pnr_Version p"
  shows "rec_wf (put_pnr p s)"
  using rec_wfD(4) [OF assms(1,2)] assms by (intro rec_wf_put) auto

lemma events_wf_put: "events_wf s \<Longrightarrow> events_wf (put_pnr p s)"
  by (auto simp: events_wf_def)

section \<open>The message log\<close>

lemma index_dedup_frame [simp]:
  "pnrs (index_dedup m s) = pnrs s" "byLocator (index_dedup m s) = byLocator s" "events (index_dedup m s) = events s"
  "queue (index_dedup m s) = queue s" "queueIDs (index_dedup m s) = queueIDs s"
  "queuePending (index_dedup m s) = queuePending s" "messages (index_dedup m s) = messages s"
  "messageIDs (index_dedup m s) = messageIDs s" "MaxMessages (index_dedup m s) = MaxMessages s"
  by (simp_all add: index_dedup_def Let_def)

lemma log_wf_index:
  assumes "log_wf s" "map_of (messages s) (msg_ID m) = Some m"
  shows "log_wf (index_dedup m s)"
proof (rule log_wfI)
  fix k i assume "map_of (dedup (index_dedup m s)) k = Some i"
  then have "map_of (dedup s) k = Some i \<or> DedupKey m \<noteq> '''' \<and> k = msg_key m \<and> i = msg_ID m"
    by (auto simp: index_dedup_def Let_def msg_key_def split: if_splits)
  then show "\<exists>m'. map_of (messages (index_dedup m s)) i = Some m' \<and> DedupKey m' \<noteq> '''' \<and> msg_key m' = k"
    using log_wfD(5) [OF assms(1)] assms(2) by auto
qed (use log_wfD [OF assms(1)] in simp_all)

lemma drop_message_frame [simp]:
  "pnrs (drop_message i m s) = pnrs s" "byLocator (drop_message i m s) = byLocator s" "events (drop_message i m s) = events s"
  "queue (drop_message i m s) = queue s" "queueIDs (drop_message i m s) = queueIDs s"
  "queuePending (drop_message i m s) = queuePending s" "messageIDs (drop_message i m s) = messageIDs s"
  "map_of (messages (drop_message i m s)) = (map_of (messages s))(i := None)"
  by (simp_all add: drop_message_def Let_def)

lemma log_wf_drop_message:
  assumes "log_wf (s\<lparr>messageIDs := xs @ i # ys\<rparr>)" "map_of (messages s) i = Some m"
  shows "log_wf ((drop_message i m s)\<lparr>messageIDs := xs @ ys\<rparr>)"
proof -
  let ?d = "drop_message i m s"
  have dd: "map_of (dedup ?d) k = (if DedupKey m \<noteq> '''' \<and> k = msg_key m \<and> map_of (dedup s) k = Some i then None else map_of (dedup s) k)" for k
    by (auto simp: drop_message_def Let_def msg_key_def)
  from assms(1) have h: "distinct (xs @ i # ys)" "sorted (xs @ i # ys)"
    "\<And>j. j \<in> set (xs @ i # ys) \<longleftrightarrow> map_of (messages s) j \<noteq> None"
    "\<And>j m. map_of (messages s) j = Some m \<Longrightarrow> msg_ID m = j"
    "\<And>k j. map_of (dedup s) k = Some j \<Longrightarrow> \<exists>m. map_of (messages s) j = Some m \<and> DedupKey m \<noteq> '''' \<and> msg_key m = k"
    using log_wfD [OF assms(1)] by simp_all
  have "\<exists>m'. map_of (messages ?d) j = Some m' \<and> DedupKey m' \<noteq> '''' \<and> msg_key m' = k" if "map_of (dedup ?d) k = Some j" for k j
  proof -
    from that have k: "map_of (dedup s) k = Some j" "\<not> (DedupKey m \<noteq> '''' \<and> k = msg_key m \<and> j = i)"
      by (auto simp: dd split: if_splits)
    from h(5) [OF k(1)] assms(2) k(2) have "j \<noteq> i" by auto
    with h(5) [OF k(1)] show ?thesis by simp
  qed
  moreover have "sorted (xs @ ys)" using h(2) by (simp add: sorted_append)
  moreover have "j \<in> set (xs @ ys) \<longleftrightarrow> map_of (messages ?d) j \<noteq> None" for j using h(1) h(3) [of j] by auto
  ultimately show ?thesis using h(1,4) by (intro log_wfI) (auto split: if_splits)
qed

lemma drop_ids_frame [simp]:
  "pnrs (drop_ids is s) = pnrs s" "byLocator (drop_ids is s) = byLocator s" "events (drop_ids is s) = events s"
  "queue (drop_ids is s) = queue s" "queueIDs (drop_ids is s) = queueIDs s" "queuePending (drop_ids is s) = queuePending s"
  "messageIDs (drop_ids is s) = messageIDs s"
  by (induction "is" arbitrary: s) (simp_all split: option.split)

lemma log_wf_drop_ids: "log_wf (s\<lparr>messageIDs := is @ keep\<rparr>) \<Longrightarrow> log_wf ((drop_ids is s)\<lparr>messageIDs := keep\<rparr>)"
proof (induction "is" arbitrary: s)
  case (Cons i rest)
  then have "map_of (messages s) i \<noteq> None" using log_wfD(3) [of "s\<lparr>messageIDs := _\<rparr>" i] by fastforce
  then obtain m where m: "map_of (messages s) i = Some m" by auto
  from log_wf_drop_message [where s = s and xs = "[]" and i = i, OF _ m] Cons.prems
  have "log_wf ((drop_message i m s)\<lparr>messageIDs := rest @ keep\<rparr>)" by simp
  from Cons.IH [OF this] show ?case by (simp add: m)
qed simp

lemma log_wf_trim: "log_wf s \<Longrightarrow> log_wf (trimMessagesLocked s)"
proof -
  assume w: "log_wf s"
  define n where "n = length (messageIDs s) - nat (MaxMessages s)"
  let ?t = "s\<lparr>messageIDs := drop n (messageIDs s)\<rparr>"
  have "log_wf (?t\<lparr>messageIDs := take n (messageIDs s) @ drop n (messageIDs s)\<rparr>)" using w by simp
  from log_wf_drop_ids [OF this] have "log_wf (drop_ids (take n (messageIDs s)) ?t)"
    by (rule log_wf_cong [THEN iffD1, rotated -1]) simp_all
  then show ?thesis using w by (simp add: trimMessagesLocked_def n_def [symmetric] Let_def)
qed

lemma log_wf_add:
  assumes "log_wf s" "map_of (messages s) (msg_ID m) = None"
  shows "log_wf (s\<lparr>messages := gm_put (msg_ID m) m (messages s), messageIDs := push_sorted (messageIDs s) (msg_ID m)\<rparr>)"
proof (rule log_wfI, goal_cases)
  case 1 then show ?case using log_wfD(1,3) [OF assms(1)] assms(2) by (simp add: distinct_push_sorted)
next
  case 2 then show ?case using log_wfD(2) [OF assms(1)] by (simp add: sorted_push_sorted)
next
  case (3 i) then show ?case using log_wfD(3) [OF assms(1)] by simp
next
  case (4 i m') then show ?case using log_wfD(4) [OF assms(1)] by (auto split: if_splits)
next
  case (5 k i)
  then obtain m' where "map_of (messages s) i = Some m'" "DedupKey m' \<noteq> ''''" "msg_key m' = k"
    using log_wfD(5) [OF assms(1)] by auto
  then show ?case using assms(2) by auto
qed

lemma trim_frame [simp]:
  "pnrs (trimMessagesLocked s) = pnrs s" "byLocator (trimMessagesLocked s) = byLocator s"
  "events (trimMessagesLocked s) = events s" "queue (trimMessagesLocked s) = queue s"
  "queueIDs (trimMessagesLocked s) = queueIDs s" "queuePending (trimMessagesLocked s) = queuePending s"
  by (simp_all add: trimMessagesLocked_def Let_def)

lemma purge_messages_wf:
  "log_wf (s\<lparr>messageIDs := keep @ is\<rparr>) \<Longrightarrow> purge_messages_loop before keep is s n = (s', n') \<Longrightarrow>
     log_wf s' \<and> pnrs s' = pnrs s \<and> byLocator s' = byLocator s \<and> events s' = events s
   \<and> queue s' = queue s \<and> queueIDs s' = queueIDs s \<and> queuePending s' = queuePending s"
proof (induction before keep "is" s n arbitrary: s' n' rule: purge_messages_loop.induct)
  case (2 before keep i rest s n)
  then have "map_of (messages s) i \<noteq> None" using log_wfD(3) [of "s\<lparr>messageIDs := _\<rparr>" i] by fastforce
  then obtain m where m: "map_of (messages s) i = Some m" by auto
  show ?case
  proof (cases "msg_At m < before")
    case True
    have "log_wf ((drop_message i m s)\<lparr>messageIDs := keep @ rest\<rparr>)"
      using log_wf_drop_message [OF "2.prems"(1) m] .
    with "2.IH"(2) [OF m True] "2.prems"(2) m True show ?thesis by simp
  next
    case False
    with "2.IH"(3) [OF m False] "2.prems" m show ?thesis by simp
  qed
qed auto

section \<open>Discarding a record\<close>

definition drop_item :: "string \<Rightarrow> queue_item \<Rightarrow> mem \<Rightarrow> mem" where
  "drop_item i it s =
     (let s1 = (if Pending it then s\<lparr>queuePending := gm_del (item_key it) (queuePending s)\<rparr> else s) in
      s1\<lparr>queue := gm_del i (queue s1)\<rparr>)"

lemma drop_queue_loop_Cons:
  "drop_queue_loop p keep (i # is) s =
     (case map_of (queue s) i of
        Some it \<Rightarrow> if qi_PNRID it = p then drop_queue_loop p keep is (drop_item i it s)
                   else drop_queue_loop p (keep @ [i]) is s
      | None \<Rightarrow> drop_queue_loop p (keep @ [i]) is s)"
  by (simp add: drop_item_def Let_def split: option.split)

lemma drop_item_frame [simp]:
  "pnrs (drop_item i it s) = pnrs s" "byLocator (drop_item i it s) = byLocator s" "events (drop_item i it s) = events s"
  "messages (drop_item i it s) = messages s" "messageIDs (drop_item i it s) = messageIDs s"
  "dedup (drop_item i it s) = dedup s" "leases (drop_item i it s) = leases s" "MaxRecords (drop_item i it s) = MaxRecords s"
  "map_of (queue (drop_item i it s)) = (map_of (queue s))(i := None)"
  by (simp_all add: drop_item_def Let_def)

lemma queue_wf_drop_item:
  assumes "queue_wf (s\<lparr>queueIDs := xs @ i # ys\<rparr>)" "map_of (queue s) i = Some it"
  shows "queue_wf ((drop_item i it s)\<lparr>queueIDs := xs @ ys\<rparr>)"
proof -
  let ?d = "drop_item i it s"
  from assms(1) have h: "gm_wf (queue s)" "distinct (xs @ i # ys)" "sorted (xs @ i # ys)"
    "\<And>j. j \<in> set (xs @ i # ys) \<longleftrightarrow> map_of (queue s) j \<noteq> None"
    "\<And>j it. map_of (queue s) j = Some it \<Longrightarrow> qi_ID it = j"
    "\<And>k j. map_of (queuePending s) k = Some j \<longleftrightarrow> (\<exists>it. map_of (queue s) j = Some it \<and> Pending it \<and> item_key it = k)"
    using queue_wfD [OF assms(1)] by simp_all
  have qp: "map_of (queuePending ?d) k = (if Pending it \<and> k = item_key it then None else map_of (queuePending s) k)" for k
    by (simp add: drop_item_def Let_def)
  have one: "j = i" if "map_of (queue s) j = Some it'" "Pending it'" "item_key it' = item_key it" "Pending it" for j it'
    using h(6) [of "item_key it" i] h(6) [of "item_key it" j] that assms(2) by auto
  have "map_of (queuePending ?d) k = Some j \<longleftrightarrow> (\<exists>it'. map_of (queue ?d) j = Some it' \<and> Pending it' \<and> item_key it' = k)" for k j
  proof (cases "Pending it \<and> k = item_key it")
    case True
    then have "\<not> (\<exists>it'. map_of (queue ?d) j = Some it' \<and> Pending it' \<and> item_key it' = k)"
      using one [of j] by (simp split: if_splits) metis
    then show ?thesis using True by (simp add: qp)
  next
    case False
    have "map_of (queuePending ?d) k = map_of (queuePending s) k" by (simp only: qp if_not_P [OF False])
    moreover have "j = i \<Longrightarrow> \<not> (\<exists>it'. map_of (queue s) j = Some it' \<and> Pending it' \<and> item_key it' = k)"
      using assms(2) False by auto
    ultimately show ?thesis using h(6) [of k j] by simp
  qed
  moreover have "sorted (xs @ ys)" using h(3) by (simp add: sorted_append)
  moreover have "gm_wf (queue ?d)" using h(1) by (auto simp: drop_item_def Let_def)
  moreover have "j \<in> set (xs @ ys) \<longleftrightarrow> map_of (queue ?d) j \<noteq> None" for j using h(2) h(4) [of j] by auto
  ultimately show ?thesis using h(2,5) by (intro queue_wfI) (simp_all split: if_splits)
qed

lemma drop_queue_loop_spec:
  assumes "queue_wf (s\<lparr>queueIDs := keep @ is\<rparr>)"
    and "\<forall>i \<in> set keep. \<forall>it. map_of (queue s) i = Some it \<longrightarrow> qi_PNRID it \<noteq> p"
  shows "let s' = drop_queue_loop p keep is s in
       queue_wf s' \<and> (\<forall>i it. map_of (queue s') i = Some it \<longleftrightarrow> map_of (queue s) i = Some it \<and> qi_PNRID it \<noteq> p)
     \<and> pnrs s' = pnrs s \<and> byLocator s' = byLocator s \<and> events s' = events s \<and> messages s' = messages s
     \<and> messageIDs s' = messageIDs s \<and> dedup s' = dedup s \<and> leases s' = leases s \<and> MaxRecords s' = MaxRecords s"
  using assms
proof (induction "is" arbitrary: s keep)
  case Nil
  then have "map_of (queue s) i = Some it \<Longrightarrow> qi_PNRID it \<noteq> p" for i it
    using queue_wfD(4) [OF Nil.prems(1), of i] by simp
  with Nil show ?case by (auto simp: Let_def)
next
  case (Cons i rest)
  have "map_of (queue s) i \<noteq> None" using queue_wfD(4) [OF Cons.prems(1), of i] by simp
  then obtain it where it: "map_of (queue s) i = Some it" by auto
  show ?case
  proof (cases "qi_PNRID it = p")
    case True
    from queue_wf_drop_item [OF Cons.prems(1) it]
    have "queue_wf ((drop_item i it s)\<lparr>queueIDs := keep @ rest\<rparr>)" .
    from Cons.IH [OF this] Cons.prems(2) True it show ?thesis
      unfolding drop_queue_loop_Cons by (auto simp: Let_def split: if_splits)
  next
    case False
    have "queue_wf (s\<lparr>queueIDs := (keep @ [i]) @ rest\<rparr>)" using Cons.prems(1) by simp
    from Cons.IH [OF this] Cons.prems(2) False it show ?thesis
      unfolding drop_queue_loop_Cons by (auto simp: Let_def)
  qed
qed

lemma drop_queue_spec:
  assumes "queue_wf s" and "s' = dropQueueForRecordLocked p s"
  shows "queue_wf s'" "map_of (queue s') i = Some it \<longleftrightarrow> map_of (queue s) i = Some it \<and> qi_PNRID it \<noteq> p"
    "pnrs s' = pnrs s" "byLocator s' = byLocator s" "events s' = events s" "messages s' = messages s"
    "messageIDs s' = messageIDs s" "dedup s' = dedup s" "leases s' = leases s" "MaxRecords s' = MaxRecords s"
  using drop_queue_loop_spec [of "[]" "queueIDs s" s p] assms by (auto simp: dropQueueForRecordLocked_def Let_def)

lemma drop_record_spec:
  assumes "mem_wf s" "map_of (pnrs s) i = Some p" and "s' = drop_record i p s"
  shows "mem_wf s'" "pnrs s' = gm_del i (pnrs s)" "MaxRecords s' = MaxRecords s" "leases s' = leases s"
    "messages s' = messages s" "map_of (events s') = (map_of (events s))(i := None)"
    "map_of (queue s') j = Some it \<longleftrightarrow> map_of (queue s) j = Some it \<and> qi_PNRID it \<noteq> i"
proof -
  let ?s1 = "s\<lparr>byLocator := gm_del (RecordLocator p) (byLocator s), pnrs := gm_del i (pnrs s), events := gm_del i (events s)\<rparr>"
  from assms(1) have w: "rec_wf s" "events_wf s" "queue_wf s" "log_wf s" by (simp_all add: mem_wf_def)
  have q1: "queue_wf ?s1" using w(3) by (simp add: queue_wf_def)
  note d = drop_queue_spec [OF q1, of s' i] and r = rec_wfD [OF w(1)]
  have s': "s' = dropQueueForRecordLocked i ?s1" by (simp add: assms(3) drop_record_def)
  have "rec_wf ?s1"
  proof (rule rec_wfI)
    show "gm_wf (pnrs ?s1)" using r(1) by (simp add: gm_wf_del)
    fix j q assume q: "map_of (pnrs ?s1) j = Some q"
    then have j: "j \<noteq> i" "map_of (pnrs s) j = Some q" by (auto split: if_splits)
    show "ID q = j" "1 \<le> pnr_Version q" using r(2,3) [OF j(2)] .
    have "RecordLocator q \<noteq> RecordLocator p" using r(4) [OF j(2)] r(4) [OF assms(2)] j(1) by auto
    then show "map_of (byLocator ?s1) (RecordLocator q) = Some j" using r(4) [OF j(2)] by simp
  next
    fix l j assume "map_of (byLocator ?s1) l = Some j"
    then have l: "l \<noteq> RecordLocator p" "map_of (byLocator s) l = Some j" by (auto split: if_splits)
    from r(5) [OF l(2)] obtain q where "map_of (pnrs s) j = Some q" "RecordLocator q = l" by blast
    with l(1) assms(2) show "\<exists>q. map_of (pnrs ?s1) j = Some q \<and> RecordLocator q = l" by auto
  qed
  then have "rec_wf s'" using rec_wf_cong [OF d(3) [OF s'] d(4) [OF s']] by simp
  moreover have "events_wf ?s1" using w(2) by (auto simp: events_wf_def split: if_splits)
  then have "events_wf s'" using events_wf_cong [OF d(3) [OF s'] d(5) [OF s']] by simp
  moreover have "log_wf s'" using log_wf_cong [of s' s] d(6-8) [OF s'] w(4) by simp
  ultimately show "mem_wf s'" using d(1) [OF s'] by (simp add: mem_wf_def)
  show "pnrs s' = gm_del i (pnrs s)" "MaxRecords s' = MaxRecords s" "leases s' = leases s" "messages s' = messages s"
    "map_of (events s') = (map_of (events s))(i := None)"
    using d(3,5,6,9,10) [OF s'] by simp_all
  show "map_of (queue s') j = Some it \<longleftrightarrow> map_of (queue s) j = Some it \<and> qi_PNRID it \<noteq> i"
    using d(2) [OF s'] by simp
qed

lemma drop_records_spec:
  assumes "mem_wf s" "distinct (map fst vs)" "\<forall>v \<in> set vs. map_of (pnrs s) (fst v) = Some (snd v)"
    and "s' = drop_records vs s"
  shows "mem_wf s' \<and> pnrs s' = fold gm_del (map fst vs) (pnrs s) \<and> leases s' = leases s \<and> messages s' = messages s
       \<and> (\<forall>j it. map_of (queue s') j = Some it \<longleftrightarrow> map_of (queue s) j = Some it \<and> qi_PNRID it \<notin> fst ` set vs)
       \<and> (\<forall>j. map_of (events s') j = (if j \<in> fst ` set vs then None else map_of (events s) j))"
  using assms
proof (induction vs arbitrary: s)
  case (Cons v vs)
  obtain i p where v: "v = (i, p)" by (cases v)
  have ip: "map_of (pnrs s) i = Some p" using Cons.prems(3) v by simp
  note d = drop_record_spec [OF Cons.prems(1) ip refl]
  have "\<forall>v \<in> set vs. map_of (pnrs (drop_record i p s)) (fst v) = Some (snd v)"
    using Cons.prems(2,3) v by (auto simp: d(2) rev_image_eqI)
  from Cons.IH [OF d(1) _ this] Cons.prems(2,4) v show ?case
    by (auto simp: d(2,4,5,6,7))
qed simp

lemma gm_del_keys: "fst ` set (gm_del k m) = fst ` set m - {k}"
  by (metis delete_keys gm_del_def list.set_map set_removeAll)

lemma fold_gm_del_keys: "fst ` set (fold gm_del ks m) = fst ` set m - set ks"
  by (induction ks arbitrary: m) (auto simp: gm_del_keys)

lemma fold_gm_del_wf: "gm_wf m \<Longrightarrow> gm_wf (fold gm_del ks m)"
  by (induction ks arbitrary: m) (auto simp: gm_wf_del)

lemma map_of_fold_gm_del: "map_of (fold gm_del ks m) j = (if j \<in> set ks then None else map_of m j)"
  by (induction ks arbitrary: m) auto

lemma gm_wf_length: "gm_wf m \<Longrightarrow> length m = card (fst ` set m)"
  by (metis distinct_card gm_wf_def length_map list.set_map)

text \<open>The trim drops the records with the smallest identifiers, as many as exceed the bound.\<close>

definition record_victims :: "mem \<Rightarrow> string list" where
  "record_victims s =
     (if MaxRecords s \<le> 0 \<or> int (length (pnrs s)) \<le> MaxRecords s then []
      else take (length (pnrs s) - nat (MaxRecords s)) (sort (map fst (pnrs s))))"

lemma trim_records_drop:
  "trimRecordsLocked s = drop_records (map (\<lambda>i. (i, the (map_of (pnrs s) i))) (record_victims s)) s"
  by (simp add: trimRecordsLocked_def record_victims_def Let_def)

lemma victims:
  assumes "gm_wf (pnrs s)"
  shows "distinct (record_victims s)" "set (record_victims s) \<subseteq> fst ` set (pnrs s)"
    "MaxRecords s > 0 \<Longrightarrow> length (pnrs s) - length (record_victims s) \<le> nat (MaxRecords s)"
    "i \<in> set (record_victims s) \<Longrightarrow> j \<in> fst ` set (pnrs s) \<Longrightarrow> j \<notin> set (record_victims s) \<Longrightarrow> i < j"
proof -
  let ?ids = "sort (map fst (pnrs s))" and ?n = "length (pnrs s) - nat (MaxRecords s)"
  have d: "distinct ?ids" using assms by (simp add: gm_wf_def)
  show "distinct (record_victims s)" "set (record_victims s) \<subseteq> fst ` set (pnrs s)"
    using d by (auto simp: record_victims_def dest: in_set_takeD)
  show "MaxRecords s > 0 \<Longrightarrow> length (pnrs s) - length (record_victims s) \<le> nat (MaxRecords s)"
    by (auto simp: record_victims_def)
  assume i: "i \<in> set (record_victims s)" and j: "j \<in> fst ` set (pnrs s)" "j \<notin> set (record_victims s)"
  then have v: "record_victims s = take ?n ?ids" by (auto simp: record_victims_def split: if_splits)
  have "j \<in> set (drop ?n ?ids)" using j v by (metis Un_iff append_take_drop_id list.set_map set_append set_sort)
  moreover have "\<forall>x \<in> set (take ?n ?ids). \<forall>y \<in> set (drop ?n ?ids). x \<le> y"
    using sorted_append [of "take ?n ?ids" "drop ?n ?ids"] by simp
  ultimately have "i \<le> j" using i v by simp
  moreover have "i \<noteq> j" using i j by blast
  ultimately show "i < j" by simp
qed

lemma trim_records_spec:
  assumes "mem_wf s" and "s' = trimRecordsLocked s"
  shows "mem_wf s'" "MaxRecords s > 0 \<Longrightarrow> int (length (pnrs s')) \<le> MaxRecords s"
    "map_of (pnrs s') i = (if i \<in> set (record_victims s) then None else map_of (pnrs s) i)"
    "map_of (queue s') j = Some it \<longleftrightarrow> map_of (queue s) j = Some it \<and> qi_PNRID it \<notin> set (record_victims s)"
    "map_of (events s') i = (if i \<in> set (record_victims s) then None else map_of (events s) i)"
    "leases s' = leases s" "messages s' = messages s"
proof -
  let ?vs = "map (\<lambda>i. (i, the (map_of (pnrs s) i))) (record_victims s)"
  have g: "gm_wf (pnrs s)" using assms(1) rec_wfD(1) by (simp add: mem_wf_def)
  have f: "map fst ?vs = record_victims s" "fst ` set ?vs = set (record_victims s)" by (simp_all add: comp_def image_image)
  have "\<forall>v \<in> set ?vs. map_of (pnrs s) (fst v) = Some (snd v)"
    using victims(2) [OF g] by (auto simp: domD [unfolded dom_map_of_conv_image_fst] dest!: subsetD) (metis domD dom_map_of_conv_image_fst imageI option.sel fst_conv)
  from drop_records_spec [OF assms(1) _ this, of s'] victims(1) [OF g] assms(2)
  have d: "mem_wf s'" "pnrs s' = fold gm_del (record_victims s) (pnrs s)" "leases s' = leases s" "messages s' = messages s"
    "\<And>j it. map_of (queue s') j = Some it \<longleftrightarrow> map_of (queue s) j = Some it \<and> qi_PNRID it \<notin> set (record_victims s)"
    "\<And>j. map_of (events s') j = (if j \<in> set (record_victims s) then None else map_of (events s) j)"
    unfolding f trim_records_drop by simp_all
  show "mem_wf s'" "leases s' = leases s" "messages s' = messages s" by (rule d)+
  show "map_of (pnrs s') i = (if i \<in> set (record_victims s) then None else map_of (pnrs s) i)"
    unfolding d(2) by (rule map_of_fold_gm_del)
  show "map_of (queue s') j = Some it \<longleftrightarrow> map_of (queue s) j = Some it \<and> qi_PNRID it \<notin> set (record_victims s)"
    "map_of (events s') i = (if i \<in> set (record_victims s) then None else map_of (events s) i)" by (rule d)+
  have "length (pnrs s') = card (fst ` set (pnrs s) - set (record_victims s))"
    unfolding d(2) fold_gm_del_keys [symmetric] by (rule gm_wf_length [OF fold_gm_del_wf [OF g]])
  also have "\<dots> = length (pnrs s) - length (record_victims s)"
    using victims(1,2) [OF g] by (simp add: card_Diff_subset gm_wf_length [OF g] distinct_card)
  finally show "MaxRecords s > 0 \<Longrightarrow> int (length (pnrs s')) \<le> MaxRecords s" using victims(3) [OF g] by linarith
qed

lemma prune_wf:
  assumes "mem_wf s" "distinct (map fst vs)" "\<forall>v \<in> set vs. map_of (pnrs s) (fst v) = Some (snd v)"
  shows "mem_wf (fst (prune_loop kp vs s out))
       \<and> (\<forall>j. map_of (pnrs (fst (prune_loop kp vs s out))) j =
              (if \<exists>p. (j, p) \<in> set vs \<and> \<not> kp p then None else map_of (pnrs s) j))"
  using assms
proof (induction vs arbitrary: s out)
  case (Cons v vs)
  obtain i p where v: "v = (i, p)" by (cases v)
  have ip: "map_of (pnrs s) i = Some p" using Cons.prems(3) v by simp
  show ?case
  proof (cases "kp p")
    case True
    then show ?thesis using Cons.IH [OF Cons.prems(1)] Cons.prems(2,3) v by auto
  next
    case False
    note d = drop_record_spec [OF Cons.prems(1) ip refl]
    have "\<forall>v \<in> set vs. map_of (pnrs (drop_record i p s)) (fst v) = Some (snd v)"
      using Cons.prems(2,3) v by (auto simp: d(2) rev_image_eqI)
    note ih = Cons.IH [OF d(1) _ this]
    show ?thesis using ih Cons.prems(2) v False by (auto simp: Let_def d(2))
  qed
qed simp

end
