(* ===== verification/Store_Steps.thy ===== *)
theory Store_Steps
  imports Store_Inv
begin

text \<open>
  The methods of the in-memory store as steps. \<open>mem_step\<close> has one rule per method that changes
  the store, with what the method's callers guarantee as premises: identifiers handed in or drawn
  are new, and an update does not change a record's locator or a message's duplicate key. Every
  reachable store satisfies the invariant of \<open>Store_Inv\<close>. The properties are those the contract
  in \<open>store.go\<close> and \<open>queue.go\<close> promises: lookups agree with what was stored, no update is lost
  under optimistic concurrency, a queue holds one pending item per reason, and at most one holder
  has a lease.
\<close>

section \<open>Each method keeps the invariant\<close>

lemma mem_wf_parts: "mem_wf s \<Longrightarrow> rec_wf s \<and> events_wf s \<and> queue_wf s \<and> log_wf s"
  by (simp add: mem_wf_def)

lemma mem_wf_drawn [simp]: "mem_wf (s\<lparr>drawn := n\<rparr>) = mem_wf s"
  by (simp add: mem_wf_def rec_wf_def events_wf_def queue_wf_def log_wf_def)

lemma mem_wf_leases [simp]: "mem_wf (s\<lparr>leases := l\<rparr>) = mem_wf s"
  by (simp add: mem_wf_def rec_wf_def events_wf_def queue_wf_def log_wf_def)

lemma mem_wf_counter [simp]: "mem_wf (s\<lparr>counter := c\<rparr>) = mem_wf s"
  by (simp add: mem_wf_def rec_wf_def events_wf_def queue_wf_def log_wf_def)

lemma mem_wf_log_only:
  assumes "mem_wf s" "log_wf s'"
    and "pnrs s' = pnrs s" "byLocator s' = byLocator s" "events s' = events s" "queue s' = queue s"
    "queueIDs s' = queueIDs s" "queuePending s' = queuePending s"
  shows "mem_wf s'"
  using assms by (simp add: mem_wf_def rec_wf_cong [of s' s] events_wf_cong [of s' s] queue_wf_cong [of s' s])

lemma AppendMessage_wf:
  assumes "mem_wf s" "AppendMessage gen m s = (s', m')" "map_of (messages s) (msg_ID m') = None"
  shows "mem_wf s'"
proof -
  define st where "st = (if msg_ID m = '''' then (m\<lparr>msg_ID := gen (drawn s)\<rparr>, s\<lparr>drawn := Suc (drawn s)\<rparr>) else (m, s))"
  let ?t = "snd st"
  have f: "pnrs ?t = pnrs s" "byLocator ?t = byLocator s" "events ?t = events s" "queue ?t = queue s"
    "queueIDs ?t = queueIDs s" "queuePending ?t = queuePending s" "messages ?t = messages s" by (simp_all add: st_def)
  have wt: "mem_wf ?t" using assms(1) by (simp add: st_def)
  let ?u = "?t\<lparr>messages := gm_put (msg_ID (fst st)) (fst st) (messages ?t),
      messageIDs := push_sorted (messageIDs ?t) (msg_ID (fst st))\<rparr>"
  have r: "s' = trimMessagesLocked (index_dedup (fst st) ?u)" "m' = fst st"
    using assms(2) by (auto simp: AppendMessage_def st_def [symmetric] case_prod_beta Let_def)
  have "log_wf ?u" using wt assms(3) r(2) f(7) by (intro log_wf_add) (simp_all add: mem_wf_def)
  then have "log_wf s'" unfolding r(1) by (intro log_wf_trim log_wf_index) simp_all
  then show ?thesis by (rule mem_wf_log_only [OF assms(1)]) (simp_all add: r(1) f)
qed

lemma UpdateMessage_wf:
  assumes "mem_wf s" "UpdateMessage m s = Inr s'"
    and "\<And>old. map_of (messages s) (msg_ID m) = Some old \<Longrightarrow> DedupKey old \<noteq> '''' \<Longrightarrow> DedupKey m \<noteq> '''' \<and> msg_key m = msg_key old"
  shows "mem_wf s'"
proof -
  let ?u = "s\<lparr>messages := gm_put (msg_ID m) m (messages s)\<rparr>"
  from assms(2) have s': "s' = index_dedup m ?u" and ex: "map_of (messages s) (msg_ID m) \<noteq> None"
    by (auto simp: UpdateMessage_def split: if_splits)
  note l = log_wfD [OF mem_wf_parts [OF assms(1), THEN conjunct2, THEN conjunct2, THEN conjunct2]]
  have "log_wf ?u"
  proof (rule log_wfI)
    fix k i assume "map_of (dedup ?u) k = Some i"
    then obtain old where "map_of (messages s) i = Some old" "DedupKey old \<noteq> ''''" "msg_key old = k" using l(5) by auto
    then show "\<exists>m'. map_of (messages ?u) i = Some m' \<and> DedupKey m' \<noteq> '''' \<and> msg_key m' = k"
      using assms(3) by (cases "i = msg_ID m") auto
  next
    fix i show "i \<in> set (messageIDs ?u) \<longleftrightarrow> map_of (messages ?u) i \<noteq> None" using l(3) [of i] ex by auto
  next
    fix i m' assume "map_of (messages ?u) i = Some m'"
    then show "msg_ID m' = i" using l(4) by (auto split: if_splits)
  qed (use l(1,2) in simp_all)
  then have "log_wf s'" unfolding s' by (intro log_wf_index) simp_all
  then show ?thesis by (rule mem_wf_log_only [OF assms(1)]) (simp_all add: s')
qed

lemma mem_wf_store:
  assumes "mem_wf s" "rec_wf (put_pnr p s)"
  shows "mem_wf (appendEventsLocked gen (ID p) evs (put_pnr p s))" (is "mem_wf ?t")
proof -
  have w: "events_wf s" "queue_wf s" "log_wf s" using assms(1) by (simp_all add: mem_wf_def)
  have "rec_wf ?t" using assms(2) by (simp add: rec_wf_cong [of ?t "put_pnr p s"])
  moreover have "events_wf ?t" using w(1) by (intro events_wf_append events_wf_put) simp_all
  moreover have "queue_wf ?t" using w(2) by (simp add: queue_wf_cong [of ?t s])
  moreover have "log_wf ?t" using w(3) by (simp add: log_wf_cong [of ?t s])
  ultimately show ?thesis by (simp add: mem_wf_def)
qed

definition with_id :: "(nat \<Rightarrow> string) \<Rightarrow> pnr \<Rightarrow> mem \<Rightarrow> pnr \<times> mem" where
  "with_id gen p s = (if ID p = '''' then (p\<lparr>ID := gen (drawn s)\<rparr>, s\<lparr>drawn := Suc (drawn s)\<rparr>) else (p, s))"

lemma with_id_frame [simp]:
  "pnrs (snd (with_id gen p s)) = pnrs s" "byLocator (snd (with_id gen p s)) = byLocator s"
  "RecordLocator (fst (with_id gen p s)) = RecordLocator p" "events (snd (with_id gen p s)) = events s"
  "mem_wf (snd (with_id gen p s)) = mem_wf s" "MaxRecords (snd (with_id gen p s)) = MaxRecords s"
  "queue (snd (with_id gen p s)) = queue s" "leases (snd (with_id gen p s)) = leases s"
  by (simp_all add: with_id_def)

lemma CreatePNR_eq:
  "CreatePNR gen p evs s =
     (if map_of (byLocator s) (RecordLocator p) \<noteq> None then Inl ErrDuplicate
      else let p1 = (fst (with_id gen p s))\<lparr>pnr_Version := 1\<rparr> in
           Inr (trimRecordsLocked (appendEventsLocked gen (ID p1) evs (put_pnr p1 (snd (with_id gen p s)))), p1))"
  unfolding CreatePNR_def with_id_def by (simp add: Let_def)

lemma CreatePNR_InrD:
  assumes "CreatePNR gen p evs s = Inr (s', p')"
  shows "map_of (byLocator s) (RecordLocator p') = None" "pnr_Version p' = 1" "RecordLocator p' = RecordLocator p"
    "s' = trimRecordsLocked (appendEventsLocked gen (ID p') evs (put_pnr p' (snd (with_id gen p s))))"
  using assms by (auto simp: CreatePNR_eq Let_def split: if_splits)

lemma CreatePNR_pre_wf:
  assumes "mem_wf s" "CreatePNR gen p evs s = Inr (s', p')" "map_of (pnrs s) (ID p') = None"
  shows "mem_wf (appendEventsLocked gen (ID p') evs (put_pnr p' (snd (with_id gen p s))))"
proof (rule mem_wf_store)
  note c = CreatePNR_InrD [OF assms(2)]
  show "mem_wf (snd (with_id gen p s))" using assms(1) by simp
  then show "rec_wf (put_pnr p' (snd (with_id gen p s)))"
    using c assms(3) by (intro rec_wf_put_new) (simp_all add: mem_wf_def)
qed

lemma CreatePNR_wf:
  assumes "mem_wf s" "CreatePNR gen p evs s = Inr (s', p')" "map_of (pnrs s) (ID p') = None"
  shows "mem_wf s'"
  unfolding CreatePNR_InrD(4) [OF assms(2)] by (rule trim_records_spec(1) [OF CreatePNR_pre_wf [OF assms] refl])

lemma UpdatePNR_InrD:
  assumes "UpdatePNR gen p e evs s = Inr (s', p')"
  shows "\<exists>cur. map_of (pnrs s) (ID p) = Some cur \<and> pnr_Version cur = e" "p' = p\<lparr>pnr_Version := e + 1\<rparr>"
    "s' = appendEventsLocked gen (ID p') evs (put_pnr p' s)"
  using assms by (auto simp: UpdatePNR_def Let_def split: option.splits if_splits)

lemma UpdatePNR_wf:
  assumes "mem_wf s" "UpdatePNR gen p e evs s = Inr (s', p')"
    and "\<And>cur. map_of (pnrs s) (ID p) = Some cur \<Longrightarrow> RecordLocator p = RecordLocator cur"
  shows "mem_wf s'"
proof -
  note u = UpdatePNR_InrD [OF assms(2)]
  have r: "rec_wf s" using assms(1) by (simp add: mem_wf_def)
  from u(1) obtain cur where cur: "map_of (pnrs s) (ID p) = Some cur" "pnr_Version cur = e" by blast
  have "1 \<le> e" using rec_wfD(3) [OF r cur(1)] cur(2) by simp
  then have "rec_wf (put_pnr p' s)"
    using r cur(1) assms(3) by (intro rec_wf_put_same [of _ _ cur]) (simp_all add: u(2))
  then show ?thesis unfolding u(3) by (rule mem_wf_store [OF assms(1)])
qed

lemma DividePNR_InrD:
  assumes "DividePNR gen parent e child pev cev s = Inr (s', parent', child')"
  shows "\<exists>cur. map_of (pnrs s) (ID parent) = Some cur \<and> pnr_Version cur = e"
    "map_of (byLocator s) (RecordLocator child') = None" "map_of (pnrs s) (ID child') = None"
    "parent' = parent\<lparr>pnr_Version := e + 1\<rparr>" "child' = (fst (with_id gen child s))\<lparr>pnr_Version := 1\<rparr>"
    "s' = trimRecordsLocked (appendEventsLocked gen (ID child') cev (put_pnr child'
            (appendEventsLocked gen (ID parent') pev (put_pnr parent' (snd (with_id gen child s))))))"
  using assms unfolding DividePNR_def with_id_def
  by (auto simp: Let_def split: option.splits if_splits)

lemma DividePNR_pre_wf:
  assumes "mem_wf s" "DividePNR gen parent e child pev cev s = Inr (s', parent', child')"
    and "\<And>cur. map_of (pnrs s) (ID parent) = Some cur \<Longrightarrow> RecordLocator parent = RecordLocator cur"
  shows "mem_wf (appendEventsLocked gen (ID child') cev (put_pnr child'
            (appendEventsLocked gen (ID parent') pev (put_pnr parent' (snd (with_id gen child s))))))"
proof -
  note u = DividePNR_InrD [OF assms(2)]
  let ?s0 = "snd (with_id gen child s)"
  let ?s1 = "appendEventsLocked gen (ID parent') pev (put_pnr parent' ?s0)"
  have w0: "mem_wf ?s0" using assms(1) by simp
  then have r: "rec_wf ?s0" by (simp add: mem_wf_def)
  from u(1) obtain cur where cur: "map_of (pnrs s) (ID parent) = Some cur" "pnr_Version cur = e" by blast
  have "1 \<le> e" using rec_wfD(3) [OF r, of "ID parent" cur] cur by simp
  then have rp: "rec_wf (put_pnr parent' ?s0)"
    using r cur(1) assms(3) by (intro rec_wf_put_same [of _ _ cur]) (simp_all add: u(4))
  have w1: "mem_wf ?s1" by (rule mem_wf_store [OF w0 rp])
  have "map_of (pnrs ?s1) (ID child') = None" using u(3,4) cur(1) by auto
  moreover have "map_of (byLocator s) (RecordLocator parent') = Some (ID parent)"
    using rec_wfD(4) [OF r, of "ID parent" cur] cur(1) assms(3) [OF cur(1)] by (simp add: u(4))
  then have "map_of (byLocator ?s1) (RecordLocator child') = None" using u(2) by auto
  ultimately have "rec_wf (put_pnr child' ?s1)"
    using w1 by (intro rec_wf_put_new) (simp_all add: mem_wf_def u(5))
  then show ?thesis by (rule mem_wf_store [OF w1])
qed

lemma DividePNR_wf:
  assumes "mem_wf s" "DividePNR gen parent e child pev cev s = Inr (s', parent', child')"
    and "\<And>cur. map_of (pnrs s) (ID parent) = Some cur \<Longrightarrow> RecordLocator parent = RecordLocator cur"
  shows "mem_wf s'"
  unfolding DividePNR_InrD(6) [OF assms(2)] by (rule trim_records_spec(1) [OF DividePNR_pre_wf [OF assms] refl])

lemma PruneRecords_wf: "mem_wf s \<Longrightarrow> mem_wf (fst (PruneRecords kp s))"
proof -
  assume w: "mem_wf s"
  then have g: "gm_wf (pnrs s)" using rec_wfD(1) by (simp add: mem_wf_def)
  then have "\<forall>v \<in> set (pnrs s). map_of (pnrs s) (fst v) = Some (snd v)" by (auto simp: gm_wf_def)
  with prune_wf [OF w] g show ?thesis by (simp add: PruneRecords_def gm_wf_def)
qed

lemma Purge_wf: "mem_wf s \<Longrightarrow> mem_wf (fst (Purge before s))"
proof -
  assume w: "mem_wf s"
  obtain s1 n where p: "purge_messages_loop before [] (messageIDs s) s 0 = (s1, n)" by fastforce
  have "log_wf (s\<lparr>messageIDs := [] @ messageIDs s\<rparr>)" using w by (simp add: mem_wf_def)
  from purge_messages_wf [OF this p] have w1: "mem_wf s1" by (intro mem_wf_log_only [OF w]) simp_all
  then have g: "gm_wf (pnrs s1)" using rec_wfD(1) by (simp add: mem_wf_def)
  then have "\<forall>v \<in> set (pnrs s1). map_of (pnrs s1) (fst v) = Some (snd v)" by (auto simp: gm_wf_def)
  with prune_wf [OF w1] g show ?thesis by (simp add: Purge_def p gm_wf_def)
qed

definition with_item_id :: "(nat \<Rightarrow> string) \<Rightarrow> time \<Rightarrow> queue_item \<Rightarrow> mem \<Rightarrow> queue_item \<times> mem" where
  "with_item_id gen now it s =
     (let (it1, s1) = (if qi_ID it = '''' then (it\<lparr>qi_ID := gen (drawn s)\<rparr>, s\<lparr>drawn := Suc (drawn s)\<rparr>) else (it, s))
      in (if PlacedAt it1 = zero_time then it1\<lparr>PlacedAt := now\<rparr> else it1, s1))"

lemma with_item_id_frame [simp]:
  "item_key (fst (with_item_id gen now it s)) = item_key it" "Pending (fst (with_item_id gen now it s)) = Pending it"
  "queue (snd (with_item_id gen now it s)) = queue s" "queueIDs (snd (with_item_id gen now it s)) = queueIDs s"
  "queuePending (snd (with_item_id gen now it s)) = queuePending s"
  "mem_wf (snd (with_item_id gen now it s)) = mem_wf s"
  by (simp_all add: with_item_id_def item_key_def Pending_def Let_def case_prod_beta)

lemma Enqueue_eq:
  "Enqueue gen now it s =
     (let it1 = fst (with_item_id gen now it s); s1 = snd (with_item_id gen now it s) in
      if map_of (queuePending s) (item_key it) \<noteq> None then Inl ErrDuplicate
      else Inr (s1\<lparr>queue := gm_put (qi_ID it1) it1 (queue s), queueIDs := push_sorted (queueIDs s) (qi_ID it1),
                   queuePending := gm_put (item_key it) (qi_ID it1) (queuePending s)\<rparr>, it1))"
  unfolding Enqueue_def with_item_id_def by (simp add: Let_def item_key_def)

lemma Enqueue_wf:
  assumes "mem_wf s" "Enqueue gen now it s = Inr (s', it')" "map_of (queue s) (qi_ID it') = None" "Pending it"
  shows "mem_wf s'"
proof -
  let ?s1 = "snd (with_item_id gen now it s)"
  from assms(2) have np: "map_of (queuePending s) (item_key it) = None" and it': "it' = fst (with_item_id gen now it s)"
    and s': "s' = ?s1\<lparr>queue := gm_put (qi_ID it') it' (queue s), queueIDs := push_sorted (queueIDs s) (qi_ID it'),
        queuePending := gm_put (item_key it) (qi_ID it') (queuePending s)\<rparr>"
    by (auto simp: Enqueue_eq Let_def split: if_splits)
  have w: "queue_wf s" "mem_wf ?s1" using assms(1) by (simp_all add: mem_wf_def [of s])
  note q = queue_wfD [OF w(1)]
  have k: "item_key it' = item_key it" "Pending it'" using assms(4) by (simp_all add: it')
  have "queue_wf s'"
  proof (rule queue_wfI)
    fix k' i
    have new: "map_of (queue s') i = Some x \<longleftrightarrow> (if i = qi_ID it' then x = it' else map_of (queue s) i = Some x)" for x
      by (auto simp: s')
    have pend: "map_of (queuePending s') k' = (if k' = item_key it then Some (qi_ID it') else map_of (queuePending s) k')"
      by (simp add: s')
    show "map_of (queuePending s') k' = Some i \<longleftrightarrow> (\<exists>x. map_of (queue s') i = Some x \<and> Pending x \<and> item_key x = k')"
    proof (cases "k' = item_key it")
      case True
      have "\<not> (map_of (queue s) i = Some x \<and> Pending x \<and> item_key x = k')" for x
        using q(6) [of k' i] np True by auto
      then show ?thesis unfolding pend new using True k by auto
    next
      case False
      then show ?thesis unfolding pend new using q(6) [of k' i] assms(3) k by auto
    qed
  next
    fix i show "i \<in> set (queueIDs s') \<longleftrightarrow> map_of (queue s') i \<noteq> None" using q(4) [of i] by (simp add: s')
  next
    fix i x assume "map_of (queue s') i = Some x"
    then show "qi_ID x = i" using q(5) by (auto simp: s' split: if_splits)
  qed (use q(1-3) q(4) [of "qi_ID it'"] assms(3) in \<open>simp_all add: s' distinct_push_sorted sorted_push_sorted gm_wf_put\<close>)
  moreover have "rec_wf s'" "events_wf s'" "log_wf s'"
    using w(2) rec_wf_cong [of s' ?s1] events_wf_cong [of s' ?s1] log_wf_cong [of s' ?s1] by (simp_all add: s' mem_wf_def)
  ultimately show ?thesis by (simp add: mem_wf_def)
qed

lemma WorkQueueItem_InrD:
  assumes "WorkQueueItem now i w nt s = Inr s'"
  shows "\<exists>it. map_of (queue s) i = Some it \<and> Pending it
    \<and> s' = s\<lparr>queue := gm_put i (it\<lparr>WorkedAt := Some now, WorkedBy := w, Note := nt\<rparr>) (queue s),
             queuePending := gm_del (item_key it) (queuePending s)\<rparr>"
  using assms by (auto simp: WorkQueueItem_def split: option.splits if_splits)

lemma WorkQueueItem_wf:
  assumes "mem_wf s" "WorkQueueItem now i w nt s = Inr s'"
  shows "mem_wf s'"
proof -
  from WorkQueueItem_InrD [OF assms(2)] obtain it where it: "map_of (queue s) i = Some it" "Pending it"
    and s': "s' = s\<lparr>queue := gm_put i (it\<lparr>WorkedAt := Some now, WorkedBy := w, Note := nt\<rparr>) (queue s),
             queuePending := gm_del (item_key it) (queuePending s)\<rparr>" by blast
  have wf: "queue_wf s" using assms(1) by (simp add: mem_wf_def)
  note q = queue_wfD [OF wf]
  have "queue_wf s'"
  proof (rule queue_wfI)
    fix k j
    have one: "j = i" if "map_of (queue s) j = Some x" "Pending x" "item_key x = item_key it" for x
      using q(6) [of "item_key it" i] q(6) [of "item_key it" j] that it by auto
    show "map_of (queuePending s') k = Some j \<longleftrightarrow> (\<exists>x. map_of (queue s') j = Some x \<and> Pending x \<and> item_key x = k)"
    proof (cases "j = i")
      case True
      have "map_of (queuePending s) k = Some i \<Longrightarrow> k = item_key it" using q(6) [of k i] it(1) by auto
      then show ?thesis using True by (auto simp: s' Pending_def)
    next
      case False
      then show ?thesis using q(6) [of k j] one by (auto simp: s')
    qed
  next
    fix j show "j \<in> set (queueIDs s') \<longleftrightarrow> map_of (queue s') j \<noteq> None" using q(4) [of j] it by (auto simp: s')
  next
    fix j x assume "map_of (queue s') j = Some x"
    then show "qi_ID x = j" using q(5) it by (auto simp: s' split: if_splits)
  qed (use q(1-3) in \<open>simp_all add: s' gm_wf_put\<close>)
  moreover have "rec_wf s'" "events_wf s'" "log_wf s'"
    using assms(1) rec_wf_cong [of s' s] events_wf_cong [of s' s] log_wf_cong [of s' s] by (simp_all add: s' mem_wf_def)
  ultimately show ?thesis by (simp add: mem_wf_def)
qed

section \<open>The step relation\<close>

inductive mem_step :: "(nat \<Rightarrow> string) \<Rightarrow> mem \<Rightarrow> mem \<Rightarrow> bool" for gen where
  append: "AppendMessage gen m s = (s', m') \<Longrightarrow> map_of (messages s) (msg_ID m') = None \<Longrightarrow> mem_step gen s s'"
| update_message: "UpdateMessage m s = Inr s' \<Longrightarrow>
    (\<And>old. map_of (messages s) (msg_ID m) = Some old \<Longrightarrow> DedupKey old \<noteq> '''' \<Longrightarrow> DedupKey m \<noteq> '''' \<and> msg_key m = msg_key old)
    \<Longrightarrow> mem_step gen s s'"
| create: "CreatePNR gen p evs s = Inr (s', p') \<Longrightarrow> map_of (pnrs s) (ID p') = None \<Longrightarrow> mem_step gen s s'"
| update: "UpdatePNR gen p e evs s = Inr (s', p') \<Longrightarrow>
    (\<And>cur. map_of (pnrs s) (ID p) = Some cur \<Longrightarrow> RecordLocator p = RecordLocator cur) \<Longrightarrow> mem_step gen s s'"
| divide: "DividePNR gen parent e child pev cev s = Inr (s', parent', child') \<Longrightarrow>
    (\<And>cur. map_of (pnrs s) (ID parent) = Some cur \<Longrightarrow> RecordLocator parent = RecordLocator cur) \<Longrightarrow> mem_step gen s s'"
| purge: "Purge before s = (s', n) \<Longrightarrow> mem_step gen s s'"
| prune: "PruneRecords kp s = (s', n) \<Longrightarrow> mem_step gen s s'"
| enqueue: "Enqueue gen now it s = Inr (s', it') \<Longrightarrow> map_of (queue s) (qi_ID it') = None \<Longrightarrow> Pending it \<Longrightarrow> mem_step gen s s'"
| work: "WorkQueueItem now i w nt s = Inr s' \<Longrightarrow> mem_step gen s s'"
| counter: "NextLocatorCounter s = (s', c) \<Longrightarrow> mem_step gen s s'"
| acquire: "Acquire now sys h ttl s = (b, s') \<Longrightarrow> mem_step gen s s'"
| renew: "Renew now sys h ttl s = (b, s') \<Longrightarrow> mem_step gen s s'"
| release: "Release sys h s = s' \<Longrightarrow> mem_step gen s s'"

inductive mem_reachable :: "(nat \<Rightarrow> string) \<Rightarrow> mem \<Rightarrow> bool" for gen where
  start: "mem_reachable gen (NewMem\<lparr>MaxMessages := a, MaxRecords := b\<rparr>)"
| step: "mem_reachable gen s \<Longrightarrow> mem_step gen s s' \<Longrightarrow> mem_reachable gen s'"

lemma lease_ops_frame:
  "\<exists>l. snd (Acquire now sys h ttl s) = s\<lparr>leases := l\<rparr>" "\<exists>l. snd (Renew now sys h ttl s) = s\<lparr>leases := l\<rparr>"
  "\<exists>l. Release sys h s = s\<lparr>leases := l\<rparr>"
proof -
  have s: "s = s\<lparr>leases := leases s\<rparr>" by simp
  show "\<exists>l. snd (Acquire now sys h ttl s) = s\<lparr>leases := l\<rparr>"
    by (cases "map_of (leases s) sys") (auto simp: Acquire_def intro: exI [of _ "leases s"])
  show "\<exists>l. snd (Renew now sys h ttl s) = s\<lparr>leases := l\<rparr>"
    by (cases "map_of (leases s) sys") (auto simp: Renew_def intro: exI [of _ "leases s"])
  show "\<exists>l. Release sys h s = s\<lparr>leases := l\<rparr>"
    by (cases "map_of (leases s) sys") (auto simp: Release_def intro: exI [of _ "leases s"])
qed

lemma mem_step_wf: "mem_step gen s s' \<Longrightarrow> mem_wf s \<Longrightarrow> mem_wf s'"
proof (induction rule: mem_step.induct)
  case (append m s s' m') then show ?case using AppendMessage_wf by blast
next
  case (update_message m s s') then show ?case using UpdateMessage_wf by blast
next
  case (create p evs s s' p') then show ?case using CreatePNR_wf by blast
next
  case (update p e evs s s' p') then show ?case using UpdatePNR_wf by blast
next
  case (divide parent e child pev cev s s' parent' child') then show ?case using DividePNR_wf by blast
next
  case (purge before s s' n) then show ?case using Purge_wf [of s before] by simp
next
  case (prune kp s s' n) then show ?case using PruneRecords_wf [of s kp] by simp
next
  case (enqueue now it s s' it') then show ?case using Enqueue_wf by blast
next
  case (work now i w nt s s') then show ?case using WorkQueueItem_wf by blast
next
  case (counter s s' c) then show ?case by (auto simp: NextLocatorCounter_def)
next
  case (acquire now sys h ttl s b s') then show ?case using lease_ops_frame(1) [of now sys h ttl s] by auto
next
  case (renew now sys h ttl s b s') then show ?case using lease_ops_frame(2) [of now sys h ttl s] by auto
next
  case (release sys h s s') then show ?case using lease_ops_frame(3) [of sys h s] by auto
qed

lemma reachable_wf: "mem_reachable gen s \<Longrightarrow> mem_wf s"
proof (induction rule: mem_reachable.induct)
  case (start a b) show ?case by (rule mem_wf_NewMem)
next
  case (step s s') then show ?case using mem_step_wf by blast
qed

section \<open>Lookups of a reachable store\<close>

lemma list_messages_total:
  assumes "\<And>i. i \<in> set is \<Longrightarrow> map_of (messages s) i \<noteq> None"
  shows "list_messages_loop s f limit is out =
     Some (out @ take (limit - length out) (filter (message_matches f)
        (map (\<lambda>i. the (map_of (messages s) i)) (takeWhile (\<lambda>i. SinceID f = '''' \<or> i > SinceID f) is))))"
  using assms
proof (induction "is" arbitrary: out)
  case (Cons i rest)
  from Cons.prems [of i] obtain m where m: "map_of (messages s) i = Some m" by auto
  have ih: "\<And>out. list_messages_loop s f limit rest out = Some (out @ take (limit - length out) (filter (message_matches f)
        (map (\<lambda>i. the (map_of (messages s) i)) (takeWhile (\<lambda>i. SinceID f = '''' \<or> i > SinceID f) rest))))"
    using Cons.IH Cons.prems by simp
  show ?case
  proof (cases "length out < limit \<and> \<not> (SinceID f \<noteq> '''' \<and> i \<le> SinceID f)")
    case True
    then have "limit - length out = Suc (limit - Suc (length out))" by (simp add: Suc_diff_Suc)
    then show ?thesis using True m ih by (auto simp: not_le)
  next
    case False
    then show ?thesis by (auto simp: not_le)
  qed
qed simp

text \<open>
  C12: every reachable store answers its lookups from what it holds, and no lookup can fault. A
  locator finds a record exactly when a stored record carries it, so no two stored records share
  a locator; an identifier finds the record that has it; the event log of a record is numbered
  from one without gaps and belongs to it; and a listing of the message log is the newest matching
  messages above the given identifier, at most as many as asked for, oldest first.
\<close>

theorem store_reachable_consistent:
  assumes "mem_reachable gen s"
  shows "(\<forall>l. GetPNR s l \<noteq> None)
       \<and> (\<forall>l p. GetPNR s l = Some (Inr p) \<longleftrightarrow> p \<in> snd ` set (pnrs s) \<and> RecordLocator p = l)
       \<and> (\<forall>p \<in> snd ` set (pnrs s). GetPNRByID s (ID p) = Inr p)
       \<and> (\<forall>i. map Seq (Events s i) = map int [1..<Suc (length (Events s i))] \<and> (\<forall>e \<in> set (Events s i). ev_PNRID e = i))
       \<and> (\<forall>f. ListMessages s f = Some (rev (take (if mf_Limit f \<le> 0 then 100 else nat (mf_Limit f))
            (filter (message_matches f) (map (\<lambda>i. the (map_of (messages s) i))
               (takeWhile (\<lambda>i. SinceID f = '''' \<or> i > SinceID f) (rev (messageIDs s))))))))
       \<and> sorted (messageIDs s)"
proof -
  have w: "rec_wf s" "events_wf s" "log_wf s" using reachable_wf [OF assms] by (simp_all add: mem_wf_def)
  note r = rec_wfD [OF w(1)] and l = log_wfD [OF w(3)]
  have mem: "p \<in> snd ` set (pnrs s) \<longleftrightarrow> (\<exists>i. map_of (pnrs s) i = Some p)" for p
    using gm_wf_in_set [OF r(1)] by (force simp: image_iff)
  have "GetPNR s loc \<noteq> None" for loc
    using r(5) [of loc] by (auto simp: GetPNR_def split: option.splits)
  moreover have "GetPNR s loc = Some (Inr p) \<longleftrightarrow> p \<in> snd ` set (pnrs s) \<and> RecordLocator p = loc" for loc p
  proof
    assume "GetPNR s loc = Some (Inr p)"
    then obtain i where i: "map_of (byLocator s) loc = Some i" "map_of (pnrs s) i = Some p"
      by (auto simp: GetPNR_def split: option.splits)
    then show "p \<in> snd ` set (pnrs s) \<and> RecordLocator p = loc" using r(5) [OF i(1)] mem by auto
  next
    assume "p \<in> snd ` set (pnrs s) \<and> RecordLocator p = loc"
    then obtain i where "map_of (pnrs s) i = Some p" "RecordLocator p = loc" using mem by blast
    then show "GetPNR s loc = Some (Inr p)" using r(4) [of i p] by (simp add: GetPNR_def)
  qed
  moreover have "GetPNRByID s (ID p) = Inr p" if "p \<in> snd ` set (pnrs s)" for p
    using that mem r(2) by (auto simp: GetPNRByID_def)
  moreover have "ev_ok i (Events s i)" for i using gm_get_Nil_ok [OF w(2)] by (simp add: Events_def)
  moreover have "ListMessages s f = Some (rev (take (if mf_Limit f \<le> 0 then 100 else nat (mf_Limit f))
            (filter (message_matches f) (map (\<lambda>i. the (map_of (messages s) i))
               (takeWhile (\<lambda>i. SinceID f = '''' \<or> i > SinceID f) (rev (messageIDs s)))))))" for f
    unfolding ListMessages_def Let_def by (subst list_messages_total) (use l(3) in simp_all)
  ultimately show ?thesis using l(2) unfolding ev_ok_def by blast
qed

section \<open>No lost updates\<close>

lemma prune_pnrs:
  assumes "mem_wf s"
  shows "map_of (pnrs (fst (PruneRecords kp s))) i \<in> {None, map_of (pnrs s) i}"
    "map_of (pnrs (fst (Purge before s))) i \<in> {None, map_of (pnrs s) i}"
proof -
  have pr: "map_of (pnrs (fst (prune_loop kp (pnrs t) t out))) i \<in> {None, map_of (pnrs t) i}" if "mem_wf t" for t kp out
  proof -
    have g: "gm_wf (pnrs t)" using that rec_wfD(1) by (simp add: mem_wf_def)
    then have "\<forall>v \<in> set (pnrs t). map_of (pnrs t) (fst v) = Some (snd v)" by (auto simp: gm_wf_def)
    then show ?thesis using prune_wf [OF that, of "pnrs t" kp out] g by (simp add: gm_wf_def)
  qed
  show "map_of (pnrs (fst (PruneRecords kp s))) i \<in> {None, map_of (pnrs s) i}"
    unfolding PruneRecords_def by (rule pr [OF assms])
  obtain s1 n where p: "purge_messages_loop before [] (messageIDs s) s 0 = (s1, n)" by fastforce
  have "log_wf (s\<lparr>messageIDs := [] @ messageIDs s\<rparr>)" using assms by (simp add: mem_wf_def)
  from purge_messages_wf [OF this p] have "mem_wf s1" and e: "pnrs s1 = pnrs s" by (auto intro: mem_wf_log_only [OF assms])
  from pr [OF this(1)] e show "map_of (pnrs (fst (Purge before s))) i \<in> {None, map_of (pnrs s) i}"
    by (simp add: Purge_def p)
qed

text \<open>A record that stays stored through a step is unchanged or has a higher version.\<close>

definition newer :: "pnr \<Rightarrow> pnr \<Rightarrow> bool" where
  "newer p q \<longleftrightarrow> p = q \<or> pnr_Version p < pnr_Version q"

lemma step_newer:
  assumes "mem_step gen s s'" "mem_wf s" "map_of (pnrs s) i = Some p" "map_of (pnrs s') i = Some q"
  shows "newer p q"
  using assms
proof (induction rule: mem_step.induct)
  case (create p0 evs s s' p')
  note t = trim_records_spec(3) [OF CreatePNR_pre_wf [OF create.prems(1) create.hyps] refl]
  have "i \<noteq> ID p'" using create.hyps(2) create.prems(2) by auto
  then show ?case using create.prems(2,3) unfolding CreatePNR_InrD(4) [OF create.hyps(1)] t
    by (simp add: newer_def split: if_splits)
next
  case (update p0 e evs s s' p')
  note u = UpdatePNR_InrD [OF update.hyps(1)]
  then show ?case using update.prems(2,3) by (auto simp: newer_def split: if_splits)
next
  case (divide parent e child pev cev s s' parent' child')
  note u = DividePNR_InrD [OF divide.hyps(1)]
  note t = trim_records_spec(3) [OF DividePNR_pre_wf [OF divide.prems(1) divide.hyps] u(6), of i]
  have ne: "i \<noteq> ID child'" using u(3) divide.prems(2) by auto
  have "map_of (pnrs s') i \<in> {None, ((map_of (pnrs s))(ID parent' \<mapsto> parent')) i}"
    using t ne by (simp split: if_splits)
  then show ?case using divide.prems(2,3) u(1,4) by (auto simp: newer_def split: if_splits)
next
  case (purge before s s' n)
  then show ?case using prune_pnrs(2) [OF purge.prems(1), of before i] by (simp add: newer_def)
next
  case (prune kp s s' n)
  then show ?case using prune_pnrs(1) [OF prune.prems(1), of kp i] by (simp add: newer_def)
next
  case (acquire now sys h ttl s b s') then show ?case
    using lease_ops_frame(1) [of now sys h ttl s] by (auto simp: newer_def)
next
  case (renew now sys h ttl s b s') then show ?case
    using lease_ops_frame(2) [of now sys h ttl s] by (auto simp: newer_def)
next
  case (release sys h s s') then show ?case
    using lease_ops_frame(3) [of sys h s] by (auto simp: newer_def)
next
  case (append m s s' m') then show ?case
    by (auto simp: AppendMessage_def newer_def Let_def split: if_splits)
next
  case (update_message m s s') then show ?case
    by (auto simp: UpdateMessage_def newer_def split: if_splits)
next
  case (enqueue now it s s' it') then show ?case
    by (auto simp: Enqueue_def newer_def Let_def split: if_splits)
next
  case (work now j w nt s s') then show ?case
    using WorkQueueItem_InrD [OF work.hyps] by (auto simp: newer_def)
next
  case (counter s s' c) then show ?case by (auto simp: NextLocatorCounter_def newer_def)
qed

text \<open>Runs during which a record is never discarded.\<close>

inductive run_keeping :: "(nat \<Rightarrow> string) \<Rightarrow> string \<Rightarrow> mem \<Rightarrow> mem \<Rightarrow> bool" for gen i where
  here: "map_of (pnrs s) i \<noteq> None \<Longrightarrow> run_keeping gen i s s"
| more: "run_keeping gen i s t \<Longrightarrow> mem_step gen t u \<Longrightarrow> map_of (pnrs u) i \<noteq> None \<Longrightarrow> run_keeping gen i s u"

lemma run_newer:
  "run_keeping gen i s t \<Longrightarrow> mem_wf s \<Longrightarrow> map_of (pnrs s) i = Some p \<Longrightarrow>
     mem_wf t \<and> (\<exists>q. map_of (pnrs t) i = Some q \<and> newer p q)"
proof (induction rule: run_keeping.induct)
  case (more s t u)
  then obtain q r where q: "mem_wf t" "map_of (pnrs t) i = Some q" "newer p q" and r: "map_of (pnrs u) i = Some r" by auto
  have "newer q r" by (rule step_newer [OF more.hyps(2) q(1,2) r])
  then show ?case using q r mem_step_wf [OF more.hyps(2)] by (auto simp: newer_def)
qed (auto simp: newer_def)

text \<open>
  The interface under which two callers share a record: a write names the version it is based on.
\<close>

locale optimistic =
  fixes ver :: "'s \<Rightarrow> 'k \<Rightarrow> int option"
    and wr :: "'u \<Rightarrow> 'k \<Rightarrow> int \<Rightarrow> 's \<Rightarrow> 's option"
  assumes accepted_at: "wr u k e s = Some s' \<Longrightarrow> ver s k = Some e"
    and moves_on: "wr u k e s = Some s' \<Longrightarrow> ver s' k \<noteq> Some e"
begin

lemma second_refused: "wr u k e s = Some s' \<Longrightarrow> wr u' k e s' = None"
  using accepted_at moves_on by (metis option.exhaust)

lemma one_winner:
  assumes "wr u k e s = Some s'"
  shows "wr u' k e s' = None" "ver s k = Some e"
  using assms second_refused accepted_at by blast+

end

definition record_version :: "mem \<Rightarrow> string \<Rightarrow> int option" where
  "record_version s i = map_option pnr_Version (map_of (pnrs s) i)"

definition update_write :: "(nat \<Rightarrow> string) \<Rightarrow> pnr \<times> event list \<Rightarrow> string \<Rightarrow> int \<Rightarrow> mem \<Rightarrow> mem option" where
  "update_write gen u i e s =
     (case UpdatePNR gen ((fst u)\<lparr>ID := i\<rparr>) e (snd u) s of Inl _ \<Rightarrow> None | Inr r \<Rightarrow> Some (fst r))"

lemma update_write_SomeD:
  assumes "update_write gen u i e s = Some s'"
  shows "record_version s i = Some e" "record_version s' i = Some (e + 1)"
proof -
  from assms obtain p' where "UpdatePNR gen ((fst u)\<lparr>ID := i\<rparr>) e (snd u) s = Inr (s', p')"
    by (auto simp: update_write_def split: sum.splits)
  note u = UpdatePNR_InrD [OF this]
  show "record_version s i = Some e" using u(1) by (auto simp: record_version_def)
  show "record_version s' i = Some (e + 1)" by (simp add: record_version_def u(2,3))
qed

interpretation upd: optimistic record_version "update_write gen" for gen
  by unfold_locales (auto dest: update_write_SomeD)

text \<open>
  C1: no update is lost. If a caller read a record, and later writes it back naming the version it
  read, then whatever ran in between (any number of steps of any other callers, the record staying
  stored) the write is accepted only when the stored record is still exactly the one that was
  read; it raises the version by one and keeps the locator lookup intact; and every further write
  based on the same read is refused as a conflict.
\<close>

theorem no_lost_update:
  assumes "mem_reachable gen s" "map_of (pnrs s) i = Some p" "run_keeping gen i s t"
    and "ID q = i" "UpdatePNR gen q (pnr_Version p) evs t = Inr (t', q')"
  shows "map_of (pnrs t) i = Some p \<and> map_of (pnrs t') i = Some (q\<lparr>pnr_Version := pnr_Version p + 1\<rparr>)
       \<and> length (Events t' i) = length (Events t i) + length evs
       \<and> (\<forall>r evs'. ID r = i \<longrightarrow> UpdatePNR gen r (pnr_Version p) evs' t' = Inl ErrConflict)"
proof -
  note u = UpdatePNR_InrD [OF assms(5)]
  from run_newer [OF assms(3) reachable_wf [OF assms(1)] assms(2)] obtain cur where
    w: "mem_wf t" and cur: "map_of (pnrs t) i = Some cur" "newer p cur" by blast
  have "pnr_Version cur = pnr_Version p" using u(1) cur(1) assms(4) by auto
  then have "cur = p" using cur(2) by (auto simp: newer_def)
  moreover have new: "map_of (pnrs t') i = Some (q\<lparr>pnr_Version := pnr_Version p + 1\<rparr>)"
    using assms(4) by (simp add: u(2,3))
  moreover have "length (Events t' i) = length (Events t i) + length evs"
    using append_events_spec(2) [where s = "put_pnr q' t" and i = i and gen = gen and evs = evs] w assms(4)
    by (simp add: u(2,3) Events_def mem_wf_def events_wf_put)
  moreover have "UpdatePNR gen r (pnr_Version p) evs' t' = Inl ErrConflict" if "ID r = i" for r evs'
    using new that by (simp add: UpdatePNR_def)
  ultimately show ?thesis using cur(1) by blast
qed

definition demo_gen :: "nat \<Rightarrow> string" where
  "demo_gen n = CHR ''U'' # Itoa n"

definition demo_store :: mem where
  "demo_store = (case CreatePNR demo_gen (demo_pnr\<lparr>ID := ''R1''\<rparr>) [] (NewMem\<lparr>MaxRecords := 5\<rparr>) of
     Inr (s, _) \<Rightarrow> s | Inl _ \<Rightarrow> NewMem)"

lemma demo_store_reachable: "mem_reachable demo_gen demo_store"
  and demo_store_holds: "map_of (pnrs demo_store) ''R1'' = Some (demo_pnr\<lparr>ID := ''R1''\<rparr>)"
proof -
  have c: "CreatePNR demo_gen (demo_pnr\<lparr>ID := ''R1''\<rparr>) [] (NewMem\<lparr>MaxRecords := 5\<rparr>) = Inr (demo_store, demo_pnr\<lparr>ID := ''R1''\<rparr>)"
    by (simp add: demo_store_def CreatePNR_def NewMem_def trimRecordsLocked_def appendEventsLocked_def put_pnr_def
        gm_put_def demo_pnr_def zero_pnr_def Let_def)
  have "mem_reachable demo_gen (NewMem\<lparr>MaxMessages := 0, MaxRecords := 5\<rparr>)" by (rule mem_reachable.start)
  then have "mem_reachable demo_gen (NewMem\<lparr>MaxRecords := 5\<rparr>)" by (simp add: NewMem_def)
  then show "mem_reachable demo_gen demo_store"
    by (rule mem_reachable.step) (rule mem_step.create [OF c], simp add: NewMem_def)
  show "map_of (pnrs demo_store) ''R1'' = Some (demo_pnr\<lparr>ID := ''R1''\<rparr>)"
    by (simp add: demo_store_def CreatePNR_def NewMem_def trimRecordsLocked_def appendEventsLocked_def put_pnr_def
        gm_put_def demo_pnr_def zero_pnr_def Let_def)
qed

theorem store_reachable_consistent_witness:
  "mem_reachable demo_gen demo_store \<and> GetPNR demo_store ''ABC23D'' = Some (Inr (demo_pnr\<lparr>ID := ''R1''\<rparr>))"
proof -
  have "demo_pnr\<lparr>ID := ''R1''\<rparr> \<in> snd ` set (pnrs demo_store)"
    using map_of_SomeD [OF demo_store_holds] by (rule rev_image_eqI) simp
  moreover have "RecordLocator (demo_pnr\<lparr>ID := ''R1''\<rparr>) = ''ABC23D''" by (simp add: demo_pnr_def)
  ultimately show ?thesis using store_reachable_consistent [OF demo_store_reachable] demo_store_reachable by blast
qed

theorem no_lost_update_witness:
  "\<exists>t' q'. UpdatePNR demo_gen (demo_pnr\<lparr>ID := ''R1'', ReceivedFrom := ''X''\<rparr>) 1 [] demo_store = Inr (t', q')
     \<and> UpdatePNR demo_gen (demo_pnr\<lparr>ID := ''R1''\<rparr>) 1 [] t' = Inl ErrConflict"
proof -
  let ?q = "demo_pnr\<lparr>ID := ''R1'', ReceivedFrom := ''X''\<rparr>"
  have v: "pnr_Version (demo_pnr\<lparr>ID := ''R1''\<rparr>) = 1" "ID ?q = ''R1''" by (simp_all add: demo_pnr_def)
  obtain t' q' where u: "UpdatePNR demo_gen ?q 1 [] demo_store = Inr (t', q')"
    using demo_store_holds v by (simp add: UpdatePNR_def Let_def)
  have "run_keeping demo_gen ''R1'' demo_store demo_store" by (rule run_keeping.here) (simp add: demo_store_holds)
  from no_lost_update [OF demo_store_reachable demo_store_holds this v(2), of "[]" t' q'] u v show ?thesis by auto
qed

end
