(* ===== verification/Store_Work.thy ===== *)
theory Store_Work
  imports Store_Steps "HOL-Library.Multiset"
begin

text \<open>
  What the store's other promises come to: one pending queue item per reason (\<open>queue.go\<close>), at most
  one live holder of a lease, the retention bound with its choice of what to discard, the totals
  of \<open>SoldSeats\<close>, and the flight lookups (\<open>lookup.go\<close>).
\<close>

section \<open>Work queues\<close>

lemma split_pendingKey:
  assumes "CHR ''|'' \<notin> set q" "CHR ''|'' \<notin> set i" "CHR ''|'' \<notin> set c"
  shows "split_on CHR ''|'' (pendingKey q i c r) = [q, i, c, itoa_int r]"
proof -
  have "is_digit x \<Longrightarrow> x \<noteq> CHR ''|''" for x by (auto simp: is_digit_def)
  moreover have "list_all is_digit (Itoa n)" for n using Itoa_digits [of n] by (simp add: all_digits_def)
  ultimately have "CHR ''|'' \<notin> set (Itoa n)" for n by (auto simp: list_all_iff)
  then have "CHR ''|'' \<notin> set (itoa_int r)" by (simp add: itoa_int_def)
  then show ?thesis using assms by (simp add: pendingKey_def split_on_append_sep split_on_no_sep)
qed

lemma itoa_int_inj: "itoa_int m = itoa_int n \<longleftrightarrow> m = n"
proof -
  have h: "hd (Itoa n) \<noteq> CHR ''-''" for n
    using Itoa_digits [of n] Itoa_nonempty [of n] by (cases "Itoa n") (auto simp: all_digits_def dest: digit_not_sign)
  have "CHR ''-'' # xs \<noteq> Itoa n" for xs n using h [of n] by (metis list.sel(1))
  then show ?thesis by (auto simp: itoa_int_def Itoa_inj nat_eq_iff dest: sym)
qed

text \<open>No separator in the parts of the key: queue names, identifiers and codes have none.\<close>

definition plain_item :: "queue_item \<Rightarrow> bool" where
  "plain_item it \<longleftrightarrow> CHR ''|'' \<notin> set (Queue it) \<and> CHR ''|'' \<notin> set (qi_PNRID it) \<and> CHR ''|'' \<notin> set (qi_Code it)"

lemma item_key_inj:
  assumes "plain_item a" "plain_item b"
  shows "item_key a = item_key b \<longleftrightarrow>
     Queue a = Queue b \<and> qi_PNRID a = qi_PNRID b \<and> qi_Code a = qi_Code b \<and> qi_SegmentRef a = qi_SegmentRef b"
proof
  assume "item_key a = item_key b"
  then have "split_on CHR ''|'' (item_key a) = split_on CHR ''|'' (item_key b)" by simp
  then show "Queue a = Queue b \<and> qi_PNRID a = qi_PNRID b \<and> qi_Code a = qi_Code b \<and> qi_SegmentRef a = qi_SegmentRef b"
    using assms by (simp add: item_key_def split_pendingKey plain_item_def itoa_int_inj)
qed (simp add: item_key_def)

lemma Enqueue_dup_iff:
  assumes "queue_wf s"
  shows "Enqueue gen now it s = Inl ErrDuplicate \<longleftrightarrow>
     (\<exists>x \<in> snd ` set (queue s). Pending x \<and> item_key x = item_key it)"
proof -
  note q = queue_wfD [OF assms]
  have m: "x \<in> snd ` set (queue s) \<longleftrightarrow> (\<exists>i. map_of (queue s) i = Some x)" for x
    using gm_wf_in_set [OF q(1)] by (force simp: image_iff)
  have "(\<exists>x \<in> snd ` set (queue s). Pending x \<and> item_key x = item_key it) \<longleftrightarrow>
      (\<exists>i. map_of (queuePending s) (item_key it) = Some i)"
    unfolding q(6) Bex_def m by blast
  then show ?thesis by (simp add: Enqueue_eq Let_def)
qed

lemma Enqueue_not_other: "Enqueue gen now it s = Inl e \<Longrightarrow> e = ErrDuplicate"
  by (auto simp: Enqueue_eq Let_def split: if_splits)

text \<open>
  C31: a queue holds one pending item per reason. In a reachable store a placement is refused, as a
  duplicate, exactly when an item for the same queue, record, code and segment is already pending;
  so placing twice is harmless. Working an item clears it once: working it again is a conflict, and
  the reason can then be placed anew.
\<close>

theorem queue_one_pending_per_reason:
  assumes "mem_reachable gen s" "plain_item it" "\<forall>x \<in> snd ` set (queue s). plain_item x"
  shows "((\<exists>e. Enqueue gen now it s = Inl e) \<longleftrightarrow>
            (\<exists>x \<in> snd ` set (queue s). Pending x \<and> Queue x = Queue it \<and> qi_PNRID x = qi_PNRID it
               \<and> qi_Code x = qi_Code it \<and> qi_SegmentRef x = qi_SegmentRef it))
       \<and> (\<forall>s' it'. Enqueue gen now it s = Inr (s', it') \<longrightarrow>
            (\<forall>n2 it2. item_key it2 = item_key it \<longrightarrow> Enqueue gen n2 it2 s' = Inl ErrDuplicate)
          \<and> (Pending it \<longrightarrow> (\<exists>s2. WorkQueueItem n1 (qi_ID it') w nt s' = Inr s2
               \<and> WorkQueueItem n3 (qi_ID it') w3 nt3 s2 = Inl ErrConflict
               \<and> (\<exists>r. Enqueue gen n3 it s2 = Inr r))))"
proof (intro conjI allI impI)
  have q: "queue_wf s" using reachable_wf [OF assms(1)] by (simp add: mem_wf_def)
  have "(\<exists>e. Enqueue gen now it s = Inl e) \<longleftrightarrow> (\<exists>x \<in> snd ` set (queue s). Pending x \<and> item_key x = item_key it)"
    using Enqueue_dup_iff [OF q] Enqueue_not_other by metis
  also have "\<dots> \<longleftrightarrow> (\<exists>x \<in> snd ` set (queue s). Pending x \<and> Queue x = Queue it \<and> qi_PNRID x = qi_PNRID it
               \<and> qi_Code x = qi_Code it \<and> qi_SegmentRef x = qi_SegmentRef it)"
    using assms(2,3) item_key_inj by (intro bex_cong refl) blast
  finally show "(\<exists>e. Enqueue gen now it s = Inl e) \<longleftrightarrow> (\<exists>x \<in> snd ` set (queue s). Pending x \<and> Queue x = Queue it
      \<and> qi_PNRID x = qi_PNRID it \<and> qi_Code x = qi_Code it \<and> qi_SegmentRef x = qi_SegmentRef it)" .
next
  fix s' it' n2 it2
  assume e: "Enqueue gen now it s = Inr (s', it')" and k: "item_key it2 = item_key it"
  then have "map_of (queuePending s') (item_key it2) \<noteq> None" by (auto simp: Enqueue_eq Let_def split: if_splits)
  then show "Enqueue gen n2 it2 s' = Inl ErrDuplicate" by (simp add: Enqueue_eq Let_def)
next
  fix s' it'
  assume e: "Enqueue gen now it s = Inr (s', it')" and p: "Pending it"
  from e p have it': "map_of (queue s') (qi_ID it') = Some it'" "Pending it'" "item_key it' = item_key it"
    by (auto simp: Enqueue_eq Let_def split: if_splits)
  define s2 where "s2 = s'\<lparr>queue := gm_put (qi_ID it') (it'\<lparr>WorkedAt := Some n1, WorkedBy := w, Note := nt\<rparr>) (queue s'),
                      queuePending := gm_del (item_key it') (queuePending s')\<rparr>"
  have "WorkQueueItem n1 (qi_ID it') w nt s' = Inr s2" using it' by (simp add: WorkQueueItem_def s2_def)
  moreover have "WorkQueueItem n3 (qi_ID it') w3 nt3 s2 = Inl ErrConflict"
    by (simp add: WorkQueueItem_def s2_def Pending_def)
  moreover have "\<exists>r. Enqueue gen n3 it s2 = Inr r" by (simp add: Enqueue_eq Let_def s2_def it'(3))
  ultimately show "\<exists>s2. WorkQueueItem n1 (qi_ID it') w nt s' = Inr s2
      \<and> WorkQueueItem n3 (qi_ID it') w3 nt3 s2 = Inl ErrConflict \<and> (\<exists>r. Enqueue gen n3 it s2 = Inr r)" by blast
qed

definition demo_item :: queue_item where
  "demo_item = \<lparr>qi_ID = ''Q1'', Queue = ''unable'', qi_PNRID = ''R1'', qi_Locator = ''ABC23D'', qi_Code = ''refused'',
     Reason = '''', qi_MessageID = '''', qi_SegmentRef = 1, PlacedAt = 5, PlacedBy = ''x'', WorkedAt = None,
     WorkedBy = '''', Note = ''''\<rparr>"

theorem queue_one_pending_per_reason_witness:
  "\<exists>s' it'. Enqueue demo_gen 1 demo_item demo_store = Inr (s', it') \<and> Enqueue demo_gen 2 demo_item s' = Inl ErrDuplicate"
proof -
  have q: "queue demo_store = []" "queuePending demo_store = []"
    by (simp_all add: demo_store_def CreatePNR_def NewMem_def trimRecordsLocked_def appendEventsLocked_def put_pnr_def
        gm_put_def demo_pnr_def zero_pnr_def Let_def)
  have "plain_item demo_item" by (simp add: plain_item_def demo_item_def)
  moreover obtain s' it' where e: "Enqueue demo_gen 1 demo_item demo_store = Inr (s', it')"
    using q by (simp add: Enqueue_eq Let_def)
  ultimately show ?thesis
    using queue_one_pending_per_reason [OF demo_store_reachable, of demo_item 1 0 "''''" "''''" 0 "''''" "''''"] q by auto
qed

section \<open>Leases\<close>

definition holds :: "mem \<Rightarrow> string \<Rightarrow> string \<Rightarrow> time \<Rightarrow> bool" where
  "holds s sys h now \<longleftrightarrow> (\<exists>l. map_of (leases s) sys = Some l \<and> holder l = h \<and> expires l > now)"

datatype lease_op = OpAcquire time string string int | OpRenew time string string int | OpRelease string string

fun lease_apply :: "lease_op \<Rightarrow> mem \<Rightarrow> bool \<times> mem" where
  "lease_apply (OpAcquire now sys h ttl) s = Acquire now sys h ttl s"
| "lease_apply (OpRenew now sys h ttl) s = Renew now sys h ttl s"
| "lease_apply (OpRelease sys h) s = (True, Release sys h s)"

fun op_by :: "lease_op \<Rightarrow> string" where
  "op_by (OpAcquire now sys h ttl) = h" | "op_by (OpRenew now sys h ttl) = h" | "op_by (OpRelease sys h) = h"

fun op_before :: "time \<Rightarrow> lease_op \<Rightarrow> bool" where
  "op_before t (OpAcquire now sys h ttl) \<longleftrightarrow> now < t" | "op_before t (OpRenew now sys h ttl) \<longleftrightarrow> now < t"
| "op_before t (OpRelease sys h) \<longleftrightarrow> True"

fun op_takes :: "string \<Rightarrow> lease_op \<Rightarrow> bool" where
  "op_takes sys (OpAcquire now sys' h ttl) \<longleftrightarrow> sys' = sys" | "op_takes sys (OpRenew now sys' h ttl) \<longleftrightarrow> sys' = sys"
| "op_takes sys (OpRelease sys' h) \<longleftrightarrow> False"

fun lease_run :: "lease_op list \<Rightarrow> mem \<Rightarrow> bool list \<times> mem" where
  "lease_run [] s = ([], s)"
| "lease_run (x # xs) s = (let (b, s1) = lease_apply x s; (bs, s2) = lease_run xs s1 in (b # bs, s2))"

lemma lease_apply_other:
  assumes "map_of (leases s) sys = Some l" "op_by x \<noteq> holder l" "op_before (expires l) x" "lease_apply x s = (b, s')"
  shows "map_of (leases s') sys = Some l \<and> (op_takes sys x \<longrightarrow> \<not> b)"
  using assms
  by (cases x) (auto simp: Acquire_def Renew_def Release_def split: option.splits if_splits)

lemma lease_run_others:
  "map_of (leases s) sys = Some l \<Longrightarrow> (\<forall>x \<in> set xs. op_by x \<noteq> holder l \<and> op_before (expires l) x) \<Longrightarrow>
     lease_run xs s = (bs, s') \<Longrightarrow>
     map_of (leases s') sys = Some l \<and> (\<forall>k < length xs. op_takes sys (xs ! k) \<longrightarrow> \<not> bs ! k) \<and> length bs = length xs"
proof (induction xs arbitrary: s bs)
  case (Cons x xs)
  obtain b s1 where a: "lease_apply x s = (b, s1)" by fastforce
  obtain cs where r: "lease_run xs s1 = (cs, s')" "bs = b # cs" using Cons.prems(3) a by (auto split: prod.splits)
  have l: "map_of (leases s1) sys = Some l \<and> (op_takes sys x \<longrightarrow> \<not> b)"
    using lease_apply_other [OF Cons.prems(1) _ _ a] Cons.prems(2) by simp
  with Cons.IH [of s1 cs] Cons.prems(2) r show ?case by (auto simp: nth_Cons split: nat.split)
qed simp

text \<open>
  A lease excludes everyone else for its term. When a holder acquires a lease, then through any
  sequence of acquire, renew and release calls by other holders whose clock readings fall before
  the end of the term, every attempt on that lease is refused and the lease stands as granted; the
  holder can still renew it at any moment of the term, and from the end of the term on anyone can
  take it.
\<close>

theorem lease_excludes_others:
  assumes "Acquire now sys h ttl s = (True, s1)" "lease_run xs s1 = (bs, s2)"
    and "\<forall>x \<in> set xs. op_by x \<noteq> h \<and> op_before (now + ttl) x"
  shows "(\<forall>k < length xs. op_takes sys (xs ! k) \<longrightarrow> \<not> bs ! k)
       \<and> (\<forall>t < now + ttl. holds s2 sys h t \<and> fst (Renew t sys h ttl' s2) \<and> (\<forall>g \<noteq> h. \<not> holds s2 sys g t))
       \<and> (\<forall>t \<ge> now + ttl. \<forall>g. fst (Acquire t sys g ttl' s2))"
proof -
  have l: "map_of (leases s1) sys = Some \<lparr>holder = h, expires = now + ttl\<rparr>"
    using assms(1) by (auto simp: Acquire_def split: option.splits if_splits)
  from lease_run_others [OF l _ assms(2)] assms(3)
  have r: "map_of (leases s2) sys = Some \<lparr>holder = h, expires = now + ttl\<rparr>"
    "\<forall>k < length xs. op_takes sys (xs ! k) \<longrightarrow> \<not> bs ! k" by simp_all
  show ?thesis
  proof (intro conjI allI impI)
    fix t assume "t < now + ttl"
    then show "holds s2 sys h t" "fst (Renew t sys h ttl' s2)" using r(1) by (simp_all add: holds_def Renew_def)
    fix g assume "g \<noteq> h" then show "\<not> holds s2 sys g t" using r(1) by (simp add: holds_def)
  next
    fix t g assume "now + ttl \<le> t" then show "fst (Acquire t sys g ttl' s2)" using r(1) by (simp add: Acquire_def)
  qed (use r(2) in blast)
qed

theorem lease_excludes_others_witness:
  "fst (lease_run [OpAcquire 12 ''dcs'' ''B'' 10, OpRelease ''dcs'' ''B'', OpAcquire 19 ''dcs'' ''C'' 10]
     (snd (Acquire 10 ''dcs'' ''A'' 10 NewMem))) ! 2 = False"
proof -
  let ?xs = "[OpAcquire 12 ''dcs'' ''B'' 10, OpRelease ''dcs'' ''B'', OpAcquire 19 ''dcs'' ''C'' 10]"
  obtain s1 where a: "Acquire 10 ''dcs'' ''A'' 10 NewMem = (True, s1)" by (simp add: Acquire_def NewMem_def)
  obtain bs s2 where r: "lease_run ?xs s1 = (bs, s2)" by fastforce
  from lease_excludes_others [OF a r] have "\<not> bs ! 2"
    by (auto dest!: conjunct1 spec [of _ "2 :: nat"])
  then show ?thesis using a r by simp
qed

section \<open>Retention\<close>

text \<open>
  C33: the retention bound. With a positive bound, creating a record leaves at most that many; a
  record discarded to make room is older, by identifier, than every record kept; what is kept is
  untouched; and with a discarded record go its locator, its events and its queue items, so that
  no queue item is left for it.
\<close>

theorem retention_bound:
  assumes "mem_reachable gen s" "CreatePNR gen p evs s = Inr (s', p')" "map_of (pnrs s) (ID p') = None" "MaxRecords s > 0"
  shows "int (length (pnrs s')) \<le> MaxRecords s
       \<and> (\<forall>i q. map_of (pnrs s') i = Some q \<longrightarrow> q = p' \<and> i = ID p' \<or> map_of (pnrs s) i = Some q)
       \<and> (\<forall>i j q. map_of (pnrs s') j \<noteq> None \<and> map_of (pnrs s') i = None \<and> map_of (pnrs s) i = Some q \<longrightarrow>
            i < j \<and> GetPNR s' (RecordLocator q) = Some (Inl ErrNotFound) \<and> Events s' i = []
          \<and> (\<forall>it \<in> snd ` set (queue s'). qi_PNRID it \<noteq> i))"
proof -
  let ?t = "appendEventsLocked gen (ID p') evs (put_pnr p' (snd (with_id gen p s)))"
  have ws: "mem_wf s" by (rule reachable_wf [OF assms(1)])
  have w: "mem_wf ?t" by (rule CreatePNR_pre_wf [OF ws assms(2,3)])
  note c = CreatePNR_InrD [OF assms(2)]
  note t = trim_records_spec [OF w c(4)]
  have g: "gm_wf (pnrs ?t)" using w unfolding mem_wf_def by (blast intro: rec_wfD(1))
  have mx: "MaxRecords ?t = MaxRecords s" by simp
  have pt: "map_of (pnrs ?t) i = ((map_of (pnrs s))(ID p' \<mapsto> p')) i" for i by simp
  have kept: "q = p' \<and> i = ID p' \<or> map_of (pnrs s) i = Some q" if "map_of (pnrs s') i = Some q" for i q
    using that t(3) [of i] pt by (auto split: if_splits)
  have "i < j \<and> GetPNR s' (RecordLocator q) = Some (Inl ErrNotFound) \<and> Events s' i = [] \<and> (\<forall>it \<in> snd ` set (queue s'). qi_PNRID it \<noteq> i)"
    if h: "map_of (pnrs s') j \<noteq> None" "map_of (pnrs s') i = None" "map_of (pnrs s) i = Some q" for i j q
  proof (intro conjI ballI)
    have ne: "i \<noteq> ID p'" using h(3) assms(3) by auto
    then have v: "i \<in> set (record_victims ?t)" using h(2,3) t(3) [of i] pt by (auto split: if_splits)
    have "j \<notin> set (record_victims ?t)" "map_of (pnrs ?t) j \<noteq> None" using h(1) t(3) [of j] by (auto split: if_splits)
    then show "i < j" using victims(4) [OF g v] by (metis domIff dom_map_of_conv_image_fst)
    show "Events s' i = []" using t(5) [of i] v by (simp add: Events_def gm_get_def)
    fix it assume "it \<in> snd ` set (queue s')"
    moreover have "gm_wf (queue s')" using t(1) queue_wfD(1) by (simp add: mem_wf_def)
    ultimately obtain k where "map_of (queue s') k = Some it" by (auto simp: gm_wf_def)
    then show "qi_PNRID it \<noteq> i" using t(4) v by auto
  next
    have r: "rec_wf s'" "rec_wf s" using t(1) ws by (simp_all add: mem_wf_def)
    have "map_of (byLocator s') (RecordLocator q) = None"
    proof (rule ccontr)
      assume "map_of (byLocator s') (RecordLocator q) \<noteq> None"
      then obtain k q' where q': "map_of (pnrs s') k = Some q'" "RecordLocator q' = RecordLocator q"
        using rec_wfD(5) [OF r(1)] by blast
      then consider "k = ID p'" "q' = p'" | "map_of (pnrs s) k = Some q'" using kept by blast
      then show False
      proof cases
        case 1
        then show False using c(1) rec_wfD(4) [OF r(2) h(3)] q'(2) by simp
      next
        case 2
        then have "k = i" using rec_wfD(4) [OF r(2) 2] rec_wfD(4) [OF r(2) h(3)] q'(2) by simp
        then show False using q'(1) h(2) by simp
      qed
    qed
    then show "GetPNR s' (RecordLocator q) = Some (Inl ErrNotFound)" by (simp add: GetPNR_def)
  qed
  moreover have "int (length (pnrs s')) \<le> MaxRecords s" using t(2) assms(4) unfolding mx .
  ultimately show ?thesis using kept by blast
qed

theorem retention_bound_witness:
  "\<exists>s' p'. CreatePNR demo_gen (demo_pnr\<lparr>ID := ''R2'', RecordLocator := ''XYZ234''\<rparr>) [] demo_store = Inr (s', p')
     \<and> int (length (pnrs s')) \<le> 5"
proof -
  have d: "pnrs demo_store = [(''R1'', demo_pnr\<lparr>ID := ''R1''\<rparr>)]" "byLocator demo_store = [(''ABC23D'', ''R1'')]"
    "MaxRecords demo_store = 5"
    by (simp_all add: demo_store_def CreatePNR_def NewMem_def trimRecordsLocked_def appendEventsLocked_def put_pnr_def
        gm_put_def demo_pnr_def zero_pnr_def Let_def)
  let ?p = "demo_pnr\<lparr>ID := ''R2'', RecordLocator := ''XYZ234''\<rparr>"
  obtain s' p' where c: "CreatePNR demo_gen ?p [] demo_store = Inr (s', p')" "ID p' = ''R2''"
    using d by (simp add: CreatePNR_eq with_id_def Let_def)
  with retention_bound [OF demo_store_reachable c(1)] d show ?thesis by auto
qed

section \<open>Bulk load\<close>

definition load_twins :: "pnr list" where
  "load_twins = [demo_pnr\<lparr>ID := ''R1''\<rparr>, demo_pnr\<lparr>ID := ''R2''\<rparr>]"

text \<open>
  A bulk load is not all-or-nothing. Two records in one batch with the same locator make the
  load fail as a duplicate, and leave the first of them stored, although neither was stored before.
\<close>

theorem load_not_atomic:
  "fst (LoadPNRs demo_gen load_twins ''migration'' NewMem) = Some ErrDuplicate
   \<and> map_of (pnrs NewMem) ''R1'' = None
   \<and> map_of (pnrs (snd (LoadPNRs demo_gen load_twins ''migration'' NewMem))) ''R1'' = Some (demo_pnr\<lparr>ID := ''R1''\<rparr>)"
  by (simp add: LoadPNRs_def load_twins_def GetPNR_def CreatePNR_def NewMem_def trimRecordsLocked_def
      appendEventsLocked_def put_pnr_def gm_put_def demo_pnr_def zero_pnr_def Let_def demo_gen_def)

section \<open>Flight lookups\<close>

text \<open>Two spellings of one flight: the same designator and the same number up to zeros in front of it.\<close>

definition same_flight :: "string \<Rightarrow> string \<Rightarrow> bool" where
  "same_flight a b \<longleftrightarrow> a = b \<or> (take 2 a = take 2 b
     \<and> (\<exists>i j n. n \<noteq> '''' \<and> drop 2 a = replicate i (CHR ''0'') @ n \<and> drop 2 b = replicate j (CHR ''0'') @ n))"

lemma zeros_split: "\<exists>i. s = replicate i (CHR ''0'') @ dropWhile (\<lambda>c. c = CHR ''0'') s"
proof -
  have "takeWhile (\<lambda>c. c = CHR ''0'') s = replicate (length (takeWhile (\<lambda>c. c = CHR ''0'') s)) (CHR ''0'')"
    by (rule replicate_eqI) (auto dest: set_takeWhileD)
  then show ?thesis by (metis takeWhile_dropWhile_id)
qed

lemma dropWhile_zeros: "dropWhile (\<lambda>c. c = CHR ''0'') (replicate i (CHR ''0'') @ n) = dropWhile (\<lambda>c. c = CHR ''0'') n"
  by (induction i) simp_all

text \<open>The number of a flight: what is left without the zeros in front of it, the last digit at least.\<close>

definition bare_number :: "string \<Rightarrow> string" where
  "bare_number s = (let n = dropWhile (\<lambda>c. c = CHR ''0'') s in if n = '''' then ''0'' else n)"

lemma bare_number_split: "s \<noteq> '''' \<Longrightarrow> \<exists>i. s = replicate i (CHR ''0'') @ bare_number s"
proof (cases "dropWhile (\<lambda>c. c = CHR ''0'') s")
  case Nil
  assume s: "s \<noteq> ''''"
  obtain i where i: "s = replicate i (CHR ''0'')" using zeros_split [of s] Nil by auto
  with s obtain k where "i = Suc k" by (cases i) auto
  then have "s = replicate k (CHR ''0'') @ ''0''" using i by (simp add: replicate_append_same)
  then show ?thesis using Nil by (auto simp: bare_number_def)
qed (use zeros_split [of s] in \<open>auto simp: bare_number_def\<close>)

lemma bare_number_zeros: "n \<noteq> '''' \<Longrightarrow> bare_number (replicate i (CHR ''0'') @ n) = bare_number n"
  by (simp add: bare_number_def dropWhile_zeros)

lemma NormaliseFlightKey_bare: "NormaliseFlightKey k = (if length k \<le> 2 then k else take 2 k @ bare_number (drop 2 k))"
  by (simp add: NormaliseFlightKey_def bare_number_def Let_def)

lemma bare_number_ne [simp]: "bare_number s \<noteq> ''''" by (simp add: bare_number_def Let_def)

lemma NormaliseFlightKey_same: "NormaliseFlightKey a = NormaliseFlightKey b \<longleftrightarrow> same_flight a b"
proof
  assume n: "NormaliseFlightKey a = NormaliseFlightKey b"
  show "same_flight a b"
  proof (cases "length a \<le> 2 \<or> length b \<le> 2")
    case True
    have "0 < length (bare_number s)" for s by simp
    then have "length (take 2 k @ bare_number (drop 2 k)) > 2" if "length k > 2" for k using that
      by (metis add_less_cancel_left add.right_neutral length_append length_take min.absorb4)
    then have "length a \<le> 2 \<and> length b \<le> 2" using n True unfolding NormaliseFlightKey_bare by (metis leD not_le_imp_less)
    then show ?thesis using n by (simp add: NormaliseFlightKey_bare same_flight_def)
  next
    case False
    then have "length (take 2 a) = length (take 2 b)" by simp
    then have e: "take 2 a = take 2 b" "bare_number (drop 2 a) = bare_number (drop 2 b)"
      using n False by (simp_all add: NormaliseFlightKey_bare)
    have "drop 2 a \<noteq> ''''" "drop 2 b \<noteq> ''''" using False by simp_all
    then show ?thesis using e bare_number_split [of "drop 2 a"] bare_number_split [of "drop 2 b"] bare_number_ne
      unfolding same_flight_def by metis
  qed
next
  assume "same_flight a b"
  then consider "a = b" | i j n where "take 2 a = take 2 b" "n \<noteq> ''''" "drop 2 a = replicate i (CHR ''0'') @ n" "drop 2 b = replicate j (CHR ''0'') @ n"
    unfolding same_flight_def by blast
  then show "NormaliseFlightKey a = NormaliseFlightKey b"
  proof cases
    case 2
    have "drop 2 a \<noteq> ''''" "drop 2 b \<noteq> ''''" using 2 by simp_all
    then have "\<not> length a \<le> 2" "\<not> length b \<le> 2" by simp_all
    then show ?thesis using 2 by (simp add: NormaliseFlightKey_bare bare_number_zeros)
  qed simp
qed

lemma find_loop_spec:
  "length out < limit \<Longrightarrow> find_on_flight_loop match limit ps out = out @ take (limit - length out) (filter match ps)"
proof (induction ps arbitrary: out)
  case (Cons p ps)
  then show ?case
  proof (cases "match p \<and> Suc (length out) < limit")
    case True
    then have "limit - length out = Suc (limit - Suc (length out))" by (simp add: Suc_diff_Suc)
    then show ?thesis using True Cons.IH [of "out @ [p]"] by simp
  next
    case False
    then have "match p \<Longrightarrow> limit - length out = 1" using Cons.prems by simp
    then show ?thesis using False Cons by (cases "match p") auto
  qed
qed simp

section \<open>Counts of sold seats\<close>

text \<open>The segments held for a carrier on a date, over every record that is not cancelled, and those of one line of the count.\<close>

definition held_segments :: "pnr list \<Rightarrow> string \<Rightarrow> string \<Rightarrow> segment list" where
  "held_segments recs car date =
     [sg. p \<leftarrow> recs, pnr_Status p \<noteq> StatusCancelled, sg \<leftarrow> Segments p,
          sg_Type sg = SegmentAir \<and> Carrier sg = car \<and> sg_Status sg \<noteq> ''XX'' \<and> (date = '''' \<or> EqualFold (WireDate sg) date)]"

definition in_line :: "sold_seats \<Rightarrow> segment \<Rightarrow> bool" where
  "in_line l sg \<longleftrightarrow> Carrier sg = ss_Carrier l
     \<and> (\<exists>i. FlightNum sg = replicate i (CHR ''0'') @ ss_FlightNum l) \<and> (ss_FlightNum l = '''' \<or> hd (ss_FlightNum l) \<noteq> CHR ''0'')
     \<and> ToUpper (WireDate sg) = ss_WireDate l \<and> Board sg = ss_Board l \<and> Class sg = ss_Class l \<and> sg_Status sg = ss_Status l"

lemma TrimLeft0_spec: "TrimLeft0 s = n \<longleftrightarrow> (\<exists>i. s = replicate i (CHR ''0'') @ n) \<and> (n = '''' \<or> hd n \<noteq> CHR ''0'')"
proof
  assume "TrimLeft0 s = n"
  then have n: "n = dropWhile (\<lambda>c. c = CHR ''0'') s" by (simp add: TrimLeft0_def)
  show "(\<exists>i. s = replicate i (CHR ''0'') @ n) \<and> (n = '''' \<or> hd n \<noteq> CHR ''0'')"
    using zeros_split [of s] hd_dropWhile [of "\<lambda>c. c = CHR ''0''" s] unfolding n by blast
next
  assume a: "(\<exists>i. s = replicate i (CHR ''0'') @ n) \<and> (n = '''' \<or> hd n \<noteq> CHR ''0'')"
  then obtain i where "s = replicate i (CHR ''0'') @ n" by blast
  moreover have "dropWhile (\<lambda>c. c = CHR ''0'') n = n" using a by (cases n) auto
  ultimately show "TrimLeft0 s = n" by (simp add: TrimLeft0_def dropWhile_zeros)
qed

lemma in_line_key: "in_line l sg \<longleftrightarrow> sold_key sg = l\<lparr>ss_Seats := 0\<rparr>"
proof -
  have "in_line l sg \<longleftrightarrow> Carrier sg = ss_Carrier l \<and> TrimLeft0 (FlightNum sg) = ss_FlightNum l
     \<and> ToUpper (WireDate sg) = ss_WireDate l \<and> Board sg = ss_Board l \<and> Class sg = ss_Class l \<and> sg_Status sg = ss_Status l"
    by (simp add: in_line_def TrimLeft0_spec)
  then show ?thesis by (cases l) (auto simp: sold_key_def)
qed

lemma held_segments_sold:
  "held_segments recs car date = filter (sold_counts car date) (concat (map Segments (filter (\<lambda>p. pnr_Status p \<noteq> StatusCancelled) recs)))"
proof -
  have "concat (map (\<lambda>sg. if sg_Type sg = SegmentAir \<and> Carrier sg = car \<and> sg_Status sg \<noteq> ''XX'' \<and> (date = '''' \<or> EqualFold (WireDate sg) date)
      then [sg] else []) sgs) = filter (sold_counts car date) sgs" for sgs
    by (induction sgs) (auto simp: sold_counts_def)
  then show ?thesis unfolding held_segments_def by (induction recs) auto
qed

text \<open>The sums of a list of segments by line.\<close>

definition line_sum :: "segment list \<Rightarrow> sold_seats \<Rightarrow> int" where
  "line_sum sgs k = sum_list (map Seats (filter (\<lambda>sg. sold_key sg = k) sgs))"

lemma sold_segments_spec:
  assumes "gm_wf acc"
  shows "gm_wf (sold_segments c d sgs acc)
     \<and> map_of (sold_segments c d sgs acc) k =
        (if map_of acc k = None \<and> k \<notin> sold_key ` set (filter (sold_counts c d) sgs) then None
         else Some (gm_get 0 acc k + line_sum (filter (sold_counts c d) sgs) k))"
  using assms
proof (induction sgs arbitrary: acc)
  case Nil
  then show ?case by (simp add: line_sum_def gm_get_def split: option.split)
next
  case (Cons sg sgs)
  show ?case
  proof (cases "sold_counts c d sg")
    case True
    let ?acc = "gm_put (sold_key sg) (gm_get 0 acc (sold_key sg) + Seats sg) acc"
    have "gm_wf ?acc" using Cons.prems by (rule gm_wf_put)
    from Cons.IH [OF this] show ?thesis using True by (auto simp: line_sum_def gm_get_def)
  qed (use Cons in simp)
qed

lemma line_sum_append: "line_sum (xs @ ys) k = line_sum xs k + line_sum ys k"
  by (simp add: line_sum_def)

lemma line_sum_none: "k \<notin> sold_key ` set sgs \<Longrightarrow> line_sum sgs k = 0"
proof -
  assume "k \<notin> sold_key ` set sgs"
  then have "filter (\<lambda>sg. sold_key sg = k) sgs = []" by (auto simp: filter_empty_conv)
  then show ?thesis by (simp add: line_sum_def)
qed

lemma sold_records_spec:
  assumes "gm_wf acc"
  shows "gm_wf (sold_records c d ps acc)
     \<and> map_of (sold_records c d ps acc) k =
        (if map_of acc k = None \<and> k \<notin> sold_key ` set (held_segments ps c d) then None
         else Some (gm_get 0 acc k + line_sum (held_segments ps c d) k))"
  using assms
proof (induction ps arbitrary: acc)
  case Nil
  then show ?case by (simp add: held_segments_sold line_sum_def gm_get_def split: option.split)
next
  case (Cons p ps)
  show ?case
  proof (cases "pnr_Status p = StatusCancelled")
    case False
    let ?acc = "sold_segments c d (Segments p) acc"
    note one = sold_segments_spec [OF Cons.prems, of c d "Segments p" k]
    have h: "held_segments (p # ps) c d = filter (sold_counts c d) (Segments p) @ held_segments ps c d"
      using False by (simp add: held_segments_sold)
    from Cons.IH [of ?acc] one show ?thesis using False
      line_sum_none [of k "filter (sold_counts c d) (Segments p)"] line_sum_none [of k "held_segments ps c d"]
      unfolding h by (auto simp: line_sum_append gm_get_def)
  qed (use Cons in \<open>simp add: held_segments_sold\<close>)
qed

lemma sold_seats_lines:
  "l \<in> set (SoldSeats s car date) \<longleftrightarrow>
     (\<exists>sg \<in> set (held_segments (map snd (pnrs s)) car date). in_line l sg)
     \<and> ss_Seats l = sum_list (map Seats (filter (in_line l) (held_segments (map snd (pnrs s)) car date)))"
  and sold_seats_distinct: "distinct (SoldSeats s car date)"
proof -
  let ?hs = "held_segments (map snd (pnrs s)) car date" and ?m = "sold_records car date (map snd (pnrs s)) []"
  have wf: "gm_wf ?m" and m: "map_of ?m k = (if k \<notin> sold_key ` set ?hs then None else Some (line_sum ?hs k))" for k
    using sold_records_spec [of "[]" car date "map snd (pnrs s)" k] by (auto simp: gm_get_def)
  have e: "(k, n) \<in> set ?m \<longleftrightarrow> k \<in> sold_key ` set ?hs \<and> n = line_sum ?hs k" for k n
  proof -
    have "(k, n) \<in> set ?m \<longleftrightarrow> map_of ?m k = Some n" using wf map_of_eq_Some_iff [of ?m k n] by (simp add: gm_wf_def)
    also have "\<dots> \<longleftrightarrow> k \<in> sold_key ` set ?hs \<and> n = line_sum ?hs k" unfolding m [of k] by (cases "k \<in> sold_key ` set ?hs") (auto simp del: image_iff)
    finally show ?thesis .
  qed
  have z: "k \<in> sold_key ` set ?hs \<Longrightarrow> ss_Seats k = 0" for k by (auto simp: sold_key_def)
  have f: "filter (in_line l) ?hs = filter (\<lambda>sg. sold_key sg = l\<lparr>ss_Seats := 0\<rparr>) ?hs" by (rule filter_cong) (simp_all add: in_line_key)
  have ex: "(l\<lparr>ss_Seats := 0\<rparr> \<in> sold_key ` set ?hs) = (\<exists>sg \<in> set ?hs. in_line l sg)"
    using in_line_key [of l] by (simp add: image_iff) (metis)
  have "l \<in> set (SoldSeats s car date) \<longleftrightarrow> (\<exists>k n. (k, n) \<in> set ?m \<and> l = k\<lparr>ss_Seats := n\<rparr>)"
    by (force simp: SoldSeats_def image_iff)
  also have "\<dots> \<longleftrightarrow> (l\<lparr>ss_Seats := 0\<rparr> \<in> sold_key ` set ?hs \<and> ss_Seats l = line_sum ?hs (l\<lparr>ss_Seats := 0\<rparr>))"
  proof
    assume "\<exists>k n. (k, n) \<in> set ?m \<and> l = k\<lparr>ss_Seats := n\<rparr>"
    then obtain k n where k: "k \<in> sold_key ` set ?hs" "n = line_sum ?hs k" "l = k\<lparr>ss_Seats := n\<rparr>" using e by blast
    then have "l\<lparr>ss_Seats := 0\<rparr> = k" using z [OF k(1)] by (cases k) simp
    then show "l\<lparr>ss_Seats := 0\<rparr> \<in> sold_key ` set ?hs \<and> ss_Seats l = line_sum ?hs (l\<lparr>ss_Seats := 0\<rparr>)" using k by simp
  next
    assume "l\<lparr>ss_Seats := 0\<rparr> \<in> sold_key ` set ?hs \<and> ss_Seats l = line_sum ?hs (l\<lparr>ss_Seats := 0\<rparr>)"
    then have "(l\<lparr>ss_Seats := 0\<rparr>, ss_Seats l) \<in> set ?m" using e by blast
    moreover have "l = l\<lparr>ss_Seats := 0\<rparr>\<lparr>ss_Seats := ss_Seats l\<rparr>" by simp
    ultimately show "\<exists>k n. (k, n) \<in> set ?m \<and> l = k\<lparr>ss_Seats := n\<rparr>" by blast
  qed
  finally show "l \<in> set (SoldSeats s car date) \<longleftrightarrow> (\<exists>sg \<in> set ?hs. in_line l sg) \<and> ss_Seats l = sum_list (map Seats (filter (in_line l) ?hs))"
    unfolding f line_sum_def ex .
  have "inj_on (\<lambda>(k, n). k\<lparr>ss_Seats := n\<rparr>) (set ?m)"
  proof (rule inj_onI, clarify)
    fix k n k' n' assume a: "(k, n) \<in> set ?m" "(k', n') \<in> set ?m" "k\<lparr>ss_Seats := n\<rparr> = k'\<lparr>ss_Seats := n'\<rparr>"
    then have "ss_Seats k = 0" "ss_Seats k' = 0" using e z by blast+
    then show "k = k' \<and> n = n'" using a(3) by (cases k; cases k') simp
  qed
  moreover have "distinct ?m" using wf by (simp add: gm_wf_def distinct_map)
  ultimately show "distinct (SoldSeats s car date)" by (simp add: SoldSeats_def distinct_map)
qed

text \<open>
  C34: a flight lookup is complete up to its limit and blind to how the flight number was written.
  It returns, in the order of the scan, the first \<open>limit\<close> stored records not cancelled that hold an
  air segment, not cancelled with XX, on the date (any date when none is given) and on the same
  flight: the same two characters of the designator and the same number up to zeros in front. The
  count of sold seats of a carrier has exactly one line for each flight number without leading
  zeros, date, boarding point, class and status at which a live record holds an air segment of the
  carrier not at XX, and the line says how many seats these segments have together.
\<close>

theorem flight_lookup_complete:
  "FindPNRsByFlight s key date limit =
     take (if limit \<le> 0 then 10000 else nat limit)
       (filter (\<lambda>p. key \<noteq> '''' \<and> pnr_Status p \<noteq> StatusCancelled \<and>
          (\<exists>sg \<in> set (Segments p). sg_Type sg = SegmentAir \<and> sg_Status sg \<noteq> ''XX''
             \<and> same_flight (Carrier sg @ FlightNum sg) key \<and> (date = '''' \<or> EqualFold (WireDate sg) date))) (map snd (pnrs s)))
   \<and> distinct (SoldSeats s car date)
   \<and> (l \<in> set (SoldSeats s car date) \<longleftrightarrow>
        (\<exists>sg \<in> set (held_segments (map snd (pnrs s)) car date). in_line l sg)
        \<and> ss_Seats l = sum_list (map Seats (filter (in_line l) (held_segments (map snd (pnrs s)) car date))))"
proof (intro conjI)
  have m: "(\<lambda>p. pnrOnFlight p key date) = (\<lambda>p. pnr_Status p \<noteq> StatusCancelled \<and>
          (\<exists>sg \<in> set (Segments p). sg_Type sg = SegmentAir \<and> sg_Status sg \<noteq> ''XX''
             \<and> same_flight (Carrier sg @ FlightNum sg) key \<and> (date = '''' \<or> EqualFold (WireDate sg) date)))"
    by (rule ext) (auto simp: pnrOnFlight_def SegmentOnFlight_def list_ex_iff NormaliseFlightKey_same split: if_splits)
  show "FindPNRsByFlight s key date limit =
     take (if limit \<le> 0 then 10000 else nat limit)
       (filter (\<lambda>p. key \<noteq> '''' \<and> pnr_Status p \<noteq> StatusCancelled \<and>
          (\<exists>sg \<in> set (Segments p). sg_Type sg = SegmentAir \<and> sg_Status sg \<noteq> ''XX''
             \<and> same_flight (Carrier sg @ FlightNum sg) key \<and> (date = '''' \<or> EqualFold (WireDate sg) date))) (map snd (pnrs s)))"
  proof (cases "key = ''''")
    case False
    then show ?thesis unfolding FindPNRsByFlight_def findOnFlight_def Let_def m by (subst find_loop_spec) simp_all
  qed (simp add: FindPNRsByFlight_def findOnFlight_def)
next
  show "distinct (SoldSeats s car date)" by (rule sold_seats_distinct)
  show "l \<in> set (SoldSeats s car date) \<longleftrightarrow>
        (\<exists>sg \<in> set (held_segments (map snd (pnrs s)) car date). in_line l sg)
        \<and> ss_Seats l = sum_list (map Seats (filter (in_line l) (held_segments (map snd (pnrs s)) car date)))"
    by (rule sold_seats_lines)
qed

text \<open>The stored record found under another spelling of the flight, and its one line of the count.\<close>

theorem flight_lookup_complete_witness:
  "FindPNRsByFlight demo_store ''BA00175'' ''12aug'' 0 = [demo_pnr\<lparr>ID := ''R1''\<rparr>]
   \<and> \<lparr>ss_Carrier = ''BA'', ss_FlightNum = ''175'', ss_WireDate = ''12AUG'', ss_Board = ''LHR'', ss_Class = ''Y'', ss_Status = ''HK'', ss_Seats = 3\<rparr>
      \<in> set (SoldSeats demo_store ''BA'' ''12aug'')"
proof -
  let ?l = "\<lparr>ss_Carrier = ''BA'', ss_FlightNum = ''175'', ss_WireDate = ''12AUG'', ss_Board = ''LHR'', ss_Class = ''Y'', ss_Status = ''HK'', ss_Seats = 3\<rparr>"
  have d: "pnrs demo_store = [(''R1'', demo_pnr\<lparr>ID := ''R1''\<rparr>)]"
    by (simp_all add: demo_store_def CreatePNR_def NewMem_def trimRecordsLocked_def appendEventsLocked_def put_pnr_def
        gm_put_def demo_pnr_def zero_pnr_def Let_def)
  have "NormaliseFlightKey ''BA175'' = NormaliseFlightKey ''BA00175''" "EqualFold ''12AUG'' ''12aug''" by code_simp+
  then have k: "same_flight ''BA175'' ''BA00175''" "EqualFold ''12AUG'' ''12aug''" by (simp_all only: NormaliseFlightKey_same)
  have h: "held_segments (map snd (pnrs demo_store)) ''BA'' ''12aug'' = [demo_seg 1 3]"
    using k(2) by (simp add: held_segments_def d demo_pnr_def demo_seg_def SegmentAir_def StatusCancelled_def)
  have "sold_key (demo_seg 1 3) = ?l\<lparr>ss_Seats := 0\<rparr>" by code_simp
  then have l: "in_line ?l (demo_seg 1 3)" "Seats (demo_seg 1 3) = 3" by (simp_all add: in_line_key demo_seg_def)
  note t = flight_lookup_complete [of demo_store "''BA00175''" "''12aug''" 0 "''BA''" ?l]
  have "?l \<in> set (SoldSeats demo_store ''BA'' ''12aug'')" using t l unfolding h by simp
  moreover have "FindPNRsByFlight demo_store ''BA00175'' ''12aug'' 0 = [demo_pnr\<lparr>ID := ''R1''\<rparr>]"
    using t k by (simp add: d demo_pnr_def demo_seg_def SegmentAir_def StatusCancelled_def)
  ultimately show ?thesis by simp
qed

end
