(* ===== verification/Avail.thy ===== *)
theory Avail
  imports Pnr "HOL-Library.Char_ord" "HOL-Library.List_Lexorder"
begin

text \<open>
  The availability cache of a distribution system (\<open>src/pkg/avail/avail.go\<close>). The clock reading
  is an argument of the methods that take one; a method holds the cache's mutex throughout, so it
  is one step. The lemmas show that out-of-order delivery never moves a belief backwards, that a
  weaker source never displaces a fresh stronger one, and that seats sold without asking never
  exceed what the carrier offered.
\<close>

section \<open>Beliefs\<close>

datatype avail_status = Open | Closed | Waitlist | Request | Unknown

definition Sellable :: "avail_status \<Rightarrow> bool" where
  "Sellable s \<longleftrightarrow> s = Open"

definition SourceAVS :: string where "SourceAVS = ''avs''"
definition SourceNDC :: string where "SourceNDC = ''ndc''"
definition SourceDirect :: string where "SourceDirect = ''direct''"
definition SourceReply :: string where "SourceReply = ''reply''"
definition SourceManual :: string where "SourceManual = ''manual''"

definition authority_table :: "int strmap" where
  "authority_table = [(SourceManual, 5), (SourceDirect, 4), (SourceNDC, 3), (SourceAVS, 2), (SourceReply, 1)]"

definition authority :: "string \<Rightarrow> int" where
  "authority s = gm_get 0 authority_table s"

record avail_key =
  k_Carrier :: string
  k_FlightNum :: string
  k_Date :: string
  k_Board :: string
  k_Off :: string
  k_Class :: string

text \<open>\<open>NewKey\<close> with the departure already formatted as \<open>YYYY-MM-DD\<close>.\<close>

definition NewKey :: "string \<Rightarrow> string \<Rightarrow> string \<Rightarrow> string \<Rightarrow> string \<Rightarrow> string \<Rightarrow> avail_key" where
  "NewKey car num date board off cls =
     \<lparr>k_Carrier = ToUpper car, k_FlightNum = ToUpper num, k_Date = date, k_Board = ToUpper board,
      k_Off = ToUpper off, k_Class = ToUpper cls\<rparr>"

definition Flight :: "avail_key \<Rightarrow> avail_key" where
  "Flight k = k\<lparr>k_Class := ''''\<rparr>"

record avail_entry =
  e_Key :: avail_key
  e_Status :: avail_status
  e_Seats :: int
  SeatsKnown :: bool
  e_Source :: string
  AsOf :: time

definition Age :: "avail_entry \<Rightarrow> time \<Rightarrow> int" where
  "Age e now = now - AsOf e"

record cache =
  StaleAfter :: int
  entries :: "(avail_key \<times> avail_entry) list"

definition DefaultStaleAfter :: int where
  "DefaultStaleAfter = 6 * 3600 * 1000000000"

definition NewCache :: cache where
  "NewCache = \<lparr>StaleAfter = DefaultStaleAfter, entries = []\<rparr>"

definition staleAfter :: "cache \<Rightarrow> int" where
  "staleAfter c = (if StaleAfter c > 0 then StaleAfter c else DefaultStaleAfter)"

section \<open>Operations\<close>

definition avail_Put :: "time \<Rightarrow> avail_entry \<Rightarrow> cache \<Rightarrow> bool \<times> cache" where
  "avail_Put now e0 c =
     (let e = (if AsOf e0 = zero_time then e0\<lparr>AsOf := now\<rparr> else e0);
          c1 = c\<lparr>entries := gm_put (e_Key e) e (entries c)\<rparr>
      in case map_of (entries c) (e_Key e) of
           None \<Rightarrow> (True, c1)
         | Some prev \<Rightarrow>
             if AsOf e < AsOf prev then (False, c)
             else if authority (e_Source e) < authority (e_Source prev) \<and> now - AsOf prev < staleAfter c then (False, c)
             else (True, c1))"

definition avail_Lookup :: "time \<Rightarrow> cache \<Rightarrow> avail_key \<Rightarrow> (avail_entry \<times> bool) option" where
  "avail_Lookup now c k = map_option (\<lambda>e. (e, Age e now < staleAfter c)) (map_of (entries c) k)"

definition avail_Status :: "time \<Rightarrow> cache \<Rightarrow> avail_key \<Rightarrow> avail_status" where
  "avail_Status now c k =
     (case avail_Lookup now c k of None \<Rightarrow> Unknown | Some (e, fresh) \<Rightarrow> if \<not> fresh then Unknown else e_Status e)"

datatype decision = FreeSale | Ask | AskWaitlist | Refuse

datatype decide_reason = NothingHeld | TooOld int | ReportedClosed | ReportedWaitlist | OnlyOffered int | OpenSince | RequiresRequest | StatusUnknown

definition avail_Decide :: "time \<Rightarrow> cache \<Rightarrow> avail_key \<Rightarrow> int \<Rightarrow> decision \<times> decide_reason" where
  "avail_Decide now c k seats =
     (case avail_Lookup now c k of
        None \<Rightarrow> (Ask, NothingHeld)
      | Some (e, fresh) \<Rightarrow>
          if \<not> fresh then (Ask, TooOld (Age e now))
          else case e_Status e of
                 Closed \<Rightarrow> (Ask, ReportedClosed)
               | Waitlist \<Rightarrow> (AskWaitlist, ReportedWaitlist)
               | Open \<Rightarrow> if SeatsKnown e \<and> seats > e_Seats e then (Ask, OnlyOffered (e_Seats e)) else (FreeSale, OpenSince)
               | Request \<Rightarrow> (Ask, RequiresRequest)
               | Unknown \<Rightarrow> (Ask, StatusUnknown))"

definition Sold :: "avail_key \<Rightarrow> int \<Rightarrow> cache \<Rightarrow> cache" where
  "Sold k seats c =
     (case map_of (entries c) k of
        None \<Rightarrow> c
      | Some e \<Rightarrow>
          if \<not> SeatsKnown e then c
          else let n = e_Seats e - seats in
               c\<lparr>entries := gm_put k (e\<lparr>e_Seats := (if n < 0 then 0 else n)\<rparr>) (entries c)\<rparr>)"

definition Forget :: "avail_key \<Rightarrow> cache \<Rightarrow> cache" where
  "Forget k c = c\<lparr>entries := gm_del k (entries c)\<rparr>"

fun avail_purge_loop :: "time \<Rightarrow> string \<Rightarrow> (avail_key \<times> avail_entry) list \<Rightarrow> nat \<Rightarrow> cache \<Rightarrow> cache \<times> nat" where
  "avail_purge_loop now today [] n c = (c, n)"
| "avail_purge_loop now today ((k, e) # rest) n c =
     (if Age e now \<ge> staleAfter c \<or> k_Date k < today
      then avail_purge_loop now today rest (Suc n) (c\<lparr>entries := gm_del k (entries c)\<rparr>)
      else avail_purge_loop now today rest n c)"

text \<open>\<open>today\<close> is \<open>now\<close> formatted as a date.\<close>

definition avail_Purge :: "time \<Rightarrow> string \<Rightarrow> cache \<Rightarrow> cache \<times> nat" where
  "avail_Purge now today c = avail_purge_loop now today (entries c) 0 c"

definition avail_Classes :: "cache \<Rightarrow> avail_key \<Rightarrow> avail_entry strmap" where
  "avail_Classes c fl =
     fold (\<lambda>(k, e) out. if Flight k = Flight fl then gm_put (k_Class k) e out else out) (entries c) []"

section \<open>Ordering and provenance\<close>

lemma staleAfter_entries [simp]: "staleAfter (c\<lparr>entries := m\<rparr>) = staleAfter c"
  by (simp add: staleAfter_def)

lemma staleAfter_pos: "0 < staleAfter c"
  by (simp add: staleAfter_def DefaultStaleAfter_def)

lemma Put_other: "k \<noteq> e_Key e \<Longrightarrow> map_of (entries (snd (avail_Put now e c))) k = map_of (entries c) k"
  by (simp add: avail_Put_def Let_def split: option.split)

lemma Put_staleAfter [simp]: "staleAfter (snd (avail_Put now e c)) = staleAfter c"
  by (simp add: avail_Put_def Let_def split: option.split)

fun put_all :: "(time \<times> avail_entry) list \<Rightarrow> cache \<Rightarrow> cache" where
  "put_all [] c = c"
| "put_all ((now, e) # rest) c = put_all rest (snd (avail_Put now e c))"

lemma Put_monotone:
  assumes "map_of (entries c) k = Some p" "map_of (entries (snd (avail_Put now e c))) k = Some q"
  shows "p = q \<or> AsOf p \<le> AsOf q \<and> (authority (e_Source p) \<le> authority (e_Source q) \<or> staleAfter c \<le> now - AsOf p)"
proof (cases "k = e_Key e")
  case True
  then show ?thesis using assms
    by (auto simp: avail_Put_def Let_def not_less split: if_splits)
next
  case False
  then show ?thesis using assms by (simp add: Put_other)
qed

lemma Put_keeps: "map_of (entries c) k = Some p \<Longrightarrow> \<exists>q. map_of (entries (snd (avail_Put now e c))) k = Some q"
  by (cases "k = e_Key e") (auto simp: avail_Put_def Let_def Put_other split: option.split)

lemma put_all_monotone:
  "map_of (entries c) k = Some p \<Longrightarrow> \<exists>q. map_of (entries (put_all es c)) k = Some q \<and> AsOf p \<le> AsOf q"
proof (induction es arbitrary: c p)
  case (Cons a es)
  obtain now e where a: "a = (now, e)" by (cases a)
  from Put_keeps [OF Cons.prems] obtain q where q: "map_of (entries (snd (avail_Put now e c))) k = Some q" by blast
  have "AsOf p \<le> AsOf q" using Put_monotone [OF Cons.prems q] by auto
  then show ?case using Cons.IH [OF q] a by (auto intro: order_trans)
qed auto

lemma Put_same_source:
  assumes "AsOf e \<noteq> zero_time" "map_of (entries c) (e_Key e) = Some p" "authority (e_Source e) = authority (e_Source p)"
  shows "map_of (entries (snd (avail_Put now e c))) (e_Key e) = Some (if AsOf e < AsOf p then p else e)"
  using assms by (simp add: avail_Put_def Let_def)

lemma put_all_latest:
  assumes "\<forall>x \<in> set es. e_Key (snd x) = k \<and> AsOf (snd x) \<noteq> zero_time \<and> authority (e_Source (snd x)) = a"
    and "map_of (entries c) k = Some p" "authority (e_Source p) = a"
    and "m \<in> insert p (snd ` set es)" "\<forall>x \<in> insert p (snd ` set es). x \<noteq> m \<longrightarrow> AsOf x < AsOf m"
  shows "map_of (entries (put_all es c)) k = Some m"
  using assms
proof (induction es arbitrary: c p)
  case (Cons x es)
  obtain now e where x: "x = (now, e)" by (cases x)
  have e: "e_Key e = k" "AsOf e \<noteq> zero_time" "authority (e_Source e) = a" using Cons.prems(1) x by auto
  let ?q = "if AsOf e < AsOf p then p else e"
  have q: "map_of (entries (snd (avail_Put now e c))) k = Some ?q"
    using Put_same_source [of e c p now] e Cons.prems(2,3) by simp
  have "m \<in> insert ?q (snd ` set es)"
    using Cons.prems(4,5) x by (auto dest: less_asym)
  moreover have "\<forall>y \<in> insert ?q (snd ` set es). y \<noteq> m \<longrightarrow> AsOf y < AsOf m" using Cons.prems(5) x by auto
  ultimately have "map_of (entries (put_all es (snd (avail_Put now e c)))) k = Some m"
    using Cons.prems(1,3) e q by (intro Cons.IH [of _ ?q]) auto
  then show ?case by (simp add: x)
qed auto

text \<open>
  Out-of-order delivery cannot move a belief backwards. Whatever is put, in whatever order, a
  key once believed stays believed and the moment it was asserted never decreases; a put replaces
  a belief from a more authoritative source only when that belief has left its trust window; and
  among assertions about one key from equally authoritative sources the latest one stands, in
  whatever order they arrived.
\<close>

theorem avail_put_ordering:
  assumes "map_of (entries c) k = Some p"
  shows "(\<exists>q. map_of (entries (put_all es c)) k = Some q \<and> AsOf p \<le> AsOf q)
       \<and> (\<forall>now e q. map_of (entries (snd (avail_Put now e c))) k = Some q \<and> q \<noteq> p
            \<and> authority (e_Source q) < authority (e_Source p) \<longrightarrow> staleAfter c \<le> now - AsOf p)
       \<and> (\<forall>m. m \<in> insert p (snd ` set es)
            \<and> (\<forall>x \<in> insert p (snd ` set es). x \<noteq> m \<longrightarrow> AsOf x < AsOf m)
            \<and> (\<forall>x \<in> set es. e_Key (snd x) = k \<and> AsOf (snd x) \<noteq> zero_time
                 \<and> authority (e_Source (snd x)) = authority (e_Source p)) \<longrightarrow>
            map_of (entries (put_all es c)) k = Some m)"
proof (intro conjI allI impI)
  show "\<exists>q. map_of (entries (put_all es c)) k = Some q \<and> AsOf p \<le> AsOf q" by (rule put_all_monotone [OF assms])
next
  fix now e q
  assume q: "map_of (entries (snd (avail_Put now e c))) k = Some q \<and> q \<noteq> p \<and> authority (e_Source q) < authority (e_Source p)"
  then show "staleAfter c \<le> now - AsOf p" using Put_monotone [OF assms, of now e q] by auto
next
  fix m
  assume "m \<in> insert p (snd ` set es) \<and> (\<forall>x \<in> insert p (snd ` set es). x \<noteq> m \<longrightarrow> AsOf x < AsOf m)
    \<and> (\<forall>x \<in> set es. e_Key (snd x) = k \<and> AsOf (snd x) \<noteq> zero_time \<and> authority (e_Source (snd x)) = authority (e_Source p))"
  then show "map_of (entries (put_all es c)) k = Some m" by (intro put_all_latest [OF _ assms refl]) simp_all
qed

definition demo_key :: avail_key where
  "demo_key = NewKey ''ba'' ''175'' ''2026-08-12'' ''lhr'' ''jfk'' ''y''"

definition demo_entry :: "time \<Rightarrow> int \<Rightarrow> avail_entry" where
  "demo_entry t n = \<lparr>e_Key = demo_key, e_Status = Open, e_Seats = n, SeatsKnown = True, e_Source = SourceAVS, AsOf = t\<rparr>"

theorem avail_put_ordering_witness:
  "map_of (entries (put_all [(9, demo_entry 7 2), (9, demo_entry 5 8)] \<lparr>StaleAfter = 0, entries = [(demo_key, demo_entry 3 9)]\<rparr>)) demo_key
     = Some (demo_entry 7 2)"
proof -
  let ?c = "\<lparr>StaleAfter = 0, entries = [(demo_key, demo_entry 3 9)]\<rparr>"
  have "map_of (entries ?c) demo_key = Some (demo_entry 3 9)" by simp
  from avail_put_ordering [OF this, of "[(9, demo_entry 7 2), (9, demo_entry 5 8)]"]
  show ?thesis by (auto simp: demo_entry_def zero_time_def)
qed

section \<open>Free sale\<close>

text \<open>
  Free sale is decided exactly when the belief is within its trust window, says open, and a
  count where one was given covers the seats; without a belief, or with an old one, the carrier is
  asked; and no decision ever refuses on the carrier's behalf.
\<close>

theorem free_sale_iff:
  "(fst (avail_Decide now c k n) = FreeSale \<longleftrightarrow>
      (\<exists>e. map_of (entries c) k = Some e \<and> now - AsOf e < staleAfter c \<and> e_Status e = Open \<and> (SeatsKnown e \<longrightarrow> n \<le> e_Seats e)))
   \<and> (avail_Status now c k = Unknown \<longrightarrow> fst (avail_Decide now c k n) = Ask)
   \<and> fst (avail_Decide now c k n) \<noteq> Refuse"
  by (auto simp: avail_Decide_def avail_Lookup_def avail_Status_def Age_def not_less
      split: option.splits avail_status.splits if_splits)

theorem free_sale_iff_witness:
  "fst (avail_Decide 9 \<lparr>StaleAfter = 0, entries = [(demo_key, demo_entry 3 2)]\<rparr> demo_key 2) = FreeSale
   \<and> fst (avail_Decide 9 NewCache demo_key 2) = Ask"
proof -
  have "avail_Status 9 NewCache demo_key = Unknown" by (simp add: avail_Status_def avail_Lookup_def NewCache_def)
  moreover have "staleAfter \<lparr>StaleAfter = 0, entries = [(demo_key, demo_entry 3 2)]\<rparr> > 6"
    by (simp add: staleAfter_def DefaultStaleAfter_def)
  ultimately show ?thesis
    using free_sale_iff [of 9 NewCache demo_key 2] free_sale_iff [of 9 "\<lparr>StaleAfter = 0, entries = [(demo_key, demo_entry 3 2)]\<rparr>" demo_key 2]
    by (simp add: demo_entry_def)
qed

text \<open>A booking: decide, and count the seats down when they were sold without asking.\<close>

definition book :: "avail_key \<Rightarrow> time \<times> int \<Rightarrow> cache \<Rightarrow> int \<times> cache" where
  "book k r c = (if fst (avail_Decide (fst r) c k (snd r)) = FreeSale then (snd r, Sold k (snd r) c) else (0, c))"

fun bookings :: "avail_key \<Rightarrow> (time \<times> int) list \<Rightarrow> cache \<Rightarrow> int \<times> cache" where
  "bookings k [] c = (0, c)"
| "bookings k (r # rs) c = (let (n, c1) = book k r c; (m, c2) = bookings k rs c1 in (n + m, c2))"

lemma book_within:
  assumes "map_of (entries c) k = Some e" "SeatsKnown e" "0 \<le> e_Seats e" "0 \<le> snd r" "book k r c = (n, c')"
  shows "0 \<le> n \<and> (\<exists>e'. map_of (entries c') k = Some e' \<and> SeatsKnown e' \<and> 0 \<le> e_Seats e' \<and> n + e_Seats e' = e_Seats e
    \<and> e_Status e' = e_Status e)"
  using assms
  by (auto simp: book_def avail_Decide_def avail_Lookup_def Sold_def Let_def split: if_splits avail_status.splits)

text \<open>
  Seats sold without asking never exceed what the carrier offered. On a belief that carries a
  count, over any sequence of bookings taken one after another, the seats free-sold and the count
  left add up to the count the belief started with, the count stays non-negative, and the status
  stays the one the carrier gave.
\<close>

theorem free_sale_within_offer:
  assumes "map_of (entries c) k = Some e" "SeatsKnown e" "0 \<le> e_Seats e" "\<forall>r \<in> set rs. 0 \<le> snd r"
    and "bookings k rs c = (sold_total, c')"
  shows "sold_total \<le> e_Seats e \<and> (\<exists>e'. map_of (entries c') k = Some e' \<and> 0 \<le> e_Seats e'
           \<and> sold_total + e_Seats e' = e_Seats e \<and> e_Status e' = e_Status e)"
proof -
  have "\<exists>e'. map_of (entries c') k = Some e' \<and> 0 \<le> e_Seats e' \<and> sold_total + e_Seats e' = e_Seats e \<and> e_Status e' = e_Status e"
    using assms
  proof (induction rs arbitrary: c e sold_total)
    case (Cons r rs)
    obtain n c1 where b: "book k r c = (n, c1)" by fastforce
    from book_within [OF Cons.prems(1-3) _ b] Cons.prems(4) obtain e1 where
      e1: "map_of (entries c1) k = Some e1" "SeatsKnown e1" "0 \<le> e_Seats e1" "n + e_Seats e1 = e_Seats e" "e_Status e1 = e_Status e" by auto
    obtain m where m: "bookings k rs c1 = (m, c')" "sold_total = n + m" using Cons.prems(5) b by (auto split: prod.splits)
    from Cons.IH [OF e1(1-3) _ m(1)] Cons.prems(4) e1(4,5) m(2) show ?case by auto
  qed simp
  then show ?thesis by auto
qed

theorem free_sale_within_offer_witness:
  "fst (bookings demo_key [(9, 2), (9, 1), (9, 1)] \<lparr>StaleAfter = 0, entries = [(demo_key, demo_entry 3 3)]\<rparr>) \<le> 3"
proof -
  let ?c = "\<lparr>StaleAfter = 0, entries = [(demo_key, demo_entry 3 3)]\<rparr>"
  obtain t c' where b: "bookings demo_key [(9, 2), (9, 1), (9, 1)] ?c = (t, c')" by fastforce
  have "map_of (entries ?c) demo_key = Some (demo_entry 3 3)" "SeatsKnown (demo_entry 3 3)" "e_Seats (demo_entry 3 3) = 3"
    by (simp_all add: demo_entry_def)
  with free_sale_within_offer [OF this(1,2) _ _ b] show ?thesis using b by simp
qed

end
