(* ===== verification/Inventory.thy ===== *)
theory Inventory
  imports Avail
begin

text \<open>
  A carrier's seat inventory (\<open>src/pkg/inventory/inventory.go\<close>): the counts per cabin and class,
  the answer to a sell request, release, rebuild and the availability it would broadcast. The
  schedule (\<open>Capacity\<close>) and revenue management (\<open>Levels\<close>) are the callbacks the code calls. Two
  floating-point computations are function fields as well: the share of a cabin's seats that may
  be waitlisted, and the bid-price comparison of \<open>network.go\<close>. \<open>Decide\<close> holds the mutex across
  its loop, so it is one step. The lemmas show that no cabin is ever oversold, that the answer to
  a request agrees with the availability advertised for it, and that a release undoes a sale.
\<close>

section \<open>State\<close>

record level =
  lv_Class :: string
  Authorized :: int

type_synonym 'a leg_fun = "string \<Rightarrow> string \<Rightarrow> string \<Rightarrow> string \<Rightarrow> 'a"

record network =
  nw_Ladder :: "(string \<Rightarrow> level list) leg_fun"
  nw_Displaced :: "pnr \<Rightarrow> segment list \<Rightarrow> int strmap \<Rightarrow> bool"

record inventory =
  inv_Carrier :: string
  Capacity :: "int strmap option leg_fun option"
  WaitlistCut :: "int \<Rightarrow> int"
  MinWaitlist :: int
  ClosedClasses :: "string list"
  Levels :: "(string \<Rightarrow> level list) leg_fun option"
  Network :: "network option"
  inv_sold :: "int strmap"
  waitlisted :: "int strmap"
  soldClass :: "int strmap"
  classes :: "int strmap strmap"
  overrides :: "string strmap"

definition CompartmentFor :: "string \<Rightarrow> int strmap \<Rightarrow> string" where
  "CompartmentFor cls comps =
     (let want = (if cls \<in> set [''F'', ''A'', ''P'', ''R''] then [''F'', ''C'', ''Y'']
                  else if cls \<in> set [''J'', ''C'', ''D'', ''I'', ''Z''] then [''C'', ''Y'', ''F'']
                  else [''Y'', ''C'', ''F''])
      in case find (\<lambda>w. map_of comps w \<noteq> None) want of Some w \<Rightarrow> w | None \<Rightarrow> ''Y'')"

definition trim0 :: "string \<Rightarrow> string" where
  "trim0 s = dropWhile (\<lambda>c. c = CHR ''0'') s"

definition poolKey :: "string \<Rightarrow> string \<Rightarrow> string \<Rightarrow> string \<Rightarrow> string \<Rightarrow> string" where
  "poolKey car fl date board cab = Join [car, trim0 fl, ToUpper date, board, cab] ''/''"

definition classKey :: "string \<Rightarrow> string \<Rightarrow> string \<Rightarrow> string \<Rightarrow> string \<Rightarrow> string" where
  "classKey car fl date board cls = Join [car, trim0 fl, ToUpper date, board, cls] ''/''"

definition waitlistFor :: "inventory \<Rightarrow> int \<Rightarrow> int" where
  "waitlistFor iv seats = (let w = WaitlistCut iv seats in if w < MinWaitlist iv then MinWaitlist iv else w)"

text \<open>The result is the pool key, the compartment and its seats; \<open>None\<close> is \<open>ok\<close> false.\<close>

definition cabin :: "inventory \<Rightarrow> (string \<Rightarrow> (string \<times> string \<times> int) option) leg_fun" where
  "cabin iv car fl date board cls =
     (case Capacity iv of
        None \<Rightarrow> None
      | Some capacity \<Rightarrow>
          (case capacity car fl date board of
             None \<Rightarrow> None
           | Some comps \<Rightarrow>
               if comps = [] then None
               else let cab = CompartmentFor cls comps in
                    Some (poolKey car fl date board cab, cab, gm_get 0 comps cab)))"

definition ladderFor :: "inventory \<Rightarrow> (string \<Rightarrow> level list) leg_fun" where
  "ladderFor iv car fl date board cls =
     (case Levels iv of
        None \<Rightarrow> []
      | Some levels \<Rightarrow>
          (case cabin iv car fl date board cls of
             None \<Rightarrow> []
           | Some (_, cab, _) \<Rightarrow> levels car fl date board cab))"

fun ladder_at :: "string \<Rightarrow> nat \<Rightarrow> level list \<Rightarrow> nat option \<Rightarrow> nat option" where
  "ladder_at cls i [] found = found"
| "ladder_at cls i (l # ls) found = ladder_at cls (Suc i) ls (if EqualFold (lv_Class l) cls then Some i else found)"

definition classOpen :: "inventory \<Rightarrow> level list \<Rightarrow> string \<Rightarrow> string \<Rightarrow> int" where
  "classOpen iv ladder key cls =
     (if ladder = [] then - 1
      else case ladder_at cls 0 ladder None of
             None \<Rightarrow> - 1
           | Some k \<Rightarrow>
               Authorized (ladder ! k)
               - sum_list (map (\<lambda>l. gm_get 0 (soldClass iv) (key @ ''/'' @ ToUpper (lv_Class l))) (drop k ladder)))"

definition awaitingDecision :: "string \<Rightarrow> bool" where
  "awaitingDecision status \<longleftrightarrow> status = ''HN'' \<or> status = ''PN'' \<or> NeedsReply status"

definition addClass :: "string \<Rightarrow> string \<Rightarrow> int \<Rightarrow> inventory \<Rightarrow> inventory" where
  "addClass pool cls delta iv =
     (let ck = pool @ ''/'' @ cls;
          n = max 0 (gm_get 0 (soldClass iv) ck + delta);
          inv1 = iv\<lparr>soldClass := gm_put ck n (soldClass iv)\<rparr>
      in case map_of (classes inv1) pool of
           None \<Rightarrow> if n = 0 then inv1 else inv1\<lparr>classes := gm_put pool (gm_put cls n []) (classes inv1)\<rparr>
         | Some m \<Rightarrow>
             if n = 0
             then let m1 = gm_del cls m in
                  if m1 = [] then inv1\<lparr>classes := gm_del pool (classes inv1)\<rparr>
                  else inv1\<lparr>classes := gm_put pool m1 (classes inv1)\<rparr>
             else inv1\<lparr>classes := gm_put pool (gm_put cls n m) (classes inv1)\<rparr>)"

section \<open>Deciding\<close>

definition mine :: "inventory \<Rightarrow> segment \<Rightarrow> bool" where
  "mine iv s \<longleftrightarrow> sg_Type s = SegmentAir \<and> (inv_Carrier iv = '''' \<or> Carrier s = inv_Carrier iv)"

definition seg_cabin :: "inventory \<Rightarrow> segment \<Rightarrow> (string \<times> string \<times> int) option" where
  "seg_cabin iv s = cabin iv (Carrier s) (FlightNum s) (WireDate s) (Board s) (Class s)"

definition seg_pool :: "inventory \<Rightarrow> segment \<Rightarrow> string" where
  "seg_pool iv s =
     (case seg_cabin iv s of
        Some (key, _, _) \<Rightarrow> key
      | None \<Rightarrow> poolKey (Carrier s) (FlightNum s) (WireDate s) (Board s) (CompartmentFor (Class s) []))"

definition count_sold :: "string \<Rightarrow> segment \<Rightarrow> inventory \<Rightarrow> inventory" where
  "count_sold key s iv =
     addClass key (ToUpper (Class s)) (Seats s)
       (iv\<lparr>inv_sold := gm_put key (gm_get 0 (inv_sold iv) key + Seats s) (inv_sold iv)\<rparr>)"

definition count_waitlisted :: "string \<Rightarrow> segment \<Rightarrow> inventory \<Rightarrow> inventory" where
  "count_waitlisted key s iv = iv\<lparr>waitlisted := gm_put key (gm_get 0 (waitlisted iv) key + Seats s) (waitlisted iv)\<rparr>"

definition sold_status :: "string \<Rightarrow> bool" where
  "sold_status st \<longleftrightarrow> st \<in> set [''KK'', ''KL'', ''TK'', ''HK'']"

definition waitlist_status :: "string \<Rightarrow> bool" where
  "waitlist_status st \<longleftrightarrow> st \<in> set [''US'', ''UU'', ''TL'', ''HL'']"

definition commit :: "segment \<Rightarrow> string \<Rightarrow> inventory \<Rightarrow> inventory" where
  "commit s status iv =
     (let key = seg_pool iv s in
      if sold_status status then count_sold key s iv
      else if waitlist_status status then count_waitlisted key s iv
      else iv)"

text \<open>The ladder that decides a segment, asked for before the lock: from the network controller where there is one.\<close>

definition seg_ladder :: "inventory \<Rightarrow> segment \<Rightarrow> level list" where
  "seg_ladder iv s =
     (case Network iv of
        None \<Rightarrow> ladderFor iv (Carrier s) (FlightNum s) (WireDate s) (Board s) (Class s)
      | Some nw \<Rightarrow>
          (case seg_cabin iv s of
             None \<Rightarrow> ladderFor iv (Carrier s) (FlightNum s) (WireDate s) (Board s) (Class s)
           | Some (_, cab, _) \<Rightarrow> nw_Ladder nw (Carrier s) (FlightNum s) (WireDate s) (Board s) cab))"

definition asked_of :: "inventory \<Rightarrow> pnr \<Rightarrow> segment list" where
  "asked_of iv p = filter (\<lambda>s. mine iv s \<and> awaitingDecision (sg_Status s)) (Segments p)"

definition displaced_of :: "inventory \<Rightarrow> pnr \<Rightarrow> bool" where
  "displaced_of iv p =
     (case Network iv of
        None \<Rightarrow> False
      | Some nw \<Rightarrow> length (asked_of iv p) \<ge> 2 \<and> nw_Displaced nw p (asked_of iv p) (soldClass iv))"

definition decide_one :: "level list \<Rightarrow> bool \<Rightarrow> segment \<Rightarrow> inventory \<Rightarrow> string \<times> inventory" where
  "decide_one ladder displaced s iv =
     (case map_of (overrides iv) (classKey (Carrier s) (FlightNum s) (WireDate s) (Board s) (Class s)) of
        Some forced \<Rightarrow> (forced, commit s forced iv)
      | None \<Rightarrow>
          if Class s \<in> set (ClosedClasses iv) \<or> displaced then (''UC'', iv)
          else case seg_cabin iv s of
                 None \<Rightarrow> (''UN'', iv)
               | Some (key, cab, seats) \<Rightarrow>
                   let taken = gm_get 0 (inv_sold iv) key; opn = classOpen iv ladder key (Class s) in
                   if taken + Seats s \<le> seats \<and> opn \<ge> 0 \<and> Seats s > opn then (''UC'', iv)
                   else if taken + Seats s \<le> seats then (''KK'', count_sold key s iv)
                   else if gm_get 0 (waitlisted iv) key + Seats s \<le> waitlistFor iv seats
                   then (''US'', count_waitlisted key s iv)
                   else (''UC'', iv))"

fun decide_loop :: "level list strmap \<Rightarrow> bool \<Rightarrow> segment list \<Rightarrow> inventory \<Rightarrow> (segment \<times> string) list \<times> inventory" where
  "decide_loop ladders displaced [] iv = ([], iv)"
| "decide_loop ladders displaced (s # ss) iv =
     (let (st, inv1) = decide_one (gm_get [] ladders (Key s)) displaced s iv;
          (ans, inv2) = decide_loop ladders displaced ss inv1
      in ((s, st) # ans, inv2))"

text \<open>
  The answers in the order they are made, and the map of them by segment key that the code returns:
  of two segments with one key the later answer stays.
\<close>

definition answers :: "(segment \<times> string) list \<Rightarrow> string strmap" where
  "answers ans = fold (\<lambda>(s, st) out. gm_put (Key s) st out) ans []"

definition decide_run :: "pnr \<Rightarrow> inventory \<Rightarrow> (segment \<times> string) list \<times> inventory" where
  "decide_run p iv =
     (let asked = asked_of iv p;
          ladders = fold (\<lambda>s m. gm_put (Key s) (seg_ladder iv s) m) asked []
      in decide_loop ladders (displaced_of iv p) asked iv)"

definition inv_Decide :: "pnr \<Rightarrow> inventory \<Rightarrow> string strmap \<times> inventory" where
  "inv_Decide p iv = (let (ans, iv') = decide_run p iv in (answers ans, iv'))"

lemma inv_Decide_run: "decide_run p iv = (ans, iv') \<Longrightarrow> inv_Decide p iv = (answers ans, iv')"
  by (simp add: inv_Decide_def)

lemma map_of_answers: "map_of (answers ans) = map_of (rev (map (\<lambda>(s, st). (Key s, st)) ans))"
proof -
  have "map_of (fold (\<lambda>(s, st) out. gm_put (Key s) st out) ans m) = map_of m ++ map_of (rev (map (\<lambda>(s, st). (Key s, st)) ans))" for m
    by (induction ans arbitrary: m) (auto simp: fun_eq_iff map_add_def split: option.splits)
  from this [of "[]"] show ?thesis by (simp add: answers_def)
qed

definition Seed :: "segment \<Rightarrow> inventory \<Rightarrow> inventory" where
  "Seed s iv = (if \<not> mine iv s then iv else commit s (sg_Status s) iv)"

definition inv_Release :: "segment \<Rightarrow> string \<Rightarrow> inventory \<Rightarrow> inventory" where
  "inv_Release s was iv =
     (if \<not> mine iv s then iv
      else let key = seg_pool iv s in
           if sold_status was
           then addClass key (ToUpper (Class s)) (- Seats s)
                  (iv\<lparr>inv_sold := gm_put key (max 0 (gm_get 0 (inv_sold iv) key - Seats s)) (inv_sold iv)\<rparr>)
           else if waitlist_status was
           then iv\<lparr>waitlisted := gm_put key (max 0 (gm_get 0 (waitlisted iv) key - Seats s)) (waitlisted iv)\<rparr>
           else iv)"

definition Reset :: "inventory \<Rightarrow> inventory" where
  "Reset iv = iv\<lparr>inv_sold := [], waitlisted := [], soldClass := [], classes := []\<rparr>"

definition SetOverride :: "string \<Rightarrow> string \<Rightarrow> string \<Rightarrow> string \<Rightarrow> string \<Rightarrow> string \<Rightarrow> inventory \<Rightarrow> inventory" where
  "SetOverride car fl date board cls status iv =
     iv\<lparr>overrides := gm_put (classKey car fl date board cls) status (overrides iv)\<rparr>"

definition SoldByClass :: "inventory \<Rightarrow> (string \<Rightarrow> int strmap) leg_fun" where
  "SoldByClass iv car fl date board cab =
     fold (\<lambda>(c, n) out. if n > 0 then gm_put c (gm_get 0 out c + n) out else out)
       (gm_get [] (classes iv) (poolKey car fl date board cab)) []"

section \<open>Availability\<close>

definition avail_one :: "inventory \<Rightarrow> time \<Rightarrow> string \<Rightarrow> avail_key \<Rightarrow> avail_entry option" where
  "avail_one iv asOf wire k =
     (if inv_Carrier iv \<noteq> '''' \<and> k_Carrier k \<noteq> inv_Carrier iv then None
      else
        let e = \<lparr>e_Key = k, e_Status = Unknown, e_Seats = 0, SeatsKnown = False, e_Source = SourceAVS, AsOf = asOf\<rparr>;
            ladder = ladderFor iv (k_Carrier k) (k_FlightNum k) wire (k_Board k) (k_Class k)
        in
        if wire = '''' then None
        else if k_Class k \<in> set (ClosedClasses iv) then Some (e\<lparr>e_Status := Closed\<rparr>)
        else case map_of (overrides iv) (classKey (k_Carrier k) (k_FlightNum k) wire (k_Board k) (k_Class k)) of
               Some forced \<Rightarrow>
                 Some (e\<lparr>e_Status := (if forced = ''UC'' \<or> forced = ''UN'' then Closed
                                      else if forced = ''US'' \<or> forced = ''UU'' then Waitlist else Open)\<rparr>)
             | None \<Rightarrow>
                 (case cabin iv (k_Carrier k) (k_FlightNum k) wire (k_Board k) (k_Class k) of
                    None \<Rightarrow> None
                  | Some (key, cab, seats) \<Rightarrow>
                      let left = seats - gm_get 0 (inv_sold iv) key;
                          opn = classOpen iv ladder key (k_Class k) in
                      if opn \<ge> 0 \<and> opn < left \<and> opn \<le> 0
                      then Some (e\<lparr>e_Seats := 0, SeatsKnown := True, e_Status := Closed\<rparr>)
                      else
                        let left1 = (if opn \<ge> 0 \<and> opn < left then opn else left) in
                        Some (e\<lparr>e_Seats := max left1 0, SeatsKnown := True,
                                e_Status := (if left1 > 0 then Open
                                             else if gm_get 0 (waitlisted iv) key < waitlistFor iv seats then Waitlist
                                             else Closed)\<rparr>)))"

text \<open>\<open>wire\<close> is \<open>availWire\<close>: the date of a key as DDMMM, or empty when it does not parse.\<close>

definition Availability :: "(avail_key \<Rightarrow> string) \<Rightarrow> inventory \<Rightarrow> avail_key list \<Rightarrow> time \<Rightarrow> avail_entry list" where
  "Availability wire iv keys asOf = List.map_filter (\<lambda>k. avail_one iv asOf (wire k) k) keys"

section \<open>No cabin is oversold\<close>

abbreviation sold_in :: "inventory \<Rightarrow> string \<Rightarrow> int" where
  "sold_in iv key \<equiv> gm_get 0 (inv_sold iv) key"

abbreviation waiting_in :: "inventory \<Rightarrow> string \<Rightarrow> int" where
  "waiting_in iv key \<equiv> gm_get 0 (waitlisted iv) key"

text \<open>The status the operator has forced for the class of a segment.\<close>

definition forced :: "inventory \<Rightarrow> segment \<Rightarrow> string option" where
  "forced iv s = map_of (overrides iv) (classKey (Carrier s) (FlightNum s) (WireDate s) (Board s) (Class s))"

lemma forced_none [simp]: "overrides iv = [] \<Longrightarrow> forced iv s = None"
  by (simp add: forced_def)

text \<open>The parts of an inventory that no decision changes.\<close>

definition same_setup :: "inventory \<Rightarrow> inventory \<Rightarrow> bool" where
  "same_setup a b \<longleftrightarrow> Capacity a = Capacity b \<and> overrides a = overrides b \<and> WaitlistCut a = WaitlistCut b
     \<and> MinWaitlist a = MinWaitlist b \<and> ClosedClasses a = ClosedClasses b \<and> inv_Carrier a = inv_Carrier b"

lemma same_setup_refl [simp]: "same_setup a a"
  by (simp add: same_setup_def)

lemma same_setup_trans: "same_setup a b \<Longrightarrow> same_setup b c \<Longrightarrow> same_setup a c"
  by (simp add: same_setup_def)

lemma seg_cabin_setup: "same_setup a b \<Longrightarrow> seg_cabin a s = seg_cabin b s"
  by (simp add: same_setup_def seg_cabin_def cabin_def)

lemma waitlistFor_setup: "same_setup a b \<Longrightarrow> waitlistFor a n = waitlistFor b n"
  by (simp add: same_setup_def waitlistFor_def Let_def)

lemma addClass_frame [simp]:
  "inv_sold (addClass pool c d iv) = inv_sold iv" "waitlisted (addClass pool c d iv) = waitlisted iv"
  "same_setup (addClass pool c d iv) iv"
  by (simp_all add: addClass_def Let_def same_setup_def split: option.split)

lemma count_sold_frame [simp]:
  "sold_in (count_sold key s iv) k = sold_in iv k + (if k = key then Seats s else 0)"
  "waiting_in (count_sold key s iv) k = waiting_in iv k" "same_setup (count_sold key s iv) iv"
proof -
  let ?i = "iv\<lparr>inv_sold := gm_put key (sold_in iv key + Seats s) (inv_sold iv)\<rparr>"
  have "same_setup (count_sold key s iv) ?i" unfolding count_sold_def by (rule addClass_frame)
  moreover have "same_setup ?i iv" by (simp add: same_setup_def)
  ultimately show "same_setup (count_sold key s iv) iv" by (rule same_setup_trans)
qed (simp_all add: count_sold_def)

lemma count_waitlisted_frame [simp]:
  "sold_in (count_waitlisted key s iv) k = sold_in iv k"
  "waiting_in (count_waitlisted key s iv) k = waiting_in iv k + (if k = key then Seats s else 0)"
  "same_setup (count_waitlisted key s iv) iv"
  by (simp_all add: count_waitlisted_def same_setup_def)

lemma decide_one_cases:
  assumes "decide_one ladder disp s iv = (st, iv')" "forced iv s = None"
  obtains (refused) "st = ''UC'' \<or> st = ''UN''" "iv' = iv"
  | (sold) key cab seats where "st = ''KK''" "seg_cabin iv s = Some (key, cab, seats)" "sold_in iv key + Seats s \<le> seats"
      "iv' = count_sold key s iv"
  | (waits) key cab seats where "st = ''US''" "seg_cabin iv s = Some (key, cab, seats)" "\<not> sold_in iv key + Seats s \<le> seats"
      "waiting_in iv key + Seats s \<le> waitlistFor iv seats" "iv' = count_waitlisted key s iv"
proof (cases "Class s \<in> set (ClosedClasses iv) \<or> disp \<or> seg_cabin iv s = None")
  case True
  then show thesis using assms by (intro refused) (auto simp: decide_one_def forced_def split: if_splits)
next
  case False
  then obtain key cab seats where c: "seg_cabin iv s = Some (key, cab, seats)" by auto
  note d = assms(1) [unfolded decide_one_def Let_def assms(2) [unfolded forced_def] c]
  show thesis
  proof (cases "sold_in iv key + Seats s \<le> seats")
    case le: True
    show thesis
    proof (cases "classOpen iv ladder key (Class s) \<ge> 0 \<and> Seats s > classOpen iv ladder key (Class s)")
      case True
      then show thesis using d False le by (intro refused) auto
    next
      case nl: False
      have "st = ''KK''" "iv' = count_sold key s iv" using d False le nl by (auto split: if_splits)
      then show thesis using sold c le by blast
    qed
  next
    case gt: False
    show thesis
    proof (cases "waiting_in iv key + Seats s \<le> waitlistFor iv seats")
      case True
      have "st = ''US''" "iv' = count_waitlisted key s iv" using d False gt True by auto
      then show thesis using waits c gt True by blast
    next
      case nw: False
      then show thesis using d False gt by (intro refused) auto
    qed
  qed
qed

text \<open>The seats of the segments of one pool: those forced to a status, those answered with one.\<close>

definition forced_seats :: "(string \<Rightarrow> bool) \<Rightarrow> inventory \<Rightarrow> string \<Rightarrow> segment list \<Rightarrow> int" where
  "forced_seats P iv k ss =
     sum_list (map Seats (filter (\<lambda>s. seg_pool iv s = k \<and> (case forced iv s of Some f \<Rightarrow> P f | None \<Rightarrow> False)) ss))"

definition answered_seats :: "(string \<Rightarrow> bool) \<Rightarrow> string strmap \<Rightarrow> inventory \<Rightarrow> string \<Rightarrow> segment list \<Rightarrow> int" where
  "answered_seats P out iv k ss =
     sum_list (map Seats (filter (\<lambda>s. seg_pool iv s = k \<and> (case map_of out (Key s) of Some st \<Rightarrow> P st | None \<Rightarrow> False)) ss))"

definition granted :: "(string \<Rightarrow> bool) \<Rightarrow> inventory \<Rightarrow> string \<Rightarrow> (segment \<times> string) list \<Rightarrow> int" where
  "granted P iv k ans = sum_list (map (Seats \<circ> fst) (filter (\<lambda>(s, st). seg_pool iv s = k \<and> P st) ans))"

lemma forced_setup: "same_setup a b \<Longrightarrow> forced a s = forced b s"
  by (simp add: forced_def same_setup_def)

lemma seg_pool_setup: "same_setup a b \<Longrightarrow> seg_pool a s = seg_pool b s"
  by (simp add: seg_pool_def seg_cabin_setup)

lemma granted_setup: "same_setup a b \<Longrightarrow> granted P a k ans = granted P b k ans"
  by (simp add: granted_def seg_pool_setup)

lemma forced_seats_setup: "same_setup a b \<Longrightarrow> forced_seats P a k ss = forced_seats P b k ss"
  by (simp add: forced_seats_def seg_pool_setup forced_setup)

lemma status_disjoint: "waitlist_status st \<Longrightarrow> \<not> sold_status st"
  by (auto simp: sold_status_def waitlist_status_def)

lemma commit_frame [simp]:
  "sold_in (commit s st iv) k = sold_in iv k + (if sold_status st \<and> seg_pool iv s = k then Seats s else 0)"
  "waiting_in (commit s st iv) k = waiting_in iv k + (if waitlist_status st \<and> seg_pool iv s = k then Seats s else 0)"
  "same_setup (commit s st iv) iv"
  using status_disjoint [of st] by (auto simp: commit_def Let_def)

text \<open>The capacity of a pool depends on the pool alone: both spellings of a flight or date name one aircraft.\<close>

definition capacity_by_pool :: "inventory \<Rightarrow> (string \<Rightarrow> int) \<Rightarrow> bool" where
  "capacity_by_pool iv cap \<longleftrightarrow> (\<forall>s key cab n. seg_cabin iv s = Some (key, cab, n) \<longrightarrow> n = cap key)"

lemma capacity_by_pool_setup: "same_setup a b \<Longrightarrow> capacity_by_pool a cap = capacity_by_pool b cap"
  by (simp add: capacity_by_pool_def seg_cabin_setup)

text \<open>What the answer to a segment may be.\<close>

definition fair_answer :: "inventory \<Rightarrow> segment \<Rightarrow> string \<Rightarrow> bool" where
  "fair_answer iv s st \<longleftrightarrow> (case forced iv s of Some f \<Rightarrow> st = f | None \<Rightarrow> st \<in> {''KK'', ''US'', ''UC'', ''UN''})"

lemma decide_one_step:
  assumes "decide_one ladder disp s iv = (st, iv')" "capacity_by_pool iv cap"
  shows "same_setup iv' iv \<and> fair_answer iv s st
    \<and> sold_in iv' k = sold_in iv k + granted sold_status iv k [(s, st)]
    \<and> waiting_in iv' k = waiting_in iv k + granted waitlist_status iv k [(s, st)]
    \<and> sold_in iv' k \<le> max (cap k) (sold_in iv k) + forced_seats sold_status iv k [s]
    \<and> waiting_in iv' k \<le> max (waiting_in iv k) (waitlistFor iv (cap k)) + forced_seats waitlist_status iv k [s]"
proof (cases "forced iv s")
  case (Some f)
  then have "st = f" "iv' = commit s f iv" using assms(1) by (auto simp: decide_one_def forced_def)
  then show ?thesis using Some by (auto simp: fair_answer_def granted_def forced_seats_def)
next
  case None
  have cap: "seg_cabin iv s = Some (key, cab, n) \<Longrightarrow> n = cap key" for key cab n
    using assms(2) by (auto simp: capacity_by_pool_def)
  show ?thesis
  proof (cases rule: decide_one_cases [OF assms(1) None])
    case 1
    then show ?thesis using None by (auto simp: fair_answer_def granted_def forced_seats_def sold_status_def waitlist_status_def)
  next
    case (2 key cab seats)
    then show ?thesis using None cap [OF 2(2)]
      by (auto simp: fair_answer_def granted_def forced_seats_def sold_status_def waitlist_status_def seg_pool_def)
  next
    case (3 key cab seats)
    then show ?thesis using None cap [OF 3(2)]
      by (auto simp: fair_answer_def granted_def forced_seats_def sold_status_def waitlist_status_def seg_pool_def)
  qed
qed

lemma fair_answer_setup: "same_setup a b \<Longrightarrow> fair_answer a s st = fair_answer b s st"
  by (simp add: fair_answer_def forced_setup)

lemma granted_Cons: "granted P iv k (x # xs) = granted P iv k [x] + granted P iv k xs"
  by (simp add: granted_def)

lemma forced_seats_Cons: "forced_seats P iv k (s # ss) = forced_seats P iv k [s] + forced_seats P iv k ss"
  by (simp add: forced_seats_def)

lemma forced_seats_nonneg: "\<forall>s \<in> set ss. 0 \<le> Seats s \<Longrightarrow> 0 \<le> forced_seats P iv k ss"
  by (auto simp: forced_seats_def intro!: sum_list_nonneg)

lemma decide_loop_step:
  assumes "decide_loop ladders disp ss iv = (ans, iv')" "capacity_by_pool iv cap" "\<forall>s \<in> set ss. 0 \<le> Seats s"
  shows "same_setup iv' iv \<and> map fst ans = ss \<and> list_all (\<lambda>(s, st). fair_answer iv s st) ans
    \<and> sold_in iv' k = sold_in iv k + granted sold_status iv k ans
    \<and> waiting_in iv' k = waiting_in iv k + granted waitlist_status iv k ans
    \<and> sold_in iv' k \<le> max (cap k) (sold_in iv k) + forced_seats sold_status iv k ss
    \<and> waiting_in iv' k \<le> max (waiting_in iv k) (waitlistFor iv (cap k)) + forced_seats waitlist_status iv k ss"
  using assms
proof (induction ss arbitrary: iv ans)
  case (Cons s ss)
  obtain st iv1 where d: "decide_one (gm_get [] ladders (Key s)) disp s iv = (st, iv1)" by fastforce
  obtain ans1 where r: "decide_loop ladders disp ss iv1 = (ans1, iv')" "ans = (s, st) # ans1"
    using Cons.prems(1) d by (auto split: prod.splits)
  note o = decide_one_step [OF d Cons.prems(2), of k]
  have su: "same_setup iv1 iv" using o by blast
  have "capacity_by_pool iv1 cap" using su Cons.prems(2) by (simp add: capacity_by_pool_setup)
  note ih = Cons.IH [OF r(1) this]
  have pos: "0 \<le> forced_seats P iv k ss" "0 \<le> forced_seats P iv k [s]" for P
    using Cons.prems(3) by (auto intro!: forced_seats_nonneg)
  have eq: "granted P iv1 k ans1 = granted P iv k ans1" "forced_seats P iv1 k ss = forced_seats P iv k ss"
    "fair_answer iv1 = fair_answer iv" "waitlistFor iv1 n = waitlistFor iv n" for P n
    using su by (simp_all add: granted_setup forced_seats_setup fair_answer_setup fun_eq_iff waitlistFor_setup)
  have "same_setup iv' iv" "map fst ans = s # ss" "list_all (\<lambda>(s, st). fair_answer iv s st) ans"
    using ih o Cons.prems(3) same_setup_trans eq by (auto simp: r(2))
  moreover have "sold_in iv' k = sold_in iv k + granted sold_status iv k ans" "waiting_in iv' k = waiting_in iv k + granted waitlist_status iv k ans"
    using ih o Cons.prems(3) unfolding r(2) granted_Cons [of _ iv k "(s, st)" ans1] eq by simp_all
  moreover have "sold_in iv' k \<le> max (cap k) (sold_in iv k) + forced_seats sold_status iv k (s # ss)"
    "waiting_in iv' k \<le> max (waiting_in iv k) (waitlistFor iv (cap k)) + forced_seats waitlist_status iv k (s # ss)"
  proof -
    have "sold_in iv1 k \<le> max (cap k) (sold_in iv k) + forced_seats sold_status iv k [s]"
      "waiting_in iv1 k \<le> max (waiting_in iv k) (waitlistFor iv (cap k)) + forced_seats waitlist_status iv k [s]" using o by blast+
    moreover have "sold_in iv' k \<le> max (cap k) (sold_in iv1 k) + forced_seats sold_status iv k ss"
      "waiting_in iv' k \<le> max (waiting_in iv1 k) (waitlistFor iv (cap k)) + forced_seats waitlist_status iv k ss"
      using ih Cons.prems(3) eq by simp_all
    ultimately show "sold_in iv' k \<le> max (cap k) (sold_in iv k) + forced_seats sold_status iv k (s # ss)"
      "waiting_in iv' k \<le> max (waiting_in iv k) (waitlistFor iv (cap k)) + forced_seats waitlist_status iv k (s # ss)"
      using pos [of sold_status] pos [of waitlist_status] unfolding forced_seats_Cons [of _ iv k s ss] by linarith+
  qed
  ultimately show ?case by blast
qed (simp add: granted_def forced_seats_def)

text \<open>With one segment to a key, the map of the answers holds the answer of every segment.\<close>

lemma map_of_answers_distinct:
  assumes "distinct (map Key (map fst ans))" "(s, st) \<in> set ans"
  shows "map_of (answers ans) (Key s) = Some st"
proof -
  have "map fst (rev (map (\<lambda>(s, st). (Key s, st)) ans)) = rev (map Key (map fst ans))" by (simp add: rev_map comp_def case_prod_beta)
  then have "distinct (map fst (rev (map (\<lambda>(s, st). (Key s, st)) ans)))" using assms(1) by simp
  moreover have "(Key s, st) \<in> set (rev (map (\<lambda>(s, st). (Key s, st)) ans))" using assms(2) by force
  ultimately show ?thesis unfolding map_of_answers by (rule map_of_is_SomeI)
qed

lemma answered_granted:
  assumes "distinct (map Key (map fst ans))"
  shows "answered_seats P (answers ans) iv k (map fst ans) = granted P iv k ans"
proof -
  have "filter (\<lambda>s. seg_pool iv s = k \<and> (case map_of (answers ans) (Key s) of Some st \<Rightarrow> P st | None \<Rightarrow> False)) (map fst xs)
      = map fst (filter (\<lambda>(s, st). seg_pool iv s = k \<and> P st) xs)" if "set xs \<subseteq> set ans" for xs
    using that by (induction xs) (auto simp: map_of_answers_distinct [OF assms])
  from this [of ans] show ?thesis by (simp add: answered_seats_def granted_def)
qed

lemma answered_keys:
  assumes "map fst ans = ss" "list_all (\<lambda>(s, st). fair_answer iv s st) ans"
  shows "map_of (answers ans) key = Some code \<Longrightarrow> \<exists>t \<in> set ss. Key t = key \<and> fair_answer iv t code"
    and "s \<in> set ss \<Longrightarrow> map_of (answers ans) (Key s) \<noteq> None"
proof -
  show "\<exists>t \<in> set ss. Key t = key \<and> fair_answer iv t code" if "map_of (answers ans) key = Some code"
  proof -
    have "(key, code) \<in> set (rev (map (\<lambda>(s, st). (Key s, st)) ans))" using map_of_SomeD [OF that [unfolded map_of_answers]] .
    then obtain t where "(t, code) \<in> set ans" "Key t = key" by auto
    then show ?thesis using assms by (force simp: list_all_iff)
  qed
  show "map_of (answers ans) (Key s) \<noteq> None" if "s \<in> set ss"
  proof -
    have "Key s \<in> fst ` set (rev (map (\<lambda>(s, st). (Key s, st)) ans))" using that assms(1) by (force simp: image_iff)
    then show ?thesis by (simp add: map_of_answers map_of_eq_None_iff image_image)
  qed
qed

text \<open>
  C3: no cabin is oversold unless the operator forces it. Deciding a record's requests leaves the
  seats counted as sold in every pool at or below its cabin's seats, or below what they were before,
  but for the seats of segments whose class is forced to a confirming status; the waitlist stays
  within its limit in the same sense. Every segment awaiting an answer gets one in the map that is
  returned: the forced status where there is one, otherwise KK, US, UC or UN; nothing else is
  answered. Where no two of the segments share a key, what a pool counts as sold grows by exactly the
  seats of the segments the map confirms there, and its waitlist by those it waitlists.
\<close>

theorem decide_never_oversells:
  assumes "inv_Decide p iv = (out, iv')" "capacity_by_pool iv cap" "\<forall>s \<in> set (Segments p). 0 \<le> Seats s"
  shows "(\<forall>k. sold_in iv' k \<le> max (cap k) (sold_in iv k) + forced_seats sold_status iv k (asked_of iv p)
           \<and> waiting_in iv' k \<le> max (waiting_in iv k) (waitlistFor iv (cap k)) + forced_seats waitlist_status iv k (asked_of iv p))
       \<and> (\<forall>s \<in> set (asked_of iv p). map_of out (Key s) \<noteq> None)
       \<and> (\<forall>key code. map_of out key = Some code \<longrightarrow> (\<exists>s \<in> set (asked_of iv p). Key s = key
            \<and> (case forced iv s of Some f \<Rightarrow> code = f | None \<Rightarrow> code \<in> {''KK'', ''US'', ''UC'', ''UN''})))
       \<and> (distinct (map Key (asked_of iv p)) \<longrightarrow>
            (\<forall>k. sold_in iv' k = sold_in iv k + answered_seats sold_status out iv k (asked_of iv p)
               \<and> waiting_in iv' k = waiting_in iv k + answered_seats waitlist_status out iv k (asked_of iv p)))"
proof -
  obtain ans where run: "decide_run p iv = (ans, iv')" and out: "out = answers ans"
    using assms(1) by (auto simp: inv_Decide_def split: prod.splits)
  have "\<forall>s \<in> set (asked_of iv p). 0 \<le> Seats s" using assms(3) by (simp add: asked_of_def)
  note d = decide_loop_step [OF run [unfolded decide_run_def Let_def] assms(2) this]
  have ss: "map fst ans = asked_of iv p" "list_all (\<lambda>(s, st). fair_answer iv s st) ans" using d by blast+
  have eq: "answered_seats P out iv k (asked_of iv p) = granted P iv k ans" if "distinct (map Key (asked_of iv p))" for P k
    using answered_granted [of ans P iv k] that unfolding ss(1) out by simp
  show ?thesis
  proof (intro conjI)
    show "\<forall>k. sold_in iv' k \<le> max (cap k) (sold_in iv k) + forced_seats sold_status iv k (asked_of iv p)
           \<and> waiting_in iv' k \<le> max (waiting_in iv k) (waitlistFor iv (cap k)) + forced_seats waitlist_status iv k (asked_of iv p)"
      using d by blast
    show "\<forall>s \<in> set (asked_of iv p). map_of out (Key s) \<noteq> None" using answered_keys(2) [OF ss] by (simp add: out)
    show "\<forall>key code. map_of out key = Some code \<longrightarrow> (\<exists>s \<in> set (asked_of iv p). Key s = key
            \<and> (case forced iv s of Some f \<Rightarrow> code = f | None \<Rightarrow> code \<in> {''KK'', ''US'', ''UC'', ''UN''}))"
      using answered_keys(1) [OF ss] unfolding out fair_answer_def by blast
    have "sold_in iv' k = sold_in iv k + granted sold_status iv k ans" "waiting_in iv' k = waiting_in iv k + granted waitlist_status iv k ans" for k
      using d by blast+
    then show "distinct (map Key (asked_of iv p)) \<longrightarrow>
            (\<forall>k. sold_in iv' k = sold_in iv k + answered_seats sold_status out iv k (asked_of iv p)
               \<and> waiting_in iv' k = waiting_in iv k + answered_seats waitlist_status out iv k (asked_of iv p))"
      using eq by simp
  qed
qed

definition demo_inv :: inventory where
  "demo_inv = \<lparr>inv_Carrier = ''BA'', Capacity = Some (\<lambda>car fl date board. Some [(''Y'', 10)]), WaitlistCut = (\<lambda>n. n div 10),
     MinWaitlist = 2, ClosedClasses = [],
     Levels = Some (\<lambda>car fl date board cab. [\<lparr>lv_Class = ''Y'', Authorized = 10\<rparr>, \<lparr>lv_Class = ''M'', Authorized = 2\<rparr>,
       \<lparr>lv_Class = ''Q'', Authorized = 1\<rparr>]),
     Network = None, inv_sold = [], waitlisted = [], soldClass = [], classes = [], overrides = []\<rparr>"

definition ask :: "string \<Rightarrow> int \<Rightarrow> segment" where
  "ask cls n = (demo_seg 1 n)\<lparr>Class := cls, sg_Status := ''HN''\<rparr>"

definition sell :: "string \<Rightarrow> int \<Rightarrow> inventory \<Rightarrow> string \<times> inventory" where
  "sell cls n iv = (case inv_Decide (zero_pnr\<lparr>Segments := [ask cls n]\<rparr>) iv of (out, iv') \<Rightarrow> (snd (hd out), iv'))"

text \<open>Ten seats, two requests for six: the second is not confirmed; with the class forced to confirm, both are.\<close>

theorem decide_never_oversells_witness:
  "sold_in (snd (inv_Decide (zero_pnr\<lparr>Segments := [ask ''Y'' 6, ask ''M'' 6]\<rparr>) demo_inv)) ''BA/175/12AUG/LHR/Y'' \<le> 10
   \<and> (let iv = SetOverride ''BA'' ''175'' ''12AUG'' ''LHR'' ''M'' ''KK'' demo_inv in
      sold_in (snd (inv_Decide (zero_pnr\<lparr>Segments := [ask ''Y'' 6, ask ''M'' 6]\<rparr>) iv)) ''BA/175/12AUG/LHR/Y'' = 12)"
proof -
  let ?p = "zero_pnr\<lparr>Segments := [ask ''Y'' 6, ask ''M'' 6]\<rparr>" and ?iv = "SetOverride ''BA'' ''175'' ''12AUG'' ''LHR'' ''M'' ''KK'' demo_inv"
  have cap: "capacity_by_pool iv (\<lambda>k. 10)" if "Capacity iv = Capacity demo_inv" for iv
  proof -
    have "CompartmentFor cls [(''Y'', 10)] = ''Y''" for cls by (simp add: CompartmentFor_def Let_def)
    then show ?thesis using that by (auto simp: capacity_by_pool_def seg_cabin_def cabin_def demo_inv_def gm_get_def Let_def)
  qed
  have n: "\<forall>s \<in> set (Segments ?p). 0 \<le> Seats s" by (simp add: ask_def demo_seg_def)
  obtain out iv' where d: "inv_Decide ?p demo_inv = (out, iv')" by fastforce
  obtain out2 iv2 where d2: "inv_Decide ?p ?iv = (out2, iv2)" by fastforce
  have z: "sold_in demo_inv k = 0" "sold_in ?iv k = 0" "overrides demo_inv = []" for k by (simp_all add: demo_inv_def SetOverride_def)
  have "forced_seats sold_status demo_inv k ss = 0" for k ss by (simp add: forced_seats_def z)
  then have one: "sold_in iv' ''BA/175/12AUG/LHR/Y'' \<le> 10"
    using decide_never_oversells [OF d cap [OF refl] n, THEN conjunct1, THEN spec [of _ "''BA/175/12AUG/LHR/Y''"]] z(1) by simp
  have a: "distinct (map Key (asked_of ?iv ?p))" by code_simp
  have b: "answered_seats sold_status (fst (inv_Decide ?p ?iv)) ?iv ''BA/175/12AUG/LHR/Y'' (asked_of ?iv ?p) = 12" by code_simp
  have c: "Capacity ?iv = Capacity demo_inv" by (simp add: SetOverride_def)
  have "sold_in iv2 ''BA/175/12AUG/LHR/Y'' = 12"
    using decide_never_oversells [OF d2 cap [OF c] n, THEN conjunct2, THEN conjunct2, THEN conjunct2, THEN mp, OF a,
        THEN spec [of _ "''BA/175/12AUG/LHR/Y''"], THEN conjunct1] b [unfolded d2 fst_conv] z(2) by (metis add_0)
  then show ?thesis using one unfolding d d2 Let_def by simp
qed

section \<open>The broadcast and the answer agree\<close>

text \<open>
  C32: what is advertised is what is granted. When the inventory would broadcast a seat count for a
  class on a flight, a request for at least one seat in that class on that flight, answered without
  network control, is confirmed exactly when it asks for no more than the advertised count; and
  when the broadcast says open, the count is positive.
\<close>

theorem availability_agrees_with_decide:
  assumes "avail_one iv t wire k = Some e" "SeatsKnown e" "1 \<le> Seats s"
    and "Carrier s = k_Carrier k" "FlightNum s = k_FlightNum k" "WireDate s = wire" "Board s = k_Board k" "Class s = k_Class k"
  shows "(fst (decide_one (ladderFor iv (Carrier s) (FlightNum s) (WireDate s) (Board s) (Class s)) False s iv) = ''KK''
            \<longleftrightarrow> Seats s \<le> e_Seats e)
       \<and> (e_Status e = Open \<longrightarrow> 0 < e_Seats e)"
proof -
  let ?l = "ladderFor iv (k_Carrier k) (k_FlightNum k) wire (k_Board k) (k_Class k)"
  from assms(1,2) have h: "k_Class k \<notin> set (ClosedClasses iv)"
    "map_of (overrides iv) (classKey (k_Carrier k) (k_FlightNum k) wire (k_Board k) (k_Class k)) = None"
    by (auto simp: avail_one_def Let_def split: if_splits option.splits)
  with assms(1) obtain key cab seats where c: "cabin iv (k_Carrier k) (k_FlightNum k) wire (k_Board k) (k_Class k) = Some (key, cab, seats)"
    by (auto simp: avail_one_def Let_def split: if_splits option.splits)
  define left where "left = seats - sold_in iv key"
  define opn where "opn = classOpen iv ?l key (k_Class k)"
  have e: "e_Seats e = max (if opn \<ge> 0 \<and> opn < left then opn else left) 0"
    "e_Status e = Open \<longrightarrow> (if opn \<ge> 0 \<and> opn < left then opn else left) > 0"
    using assms(1) h c by (auto simp: avail_one_def Let_def left_def opn_def split: if_splits)
  have "fst (decide_one ?l False s iv) = ''KK'' \<longleftrightarrow> Seats s \<le> left \<and> \<not> (opn \<ge> 0 \<and> Seats s > opn)"
    using h c assms(4-8) by (auto simp: decide_one_def seg_cabin_def left_def opn_def Let_def)
  also have "\<dots> \<longleftrightarrow> Seats s \<le> e_Seats e" unfolding e(1) using assms(3) by auto
  finally show ?thesis using e assms(4-8) by auto
qed

definition demo_akey :: "string \<Rightarrow> avail_key" where
  "demo_akey cls = \<lparr>k_Carrier = ''BA'', k_FlightNum = ''175'', k_Date = ''2026-08-12'', k_Board = ''LHR'', k_Off = ''JFK'', k_Class = cls\<rparr>"

lemma demo_classOpen: "classOpen demo_inv (ladderFor demo_inv ''BA'' ''175'' ''12AUG'' ''LHR'' ''M'') key ''M'' = 2"
proof -
  have "EqualFold ''Y'' ''M'' = False" "EqualFold ''M'' ''M''" "EqualFold ''Q'' ''M'' = False" by code_simp+
  then show ?thesis
    by (simp add: classOpen_def ladderFor_def demo_inv_def cabin_def Let_def CompartmentFor_def)
qed

theorem availability_agrees_with_decide_witness:
  "\<exists>e. avail_one demo_inv 1 ''12AUG'' (demo_akey ''M'') = Some e \<and> e_Seats e = 2
     \<and> fst (decide_one (ladderFor demo_inv ''BA'' ''175'' ''12AUG'' ''LHR'' ''M'') False (ask ''M'' 2) demo_inv) = ''KK''"
proof -
  have c: "cabin demo_inv ''BA'' ''175'' ''12AUG'' ''LHR'' ''M'' = Some (poolKey ''BA'' ''175'' ''12AUG'' ''LHR'' ''Y'', ''Y'', 10)"
    by (simp add: cabin_def demo_inv_def CompartmentFor_def Let_def gm_get_def)
  have o: "overrides demo_inv = []" "ClosedClasses demo_inv = []" "inv_Carrier demo_inv = ''BA''" "inv_sold demo_inv = []"
    by (simp_all add: demo_inv_def)
  obtain e where e: "avail_one demo_inv 1 ''12AUG'' (demo_akey ''M'') = Some e" "e_Seats e = 2" "SeatsKnown e"
    by (simp add: avail_one_def demo_akey_def c o demo_classOpen Let_def)
  from availability_agrees_with_decide [OF e(1,3), of "ask ''M'' 2"] e show ?thesis
    by (simp add: ask_def demo_seg_def demo_akey_def)
qed

section \<open>Class counts\<close>

lemma takeWhile_rev_sep: "c \<notin> set x \<Longrightarrow> takeWhile (\<lambda>d. d \<noteq> c) (rev x @ c # r) = rev x"
  by (subst takeWhile_append2) auto

lemma last_sep_inj:
  assumes "p @ c # x = q @ c # y" "c \<notin> set x" "c \<notin> set y"
  shows "p = q \<and> x = y"
proof -
  have "takeWhile (\<lambda>d. d \<noteq> c) (rev x @ c # rev p) = rev x" "takeWhile (\<lambda>d. d \<noteq> c) (rev y @ c # rev q) = rev y"
    using takeWhile_rev_sep [OF assms(2)] takeWhile_rev_sep [OF assms(3)] by blast+
  moreover have "rev x @ c # rev p = rev y @ c # rev q" using arg_cong [OF assms(1), of rev] by simp
  ultimately show ?thesis by (metis append_same_eq list.inject rev_rev_ident same_append_eq)
qed

abbreviation class_sold :: "inventory \<Rightarrow> string \<Rightarrow> string \<Rightarrow> int" where
  "class_sold iv pool cls \<equiv> gm_get 0 (soldClass iv) (pool @ ''/'' @ cls)"

definition index_ok :: "inventory \<Rightarrow> bool" where
  "index_ok iv \<longleftrightarrow>
     (\<forall>pool cls. CHR ''/'' \<notin> set cls \<longrightarrow>
        0 \<le> class_sold iv pool cls \<and> gm_get 0 (gm_get [] (classes iv) pool) cls = class_sold iv pool cls)
   \<and> (\<forall>pool. gm_wf (gm_get [] (classes iv) pool) \<and> (\<forall>x \<in> set (gm_get [] (classes iv) pool). 0 < snd x \<and> CHR ''/'' \<notin> set (fst x)))"

lemma in_gm_put: "x \<in> set (gm_put k v m) \<Longrightarrow> x = (k, v) \<or> x \<in> set m"
  by (induction m) (auto simp: gm_put_def split: if_splits)

lemma in_gm_del: "x \<in> set (gm_del k m) \<Longrightarrow> x \<in> set m"
  by (induction m) (auto simp: gm_del_def split: if_splits)

lemma addClass_maps:
  assumes "n = max 0 (class_sold iv pool cls + d)"
  shows "gm_get 0 (soldClass (addClass pool cls d iv)) ck = (if ck = pool @ ''/'' @ cls then n else gm_get 0 (soldClass iv) ck)"
    "gm_get [] (classes (addClass pool cls d iv)) q =
       (if q = pool then (if n = 0 then gm_del cls (gm_get [] (classes iv) pool) else gm_put cls n (gm_get [] (classes iv) pool))
        else gm_get [] (classes iv) q)"
proof -
  show "gm_get 0 (soldClass (addClass pool cls d iv)) ck = (if ck = pool @ ''/'' @ cls then n else gm_get 0 (soldClass iv) ck)"
    unfolding addClass_def Let_def using assms by (cases "map_of (classes iv) pool") auto
  show "gm_get [] (classes (addClass pool cls d iv)) q =
       (if q = pool then (if n = 0 then gm_del cls (gm_get [] (classes iv) pool) else gm_put cls n (gm_get [] (classes iv) pool))
        else gm_get [] (classes iv) q)"
  proof (cases "map_of (classes iv) pool")
    case None
    then have "gm_get [] (classes iv) pool = []" by (simp add: gm_get_def)
    then show ?thesis using None assms unfolding addClass_def Let_def by (auto simp: gm_del_def gm_get_def)
  next
    case (Some m)
    then have "gm_get [] (classes iv) pool = m" by (simp add: gm_get_def)
    then show ?thesis using Some assms unfolding addClass_def Let_def by (auto simp: gm_get_def)
  qed
qed

lemma index_ok_addClass:
  assumes "index_ok iv" "CHR ''/'' \<notin> set cls"
  shows "index_ok (addClass pool cls d iv)"
proof -
  define n where "n = max 0 (class_sold iv pool cls + d)"
  note m = addClass_maps [OF n_def]
  have old: "gm_wf (gm_get [] (classes iv) q)" "\<forall>x \<in> set (gm_get [] (classes iv) q). 0 < snd x \<and> CHR ''/'' \<notin> set (fst x)" for q
    using assms(1) by (simp_all add: index_ok_def)
  have "0 \<le> class_sold (addClass pool cls d iv) q c \<and>
      gm_get 0 (gm_get [] (classes (addClass pool cls d iv)) q) c = class_sold (addClass pool cls d iv) q c"
    if c: "CHR ''/'' \<notin> set c" for q c
  proof -
    have "q @ ''/'' @ c = pool @ ''/'' @ cls \<longleftrightarrow> q = pool \<and> c = cls"
      using last_sep_inj [of q "CHR ''/''" c pool cls] c assms(2) by auto
    moreover have "0 \<le> n" by (simp add: n_def)
    moreover have "0 \<le> class_sold iv q c \<and> gm_get 0 (gm_get [] (classes iv) q) c = class_sold iv q c"
      using assms(1) c unfolding index_ok_def by blast
    ultimately show ?thesis unfolding m by auto
  qed
  moreover have "gm_wf (gm_get [] (classes (addClass pool cls d iv)) q)
      \<and> (\<forall>x \<in> set (gm_get [] (classes (addClass pool cls d iv)) q). 0 < snd x \<and> CHR ''/'' \<notin> set (fst x))" for q
  proof -
    have pos: "n \<noteq> 0 \<Longrightarrow> 0 < n" by (simp add: n_def)
    have "x \<in> set (gm_put cls n (gm_get [] (classes iv) pool)) \<Longrightarrow> n \<noteq> 0 \<Longrightarrow> 0 < snd x \<and> CHR ''/'' \<notin> set (fst x)" for x
      using in_gm_put [of x] old(2) [of pool] pos assms(2) by fastforce
    moreover have "x \<in> set (gm_del cls (gm_get [] (classes iv) pool)) \<Longrightarrow> 0 < snd x \<and> CHR ''/'' \<notin> set (fst x)" for x
      using in_gm_del [of x] old(2) [of pool] by blast
    ultimately show ?thesis unfolding m using old by (auto simp: gm_wf_put gm_wf_del)
  qed
  ultimately show ?thesis unfolding index_ok_def by blast
qed

lemma index_ok_waitlisted: "index_ok (count_waitlisted key s iv) = index_ok iv"
  by (simp add: index_ok_def count_waitlisted_def)

definition plain_class :: "segment \<Rightarrow> bool" where
  "plain_class s \<longleftrightarrow> CHR ''/'' \<notin> set (ToUpper (Class s))"

lemma index_ok_count_sold: "index_ok iv \<Longrightarrow> plain_class s \<Longrightarrow> index_ok (count_sold key s iv)"
  unfolding count_sold_def plain_class_def by (intro index_ok_addClass) (simp_all add: index_ok_def)

lemma index_ok_commit: "index_ok iv \<Longrightarrow> plain_class s \<Longrightarrow> index_ok (commit s st iv)"
  by (simp add: commit_def Let_def index_ok_count_sold index_ok_waitlisted)

lemma index_ok_decide_one:
  "index_ok iv \<Longrightarrow> plain_class s \<Longrightarrow> index_ok (snd (decide_one ladder disp s iv))"
  by (simp add: decide_one_def Let_def index_ok_commit index_ok_count_sold index_ok_waitlisted
      split: option.split)

lemma index_ok_decide_loop:
  "index_ok iv \<Longrightarrow> \<forall>s \<in> set ss. plain_class s \<Longrightarrow> index_ok (snd (decide_loop ladders disp ss iv))"
proof (induction ss arbitrary: iv)
  case (Cons s ss)
  then show ?case using index_ok_decide_one [OF Cons.prems(1), of s "gm_get [] ladders (Key s)" disp]
    by (simp add: case_prod_beta Let_def)
qed simp

datatype inv_op = DoDecide pnr | DoSeed segment | DoRelease segment string | DoReset
  | DoOverride string string string string string string

fun inv_apply :: "inv_op \<Rightarrow> inventory \<Rightarrow> inventory" where
  "inv_apply (DoDecide p) iv = snd (inv_Decide p iv)"
| "inv_apply (DoSeed s) iv = Seed s iv"
| "inv_apply (DoRelease s was) iv = inv_Release s was iv"
| "inv_apply DoReset iv = Reset iv"
| "inv_apply (DoOverride car fl date board cls st) iv = SetOverride car fl date board cls st iv"

fun plain_op :: "inv_op \<Rightarrow> bool" where
  "plain_op (DoDecide p) \<longleftrightarrow> (\<forall>s \<in> set (Segments p). plain_class s)"
| "plain_op (DoSeed s) \<longleftrightarrow> plain_class s"
| "plain_op (DoRelease s was) \<longleftrightarrow> plain_class s"
| "plain_op DoReset \<longleftrightarrow> True"
| "plain_op (DoOverride car fl date board cls st) \<longleftrightarrow> True"

lemma index_ok_apply: "index_ok iv \<Longrightarrow> plain_op x \<Longrightarrow> index_ok (inv_apply x iv)"
proof (cases x)
  case (DoDecide p)
  assume "index_ok iv" "plain_op x"
  then show ?thesis using DoDecide by (simp add: inv_Decide_def decide_run_def Let_def case_prod_beta asked_of_def index_ok_decide_loop)
next
  case (DoRelease s was)
  assume i: "index_ok iv" "plain_op x"
  have "index_ok (iv\<lparr>inv_sold := m\<rparr>)" "index_ok (iv\<lparr>waitlisted := m\<rparr>)" for m using i(1) by (simp_all add: index_ok_def)
  then show ?thesis using DoRelease i by (simp add: inv_Release_def Let_def index_ok_addClass plain_class_def)
next
  case DoReset
  then show ?thesis by (simp add: Reset_def index_ok_def)
next
  case (DoOverride car fl date board cls st)
  assume "index_ok iv" then show ?thesis using DoOverride by (simp add: SetOverride_def index_ok_def)
next
  case (DoSeed s)
  assume "index_ok iv" "plain_op x" then show ?thesis using DoSeed by (simp add: Seed_def index_ok_commit)
qed

lemma index_ok_run: "index_ok iv \<Longrightarrow> \<forall>x \<in> set xs. plain_op x \<Longrightarrow> index_ok (fold inv_apply xs iv)"
  by (induction xs arbitrary: iv) (simp_all add: index_ok_apply)

lemma by_class_fold:
  fixes m :: "(string \<times> int) list"
  assumes "gm_wf m" "\<forall>x \<in> set m. 0 < snd x" "\<forall>x \<in> set m. map_of out (fst x) = None"
  shows "map_of (fold (\<lambda>(c, n) out. if n > 0 then gm_put c (gm_get 0 out c + n) out else out) m out) c =
     (case map_of m c of Some n \<Rightarrow> Some n | None \<Rightarrow> map_of out c)"
  using assms
proof (induction m arbitrary: out)
  case (Cons x m)
  obtain d n where x: "x = (d, n)" by (cases x)
  have n: "0 < n" "map_of out d = None" "map_of m d = None"
    using Cons.prems x by (auto simp: gm_wf_def map_of_eq_None_iff)
  have "gm_get 0 out d = 0" using n(2) by (simp add: gm_get_def)
  moreover have "\<forall>x \<in> set m. map_of (gm_put d n out) (fst x) = None" using Cons.prems x by (auto simp: gm_wf_def)
  ultimately show ?case using Cons.IH [of "gm_put d n out"] Cons.prems x n by (auto simp: gm_wf_def split: option.split)
qed simp

text \<open>
  The per-class report never drifts from the counts. After any sequence of decisions, seeds,
  releases, resets and overrides on an inventory that started empty (class letters having no
  slash), every class count is non-negative, and \<open>SoldByClass\<close> reports exactly the classes of the
  cabin with something sold, each with its count.
\<close>

theorem sold_by_class_exact:
  assumes "soldClass iv = []" "classes iv = []" "\<forall>x \<in> set xs. plain_op x" "CHR ''/'' \<notin> set c"
  shows "let iv' = fold inv_apply xs iv; n = class_sold iv' (poolKey car fl date board cab) c in
     0 \<le> n \<and> map_of (SoldByClass iv' car fl date board cab) c = (if n = 0 then None else Some n)"
proof -
  define iv' where "iv' = fold inv_apply xs iv"
  define pool where "pool = poolKey car fl date board cab"
  define m where "m = gm_get [] (classes iv') pool"
  have "index_ok iv" using assms(1,2) by (simp add: index_ok_def)
  then have ok: "index_ok iv'" unfolding iv'_def using assms(3) by (rule index_ok_run)
  then have n: "0 \<le> class_sold iv' pool c" "gm_get 0 m c = class_sold iv' pool c" and g: "gm_wf m" "\<forall>x \<in> set m. 0 < snd x"
    using assms(4) unfolding index_ok_def m_def by blast+
  have "map_of (SoldByClass iv' car fl date board cab) c = map_of m c"
    unfolding SoldByClass_def pool_def [symmetric] m_def [symmetric]
    by (subst by_class_fold [OF g]) (simp_all split: option.split)
  moreover have "map_of m c = (if class_sold iv' pool c = 0 then None else Some (class_sold iv' pool c))"
  proof (cases "map_of m c")
    case (Some v)
    then have "0 < v" using g(2) map_of_SomeD [OF Some] by fastforce
    then show ?thesis using Some n(2) by (simp add: gm_get_def [of _ m])
  qed (use n(2) in \<open>simp add: gm_get_def [of _ m]\<close>)
  ultimately show ?thesis using n(1) by (simp add: iv'_def pool_def Let_def)
qed

theorem sold_by_class_exact_witness:
  "let iv' = fold inv_apply [DoDecide (zero_pnr\<lparr>Segments := [ask ''M'' 2]\<rparr>), DoReset] demo_inv;
       n = class_sold iv' (poolKey ''BA'' ''175'' ''12AUG'' ''LHR'' ''Y'') ''M'' in
     0 \<le> n \<and> map_of (SoldByClass iv' ''BA'' ''175'' ''12AUG'' ''LHR'' ''Y'') ''M'' = (if n = 0 then None else Some n)"
proof (rule sold_by_class_exact)
  have "ToUpper ''M'' = ''M''" by code_simp
  then show "\<forall>x \<in> set [DoDecide (zero_pnr\<lparr>Segments := [ask ''M'' 2]\<rparr>), DoReset]. plain_op x"
    by (simp add: plain_class_def ask_def demo_seg_def)
qed (simp_all add: demo_inv_def)

section \<open>Release\<close>

text \<open>
  Releasing a sale undoes it. When a request is confirmed and the segment is later released as
  KK with nothing in between, every pool's sold count, every class count and every waitlist is what
  it was before the sale.
\<close>

theorem release_undoes_sale:
  assumes "decide_one ladder disp s iv = (''KK'', iv')" "overrides iv = []" "mine iv s" "0 \<le> Seats s"
    and "0 \<le> sold_in iv (seg_pool iv s)" "0 \<le> class_sold iv (seg_pool iv s) (ToUpper (Class s))"
  shows "sold_in (inv_Release s ''KK'' iv') k = sold_in iv k
       \<and> gm_get 0 (soldClass (inv_Release s ''KK'' iv')) ck = gm_get 0 (soldClass iv) ck
       \<and> waiting_in (inv_Release s ''KK'' iv') k = waiting_in iv k"
proof -
  have "forced iv s = None" using assms(2) by simp
  with assms(1) obtain key cab seats where c: "seg_cabin iv s = Some (key, cab, seats)" "iv' = count_sold key s iv"
    by (cases rule: decide_one_cases) auto
  have key: "seg_pool iv s = key" using c(1) by (simp add: seg_pool_def)
  have su: "same_setup iv' iv" by (simp add: c(2))
  have pool: "seg_pool iv' s = key" using seg_pool_setup [OF su] key by simp
  have mine: "mine iv' s" using su assms(3) by (simp add: mine_def same_setup_def)
  let ?cls = "ToUpper (Class s)"
  have cs: "gm_get 0 (soldClass iv') x = gm_get 0 (soldClass iv) x + (if x = key @ ''/'' @ ?cls then Seats s else 0)" for x
    unfolding c(2) count_sold_def by (subst addClass_maps(1) [OF refl]) (use assms(4,6) key in auto)
  let ?mid = "iv'\<lparr>inv_sold := gm_put key (max 0 (sold_in iv' key - Seats s)) (inv_sold iv')\<rparr>"
  have rel: "inv_Release s ''KK'' iv' = addClass key ?cls (- Seats s) ?mid"
    using mine pool by (simp add: inv_Release_def sold_status_def Let_def)
  have si: "sold_in iv' x = sold_in iv x + (if x = key then Seats s else 0)" "waiting_in iv' x = waiting_in iv x" for x
    by (simp_all add: c(2))
  have "sold_in (inv_Release s ''KK'' iv') k = sold_in iv k" unfolding rel using assms(5) key si by simp
  moreover have "waiting_in (inv_Release s ''KK'' iv') k = waiting_in iv k" unfolding rel using si by simp
  moreover have "gm_get 0 (soldClass (inv_Release s ''KK'' iv')) ck = gm_get 0 (soldClass iv) ck"
    unfolding rel by (subst addClass_maps(1) [OF refl]) (use assms(6) key cs in auto)
  ultimately show ?thesis by blast
qed

lemma demo_sale: "decide_one [] False (ask ''M'' 2) demo_inv =
    (''KK'', count_sold (poolKey ''BA'' ''175'' ''12AUG'' ''LHR'' ''Y'') (ask ''M'' 2) demo_inv)"
  by (simp add: decide_one_def demo_inv_def ask_def demo_seg_def seg_cabin_def cabin_def CompartmentFor_def classOpen_def Let_def
      gm_get_def)

theorem release_undoes_sale_witness:
  "sold_in (inv_Release (ask ''M'' 2) ''KK'' (snd (decide_one [] False (ask ''M'' 2) demo_inv))) ''BA/175/12AUG/LHR/Y'' = 0"
proof -
  have "mine demo_inv (ask ''M'' 2)" "overrides demo_inv = []" "inv_sold demo_inv = []" "soldClass demo_inv = []"
    "0 \<le> Seats (ask ''M'' 2)"
    by (simp_all add: mine_def demo_inv_def ask_def demo_seg_def SegmentAir_def)
  with release_undoes_sale [OF demo_sale] show ?thesis by (simp add: demo_sale)
qed

section \<open>A closed class that reopens\<close>

text \<open>
  Selling a lower class can reopen a class the ladder has closed. With ten seats in the cabin,
  class M authorised for two and class Q beneath it for one: after two sold in M, a request for M
  is refused; after one more is sold in Q, so that M is oversold against its authorisation, the
  same request is confirmed, because a negative remainder is taken for the absence of a ladder.
\<close>

theorem ladder_overrun_reopens:
  "fst (sell ''M'' 1 (snd (sell ''M'' 2 demo_inv))) = ''UC''
   \<and> fst (sell ''M'' 1 (snd (sell ''Q'' 1 (snd (sell ''M'' 2 demo_inv))))) = ''KK''"
  by code_simp

end
