(* ===== verification/Edifact.thy ===== *)
theory Edifact
  imports Jetway_Prelude
begin

text \<open>
  The EDIFACT syntax layer, ISO 9735 (\<open>src/pkg/edifact/syntax.go\<close>, \<open>scan.go\<close>, \<open>encode.go\<close>,
  \<open>charset.go\<close>): service characters, the tolerant scanner, and the segment encoder. A raw input is
  a \<open>string\<close> of bytes. A diagnostic keeps its severity, offset, segment number and code; its
  free-text detail is left out. The scanner's variables are a record, its loop over positions a
  recursion over the bytes that are left.
\<close>

section \<open>Service characters\<close>

record ed_syntax =
  ComponentSep :: char
  ElementSep :: char
  DecimalMark :: char
  ReleaseChar :: char
  RepetitionSep :: char
  SegmentTerm :: char
  sy_Version :: int
  RepetitionEnabled :: bool

definition DefaultSyntax :: "int \<Rightarrow> ed_syntax" where
  "DefaultSyntax version =
     \<lparr>ComponentSep = CHR '':'', ElementSep = CHR ''+'', DecimalMark = CHR ''.'', ReleaseChar = CHR ''?'',
      RepetitionSep = CHR ''*'', SegmentTerm = CHR 0x27, sy_Version = version, RepetitionEnabled = (version \<ge> 4)\<rparr>"

definition isService :: "ed_syntax \<Rightarrow> char \<Rightarrow> bool" where
  "isService s b =
     (if b = ComponentSep s \<or> b = ElementSep s \<or> b = SegmentTerm s \<or> b = ReleaseChar s then True
      else RepetitionEnabled s \<and> b = RepetitionSep s)"

definition is_alnum :: "char \<Rightarrow> bool" where
  "is_alnum b \<longleftrightarrow> is_upper b \<or> is_lower b \<or> is_digit b"

definition validServiceChar :: "char \<Rightarrow> bool" where
  "validServiceChar b =
     (if of_char b \<le> (0x20 :: nat) \<or> of_char b > (0x7E :: nat) then False else \<not> is_alnum b)"

datatype ed_error = BadDecimalMark | UnsetServiceChar | UnusableServiceChar char | DuplicateServiceChar char
  | ErrNoSegments | OutsideRepertoire | NeedsControlRef | NeedsAction | NotACONTRL | NoUCI

fun check_service :: "char list \<Rightarrow> char list \<Rightarrow> ed_error option" where
  "check_service seen [] = None"
| "check_service seen (b # bs) =
     (if b = CHR 0x00 then Some UnsetServiceChar
      else if \<not> validServiceChar b then Some (UnusableServiceChar b)
      else if b \<in> set seen then Some (DuplicateServiceChar b)
      else check_service (b # seen) bs)"

text \<open>\<open>None\<close> is the nil error.\<close>

definition ed_Validate :: "ed_syntax \<Rightarrow> ed_error option" where
  "ed_Validate s =
     (if DecimalMark s \<noteq> CHR ''.'' \<and> DecimalMark s \<noteq> CHR '','' then Some BadDecimalMark
      else let four = [ComponentSep s, ElementSep s, ReleaseChar s, SegmentTerm s] in
           case check_service [] four of
             Some e \<Rightarrow> Some e
           | None \<Rightarrow>
               if RepetitionEnabled s
               then if \<not> validServiceChar (RepetitionSep s) then Some (UnusableServiceChar (RepetitionSep s))
                    else if RepetitionSep s \<in> set four then Some (DuplicateServiceChar (RepetitionSep s))
                    else None
               else None)"

definition UNAString :: "ed_syntax \<Rightarrow> string" where
  "UNAString s = ''UNA'' @ [ComponentSep s, ElementSep s, DecimalMark s, ReleaseChar s,
     (if RepetitionEnabled s then RepetitionSep s else CHR '' ''), SegmentTerm s]"

definition MaxSyntaxVersion :: int where "MaxSyntaxVersion = 4"

definition IsDefault :: "ed_syntax \<Rightarrow> bool" where
  "IsDefault s =
     (let d = DefaultSyntax 3 in
      if ComponentSep s \<noteq> ComponentSep d \<or> ElementSep s \<noteq> ElementSep d \<or> DecimalMark s \<noteq> DecimalMark d
         \<or> ReleaseChar s \<noteq> ReleaseChar d \<or> SegmentTerm s \<noteq> SegmentTerm d then False
      else if RepetitionEnabled s \<and> RepetitionSep s \<noteq> RepetitionSep d then False
      else RepetitionEnabled s = (sy_Version s \<ge> 4))"

section \<open>Segments\<close>

type_synonym composite = "string list"
type_synonym element = "composite list"

record ed_segment =
  Tag :: string
  Elements :: "element list"
  sg_Offset :: nat
  sg_Index :: nat

definition zero_segment :: ed_segment where
  "zero_segment = \<lparr>Tag = '''', Elements = [], sg_Offset = 0, sg_Index = 0\<rparr>"

definition comp_Get :: "composite \<Rightarrow> nat \<Rightarrow> string" where
  "comp_Get c i = (if i < length c then c ! i else '''')"

definition elem_First :: "element \<Rightarrow> composite" where
  "elem_First e = (case e of [] \<Rightarrow> [] | c # _ \<Rightarrow> c)"

definition elem_Get :: "element \<Rightarrow> nat \<Rightarrow> string" where
  "elem_Get e i = comp_Get (elem_First e) i"

definition elem_Value :: "element \<Rightarrow> string" where
  "elem_Value e = elem_Get e 0"

definition seg_Elem :: "ed_segment \<Rightarrow> nat \<Rightarrow> element" where
  "seg_Elem s i = (if i < length (Elements s) then Elements s ! i else [])"

definition seg_Get :: "ed_segment \<Rightarrow> nat \<Rightarrow> nat \<Rightarrow> string" where
  "seg_Get s e c = elem_Get (seg_Elem s e) c"

definition seg_Value :: "ed_segment \<Rightarrow> nat \<Rightarrow> string" where
  "seg_Value s i = elem_Get (seg_Elem s i) 0"

section \<open>The scanner\<close>

datatype ed_severity = Info | Warn | Error

record ed_diagnostic =
  ed_Severity :: ed_severity
  ed_Offset :: nat
  ed_SegNo :: int
  ed_Code :: string

definition mk_diag :: "ed_severity \<Rightarrow> nat \<Rightarrow> int \<Rightarrow> string \<Rightarrow> ed_diagnostic" where
  "mk_diag sev off seg code = \<lparr>ed_Severity = sev, ed_Offset = off, ed_SegNo = seg, ed_Code = code\<rparr>"

record scan_options =
  so_Syntax :: "ed_syntax option"
  PreserveLineBreaks :: bool
  MaxSegments :: int

definition DefaultMaxSegments :: nat where "DefaultMaxSegments = 500000"

definition maxSeg :: "scan_options \<Rightarrow> nat" where
  "maxSeg opts = (if MaxSegments opts \<le> 0 then DefaultMaxSegments else nat (MaxSegments opts))"

definition validTag :: "string \<Rightarrow> bool" where
  "validTag t = (if length t \<noteq> 3 then False else if \<not> list_all is_alnum t then False else t \<noteq> ''UNA'' \<and> t \<noteq> ''una'')"

definition is_nl :: "char \<Rightarrow> bool" where
  "is_nl b \<longleftrightarrow> b = CHR 0x0D \<or> b = CHR 0x0A"

definition is_lead :: "char \<Rightarrow> bool" where
  "is_lead b \<longleftrightarrow> b = CHR '' '' \<or> b = CHR 0x0D \<or> b = CHR 0x0A \<or> b = CHR 0x09"

text \<open>The syntax a service string advice at the head of the input gives, and what follows it.\<close>

definition read_una :: "string \<Rightarrow> (ed_syntax \<times> string) option" where
  "read_una raw =
     (if length raw \<ge> 9 \<and> take 3 raw = ''UNA''
      then let rep = raw ! 7;
               syn = (DefaultSyntax 3)\<lparr>ComponentSep := raw ! 3, ElementSep := raw ! 4, DecimalMark := raw ! 5,
                        ReleaseChar := raw ! 6, SegmentTerm := raw ! 8,
                        RepetitionSep := (if rep = CHR '' '' then RepetitionSep (DefaultSyntax 3) else rep),
                        RepetitionEnabled := (rep \<noteq> CHR '' '')\<rparr>
           in Some (syn, drop 9 raw)
      else None)"

record scan_state =
  sc_segments :: "ed_segment list"
  sc_comps :: composite
  sc_reps :: element
  sc_elems :: "element list"
  sc_buf :: string
  sc_released :: bool
  sc_started :: bool
  sc_segStart :: nat
  sc_truncated :: bool
  sc_diags :: "ed_diagnostic list"

text \<open>The code's \<open>segIndex\<close> counts the segments kept so far.\<close>

definition segIndex :: "scan_state \<Rightarrow> nat" where
  "segIndex st = length (sc_segments st)"

definition adddiag :: "ed_severity \<Rightarrow> nat \<Rightarrow> string \<Rightarrow> scan_state \<Rightarrow> scan_state" where
  "adddiag sev off code st = st\<lparr>sc_diags := sc_diags st @ [mk_diag sev off (int (segIndex st)) code]\<rparr>"

definition flushComponent :: "scan_state \<Rightarrow> scan_state" where
  "flushComponent st = st\<lparr>sc_comps := sc_comps st @ [sc_buf st], sc_buf := ''''\<rparr>"

definition flushRepetition :: "scan_state \<Rightarrow> scan_state" where
  "flushRepetition st = (let st = flushComponent st in st\<lparr>sc_reps := sc_reps st @ [sc_comps st], sc_comps := []\<rparr>)"

definition flushElement :: "scan_state \<Rightarrow> scan_state" where
  "flushElement st = (let st = flushRepetition st in st\<lparr>sc_elems := sc_elems st @ [sc_reps st], sc_reps := []\<rparr>)"

definition elems_tag :: "element list \<Rightarrow> string" where
  "elems_tag es = (case es of [] \<Rightarrow> '''' | e # _ \<Rightarrow> elem_Value e)"

definition new_segment :: "scan_state \<Rightarrow> ed_segment" where
  "new_segment st = \<lparr>Tag = elems_tag (sc_elems st), Elements = tl (sc_elems st), sg_Offset = sc_segStart st, sg_Index = segIndex st\<rparr>"

definition line_break :: "nat \<Rightarrow> scan_state \<Rightarrow> scan_state" where
  "line_break pos st =
     (if sc_released st then (adddiag Warn pos ''stray_release'' st)\<lparr>sc_released := False\<rparr>
      else if sc_started st then adddiag Info pos ''linebreak_in_segment'' st
      else st)"

definition released_byte :: "ed_syntax \<Rightarrow> nat \<Rightarrow> char \<Rightarrow> scan_state \<Rightarrow> scan_state" where
  "released_byte syn pos b st =
     (let st = (if \<not> isService syn b then adddiag Warn pos ''stray_release'' st else st)
      in st\<lparr>sc_buf := sc_buf st @ [b], sc_released := False, sc_started := True\<rparr>)"

definition end_segment :: "nat \<Rightarrow> nat \<Rightarrow> scan_state \<Rightarrow> scan_state" where
  "end_segment mx pos st0 =
     (let st1 = flushElement st0;
          st2 = (if \<not> validTag (elems_tag (sc_elems st1)) then adddiag Error (sc_segStart st1) ''invalid_tag'' st1
                 else st1\<lparr>sc_segments := sc_segments st1 @ [new_segment st1]\<rparr>);
          st3 = st2\<lparr>sc_elems := [], sc_started := False\<rparr>
      in if length (sc_segments st3) \<ge> mx then (adddiag Error pos ''segment_limit'' st3)\<lparr>sc_truncated := True\<rparr> else st3)"

text \<open>One byte that is neither a dropped line break nor released; not the segment terminator.\<close>

definition plain_byte :: "ed_syntax \<Rightarrow> char \<Rightarrow> scan_state \<Rightarrow> scan_state" where
  "plain_byte syn b st =
     (if b = ReleaseChar syn then st\<lparr>sc_released := True, sc_started := True\<rparr>
      else if b = ComponentSep syn then (flushComponent st)\<lparr>sc_started := True\<rparr>
      else if b = ElementSep syn then (flushElement st)\<lparr>sc_started := True\<rparr>
      else if RepetitionEnabled syn \<and> b = RepetitionSep syn then (flushRepetition st)\<lparr>sc_started := True\<rparr>
      else st\<lparr>sc_buf := sc_buf st @ [b], sc_started := True\<rparr>)"

text \<open>The byte that ends a segment: the cases before it in the switch do not apply.\<close>

definition is_term :: "ed_syntax \<Rightarrow> char \<Rightarrow> bool" where
  "is_term syn b \<longleftrightarrow> b = SegmentTerm syn \<and> b \<noteq> ReleaseChar syn \<and> b \<noteq> ComponentSep syn \<and> b \<noteq> ElementSep syn
     \<and> \<not> (RepetitionEnabled syn \<and> b = RepetitionSep syn)"

function scan_loop :: "bool \<Rightarrow> nat \<Rightarrow> ed_syntax \<Rightarrow> nat \<Rightarrow> string \<Rightarrow> scan_state \<Rightarrow> scan_state" where
  "scan_loop preserve mx syn pos [] st = st"
| "scan_loop preserve mx syn pos (b # rest) st =
     (if is_nl b \<and> \<not> preserve then scan_loop preserve mx syn (pos + 1) rest (line_break pos st)
      else if sc_released st then scan_loop preserve mx syn (pos + 1) rest (released_byte syn pos b st)
      else if is_term syn b
      then let k = length (takeWhile is_nl rest);
               st' = (end_segment mx pos st)\<lparr>sc_segStart := pos + k + 1\<rparr>
           in if sc_truncated st' then st' else scan_loop preserve mx syn (pos + k + 1) (drop k rest) st'
      else scan_loop preserve mx syn (pos + 1) rest (plain_byte syn b st))"
  by pat_completeness auto
termination
  by (relation "measure (\<lambda>(p, mx, syn, pos, raw, st). length raw)") auto

declare scan_loop.simps [simp del]

definition init_state :: "nat \<Rightarrow> ed_diagnostic list \<Rightarrow> scan_state" where
  "init_state pos ds = \<lparr>sc_segments = [], sc_comps = [], sc_reps = [], sc_elems = [], sc_buf = '''', sc_released = False,
     sc_started = False, sc_segStart = pos, sc_truncated = False, sc_diags = ds\<rparr>"

text \<open>What \<open>Scan\<close> does once the input is used up.\<close>

definition scan_end :: "nat \<Rightarrow> scan_state \<Rightarrow> ed_error + (ed_segment list \<times> ed_diagnostic list)" where
  "scan_end len st0 =
     (let st = (if sc_released st0 then adddiag Error len ''trailing_release'' st0 else st0) in
      if sc_started st \<and> \<not> sc_truncated st
      then let st1 = flushElement st in
           if sc_segments st1 = [] then Inl ErrNoSegments
           else let st2 = adddiag Error (sc_segStart st1) ''unterminated_segment'' st1
                in Inr (if validTag (elems_tag (sc_elems st2)) then sc_segments st2 @ [new_segment st2] else sc_segments st2,
                        sc_diags st2)
      else if sc_segments st = [] then Inl ErrNoSegments
      else Inr (sc_segments st, sc_diags st))"

definition Scan :: "string \<Rightarrow> scan_options \<Rightarrow> ed_error + (ed_segment list \<times> ed_syntax \<times> ed_diagnostic list)" where
  "Scan raw opts =
     (let lead = length (takeWhile is_lead raw);
          ds = (if lead > 0 then [mk_diag Info 0 (-1) ''leading_whitespace''] else []);
          (syn0, body) = (case read_una (drop lead raw) of
                            Some (sy, rest) \<Rightarrow> (sy, dropWhile is_nl rest)
                          | None \<Rightarrow> (DefaultSyntax 3, drop lead raw));
          pos = length raw - length body;
          syn = (case so_Syntax opts of Some sy \<Rightarrow> sy | None \<Rightarrow> syn0)
      in case ed_Validate syn of
           Some e \<Rightarrow> Inl e
         | None \<Rightarrow>
             (case scan_end (length raw)
                     (scan_loop (PreserveLineBreaks opts) (maxSeg opts) syn pos body (init_state pos ds)) of
                Inl e \<Rightarrow> Inl e
              | Inr (segs, diags) \<Rightarrow> Inr (segs, syn, diags)))"

section \<open>Encoding segments\<close>

fun escape :: "ed_syntax \<Rightarrow> string \<Rightarrow> string" where
  "escape syn [] = []"
| "escape syn (b # bs) = (if isService syn b then ReleaseChar syn # b # escape syn bs else b # escape syn bs)"

definition rtrim_empty :: "string list \<Rightarrow> string list" where
  "rtrim_empty xs = rev (dropWhile (\<lambda>s. s = '''') (rev xs))"

definition render_composite :: "ed_syntax \<Rightarrow> composite \<Rightarrow> string" where
  "render_composite syn c = Join (rtrim_empty (map (escape syn) c)) [ComponentSep syn]"

definition render_element :: "ed_syntax \<Rightarrow> element \<Rightarrow> string" where
  "render_element syn e =
     (let reps0 = map (render_composite syn) e;
          reps = (case reps0 of [] \<Rightarrow> [] | r # rs \<Rightarrow> r # rtrim_empty rs);
          sep = (if RepetitionEnabled syn then [RepetitionSep syn]
                 else if length reps > 1 then [ComponentSep syn] else '''')
      in Join reps sep)"

definition EncodeTo :: "ed_syntax \<Rightarrow> ed_segment \<Rightarrow> string" where
  "EncodeTo syn s =
     escape syn (Tag s)
     @ concat (map (\<lambda>r. ElementSep syn # r) (rtrim_empty (map (render_element syn) (Elements s))))
     @ [SegmentTerm syn]"

end
