(* ===== verification/Edifact_Scan.thy ===== *)
theory Edifact_Scan
  imports Edifact
begin

text \<open>
  The scanner reads what the encoder writes: what a segment looks like after one trip over the
  wire (\<open>canon_segment\<close>), the scan of an encoded segment piece by piece, and the fixed point a
  relay depends on: segments decoded from any input, encoded and decoded again, are the same
  segments with their empty tails dropped, and encode to the same bytes from then on.
\<close>

section \<open>What a valid syntax guarantees\<close>

lemma alnum_not_service: "is_alnum b \<Longrightarrow> \<not> validServiceChar b"
  by (simp add: validServiceChar_def)

lemma nl_not_service: "is_nl b \<Longrightarrow> \<not> validServiceChar b"
  by (auto simp: validServiceChar_def is_nl_def)

lemma Validate_None:
  assumes "ed_Validate syn = None"
  shows "validServiceChar (ComponentSep syn) \<and> validServiceChar (ElementSep syn) \<and> validServiceChar (ReleaseChar syn)
       \<and> validServiceChar (SegmentTerm syn) \<and> (RepetitionEnabled syn \<longrightarrow> validServiceChar (RepetitionSep syn))"
    "distinct [ComponentSep syn, ElementSep syn, ReleaseChar syn, SegmentTerm syn]"
    "RepetitionEnabled syn \<Longrightarrow> RepetitionSep syn \<notin> {ComponentSep syn, ElementSep syn, ReleaseChar syn, SegmentTerm syn}"
  using assms by (auto simp: ed_Validate_def Let_def split: if_splits option.splits)

lemma service_valid: "ed_Validate syn = None \<Longrightarrow> isService syn b \<Longrightarrow> validServiceChar b"
  using Validate_None(1) [of syn] by (auto simp: isService_def split: if_splits)

lemma service_not_nl: "ed_Validate syn = None \<Longrightarrow> isService syn b \<Longrightarrow> \<not> is_nl b \<and> \<not> is_alnum b"
  using service_valid nl_not_service alnum_not_service by blast

lemma is_term_SegmentTerm: "ed_Validate syn = None \<Longrightarrow> is_term syn b \<longleftrightarrow> b = SegmentTerm syn"
  using Validate_None(2,3) [of syn] by (auto simp: is_term_def)

lemma separators_service:
  "isService syn (ComponentSep syn)" "isService syn (ElementSep syn)" "isService syn (SegmentTerm syn)"
  "isService syn (ReleaseChar syn)" "RepetitionEnabled syn \<Longrightarrow> isService syn (RepetitionSep syn)"
  by (simp_all add: isService_def)

section \<open>A run over data\<close>

text \<open>Text that can travel: without line breaks.\<close>

definition no_nl :: "string \<Rightarrow> bool" where
  "no_nl s \<longleftrightarrow> list_all (\<lambda>b. \<not> is_nl b) s"

lemma no_nl_simps [simp]: "no_nl []" "no_nl (b # bs) \<longleftrightarrow> \<not> is_nl b \<and> no_nl bs" "no_nl (s @ t) \<longleftrightarrow> no_nl s \<and> no_nl t"
  by (simp_all add: no_nl_def)

lemma state_idem:
  "sc_started st \<Longrightarrow> st\<lparr>sc_started := True\<rparr> = st" "\<not> sc_released st \<Longrightarrow> st\<lparr>sc_released := False\<rparr> = st"
  "st\<lparr>sc_buf := sc_buf st\<rparr> = st"
  by (cases st; simp)+

lemma scan_plain:
  assumes "ed_Validate syn = None" "\<not> isService syn b" "\<not> is_nl b" "\<not> sc_released st"
  shows "scan_loop pres mx syn pos (b # rest) st =
         scan_loop pres mx syn (pos + 1) rest (st\<lparr>sc_buf := sc_buf st @ [b], sc_started := True\<rparr>)"
proof -
  have "\<not> is_term syn b" "plain_byte syn b st = st\<lparr>sc_buf := sc_buf st @ [b], sc_started := True\<rparr>"
    using assms(2) by (auto simp: is_term_def plain_byte_def isService_def split: if_splits)
  then show ?thesis using assms(3,4) by (simp add: scan_loop.simps(2))
qed

lemma scan_escaped:
  assumes "ed_Validate syn = None" "isService syn b" "\<not> sc_released st"
  shows "scan_loop pres mx syn pos (ReleaseChar syn # b # rest) st =
         scan_loop pres mx syn (pos + 2) rest (st\<lparr>sc_buf := sc_buf st @ [b], sc_started := True\<rparr>)"
proof -
  have "\<not> is_nl b" "\<not> is_nl (ReleaseChar syn)"
    using service_not_nl [OF assms(1)] assms(2) separators_service by blast+
  moreover have "\<not> is_term syn (ReleaseChar syn)" by (simp add: is_term_def)
  ultimately have s: "scan_loop pres mx syn pos (ReleaseChar syn # b # rest) st =
      scan_loop pres mx syn (pos + 2) rest (st\<lparr>sc_buf := sc_buf st @ [b], sc_released := False, sc_started := True\<rparr>)"
    using assms by (simp add: scan_loop.simps(2) plain_byte_def released_byte_def Let_def)
  have e: "st\<lparr>sc_buf := sc_buf st @ [b], sc_released := False, sc_started := True\<rparr> = st\<lparr>sc_buf := sc_buf st @ [b], sc_started := True\<rparr>"
    using assms(3) by (cases st) simp
  show ?thesis using s unfolding e .
qed

lemma scan_escape:
  assumes "ed_Validate syn = None" "no_nl w" "\<not> sc_released st" "sc_started st \<or> w \<noteq> ''''"
  shows "scan_loop pres mx syn pos (escape syn w @ rest) st =
         scan_loop pres mx syn (pos + length (escape syn w)) rest (st\<lparr>sc_buf := sc_buf st @ w, sc_started := True\<rparr>)"
  using assms(2-)
proof (induction w arbitrary: pos st)
  case (Cons b w)
  let ?st = "st\<lparr>sc_buf := sc_buf st @ [b], sc_started := True\<rparr>"
  have "scan_loop pres mx syn p (escape syn w @ rest) ?st =
        scan_loop pres mx syn (p + length (escape syn w)) rest (?st\<lparr>sc_buf := sc_buf ?st @ w, sc_started := True\<rparr>)" for p
    using Cons.prems by (intro Cons.IH) simp_all
  then show ?case using Cons.prems scan_plain [OF assms(1)] scan_escaped [OF assms(1)] by simp
qed (simp add: state_idem)

section \<open>A segment after one trip\<close>

definition canon_composite :: "composite \<Rightarrow> composite" where
  "canon_composite c = (case rtrim_empty c of [] \<Rightarrow> [''''] | xs \<Rightarrow> xs)"

definition rtrim_by :: "'a \<Rightarrow> 'a list \<Rightarrow> 'a list" where
  "rtrim_by z xs = rev (dropWhile (\<lambda>x. x = z) (rev xs))"

definition canon_element :: "element \<Rightarrow> element" where
  "canon_element e = (case map canon_composite e of [] \<Rightarrow> [['''']] | r # rs \<Rightarrow> r # rtrim_by [''''] rs)"

definition canon_elements :: "element list \<Rightarrow> element list" where
  "canon_elements es = rtrim_by [['''']] (map canon_element es)"

lemma rtrim_empty_by: "rtrim_empty = rtrim_by ''''"
  by (simp add: fun_eq_iff rtrim_empty_def rtrim_by_def)

lemma rtrim_by_simps [simp]: "rtrim_by z [] = []" "rtrim_by z (xs @ [x]) = (if x = z then rtrim_by z xs else xs @ [x])"
  by (simp_all add: rtrim_by_def)

lemma rtrim_by_map: "(\<And>x. x \<in> set xs \<Longrightarrow> f x = y \<longleftrightarrow> x = z) \<Longrightarrow> rtrim_by y (map f xs) = map f (rtrim_by z xs)"
  by (induction xs rule: rev_induct) auto

lemma rtrim_by_idem [simp]: "rtrim_by z (rtrim_by z xs) = rtrim_by z xs"
  by (induction xs rule: rev_induct) auto

lemma rtrim_by_last: "rtrim_by z xs \<noteq> [] \<Longrightarrow> last (rtrim_by z xs) \<noteq> z"
  by (induction xs rule: rev_induct) auto

lemma set_rtrim_by: "set (rtrim_by z xs) \<subseteq> set xs"
  by (induction xs rule: rev_induct) auto

lemma rtrim_by_fixed: "xs \<noteq> [] \<Longrightarrow> last xs \<noteq> z \<Longrightarrow> rtrim_by z xs = xs"
  by (cases xs rule: rev_cases) auto

lemma escape_empty [simp]: "escape syn w = '''' \<longleftrightarrow> w = ''''"
  by (cases w) auto

lemma Join_empty: "sep \<noteq> '''' \<Longrightarrow> Join xs sep = '''' \<longleftrightarrow> xs = [] \<or> xs = ['''']"
proof (induction xs)
  case (Cons x xs) then show ?case by (cases xs) auto
qed simp

lemma render_composite_canon: "render_composite syn c = Join (map (escape syn) (canon_composite c)) [ComponentSep syn]"
proof -
  have "rtrim_empty (map (escape syn) c) = map (escape syn) (rtrim_empty c)"
    unfolding rtrim_empty_by by (rule rtrim_by_map) simp
  then show ?thesis by (cases "rtrim_empty c") (simp_all add: render_composite_def canon_composite_def)
qed

lemma canon_composite_nonempty [simp]: "canon_composite c \<noteq> []" "[] \<noteq> canon_composite c"
  by (simp_all add: canon_composite_def split: list.splits)

lemma render_composite_empty: "render_composite syn c = '''' \<longleftrightarrow> canon_composite c = ['''']"
proof -
  have "map (escape syn) (canon_composite c) = [''''] \<longleftrightarrow> canon_composite c = ['''']" by auto
  then show ?thesis unfolding render_composite_canon by (simp add: Join_empty)
qed

lemma canon_composite_idem [simp]: "canon_composite (canon_composite c) = canon_composite c"
proof (cases "rtrim_empty c")
  case Nil
  then have "canon_composite c = ['''']" by (simp only: canon_composite_def list.case)
  then show ?thesis by (simp add: canon_composite_def rtrim_empty_def)
next
  case (Cons x xs)
  then have "rtrim_empty (x # xs) = x # xs" unfolding rtrim_empty_by by (metis rtrim_by_idem)
  then show ?thesis by (simp add: canon_composite_def Cons)
qed

text \<open>Repetitions can be told apart: either they are enabled or there is at most one.\<close>

definition reps_ok :: "ed_syntax \<Rightarrow> element \<Rightarrow> bool" where
  "reps_ok syn e \<longleftrightarrow> RepetitionEnabled syn \<or> length e \<le> 1"

lemma render_element_canon:
  assumes "reps_ok syn e"
  shows "render_element syn e = Join (map (\<lambda>c. Join (map (escape syn) c) [ComponentSep syn]) (canon_element e)) [RepetitionSep syn]"
proof (cases e)
  case Nil
  then show ?thesis by (simp add: render_element_def canon_element_def)
next
  case (Cons r rs)
  let ?j = "\<lambda>c. Join (map (escape syn) c) [ComponentSep syn]"
  have m: "map (render_composite syn) xs = map ?j (map canon_composite xs)" for xs
    by (simp add: render_composite_canon)
  have "rtrim_empty (map ?j (map canon_composite rs)) = map ?j (rtrim_by [''''] (map canon_composite rs))"
    unfolding rtrim_empty_by by (rule rtrim_by_map) (auto simp: Join_empty)
  then have t: "rtrim_empty (map (render_composite syn) rs) = map ?j (rtrim_by [''''] (map canon_composite rs))" unfolding m .
  show ?thesis
  proof (cases "RepetitionEnabled syn")
    case True
    then show ?thesis using t by (simp add: render_element_def canon_element_def Cons render_composite_canon)
  next
    case False
    then have "rs = []" using assms Cons by (simp add: reps_ok_def)
    then show ?thesis using False by (simp add: render_element_def canon_element_def Cons render_composite_canon rtrim_empty_def)
  qed
qed

lemma canon_element_nonempty [simp]: "canon_element e \<noteq> []"
  by (simp add: canon_element_def split: list.splits)

lemma canon_element_composites: "c \<in> set (canon_element e) \<Longrightarrow> c \<noteq> []"
  using set_rtrim_by [of "['''']" "map canon_composite (tl e)"] canon_composite_nonempty
  by (cases e) (auto simp: canon_element_def)

lemma render_element_empty:
  assumes "reps_ok syn e"
  shows "render_element syn e = '''' \<longleftrightarrow> canon_element e = [['''']]"
proof -
  have j: "Join (map (escape syn) c) [ComponentSep syn] = '''' \<longleftrightarrow> c = [] \<or> c = ['''']" for c
    by (auto simp: Join_empty)
  have "map (\<lambda>c. Join (map (escape syn) c) [ComponentSep syn]) (canon_element e) = [''''] \<longleftrightarrow> canon_element e = [['''']]"
    using canon_element_composites [of _ e] by (auto simp: j map_eq_Cons_conv)
  then show ?thesis unfolding render_element_canon [OF assms] by (simp add: Join_empty)
qed

section \<open>Scanning an encoded segment\<close>

text \<open>The state with one element pending: the elements before it are complete.\<close>

definition pending :: "scan_state \<Rightarrow> element list \<Rightarrow> element \<Rightarrow> scan_state" where
  "pending st es e = st\<lparr>sc_elems := es, sc_reps := butlast e, sc_comps := butlast (last e), sc_buf := last (last e), sc_started := True\<rparr>"

lemma pending_simps [simp]: "sc_released (pending st es e) = sc_released st" "sc_started (pending st es e)"
  by (simp_all add: pending_def)

lemma scan_separator:
  assumes "ed_Validate syn = None" "\<not> sc_released st"
  shows "scan_loop pres mx syn pos (ComponentSep syn # rest) st = scan_loop pres mx syn (pos + 1) rest ((flushComponent st)\<lparr>sc_started := True\<rparr>)"
    "scan_loop pres mx syn pos (ElementSep syn # rest) st = scan_loop pres mx syn (pos + 1) rest ((flushElement st)\<lparr>sc_started := True\<rparr>)"
    "RepetitionEnabled syn \<Longrightarrow> scan_loop pres mx syn pos (RepetitionSep syn # rest) st = scan_loop pres mx syn (pos + 1) rest ((flushRepetition st)\<lparr>sc_started := True\<rparr>)"
proof -
  note v = Validate_None [OF assms(1)] and n = service_not_nl [OF assms(1)] separators_service [of syn]
  have nn: "\<not> is_nl (ComponentSep syn)" "\<not> is_nl (ElementSep syn)" "RepetitionEnabled syn \<Longrightarrow> \<not> is_nl (RepetitionSep syn)"
    using n by blast+
  show "scan_loop pres mx syn pos (ComponentSep syn # rest) st = scan_loop pres mx syn (pos + 1) rest ((flushComponent st)\<lparr>sc_started := True\<rparr>)"
    using v(2) nn assms(2) by (simp add: scan_loop.simps(2) is_term_def plain_byte_def)
  show "scan_loop pres mx syn pos (ElementSep syn # rest) st = scan_loop pres mx syn (pos + 1) rest ((flushElement st)\<lparr>sc_started := True\<rparr>)"
    using v(2) nn assms(2) by (auto simp: scan_loop.simps(2) is_term_def plain_byte_def)
  show "scan_loop pres mx syn pos (RepetitionSep syn # rest) st = scan_loop pres mx syn (pos + 1) rest ((flushRepetition st)\<lparr>sc_started := True\<rparr>)"
    if "RepetitionEnabled syn" using v(3) [OF that] nn that assms(2) by (simp add: scan_loop.simps(2) is_term_def plain_byte_def)
qed

lemma scan_components:
  assumes "ed_Validate syn = None" "c \<noteq> []" "list_all no_nl c" "\<not> sc_released st" "sc_started st" "sc_buf st = ''''"
  shows "\<exists>p. scan_loop pres mx syn pos (Join (map (escape syn) c) [ComponentSep syn] @ rest) st =
         scan_loop pres mx syn p rest (st\<lparr>sc_comps := sc_comps st @ butlast c, sc_buf := last c\<rparr>)"
  using assms(2-)
proof (induction c arbitrary: pos st)
  case (Cons x c)
  have e: "st\<lparr>sc_buf := x, sc_started := True\<rparr> = st\<lparr>sc_buf := x\<rparr>" using Cons.prems by (cases st) simp
  have x: "scan_loop pres mx syn pos (escape syn x @ r) st = scan_loop pres mx syn (pos + length (escape syn x)) r (st\<lparr>sc_buf := x\<rparr>)" for r
    using scan_escape [OF assms(1), of x st] Cons.prems e by simp
  show ?case
  proof (cases c)
    case Nil
    then show ?thesis using x [of rest] by (auto simp: state_idem)
  next
    case (Cons y ys)
    let ?st = "st\<lparr>sc_comps := sc_comps st @ [x], sc_buf := ''''\<rparr>"
    have f: "(flushComponent (st\<lparr>sc_buf := x\<rparr>))\<lparr>sc_started := True\<rparr> = ?st"
      using Cons.prems(4) by (cases st) (simp add: flushComponent_def)
    obtain p where "scan_loop pres mx syn (pos + length (escape syn x) + 1) (Join (map (escape syn) c) [ComponentSep syn] @ rest) ?st =
        scan_loop pres mx syn p rest (?st\<lparr>sc_comps := sc_comps ?st @ butlast c, sc_buf := last c\<rparr>)"
      using Cons.IH [of ?st "pos + length (escape syn x) + 1"] Cons.prems Cons by auto
    then show ?thesis using x [of "ComponentSep syn # Join (map (escape syn) c) [ComponentSep syn] @ rest"]
        scan_separator(1) [OF assms(1), of "st\<lparr>sc_buf := x\<rparr>"] Cons.prems Cons
      by (auto simp: f)
  qed
qed simp

abbreviation join_composite :: "ed_syntax \<Rightarrow> composite \<Rightarrow> string" where
  "join_composite syn c \<equiv> Join (map (escape syn) c) [ComponentSep syn]"

lemma scan_repetitions:
  assumes "ed_Validate syn = None" "e \<noteq> []" "list_all (\<lambda>c. c \<noteq> [] \<and> list_all no_nl c) e" "reps_ok syn e"
    "\<not> sc_released st" "sc_started st" "sc_buf st = ''''" "sc_comps st = []"
  shows "\<exists>p. scan_loop pres mx syn pos (Join (map (join_composite syn) e) [RepetitionSep syn] @ rest) st =
         scan_loop pres mx syn p rest (st\<lparr>sc_reps := sc_reps st @ butlast e, sc_comps := butlast (last e), sc_buf := last (last e)\<rparr>)"
  using assms(2-)
proof (induction e arbitrary: pos st)
  case (Cons c e)
  let ?c = "st\<lparr>sc_comps := butlast c, sc_buf := last c\<rparr>"
  have x: "\<exists>p. scan_loop pres mx syn pos (join_composite syn c @ r) st = scan_loop pres mx syn p r ?c" for r
    using scan_components [OF assms(1), of c st] Cons.prems by simp
  show ?case
  proof (cases e)
    case Nil
    have "st\<lparr>sc_reps := sc_reps st @ butlast [c], sc_comps := butlast c, sc_buf := last c\<rparr> = ?c" by (cases st) simp
    then show ?thesis using x [of rest] Nil by simp
  next
    case (Cons d ds)
    then have r: "RepetitionEnabled syn" using Cons.prems(3) by (simp add: reps_ok_def)
    let ?st = "st\<lparr>sc_reps := sc_reps st @ [c]\<rparr>"
    have f: "(flushRepetition ?c)\<lparr>sc_started := True\<rparr> = ?st"
      using Cons.prems by (cases st) (simp add: flushRepetition_def flushComponent_def Let_def)
    obtain p where p: "scan_loop pres mx syn pos (join_composite syn c @ RepetitionSep syn # Join (map (join_composite syn) e) [RepetitionSep syn] @ rest) st
        = scan_loop pres mx syn p (RepetitionSep syn # Join (map (join_composite syn) e) [RepetitionSep syn] @ rest) ?c" using x by blast
    also have "\<dots> = scan_loop pres mx syn (p + 1) (Join (map (join_composite syn) e) [RepetitionSep syn] @ rest) ?st"
      using scan_separator(3) [OF assms(1) _ r, of ?c] Cons.prems(4) f by simp
    finally have s: "scan_loop pres mx syn pos (Join (map (join_composite syn) (c # e)) [RepetitionSep syn] @ rest) st
        = scan_loop pres mx syn (p + 1) (Join (map (join_composite syn) e) [RepetitionSep syn] @ rest) ?st" using Cons by simp
    obtain p' where p': "scan_loop pres mx syn (p + 1) (Join (map (join_composite syn) e) [RepetitionSep syn] @ rest) ?st =
        scan_loop pres mx syn p' rest (?st\<lparr>sc_reps := sc_reps ?st @ butlast e, sc_comps := butlast (last e), sc_buf := last (last e)\<rparr>)"
      using Cons.IH [of ?st "p + 1"] Cons.prems Cons r by (auto simp: reps_ok_def)
    have "scan_loop pres mx syn pos (Join (map (join_composite syn) (c # e)) [RepetitionSep syn] @ rest) st
        = scan_loop pres mx syn p' rest (st\<lparr>sc_reps := sc_reps st @ butlast (c # e), sc_comps := butlast (last (c # e)), sc_buf := last (last (c # e))\<rparr>)"
      unfolding s p' using Cons by simp
    then show ?thesis by blast
  qed
qed simp

text \<open>An element that can travel under a syntax.\<close>

definition element_ok :: "ed_syntax \<Rightarrow> element \<Rightarrow> bool" where
  "element_ok syn e \<longleftrightarrow> reps_ok syn e \<and> list_all (list_all no_nl) e"

lemma canon_composite_no_nl: "list_all no_nl c \<Longrightarrow> list_all no_nl (canon_composite c)"
  using set_rtrim_by [of "''''" c] by (auto simp: canon_composite_def rtrim_empty_by list_all_iff split: list.splits)

lemma canon_element_ok:
  assumes "element_ok syn e"
  shows "reps_ok syn (canon_element e)" "list_all (\<lambda>c. c \<noteq> [] \<and> list_all no_nl c) (canon_element e)" "element_ok syn (canon_element e)"
proof -
  have len: "length (rtrim_by [''''] xs) \<le> length xs" for xs by (induction xs rule: rev_induct) auto
  have "length (canon_element e) \<le> max 1 (length e)"
    using len [of "map canon_composite (tl e)"] by (cases e) (auto simp: canon_element_def)
  then show r: "reps_ok syn (canon_element e)" using assms by (auto simp: reps_ok_def element_ok_def)
  have "c \<in> canon_composite ` set e \<union> {['''']}" if "c \<in> set (canon_element e)" for c
    using that set_rtrim_by [of "['''']" "map canon_composite (tl e)"] by (cases e) (auto simp: canon_element_def)
  then have "list_all no_nl c" if "c \<in> set (canon_element e)" for c
    using that assms canon_composite_no_nl by (fastforce simp: element_ok_def list_all_iff)
  then show a: "list_all (\<lambda>c. c \<noteq> [] \<and> list_all no_nl c) (canon_element e)"
    using canon_element_composites by (auto simp: list_all_iff)
  show "element_ok syn (canon_element e)" using r a by (simp add: element_ok_def list_all_iff)
qed

lemma flushElement_pending:
  "e \<noteq> [] \<Longrightarrow> last e \<noteq> [] \<Longrightarrow> (flushElement (pending st es e))\<lparr>sc_started := True\<rparr> =
     st\<lparr>sc_elems := es @ [e], sc_reps := [], sc_comps := [], sc_buf := '''', sc_started := True\<rparr>"
  by (simp add: flushElement_def flushRepetition_def flushComponent_def pending_def Let_def)

lemma scan_element:
  assumes "ed_Validate syn = None" "element_ok syn e" "\<not> sc_released st" "e0 \<noteq> []" "last e0 \<noteq> []"
  shows "\<exists>p. scan_loop pres mx syn pos (ElementSep syn # render_element syn e @ rest) (pending st es e0) =
         scan_loop pres mx syn p rest (pending st (es @ [e0]) (canon_element e))"
proof -
  have r: "reps_ok syn e" using assms(2) by (simp add: element_ok_def)
  note c = canon_element_ok [OF assms(2)]
  let ?st = "st\<lparr>sc_elems := es @ [e0], sc_reps := [], sc_comps := [], sc_buf := '''', sc_started := True\<rparr>"
  have "scan_loop pres mx syn pos (ElementSep syn # render_element syn e @ rest) (pending st es e0) =
      scan_loop pres mx syn (pos + 1) (render_element syn e @ rest) ?st"
    using scan_separator(2) [OF assms(1), of "pending st es e0"] assms(3) flushElement_pending [OF assms(4,5)] by simp
  moreover have "\<exists>p. scan_loop pres mx syn (pos + 1) (render_element syn e @ rest) ?st =
      scan_loop pres mx syn p rest (?st\<lparr>sc_reps := sc_reps ?st @ butlast (canon_element e), sc_comps := butlast (last (canon_element e)), sc_buf := last (last (canon_element e))\<rparr>)"
    unfolding render_element_canon [OF r] using assms(3) by (intro scan_repetitions [OF assms(1) _ c(2,1)]) simp_all
  moreover have "?st\<lparr>sc_reps := sc_reps ?st @ butlast (canon_element e), sc_comps := butlast (last (canon_element e)), sc_buf := last (last (canon_element e))\<rparr>
      = pending st (es @ [e0]) (canon_element e)" by (cases st) (simp add: pending_def)
  ultimately show ?thesis by metis
qed

lemma scan_elements:
  assumes "ed_Validate syn = None" "list_all (element_ok syn) els" "\<not> sc_released st" "e0 \<noteq> []" "last e0 \<noteq> []"
  shows "\<exists>p. scan_loop pres mx syn pos (concat (map (\<lambda>e. ElementSep syn # render_element syn e) els) @ rest) (pending st es e0) =
         scan_loop pres mx syn p rest (pending st (es @ butlast (e0 # map canon_element els)) (last (e0 # map canon_element els)))"
  using assms(2,4,5)
proof (induction els arbitrary: pos es e0)
  case (Cons e els)
  have n: "canon_element e \<noteq> []" "last (canon_element e) \<noteq> []" using canon_element_composites [of _ e] by simp_all
  obtain p where p: "scan_loop pres mx syn pos (ElementSep syn # render_element syn e @ concat (map (\<lambda>e. ElementSep syn # render_element syn e) els) @ rest)
      (pending st es e0) = scan_loop pres mx syn p (concat (map (\<lambda>e. ElementSep syn # render_element syn e) els) @ rest) (pending st (es @ [e0]) (canon_element e))"
    using scan_element [OF assms(1) _ assms(3) Cons.prems(2,3)] Cons.prems(1) by force
  then show ?case using Cons.IH [OF _ n, of p "es @ [e0]"] Cons.prems(1) by auto
qed auto

text \<open>Between segments nothing is pending.\<close>

definition fresh :: "scan_state \<Rightarrow> bool" where
  "fresh st \<longleftrightarrow> sc_comps st = [] \<and> sc_reps st = [] \<and> sc_elems st = [] \<and> sc_buf st = '''' \<and> \<not> sc_released st
     \<and> \<not> sc_started st \<and> \<not> sc_truncated st"

definition content :: "ed_segment \<Rightarrow> string \<times> element list" where
  "content s = (Tag s, Elements s)"

definition canon_content :: "ed_segment \<Rightarrow> string \<times> element list" where
  "canon_content s = (Tag s, canon_elements (Elements s))"

definition segment_ok :: "ed_syntax \<Rightarrow> ed_segment \<Rightarrow> bool" where
  "segment_ok syn s \<longleftrightarrow> validTag (Tag s) \<and> list_all (element_ok syn) (Elements s)"

lemma escape_alnum: "ed_Validate syn = None \<Longrightarrow> list_all is_alnum w \<Longrightarrow> escape syn w = w"
  using service_not_nl by (induction w) auto

lemma alnum_no_nl: "list_all is_alnum w \<Longrightarrow> no_nl w"
  by (induction w) (auto simp: is_alnum_def is_upper_def is_lower_def is_digit_def is_nl_def)

lemma EncodeTo_canon:
  assumes "list_all (element_ok syn) (Elements s)"
  shows "\<exists>els. EncodeTo syn s = escape syn (Tag s) @ concat (map (\<lambda>e. ElementSep syn # render_element syn e) els) @ [SegmentTerm syn]
     \<and> map canon_element els = canon_elements (Elements s) \<and> list_all (element_ok syn) els"
proof -
  define n where "n = length (canon_elements (Elements s))"
  have trim: "rtrim_by y (map f xs) = take (length (rtrim_by z (map g xs))) (map f xs)"
    if "\<And>x. x \<in> set xs \<Longrightarrow> f x = y \<longleftrightarrow> g x = z" for f :: "element \<Rightarrow> string" and g :: "element \<Rightarrow> element" and y z xs
    using that
  proof (induction xs rule: rev_induct)
    case (snoc x xs)
    have "length (rtrim_by z (map g xs)) \<le> length xs" by (induction xs rule: rev_induct) auto
    with snoc show ?case by auto
  qed simp
  have self: "rtrim_by z xs = take (length (rtrim_by z xs)) xs" for z :: element and xs
  proof (induction xs rule: rev_induct)
    case (snoc x xs)
    have "length (rtrim_by z xs) \<le> length xs" by (induction xs rule: rev_induct) auto
    with snoc show ?case by auto
  qed simp
  have "rtrim_empty (map (render_element syn) (Elements s)) = take n (map (render_element syn) (Elements s))"
    unfolding n_def canon_elements_def rtrim_empty_by
    by (rule trim) (use assms render_element_empty in \<open>auto simp: list_all_iff element_ok_def\<close>)
  then have "EncodeTo syn s = escape syn (Tag s) @ concat (map (\<lambda>e. ElementSep syn # render_element syn e) (take n (Elements s))) @ [SegmentTerm syn]"
    by (simp add: EncodeTo_def take_map comp_def)
  moreover have "map canon_element (take n (Elements s)) = canon_elements (Elements s)"
    using self [of "[['''']]" "map canon_element (Elements s)"] by (simp add: n_def canon_elements_def take_map)
  moreover have "list_all (element_ok syn) (take n (Elements s))" using assms by (auto simp: list_all_iff dest: in_set_takeD)
  ultimately show ?thesis by blast
qed

lemma end_segment_pending:
  assumes "fresh st" "validTag t" "els = butlast (e0 # xs)" "e = last (e0 # xs)" "e0 = [[t]]" "e \<noteq> []" "last e \<noteq> []"
  shows "end_segment mx pos (pending st els e) =
     (let st' = st\<lparr>sc_segments := sc_segments st @ [\<lparr>Tag = t, Elements = xs, sg_Offset = sc_segStart st, sg_Index = length (sc_segments st)\<rparr>]\<rparr>
      in if Suc (length (sc_segments st)) \<ge> mx then (adddiag Error pos ''segment_limit'' st')\<lparr>sc_truncated := True\<rparr> else st')"
proof -
  have "els @ [e] = [[t]] # xs" unfolding assms(3-5) by (rule append_butlast_last_id) simp
  then show ?thesis using assms(1,2,6,7)
    by (cases st) (simp add: end_segment_def pending_def flushElement_def flushRepetition_def flushComponent_def Let_def
        new_segment_def elems_tag_def elem_Value_def elem_Get_def elem_First_def comp_Get_def segIndex_def adddiag_def fresh_def)
qed

lemma scan_segment:
  assumes "ed_Validate syn = None" "segment_ok syn s" "fresh st" "Suc (length (sc_segments st)) \<le> mx"
  shows "\<exists>p st'. scan_loop pres mx syn pos (EncodeTo syn s @ rest) st =
       (if sc_truncated st' then st' else scan_loop pres mx syn p (dropWhile is_nl rest) st')
     \<and> map content (sc_segments st') = map content (sc_segments st) @ [canon_content s]
     \<and> (fresh (st'\<lparr>sc_truncated := False\<rparr>)) \<and> (sc_truncated st' \<longleftrightarrow> Suc (length (sc_segments st)) = mx)
     \<and> (\<not> sc_truncated st' \<longrightarrow> sc_diags st' = sc_diags st)"
proof -
  have el: "list_all (element_ok syn) (Elements s)" and vt: "validTag (Tag s)" using assms(2) by (simp_all add: segment_ok_def)
  have al: "list_all is_alnum (Tag s)" "Tag s \<noteq> ''''" using vt by (auto simp: validTag_def split: if_splits)
  obtain els where e: "EncodeTo syn s = escape syn (Tag s) @ concat (map (\<lambda>e. ElementSep syn # render_element syn e) els) @ [SegmentTerm syn]"
    "map canon_element els = canon_elements (Elements s)" "list_all (element_ok syn) els" using EncodeTo_canon [OF el] by blast
  have nr: "\<not> sc_released st" using assms(3) by (simp add: fresh_def)
  let ?body = "concat (map (\<lambda>e. ElementSep syn # render_element syn e) els) @ SegmentTerm syn # rest"
  have "st\<lparr>sc_buf := sc_buf st @ Tag s, sc_started := True\<rparr> = pending st [] [[Tag s]]"
    using assms(3) by (cases st) (simp add: fresh_def pending_def)
  then have 1: "\<exists>p. scan_loop pres mx syn pos (EncodeTo syn s @ rest) st = scan_loop pres mx syn p ?body (pending st [] [[Tag s]])"
    using scan_escape [OF assms(1) alnum_no_nl [OF al(1)] nr, of pres mx pos ?body] al(2) by (simp add: e(1)) metis
  let ?xs = "canon_elements (Elements s)"
  let ?l = "last ([[Tag s]] # ?xs)" and ?b = "butlast ([[Tag s]] # ?xs)"
  have 2: "\<exists>p'. scan_loop pres mx syn p ?body (pending st [] [[Tag s]]) = scan_loop pres mx syn p' (SegmentTerm syn # rest) (pending st ?b ?l)" for p
    using scan_elements [OF assms(1) e(3) nr, of "[[Tag s]]" pres mx p "SegmentTerm syn # rest" "[]"] unfolding e(2) append_Nil by force
  have lne: "?l \<noteq> []" "last ?l \<noteq> []"
  proof -
    have "?l \<in> set ([[Tag s]] # map canon_element els)" unfolding e(2) by (rule last_in_set) simp
    then obtain x where "?l = [[Tag s]] \<or> ?l = canon_element x" by auto
    then show "?l \<noteq> []" "last ?l \<noteq> []"
      using canon_element_nonempty [of x] canon_element_composites [OF last_in_set, of x] by (elim disjE; simp)+
  qed
  have tm: "is_term syn (SegmentTerm syn)" "\<not> is_nl (SegmentTerm syn)"
    using is_term_SegmentTerm [OF assms(1)] service_not_nl [OF assms(1)] separators_service by blast+
  define k where "k = length (takeWhile is_nl rest)"
  have dk: "drop k rest = dropWhile is_nl rest" by (simp add: k_def dropWhile_eq_drop)
  define st' where "st' p = (end_segment mx p (pending st ?b ?l))\<lparr>sc_segStart := p + k + 1\<rparr>" for p
  have 3: "scan_loop pres mx syn p (SegmentTerm syn # rest) (pending st ?b ?l) =
      (if sc_truncated (st' p) then st' p else scan_loop pres mx syn (p + k + 1) (dropWhile is_nl rest) (st' p))" for p
    using tm nr by (simp add: scan_loop.simps(2) Let_def st'_def k_def [symmetric] dk)
  note es = end_segment_pending [OF assms(3) vt refl refl refl lne]
  have 4: "map content (sc_segments (st' p)) = map content (sc_segments st) @ [canon_content s]"
    "fresh ((st' p)\<lparr>sc_truncated := False\<rparr>)" "sc_truncated (st' p) \<longleftrightarrow> Suc (length (sc_segments st)) = mx"
    "\<not> sc_truncated (st' p) \<Longrightarrow> sc_diags (st' p) = sc_diags st" for p
    unfolding st'_def es Let_def using assms(3,4) by (auto simp: adddiag_def content_def canon_content_def fresh_def)
  from 1 2 3 obtain p where "scan_loop pres mx syn pos (EncodeTo syn s @ rest) st =
      (if sc_truncated (st' p) then st' p else scan_loop pres mx syn (p + k + 1) (dropWhile is_nl rest) (st' p))" by metis
  then show ?thesis using 4 [of p] by (intro exI [of _ "p + k + 1"] exI [of _ "st' p"]) simp
qed

section \<open>Scanning encoded segments\<close>

lemma EncodeTo_head:
  assumes "ed_Validate syn = None" "segment_ok syn s"
  shows "\<exists>c r. EncodeTo syn s = c # r \<and> is_alnum c \<and> take 3 (EncodeTo syn s @ t) = Tag s"
proof -
  have "list_all is_alnum (Tag s)" "length (Tag s) = 3" using assms(2) by (auto simp: segment_ok_def validTag_def split: if_splits)
  moreover from this have "escape syn (Tag s) = Tag s" using escape_alnum [OF assms(1)] by simp
  ultimately show ?thesis unfolding EncodeTo_def by (cases "Tag s") simp_all
qed

lemma dropWhile_nl_segments:
  assumes "ed_Validate syn = None" "list_all (segment_ok syn) segs" "list_all is_nl nl"
  shows "dropWhile is_nl (nl @ concat (map (\<lambda>s. EncodeTo syn s @ nl) segs)) = concat (map (\<lambda>s. EncodeTo syn s @ nl) segs)"
proof (cases segs)
  case Nil
  then show ?thesis using assms(3) by (simp add: list_all_iff)
next
  case (Cons s' ss)
  then obtain c r where "EncodeTo syn s' = c # r" "is_alnum c" using EncodeTo_head [OF assms(1), of s' "''''"] assms(2) by auto
  moreover have "\<not> is_nl c" using alnum_no_nl [of "[c]"] \<open>is_alnum c\<close> by simp
  ultimately show ?thesis using assms(3) Cons by (simp add: dropWhile_append2 list_all_iff)
qed

lemma scan_segments:
  assumes "ed_Validate syn = None" "list_all (segment_ok syn) segs" "list_all is_nl nl" "fresh st" "length (sc_segments st) + length segs \<le> mx" "length (sc_segments st) < mx"
  shows "\<exists>st'. scan_loop pres mx syn pos (concat (map (\<lambda>s. EncodeTo syn s @ nl) segs)) st = st'
     \<and> map content (sc_segments st') = map content (sc_segments st) @ map canon_content segs
     \<and> \<not> sc_started st' \<and> \<not> sc_released st'
     \<and> (length (sc_segments st) + length segs < mx \<longrightarrow> sc_diags st' = sc_diags st)"
  using assms(2,4-)
proof (induction segs arbitrary: pos st)
  case Nil
  then show ?case by (simp add: scan_loop.simps fresh_def)
next
  case (Cons s segs)
  let ?t = "concat (map (\<lambda>s. EncodeTo syn s @ nl) segs)"
  have ok: "segment_ok syn s" "list_all (segment_ok syn) segs" using Cons.prems by simp_all
  note dw = dropWhile_nl_segments [OF assms(1) ok(2) assms(3)]
  obtain p st' where s: "scan_loop pres mx syn pos (EncodeTo syn s @ nl @ ?t) st = (if sc_truncated st' then st' else scan_loop pres mx syn p ?t st')"
     "map content (sc_segments st') = map content (sc_segments st) @ [canon_content s]" "fresh (st'\<lparr>sc_truncated := False\<rparr>)"
     "sc_truncated st' \<longleftrightarrow> Suc (length (sc_segments st)) = mx" "\<not> sc_truncated st' \<longrightarrow> sc_diags st' = sc_diags st"
    using scan_segment [OF assms(1) ok(1) Cons.prems(2), of mx pres pos "nl @ ?t"] Cons.prems(3) unfolding dw by auto
  have len: "length (sc_segments st') = Suc (length (sc_segments st))" using s(2) by (metis length_append_singleton length_map)
  show ?case
  proof (cases "sc_truncated st'")
    case True
    then have "Suc (length (sc_segments st)) = mx" using s(4) by blast
    then have "length segs = 0" using Cons.prems(3) by (cases "length segs") auto
    then have "segs = []" by simp
    then show ?thesis using True s by (simp add: fresh_def)
  next
    case False
    then have f: "fresh st'" using s(3) by (simp add: fresh_def)
    have "length (sc_segments st') + length segs \<le> mx" "length (sc_segments st') < mx" using len Cons.prems(3,4) s(4) False by auto
    from Cons.IH [OF ok(2) f this, of p] show ?thesis using False s len by simp
  qed
qed

lemma read_una_UNAString:
  assumes "ed_Validate syn = None" "sy_Version syn = 3" "RepetitionEnabled syn \<or> RepetitionSep syn = CHR ''*''"
  shows "read_una (UNAString syn @ t) = Some (syn, t)"
proof -
  have "RepetitionEnabled syn \<Longrightarrow> RepetitionSep syn \<noteq> CHR '' ''"
    using Validate_None(1) [OF assms(1)] by (auto simp: validServiceChar_def)
  then show ?thesis using assms(2,3) by (cases syn) (auto simp: read_una_def UNAString_def DefaultSyntax_def Let_def)
qed

text \<open>What a sender may put in front: nothing when the syntax is the default one, a service
  string advice with its line break otherwise.\<close>

definition wire_text :: "bool \<Rightarrow> ed_syntax \<Rightarrow> string \<Rightarrow> ed_segment list \<Rightarrow> string" where
  "wire_text una syn nl segs = (if una then UNAString syn @ nl else '''') @ concat (map (\<lambda>s. EncodeTo syn s @ nl) segs)"

lemma Scan_wire_text:
  assumes "ed_Validate syn = None" "segs \<noteq> []" "list_all (segment_ok syn) segs" "list_all is_nl nl" "length segs \<le> maxSeg opts"
    and "if una then sy_Version syn = 3 \<and> (RepetitionEnabled syn \<or> RepetitionSep syn = CHR ''*'') \<and> so_Syntax opts = None
         else so_Syntax opts = Some syn \<or> so_Syntax opts = None \<and> syn = DefaultSyntax 3"
  shows "\<exists>segs' ds. Scan (wire_text una syn nl segs) opts = Inr (segs', syn, ds) \<and> map content segs' = map canon_content segs
     \<and> (length segs < maxSeg opts \<longrightarrow> ds = [])"
proof -
  let ?body = "concat (map (\<lambda>s. EncodeTo syn s @ nl) segs)"
  obtain s ss where ss: "segs = s # ss" using assms(2) by (cases segs) auto
  then have sok: "segment_ok syn s" using assms(3) by simp
  obtain c r where c: "EncodeTo syn s = c # r" "is_alnum c" "take 3 ?body = Tag s"
    using EncodeTo_head [OF assms(1) sok, of "nl @ concat (map (\<lambda>s. EncodeTo syn s @ nl) ss)"] ss by auto
  have cn: "\<not> is_lead c" "\<not> is_nl c" using c(2) by (auto simp: is_alnum_def is_upper_def is_lower_def is_digit_def is_lead_def is_nl_def)
  have l: "takeWhile is_lead (wire_text una syn nl segs) = []"
    using cn c(1) by (cases una) (simp_all add: wire_text_def UNAString_def is_lead_def ss)
  have tag: "Tag s \<noteq> ''UNA''" using sok by (auto simp: segment_ok_def validTag_def split: if_splits)
  have bn: "dropWhile is_nl (nl @ ?body) = ?body"
    using assms(4) cn(2) c(1) ss by (simp add: dropWhile_append2 list_all_iff)
  have u: "(case read_una (wire_text una syn nl segs) of Some (sy, rest) \<Rightarrow> (sy, dropWhile is_nl rest)
             | None \<Rightarrow> (DefaultSyntax 3, wire_text una syn nl segs)) = (if una then syn else DefaultSyntax 3, ?body)"
  proof (cases una)
    case True
    then show ?thesis using read_una_UNAString [OF assms(1)] assms(6) bn by (simp add: wire_text_def)
  next
    case False
    then have "read_una (wire_text una syn nl segs) = None" using c(3) tag by (simp add: wire_text_def read_una_def)
    then show ?thesis using False by (simp add: wire_text_def)
  qed
  have sy: "(case so_Syntax opts of None \<Rightarrow> (if una then syn else DefaultSyntax 3) | Some sy \<Rightarrow> sy) = syn" using assms(6) by (auto split: if_splits)
  let ?pos = "length (wire_text una syn nl segs) - length ?body"
  have mx: "0 < maxSeg opts" by (simp add: maxSeg_def DefaultMaxSegments_def)
  have fr: "fresh (init_state ?pos [])" "sc_segments (init_state ?pos []) = []" "sc_diags (init_state ?pos []) = []"
    by (simp_all add: fresh_def init_state_def)
  obtain st' where st': "scan_loop (PreserveLineBreaks opts) (maxSeg opts) syn ?pos ?body (init_state ?pos []) = st'"
    "map content (sc_segments st') = map canon_content segs" "\<not> sc_started st'" "\<not> sc_released st'" "length segs < maxSeg opts \<longrightarrow> sc_diags st' = []"
    using scan_segments [OF assms(1,3,4) fr(1), of "maxSeg opts" "PreserveLineBreaks opts" ?pos] fr(2,3) assms(5) mx by auto
  have ne: "sc_segments st' \<noteq> []" using st'(2) ss by auto
  have "scan_end (length (wire_text una syn nl segs)) st' = Inr (sc_segments st', sc_diags st')"
    using st'(3,4) ne by (simp add: scan_end_def)
  then have "Scan (wire_text una syn nl segs) opts = Inr (sc_segments st', syn, sc_diags st')"
    unfolding Scan_def Let_def l list.size(3) drop_0 u using assms(1) st'(1) by (simp add: sy)
  then show ?thesis using st'(2,5) by blast
qed

section \<open>The canonical form is stable\<close>

lemma canon_element_idem [simp]: "canon_element (canon_element e) = canon_element e"
proof (cases e)
  case (Cons r rs)
  have "map canon_composite (rtrim_by [''''] (map canon_composite rs)) = rtrim_by [''''] (map canon_composite rs)"
  proof (rule map_idI)
    fix c assume "c \<in> set (rtrim_by [''''] (map canon_composite rs))"
    then show "canon_composite c = c" using set_rtrim_by [of "['''']" "map canon_composite rs"] by auto
  qed
  then show ?thesis by (simp add: canon_element_def Cons)
qed (simp add: canon_element_def canon_composite_def rtrim_empty_def)

lemma canon_elements_idem [simp]: "canon_elements (canon_elements es) = canon_elements es"
proof -
  have "map canon_element (canon_elements es) = canon_elements es"
  proof (rule map_idI)
    fix e assume "e \<in> set (canon_elements es)"
    then show "canon_element e = e" using set_rtrim_by [of "[['''']]" "map canon_element es"] by (auto simp: canon_elements_def)
  qed
  then show ?thesis by (simp add: canon_elements_def)
qed

lemma canon_elements_ok: "list_all (element_ok syn) es \<Longrightarrow> list_all (element_ok syn) (canon_elements es)"
  using set_rtrim_by [of "[['''']]" "map canon_element es"] canon_element_ok(3) by (fastforce simp: canon_elements_def list_all_iff)

lemma EncodeTo_by_canon:
  assumes "list_all (element_ok syn) (Elements s)"
  shows "EncodeTo syn s = escape syn (Tag s)
     @ concat (map (\<lambda>e. ElementSep syn # Join (map (join_composite syn) e) [RepetitionSep syn]) (canon_elements (Elements s))) @ [SegmentTerm syn]"
proof -
  obtain els where e: "EncodeTo syn s = escape syn (Tag s) @ concat (map (\<lambda>e. ElementSep syn # render_element syn e) els) @ [SegmentTerm syn]"
    "map canon_element els = canon_elements (Elements s)" "list_all (element_ok syn) els" using EncodeTo_canon [OF assms] by blast
  have "map (\<lambda>e. ElementSep syn # render_element syn e) els =
        map (\<lambda>e. ElementSep syn # Join (map (join_composite syn) e) [RepetitionSep syn]) (map canon_element els)"
    using e(3) by (auto simp: render_element_canon element_ok_def list_all_iff)
  then show ?thesis unfolding e(1) e(2) by simp
qed

lemma EncodeTo_same:
  assumes "list_all (element_ok syn) (Elements s)" "content s' = canon_content s"
  shows "EncodeTo syn s' = EncodeTo syn s"
proof -
  have s': "Tag s' = Tag s" "Elements s' = canon_elements (Elements s)" using assms(2) by (simp_all add: content_def canon_content_def)
  have "list_all (element_ok syn) (Elements s')" using canon_elements_ok [OF assms(1)] s' by simp
  then show ?thesis using EncodeTo_by_canon [OF assms(1)] EncodeTo_by_canon [of syn s'] s' by simp
qed

section \<open>What the scanner delivers\<close>

definition st_ok :: "ed_syntax \<Rightarrow> scan_state \<Rightarrow> bool" where
  "st_ok syn st \<longleftrightarrow> no_nl (sc_buf st) \<and> list_all no_nl (sc_comps st) \<and> list_all (list_all no_nl) (sc_reps st)
     \<and> (RepetitionEnabled syn \<or> sc_reps st = []) \<and> list_all (element_ok syn) (sc_elems st) \<and> list_all (segment_ok syn) (sc_segments st)"

definition st_len :: "nat \<Rightarrow> scan_state \<Rightarrow> bool" where
  "st_len mx st \<longleftrightarrow> (if sc_truncated st then length (sc_segments st) = mx else length (sc_segments st) < mx)"

lemma st_ok_adddiag [simp]: "st_ok syn (adddiag sev off code st) = st_ok syn st"
  by (simp add: st_ok_def adddiag_def)

lemma st_ok_flush:
  assumes "st_ok syn st"
  shows "st_ok syn (flushComponent st)" "RepetitionEnabled syn \<Longrightarrow> st_ok syn (flushRepetition st)" "st_ok syn (flushElement st)"
  using assms by (auto simp: st_ok_def flushComponent_def flushRepetition_def flushElement_def Let_def element_ok_def reps_ok_def)

lemma st_ok_line_break: "st_ok syn st \<Longrightarrow> st_ok syn (line_break pos st)"
  by (simp add: line_break_def st_ok_def adddiag_def)

lemma st_ok_released: "st_ok syn st \<Longrightarrow> \<not> is_nl b \<Longrightarrow> st_ok syn (released_byte syn pos b st)"
  by (simp add: released_byte_def st_ok_def adddiag_def Let_def)

lemma st_ok_plain:
  assumes "st_ok syn st" "\<not> is_nl b"
  shows "st_ok syn (plain_byte syn b st)"
proof -
  have u: "st_ok syn (x\<lparr>sc_started := True\<rparr>) = st_ok syn x" for x by (simp add: st_ok_def)
  show ?thesis using st_ok_flush [OF assms(1)] assms by (auto simp: plain_byte_def u) (auto simp: st_ok_def)
qed

lemma new_segment_ok:
  assumes "st_ok syn st" "validTag (elems_tag (sc_elems st))"
  shows "segment_ok syn (new_segment st)"
proof -
  have "list_all (element_ok syn) (tl (sc_elems st))" using assms(1) by (cases "sc_elems st") (auto simp: st_ok_def)
  then show ?thesis using assms(2) by (simp add: segment_ok_def new_segment_def)
qed

lemma st_ok_end: "st_ok syn st \<Longrightarrow> st_ok syn (end_segment mx pos st)"
  using st_ok_flush(3) [of syn st] new_segment_ok [of syn "flushElement st"]
  by (auto simp: end_segment_def Let_def st_ok_def adddiag_def)

lemma flushElement_segments [simp]:
  "sc_segments (flushElement st) = sc_segments st" "sc_truncated (flushElement st) = sc_truncated st" "sc_diags (flushElement st) = sc_diags st"
  by (simp_all add: flushElement_def flushRepetition_def flushComponent_def Let_def)

lemma st_len_end: "st_len mx st \<Longrightarrow> \<not> sc_truncated st \<Longrightarrow> st_len mx (end_segment mx pos st)"
  by (auto simp: st_len_def end_segment_def Let_def adddiag_def)

lemma st_len_other:
  "st_len mx (line_break pos st) = st_len mx st" "st_len mx (released_byte syn pos b st) = st_len mx st"
  "st_len mx (plain_byte syn b st) = st_len mx st" "sc_truncated (line_break pos st) = sc_truncated st"
  "sc_truncated (released_byte syn pos b st) = sc_truncated st" "sc_truncated (plain_byte syn b st) = sc_truncated st"
  by (simp_all add: st_len_def line_break_def released_byte_def plain_byte_def adddiag_def Let_def flushElement_def flushRepetition_def flushComponent_def)

lemma scan_loop_ok:
  assumes "st_ok syn st" "st_len mx st" "\<not> sc_truncated st"
  shows "st_ok syn (scan_loop False mx syn pos raw st) \<and> st_len mx (scan_loop False mx syn pos raw st)"
  using assms
proof (induction "False" mx syn pos raw st rule: scan_loop.induct)
  case (2 mx syn pos b rest st)
  define k where "k = length (takeWhile is_nl rest)"
  define st' where "st' = (end_segment mx pos st)\<lparr>sc_segStart := pos + k + 1\<rparr>"
  have e: "st_ok syn st'" "st_len mx st'" using st_ok_end [OF 2(5), of mx pos] st_len_end [OF 2(6,7), of pos]
    by (simp_all add: st'_def st_ok_def st_len_def)
  consider "is_nl b" | "\<not> is_nl b" "sc_released st" | "\<not> is_nl b" "\<not> sc_released st" "is_term syn b" | "\<not> is_nl b" "\<not> sc_released st" "\<not> is_term syn b" by blast
  then show ?case
  proof cases
    case 1
    then show ?thesis using 2(1,5-7) by (simp add: scan_loop.simps(2) st_ok_line_break st_len_other)
  next
    case b: 2
    then show ?thesis using 2(2,5-7) by (simp add: scan_loop.simps(2) st_ok_released st_len_other)
  next
    case b: 3
    have "scan_loop False mx syn pos (b # rest) st = (if sc_truncated st' then st' else scan_loop False mx syn (pos + k + 1) (drop k rest) st')"
      using b by (simp add: scan_loop.simps(2) Let_def k_def st'_def)
    then show ?thesis using e 2(3) [OF _ _ _ k_def st'_def] b by simp
  next
    case b: 4
    then show ?thesis using 2(4,5-7) by (simp add: scan_loop.simps(2) st_ok_plain st_len_other)
  qed
qed (simp add: scan_loop.simps(1))

text \<open>A syntax a service string advice can convey: what \<open>Scan\<close> works with when none is imposed.\<close>

definition una_syntax :: "ed_syntax \<Rightarrow> bool" where
  "una_syntax syn \<longleftrightarrow> sy_Version syn = 3 \<and> (RepetitionEnabled syn \<or> RepetitionSep syn = CHR ''*'')"

lemma scan_end_ok:
  assumes "st_ok syn st" "st_len mx st" "scan_end n st = Inr (segs, ds)"
  shows "segs \<noteq> []" "list_all (segment_ok syn) segs" "length segs \<le> mx"
proof -
  define st1 where "st1 = (if sc_released st then adddiag Error n ''trailing_release'' st else st)"
  have o1: "st_ok syn st1" "sc_segments st1 = sc_segments st" "sc_truncated st1 = sc_truncated st"
    using assms(1) by (auto simp: st1_def) (simp_all add: adddiag_def)
  define st2 where "st2 = adddiag Error (sc_segStart (flushElement st1)) ''unterminated_segment'' (flushElement st1)"
  have o2: "st_ok syn st2" "sc_segments st2 = sc_segments st"
    using st_ok_flush(3) [OF o1(1)] o1(2) by (simp_all add: st2_def) (simp add: adddiag_def)
  have sg: "list_all (segment_ok syn) (sc_segments st)" using assms(1) by (simp add: st_ok_def)
  consider (part) "sc_started st1" "\<not> sc_truncated st" "sc_segments st \<noteq> []"
      "segs = (if validTag (elems_tag (sc_elems st2)) then sc_segments st2 @ [new_segment st2] else sc_segments st2)"
    | (whole) "sc_segments st \<noteq> []" "segs = sc_segments st"
    using assms(3) o1(2,3) unfolding scan_end_def Let_def st1_def [symmetric] st2_def [symmetric] by (auto split: if_splits)
  then have "segs \<noteq> [] \<and> list_all (segment_ok syn) segs \<and> length segs \<le> mx"
  proof cases
    case part
    then show ?thesis using o2 sg assms(2) new_segment_ok [OF o2(1)] by (auto simp: st_len_def)
  next
    case whole
    then show ?thesis using sg assms(2) by (auto simp: st_len_def split: if_splits)
  qed
  then show "segs \<noteq> []" "list_all (segment_ok syn) segs" "length segs \<le> mx" by blast+
qed

lemma Scan_ok:
  assumes "Scan raw opts = Inr (segs, syn, ds)" "\<not> PreserveLineBreaks opts"
  shows "ed_Validate syn = None" "segs \<noteq> []" "list_all (segment_ok syn) segs" "length segs \<le> maxSeg opts"
    "so_Syntax opts = None \<Longrightarrow> una_syntax syn"
    "so_Syntax opts = Some sy \<Longrightarrow> syn = sy"
proof -
  define lead where "lead = length (takeWhile is_lead raw)"
  define sb where "sb = (case read_una (drop lead raw) of Some (sy, rest) \<Rightarrow> (sy, dropWhile is_nl rest) | None \<Rightarrow> (DefaultSyntax 3, drop lead raw))"
  define ds0 where "ds0 = (if lead > 0 then [mk_diag Info 0 (-1) ''leading_whitespace''] else [])"
  define pos where "pos = length raw - length (snd sb)"
  define st where "st = scan_loop False (maxSeg opts) syn pos (snd sb) (init_state pos ds0)"
  have syn: "syn = (case so_Syntax opts of Some sy \<Rightarrow> sy | None \<Rightarrow> fst sb)" and v: "ed_Validate syn = None"
    and e: "scan_end (length raw) st = Inr (segs, ds)"
    using assms unfolding Scan_def Let_def lead_def [symmetric] sb_def [symmetric] ds0_def [symmetric] st_def pos_def
    by (auto split: option.splits sum.splits prod.splits)
  show "ed_Validate syn = None" by (rule v)
  have "0 < maxSeg opts" by (simp add: maxSeg_def DefaultMaxSegments_def)
  then have st: "st_ok syn st \<and> st_len (maxSeg opts) st"
    unfolding st_def by (intro scan_loop_ok) (simp_all add: init_state_def st_ok_def st_len_def)
  show "segs \<noteq> []" "list_all (segment_ok syn) segs" "length segs \<le> maxSeg opts"
    using scan_end_ok [OF conjunct1 [OF st] conjunct2 [OF st] e] .
  show "una_syntax syn" if "so_Syntax opts = None"
    using syn that by (auto simp: una_syntax_def sb_def read_una_def Let_def DefaultSyntax_def split: if_splits option.splits)
  show "syn = sy" if "so_Syntax opts = Some sy" using syn that by simp
qed

text \<open>C8: relaying is a fixed point. Whatever input the scanner accepts (line breaks being framing, the
  service characters taken from the input), encoding the segments it delivered behind a service
  string advice and scanning that text again succeeds with the same service characters and the
  same segments up to trailing empty components, repetitions and elements; every segment encodes to the
  same bytes as before, so every further relay hop is the identity; and below the segment limit the
  second scan has nothing to report. This holds with or without a line break after each segment.\<close>

theorem edifact_relay_fixed_point:
  assumes "Scan raw opts = Inr (segs, syn, ds)" "\<not> PreserveLineBreaks opts" "so_Syntax opts = None" "list_all is_nl nl"
  shows "\<exists>segs' ds'. Scan (UNAString syn @ nl @ concat (map (\<lambda>s. EncodeTo syn s @ nl) segs)) opts = Inr (segs', syn, ds')
     \<and> map content segs' = map canon_content segs
     \<and> map (EncodeTo syn) segs' = map (EncodeTo syn) segs
     \<and> (length segs < maxSeg opts \<longrightarrow> ds' = [])"
proof -
  note ok = Scan_ok [OF assms(1,2)]
  have una: "una_syntax syn" by (rule ok(5) [OF assms(3)])
  obtain segs' ds' where s': "Scan (wire_text True syn nl segs) opts = Inr (segs', syn, ds')" "map content segs' = map canon_content segs"
    "length segs < maxSeg opts \<longrightarrow> ds' = []"
    using Scan_wire_text [OF ok(1-3) assms(4) ok(4), of True] una assms(3) by (auto simp: una_syntax_def)
  have "EncodeTo syn (segs' ! i) = EncodeTo syn (segs ! i)" if "i < length segs" for i
  proof (rule EncodeTo_same)
    show "list_all (element_ok syn) (Elements (segs ! i))" using ok(3) that by (simp add: list_all_length segment_ok_def)
    have "i < length segs'" using that s'(2) by (metis length_map)
    then show "content (segs' ! i) = canon_content (segs ! i)" using s'(2) that by (metis nth_map)
  qed
  then have "map (EncodeTo syn) segs' = map (EncodeTo syn) segs"
    using s'(2) by (intro nth_equalityI) (auto dest: map_eq_imp_length_eq)
  then show ?thesis using s' by (simp add: wire_text_def)
qed

theorem edifact_relay_fixed_point_witness:
  "\<exists>segs syn ds segs' ds'.
     Scan ''UNA:+.?*;UNB+UNOA:4++A*B?*C:;LIN+++;'' \<lparr>so_Syntax = None, PreserveLineBreaks = False, MaxSegments = 9\<rparr> = Inr (segs, syn, ds)
   \<and> Scan (UNAString syn @ [CHR 0x0A] @ concat (map (\<lambda>s. EncodeTo syn s @ [CHR 0x0A]) segs))
       \<lparr>so_Syntax = None, PreserveLineBreaks = False, MaxSegments = 9\<rparr> = Inr (segs', syn, ds')
   \<and> map content segs' = [(''UNB'', [[[''UNOA'', ''4'']], [['''']], [[''A''], [''B*C'']]]), (''LIN'', [])]"
proof -
  let ?o = "\<lparr>so_Syntax = None, PreserveLineBreaks = False, MaxSegments = 9\<rparr>"
  let ?raw = "''UNA:+.?*;UNB+UNOA:4++A*B?*C:;LIN+++;''"
  have "case Scan ?raw ?o of Inl _ \<Rightarrow> False | Inr (segs, syn, ds) \<Rightarrow>
      map canon_content segs = [(''UNB'', [[[''UNOA'', ''4'']], [['''']], [[''A''], [''B*C'']]]), (''LIN'', [])]"
    by code_simp
  then obtain segs syn ds where s: "Scan ?raw ?o = Inr (segs, syn, ds)"
    "map canon_content segs = [(''UNB'', [[[''UNOA'', ''4'']], [['''']], [[''A''], [''B*C'']]]), (''LIN'', [])]"
    by (auto split: sum.splits prod.splits)
  show ?thesis using edifact_relay_fixed_point [OF s(1), of "[CHR 0x0A]"] s by (auto simp: is_nl_def)
qed

end
