(* ===== verification/Edifact_Interchange.thy ===== *)
theory Edifact_Interchange
  imports Edifact
begin

text \<open>
  Interchanges (\<open>src/pkg/edifact/interchange.go\<close>, \<open>encode.go\<close>, \<open>charset.go\<close>) and the CONTRL
  syntax report (\<open>contrl.go\<close>): assembling segments into messages and groups, the envelope checks,
  the two-pass decode that infers the syntax version, building and finalising an interchange, and
  the report on one. A zero-valued segment (empty tag) stands for an absent one, as in the code.
  The repertoires checked by a predicate rest on Unicode's table of printable characters, which is
  not modelled: the two predicates on a text are the parameters \<open>latin1\<close> and \<open>utf8\<close>.
\<close>

section \<open>Repertoires\<close>

datatype ed_charset = SetCharset string "char list" | PredCharset string "string \<Rightarrow> bool"

fun charset_Valid :: "ed_charset \<Rightarrow> string \<Rightarrow> bool" where
  "charset_Valid (SetCharset _ allowed) s = list_all (\<lambda>c. c \<in> set allowed) s"
| "charset_Valid (PredCharset _ pred) s = pred s"

definition upper_letters :: string where "upper_letters = map char_of [65 ..< 91 :: nat]"
definition lower_letters :: string where "lower_letters = map char_of [97 ..< 123 :: nat]"
definition decimal_digits :: string where "decimal_digits = map char_of [48 ..< 58 :: nat]"

lemma letters_code [code]: "upper_letters = ''ABCDEFGHIJKLMNOPQRSTUVWXYZ''" "lower_letters = ''abcdefghijklmnopqrstuvwxyz''"
  "decimal_digits = ''0123456789''"
  by (simp_all add: upper_letters_def lower_letters_def decimal_digits_def upt_conv_Cons char_of_def bit_Suc_0_iff)

definition levelAPunct :: string where
  "levelAPunct = '' .,-()/='' @ [CHR 0x27] @ ''+:?!'' @ [CHR 0x22] @ ''%&*;<>''"

definition levelBExtra :: string where
  "levelBExtra = ''#@[]_{}'' @ [CHR 0x5C] @ ''|~''"

definition CharsetUNOA :: ed_charset where
  "CharsetUNOA = SetCharset ''UNOA'' (upper_letters @ decimal_digits @ levelAPunct)"

definition CharsetUNOB :: ed_charset where
  "CharsetUNOB = SetCharset ''UNOB'' (upper_letters @ lower_letters @ decimal_digits @ levelAPunct @ levelBExtra)"

definition CharsetByName :: "(string \<Rightarrow> bool) \<Rightarrow> (string \<Rightarrow> bool) \<Rightarrow> string \<Rightarrow> ed_charset option" where
  "CharsetByName latin1 utf8 name0 =
     (let name = ToUpper (TrimSpace name0) in
      if name = ''UNOA'' then Some CharsetUNOA
      else if name = ''UNOB'' then Some CharsetUNOB
      else if name \<in> set [''UNOC'', ''UNOD'', ''UNOE'', ''UNOF'', ''UNOG'', ''UNOH'', ''UNOI'', ''UNOJ'', ''UNOK'']
      then Some (PredCharset ''UNOC'' latin1)
      else if name = ''UNOY'' then Some (PredCharset ''UNOY'' utf8)
      else None)"

text \<open>\<open>Sanitise\<close>: upper case, a blank for what is not permitted, runs of blanks collapsed.\<close>

fun collapse_blanks :: "bool \<Rightarrow> string \<Rightarrow> string" where
  "collapse_blanks lastSpace [] = []"
| "collapse_blanks lastSpace (r # rs) =
     (if r = CHR '' '' then (if lastSpace then collapse_blanks True rs else r # collapse_blanks True rs)
      else r # collapse_blanks False rs)"

definition Sanitise :: "ed_charset \<Rightarrow> string \<Rightarrow> string" where
  "Sanitise cs s = TrimSpace (collapse_blanks False (map (\<lambda>r. if charset_Valid cs [r] then r else CHR '' '') (ToUpper s)))"

section \<open>Messages, groups, interchanges\<close>

record ed_message =
  m_Header :: ed_segment
  m_Segments :: "ed_segment list"
  m_Trailer :: ed_segment

record ed_group =
  g_Header :: ed_segment
  g_Messages :: "ed_message list"
  g_Trailer :: ed_segment

record message_id =
  mi_Type :: string
  mi_Version :: string
  mi_Release :: string
  ControllingAgency :: string
  AssociationCode :: string

record party =
  pa_ID :: string
  Qualifier :: string
  RoutingAddr :: string
  InternalID :: string
  InternalSub :: string

record interchange =
  HadUNA :: bool
  ic_Syntax :: ed_syntax
  ic_Header :: ed_segment
  ic_Trailer :: ed_segment
  Groups :: "ed_group list"
  Messages :: "ed_message list"
  ic_Segments :: "ed_segment list"
  ic_Raw :: string
  ic_Diagnostics :: "ed_diagnostic list"

definition zero_syntax :: ed_syntax where
  "zero_syntax = \<lparr>ComponentSep = CHR 0x00, ElementSep = CHR 0x00, DecimalMark = CHR 0x00, ReleaseChar = CHR 0x00,
     RepetitionSep = CHR 0x00, SegmentTerm = CHR 0x00, sy_Version = 0, RepetitionEnabled = False\<rparr>"

definition zero_interchange :: interchange where
  "zero_interchange = \<lparr>HadUNA = False, ic_Syntax = zero_syntax, ic_Header = zero_segment, ic_Trailer = zero_segment,
     Groups = [], Messages = [], ic_Segments = [], ic_Raw = '''', ic_Diagnostics = []\<rparr>"

definition message_id_of :: "composite \<Rightarrow> message_id" where
  "message_id_of c = \<lparr>mi_Type = comp_Get c 0, mi_Version = comp_Get c 1, mi_Release = comp_Get c 2,
     ControllingAgency = comp_Get c 3, AssociationCode = comp_Get c 4\<rparr>"

definition message_ID :: "ed_message \<Rightarrow> message_id" where
  "message_ID m = message_id_of (elem_First (seg_Elem (m_Header m) 1))"

definition Reference :: "ed_message \<Rightarrow> string" where
  "Reference m = seg_Value (m_Header m) 0"

definition msg_Find :: "ed_message \<Rightarrow> string \<Rightarrow> ed_segment list" where
  "msg_Find m tag = filter (\<lambda>s. Tag s = tag) (m_Segments m)"

definition msg_First :: "ed_message \<Rightarrow> string \<Rightarrow> ed_segment option" where
  "msg_First m tag = find (\<lambda>s. Tag s = tag) (m_Segments m)"

definition partyFrom :: "composite \<Rightarrow> party" where
  "partyFrom c = \<lparr>pa_ID = comp_Get c 0, Qualifier = comp_Get c 1, RoutingAddr = comp_Get c 2, InternalID = comp_Get c 3, InternalSub = comp_Get c 4\<rparr>"

definition ic_HasErrors :: "interchange \<Rightarrow> bool" where
  "ic_HasErrors ic = list_ex (\<lambda>d. ed_Severity d = Error) (ic_Diagnostics ic)"

definition ic_diag :: "ed_severity \<Rightarrow> nat \<Rightarrow> int \<Rightarrow> string \<Rightarrow> interchange \<Rightarrow> interchange" where
  "ic_diag sev off seg code ic = ic\<lparr>ic_Diagnostics := ic_Diagnostics ic @ [mk_diag sev off seg code]\<rparr>"

definition seg_diag :: "ed_segment \<Rightarrow> string \<Rightarrow> interchange \<Rightarrow> interchange" where
  "seg_diag s code ic = ic_diag Error (sg_Offset s) (int (sg_Index s)) code ic"

definition Sender :: "interchange \<Rightarrow> party" where
  "Sender ic = partyFrom (elem_First (seg_Elem (ic_Header ic) 1))"

definition Recipient :: "interchange \<Rightarrow> party" where
  "Recipient ic = partyFrom (elem_First (seg_Elem (ic_Header ic) 2))"

definition ControlRef :: "interchange \<Rightarrow> string" where
  "ControlRef ic = seg_Value (ic_Header ic) 4"

definition AckRequested :: "interchange \<Rightarrow> bool" where
  "AckRequested ic \<longleftrightarrow> seg_Value (ic_Header ic) 8 = ''1''"

definition TestIndicator :: "interchange \<Rightarrow> bool" where
  "TestIndicator ic \<longleftrightarrow> seg_Value (ic_Header ic) 10 = ''1''"

section \<open>Assembling\<close>

type_synonym assembly = "interchange \<times> ed_message option \<times> ed_group option"

definition closeMessage :: "ed_segment \<Rightarrow> assembly \<Rightarrow> assembly" where
  "closeMessage trailer a =
     (case a of (ic, cm, cg) \<Rightarrow>
        (case cm of
           None \<Rightarrow> a
         | Some m0 \<Rightarrow>
             let m = m0\<lparr>m_Trailer := trailer\<rparr> in
             (ic\<lparr>Messages := Messages ic @ [m]\<rparr>, None, map_option (\<lambda>g. g\<lparr>g_Messages := g_Messages g @ [m]\<rparr>) cg)))"

definition on_ic :: "(interchange \<Rightarrow> interchange) \<Rightarrow> assembly \<Rightarrow> assembly" where
  "on_ic f a = (f (fst a), snd a)"

definition assemble_step :: "ed_segment \<Rightarrow> assembly \<Rightarrow> assembly" where
  "assemble_step s a =
     (case a of (ic, cm, cg) \<Rightarrow>
      if Tag s = ''UNB'' then
        on_ic (\<lambda>ic. (if Tag (ic_Header ic) \<noteq> '''' then seg_diag s ''duplicate_unb'' ic else ic)\<lparr>ic_Header := s\<rparr>) a
      else if Tag s = ''UNZ'' then
        (let (ic1, cm1, cg1) = closeMessage zero_segment (on_ic (if cm \<noteq> None then seg_diag s ''missing_unt'' else id) a);
             (ic2, cg2) = (case cg1 of
                             None \<Rightarrow> (ic1, None)
                           | Some g \<Rightarrow> ((seg_diag s ''unclosed_ung'' ic1)\<lparr>Groups := Groups ic1 @ [g]\<rparr>, None))
         in (ic2\<lparr>ic_Trailer := s\<rparr>, cm1, cg2))
      else if Tag s = ''UNG'' then
        ((case cg of None \<Rightarrow> ic | Some g \<Rightarrow> (seg_diag s ''nested_ung'' ic)\<lparr>Groups := Groups ic @ [g]\<rparr>), cm,
         Some \<lparr>g_Header = s, g_Messages = [], g_Trailer = zero_segment\<rparr>)
      else if Tag s = ''UNE'' then
        (let (ic1, cm1, cg1) = closeMessage zero_segment (on_ic (if cm \<noteq> None then seg_diag s ''missing_unt'' else id) a)
         in case cg1 of
              None \<Rightarrow> (seg_diag s ''orphan_une'' ic1, cm1, None)
            | Some g \<Rightarrow> (ic1\<lparr>Groups := Groups ic1 @ [g\<lparr>g_Trailer := s\<rparr>]\<rparr>, cm1, None))
      else if Tag s = ''UNH'' then
        (let (ic1, cm1, cg1) = (if cm \<noteq> None then closeMessage zero_segment (on_ic (seg_diag s ''unclosed_unh'') a) else a)
         in (ic1, Some \<lparr>m_Header = s, m_Segments = [], m_Trailer = zero_segment\<rparr>, cg1))
      else if Tag s = ''UNT'' then
        (if cm = None then on_ic (seg_diag s ''orphan_unt'') a else closeMessage s a)
      else
        (case cm of
           None \<Rightarrow> on_ic (seg_diag s ''segment_outside_message'') a
         | Some m \<Rightarrow> (ic, Some (m\<lparr>m_Segments := m_Segments m @ [s]\<rparr>), cg)))"

definition assemble :: "ed_segment list \<Rightarrow> interchange \<Rightarrow> interchange" where
  "assemble segs ic0 =
     (let a = fold assemble_step segs (ic0, None, None);
          (ic1, cm1, cg1) = (case fst (snd a) of
                               None \<Rightarrow> a
                             | Some m \<Rightarrow> closeMessage zero_segment (on_ic (seg_diag (m_Header m) ''missing_unt'') a))
      in case cg1 of
           None \<Rightarrow> ic1
         | Some g \<Rightarrow> (seg_diag (g_Header g) ''missing_une'' ic1)\<lparr>Groups := Groups ic1 @ [g]\<rparr>)"

section \<open>The envelope checks\<close>

definition check_unz :: "interchange \<Rightarrow> interchange" where
  "check_unz ic =
     (if Tag (ic_Header ic) \<noteq> '''' \<and> Tag (ic_Trailer ic) \<noteq> ''''
      then let ic1 = (if seg_Value (ic_Trailer ic) 1 \<noteq> ControlRef ic then seg_diag (ic_Trailer ic) ''control_ref_mismatch'' ic else ic);
               want = (if Groups ic \<noteq> [] then length (Groups ic) else length (Messages ic))
           in case Atoi (TrimSpace (seg_Value (ic_Trailer ic) 0)) of
                None \<Rightarrow> seg_diag (ic_Trailer ic) ''bad_unz_count'' ic1
              | Some n \<Rightarrow> if n \<noteq> int want then seg_diag (ic_Trailer ic) ''unz_count_mismatch'' ic1 else ic1
      else ic)"

definition check_group :: "ed_group \<Rightarrow> interchange \<Rightarrow> interchange" where
  "check_group g ic =
     (if Tag (g_Trailer g) = '''' then ic
      else let ic1 = (if seg_Value (g_Trailer g) 1 \<noteq> seg_Value (g_Header g) 4 then seg_diag (g_Trailer g) ''group_ref_mismatch'' ic else ic)
           in case Atoi (TrimSpace (seg_Value (g_Trailer g) 0)) of
                None \<Rightarrow> ic1
              | Some n \<Rightarrow> if n \<noteq> int (length (g_Messages g)) then seg_diag (g_Trailer g) ''une_count_mismatch'' ic1 else ic1)"

definition check_message :: "ed_message \<Rightarrow> interchange \<Rightarrow> interchange" where
  "check_message m ic =
     (if Tag (m_Trailer m) = '''' then ic
      else let ic1 = (if seg_Value (m_Trailer m) 1 \<noteq> Reference m then seg_diag (m_Trailer m) ''message_ref_mismatch'' ic else ic)
           in case Atoi (TrimSpace (seg_Value (m_Trailer m) 0)) of
                None \<Rightarrow> seg_diag (m_Trailer m) ''bad_unt_count'' ic1
              | Some n \<Rightarrow> if n \<noteq> int (length (m_Segments m) + 2) then seg_diag (m_Trailer m) ''unt_count_mismatch'' ic1 else ic1)"

definition validateEnvelope :: "interchange \<Rightarrow> interchange" where
  "validateEnvelope ic =
     (let ic1 = (if Tag (ic_Header ic) = '''' then ic_diag Error 0 (-1) ''missing_unb'' ic else ic);
          ic2 = (if Tag (ic_Trailer ic) = '''' then ic_diag Error 0 (-1) ''missing_unz'' ic1 else ic1);
          ic3 = check_unz ic2;
          ic4 = fold check_group (Groups ic) ic3
      in fold check_message (Messages ic) ic4)"

definition segment_values :: "ed_segment \<Rightarrow> string list" where
  "segment_values s = concat (concat (Elements s))"

definition validateCharset :: "(string \<Rightarrow> bool) \<Rightarrow> (string \<Rightarrow> bool) \<Rightarrow> interchange \<Rightarrow> interchange" where
  "validateCharset latin1 utf8 ic =
     (let name = comp_Get (elem_First (seg_Elem (ic_Header ic) 0)) 0 in
      case CharsetByName latin1 utf8 name of
        None \<Rightarrow> if name \<noteq> '''' then ic_diag Info (sg_Offset (ic_Header ic)) (int (sg_Index (ic_Header ic))) ''unknown_charset'' ic else ic
      | Some cs \<Rightarrow>
          fold (\<lambda>s ic. if Tag s = ''UNB'' \<or> Tag s = ''UNA'' then ic
                       else fold (\<lambda>v ic. if charset_Valid cs v then ic
                                         else ic_diag Warn (sg_Offset s) (int (sg_Index s)) ''charset_violation'' ic)
                              (segment_values s) ic)
            (ic_Segments ic) ic)"

section \<open>Decoding\<close>

text \<open>The version \<open>UNB\<close> declares, and whether it is credible enough to read the input again.\<close>

definition declaredSyntaxVersion :: "ed_segment list \<Rightarrow> int \<times> bool" where
  "declaredSyntaxVersion segs =
     (case find (\<lambda>s. Tag s = ''UNB'') segs of
        None \<Rightarrow> (0, False)
      | Some s \<Rightarrow>
          let e = seg_Elem s 0; c = elem_First e; repertoire = comp_Get c 0; ver = comp_Get c 1 in
          if length repertoire \<noteq> 4 \<or> \<not> HasPrefix repertoire ''UNO'' \<or> \<not> is_upper (repertoire ! 3) then (0, False)
          else if length ver \<noteq> 1 \<or> \<not> is_digit (ver ! 0) then (0, False)
          else (int (dec_val ver), length e = 1 \<and> length c \<le> 2))"

definition isTagAt :: "string \<Rightarrow> string \<Rightarrow> bool" where
  "isTagAt b tag =
     (if \<not> HasPrefix b tag then False
      else case drop (length tag) b of [] \<Rightarrow> True | c # _ \<Rightarrow> \<not> is_alnum c)"

definition preambleLength :: "string \<Rightarrow> nat" where
  "preambleLength raw =
     (let trimmed = dropWhile is_lead raw in
      if isTagAt trimmed ''UNA'' \<or> isTagAt trimmed ''UNB'' then 0
      else let at = (\<lambda>tag. find (\<lambda>i. 0 < i \<and> isTagAt (drop i raw) tag) [0 ..< length raw]) in
           case (at ''UNA'', at ''UNB'') of
             (None, None) \<Rightarrow> 0
           | (Some i, None) \<Rightarrow> i
           | (None, Some j) \<Rightarrow> j
           | (Some i, Some j) \<Rightarrow> min i j)"

record parse_options =
  po_Scan :: scan_options
  SkipPreamble :: bool
  Strict :: bool
  SkipCharsetCheck :: bool

definition begins_UNA :: "string \<Rightarrow> bool" where
  "begins_UNA raw \<longleftrightarrow> HasPrefix (dropWhile is_lead raw) ''UNA''"

text \<open>The text to decode and whether it starts with a service string advice.\<close>

definition skip_preamble :: "parse_options \<Rightarrow> string \<Rightarrow> string \<times> bool \<times> ed_diagnostic list" where
  "skip_preamble opts raw =
     (let off = (if SkipPreamble opts then preambleLength raw else 0) in
      if off > 0
      then case Scan (drop off raw) (po_Scan opts) of
             Inr (psegs, _, _) \<Rightarrow>
               if psegs \<noteq> [] \<and> Tag (hd psegs) = ''UNB'' \<and> list_ex (\<lambda>s. Tag s = ''UNZ'') psegs
               then (drop off raw, begins_UNA (drop off raw), [mk_diag Warn 0 (-1) ''preamble_before_interchange''])
               else (raw, begins_UNA raw, [])
           | Inl _ \<Rightarrow> (raw, begins_UNA raw, [])
      else (raw, begins_UNA raw, []))"

definition infer_syntax ::
  "parse_options \<Rightarrow> string \<Rightarrow> bool \<Rightarrow> ed_segment list \<times> ed_syntax \<times> ed_diagnostic list \<Rightarrow> ed_segment list \<times> ed_syntax \<times> ed_diagnostic list" where
  "infer_syntax opts body had r =
     (case r of (segs, syn0, diags0) \<Rightarrow>
      let (declared, credible) = declaredSyntaxVersion segs;
          (syn, diags) = (if 1 \<le> declared \<and> declared \<le> MaxSyntaxVersion then (syn0\<lparr>sy_Version := declared\<rparr>, diags0)
                          else if declared \<noteq> 0 then (syn0, diags0 @ [mk_diag Warn 0 (-1) ''bad_syntax_version''])
                          else (syn0, diags0))
      in if so_Syntax (po_Scan opts) = None \<and> \<not> had \<and> \<not> RepetitionEnabled syn \<and> sy_Version syn \<ge> 4 \<and> credible
         then let rsyn = DefaultSyntax (sy_Version syn) in
              (case Scan body ((po_Scan opts)\<lparr>so_Syntax := Some rsyn\<rparr>) of
                 Inl _ \<Rightarrow> (segs, syn, diags)
               | Inr (rsegs, _, rdiags) \<Rightarrow>
                   if declaredSyntaxVersion rsegs = (sy_Version syn, True) then (rsegs, rsyn, rdiags)
                   else (segs, syn, diags @ [mk_diag Warn 0 (-1) ''unstable_syntax_inference'']))
         else (segs, syn, diags))"

text \<open>The result carries the first error when strictness asks for it.\<close>

definition ed_Parse ::
  "(string \<Rightarrow> bool) \<Rightarrow> (string \<Rightarrow> bool) \<Rightarrow> string \<Rightarrow> parse_options \<Rightarrow> ed_error + (interchange \<times> ed_diagnostic option)" where
  "ed_Parse latin1 utf8 raw opts =
     (let (body, had, lead) = skip_preamble opts raw in
      case Scan body (po_Scan opts) of
        Inl e \<Rightarrow> Inl e
      | Inr (segs0, syn0, diags0) \<Rightarrow>
          let (segs, syn, diags) = infer_syntax opts body had (segs0, syn0, diags0 @ lead);
              ic0 = zero_interchange\<lparr>HadUNA := had, ic_Raw := raw, ic_Syntax := syn, ic_Segments := segs, ic_Diagnostics := diags\<rparr>;
              ic1 = validateEnvelope (assemble segs ic0);
              ic2 = (if SkipCharsetCheck opts then ic1 else validateCharset latin1 utf8 ic1)
          in Inr (ic2, if Strict opts then find (\<lambda>d. ed_Severity d = Error) (ic_Diagnostics ic2) else None))"

section \<open>Building and encoding\<close>

definition simple :: "string \<Rightarrow> element" where "simple v = [[v]]"
definition Comp :: "string list \<Rightarrow> element" where "Comp cs = [cs]"

definition Seg :: "string \<Rightarrow> element list \<Rightarrow> ed_segment" where
  "Seg tag els = zero_segment\<lparr>Tag := tag, Elements := els\<rparr>"

record unb_params =
  CharsetID :: string
  SyntaxVersion :: int
  up_Sender :: party
  up_Recipient :: party
  up_Date :: string
  up_Time :: string
  up_ControlRef :: string
  AppRef :: string
  AckRequest :: bool
  up_Test :: bool

text \<open>\<open>strconv.Itoa\<close> of a version: a sign in front of the digits of a negative one.\<close>

definition Itoa_int :: "int \<Rightarrow> string" where
  "Itoa_int v = (if v < 0 then CHR ''-'' # Itoa (nat (- v)) else Itoa (nat v))"

definition NewInterchange :: "unb_params \<Rightarrow> interchange" where
  "NewInterchange p =
     (let v = (if SyntaxVersion p = 0 then 3 else SyntaxVersion p);
          cs = (if CharsetID p = '''' then ''UNOA'' else CharsetID p);
          ack = (if AckRequest p then ''1'' else '''');
          test = (if up_Test p then ''1'' else '''');
          unb = Seg ''UNB''
            [Comp [cs, Itoa_int v],
             Comp [pa_ID (up_Sender p), Qualifier (up_Sender p), RoutingAddr (up_Sender p)],
             Comp [pa_ID (up_Recipient p), Qualifier (up_Recipient p), RoutingAddr (up_Recipient p)],
             Comp [up_Date p, up_Time p],
             simple (up_ControlRef p), simple '''', simple (AppRef p), simple '''', simple ack, simple '''', simple test]
      in zero_interchange\<lparr>ic_Syntax := DefaultSyntax v, ic_Header := unb\<rparr>)"

definition AddMessage :: "string \<Rightarrow> message_id \<Rightarrow> ed_segment list \<Rightarrow> interchange \<Rightarrow> interchange" where
  "AddMessage ref mid body ic =
     ic\<lparr>Messages := Messages ic @ [\<lparr>m_Header = Seg ''UNH'' [simple ref,
          Comp [mi_Type mid, mi_Version mid, mi_Release mid, ControllingAgency mid, AssociationCode mid]],
        m_Segments = body, m_Trailer = zero_segment\<rparr>]\<rparr>"

definition emit_message :: "ed_message \<Rightarrow> ed_segment list" where
  "emit_message m = m_Header m # m_Segments m @ (if Tag (m_Trailer m) \<noteq> '''' then [m_Trailer m] else [])"

definition emit_group :: "ed_group \<Rightarrow> ed_segment list" where
  "emit_group g = g_Header g # concat (map emit_message (g_Messages g)) @ (if Tag (g_Trailer g) \<noteq> '''' then [g_Trailer g] else [])"

definition flatten :: "interchange \<Rightarrow> ed_segment list" where
  "flatten ic =
     (if Tag (ic_Header ic) \<noteq> '''' then [ic_Header ic] else [])
     @ (if Groups ic \<noteq> [] then concat (map emit_group (Groups ic)) else concat (map emit_message (Messages ic)))
     @ (if Tag (ic_Trailer ic) \<noteq> '''' then [ic_Trailer ic] else [])"

definition finalize_message :: "ed_message \<Rightarrow> ed_message" where
  "finalize_message m = m\<lparr>m_Trailer := Seg ''UNT'' [simple (Itoa (length (m_Segments m) + 2)), simple (Reference m)]\<rparr>"

definition Finalize :: "interchange \<Rightarrow> interchange" where
  "Finalize ic =
     (let ref = ControlRef ic;
          ic1 = ic\<lparr>Messages := map finalize_message (Messages ic),
                   Groups := map (\<lambda>g. g\<lparr>g_Messages := map finalize_message (g_Messages g),
                                        g_Trailer := Seg ''UNE'' [simple (Itoa (length (g_Messages g))), simple (seg_Value (g_Header g) 4)]\<rparr>) (Groups ic)\<rparr>;
          n = (if Groups ic1 \<noteq> [] then length (Groups ic1) else length (Messages ic1));
          ic2 = ic1\<lparr>ic_Trailer := Seg ''UNZ'' [simple (Itoa n), simple ref]\<rparr>
      in ic2\<lparr>ic_Segments := flatten ic2\<rparr>)"

record ed_encode_options =
  ee_Syntax :: "ed_syntax option"
  EmitUNA :: bool
  SegmentPerLine :: bool
  ee_CRLF :: bool
  ee_Charset :: "ed_charset option"

definition line_end :: "ed_encode_options \<Rightarrow> string" where
  "line_end opts = (if SegmentPerLine opts then (if ee_CRLF opts then [CHR 0x0D, CHR 0x0A] else [CHR 0x0A]) else '''')"

definition ed_Encode :: "ed_encode_options \<Rightarrow> interchange \<Rightarrow> ed_error + string" where
  "ed_Encode opts ic =
     (let syn0 = (if SegmentTerm (ic_Syntax ic) = CHR 0x00 then DefaultSyntax 3 else ic_Syntax ic);
          syn = (case ee_Syntax opts of Some sy \<Rightarrow> sy | None \<Rightarrow> syn0)
      in case ed_Validate syn of
           Some e \<Rightarrow> Inl e
         | None \<Rightarrow>
             let segs = (if ic_Segments ic = [] then flatten ic else ic_Segments ic);
                 nl = line_end opts;
                 out = (if EmitUNA opts \<or> \<not> IsDefault syn \<or> HadUNA ic then UNAString syn @ nl else '''')
                       @ concat (map (\<lambda>s. EncodeTo syn s @ nl) segs)
             in case ee_Charset opts of
                  Some cs \<Rightarrow> if charset_Valid cs (filter (\<lambda>c. \<not> is_nl c) out) then Inr out else Inl OutsideRepertoire
                | None \<Rightarrow> Inr out)"

end
