(* ===== verification/Edifact_Parse.thy ===== *)
theory Edifact_Parse
  imports Edifact_Scan Edifact_Interchange
begin

text \<open>
  Interchanges over the wire: a version 4 text read under version 3 rules (the first pass of the
  decoder), the syntax inference, and the round trip of an interchange that was built, finalised
  and encoded: it parses without an error to the same messages under the same syntax.
\<close>

section \<open>A version 4 text under version 3 rules\<close>

abbreviation syn3 :: ed_syntax where "syn3 \<equiv> DefaultSyntax 3"
abbreviation syn4 :: ed_syntax where "syn4 \<equiv> DefaultSyntax 4"

lemma Validate_Default [simp]: "ed_Validate (DefaultSyntax v) = None"
  by (simp add: ed_Validate_def DefaultSyntax_def validServiceChar_def is_alnum_def is_upper_def is_lower_def is_digit_def Let_def)

lemma syn34 [simp]:
  "ComponentSep (DefaultSyntax v) = CHR '':''" "ElementSep (DefaultSyntax v) = CHR ''+''" "ReleaseChar (DefaultSyntax v) = CHR ''?''"
  "RepetitionSep (DefaultSyntax v) = CHR ''*''" "SegmentTerm (DefaultSyntax v) = CHR 0x27" "DecimalMark (DefaultSyntax v) = CHR ''.''"
  "RepetitionEnabled (DefaultSyntax v) = (v \<ge> 4)" "sy_Version (DefaultSyntax v) = v"
  by (simp_all add: DefaultSyntax_def)

lemma service34: "isService syn4 b \<longleftrightarrow> isService syn3 b \<or> b = CHR ''*''"
  by (simp add: isService_def)

definition cur :: "scan_state \<Rightarrow> composite \<Rightarrow> ed_diagnostic list \<Rightarrow> scan_state" where
  "cur st L ds = st\<lparr>sc_comps := butlast L, sc_buf := last L, sc_started := True, sc_diags := ds\<rparr>"

lemma cur_simps [simp]: "sc_released (cur st L ds) = sc_released st" "cur (cur st L ds) L' ds' = cur st L' ds'"
  by (simp_all add: cur_def)

definition glue :: "composite \<Rightarrow> composite \<Rightarrow> composite" where
  "glue L c = butlast L @ [last L @ hd c] @ tl c"

lemma glue_simps [simp]: "glue L c \<noteq> []" "glue [''''] (x # xs) = x # xs" "L \<noteq> [] \<Longrightarrow> glue L ['''' ] = L"
  by (simp_all add: glue_def)

lemma scan3_escaped:
  assumes "isService syn4 b" "\<not> sc_released st"
  shows "\<exists>ds'. scan_loop pres mx syn3 pos (CHR ''?'' # b # rest) (cur st L ds) =
         scan_loop pres mx syn3 (pos + 2) rest (cur st (butlast L @ [last L @ [b]]) ds')"
proof (cases "isService syn3 b")
  case True
  then have "scan_loop pres mx syn3 pos (ReleaseChar syn3 # b # rest) (cur st L ds) =
      scan_loop pres mx syn3 (pos + 2) rest ((cur st L ds)\<lparr>sc_buf := sc_buf (cur st L ds) @ [b], sc_started := True\<rparr>)"
    using assms(2) by (intro scan_escaped) simp_all
  moreover have "(cur st L ds)\<lparr>sc_buf := sc_buf (cur st L ds) @ [b], sc_started := True\<rparr> = cur st (butlast L @ [last L @ [b]]) ds"
    by (simp add: cur_def)
  ultimately show ?thesis by auto
next
  case False
  then have b: "b = CHR ''*''" using assms(1) service34 by blast
  have n: "\<not> is_nl b" "\<not> is_nl CHR ''?''" by (simp_all add: b is_nl_def)
  have t: "\<not> is_term syn3 CHR ''?''" by (simp add: is_term_def)
  let ?r = "(cur st L ds)\<lparr>sc_released := True, sc_started := True\<rparr>"
  have e: "released_byte syn3 (pos + 1) b ?r = cur st (butlast L @ [last L @ [b]]) (sc_diags (adddiag Warn (pos + 1) ''stray_release'' ?r))"
    using assms(2) False by (cases st) (simp add: released_byte_def cur_def adddiag_def Let_def)
  have "scan_loop pres mx syn3 pos (CHR ''?'' # b # rest) (cur st L ds) = scan_loop pres mx syn3 (pos + 1) (b # rest) ?r"
    using n t assms(2) by (subst scan_loop.simps(2)) (simp add: plain_byte_def)
  also have "\<dots> = scan_loop pres mx syn3 (pos + 2) rest (released_byte syn3 (pos + 1) b ?r)"
    using n by (subst scan_loop.simps(2)) simp
  finally show ?thesis unfolding e by blast
qed

lemma scan3_plain:
  assumes "\<not> isService syn3 b" "\<not> is_nl b" "\<not> sc_released st"
  shows "scan_loop pres mx syn3 pos (b # rest) (cur st L ds) = scan_loop pres mx syn3 (pos + 1) rest (cur st (butlast L @ [last L @ [b]]) ds)"
proof -
  have "scan_loop pres mx syn3 pos (b # rest) (cur st L ds) =
      scan_loop pres mx syn3 (pos + 1) rest ((cur st L ds)\<lparr>sc_buf := sc_buf (cur st L ds) @ [b], sc_started := True\<rparr>)"
    using assms by (intro scan_plain) simp_all
  moreover have "(cur st L ds)\<lparr>sc_buf := sc_buf (cur st L ds) @ [b], sc_started := True\<rparr> = cur st (butlast L @ [last L @ [b]]) ds"
    by (simp add: cur_def)
  ultimately show ?thesis by metis
qed

lemma scan3_escape:
  assumes "no_nl w" "\<not> sc_released st" "L \<noteq> []"
  shows "\<exists>p ds'. scan_loop pres mx syn3 pos (escape syn4 w @ rest) (cur st L ds) =
         scan_loop pres mx syn3 p rest (cur st (butlast L @ [last L @ w]) ds')"
  using assms(1,3)
proof (induction w arbitrary: pos L ds)
  case Nil
  then have "butlast L @ [last L @ ''''] = L" by simp
  then show ?case by (simp only: escape.simps append_Nil) blast
next
  case (Cons b w)
  let ?L = "butlast L @ [last L @ [b]]"
  have "\<exists>p ds'. scan_loop pres mx syn3 pos (escape syn4 (b # w) @ rest) (cur st L ds) = scan_loop pres mx syn3 p (escape syn4 w @ rest) (cur st ?L ds')"
  proof (cases "isService syn4 b")
    case True
    then show ?thesis using scan3_escaped [OF True assms(2)] by simp blast
  next
    case False
    then have "\<not> isService syn3 b" using service34 by blast
    then show ?thesis using scan3_plain [OF _ _ assms(2)] Cons.prems(1) False by simp blast
  qed
  then obtain p ds' where p: "scan_loop pres mx syn3 pos (escape syn4 (b # w) @ rest) (cur st L ds) = scan_loop pres mx syn3 p (escape syn4 w @ rest) (cur st ?L ds')" by blast
  have "butlast ?L @ [last ?L @ w] = butlast L @ [last L @ b # w]" by simp
  then show ?case using Cons.IH [of ?L p ds'] Cons.prems(1) unfolding p by simp
qed

lemma scan3_components:
  assumes "c \<noteq> []" "list_all no_nl c" "\<not> sc_released st" "L \<noteq> []"
  shows "\<exists>p ds'. scan_loop pres mx syn3 pos (join_composite syn4 c @ rest) (cur st L ds) = scan_loop pres mx syn3 p rest (cur st (glue L c) ds')"
  using assms(1,2,4)
proof (induction c arbitrary: pos L ds)
  case (Cons x c)
  have x: "\<exists>p ds'. scan_loop pres mx syn3 pos (escape syn4 x @ r) (cur st L ds) = scan_loop pres mx syn3 p r (cur st (butlast L @ [last L @ x]) ds')" for r
    using scan3_escape [OF _ assms(3) Cons.prems(3)] Cons.prems(2) by simp
  show ?case
  proof (cases c)
    case Nil
    then show ?thesis using x [of rest] by (simp add: glue_def)
  next
    case c: (Cons y ys)
    let ?r = "join_composite syn4 c @ rest" and ?L = "butlast L @ [last L @ x] @ ['''']"
    obtain p ds' where p: "scan_loop pres mx syn3 pos (escape syn4 x @ CHR '':'' # ?r) (cur st L ds)
        = scan_loop pres mx syn3 p (CHR '':'' # ?r) (cur st (butlast L @ [last L @ x]) ds')" using x by blast
    have "(flushComponent (cur st (butlast L @ [last L @ x]) ds'))\<lparr>sc_started := True\<rparr> = cur st ?L ds'"
      by (simp add: flushComponent_def cur_def butlast_append)
    then have "scan_loop pres mx syn3 p (CHR '':'' # ?r) (cur st (butlast L @ [last L @ x]) ds') = scan_loop pres mx syn3 (p + 1) ?r (cur st ?L ds')"
      using scan_separator(1) [of syn3 "cur st (butlast L @ [last L @ x]) ds'" pres mx p ?r] assms(3) by simp
    moreover have "\<exists>p' ds''. scan_loop pres mx syn3 (p + 1) ?r (cur st ?L ds') = scan_loop pres mx syn3 p' rest (cur st (glue ?L c) ds'')"
      using Cons.IH [of ?L "p + 1" ds'] Cons.prems c by simp
    moreover have "glue ?L c = glue L (x # c)" using c by (simp add: glue_def butlast_append)
    moreover have "join_composite syn4 (x # c) @ rest = escape syn4 x @ CHR '':'' # ?r" using c by simp
    ultimately show ?thesis using p by (simp only:)
  qed
qed simp

fun glues :: "composite \<Rightarrow> element \<Rightarrow> composite" where
  "glues L [] = L"
| "glues L [c] = glue L c"
| "glues L (c # cs) = glues (glue (glue L c) [''*'']) cs"

lemma glues_nonempty [simp]: "L \<noteq> [] \<Longrightarrow> glues L e \<noteq> []"
  by (induction L e rule: glues.induct) simp_all

lemma scan3_repetitions:
  assumes "e \<noteq> []" "list_all (\<lambda>c. c \<noteq> [] \<and> list_all no_nl c) e" "\<not> sc_released st" "L \<noteq> []"
  shows "\<exists>p ds'. scan_loop pres mx syn3 pos (Join (map (join_composite syn4) e) ''*'' @ rest) (cur st L ds) =
         scan_loop pres mx syn3 p rest (cur st (glues L e) ds')"
  using assms(1,2,4)
proof (induction e arbitrary: pos L ds)
  case (Cons c e)
  have x: "\<exists>p ds'. scan_loop pres mx syn3 pos (join_composite syn4 c @ r) (cur st L ds) = scan_loop pres mx syn3 p r (cur st (glue L c) ds')" for r
    using scan3_components [OF _ _ assms(3) Cons.prems(3)] Cons.prems(2) by simp
  show ?case
  proof (cases e)
    case Nil
    then show ?thesis using x [of rest] by simp
  next
    case e: (Cons d es)
    let ?r = "Join (map (join_composite syn4) e) ''*'' @ rest" and ?L = "glue (glue L c) [''*'']"
    obtain p ds' where p: "scan_loop pres mx syn3 pos (join_composite syn4 c @ CHR ''*'' # ?r) (cur st L ds)
        = scan_loop pres mx syn3 p (CHR ''*'' # ?r) (cur st (glue L c) ds')" using x by blast
    have "scan_loop pres mx syn3 p (CHR ''*'' # ?r) (cur st (glue L c) ds') = scan_loop pres mx syn3 (p + 1) ?r (cur st ?L ds')"
      using scan3_plain [of "CHR ''*''" st pres mx p ?r "glue L c" ds'] assms(3) by (simp add: isService_def is_nl_def glue_def [of "glue L c"])
    moreover have "\<exists>p' ds''. scan_loop pres mx syn3 (p + 1) ?r (cur st ?L ds') = scan_loop pres mx syn3 p' rest (cur st (glues ?L e) ds'')"
      using Cons.IH [of ?L "p + 1" ds'] Cons.prems e by simp
    moreover have "Join (map (join_composite syn4) (c # e)) ''*'' @ rest = join_composite syn4 c @ CHR ''*'' # ?r" using e by simp
    moreover have "glues L (c # e) = glues ?L e" using e by simp
    ultimately show ?thesis using p by (simp only:)
  qed
qed simp

lemma scan3_elements:
  assumes "list_all (element_ok syn4) els" "\<not> sc_released st" "c0 \<noteq> []"
  shows "\<exists>p ds'. scan_loop pres mx syn3 pos (concat (map (\<lambda>e. CHR ''+'' # render_element syn4 e) els) @ rest) (pending (st\<lparr>sc_diags := ds\<rparr>) es [c0]) =
         scan_loop pres mx syn3 p rest (pending (st\<lparr>sc_diags := ds'\<rparr>)
           (es @ butlast ([c0] # map (\<lambda>e. [glues [''''] (canon_element e)]) els)) (last ([c0] # map (\<lambda>e. [glues [''''] (canon_element e)]) els)))"
  using assms(1,3)
proof (induction els arbitrary: pos es c0 ds)
  case Nil
  then show ?case by simp blast
next
  case (Cons e els)
  have ok: "element_ok syn4 e" "reps_ok syn4 e" using Cons.prems(1) by (simp_all add: element_ok_def)
  note ce = canon_element_ok(2) [OF ok(1)]
  let ?g = "glues [''''] (canon_element e)"
  let ?r = "concat (map (\<lambda>e. CHR ''+'' # render_element syn4 e) els) @ rest"
  let ?st = "st\<lparr>sc_elems := es @ [[c0]], sc_reps := [], sc_comps := [], sc_buf := '''', sc_started := True, sc_diags := ds\<rparr>"
  have f: "(flushElement (pending (st\<lparr>sc_diags := ds\<rparr>) es [c0]))\<lparr>sc_started := True\<rparr> = cur ?st [''''] ds"
    using flushElement_pending [of "[c0]" "st\<lparr>sc_diags := ds\<rparr>" es] Cons.prems(2) by (simp add: cur_def)
  have 1: "scan_loop pres mx syn3 pos (CHR ''+'' # render_element syn4 e @ ?r) (pending (st\<lparr>sc_diags := ds\<rparr>) es [c0]) =
      scan_loop pres mx syn3 (pos + 1) (render_element syn4 e @ ?r) (cur ?st [''''] ds)"
    using scan_separator(2) [of syn3 "pending (st\<lparr>sc_diags := ds\<rparr>) es [c0]" pres mx pos "render_element syn4 e @ ?r"] assms(2) f by simp
  have "\<exists>p ds'. scan_loop pres mx syn3 (pos + 1) (render_element syn4 e @ ?r) (cur ?st [''''] ds) = scan_loop pres mx syn3 p ?r (cur ?st ?g ds')"
    unfolding render_element_canon [OF ok(2)] using scan3_repetitions [OF _ ce, of ?st "['''']"] assms(2) by simp
  then obtain p ds' where 2: "scan_loop pres mx syn3 (pos + 1) (render_element syn4 e @ ?r) (cur ?st [''''] ds) = scan_loop pres mx syn3 p ?r (cur ?st ?g ds')" by blast
  have 3: "cur ?st ?g ds' = pending (st\<lparr>sc_diags := ds'\<rparr>) (es @ [[c0]]) [?g]" by (cases st) (simp add: cur_def pending_def)
  have "?g \<noteq> []" by simp
  from Cons.IH [OF _ this, of p ds' "es @ [[c0]]"] show ?case using Cons.prems(1) 1 2 3 by simp
qed

definition content3 :: "ed_segment \<Rightarrow> string \<times> element list" where
  "content3 s = (Tag s, map (\<lambda>e. [glues [''''] e]) (canon_elements (Elements s)))"

lemma scan3_segment:
  assumes "segment_ok syn4 s" "fresh st" "Suc (length (sc_segments st)) \<le> mx"
  shows "\<exists>p st'. scan_loop pres mx syn3 pos (EncodeTo syn4 s @ rest) st =
       (if sc_truncated st' then st' else scan_loop pres mx syn3 p (dropWhile is_nl rest) st')
     \<and> map content (sc_segments st') = map content (sc_segments st) @ [content3 s]
     \<and> (fresh (st'\<lparr>sc_truncated := False\<rparr>)) \<and> (sc_truncated st' \<longleftrightarrow> Suc (length (sc_segments st)) = mx)"
proof -
  have el: "list_all (element_ok syn4) (Elements s)" and vt: "validTag (Tag s)" using assms(1) by (simp_all add: segment_ok_def)
  have al: "list_all is_alnum (Tag s)" "Tag s \<noteq> ''''" using vt by (auto simp: validTag_def split: if_splits)
  obtain els where e: "EncodeTo syn4 s = escape syn4 (Tag s) @ concat (map (\<lambda>e. CHR ''+'' # render_element syn4 e) els) @ [CHR 0x27]"
    "map canon_element els = canon_elements (Elements s)" "list_all (element_ok syn4) els" using EncodeTo_canon [OF el] by auto
  have nr: "\<not> sc_released st" using assms(2) by (simp add: fresh_def)
  let ?body = "concat (map (\<lambda>e. CHR ''+'' # render_element syn4 e) els) @ CHR 0x27 # rest"
  have esc: "escape syn4 (Tag s) = escape syn3 (Tag s)" using escape_alnum [OF Validate_Default al(1)] by simp
  have "st\<lparr>sc_buf := sc_buf st @ Tag s, sc_started := True\<rparr> = pending (st\<lparr>sc_diags := sc_diags st\<rparr>) [] [[Tag s]]"
    using assms(2) by (cases st) (simp add: fresh_def pending_def)
  then have 1: "\<exists>p. scan_loop pres mx syn3 pos (EncodeTo syn4 s @ rest) st = scan_loop pres mx syn3 p ?body (pending (st\<lparr>sc_diags := sc_diags st\<rparr>) [] [[Tag s]])"
    using scan_escape [of syn3, OF Validate_Default alnum_no_nl [OF al(1)] nr, of pres mx pos ?body] al(2) by (simp add: e(1) esc) metis
  let ?xs = "map (\<lambda>e. [glues [''''] e]) (canon_elements (Elements s))"
  let ?l = "last ([[Tag s]] # ?xs)" and ?b = "butlast ([[Tag s]] # ?xs)"
  have m: "map (\<lambda>e. [glues [''''] (canon_element e)]) els = ?xs" unfolding e(2) [symmetric] by simp
  have 2: "\<exists>p' ds'. scan_loop pres mx syn3 p ?body (pending (st\<lparr>sc_diags := sc_diags st\<rparr>) [] [[Tag s]])
      = scan_loop pres mx syn3 p' (CHR 0x27 # rest) (pending (st\<lparr>sc_diags := ds'\<rparr>) ?b ?l)" for p
    using scan3_elements [OF e(3) nr, of "[Tag s]" pres mx p "CHR 0x27 # rest" "sc_diags st" "[]"] unfolding m append_Nil by force
  have lne: "?l \<noteq> []" "last ?l \<noteq> []"
  proof -
    have "?l \<in> set ([[Tag s]] # ?xs)" by (rule last_in_set) simp
    then obtain x where "?l = [[Tag s]] \<or> ?l = [glues [''''] x]" by auto
    then show "?l \<noteq> []" "last ?l \<noteq> []" by (elim disjE; simp)+
  qed
  have tm: "is_term syn3 CHR 0x27" "\<not> is_nl CHR 0x27" by (simp_all add: is_term_def is_nl_def)
  define k where "k = length (takeWhile is_nl rest)"
  have dk: "drop k rest = dropWhile is_nl rest" by (simp add: k_def dropWhile_eq_drop)
  define st' where "st' p ds = (end_segment mx p (pending (st\<lparr>sc_diags := ds\<rparr>) ?b ?l))\<lparr>sc_segStart := p + k + 1\<rparr>" for p ds
  have 3: "scan_loop pres mx syn3 p (CHR 0x27 # rest) (pending (st\<lparr>sc_diags := ds\<rparr>) ?b ?l) =
      (if sc_truncated (st' p ds) then st' p ds else scan_loop pres mx syn3 (p + k + 1) (dropWhile is_nl rest) (st' p ds))" for p ds
    using tm nr by (simp add: scan_loop.simps(2) Let_def st'_def k_def [symmetric] dk)
  have fr: "fresh (st\<lparr>sc_diags := ds\<rparr>)" for ds using assms(2) by (simp add: fresh_def)
  note es = end_segment_pending [OF fr vt refl refl refl lne]
  have 4: "map content (sc_segments (st' p ds)) = map content (sc_segments st) @ [content3 s]"
    "fresh ((st' p ds)\<lparr>sc_truncated := False\<rparr>)" "sc_truncated (st' p ds) \<longleftrightarrow> Suc (length (sc_segments st)) = mx" for p ds
    unfolding st'_def es Let_def using assms(2,3) by (auto simp: adddiag_def content_def content3_def fresh_def)
  from 1 2 3 obtain p ds where "scan_loop pres mx syn3 pos (EncodeTo syn4 s @ rest) st =
      (if sc_truncated (st' p ds) then st' p ds else scan_loop pres mx syn3 (p + k + 1) (dropWhile is_nl rest) (st' p ds))" by metis
  then show ?thesis using 4 [of p ds] by (intro exI [of _ "p + k + 1"] exI [of _ "st' p ds"]) simp
qed

lemma scan3_segments:
  assumes "list_all (segment_ok syn4) segs" "list_all is_nl nl" "fresh st" "length (sc_segments st) + length segs \<le> mx" "length (sc_segments st) < mx"
  shows "\<exists>st'. scan_loop pres mx syn3 pos (concat (map (\<lambda>s. EncodeTo syn4 s @ nl) segs)) st = st'
     \<and> map content (sc_segments st') = map content (sc_segments st) @ map content3 segs \<and> \<not> sc_started st' \<and> \<not> sc_released st'"
  using assms(1,3-)
proof (induction segs arbitrary: pos st)
  case Nil
  then show ?case by (simp add: scan_loop.simps fresh_def)
next
  case (Cons s segs)
  let ?t = "concat (map (\<lambda>s. EncodeTo syn4 s @ nl) segs)"
  have ok: "segment_ok syn4 s" "list_all (segment_ok syn4) segs" using Cons.prems by simp_all
  note dw = dropWhile_nl_segments [OF Validate_Default ok(2) assms(2)]
  obtain p st' where s: "scan_loop pres mx syn3 pos (EncodeTo syn4 s @ nl @ ?t) st = (if sc_truncated st' then st' else scan_loop pres mx syn3 p ?t st')"
     "map content (sc_segments st') = map content (sc_segments st) @ [content3 s]" "fresh (st'\<lparr>sc_truncated := False\<rparr>)"
     "sc_truncated st' \<longleftrightarrow> Suc (length (sc_segments st)) = mx"
    using scan3_segment [OF ok(1) Cons.prems(2), of mx pres pos "nl @ ?t"] Cons.prems(3) unfolding dw by auto
  have len: "length (sc_segments st') = Suc (length (sc_segments st))" using s(2) by (metis length_append_singleton length_map)
  show ?case
  proof (cases "sc_truncated st'")
    case True
    then have "Suc (length (sc_segments st)) = mx" using s(4) by blast
    then have "length segs = 0" using Cons.prems(3) by (cases "length segs") auto
    then have "segs = []" by simp
    then show ?thesis using True s by (simp add: fresh_def)
  next
    case False
    then have f: "fresh st'" using s(3) by (simp add: fresh_def)
    have "length (sc_segments st') + length segs \<le> mx" "length (sc_segments st') < mx" using len Cons.prems(3,4) s(4) False by auto
    from Cons.IH [OF ok(2) f this, of p] show ?thesis using False s len by simp
  qed
qed

lemma Scan3_wire_text:
  assumes "segs \<noteq> []" "list_all (segment_ok syn4) segs" "list_all is_nl nl" "length segs \<le> maxSeg opts" "so_Syntax opts = None"
  shows "\<exists>segs' ds. Scan (wire_text False syn4 nl segs) opts = Inr (segs', syn3, ds) \<and> map content segs' = map content3 segs"
proof -
  let ?body = "concat (map (\<lambda>s. EncodeTo syn4 s @ nl) segs)"
  have wt: "wire_text False syn4 nl segs = ?body" by (simp add: wire_text_def)
  obtain s ss where ss: "segs = s # ss" using assms(1) by (cases segs) auto
  then have sok: "segment_ok syn4 s" using assms(2) by simp
  obtain c r where c: "EncodeTo syn4 s = c # r" "is_alnum c" "take 3 ?body = Tag s"
    using EncodeTo_head [OF Validate_Default sok, of "nl @ concat (map (\<lambda>s. EncodeTo syn4 s @ nl) ss)"] ss by auto
  have "\<not> is_lead c" using c(2) by (auto simp: is_alnum_def is_upper_def is_lower_def is_digit_def is_lead_def)
  then have l: "takeWhile is_lead ?body = []" using c(1) by (simp add: ss)
  have "Tag s \<noteq> ''UNA''" using sok by (auto simp: segment_ok_def validTag_def split: if_splits)
  then have u: "read_una ?body = None" using c(3) by (simp add: read_una_def)
  have fr: "fresh (init_state 0 [])" "sc_segments (init_state 0 []) = []" by (simp_all add: fresh_def init_state_def)
  have mx: "0 < maxSeg opts" by (simp add: maxSeg_def DefaultMaxSegments_def)
  obtain st' where st': "scan_loop (PreserveLineBreaks opts) (maxSeg opts) syn3 0 ?body (init_state 0 []) = st'"
    "map content (sc_segments st') = map content3 segs" "\<not> sc_started st'" "\<not> sc_released st'"
    using scan3_segments [OF assms(2,3) fr(1), of "maxSeg opts" "PreserveLineBreaks opts" 0] fr(2) assms(4) mx by auto
  have ne: "sc_segments st' \<noteq> []" using st'(2) ss by auto
  have "scan_end (length ?body) st' = Inr (sc_segments st', sc_diags st')" using st'(3,4) ne by (simp add: scan_end_def)
  then have "Scan ?body opts = Inr (sc_segments st', syn3, sc_diags st')"
    unfolding Scan_def Let_def l list.size(3) drop_0 u using st'(1) assms(5) by simp
  then show ?thesis using st'(2) wt by auto
qed

section \<open>Reading fields of a segment that travelled\<close>

definition travelled :: "ed_segment \<Rightarrow> ed_segment \<Rightarrow> bool" where
  "travelled s' s \<longleftrightarrow> content s' = canon_content s"

lemma travelled_list: "map content ss' = map canon_content ss \<longleftrightarrow> list_all2 travelled ss' ss"
  by (simp add: travelled_def list_all2_conv_all_nth list_eq_iff_nth_eq) (metis nth_map)

lemma comp_Get_rtrim: "comp_Get (rtrim_by '''' c) i = comp_Get c i"
proof (induction c rule: rev_induct)
  case (snoc x c)
  then show ?case by (auto simp: comp_Get_def nth_append)
qed simp

lemma comp_Get_canon [simp]: "comp_Get (canon_composite c) i = comp_Get c i"
proof (cases "rtrim_empty c")
  case Nil
  then have "comp_Get c i = ''''" using comp_Get_rtrim [of c i] by (simp add: rtrim_empty_by comp_Get_def)
  moreover have "canon_composite c = ['''']" using Nil by (simp only: canon_composite_def list.case)
  ultimately show ?thesis by (simp add: comp_Get_def)
next
  case (Cons x xs)
  then have "canon_composite c = rtrim_by '''' c" by (simp add: canon_composite_def rtrim_empty_by)
  then show ?thesis using comp_Get_rtrim by simp
qed

lemma comp_Get_simps [simp]: "comp_Get [] i = ''''" "comp_Get [''''] i = ''''"
  by (simp_all add: comp_Get_def)

lemma elem_canon: "comp_Get (elem_First (canon_element e)) i = comp_Get (elem_First e) i"
  by (cases e) (simp_all add: canon_element_def elem_First_def)

lemma seg_travelled: "travelled s' s \<Longrightarrow> comp_Get (elem_First (seg_Elem s' k)) i = comp_Get (elem_First (seg_Elem s k)) i"
proof -
  assume "travelled s' s"
  then have e: "Elements s' = rtrim_by [['''']] (map canon_element (Elements s))" by (simp add: travelled_def content_def canon_content_def canon_elements_def)
  have "comp_Get (elem_First (if k < length (rtrim_by [['''']] xs) then rtrim_by [['''']] xs ! k else [])) i =
        comp_Get (elem_First (if k < length xs then xs ! k else [])) i" for xs
  proof (induction xs rule: rev_induct)
    case (snoc x xs)
    then show ?case by (auto simp: nth_append elem_First_def)
  qed simp
  from this [of "map canon_element (Elements s)"] show ?thesis
    by (auto simp: seg_Elem_def e elem_canon)
qed

lemma travelled_simps:
  assumes "travelled s' s"
  shows "Tag s' = Tag s" "seg_Value s' k = seg_Value s k" "seg_Get s' k i = seg_Get s k i"
  using assms seg_travelled [OF assms]
  by (simp_all add: travelled_def content_def canon_content_def seg_Value_def seg_Get_def elem_Get_def)

section \<open>Assembling what was emitted\<close>

definition service_tags :: "string list" where
  "service_tags = [''UNB'', ''UNZ'', ''UNG'', ''UNE'', ''UNH'', ''UNT'']"

definition whole_message :: "ed_message \<Rightarrow> bool" where
  "whole_message m \<longleftrightarrow> Tag (m_Header m) = ''UNH'' \<and> Tag (m_Trailer m) = ''UNT'' \<and> list_all (\<lambda>s. Tag s \<notin> set service_tags) (m_Segments m)"

definition msg_travelled :: "ed_message \<Rightarrow> ed_message \<Rightarrow> bool" where
  "msg_travelled m' m \<longleftrightarrow> travelled (m_Header m') (m_Header m) \<and> list_all2 travelled (m_Segments m') (m_Segments m)
     \<and> travelled (m_Trailer m') (m_Trailer m)"

lemma assemble_body:
  assumes "list_all2 travelled ss' ss" "list_all (\<lambda>s. Tag s \<notin> set service_tags) ss"
  shows "fold assemble_step ss' (ic, Some m, cg) = (ic, Some (m\<lparr>m_Segments := m_Segments m @ ss'\<rparr>), cg)"
  using assms
proof (induction ss' ss arbitrary: m rule: list_all2_induct)
  case (Cons s' ss' s ss)
  have "Tag s' \<notin> set service_tags" using travelled_simps(1) [OF Cons(1)] Cons.prems by simp
  then have "assemble_step s' (ic, Some m, cg) = (ic, Some (m\<lparr>m_Segments := m_Segments m @ [s']\<rparr>), cg)"
    by (simp add: assemble_step_def service_tags_def)
  then show ?case using Cons.IH [of "m\<lparr>m_Segments := m_Segments m @ [s']\<rparr>"] Cons.prems by simp
qed simp

lemma assemble_messages:
  assumes "list_all2 travelled ss' (concat (map emit_message ms))" "list_all whole_message ms"
  shows "\<exists>ms'. list_all2 msg_travelled ms' ms \<and> fold assemble_step ss' (ic, None, None) = (ic\<lparr>Messages := Messages ic @ ms'\<rparr>, None, None)"
  using assms
proof (induction ms arbitrary: ss' ic)
  case Nil
  then show ?case by simp
next
  case (Cons m ms)
  have wm: "whole_message m" "list_all whole_message ms" using Cons.prems(2) by simp_all
  have "emit_message m = m_Header m # m_Segments m @ [m_Trailer m]" using wm by (simp add: emit_message_def whole_message_def)
  then obtain h b t r where ss': "ss' = h # b @ t # r" "travelled h (m_Header m)" "list_all2 travelled b (m_Segments m)"
      "travelled t (m_Trailer m)" "list_all2 travelled r (concat (map emit_message ms))"
    using Cons.prems(1) by (auto simp: list_all2_append2 list_all2_Cons2)
  let ?m = "\<lparr>m_Header = h, m_Segments = b, m_Trailer = t\<rparr>"
  have tags: "Tag h = ''UNH''" "Tag t = ''UNT''" using travelled_simps(1) [OF ss'(2)] travelled_simps(1) [OF ss'(4)] wm by (simp_all add: whole_message_def)
  have "assemble_step h (ic, None, None) = (ic, Some \<lparr>m_Header = h, m_Segments = [], m_Trailer = zero_segment\<rparr>, None)"
    using tags by (simp add: assemble_step_def)
  moreover have "fold assemble_step b (ic, Some \<lparr>m_Header = h, m_Segments = [], m_Trailer = zero_segment\<rparr>, None) =
      (ic, Some \<lparr>m_Header = h, m_Segments = b, m_Trailer = zero_segment\<rparr>, None)"
    using assemble_body [OF ss'(3)] wm by (simp add: whole_message_def)
  moreover have "assemble_step t (ic, Some \<lparr>m_Header = h, m_Segments = b, m_Trailer = zero_segment\<rparr>, None) = (ic\<lparr>Messages := Messages ic @ [?m]\<rparr>, None, None)"
    using tags by (simp add: assemble_step_def closeMessage_def Let_def)
  ultimately have "fold assemble_step ss' (ic, None, None) = fold assemble_step r (ic\<lparr>Messages := Messages ic @ [?m]\<rparr>, None, None)"
    unfolding ss'(1) by simp
  moreover obtain ms' where "list_all2 msg_travelled ms' ms"
      "fold assemble_step r (ic\<lparr>Messages := Messages ic @ [?m]\<rparr>, None, None) = (ic\<lparr>Messages := Messages ic @ [?m] @ ms'\<rparr>, None, None)"
    using Cons.IH [OF ss'(5) wm(2), of "ic\<lparr>Messages := Messages ic @ [?m]\<rparr>"] by auto
  moreover have "msg_travelled ?m m" using ss' by (simp add: msg_travelled_def)
  ultimately show ?case by (intro exI [of _ "?m # ms'"]) simp
qed

lemma assemble_interchange:
  assumes "list_all2 travelled segs' (h # concat (map emit_message ms) @ [t])" "list_all whole_message ms" "Tag h = ''UNB''" "Tag t = ''UNZ''"
    "ic_Header ic = zero_segment" "Messages ic = []"
  shows "\<exists>h' ms' t'. assemble segs' ic = ic\<lparr>ic_Header := h', Messages := ms', ic_Trailer := t'\<rparr>
     \<and> travelled h' h \<and> list_all2 msg_travelled ms' ms \<and> travelled t' t"
proof -
  obtain h' b t' where s: "segs' = h' # b @ [t']" "travelled h' h" "list_all2 travelled b (concat (map emit_message ms))" "travelled t' t"
    using assms(1) by (auto simp: list_all2_append2 list_all2_Cons2)
  have tags: "Tag h' = ''UNB''" "Tag t' = ''UNZ''" using travelled_simps(1) s assms(3,4) by auto
  have 1: "assemble_step h' (ic, None, None) = (ic\<lparr>ic_Header := h'\<rparr>, None, None)"
    using tags assms(5) by (simp add: assemble_step_def on_ic_def zero_segment_def)
  obtain ms' where m: "list_all2 msg_travelled ms' ms" "fold assemble_step b (ic\<lparr>ic_Header := h'\<rparr>, None, None) = (ic\<lparr>ic_Header := h', Messages := ms'\<rparr>, None, None)"
    using assemble_messages [OF s(3) assms(2), of "ic\<lparr>ic_Header := h'\<rparr>"] assms(6) by auto
  have "assemble_step t' (ic\<lparr>ic_Header := h', Messages := ms'\<rparr>, None, None) = (ic\<lparr>ic_Header := h', Messages := ms', ic_Trailer := t'\<rparr>, None, None)"
    using tags by (simp add: assemble_step_def closeMessage_def on_ic_def)
  then have "assemble segs' ic = ic\<lparr>ic_Header := h', Messages := ms', ic_Trailer := t'\<rparr>"
    unfolding assemble_def s(1) by (simp add: 1 m(2))
  then show ?thesis using s m(1) by blast
qed

section \<open>The envelope of a finalised interchange\<close>

lemma Atoi_TrimSpace_Itoa: "n < 2 ^ 62 \<Longrightarrow> Atoi (TrimSpace (Itoa n)) = Some (int n)"
proof -
  assume n: "n < 2 ^ 62"
  have "\<forall>c \<in> set (Itoa n). \<not> is_space c"
    using Itoa_digits [of n] by (auto simp: all_digits_def list_all_iff is_digit_def is_space_def)
  then have "TrimSpace (Itoa n) = Itoa n" by simp
  moreover have "n < 2 ^ 63" using n by simp
  ultimately show ?thesis by (simp only: Atoi_Itoa)
qed

lemma seg_Value_Seg [simp]:
  "seg_Value (Seg t (simple a # es)) 0 = a" "seg_Value (Seg t (e # simple b # es)) 1 = b" "Tag (Seg t es) = t" "Elements (Seg t es) = es"
  "seg_Value (Seg t (e # simple b # es)) (Suc 0) = b"
  by (simp_all add: seg_Value_def seg_Elem_def elem_Get_def elem_First_def comp_Get_def Seg_def simple_def)

definition final_message :: "ed_message \<Rightarrow> bool" where
  "final_message m \<longleftrightarrow> m_Trailer m = Seg ''UNT'' [simple (Itoa (length (m_Segments m) + 2)), simple (Reference m)]
     \<and> length (m_Segments m) + 2 < 2 ^ 62"

lemma check_message_final:
  assumes "msg_travelled m' m" "final_message m"
  shows "check_message m' ic = ic"
proof -
  have t: "travelled (m_Header m') (m_Header m)" "travelled (m_Trailer m') (m_Trailer m)" "length (m_Segments m') = length (m_Segments m)"
    using assms(1) by (auto simp: msg_travelled_def dest: list_all2_lengthD)
  have "Reference m' = Reference m" using travelled_simps(2) [OF t(1)] by (simp add: Reference_def)
  moreover have "seg_Value (m_Trailer m') 0 = Itoa (length (m_Segments m) + 2)" "seg_Value (m_Trailer m') 1 = Reference m"
    using travelled_simps(2) [OF t(2)] assms(2) by (simp_all add: final_message_def)
  ultimately show ?thesis using Atoi_TrimSpace_Itoa [of "length (m_Segments m) + 2"] assms(2) t(3)
    by (simp add: check_message_def Let_def final_message_def)
qed

lemma validateEnvelope_final:
  assumes "travelled (ic_Header ic) h" "travelled (ic_Trailer ic) t" "list_all2 msg_travelled (Messages ic) ms" "list_all final_message ms"
    "Tag h = ''UNB''" "t = Seg ''UNZ'' [simple (Itoa (length ms)), simple (seg_Value h 4)]" "Groups ic = []" "length ms < 2 ^ 62"
  shows "validateEnvelope ic = ic"
proof -
  have tags: "Tag (ic_Header ic) = ''UNB''" "Tag (ic_Trailer ic) = ''UNZ''"
    using travelled_simps(1) [OF assms(1)] travelled_simps(1) [OF assms(2)] assms(5,6) by simp_all
  have v: "seg_Value (ic_Trailer ic) 0 = Itoa (length ms)" "seg_Value (ic_Trailer ic) 1 = seg_Value h 4" "ControlRef ic = seg_Value h 4"
    using travelled_simps(2) [OF assms(1)] travelled_simps(2) [OF assms(2)] assms(6) by (simp_all add: ControlRef_def)
  have len: "length (Messages ic) = length ms" using assms(3) by (rule list_all2_lengthD)
  have u: "check_unz ic = ic" using tags v len assms(7) Atoi_TrimSpace_Itoa [OF assms(8)] by (simp add: check_unz_def Let_def)
  have "fold check_message ms' ic = ic" if "list_all2 msg_travelled ms' ms''" "list_all final_message ms''" for ms' ms''
    using that by (induction ms' ms'' rule: list_all2_induct) (simp_all add: check_message_final)
  then show ?thesis using tags u assms(3,4,7) by (simp add: validateEnvelope_def Let_def)
qed

lemma fold_no_error:
  assumes "\<And>x ic. x \<in> set xs \<Longrightarrow> ic_HasErrors (f x ic) = ic_HasErrors ic \<and> Messages (f x ic) = Messages ic \<and> ic_Header (f x ic) = ic_Header ic \<and> ic_Syntax (f x ic) = ic_Syntax ic"
  shows "ic_HasErrors (fold f xs ic) = ic_HasErrors ic \<and> Messages (fold f xs ic) = Messages ic \<and> ic_Header (fold f xs ic) = ic_Header ic \<and> ic_Syntax (fold f xs ic) = ic_Syntax ic"
  using assms by (induction xs arbitrary: ic) auto

lemma ic_diag_simps [simp]:
  "ic_HasErrors (ic_diag sev off seg code ic) \<longleftrightarrow> ic_HasErrors ic \<or> sev = Error"
  "Messages (ic_diag sev off seg code ic) = Messages ic" "ic_Header (ic_diag sev off seg code ic) = ic_Header ic"
  "ic_Syntax (ic_diag sev off seg code ic) = ic_Syntax ic"
  by (simp_all add: ic_diag_def ic_HasErrors_def mk_diag_def)

lemma validateCharset_same:
  "ic_HasErrors (validateCharset l u ic) = ic_HasErrors ic \<and> Messages (validateCharset l u ic) = Messages ic
   \<and> ic_Header (validateCharset l u ic) = ic_Header ic \<and> ic_Syntax (validateCharset l u ic) = ic_Syntax ic"
proof -
  have inner: "ic_HasErrors (fold (\<lambda>v ic. if charset_Valid cs v then ic else ic_diag Warn a b ''charset_violation'' ic) vs ic) = ic_HasErrors ic
      \<and> Messages (fold (\<lambda>v ic. if charset_Valid cs v then ic else ic_diag Warn a b ''charset_violation'' ic) vs ic) = Messages ic
      \<and> ic_Header (fold (\<lambda>v ic. if charset_Valid cs v then ic else ic_diag Warn a b ''charset_violation'' ic) vs ic) = ic_Header ic
      \<and> ic_Syntax (fold (\<lambda>v ic. if charset_Valid cs v then ic else ic_diag Warn a b ''charset_violation'' ic) vs ic) = ic_Syntax ic" for cs a b vs ic
    by (rule fold_no_error) simp
  show ?thesis
  proof (cases "CharsetByName l u (comp_Get (elem_First (seg_Elem (ic_Header ic) 0)) 0)")
    case (Some cs)
    then show ?thesis unfolding validateCharset_def Let_def Some option.case by (intro fold_no_error) (simp add: inner)
  qed (simp add: validateCharset_def Let_def)
qed

section \<open>Inferring the syntax version\<close>

definition repertoire_name :: "string \<Rightarrow> bool" where
  "repertoire_name cs \<longleftrightarrow> length cs = 4 \<and> HasPrefix cs ''UNO'' \<and> is_upper (cs ! 3)"

lemma rtrim_by_Cons: "x \<noteq> z \<Longrightarrow> rtrim_by z (x # xs) = x # rtrim_by z xs"
  by (induction xs rule: rev_induct) (auto simp: rtrim_by_def)

lemma canon_header:
  assumes "repertoire_name cs"
  shows "canon_elements ([[cs, [d]]] # es) = [[cs, [d]]] # canon_elements es"
proof -
  have "cs \<noteq> ''''" using assms by (auto simp: repertoire_name_def)
  then have "canon_element [[cs, [d]]] = [[cs, [d]]]" by (simp add: canon_element_def canon_composite_def rtrim_empty_def)
  then show ?thesis by (simp add: canon_elements_def rtrim_by_Cons)
qed

lemma declared_header:
  assumes "Tag h = ''UNB''" "Elements h = [[cs, [d]]] # es" "repertoire_name cs" "is_digit d"
  shows "declaredSyntaxVersion (h # rest) = (int (digit_val d), True)"
  using assms by (simp add: declaredSyntaxVersion_def seg_Elem_def elem_First_def comp_Get_def Let_def repertoire_name_def)

lemma declared_travelled:
  assumes "list_all2 travelled segs' (h # rest)" "Tag h = ''UNB''" "Elements h = [[cs, [d]]] # es" "repertoire_name cs" "is_digit d"
  shows "declaredSyntaxVersion segs' = (int (digit_val d), True)"
proof -
  obtain h' r' where s: "segs' = h' # r'" "travelled h' h" using assms(1) by (auto simp: list_all2_Cons2)
  have "Tag h' = ''UNB''" "Elements h' = [[cs, [d]]] # canon_elements es"
    using s(2) assms(2,3) canon_header [OF assms(4)] by (simp_all add: travelled_def content_def canon_content_def)
  then show ?thesis unfolding s(1) by (rule declared_header [OF _ _ assms(4,5)])
qed

lemma declared_content3:
  assumes "map content segs' = map content3 (h # rest)" "Tag h = ''UNB''" "Elements h = [[cs, [d]]] # es" "repertoire_name cs" "is_digit d"
  shows "declaredSyntaxVersion segs' = (int (digit_val d), True)"
proof -
  obtain h' r' where s: "segs' = h' # r'" "content h' = content3 h" using assms(1) by (cases segs') auto
  have "Tag h' = ''UNB''" "Elements h' = [[cs, [d]]] # map (\<lambda>e. [glues [''''] e]) (canon_elements es)"
    using s(2) assms(2,3) canon_header [OF assms(4)] by (simp_all add: content_def content3_def)
  then show ?thesis unfolding s(1) by (rule declared_header [OF _ _ assms(4,5)])
qed

lemma version_irrelevant:
  "escape (syn\<lparr>sy_Version := x\<rparr>) w = escape syn w" "EncodeTo (syn\<lparr>sy_Version := x\<rparr>) s = EncodeTo syn s"
  "UNAString (syn\<lparr>sy_Version := x\<rparr>) = UNAString syn" "ed_Validate (syn\<lparr>sy_Version := x\<rparr>) = ed_Validate syn"
  "segment_ok (syn\<lparr>sy_Version := x\<rparr>) = segment_ok syn"
proof -
  have e: "escape (syn\<lparr>sy_Version := x\<rparr>) w = escape syn w" for w by (induction w) (auto simp: isService_def)
  then show "escape (syn\<lparr>sy_Version := x\<rparr>) w = escape syn w" .
  have ee: "escape (syn\<lparr>sy_Version := x\<rparr>) = escape syn" by (rule ext) (rule e)
  have rc: "render_composite (syn\<lparr>sy_Version := x\<rparr>) = render_composite syn" by (simp add: fun_eq_iff render_composite_def ee)
  have "render_element (syn\<lparr>sy_Version := x\<rparr>) = render_element syn" by (rule ext) (simp add: render_element_def Let_def rc)
  then show "EncodeTo (syn\<lparr>sy_Version := x\<rparr>) s = EncodeTo syn s" by (simp add: EncodeTo_def e)
  show "UNAString (syn\<lparr>sy_Version := x\<rparr>) = UNAString syn" by (simp add: UNAString_def)
  show "ed_Validate (syn\<lparr>sy_Version := x\<rparr>) = ed_Validate syn" by (simp add: ed_Validate_def)
  show "segment_ok (syn\<lparr>sy_Version := x\<rparr>) = segment_ok syn"
    by (simp add: fun_eq_iff segment_ok_def element_ok_def [abs_def] reps_ok_def)
qed

lemma segment_ok_default:
  "v < 4 \<Longrightarrow> segment_ok (DefaultSyntax v) = segment_ok syn3" "EncodeTo (DefaultSyntax v) s = EncodeTo (DefaultSyntax (if v \<ge> 4 then 4 else 3)) s"
proof -
  have d: "DefaultSyntax v = (DefaultSyntax (if v \<ge> 4 then 4 else 3))\<lparr>sy_Version := v\<rparr>" by (simp add: DefaultSyntax_def)
  show "segment_ok (DefaultSyntax v) = segment_ok syn3" if "v < 4"
  proof -
    have "DefaultSyntax v = syn3\<lparr>sy_Version := v\<rparr>" using d that by simp
    then show ?thesis using version_irrelevant(5) [where syn = syn3 and x = v] by simp
  qed
  show "EncodeTo (DefaultSyntax v) s = EncodeTo (DefaultSyntax (if v \<ge> 4 then 4 else 3)) s"
    by (subst d) (rule version_irrelevant(2))
qed

lemma infer_built:
  assumes segs: "segs = h # rest" "Tag h = ''UNB''" "Elements h = [[cs, [d]]] # es" "repertoire_name cs" "is_digit d"
    and v: "v = int (digit_val d)" "1 \<le> v" "v \<le> 4" "list_all (segment_ok (DefaultSyntax v)) segs"
    and opts: "list_all is_nl nl" "length segs < maxSeg (po_Scan opts)" "so_Syntax (po_Scan opts) = None"
    and out: "out = wire_text una (DefaultSyntax v) nl segs"
  shows "\<exists>segs0 syn0 ds0 segs'. Scan out (po_Scan opts) = Inr (segs0, syn0, ds0)
     \<and> infer_syntax opts out una (segs0, syn0, ds0) = (segs', DefaultSyntax v, []) \<and> list_all2 travelled segs' segs"
proof -
  have ne: "segs \<noteq> []" and le: "length segs \<le> maxSeg (po_Scan opts)" using segs opts by simp_all
  note dt = declared_travelled [OF _ segs(2-5), of _ rest, folded segs(1), folded v(1)]
  show ?thesis
  proof (cases una)
    case True
    let ?syn = "(DefaultSyntax v)\<lparr>sy_Version := 3\<rparr>"
    have out': "out = wire_text True ?syn nl segs" using out True by (simp add: wire_text_def version_irrelevant)
    have "\<exists>segs' ds. Scan out (po_Scan opts) = Inr (segs', ?syn, ds) \<and> map content segs' = map canon_content segs \<and> (length segs < maxSeg (po_Scan opts) \<longrightarrow> ds = [])"
      unfolding out' using v(4) opts by (intro Scan_wire_text [OF _ ne _ opts(1) le]) (simp_all add: version_irrelevant)
    then obtain segs' where s': "Scan out (po_Scan opts) = Inr (segs', ?syn, [])" "list_all2 travelled segs' segs"
      using opts(2) by (auto simp: travelled_list)
    have "infer_syntax opts out una (segs', ?syn, []) = (segs', DefaultSyntax v, [])"
      using dt [OF s'(2)] v(2,3) True by (simp add: infer_syntax_def MaxSyntaxVersion_def DefaultSyntax_def)
    then show ?thesis using s' by blast
  next
    case una: False
    show ?thesis
    proof (cases "v < 4")
      case True
      have out': "out = wire_text False syn3 nl segs" using out una True segment_ok_default(2) [of v] by (simp add: wire_text_def)
      have "list_all (segment_ok syn3) segs" using v(4) segment_ok_default(1) [OF True] by simp
      then have "\<exists>segs' ds. Scan out (po_Scan opts) = Inr (segs', syn3, ds) \<and> map content segs' = map canon_content segs \<and> (length segs < maxSeg (po_Scan opts) \<longrightarrow> ds = [])"
        unfolding out' using opts(3) by (intro Scan_wire_text [OF _ ne _ opts(1) le]) simp_all
      then obtain segs' where s': "Scan out (po_Scan opts) = Inr (segs', syn3, [])" "list_all2 travelled segs' segs"
        using opts(2) by (auto simp: travelled_list)
      have "infer_syntax opts out una (segs', syn3, []) = (segs', DefaultSyntax v, [])"
        using dt [OF s'(2)] v(2,3) True by (simp add: infer_syntax_def MaxSyntaxVersion_def DefaultSyntax_def)
      then show ?thesis using s' by blast
    next
      case False
      then have v4: "v = 4" using v(3) by simp
      have out': "out = wire_text False syn4 nl segs" using out una v4 by simp
      obtain segs0 ds0 where s0: "Scan out (po_Scan opts) = Inr (segs0, syn3, ds0)" "map content segs0 = map content3 segs"
        using Scan3_wire_text [OF ne _ opts(1) le opts(3)] v(4) out' v4 by auto
      have d0: "declaredSyntaxVersion segs0 = (4, True)"
        using declared_content3 [OF _ segs(2-5), of segs0 rest] s0(2) segs(1) v(1) v4 by simp
      let ?o = "(po_Scan opts)\<lparr>so_Syntax := Some syn4\<rparr>"
      have mo: "maxSeg ?o = maxSeg (po_Scan opts)" by (simp add: maxSeg_def)
      have "\<exists>segs' ds. Scan out ?o = Inr (segs', syn4, ds) \<and> map content segs' = map canon_content segs \<and> (length segs < maxSeg ?o \<longrightarrow> ds = [])"
        unfolding out' using v(4) v4 le by (intro Scan_wire_text [OF _ ne _ opts(1)]) (simp_all add: mo)
      then obtain segs' where s': "Scan out ?o = Inr (segs', syn4, [])" "list_all2 travelled segs' segs"
        using opts(2) by (auto simp: travelled_list mo)
      have "infer_syntax opts out una (segs0, syn3, ds0) = (segs', syn4, [])"
        using d0 dt [OF s'(2)] s'(1) una opts(3) v4 by (simp add: infer_syntax_def MaxSyntaxVersion_def)
      then show ?thesis using s0(1) s'(2) v4 by blast
    qed
  qed
qed

section \<open>Built, finalised, encoded, parsed\<close>

type_synonym draft = "string \<times> message_id \<times> ed_segment list"

definition build :: "unb_params \<Rightarrow> draft list \<Rightarrow> interchange" where
  "build p drafts = Finalize (fold (\<lambda>(ref, mid, body). AddMessage ref mid body) drafts (NewInterchange p))"

definition params_version :: "unb_params \<Rightarrow> int" where
  "params_version p = (if SyntaxVersion p = 0 then 3 else SyntaxVersion p)"

definition params_ok :: "unb_params \<Rightarrow> bool" where
  "params_ok p \<longleftrightarrow> 0 \<le> SyntaxVersion p \<and> SyntaxVersion p \<le> 4 \<and> (CharsetID p = '''' \<or> repertoire_name (CharsetID p))
     \<and> list_all no_nl [pa_ID (up_Sender p), Qualifier (up_Sender p), RoutingAddr (up_Sender p), pa_ID (up_Recipient p), Qualifier (up_Recipient p),
          RoutingAddr (up_Recipient p), up_Date p, up_Time p, up_ControlRef p, AppRef p]
     \<and> no_nl (CharsetID p)"

definition draft_ok :: "int \<Rightarrow> draft \<Rightarrow> bool" where
  "draft_ok v d \<longleftrightarrow> (case d of (ref, mid, body) \<Rightarrow>
     list_all no_nl [ref, mi_Type mid, mi_Version mid, mi_Release mid, ControllingAgency mid, AssociationCode mid]
     \<and> list_all (\<lambda>s. segment_ok (DefaultSyntax v) s \<and> Tag s \<notin> set service_tags) body)"

definition draft_message :: "draft \<Rightarrow> ed_message" where
  "draft_message d = (case d of (ref, mid, body) \<Rightarrow>
     finalize_message \<lparr>m_Header = Seg ''UNH'' [simple ref, Comp [mi_Type mid, mi_Version mid, mi_Release mid, ControllingAgency mid, AssociationCode mid]],
       m_Segments = body, m_Trailer = zero_segment\<rparr>)"

lemma build_simps:
  "Messages (build p ds) = map draft_message ds" "Groups (build p ds) = []" "ic_Header (build p ds) = ic_Header (NewInterchange p)"
  "HadUNA (build p ds) = False" "ic_Syntax (build p ds) = DefaultSyntax (params_version p)"
  "ic_Trailer (build p ds) = Seg ''UNZ'' [simple (Itoa (length ds)), simple (up_ControlRef p)]"
  "ic_Segments (build p ds) = ic_Header (NewInterchange p) # concat (map emit_message (map draft_message ds)) @ [ic_Trailer (build p ds)]"
proof -
  let ?f = "fold (\<lambda>(ref, mid, body). AddMessage ref mid body) ds"
  have f: "?f ic = ic\<lparr>Messages := Messages ic @ map (\<lambda>(ref, mid, body). \<lparr>m_Header = Seg ''UNH'' [simple ref,
       Comp [mi_Type mid, mi_Version mid, mi_Release mid, ControllingAgency mid, AssociationCode mid]], m_Segments = body, m_Trailer = zero_segment\<rparr>) ds\<rparr>" for ic
    by (induction ds arbitrary: ic) (auto simp: AddMessage_def)
  have n: "Messages (NewInterchange p) = []" "Groups (NewInterchange p) = []" "HadUNA (NewInterchange p) = False"
    "ic_Syntax (NewInterchange p) = DefaultSyntax (params_version p)" "ControlRef (NewInterchange p) = up_ControlRef p" "Tag (ic_Header (NewInterchange p)) = ''UNB''"
    by (simp_all add: NewInterchange_def Let_def zero_interchange_def params_version_def ControlRef_def Seg_def seg_Value_def seg_Elem_def elem_Get_def elem_First_def comp_Get_def simple_def)
  have c: "ControlRef (?f (NewInterchange p)) = up_ControlRef p" using n(5) by (simp add: f ControlRef_def)
  show m: "Messages (build p ds) = map draft_message ds"
    unfolding build_def Finalize_def Let_def f by (simp add: n(1) draft_message_def case_prod_unfold)
  show g: "Groups (build p ds) = []" "ic_Header (build p ds) = ic_Header (NewInterchange p)" "HadUNA (build p ds) = False" "ic_Syntax (build p ds) = DefaultSyntax (params_version p)"
    by (simp_all add: build_def Finalize_def Let_def f n)
  show t: "ic_Trailer (build p ds) = Seg ''UNZ'' [simple (Itoa (length ds)), simple (up_ControlRef p)]"
    using c by (simp add: build_def Finalize_def Let_def f n)
  have "ic_Segments (build p ds) = flatten (build p ds)" by (simp add: build_def Finalize_def Let_def flatten_def)
  then show "ic_Segments (build p ds) = ic_Header (NewInterchange p) # concat (map emit_message (map draft_message ds)) @ [ic_Trailer (build p ds)]"
    by (simp add: flatten_def m g t n(6))
qed

lemma header_elements:
  assumes "params_ok p"
  shows "\<exists>cs d es. Elements (ic_Header (NewInterchange p)) = [[cs, [d]]] # es \<and> repertoire_name cs \<and> is_digit d \<and> int (digit_val d) = params_version p"
proof -
  let ?v = "params_version p"
  have v: "0 \<le> ?v" "?v \<le> 4" using assms by (auto simp: params_ok_def params_version_def)
  then have i: "Itoa_int ?v = [digit_char (nat ?v)]" by (simp add: Itoa_int_def Itoa.simps)
  have "repertoire_name ''UNOA''" by (simp add: repertoire_name_def HasPrefix_def is_upper_def)
  then have r: "repertoire_name (if CharsetID p = '''' then ''UNOA'' else CharsetID p)" using assms by (auto simp: params_ok_def)
  have "nat ?v < 10" using v by simp
  then have "is_digit (digit_char (nat ?v))" "int (digit_val (digit_char (nat ?v))) = ?v" using v(1) by simp_all
  moreover have "Elements (ic_Header (NewInterchange p)) = [[if CharsetID p = '''' then ''UNOA'' else CharsetID p, Itoa_int ?v]] # tl (Elements (ic_Header (NewInterchange p)))"
    by (simp add: NewInterchange_def Let_def Seg_def Comp_def params_version_def zero_interchange_def)
  ultimately show ?thesis using r i by metis
qed

lemma element_ok_simple: "no_nl v \<Longrightarrow> element_ok syn (simple v)" "list_all no_nl cs \<Longrightarrow> element_ok syn (Comp cs)"
  by (simp_all add: element_ok_def reps_ok_def simple_def Comp_def)

lemma Itoa_no_nl: "no_nl (Itoa n)"
  using Itoa_digits [of n] by (auto simp: all_digits_def list_all_iff is_digit_def no_nl_def is_nl_def)

lemma Seg_ok: "validTag t \<Longrightarrow> list_all (element_ok syn) es \<Longrightarrow> segment_ok syn (Seg t es)"
  by (simp add: segment_ok_def Seg_def)

lemma service_tags_valid: "t \<in> set service_tags \<Longrightarrow> validTag t"
  by (auto simp: service_tags_def validTag_def is_alnum_def is_upper_def)

lemma built_ok:
  assumes "params_ok p" "list_all (draft_ok (params_version p)) ds"
  shows "list_all (segment_ok (DefaultSyntax (params_version p))) (ic_Segments (build p ds))" "list_all whole_message (map draft_message ds)"
proof -
  let ?ok = "segment_ok (DefaultSyntax (params_version p))"
  note sv = service_tags_valid [unfolded service_tags_def]
  have cs: "no_nl (if CharsetID p = '''' then ''UNOA'' else CharsetID p)" using assms(1) by (simp add: params_ok_def is_nl_def)
  have dash: "no_nl (Itoa_int v)" for v using Itoa_no_nl by (simp add: Itoa_int_def is_nl_def)
  have "no_nl ''1''" by (simp add: is_nl_def)
  then have h: "?ok (ic_Header (NewInterchange p))"
    unfolding NewInterchange_def Let_def zero_interchange_def interchange.simps
    using assms(1) cs dash sv [of "''UNB''"] by (intro Seg_ok) (simp_all add: element_ok_simple params_ok_def)
  have t: "?ok (ic_Trailer (build p ds))"
    using assms(1) sv [of "''UNZ''"] Itoa_no_nl unfolding build_simps(6) by (intro Seg_ok) (simp_all add: element_ok_simple params_ok_def)
  have m: "list_all ?ok (emit_message (draft_message d)) \<and> whole_message (draft_message d)" if "d \<in> set ds" for d
  proof -
    obtain ref mid body where d: "d = (ref, mid, body)" by (cases d)
    have o: "draft_ok (params_version p) (ref, mid, body)" using assms(2) that d by (auto simp: list_all_iff)
    have uh: "?ok (Seg ''UNH'' [simple ref, Comp [mi_Type mid, mi_Version mid, mi_Release mid, ControllingAgency mid, AssociationCode mid]])"
      using o sv [of "''UNH''"] by (intro Seg_ok) (simp_all add: element_ok_simple draft_ok_def)
    have ut: "?ok (Seg ''UNT'' [simple (Itoa n), simple ref])" for n
      using o sv [of "''UNT''"] Itoa_no_nl by (intro Seg_ok) (simp_all add: element_ok_simple draft_ok_def)
    show ?thesis using uh ut o
      by (auto simp: d draft_message_def finalize_message_def emit_message_def whole_message_def draft_ok_def Reference_def list_all_iff)
  qed
  have "list_all ?ok (concat (map emit_message (map draft_message ds)))" using m by (auto simp: list_all_iff)
  then show "list_all ?ok (ic_Segments (build p ds))" unfolding build_simps(7) using h t by simp
  show "list_all whole_message (map draft_message ds)" using m by (simp add: list_all_iff)
qed

text \<open>What a header says of a party: its identifier, qualifier and routing address.\<close>

definition external :: "party \<Rightarrow> party" where
  "external q = \<lparr>pa_ID = pa_ID q, Qualifier = Qualifier q, RoutingAddr = RoutingAddr q, InternalID = '''', InternalSub = ''''\<rparr>"

lemma EncodeTo_tag:
  assumes "segment_ok (DefaultSyntax v) s"
  shows "\<exists>c r. EncodeTo (DefaultSyntax v) s = Tag s @ c # r \<and> \<not> is_alnum c"
proof -
  have "list_all is_alnum (Tag s)" using assms by (auto simp: segment_ok_def validTag_def split: if_splits)
  then have "EncodeTo (DefaultSyntax v) s = Tag s @ concat (map (\<lambda>r. CHR ''+'' # r) (rtrim_empty (map (render_element (DefaultSyntax v)) (Elements s)))) @ [CHR 0x27]"
    using escape_alnum [OF Validate_Default] by (simp add: EncodeTo_def)
  then show ?thesis
    by (cases "rtrim_empty (map (render_element (DefaultSyntax v)) (Elements s))") (auto simp: is_alnum_def is_upper_def is_lower_def is_digit_def)
qed

lemma skip_preamble_built:
  assumes "out = wire_text una (DefaultSyntax v) nl (h # rest)" "Tag h = ''UNB''" "segment_ok (DefaultSyntax v) h"
  shows "skip_preamble opts out = (out, una, [])"
proof -
  obtain c r where c: "EncodeTo (DefaultSyntax v) h = ''UNB'' @ c # r" "\<not> is_alnum c" using EncodeTo_tag [OF assms(3)] assms(2) by auto
  have "\<exists>c r. out = (if una then ''UNA'' else ''UNB'') @ c # r \<and> \<not> is_alnum c"
    using c by (cases una) (simp_all add: assms(1) wire_text_def UNAString_def is_alnum_def is_upper_def is_lower_def is_digit_def)
  then obtain c' r' where o: "out = (if una then ''UNA'' else ''UNB'') @ c' # r'" "\<not> is_alnum c'" by blast
  have l: "dropWhile is_lead out = out" by (simp add: o(1) is_lead_def)
  have "isTagAt out (if una then ''UNA'' else ''UNB'')" using o by (simp add: isTagAt_def HasPrefix_def)
  then have "preambleLength out = 0" unfolding preambleLength_def l Let_def by (cases una) simp_all
  moreover have "begins_UNA out = una" unfolding begins_UNA_def l by (simp add: o(1) HasPrefix_def)
  ultimately show ?thesis by (simp add: skip_preamble_def)
qed

lemma Encode_build:
  assumes "ed_Encode eopts (build p ds) = Inr out" "ee_Syntax eopts = None"
  shows "out = wire_text (EmitUNA eopts) (DefaultSyntax (params_version p)) (line_end eopts) (ic_Segments (build p ds))"
proof -
  have "IsDefault (DefaultSyntax v)" for v by (simp add: IsDefault_def Let_def)
  moreover have "ic_Segments (build p ds) \<noteq> []" by (simp add: build_simps(7))
  ultimately show ?thesis using assms by (auto simp: ed_Encode_def Let_def build_simps(4,5) wire_text_def split: option.splits if_splits)
qed

lemma line_end_nl: "list_all is_nl (line_end eopts)"
  by (simp add: line_end_def is_nl_def)

lemma draft_message_simps:
  "Reference (draft_message (ref, mid, body)) = ref" "message_ID (draft_message (ref, mid, body)) = mid" "m_Segments (draft_message (ref, mid, body)) = body"
  by (cases mid; simp add: draft_message_def finalize_message_def Reference_def message_ID_def message_id_of_def Seg_def simple_def Comp_def
      seg_Value_def seg_Elem_def elem_Get_def elem_First_def comp_Get_def)+

lemma draft_message_final: "length (m_Segments (draft_message d)) + 2 < 2 ^ 62 \<Longrightarrow> final_message (draft_message d)"
  by (cases d) (simp add: final_message_def, simp add: draft_message_def finalize_message_def Reference_def)

definition message_view :: "ed_message \<Rightarrow> string \<times> message_id \<times> (string \<times> element list) list" where
  "message_view m = (Reference m, message_ID m, map content (m_Segments m))"

lemma travelled_view:
  assumes "list_all2 msg_travelled ms' (map draft_message ds)"
  shows "map message_view ms' = map (\<lambda>(ref, mid, body). (ref, mid, map canon_content body)) ds"
  using assms
proof (induction ds arbitrary: ms')
  case (Cons d ds)
  obtain m' r where m': "ms' = m' # r" "msg_travelled m' (draft_message d)" "list_all2 msg_travelled r (map draft_message ds)"
    using Cons.prems by (auto simp: list_all2_Cons2)
  obtain ref mid body where d: "d = (ref, mid, body)" by (cases d)
  have t: "travelled (m_Header m') (m_Header (draft_message d))" "list_all2 travelled (m_Segments m') body"
    using m'(2) by (simp_all add: msg_travelled_def d draft_message_simps)
  have "Reference m' = ref" using travelled_simps(2) [OF t(1)] draft_message_simps(1) [of ref mid body] by (simp add: Reference_def d)
  moreover have "message_ID m' = mid"
    using seg_travelled [OF t(1)] draft_message_simps(2) [of ref mid body] by (simp add: message_ID_def message_id_of_def d)
  moreover have "map content (m_Segments m') = map canon_content body" using t(2) travelled_list by blast
  ultimately show ?case using Cons.IH [OF m'(3)] by (simp add: m'(1) message_view_def d)
qed simp

lemma built_parses:
  assumes "params_ok p" "list_all (draft_ok (params_version p)) ds" "ed_Encode eopts (build p ds) = Inr out" "ee_Syntax eopts = None"
    and "so_Syntax (po_Scan opts) = None" "length (ic_Segments (build p ds)) < maxSeg (po_Scan opts)" "length (ic_Segments (build p ds)) < 2 ^ 62"
  shows "\<exists>ic. ed_Parse latin1 utf8 out opts = Inr (ic, None) \<and> \<not> ic_HasErrors ic \<and> ic_Syntax ic = DefaultSyntax (params_version p)
     \<and> map message_view (Messages ic) = map (\<lambda>(ref, mid, body). (ref, mid, map canon_content body)) ds
     \<and> ControlRef ic = up_ControlRef p \<and> Sender ic = external (up_Sender p) \<and> Recipient ic = external (up_Recipient p)"
proof -
  let ?h = "ic_Header (NewInterchange p)" and ?v = "params_version p" and ?segs = "ic_Segments (build p ds)" and ?ms = "map draft_message ds"
  have v: "1 \<le> ?v" "?v \<le> 4" using assms(1) by (auto simp: params_ok_def params_version_def)
  obtain cs d es where h: "Elements ?h = [[cs, [d]]] # es" "repertoire_name cs" "is_digit d" "int (digit_val d) = ?v"
    using header_elements [OF assms(1)] by blast
  have ht: "Tag ?h = ''UNB''" by (simp add: NewInterchange_def Let_def zero_interchange_def)
  have hv: "seg_Value ?h 4 = up_ControlRef p" "partyFrom (elem_First (seg_Elem ?h 1)) = external (up_Sender p)" "partyFrom (elem_First (seg_Elem ?h 2)) = external (up_Recipient p)"
    by (simp_all add: partyFrom_def external_def NewInterchange_def Let_def zero_interchange_def Seg_def Comp_def simple_def seg_Value_def seg_Elem_def elem_Get_def elem_First_def comp_Get_def)
  note ok = built_ok [OF assms(1,2)]
  have out: "out = wire_text (EmitUNA eopts) (DefaultSyntax ?v) (line_end eopts) ?segs" by (rule Encode_build [OF assms(3,4)])
  have sk: "skip_preamble opts out = (out, EmitUNA eopts, [])"
    using skip_preamble_built [OF _ ht] ok(1) out unfolding build_simps(7) by simp
  obtain segs0 syn0 ds0 segs' where s: "Scan out (po_Scan opts) = Inr (segs0, syn0, ds0)"
    "infer_syntax opts out (EmitUNA eopts) (segs0, syn0, ds0) = (segs', DefaultSyntax ?v, [])" "list_all2 travelled segs' ?segs"
    using infer_built [OF build_simps(7) ht h(1-3) h(4) [symmetric] v ok(1) line_end_nl assms(6,5) out] by blast
  let ?ic0 = "zero_interchange\<lparr>HadUNA := EmitUNA eopts, ic_Raw := out, ic_Syntax := DefaultSyntax ?v, ic_Segments := segs', ic_Diagnostics := []\<rparr>"
  obtain h' ms' t' where a: "assemble segs' ?ic0 = ?ic0\<lparr>ic_Header := h', Messages := ms', ic_Trailer := t'\<rparr>" "travelled h' ?h"
    "list_all2 msg_travelled ms' ?ms" "travelled t' (ic_Trailer (build p ds))"
    using assemble_interchange [OF s(3) [unfolded build_simps(7)] ok(2) ht, of ?ic0] by (auto simp: build_simps(6) zero_interchange_def)
  let ?ic1 = "?ic0\<lparr>ic_Header := h', Messages := ms', ic_Trailer := t'\<rparr>"
  have em: "emit_message (draft_message x) \<noteq> [] \<and> length (m_Segments (draft_message x)) + 2 \<le> length (emit_message (draft_message x))" for x
    by (cases x) (simp add: emit_message_def draft_message_def finalize_message_def)
  have "length (concat (map emit_message ?ms)) \<ge> length ds"
    using em by (simp add: length_concat comp_def) (induction ds, auto simp: Suc_le_eq add_strict_increasing)
  then have ln: "length ds < 2 ^ 62" using assms(7) unfolding build_simps(7) by simp
  have lx: "length (emit_message (draft_message x)) \<le> length (concat (map emit_message ?ms))" if "x \<in> set ds" for x
    using that by (simp add: length_concat comp_def member_le_sum_list)
  have fm: "list_all final_message ?ms"
  proof -
    have "final_message (draft_message x)" if x: "x \<in> set ds" for x
    proof (rule draft_message_final)
      have "length (m_Segments (draft_message x)) + 2 \<le> length (emit_message (draft_message x))" using em by blast
      also have "\<dots> \<le> length (concat (map emit_message ?ms))" using x by (rule lx)
      also have "\<dots> < 2 ^ 62" using assms(7) unfolding build_simps(7) by simp
      finally show "length (m_Segments (draft_message x)) + 2 < 2 ^ 62" .
    qed
    then show ?thesis by (simp add: list_all_iff)
  qed
  have ve: "validateEnvelope ?ic1 = ?ic1"
  proof (rule validateEnvelope_final [OF _ _ _ fm ht])
    show "travelled (ic_Header ?ic1) ?h" "travelled (ic_Trailer ?ic1) (ic_Trailer (build p ds))" "list_all2 msg_travelled (Messages ?ic1) ?ms"
      using a by simp_all
    show "ic_Trailer (build p ds) = Seg ''UNZ'' [simple (Itoa (length ?ms)), simple (seg_Value ?h 4)]" using hv(1) by (simp add: build_simps(6))
  qed (use ln in \<open>simp_all add: zero_interchange_def\<close>)
  define ic where "ic = (if SkipCharsetCheck opts then ?ic1 else validateCharset latin1 utf8 ?ic1)"
  have ic: "ic_HasErrors ic = False" "Messages ic = ms'" "ic_Header ic = h'" "ic_Syntax ic = DefaultSyntax ?v"
    using validateCharset_same [of latin1 utf8 ?ic1] by (simp_all add: ic_def ic_HasErrors_def)
  have "find (\<lambda>d. ed_Severity d = Error) (ic_Diagnostics ic) = None" using ic(1) by (auto simp: find_None_iff ic_HasErrors_def list_ex_iff)
  then have "ed_Parse latin1 utf8 out opts = Inr (ic, None)"
    unfolding ed_Parse_def sk using s(1,2) a(1) ve by (cases "SkipCharsetCheck opts") (simp_all add: ic_def Let_def)
  moreover have "ControlRef ic = up_ControlRef p" using travelled_simps(2) [OF a(2)] hv(1) by (simp add: ControlRef_def ic(3))
  moreover have "Sender ic = external (up_Sender p)" "Recipient ic = external (up_Recipient p)"
    using seg_travelled [OF a(2)] hv(2,3) by (simp_all add: Sender_def Recipient_def partyFrom_def ic(3))
  ultimately show ?thesis using ic travelled_view [OF a(3)] by blast
qed

text \<open>C9: an interchange that was built from parameters and message bodies, finalised and encoded (any
  syntax version from 1 to 4, with or without a service string advice, line breaks or not) is
  decoded without a single error, under strict checking too: the counts and references the
  envelope checks compare all agree, the decoder infers the version it was written with (reading a
  version 4 text a second time), and the messages come back in order with their reference,
  identifier and segments, trailing empties dropped, under the same sender, recipient and control
  reference.\<close>

theorem edifact_built_interchange_parses:
  assumes "params_ok p" "list_all (draft_ok (params_version p)) ds" "ed_Encode eopts (build p ds) = Inr out" "ee_Syntax eopts = None"
    and "so_Syntax (po_Scan opts) = None" "length (ic_Segments (build p ds)) < maxSeg (po_Scan opts)" "length (ic_Segments (build p ds)) < 2 ^ 62"
  shows "\<exists>ic. ed_Parse latin1 utf8 out opts = Inr (ic, None) \<and> \<not> ic_HasErrors ic \<and> ic_Syntax ic = DefaultSyntax (params_version p)
     \<and> map message_view (Messages ic) = map (\<lambda>(ref, mid, body). (ref, mid, map canon_content body)) ds
     \<and> ControlRef ic = up_ControlRef p \<and> Sender ic = external (up_Sender p) \<and> Recipient ic = external (up_Recipient p)"
  using assms by (rule built_parses)

definition sample_params :: unb_params where
  "sample_params = \<lparr>CharsetID = '''', SyntaxVersion = 4,
     up_Sender = \<lparr>pa_ID = ''BA'', Qualifier = '''', RoutingAddr = '''', InternalID = '''', InternalSub = ''''\<rparr>,
     up_Recipient = \<lparr>pa_ID = ''AA'', Qualifier = '''', RoutingAddr = '''', InternalID = '''', InternalSub = ''''\<rparr>,
     up_Date = ''260102'', up_Time = ''1305'', up_ControlRef = ''REF1'', AppRef = '''', AckRequest = True, up_Test = False\<rparr>"

definition sample_drafts :: "draft list" where
  "sample_drafts = [(''1'', \<lparr>mi_Type = ''PAOREQ'', mi_Version = ''96'', mi_Release = ''1'', ControllingAgency = ''IA'', AssociationCode = ''''\<rparr>,
      [Seg ''ORG'' [simple ''A+B'', [[''X''], [''Y*Z'']]]])]"

definition plain_encode :: ed_encode_options where
  "plain_encode = \<lparr>ee_Syntax = None, EmitUNA = False, SegmentPerLine = True, ee_CRLF = False, ee_Charset = None\<rparr>"

definition strict_parse :: parse_options where
  "strict_parse = \<lparr>po_Scan = \<lparr>so_Syntax = None, PreserveLineBreaks = False, MaxSegments = 50\<rparr>, SkipPreamble = True, Strict = True, SkipCharsetCheck = False\<rparr>"

theorem edifact_built_interchange_parses_witness:
  "\<exists>out ic. ed_Encode plain_encode (build sample_params sample_drafts) = Inr out
     \<and> ed_Parse (\<lambda>_. True) (\<lambda>_. True) out strict_parse = Inr (ic, None) \<and> \<not> ic_HasErrors ic \<and> ic_Syntax ic = DefaultSyntax 4
     \<and> ControlRef ic = ''REF1''
     \<and> map message_view (Messages ic) = [(''1'', \<lparr>mi_Type = ''PAOREQ'', mi_Version = ''96'', mi_Release = ''1'', ControllingAgency = ''IA'', AssociationCode = ''''\<rparr>,
         [(''ORG'', [[[''A+B'']], [[''X''], [''Y*Z'']]])])]"
proof -
  have p: "params_ok sample_params" "list_all (draft_ok (params_version sample_params)) sample_drafts" by code_simp+
  have "\<not> isl (ed_Encode plain_encode (build sample_params sample_drafts))" by code_simp
  then obtain out where o: "ed_Encode plain_encode (build sample_params sample_drafts) = Inr out"
    by (cases "ed_Encode plain_encode (build sample_params sample_drafts)") auto
  have m: "length (ic_Segments (build sample_params sample_drafts)) = 5" "maxSeg (po_Scan strict_parse) = 50" by code_simp+
  have v: "params_version sample_params = 4" "up_ControlRef sample_params = ''REF1''" by code_simp+
  have d: "map (\<lambda>(ref, mid, body). (ref, mid, map canon_content body)) sample_drafts =
      [(''1'', \<lparr>mi_Type = ''PAOREQ'', mi_Version = ''96'', mi_Release = ''1'', ControllingAgency = ''IA'', AssociationCode = ''''\<rparr>,
         [(''ORG'', [[[''A+B'']], [[''X''], [''Y*Z'']]])])]" by code_simp
  have "ee_Syntax plain_encode = None" "so_Syntax (po_Scan strict_parse) = None" by (simp_all add: plain_encode_def strict_parse_def)
  from edifact_built_interchange_parses [OF p o this, of "\<lambda>_. True" "\<lambda>_. True"] show ?thesis using o m v d by auto
qed

end
