(* ===== verification/Edifact_Contrl.thy ===== *)
theory Edifact_Contrl
  imports Edifact_Parse
begin

text \<open>
  The CONTRL syntax report (\<open>src/pkg/edifact/contrl.go\<close>): deriving a report from a decoded
  interchange, rendering it as an interchange of its own, and reading one. The code lists are
  strings as in the source; their English meanings and \<open>Describe\<close> are left out.
\<close>

section \<open>Reports\<close>

definition ActionRejected :: string where "ActionRejected = ''4''"
definition ActionAcknowledged :: string where "ActionAcknowledged = ''7''"
definition ActionReceived :: string where "ActionReceived = ''8''"

record element_report =
  er_Error :: string
  er_Position :: int
  er_Component :: int

record segment_report =
  sr_Position :: int
  sr_Error :: string
  sr_Elements :: "element_report list"

record message_report =
  mr_Reference :: string
  mr_ID :: message_id
  mr_Action :: string
  mr_Error :: string
  mr_ServiceTag :: string
  mr_Element :: element_report
  mr_Segments :: "segment_report list"

record report =
  rp_ControlRef :: string
  rp_Sender :: party
  rp_Recipient :: party
  rp_Action :: string
  rp_Error :: string
  rp_ServiceTag :: string
  rp_Element :: element_report
  rp_Messages :: "message_report list"

definition zero_element :: element_report where
  "zero_element = \<lparr>er_Error = '''', er_Position = 0, er_Component = 0\<rparr>"

definition Rejected :: "report \<Rightarrow> bool" where
  "Rejected r \<longleftrightarrow> rp_Action r = ActionRejected"

definition diagToSyntaxError :: "string strmap" where
  "diagToSyntaxError =
     [(''missing_unb'', ''13''), (''missing_unz'', ''13''), (''missing_une'', ''13''), (''missing_unt'', ''13''),
      (''unclosed_ung'', ''13''), (''unclosed_unh'', ''13''),
      (''control_ref_mismatch'', ''28''), (''group_ref_mismatch'', ''28''), (''message_ref_mismatch'', ''28''),
      (''unz_count_mismatch'', ''29''), (''une_count_mismatch'', ''29''), (''unt_count_mismatch'', ''29''),
      (''bad_unz_count'', ''12''), (''bad_unt_count'', ''12''), (''bad_syntax_version'', ''12''), (''unknown_charset'', ''12''),
      (''charset_violation'', ''21''), (''trailing_release'', ''22''),
      (''duplicate_unb'', ''33''), (''nested_ung'', ''33''), (''orphan_une'', ''33''), (''orphan_unt'', ''33''), (''segment_outside_message'', ''33'')]"

definition diagServiceTag :: "string strmap" where
  "diagServiceTag =
     [(''missing_unb'', ''UNB''), (''missing_unz'', ''UNZ''), (''missing_une'', ''UNE''), (''missing_unt'', ''UNT''),
      (''unclosed_ung'', ''UNE''), (''unclosed_unh'', ''UNT''), (''control_ref_mismatch'', ''UNZ''), (''unz_count_mismatch'', ''UNZ''),
      (''bad_unz_count'', ''UNZ''), (''duplicate_unb'', ''UNB''), (''nested_ung'', ''UNG''), (''orphan_une'', ''UNE''), (''orphan_unt'', ''UNT'')]"

definition UnspecifiedError :: string where "UnspecifiedError = ''18''"

definition check_step :: "ed_diagnostic \<Rightarrow> report \<Rightarrow> report" where
  "check_step d r =
     (if ed_Severity d \<noteq> Error then r
      else let r1 = r\<lparr>rp_Action := ActionRejected\<rparr> in
           if rp_Error r1 = ''''
           then r1\<lparr>rp_Error := (case map_of diagToSyntaxError (ed_Code d) of Some c \<Rightarrow> c | None \<Rightarrow> UnspecifiedError),
                   rp_ServiceTag := gm_get '''' diagServiceTag (ed_Code d)\<rparr>
           else r1)"

definition ack_message :: "ed_message \<Rightarrow> message_report" where
  "ack_message m = \<lparr>mr_Reference = Reference m, mr_ID = message_ID m, mr_Action = ActionAcknowledged, mr_Error = '''', mr_ServiceTag = '''',
     mr_Element = zero_element, mr_Segments = []\<rparr>"

definition base_report :: "interchange \<Rightarrow> string \<Rightarrow> report" where
  "base_report ic action = \<lparr>rp_ControlRef = ControlRef ic, rp_Sender = Sender ic, rp_Recipient = Recipient ic, rp_Action = action,
     rp_Error = '''', rp_ServiceTag = '''', rp_Element = zero_element, rp_Messages = []\<rparr>"

definition Check :: "interchange \<Rightarrow> report" where
  "Check ic =
     (let r = fold check_step (ic_Diagnostics ic) (base_report ic ActionAcknowledged)
      in if rp_Action r = ActionAcknowledged then r\<lparr>rp_Messages := rp_Messages r @ map ack_message (Messages ic)\<rparr> else r)"

definition Receipt :: "interchange \<Rightarrow> report" where
  "Receipt ic = base_report ic ActionReceived"

section \<open>Rendering a report\<close>

record contrl_options =
  co_Sender :: party
  co_Recipient :: party
  co_ControlRef :: string
  MessageRef :: string
  co_Date :: string
  co_Time :: string
  co_SyntaxVersion :: int
  co_CharsetID :: string
  co_Version :: string
  co_Release :: string

definition contrl_messageID :: "contrl_options \<Rightarrow> int \<Rightarrow> message_id" where
  "contrl_messageID opts syntaxVersion =
     \<lparr>mi_Type = ''CONTRL'', mi_Version = (if co_Version opts = '''' then ''D'' else co_Version opts),
      mi_Release = (if co_Release opts = '''' then (if syntaxVersion \<ge> 4 then ''4'' else ''3'') else co_Release opts),
      ControllingAgency = ''UN'', AssociationCode = ''''\<rparr>"

definition elementIDComposite :: "element_report \<Rightarrow> element" where
  "elementIDComposite e =
     (if er_Position e = 0 then Comp ['''']
      else Comp [Itoa_int (er_Position e), (if er_Component e > 0 then Itoa_int (er_Component e) else '''')])"

definition uciSegment :: "report \<Rightarrow> ed_segment" where
  "uciSegment r = Seg ''UCI''
     [simple (rp_ControlRef r),
      Comp [pa_ID (rp_Sender r), Qualifier (rp_Sender r), RoutingAddr (rp_Sender r)],
      Comp [pa_ID (rp_Recipient r), Qualifier (rp_Recipient r), RoutingAddr (rp_Recipient r)],
      simple (rp_Action r), simple (rp_Error r), simple (rp_ServiceTag r), elementIDComposite (rp_Element r)]"

definition ucmSegment :: "message_report \<Rightarrow> ed_segment" where
  "ucmSegment m = Seg ''UCM''
     [simple (mr_Reference m),
      Comp [mi_Type (mr_ID m), mi_Version (mr_ID m), mi_Release (mr_ID m), ControllingAgency (mr_ID m), AssociationCode (mr_ID m)],
      simple (mr_Action m), simple (mr_Error m), simple (mr_ServiceTag m), elementIDComposite (mr_Element m)]"

definition ucd_segment :: "element_report \<Rightarrow> ed_segment" where
  "ucd_segment e = Seg ''UCD'' [simple (er_Error e), elementIDComposite e]"

definition ucs_segments :: "segment_report \<Rightarrow> ed_segment list" where
  "ucs_segments s = Seg ''UCS'' [simple (Itoa_int (sr_Position s)), simple (sr_Error s)] # map ucd_segment (sr_Elements s)"

definition ucm_segments :: "message_report \<Rightarrow> ed_segment list" where
  "ucm_segments m = ucmSegment m # concat (map ucs_segments (mr_Segments m))"

definition contrl_body :: "report \<Rightarrow> ed_segment list" where
  "contrl_body r = uciSegment r # concat (map ucm_segments (rp_Messages r))"

definition contrl_params :: "contrl_options \<Rightarrow> report \<Rightarrow> unb_params" where
  "contrl_params opts r =
     \<lparr>CharsetID = co_CharsetID opts, SyntaxVersion = (if co_SyntaxVersion opts = 0 then 3 else co_SyntaxVersion opts),
      up_Sender = co_Sender opts, up_Recipient = co_Recipient opts, up_Date = co_Date opts, up_Time = co_Time opts,
      up_ControlRef = (if co_ControlRef opts = '''' then rp_ControlRef r else co_ControlRef opts),
      AppRef = '''', AckRequest = False, up_Test = False\<rparr>"

definition Build :: "report \<Rightarrow> contrl_options \<Rightarrow> ed_error + interchange" where
  "Build r opts =
     (if rp_ControlRef r = '''' then Inl NeedsControlRef
      else if rp_Action r = '''' then Inl NeedsAction
      else let v = (if co_SyntaxVersion opts = 0 then 3 else co_SyntaxVersion opts);
               msgRef = (if MessageRef opts = '''' then ''1'' else MessageRef opts)
           in Inr (Finalize (AddMessage msgRef (contrl_messageID opts v) (contrl_body r) (NewInterchange (contrl_params opts r)))))"

section \<open>Reading a report\<close>

text \<open>\<open>strconv.Atoi\<close> with its error ignored: zero for what is no number, the nearest bound for one out of range.\<close>

definition atoi0 :: "string \<Rightarrow> int" where
  "atoi0 s =
     (case Atoi s of
        Some n \<Rightarrow> n
      | None \<Rightarrow>
          let body = (if s \<noteq> [] \<and> (hd s = CHR ''-'' \<or> hd s = CHR ''+'') then tl s else s) in
          if body = [] \<or> \<not> all_digits body then 0 else if hd s = CHR ''-'' then - (2 ^ 63) else 2 ^ 63 - 1)"

definition elementReportFrom :: "string \<Rightarrow> composite \<Rightarrow> element_report" where
  "elementReportFrom code c = \<lparr>er_Error = code, er_Position = atoi0 (comp_Get c 0), er_Component = atoi0 (comp_Get c 1)\<rparr>"

definition IsCONTRL :: "ed_message \<Rightarrow> bool" where
  "IsCONTRL m \<longleftrightarrow> mi_Type (message_ID m) = ''CONTRL''"

definition upd_last :: "('a \<Rightarrow> 'a) \<Rightarrow> 'a list \<Rightarrow> 'a list" where
  "upd_last f xs = (if xs = [] then [] else butlast xs @ [f (last xs)])"

definition contrl_step :: "ed_segment \<Rightarrow> message_report list \<Rightarrow> message_report list" where
  "contrl_step s ms =
     (if Tag s = ''UCM'' then
        ms @ [\<lparr>mr_Reference = seg_Value s 0, mr_ID = message_id_of (elem_First (seg_Elem s 1)), mr_Action = seg_Value s 2,
               mr_Error = seg_Value s 3, mr_ServiceTag = seg_Value s 4, mr_Element = elementReportFrom '''' (elem_First (seg_Elem s 5)), mr_Segments = []\<rparr>]
      else if Tag s = ''UCS'' then
        upd_last (\<lambda>m. m\<lparr>mr_Segments := mr_Segments m @ [\<lparr>sr_Position = atoi0 (seg_Value s 0), sr_Error = seg_Value s 1, sr_Elements = []\<rparr>]\<rparr>) ms
      else if Tag s = ''UCD'' then
        upd_last (\<lambda>m. m\<lparr>mr_Segments := upd_last (\<lambda>g. g\<lparr>sr_Elements := sr_Elements g @ [elementReportFrom (seg_Value s 0) (elem_First (seg_Elem s 1))]\<rparr>) (mr_Segments m)\<rparr>) ms
      else ms)"

definition ParseCONTRL :: "ed_message \<Rightarrow> ed_error + report" where
  "ParseCONTRL m =
     (if \<not> IsCONTRL m then Inl NotACONTRL
      else case msg_First m ''UCI'' of
             None \<Rightarrow> Inl NoUCI
           | Some uci \<Rightarrow>
               Inr \<lparr>rp_ControlRef = seg_Value uci 0, rp_Sender = partyFrom (elem_First (seg_Elem uci 1)),
                    rp_Recipient = partyFrom (elem_First (seg_Elem uci 2)), rp_Action = seg_Value uci 3, rp_Error = seg_Value uci 4,
                    rp_ServiceTag = seg_Value uci 5, rp_Element = elementReportFrom '''' (elem_First (seg_Elem uci 6)),
                    rp_Messages = fold contrl_step (m_Segments m) []\<rparr>)"

section \<open>A report survives its own rendering\<close>

definition number_ok :: "int \<Rightarrow> bool" where "number_ok n \<longleftrightarrow> - (2 ^ 62) < n \<and> n < 2 ^ 62"

lemma atoi0_Itoa_int: "number_ok n \<Longrightarrow> atoi0 (Itoa_int n) = n"
proof (cases "n < 0")
  case True
  assume n: "number_ok n"
  have b: "- n < 2 ^ 62" using n by (simp add: number_ok_def)
  have "Atoi (CHR ''-'' # Itoa (nat (- n))) = Some (- int (nat (- n)))"
    using b True by (simp add: Atoi_def Let_def)
  then show ?thesis using True by (simp add: Itoa_int_def atoi0_def)
next
  case False
  assume n: "number_ok n"
  have "nat n < 2 ^ 62" using n False by (simp add: number_ok_def nat_less_iff)
  then have "nat n < 2 ^ 63" by simp
  then have "Atoi (Itoa (nat n)) = Some (int (nat n))" by (rule Atoi_Itoa)
  then show ?thesis using False by (simp add: Itoa_int_def atoi0_def)
qed

lemma atoi0_empty [simp]: "atoi0 '''' = 0"
  by (simp add: atoi0_def Atoi_def Let_def)

definition element_report_ok :: "element_report \<Rightarrow> bool" where
  "element_report_ok e \<longleftrightarrow> number_ok (er_Position e) \<and> number_ok (er_Component e) \<and> 0 \<le> er_Component e
     \<and> (er_Position e = 0 \<longrightarrow> er_Component e = 0) \<and> no_nl (er_Error e)"

lemma elementReport_roundtrip:
  assumes "element_report_ok e"
  shows "elementReportFrom (er_Error e) (elem_First (elementIDComposite e)) = e"
  using assms atoi0_Itoa_int [of "er_Position e"] atoi0_Itoa_int [of "er_Component e"]
  by (cases e) (auto simp: elementReportFrom_def elementIDComposite_def element_report_ok_def elem_First_def Comp_def comp_Get_def)

definition segment_report_ok :: "segment_report \<Rightarrow> bool" where
  "segment_report_ok s \<longleftrightarrow> number_ok (sr_Position s) \<and> no_nl (sr_Error s) \<and> list_all element_report_ok (sr_Elements s)"

definition message_report_ok :: "message_report \<Rightarrow> bool" where
  "message_report_ok m \<longleftrightarrow> element_report_ok (mr_Element m) \<and> er_Error (mr_Element m) = '''' \<and> list_all segment_report_ok (mr_Segments m)
     \<and> list_all no_nl [mr_Reference m, mi_Type (mr_ID m), mi_Version (mr_ID m), mi_Release (mr_ID m), ControllingAgency (mr_ID m), AssociationCode (mr_ID m),
          mr_Action m, mr_Error m, mr_ServiceTag m]"

definition party_ok :: "party \<Rightarrow> bool" where
  "party_ok p \<longleftrightarrow> InternalID p = '''' \<and> InternalSub p = '''' \<and> list_all no_nl [pa_ID p, Qualifier p, RoutingAddr p]"

definition report_ok :: "report \<Rightarrow> bool" where
  "report_ok r \<longleftrightarrow> element_report_ok (rp_Element r) \<and> er_Error (rp_Element r) = '''' \<and> list_all message_report_ok (rp_Messages r)
     \<and> party_ok (rp_Sender r) \<and> party_ok (rp_Recipient r) \<and> list_all no_nl [rp_ControlRef r, rp_Action r, rp_Error r, rp_ServiceTag r]"

lemma Seg_access:
  "seg_Value (Seg t es) i = (if i < length es then elem_Get (es ! i) 0 else '''')"
  "seg_Elem (Seg t es) i = (if i < length es then es ! i else [])" "elem_Get (simple v) 0 = v"
  by (simp_all add: seg_Value_def seg_Elem_def Seg_def elem_Get_def elem_First_def simple_def comp_Get_def)

lemma upd_last_snoc [simp]: "upd_last f (xs @ [x]) = xs @ [f x]"
  by (simp add: upd_last_def)

lemma contrl_elements:
  assumes "list_all element_report_ok es"
  shows "fold contrl_step (map ucd_segment es) (ms @ [m\<lparr>mr_Segments := ss @ [s]\<rparr>]) = ms @ [m\<lparr>mr_Segments := ss @ [s\<lparr>sr_Elements := sr_Elements s @ es\<rparr>]\<rparr>]"
  using assms
proof (induction es arbitrary: s)
  case (Cons e es)
  have "contrl_step (ucd_segment e) (ms @ [m\<lparr>mr_Segments := ss @ [s]\<rparr>]) = ms @ [m\<lparr>mr_Segments := ss @ [s\<lparr>sr_Elements := sr_Elements s @ [e]\<rparr>]\<rparr>]"
    using elementReport_roundtrip [of e] Cons.prems by (simp add: contrl_step_def ucd_segment_def Seg_access)
  then show ?case using Cons.IH [of "s\<lparr>sr_Elements := sr_Elements s @ [e]\<rparr>"] Cons.prems by simp
qed simp

lemma contrl_segments:
  assumes "list_all segment_report_ok ss"
  shows "fold contrl_step (concat (map ucs_segments ss)) (ms @ [m]) = ms @ [m\<lparr>mr_Segments := mr_Segments m @ ss\<rparr>]"
  using assms
proof (induction ss arbitrary: m)
  case (Cons s ss)
  let ?s0 = "\<lparr>sr_Position = sr_Position s, sr_Error = sr_Error s, sr_Elements = []\<rparr>"
  have "contrl_step (Seg ''UCS'' [simple (Itoa_int (sr_Position s)), simple (sr_Error s)]) (ms @ [m]) = ms @ [m\<lparr>mr_Segments := mr_Segments m @ [?s0]\<rparr>]"
    using Cons.prems by (simp add: contrl_step_def Seg_access atoi0_Itoa_int segment_report_ok_def)
  then have "fold contrl_step (ucs_segments s) (ms @ [m]) = ms @ [m\<lparr>mr_Segments := mr_Segments m @ [s]\<rparr>]"
    using contrl_elements [of "sr_Elements s" ms "mr_Segments m" ?s0 m] Cons.prems by (cases s) (simp add: ucs_segments_def segment_report_ok_def)
  then show ?case using Cons.IH [of "m\<lparr>mr_Segments := mr_Segments m @ [s]\<rparr>"] Cons.prems by simp
qed simp

lemma contrl_messages:
  assumes "list_all message_report_ok rs"
  shows "fold contrl_step (concat (map ucm_segments rs)) ms = ms @ rs"
  using assms
proof (induction rs arbitrary: ms)
  case (Cons r rs)
  have ok: "message_report_ok r" using Cons.prems by simp
  then have e: "elementReportFrom '''' (elem_First (elementIDComposite (mr_Element r))) = mr_Element r"
    using elementReport_roundtrip [of "mr_Element r"] by (simp add: message_report_ok_def)
  have i: "message_id_of (elem_First (Comp [mi_Type mid, mi_Version mid, mi_Release mid, ControllingAgency mid, AssociationCode mid])) = mid" for mid :: message_id
    by (cases mid) (simp add: message_id_of_def elem_First_def Comp_def comp_Get_def)
  have "contrl_step (ucmSegment r) ms = ms @ [r\<lparr>mr_Segments := []\<rparr>]"
    using e i by (cases r) (simp add: contrl_step_def ucmSegment_def Seg_access)
  then have "fold contrl_step (ucm_segments r) ms = ms @ [r]"
    using contrl_segments [of "mr_Segments r" ms "r\<lparr>mr_Segments := []\<rparr>"] ok by (cases r) (simp add: ucm_segments_def message_report_ok_def)
  then show ?case using Cons.IH [of "ms @ [r]"] Cons.prems by simp
qed simp

lemma contrl_step_travelled:
  assumes "travelled s' s"
  shows "contrl_step s' ms = contrl_step s ms"
  using travelled_simps [OF assms] seg_travelled [OF assms] by (simp add: contrl_step_def message_id_of_def elementReportFrom_def)

lemma fold_travelled: "list_all2 travelled ss' ss \<Longrightarrow> fold contrl_step ss' ms = fold contrl_step ss ms"
  by (induction ss' ss arbitrary: ms rule: list_all2_induct) (simp_all add: contrl_step_travelled)

lemma ParseCONTRL_body:
  assumes "report_ok r" "mi_Type (message_ID m) = ''CONTRL''" "list_all2 travelled (m_Segments m) (contrl_body r)"
  shows "ParseCONTRL m = Inr r"
proof -
  obtain u ss where u: "m_Segments m = u # ss" "travelled u (uciSegment r)" using assms(3) by (auto simp: contrl_body_def list_all2_Cons2)
  note t = travelled_simps [OF u(2)] seg_travelled [OF u(2)]
  have "Tag u = ''UCI''" using t(1) by (simp add: uciSegment_def)
  then have f: "msg_First m ''UCI'' = Some u" by (simp add: msg_First_def u(1))
  have "contrl_step (uciSegment r) [] = []" by (simp add: contrl_step_def uciSegment_def)
  then have ms: "fold contrl_step (m_Segments m) [] = rp_Messages r"
    using fold_travelled [OF assms(3)] contrl_messages [of "rp_Messages r" "[]"] assms(1) by (simp add: contrl_body_def report_ok_def)
  have p: "partyFrom (elem_First (Comp [pa_ID q, Qualifier q, RoutingAddr q])) = q" if "party_ok q" for q :: party
    using that by (cases q) (simp add: partyFrom_def party_ok_def elem_First_def Comp_def comp_Get_def)
  have pu: "partyFrom (elem_First (seg_Elem u 1)) = rp_Sender r" "partyFrom (elem_First (seg_Elem u 2)) = rp_Recipient r"
    using p [of "rp_Sender r"] p [of "rp_Recipient r"] assms(1) t(4) by (simp_all add: partyFrom_def report_ok_def uciSegment_def Seg_access)
  have e: "elementReportFrom '''' (elem_First (seg_Elem u 6)) = rp_Element r"
    using elementReport_roundtrip [of "rp_Element r"] assms(1) t(4) by (simp add: elementReportFrom_def report_ok_def uciSegment_def Seg_access)
  have v: "seg_Value u 0 = rp_ControlRef r" "seg_Value u 3 = rp_Action r" "seg_Value u 4 = rp_Error r" "seg_Value u 5 = rp_ServiceTag r"
    using t(2) by (simp_all add: uciSegment_def Seg_access)
  show ?thesis using assms(2) f ms pu e v by (cases r) (simp add: ParseCONTRL_def IsCONTRL_def)
qed

section \<open>Over the wire and back\<close>

lemma Itoa_int_no_nl: "no_nl (Itoa_int n)"
  using Itoa_no_nl by (simp add: Itoa_int_def is_nl_def)

lemma elementIDComposite_ok: "element_ok syn (elementIDComposite e)"
  using Itoa_int_no_nl by (auto simp: elementIDComposite_def intro!: element_ok_simple)

lemma contrl_tags: "validTag t" "t \<notin> set service_tags" if "t \<in> {''UCI'', ''UCM'', ''UCS'', ''UCD''}"
  using that by (auto simp: validTag_def is_alnum_def is_upper_def service_tags_def)

lemma contrl_body_ok:
  assumes "report_ok r"
  shows "list_all (\<lambda>s. segment_ok syn s \<and> Tag s \<notin> set service_tags) (contrl_body r)"
proof -
  note ct = contrl_tags and el = elementIDComposite_ok [of syn] and si = element_ok_simple and it = Itoa_int_no_nl
  have "segment_ok syn (uciSegment r) \<and> Tag (uciSegment r) \<notin> set service_tags"
    using assms ct [of "''UCI''"] el si unfolding uciSegment_def by (auto simp: report_ok_def party_ok_def intro!: Seg_ok)
  moreover have d: "segment_ok syn (ucd_segment e) \<and> Tag (ucd_segment e) \<notin> set service_tags" if "element_report_ok e" for e
    using that ct [of "''UCD''"] el si unfolding ucd_segment_def by (auto simp: element_report_ok_def intro!: Seg_ok)
  moreover have s: "list_all (\<lambda>s. segment_ok syn s \<and> Tag s \<notin> set service_tags) (ucs_segments s)" if "segment_report_ok s" for s
    using that ct [of "''UCS''"] si it d unfolding ucs_segments_def by (auto simp: segment_report_ok_def list_all_iff intro!: Seg_ok)
  moreover have "list_all (\<lambda>s. segment_ok syn s \<and> Tag s \<notin> set service_tags) (ucm_segments m)" if "message_report_ok m" for m
  proof -
    have "segment_ok syn (ucmSegment m) \<and> Tag (ucmSegment m) \<notin> set service_tags"
      using that ct [of "''UCM''"] el si unfolding ucmSegment_def by (auto simp: message_report_ok_def intro!: Seg_ok)
    then show ?thesis using that s by (auto simp: ucm_segments_def message_report_ok_def list_all_iff)
  qed
  ultimately show ?thesis using assms by (auto simp: contrl_body_def report_ok_def list_all_iff)
qed

definition contrl_options_ok :: "contrl_options \<Rightarrow> bool" where
  "contrl_options_ok opts \<longleftrightarrow> 0 \<le> co_SyntaxVersion opts \<and> co_SyntaxVersion opts \<le> 4
     \<and> (co_CharsetID opts = '''' \<or> repertoire_name (co_CharsetID opts)) \<and> no_nl (co_CharsetID opts)
     \<and> list_all no_nl [pa_ID (co_Sender opts), Qualifier (co_Sender opts), RoutingAddr (co_Sender opts), pa_ID (co_Recipient opts),
          Qualifier (co_Recipient opts), RoutingAddr (co_Recipient opts), co_Date opts, co_Time opts, co_ControlRef opts, MessageRef opts,
          co_Version opts, co_Release opts]"

definition contrl_draft :: "contrl_options \<Rightarrow> report \<Rightarrow> draft" where
  "contrl_draft opts r = ((if MessageRef opts = '''' then ''1'' else MessageRef opts),
     contrl_messageID opts (if co_SyntaxVersion opts = 0 then 3 else co_SyntaxVersion opts), contrl_body r)"

lemma Build_build: "Build r opts = Inr ic \<Longrightarrow> ic = build (contrl_params opts r) [contrl_draft opts r]"
  by (simp add: Build_def build_def contrl_draft_def Let_def split: if_splits)

lemma contrl_draft_ok:
  assumes "report_ok r" "contrl_options_ok opts"
  shows "params_ok (contrl_params opts r)" "list_all (draft_ok v) [contrl_draft opts r]"
proof -
  show "params_ok (contrl_params opts r)" using assms by (auto simp: params_ok_def contrl_params_def contrl_options_ok_def report_ok_def)
  have "list_all no_nl [''1'', ''D'', ''3'', ''4'', ''CONTRL'', ''UN'']" by (simp add: is_nl_def)
  then show "list_all (draft_ok v) [contrl_draft opts r]"
    using assms(2) contrl_body_ok [OF assms(1)] by (simp add: draft_ok_def contrl_draft_def contrl_messageID_def contrl_options_ok_def)
qed

lemma contrl_trip:
  assumes "report_ok r" "contrl_options_ok opts" "Build r opts = Inr ic" "ed_Encode eopts ic = Inr out" "ee_Syntax eopts = None"
    and "so_Syntax (po_Scan popts) = None" "length (ic_Segments ic) < maxSeg (po_Scan popts)" "length (ic_Segments ic) < 2 ^ 62"
  shows "\<exists>ic' m. ed_Parse latin1 utf8 out popts = Inr (ic', None) \<and> \<not> ic_HasErrors ic' \<and> Messages ic' = [m] \<and> ParseCONTRL m = Inr r"
proof -
  have ic: "ic = build (contrl_params opts r) [contrl_draft opts r]" by (rule Build_build [OF assms(3)])
  obtain ic' where ic': "ed_Parse latin1 utf8 out popts = Inr (ic', None)" "\<not> ic_HasErrors ic'"
    "map message_view (Messages ic') = map (\<lambda>(ref, mid, body). (ref, mid, map canon_content body)) [contrl_draft opts r]"
    using built_parses [OF contrl_draft_ok(1) [OF assms(1,2)] contrl_draft_ok(2) [OF assms(1,2)] assms(4) [unfolded ic] assms(5,6)] assms(7,8) unfolding ic by blast
  then obtain m where m: "Messages ic' = [m]" "message_ID m = contrl_messageID opts (if co_SyntaxVersion opts = 0 then 3 else co_SyntaxVersion opts)"
    "map content (m_Segments m) = map canon_content (contrl_body r)" by (auto simp: message_view_def contrl_draft_def)
  have "ParseCONTRL m = Inr r"
    using m(2,3) by (intro ParseCONTRL_body [OF assms(1)]) (simp_all add: contrl_messageID_def travelled_list [symmetric])
  then show ?thesis using ic' m(1) by blast
qed

text \<open>A syntax report means the same to the partner who receives it. A report rendered as a CONTRL
  interchange with any options, encoded, and decoded at the other end gives an interchange without
  errors holding one message, and reading that message as a CONTRL gives back the report: the
  subject's control reference and parties, the action, error and service tag, and every message,
  segment and element report in its place.\<close>

theorem contrl_roundtrip:
  assumes "report_ok r" "contrl_options_ok opts" "Build r opts = Inr ic" "ed_Encode eopts ic = Inr out" "ee_Syntax eopts = None"
    and "so_Syntax (po_Scan popts) = None" "length (ic_Segments ic) < maxSeg (po_Scan popts)" "length (ic_Segments ic) < 2 ^ 62"
  shows "\<exists>ic' m. ed_Parse latin1 utf8 out popts = Inr (ic', None) \<and> \<not> ic_HasErrors ic' \<and> Messages ic' = [m] \<and> ParseCONTRL m = Inr r"
  using assms by (rule contrl_trip)

section \<open>The acknowledgement a sender gets\<close>

lemma check_steps:
  "rp_Action (fold check_step ds r) = (if list_ex (\<lambda>d. ed_Severity d = Error) ds then ActionRejected else rp_Action r)
   \<and> (\<not> list_ex (\<lambda>d. ed_Severity d = Error) ds \<longrightarrow> fold check_step ds r = r)"
proof (induction ds arbitrary: r)
  case (Cons d ds)
  then show ?case by (cases "ed_Severity d = Error") (auto simp: check_step_def Let_def)
qed simp

lemma Check_rejects: "Rejected (Check ic) \<longleftrightarrow> ic_HasErrors ic"
  using check_steps [of "ic_Diagnostics ic" "base_report ic ActionAcknowledged"]
  by (auto simp: Check_def Rejected_def Let_def ic_HasErrors_def base_report_def ActionRejected_def ActionAcknowledged_def)

lemma Check_clean:
  assumes "\<not> ic_HasErrors ic"
  shows "Check ic = (base_report ic ActionAcknowledged)\<lparr>rp_Messages := map ack_message (Messages ic)\<rparr>"
  using check_steps [of "ic_Diagnostics ic" "base_report ic ActionAcknowledged"] assms
  by (simp add: Check_def Let_def ic_HasErrors_def base_report_def)

lemma Check_built_ok:
  assumes "params_ok p" "list_all (draft_ok v) ds" "\<not> ic_HasErrors ic" "ControlRef ic = up_ControlRef p"
    "Sender ic = external (up_Sender p)" "Recipient ic = external (up_Recipient p)"
    "map message_view (Messages ic) = map (\<lambda>(ref, mid, body). (ref, mid, map canon_content body)) ds"
  shows "report_ok (Check ic)" "map mr_Reference (rp_Messages (Check ic)) = map fst ds"
proof -
  have z: "element_report_ok zero_element" "er_Error zero_element = ''''" by (simp_all add: zero_element_def element_report_ok_def number_ok_def)
  have a: "no_nl ActionAcknowledged" by (simp add: ActionAcknowledged_def is_nl_def)
  have "message_report_ok (ack_message m)" if "m \<in> set (Messages ic)" for m
  proof -
    have "message_view m \<in> set (map (\<lambda>(ref, mid, body). (ref, mid, map canon_content body)) ds)"
      unfolding assms(7) [symmetric] using that by simp
    then obtain ref mid body where d: "(ref, mid, body) \<in> set ds" "Reference m = ref" "message_ID m = mid" by (auto simp: message_view_def)
    then have "draft_ok v (ref, mid, body)" using assms(2) by (auto simp: list_all_iff)
    then show ?thesis using d z a by (simp add: ack_message_def message_report_ok_def draft_ok_def)
  qed
  then have "list_all message_report_ok (map ack_message (Messages ic))" by (simp add: list_all_iff)
  then show "report_ok (Check ic)" unfolding Check_clean [OF assms(3)]
    using assms(1,4-6) z a by (simp add: base_report_def report_ok_def party_ok_def external_def params_ok_def)
  have "map fst (map message_view (Messages ic)) = map fst ds" unfolding assms(7) by (simp add: case_prod_unfold)
  then show "map mr_Reference (rp_Messages (Check ic)) = map fst ds"
    unfolding Check_clean [OF assms(3)] by (simp add: ack_message_def message_view_def comp_def)
qed

text \<open>C27: the acknowledgement loop closes. A node that decodes a properly built interchange, checks it
  and answers with a CONTRL gives its sender, once the answer is decoded at the other end, an
  acknowledgement of that interchange, by its control reference, listing its messages by their
  references in order. And a check rejects exactly the interchanges whose decoding found an error.\<close>

theorem contrl_acknowledges:
  assumes "params_ok p" "list_all (draft_ok (params_version p)) ds" "up_ControlRef p \<noteq> ''''"
    and "ed_Encode eopts (build p ds) = Inr out" "ee_Syntax eopts = None"
    and "so_Syntax (po_Scan popts) = None" "length (ic_Segments (build p ds)) < maxSeg (po_Scan popts)" "length (ic_Segments (build p ds)) < 2 ^ 62"
    and "ed_Parse latin1 utf8 out popts = Inr (ic, strict)" "contrl_options_ok opts" "Build (Check ic) opts = Inr cic"
    and "ed_Encode eopts cic = Inr cout" "length (ic_Segments cic) < maxSeg (po_Scan popts)" "length (ic_Segments cic) < 2 ^ 62"
  shows "(\<exists>ic' m r. ed_Parse latin1 utf8 cout popts = Inr (ic', None) \<and> Messages ic' = [m] \<and> ParseCONTRL m = Inr r
       \<and> rp_Action r = ActionAcknowledged \<and> rp_ControlRef r = up_ControlRef p \<and> map mr_Reference (rp_Messages r) = map fst ds)
     \<and> (\<forall>any. Rejected (Check any) \<longleftrightarrow> ic_HasErrors any)"
proof -
  have ic: "\<not> ic_HasErrors ic" "ControlRef ic = up_ControlRef p" "Sender ic = external (up_Sender p)" "Recipient ic = external (up_Recipient p)"
    "map message_view (Messages ic) = map (\<lambda>(ref, mid, body). (ref, mid, map canon_content body)) ds"
    using built_parses [OF assms(1,2,4-8), of latin1 utf8] assms(9) by auto
  note ok = Check_built_ok [OF assms(1,2) ic]
  obtain ic' m where "ed_Parse latin1 utf8 cout popts = Inr (ic', None)" "Messages ic' = [m]" "ParseCONTRL m = Inr (Check ic)"
    using contrl_trip [OF ok(1) assms(10-12,5,6,13,14)] by blast
  moreover have "rp_Action (Check ic) = ActionAcknowledged" "rp_ControlRef (Check ic) = up_ControlRef p"
    unfolding Check_clean [OF ic(1)] by (simp_all add: base_report_def ic(2))
  ultimately show ?thesis using ok(2) Check_rejects by blast
qed

definition reply_options :: contrl_options where
  "reply_options = \<lparr>co_Sender = up_Recipient sample_params, co_Recipient = up_Sender sample_params, co_ControlRef = ''ACK1'', MessageRef = '''',
     co_Date = ''260102'', co_Time = ''1306'', co_SyntaxVersion = 0, co_CharsetID = '''', co_Version = '''', co_Release = ''''\<rparr>"

lemma sample_sent:
  "params_ok sample_params" "list_all (draft_ok (params_version sample_params)) sample_drafts" "up_ControlRef sample_params = ''REF1''"
  "\<exists>out. ed_Encode plain_encode (build sample_params sample_drafts) = Inr out"
  "length (ic_Segments (build sample_params sample_drafts)) = 5" "maxSeg (po_Scan strict_parse) = 50"
  "ee_Syntax plain_encode = None" "so_Syntax (po_Scan strict_parse) = None" "contrl_options_ok reply_options"
proof -
  show "\<exists>out. ed_Encode plain_encode (build sample_params sample_drafts) = Inr out"
    by (cases "ed_Encode plain_encode (build sample_params sample_drafts)") (auto simp: ed_Encode_def plain_encode_def Let_def build_simps(4,5) split: if_splits)
qed code_simp+

lemma Encode_plain: "\<exists>out. ed_Encode plain_encode (build p ds) = Inr out"
  by (auto simp: ed_Encode_def plain_encode_def Let_def build_simps(4,5))

lemma length_emit_draft: "length (emit_message (draft_message (ref, mid, body))) = length body + 2"
  by (simp add: emit_message_def draft_message_def finalize_message_def)

definition sample_report :: report where
  "sample_report = \<lparr>rp_ControlRef = ''REF1'', rp_Sender = up_Sender sample_params, rp_Recipient = up_Recipient sample_params, rp_Action = ActionRejected,
     rp_Error = ''29'', rp_ServiceTag = ''UNZ'', rp_Element = zero_element,
     rp_Messages = [\<lparr>mr_Reference = ''1'', mr_ID = fst (snd (hd sample_drafts)), mr_Action = ''4'', mr_Error = '''', mr_ServiceTag = '''',
        mr_Element = zero_element, mr_Segments = [\<lparr>sr_Position = 2, sr_Error = ''12'', sr_Elements = [\<lparr>er_Error = ''37'', er_Position = 3, er_Component = 1\<rparr>]\<rparr>]\<rparr>]\<rparr>"

theorem contrl_roundtrip_witness:
  "\<exists>ic out ic' m. Build sample_report reply_options = Inr ic \<and> ed_Encode plain_encode ic = Inr out
     \<and> ed_Parse (\<lambda>_. True) (\<lambda>_. True) out strict_parse = Inr (ic', None) \<and> Messages ic' = [m] \<and> ParseCONTRL m = Inr sample_report"
proof -
  have r: "report_ok sample_report" "rp_ControlRef sample_report \<noteq> ''''" "rp_Action sample_report \<noteq> ''''" "length (contrl_body sample_report) = 4" by code_simp+
  obtain ic where b: "Build sample_report reply_options = Inr ic" using r(2,3) by (simp add: Build_def Let_def)
  note ic = Build_build [OF b]
  obtain out where o: "ed_Encode plain_encode ic = Inr out" using Encode_plain ic by blast
  have "length (ic_Segments ic) = 8" unfolding ic build_simps(7) using r(4) by (simp add: contrl_draft_def length_emit_draft)
  then show ?thesis using contrl_roundtrip [OF r(1) sample_sent(9) b o sample_sent(7,8), of "\<lambda>_. True" "\<lambda>_. True"] b o sample_sent(6) by auto
qed

theorem contrl_acknowledges_witness:
  "\<exists>out ic strict cic cout ic' m r. ed_Encode plain_encode (build sample_params sample_drafts) = Inr out
     \<and> ed_Parse (\<lambda>_. True) (\<lambda>_. True) out strict_parse = Inr (ic, strict) \<and> Build (Check ic) reply_options = Inr cic
     \<and> ed_Encode plain_encode cic = Inr cout \<and> ed_Parse (\<lambda>_. True) (\<lambda>_. True) cout strict_parse = Inr (ic', None)
     \<and> Messages ic' = [m] \<and> ParseCONTRL m = Inr r \<and> rp_Action r = ActionAcknowledged \<and> rp_ControlRef r = ''REF1'' \<and> map mr_Reference (rp_Messages r) = [''1'']"
proof -
  note s = sample_sent
  obtain out where o: "ed_Encode plain_encode (build sample_params sample_drafts) = Inr out" using s(4) by blast
  have l: "length (ic_Segments (build sample_params sample_drafts)) < maxSeg (po_Scan strict_parse)" "length (ic_Segments (build sample_params sample_drafts)) < 2 ^ 62"
    using s(5,6) by simp_all
  obtain ic where ic: "ed_Parse (\<lambda>_. True) (\<lambda>_. True) out strict_parse = Inr (ic, None)" "\<not> ic_HasErrors ic"
    "map message_view (Messages ic) = map (\<lambda>(ref, mid, body). (ref, mid, map canon_content body)) sample_drafts" "ControlRef ic = ''REF1''"
    using built_parses [OF s(1,2) o s(7,8) l, of "\<lambda>_. True" "\<lambda>_. True"] s(3) by auto
  note c = Check_clean [OF ic(2)]
  have "length sample_drafts = 1" by code_simp
  then have lm: "length (Messages ic) = 1" using ic(3) by (metis length_map)
  have lb: "length (contrl_body (Check ic)) = 2" unfolding c using lm
    by (cases "Messages ic") (simp_all add: contrl_body_def base_report_def ucm_segments_def ack_message_def)
  obtain cic where b: "Build (Check ic) reply_options = Inr cic" unfolding c by (simp add: Build_def Let_def base_report_def ic(4) ActionAcknowledged_def)
  note bb = Build_build [OF b]
  obtain cout where co: "ed_Encode plain_encode cic = Inr cout" using Encode_plain bb by blast
  have lc: "length (ic_Segments cic) = 6" unfolding bb build_simps(7) using lb by (simp add: contrl_draft_def length_emit_draft)
  have n: "up_ControlRef sample_params \<noteq> ''''" "map fst sample_drafts = [''1'']" by code_simp+
  show ?thesis using contrl_acknowledges [OF s(1,2) n(1) o s(7,8) l ic(1) s(9) b co] lc s(3,6) n(2) o ic(1) b co by auto
qed

end
