(* ===== verification/Typeb.thy ===== *)
theory Typeb
  imports Jetway_Prelude
begin

text \<open>
  The Type B teletype envelope (\<open>src/pkg/typeb/typeb.go\<close>, \<open>encode.go\<close>, \<open>priority.go\<close>): the
  lenient parser, the encoder with its limits, the possible-duplicate marker, priority bands and
  channel sequence numbers. Messages are 7-bit text, a \<open>string\<close> here. A diagnostic keeps its
  severity, line and code; its free-text detail is left out. The parser's loops over line indices
  are recursions over the lines that are left.
\<close>

definition LF :: char where "LF = CHR 0x0A"
definition CR :: char where "CR = CHR 0x0D"

definition StartOfMessage :: string where "StartOfMessage = ''ZCZC''"
definition EndOfMessage :: string where "EndOfMessage = ''NNNN''"
definition PDMIndicator :: string where "PDMIndicator = ''PDM''"

definition DefaultLineLength :: int where "DefaultLineLength = 63"
definition DefaultMaxLines :: int where "DefaultMaxLines = 60"
definition DefaultMaxBytes :: int where "DefaultMaxBytes = 4096"

section \<open>Addresses and time groups\<close>

record address =
  Location :: string
  Department :: string
  ad_Carrier :: string
  Extra :: string

text \<open>\<open>^([A-Z0-9]{3})([A-Z0-9]{2})([A-Z0-9]{2})([A-Z0-9]*)$\<close> with its submatches; \<open>None\<close> is the error.\<close>

definition ParseAddress :: "string \<Rightarrow> address option" where
  "ParseAddress s0 =
     (let s = ToUpper (TrimSpace s0) in
      if length s \<ge> 7 \<and> list_all is_upalnum s
      then Some \<lparr>Location = take 3 s, Department = take 2 (drop 3 s), ad_Carrier = take 2 (drop 5 s), Extra = drop 7 s\<rparr>
      else None)"

definition address_String :: "address \<Rightarrow> string" where
  "address_String a = Location a @ Department a @ ad_Carrier a @ Extra a"

definition address_IsZero :: "address \<Rightarrow> bool" where
  "address_IsZero a \<longleftrightarrow> Location a = '''' \<and> Department a = '''' \<and> ad_Carrier a = ''''"

definition Conventional :: "address \<Rightarrow> bool" where
  "Conventional a = (if Extra a \<noteq> '''' then False else list_all is_upper (Location a @ Department a))"

definition zero_address :: address where
  "zero_address = \<lparr>Location = '''', Department = '''', ad_Carrier = '''', Extra = ''''\<rparr>"

record origin_time =
  Day :: nat
  Hour :: nat
  Minute :: nat
  Present :: bool

definition zero_origin_time :: origin_time where
  "zero_origin_time = \<lparr>Day = 0, Hour = 0, Minute = 0, Present = False\<rparr>"

definition origin_time_String :: "origin_time \<Rightarrow> string" where
  "origin_time_String t = (if \<not> Present t then '''' else pad2 (Day t) @ pad2 (Hour t) @ pad2 (Minute t))"

definition parseOriginTime :: "string \<Rightarrow> origin_time option" where
  "parseOriginTime s =
     (if length s = 6 \<and> all_digits s
      then let d = dec_val (take 2 s); h = dec_val (take 2 (drop 2 s)); mi = dec_val (drop 4 s) in
           if d < 1 \<or> d > 31 \<or> h > 23 \<or> mi > 59 then None
           else Some \<lparr>Day = d, Hour = h, Minute = mi, Present = True\<rparr>
      else None)"

section \<open>The parsed message\<close>

datatype severity = SevInfo | SevWarn | SevError

record diagnostic =
  dg_Severity :: severity
  dg_Line :: nat
  dg_Code :: string

record tb_message =
  Framed :: bool
  Channel :: string
  Priority :: string
  Destinations :: "address list"
  tb_Origin :: address
  OriginTime :: origin_time
  OriginExtra :: "string list"
  tb_PDM :: bool
  SMI :: string
  tb_Text :: string
  tb_Raw :: string
  Diagnostics :: "diagnostic list"

definition diag :: "severity \<Rightarrow> nat \<Rightarrow> string \<Rightarrow> tb_message \<Rightarrow> tb_message" where
  "diag sev line code m = m\<lparr>Diagnostics := Diagnostics m @ [\<lparr>dg_Severity = sev, dg_Line = line, dg_Code = code\<rparr>]\<rparr>"

definition HasErrors :: "tb_message \<Rightarrow> bool" where
  "HasErrors m = list_ex (\<lambda>d. dg_Severity d = SevError) (Diagnostics m)"

definition control_chars :: "char list" where
  "control_chars = [CHR 0x00, CHR 0x01, CHR 0x02, CHR 0x03, CHR 0x04, CHR 0x16]"

fun Normalise :: "string \<Rightarrow> string" where
  "Normalise [] = []"
| "Normalise (c # rest) =
     (if c \<in> set control_chars then Normalise rest
      else if c = CR then (if rest \<noteq> [] \<and> hd rest = LF then Normalise rest else LF # Normalise rest)
      else c # Normalise rest)"

definition priorityRe :: "string \<Rightarrow> bool" where
  "priorityRe s \<longleftrightarrow> length s = 2 \<and> s ! 0 = CHR ''Q'' \<and> is_upper (s ! 1)"

definition KnownPriorities :: "string list" where
  "KnownPriorities = [''QU'', ''QK'', ''QD'', ''QN'', ''QX'', ''QS'', ''QP'', ''QC'', ''QM'', ''QF'', ''QY'']"

definition blank :: "string \<Rightarrow> bool" where
  "blank l \<longleftrightarrow> TrimSpace l = ''''"

definition trim_blank_end :: "string list \<Rightarrow> string list" where
  "trim_blank_end ls = rev (dropWhile blank (rev ls))"

definition trimTrailingBlankLines :: "string list \<Rightarrow> string" where
  "trimTrailingBlankLines ls = Join (trim_blank_end ls) [LF]"

definition allLookLikeAddresses :: "string list \<Rightarrow> bool" where
  "allLookLikeAddresses fs = (if fs = [] then False else list_all (\<lambda>f. ParseAddress f \<noteq> None) fs)"

fun appendAddresses :: "string list \<Rightarrow> nat \<Rightarrow> tb_message \<Rightarrow> tb_message" where
  "appendAddresses [] line m = m"
| "appendAddresses (f # fs) line m =
     (case ParseAddress f of
        None \<Rightarrow> appendAddresses fs line (diag SevError line ''bad_address'' m)
      | Some a \<Rightarrow>
          let m1 = (if \<not> Conventional a then diag SevInfo line ''unconventional_address'' m else m) in
          appendAddresses fs line (m1\<lparr>Destinations := Destinations m1 @ [a]\<rparr>))"

fun origin_tokens :: "string list \<Rightarrow> tb_message \<Rightarrow> tb_message" where
  "origin_tokens [] m = m"
| "origin_tokens (f # fs) m =
     (if f = PDMIndicator then origin_tokens fs (m\<lparr>tb_PDM := True\<rparr>)
      else case (if \<not> Present (OriginTime m) then parseOriginTime f else None) of
             Some ot \<Rightarrow> origin_tokens fs (m\<lparr>OriginTime := ot\<rparr>)
           | None \<Rightarrow> origin_tokens fs (m\<lparr>OriginExtra := OriginExtra m @ [f]\<rparr>))"

definition parseOriginLine :: "string \<Rightarrow> nat \<Rightarrow> tb_message \<Rightarrow> tb_message" where
  "parseOriginLine t line m =
     (case Fields (if HasPrefix t ''.'' then tl t else t) of
        [] \<Rightarrow> diag SevError line ''empty_origin'' m
      | f # fs \<Rightarrow>
          let m1 = (case ParseAddress f of
                      None \<Rightarrow> diag SevError line ''bad_origin_address'' m
                    | Some a \<Rightarrow> m\<lparr>tb_Origin := a\<rparr>);
              m2 = origin_tokens fs m1
          in if \<not> Present (OriginTime m2) then diag SevWarn line ''missing_origin_time'' m2 else m2)"

text \<open>Continuation address lines; the number is that of the next line.\<close>

fun more_addresses :: "nat \<Rightarrow> string list \<Rightarrow> tb_message \<Rightarrow> nat \<times> string list \<times> tb_message" where
  "more_addresses n [] m = (n, [], m)"
| "more_addresses n (l # ls) m =
     (let t = TrimSpace l in
      if t = '''' \<or> HasPrefix t ''.'' then (n, l # ls, m)
      else if \<not> allLookLikeAddresses (Fields t) then (n, l # ls, m)
      else more_addresses (Suc n) ls (appendAddresses (Fields t) n m))"

definition address_block :: "nat \<Rightarrow> string list \<Rightarrow> tb_message \<Rightarrow> nat \<times> string list \<times> tb_message" where
  "address_block n ls m =
     (case ls of
        [] \<Rightarrow> (n, [], m)
      | l # rest \<Rightarrow>
          (case Fields (TrimSpace l) of
             f # fs \<Rightarrow>
               if priorityRe f
               then let m1 = m\<lparr>Priority := f\<rparr>;
                        m2 = (if f \<notin> set KnownPriorities then diag SevInfo n ''unknown_priority'' m1 else m1)
                    in more_addresses (Suc n) rest (appendAddresses fs n m2)
               else (n, ls, diag SevWarn n ''missing_priority'' m)
           | [] \<Rightarrow> (n, ls, diag SevWarn n ''missing_priority'' m)))"

text \<open>The search for the origin line; \<open>None\<close> when the lines run out, which leaves the position unchanged.\<close>

fun origin_block :: "nat \<Rightarrow> string list \<Rightarrow> tb_message \<Rightarrow> string list option \<times> tb_message" where
  "origin_block n [] m = (None, m)"
| "origin_block n (l # ls) m =
     (let t = TrimSpace l in
      if t = '''' then origin_block (Suc n) ls m
      else if t = PDMIndicator then origin_block (Suc n) ls (m\<lparr>tb_PDM := True\<rparr>)
      else if HasPrefix t ''.'' then (Some ls, parseOriginLine t n m)
      else (Some (l # ls), if Priority m \<noteq> '''' then diag SevWarn n ''missing_origin'' m else m))"

definition zero_tb :: "string \<Rightarrow> tb_message" where
  "zero_tb raw = \<lparr>Framed = False, Channel = '''', Priority = '''', Destinations = [], tb_Origin = zero_address,
     OriginTime = zero_origin_time, OriginExtra = [], tb_PDM = False, SMI = '''', tb_Text = '''', tb_Raw = raw,
     Diagnostics = []\<rparr>"

text \<open>Network framing: whether it was seen, the channel token, the lines inside and how many were skipped.\<close>

definition strip_frame :: "string list \<Rightarrow> bool \<times> string \<times> string list \<times> nat" where
  "strip_frame lines0 =
     (let start = length (takeWhile blank lines0);
          rest = drop start lines0;
          (framed, ch, start1) =
            (case rest of
               [] \<Rightarrow> (False, '''', start)
             | l # _ \<Rightarrow>
                 (case Fields (TrimSpace l) of
                    f # fs \<Rightarrow> if f = StartOfMessage then (True, (case fs of [] \<Rightarrow> '''' | c # _ \<Rightarrow> c), Suc start)
                              else (False, '''', start)
                  | [] \<Rightarrow> (False, '''', start)));
          body = trim_blank_end (drop start1 lines0)
      in if body \<noteq> [] \<and> TrimSpace (last body) = EndOfMessage then (True, ch, butlast body, start1)
         else (framed, ch, body, start1))"

text \<open>The rest of \<open>Parse\<close>, after the framing: address block, origin line, text, the two closing checks.\<close>

definition parse_inside :: "string \<Rightarrow> bool \<Rightarrow> string \<Rightarrow> string list \<Rightarrow> nat \<Rightarrow> tb_message" where
  "parse_inside raw framed ch lines0 off =
     (let m0 = (zero_tb raw)\<lparr>Framed := framed, Channel := ch\<rparr>;
          lead = length (takeWhile blank lines0);
          (n1, rest1, m1) = address_block (off + lead + 1) (drop lead lines0) m0;
          (found, m2) = origin_block n1 rest1 m1;
          rest2 = dropWhile blank (case found of Some ls \<Rightarrow> ls | None \<Rightarrow> rest1);
          m3 = m2\<lparr>tb_Text := trimTrailingBlankLines rest2\<rparr>;
          m4 = (if tb_Text m3 = '''' then diag SevError 0 ''empty_text'' m3 else m3)
      in if Destinations m4 = [] \<and> Priority m4 \<noteq> '''' then diag SevError 0 ''no_destinations'' m4 else m4)"

definition Parse :: "string \<Rightarrow> tb_message option" where
  "Parse raw =
     (let body = Normalise raw in
      if TrimSpace body = '''' then None
      else
        let (framed, ch, lines0, off) = strip_frame (split_on LF body) in
        if lines0 = [] then None else Some (parse_inside raw framed ch lines0 off))"

section \<open>Encoding\<close>

record charset =
  cs_Name :: string
  cs_allowed :: "char list"

definition FirstInvalid :: "charset \<Rightarrow> string \<Rightarrow> char option" where
  "FirstInvalid cs s = find (\<lambda>r. r \<noteq> LF \<and> r \<notin> set (cs_allowed cs)) s"

record encode_options =
  MaxLineLength :: int
  MaxLines :: int
  MaxBytes :: int
  Frame :: bool
  eo_Channel :: string
  CRLF :: bool
  BlankLineAfterOrigin :: bool
  eo_Charset :: "charset option"

definition maxBytes :: "encode_options \<Rightarrow> int" where
  "maxBytes opts = (if MaxBytes opts < 0 then 2 ^ 30 else if MaxBytes opts = 0 then DefaultMaxBytes else MaxBytes opts)"

definition maxLine :: "encode_options \<Rightarrow> int" where
  "maxLine opts = (if MaxLineLength opts < 0 then 2 ^ 30 else if MaxLineLength opts = 0 then DefaultLineLength else MaxLineLength opts)"

datatype tb_error = NoDestinations | NoOrigin | InvalidPriority string | BadCharacter char | TooManyLines nat
  | EndsWithNNNN | LineTooLong string | TooManyBytes nat

fun wrap_addresses :: "int \<Rightarrow> string \<Rightarrow> string \<Rightarrow> string list \<Rightarrow> string list" where
  "wrap_addresses mx prio cur [] = (if cur \<noteq> '''' \<and> cur \<noteq> prio then [cur] else [])"
| "wrap_addresses mx prio cur (s # ss) =
     (if int (length cur + 1 + length s) > mx \<and> cur \<noteq> prio \<and> cur \<noteq> '''' then cur # wrap_addresses mx prio s ss
      else if int (length cur + 1 + length s) > mx \<and> cur = prio then (cur @ '' '' @ s) # wrap_addresses mx prio '''' ss
      else if cur = '''' then wrap_addresses mx prio s ss
      else wrap_addresses mx prio (cur @ '' '' @ s) ss)"

definition lastNonBlank :: "string list \<Rightarrow> string" where
  "lastNonBlank ls = (case trim_blank_end ls of [] \<Rightarrow> '''' | xs \<Rightarrow> TrimSpace (last xs))"

fun ReplaceCRLF :: "string \<Rightarrow> string" where
  "ReplaceCRLF [] = []"
| "ReplaceCRLF [c] = [c]"
| "ReplaceCRLF (c # d # rest) = (if c = CR \<and> d = LF then LF # ReplaceCRLF rest else c # ReplaceCRLF (d # rest))"

definition origin_line :: "tb_message \<Rightarrow> string" where
  "origin_line m =
     CHR ''.'' # address_String (tb_Origin m)
     @ (if Present (OriginTime m) then '' '' @ origin_time_String (OriginTime m) else '''')
     @ (if tb_PDM m then '' '' @ PDMIndicator else '''')
     @ concat (map (\<lambda>e. '' '' @ e) (OriginExtra m))"

definition text_lines :: "encode_options \<Rightarrow> string \<Rightarrow> tb_error + string list" where
  "text_lines opts body_txt =
     (if body_txt = '''' then Inr []
      else
        let tls = split_on LF body_txt;
            mxl = (if MaxLines opts = 0 then DefaultMaxLines else MaxLines opts)
        in if mxl > 0 \<and> int (length tls) > mxl then Inl (TooManyLines (length tls))
           else if \<not> Frame opts \<and> lastNonBlank tls = EndOfMessage then Inl EndsWithNNNN
           else case find (\<lambda>x. int (length x) > maxLine opts) tls of
                  Some x \<Rightarrow> Inl (LineTooLong x)
                | None \<Rightarrow> Inr tls)"

definition Encode :: "encode_options \<Rightarrow> tb_message \<Rightarrow> tb_error + string" where
  "Encode opts m =
     (if Destinations m = [] then Inl NoDestinations
      else if address_IsZero (tb_Origin m) then Inl NoOrigin
      else
        let prio = (if Priority m = '''' then ''QU'' else Priority m) in
        if \<not> priorityRe prio then Inl (InvalidPriority prio)
        else
          let head = (if Frame opts then [StartOfMessage @ (if eo_Channel opts \<noteq> '''' then '' '' @ eo_Channel opts else '''')] else [])
                     @ wrap_addresses (maxLine opts) prio prio (map address_String (Destinations m))
                     @ [origin_line m]
                     @ (if BlankLineAfterOrigin opts then [''''] else [])
                     @ (if SMI m \<noteq> '''' then [SMI m] else []);
              body_txt = ReplaceCRLF (tb_Text m)
          in case (case eo_Charset opts of None \<Rightarrow> None | Some cs \<Rightarrow> FirstInvalid cs body_txt) of
               Some bad \<Rightarrow> Inl (BadCharacter bad)
             | None \<Rightarrow>
                 (case text_lines opts body_txt of
                    Inl e \<Rightarrow> Inl e
                  | Inr tls \<Rightarrow>
                      let lines0 = head @ tls @ (if Frame opts then [EndOfMessage] else []);
                          sep = (if CRLF opts then [CR, LF] else [LF]);
                          out = Join lines0 sep @ sep
                      in if int (length out) > maxBytes opts then Inl (TooManyBytes (length out)) else Inr out))"

definition SanitiseText :: "string \<Rightarrow> charset \<Rightarrow> char \<Rightarrow> string \<times> nat" where
  "SanitiseText s cs replacement =
     (let f = (\<lambda>r. if r = LF \<or> r \<in> set (cs_allowed cs) then (r, 0) else if is_space r then (CHR '' '', 0) else (replacement, 1));
          rs = map f (ToUpper s)
      in (map fst rs, sum_list (map snd rs)))"

section \<open>Marking, priorities, channels\<close>

fun split_after :: "string \<Rightarrow> string list" where
  "split_after [] = [[]]"
| "split_after (x # xs) =
     (if x = LF then [x] # split_after xs else (case split_after xs of [] \<Rightarrow> [[x]] | y # ys \<Rightarrow> (x # y) # ys))"

definition trim_right_nl :: "string \<Rightarrow> string" where
  "trim_right_nl s = rev (dropWhile (\<lambda>c. c = CR \<or> c = LF) (rev s))"

fun mark_lines :: "string list \<Rightarrow> string list option" where
  "mark_lines [] = None"
| "mark_lines (ln # lns) =
     (let body = trim_right_nl ln; t = TrimSpace body in
      if \<not> HasPrefix t ''.'' then map_option (Cons ln) (mark_lines lns)
      else if PDMIndicator \<in> set (Fields t) then None
      else Some ((body @ '' '' @ PDMIndicator @ drop (length body) ln) # lns))"

definition MarkPossibleDuplicate :: "string \<Rightarrow> string \<times> bool" where
  "MarkPossibleDuplicate raw = (case mark_lines (split_after raw) of None \<Rightarrow> (raw, False) | Some ls \<Rightarrow> (concat ls, True))"

datatype priority_class = PriorityUrgent | PriorityNormal | PriorityDeferred

definition priorityClasses :: "priority_class strmap" where
  "priorityClasses = [(''QS'', PriorityUrgent), (''QU'', PriorityUrgent), (''QP'', PriorityUrgent),
     (''QD'', PriorityDeferred), (''QN'', PriorityDeferred)]"

definition ClassOf :: "string \<Rightarrow> priority_class" where
  "ClassOf code = (case map_of priorityClasses (ToUpper (TrimSpace code)) of Some c \<Rightarrow> c | None \<Rightarrow> PriorityNormal)"

definition regex_space :: "char \<Rightarrow> bool" where
  "regex_space c \<longleftrightarrow> c \<in> {CHR 0x09, CHR 0x0A, CHR 0x0C, CHR 0x0D, CHR 0x20}"

fun priority_scan :: "string list \<Rightarrow> string" where
  "priority_scan [] = ''''"
| "priority_scan (l # ls) =
     (let t = TrimSpace l in
      if t = '''' then priority_scan ls
      else if HasPrefix t StartOfMessage then priority_scan ls
      else if length t \<ge> 2 \<and> priorityRe (take 2 t) \<and> (length t = 2 \<or> regex_space (t ! 2)) then take 2 t
      else '''')"

definition PriorityOf :: "string \<Rightarrow> string" where
  "PriorityOf raw = priority_scan (split_on LF raw)"

definition ParseChannel :: "string \<Rightarrow> (string \<times> int) option" where
  "ParseChannel token =
     (let t = ToUpper (TrimSpace token); c = takeWhile is_upper t; ds = dropWhile is_upper t in
      if ds \<noteq> '''' \<and> all_digits ds then map_option (Pair c) (Atoi ds) else None)"

record sequence_gap =
  Expected :: int
  Got :: int
  Missing :: int
  Repeat :: bool

text \<open>\<open>None\<close> is the answer without a gap.\<close>

definition CheckSequence :: "int \<Rightarrow> int \<Rightarrow> int \<Rightarrow> sequence_gap option" where
  "CheckSequence lst got wrap =
     (let expected = (if wrap > 0 \<and> lst + 1 > wrap then 1 else lst + 1) in
      if got = expected then None
      else if wrap > 0
      then let d = (if got - expected < 0 then got - expected + wrap else got - expected) in
           if d < wrap div 2 then Some \<lparr>Expected = expected, Got = got, Missing = d, Repeat = False\<rparr>
           else Some \<lparr>Expected = expected, Got = got, Missing = 0, Repeat = True\<rparr>
      else if got < expected then Some \<lparr>Expected = expected, Got = got, Missing = 0, Repeat = True\<rparr>
      else Some \<lparr>Expected = expected, Got = got, Missing = got - expected, Repeat = False\<rparr>)"

end
