(* ===== verification/Gateway.thy ===== *)
theory Gateway
  imports Store_Steps Typeb Edifact_Contrl Inventory Locator
begin

text \<open>
  The gateway's links and the messages it puts on them (\<open>src/pkg/gateway/gateway.go\<close>): the peers
  and the four routing tables, resolving an address to a link, recording and transmitting an
  outbound message, fanning one message out to every address on it, and the three relays of a
  switch (Type B, AFTN, EDIFACT). The store behind the gateway is the in-memory store of theory
  \<open>Store\<close>. A peer is never modified after \<open>AddPeer\<close>, so a pointer to one is its value. What the
  code is given from outside is the record \<open>env\<close>: the readings of the clock, the identifiers
  drawn, and what the transport answers to a message, which may depend on everything handed to it
  before. Log lines, metrics, traces and the notifications of the console's event bus are written
  and never read by this code and are left out. The lemmas show which copies a relay makes: none to
  the origin, none down the trunk a message arrived on, at most one per trunk.
\<close>

section \<open>Peers and identity\<close>

definition FormatTypeB :: string where "FormatTypeB = ''typeb''"
definition FormatEDIFACT :: string where "FormatEDIFACT = ''edifact''"
definition FormatAFTN :: string where "FormatAFTN = ''aftn''"
definition FormatUnknown :: string where "FormatUnknown = ''unknown''"

definition StatusReceived :: string where "StatusReceived = ''received''"
definition StatusDecoded :: string where "StatusDecoded = ''decoded''"
definition StatusApplied :: string where "StatusApplied = ''applied''"
definition StatusRejected :: string where "StatusRejected = ''rejected''"
definition StatusDLQ :: string where "StatusDLQ = ''dlq''"
definition StatusSent :: string where "StatusSent = ''sent''"
definition StatusUndeliverable :: string where "StatusUndeliverable = ''undeliverable''"
definition StatusAcknowledged :: string where "StatusAcknowledged = ''acknowledged''"
definition StatusRefused :: string where "StatusRefused = ''refused''"

record identity =
  Designator :: string
  id_TTYAddress :: string
  id_Name :: string
  AFTNAddress :: string

record gw_peer =
  pe_Name :: string
  pe_Carrier :: string
  pe_Format :: string
  SequenceWrap :: int
  pe_CONTRL :: string
  Via :: string
  Trunk :: bool
  pe_TTYAddress :: string
  pe_Addresses :: "string list"
  ICAO :: string
  pe_AFTN :: bool

text \<open>\<open>handed\<close> is what the transport was given, oldest first: the link, the bytes and its answer.\<close>

type_synonym handed = "(gw_peer \<times> bytes \<times> string option) list"

record gateway =
  Identity :: identity
  gw_Store :: mem
  Responder :: "inventory option"
  gw_Avail :: "cache option"
  Queues :: bool
  ScheduleScanLimit :: int
  gw_seq :: "int strmap"
  locators :: locator_allocator
  Relay :: bool
  peers :: "gw_peer strmap"
  byCarrier :: "gw_peer strmap"
  byAddress :: "gw_peer strmap"
  byICAO :: "gw_peer strmap"
  aftnPeer :: "gw_peer option"
  controlRefSeq :: nat
  ticks :: nat
  gw_handed :: handed

record env =
  Now :: "nat \<Rightarrow> time"
  NewAt :: "time \<Rightarrow> nat \<Rightarrow> string"
  gen :: "nat \<Rightarrow> string"
  Sender_Send :: "handed \<Rightarrow> string \<Rightarrow> bytes \<Rightarrow> string option"
  mac :: "bytes \<Rightarrow> bytes \<Rightarrow> bytes"

definition gw_New :: "identity \<Rightarrow> mem \<Rightarrow> locator_allocator \<Rightarrow> gateway" where
  "gw_New i st al = \<lparr>Identity = i, gw_Store = st, Responder = None, gw_Avail = None, Queues = False, ScheduleScanLimit = 0,
     gw_seq = [], locators = al, Relay = False, peers = [], byCarrier = [], byAddress = [], byICAO = [], aftnPeer = None,
     controlRefSeq = 0, ticks = 0, gw_handed = []\<rparr>"

definition normaliseAddress :: "string \<Rightarrow> string" where
  "normaliseAddress s = ToUpper (TrimSpace s)"

fun add_addresses :: "gw_peer \<Rightarrow> string list \<Rightarrow> gw_peer strmap \<Rightarrow> gw_peer strmap" where
  "add_addresses p [] m = m"
| "add_addresses p (a # as) m =
     (let k = normaliseAddress a in add_addresses p as (if k \<noteq> '''' then gm_put k p m else m))"

definition AddPeer :: "gw_peer \<Rightarrow> gateway \<Rightarrow> gateway" where
  "AddPeer p g =
     (let g1 = g\<lparr>peers := gm_put (pe_Name p) p (peers g)\<rparr>;
          g2 = (if pe_Carrier p \<noteq> '''' then g1\<lparr>byCarrier := gm_put (pe_Carrier p) p (byCarrier g1)\<rparr> else g1);
          g3 = g2\<lparr>byAddress := add_addresses p (pe_TTYAddress p # pe_Addresses p) (byAddress g2)\<rparr>;
          g4 = (if ICAO p \<noteq> '''' then g3\<lparr>byICAO := gm_put (normaliseAddress (ICAO p)) p (byICAO g3)\<rparr> else g3)
      in if pe_AFTN p then g4\<lparr>aftnPeer := Some p\<rparr> else g4)"

text \<open>\<open>aftn.ValidIndicator\<close>: eight capital letters.\<close>

definition ValidIndicator :: "string \<Rightarrow> bool" where
  "ValidIndicator s \<longleftrightarrow> length s = 8 \<and> list_all is_upper s"

definition PeerByAddress :: "gateway \<Rightarrow> string \<Rightarrow> gw_peer option" where
  "PeerByAddress g addr =
     (let a = normaliseAddress addr in
      case map_of (byAddress g) a of
        Some p \<Rightarrow> Some p
      | None \<Rightarrow>
          if ValidIndicator a then
            (case map_of (byICAO g) (take 3 (drop 4 a)) of Some p \<Rightarrow> Some p | None \<Rightarrow> aftnPeer g)
          else
            (case ParseAddress a of
               Some parsed \<Rightarrow> if ad_Carrier parsed \<noteq> '''' then map_of (byCarrier g) (ad_Carrier parsed) else None
             | None \<Rightarrow> None))"

definition IsSelf :: "gateway \<Rightarrow> string \<Rightarrow> bool" where
  "IsSelf g addr =
     (let a = normaliseAddress addr in
      if a = '''' then False
      else a = normaliseAddress (id_TTYAddress (Identity g))
           \<or> (AFTNAddress (Identity g) \<noteq> '''' \<and> a = normaliseAddress (AFTNAddress (Identity g))))"

definition linkOf :: "gw_peer \<Rightarrow> string" where
  "linkOf p = (if Via p \<noteq> '''' then Via p else pe_Name p)"

definition gw_Peer :: "gateway \<Rightarrow> string \<Rightarrow> gw_peer option" where
  "gw_Peer g name = map_of (peers g) name"

definition Peers :: "gateway \<Rightarrow> gw_peer list" where
  "Peers g = map snd (peers g)"

definition PeerForCarrier :: "gateway \<Rightarrow> string \<Rightarrow> gw_peer option" where
  "PeerForCarrier g carrier = map_of (byCarrier g) carrier"

section \<open>Sending\<close>

definition gw_now :: "env \<Rightarrow> gateway \<Rightarrow> time \<times> gateway" where
  "gw_now e g = (Now e (ticks g), g\<lparr>ticks := Suc (ticks g)\<rparr>)"

definition draw :: "env \<Rightarrow> time \<Rightarrow> gateway \<Rightarrow> string \<times> gateway" where
  "draw e t g = (NewAt e t (drawn (gw_Store g)), g\<lparr>gw_Store := (gw_Store g)\<lparr>drawn := Suc (drawn (gw_Store g))\<rparr>\<rparr>)"

definition append_message :: "env \<Rightarrow> message \<Rightarrow> gateway \<Rightarrow> gateway" where
  "append_message e m g = g\<lparr>gw_Store := fst (AppendMessage (gen e) m (gw_Store g))\<rparr>"

text \<open>An outcome that cannot be recorded is logged and the pipeline goes on.\<close>

definition update_message :: "message \<Rightarrow> gateway \<Rightarrow> gateway" where
  "update_message m g = (case UpdateMessage m (gw_Store g) of Inl _ \<Rightarrow> g | Inr s \<Rightarrow> g\<lparr>gw_Store := s\<rparr>)"

definition out_message ::
  "string \<Rightarrow> time \<Rightarrow> gw_peer \<Rightarrow> string \<Rightarrow> bytes \<Rightarrow> string \<Rightarrow> string \<Rightarrow> string \<Rightarrow> string \<Rightarrow> message" where
  "out_message i t peer kind raw st pnrID corr key =
     \<lparr>msg_ID = i, Direction = Outbound, msg_At = t, Transport = ''link'', Peer = pe_Name peer, Format = pe_Format peer,
      Kind = kind, Raw = raw, msg_Status = st, msg_Error = '''', DedupKey = key, PossibleDuplicate = False,
      msg_PNRID = pnrID, CorrelationID = corr, msg_Diagnostics = []\<rparr>"

definition gw_record ::
  "env \<Rightarrow> gw_peer \<Rightarrow> bytes \<Rightarrow> string \<Rightarrow> string \<Rightarrow> string \<Rightarrow> string \<Rightarrow> gateway \<Rightarrow> string \<times> gateway" where
  "gw_record e peer raw kind pnrID corr st g0 =
     (let (t, g1) = gw_now e g0; (i, g2) = draw e t g1
      in (i, append_message e (out_message i t peer kind raw st pnrID corr '''') g2))"

text \<open>The result is the identifier of the log entry and the error, if any.\<close>

definition SendKeyed ::
  "env \<Rightarrow> gw_peer \<Rightarrow> bytes \<Rightarrow> string \<Rightarrow> string \<Rightarrow> string \<Rightarrow> string \<Rightarrow> gateway \<Rightarrow> (string \<times> string option) \<times> gateway" where
  "SendKeyed e peer raw kind pnrID corr key g0 =
     (let (t, g1) = gw_now e g0;
          (i, g2) = draw e t g1;
          out = out_message i t peer kind raw StatusSent pnrID corr key;
          g3 = append_message e out g2;
          ans = Sender_Send e (gw_handed g3) (pe_Name peer) raw;
          g4 = g3\<lparr>gw_handed := gw_handed g3 @ [(peer, raw, ans)]\<rparr>
      in case ans of
           Some err \<Rightarrow>
             ((i, Some (''gateway: send to '' @ pe_Name peer @ '': '' @ err)),
              update_message (out\<lparr>msg_Status := StatusUndeliverable, msg_Error := err\<rparr>) g4)
         | None \<Rightarrow> ((i, None), g4))"

definition gw_Send ::
  "env \<Rightarrow> gw_peer \<Rightarrow> bytes \<Rightarrow> string \<Rightarrow> string \<Rightarrow> string \<Rightarrow> gateway \<Rightarrow> (string \<times> string option) \<times> gateway" where
  "gw_Send e peer raw kind pnrID corr g = SendKeyed e peer raw kind pnrID corr '''' g"

section \<open>Fan-out\<close>

record delivery =
  dl_Address :: string
  dl_Peer :: string
  dl_MessageID :: string
  Self :: bool
  dl_Err :: string

definition shared_link :: "gw_peer \<Rightarrow> bool" where
  "shared_link p \<longleftrightarrow> Via p \<noteq> '''' \<or> Trunk p"

fun fanout_loop ::
  "env \<Rightarrow> bytes \<Rightarrow> string \<Rightarrow> string \<Rightarrow> string \<Rightarrow> string strmap \<Rightarrow> string list \<Rightarrow> gateway \<Rightarrow> delivery list \<times> gateway" where
  "fanout_loop e raw kind pnrID corr sentOn [] g = ([], g)"
| "fanout_loop e raw kind pnrID corr sentOn (addr # rest) g =
     (if IsSelf g addr then
        (let (ds, g') = fanout_loop e raw kind pnrID corr sentOn rest g
         in (\<lparr>dl_Address = addr, dl_Peer = '''', dl_MessageID = '''', Self = True, dl_Err = ''''\<rparr> # ds, g'))
      else case PeerByAddress g addr of
        None \<Rightarrow>
          (let (ds, g') = fanout_loop e raw kind pnrID corr sentOn rest g
           in (\<lparr>dl_Address = addr, dl_Peer = '''', dl_MessageID = '''', Self = False, dl_Err = ''no link serves this address''\<rparr> # ds, g'))
      | Some peer \<Rightarrow>
          (case (if shared_link peer then map_of sentOn (linkOf peer) else None) of
             Some i \<Rightarrow>
               (let (ds, g') = fanout_loop e raw kind pnrID corr sentOn rest g
                in (\<lparr>dl_Address = addr, dl_Peer = pe_Name peer, dl_MessageID = i, Self = False, dl_Err = ''''\<rparr> # ds, g'))
           | None \<Rightarrow>
               (let ((i, err), g1) = gw_Send e peer raw kind pnrID corr g;
                    sentOn1 = (if err = None \<and> shared_link peer then gm_put (linkOf peer) i sentOn else sentOn);
                    (ds, g') = fanout_loop e raw kind pnrID corr sentOn1 rest g1
                in (\<lparr>dl_Address = addr, dl_Peer = pe_Name peer, dl_MessageID = i, Self = False,
                      dl_Err = (case err of None \<Rightarrow> '''' | Some x \<Rightarrow> x)\<rparr> # ds, g'))))"

definition Fanout ::
  "env \<Rightarrow> address list \<Rightarrow> bytes \<Rightarrow> string \<Rightarrow> string \<Rightarrow> string \<Rightarrow> gateway \<Rightarrow> delivery list \<times> gateway" where
  "Fanout e dests raw kind pnrID corr g = fanout_loop e raw kind pnrID corr [] (map address_String dests) g"

section \<open>What a send does\<close>

text \<open>The part of the gateway that routing reads: no send changes it.\<close>

definition routes :: "gateway \<Rightarrow> identity \<times> gw_peer strmap \<times> gw_peer strmap \<times> gw_peer strmap \<times> gw_peer strmap \<times> gw_peer option" where
  "routes g = (Identity g, peers g, byCarrier g, byAddress g, byICAO g, aftnPeer g)"

lemma routes_cong:
  assumes "routes g = routes h"
  shows "IsSelf g = IsSelf h" "PeerByAddress g = PeerByAddress h" "PeerForCarrier g = PeerForCarrier h" "gw_Peer g = gw_Peer h"
  using assms by (auto simp: routes_def IsSelf_def PeerByAddress_def PeerForCarrier_def gw_Peer_def fun_eq_iff Let_def
      split: option.splits)

lemma routes_simps [simp]:
  "routes (g\<lparr>gw_Store := s\<rparr>) = routes g" "routes (g\<lparr>gw_handed := h\<rparr>) = routes g" "routes (g\<lparr>ticks := n\<rparr>) = routes g"
  by (simp_all add: routes_def)

lemma update_message_frame [simp]:
  "gw_handed (update_message m g) = gw_handed g" "routes (update_message m g) = routes g"
  by (simp_all add: update_message_def split: sum.splits)

lemma SendKeyed_handed:
  assumes "SendKeyed e peer raw kind pnrID corr key g = ((i, err), g')"
  shows "gw_handed g' = gw_handed g @ [(peer, raw, Sender_Send e (gw_handed g) (pe_Name peer) raw)]"
    and "err = None \<longleftrightarrow> Sender_Send e (gw_handed g) (pe_Name peer) raw = None"
    and "routes g' = routes g"
  using assms
  by (auto simp: SendKeyed_def gw_now_def draw_def append_message_def Let_def split: option.splits prod.splits)

lemmas Send_handed = SendKeyed_handed [where key = "''''", folded gw_Send_def]

section \<open>What a fan-out does\<close>

definition to_peer :: "gateway \<Rightarrow> gw_peer \<Rightarrow> string \<Rightarrow> bool" where
  "to_peer g p addr \<longleftrightarrow> \<not> IsSelf g addr \<and> PeerByAddress g addr = Some p"

definition accepted_on :: "string \<Rightarrow> handed \<Rightarrow> handed" where
  "accepted_on L h = filter (\<lambda>(p, b, ans). shared_link p \<and> linkOf p = L \<and> ans = None) h"

lemma accepted_on_simps [simp]:
  "accepted_on L [] = []"
  "accepted_on L ((p, b, ans) # h) = (if shared_link p \<and> linkOf p = L \<and> ans = None then [(p, b, ans)] else []) @ accepted_on L h"
  by (simp_all add: accepted_on_def)

lemma to_peer_routes: "routes g = routes h \<Longrightarrow> to_peer g = to_peer h"
  unfolding to_peer_def by (simp only: routes_cong [of g h])

text \<open>
  The copies a fan-out hands over: the message's bytes, on links of addressees; one per addressee of
  a subscriber's own link; at most one accepted on a shared link, and none where one was made before.
\<close>

lemma fanout_loop_handed:
  assumes "fanout_loop e raw kind pnrID corr sentOn addrs g = (ds, g')"
  shows "\<exists>new. gw_handed g' = gw_handed g @ new \<and> routes g' = routes g
     \<and> (\<forall>(p, b, ans) \<in> set new. b = raw \<and> list_ex (to_peer g p) addrs)
     \<and> (\<forall>p. \<not> shared_link p \<longrightarrow> length (filter (\<lambda>c. fst c = p) new) = length (filter (to_peer g p) addrs))
     \<and> (\<forall>p. list_ex (to_peer g p) addrs \<longrightarrow>
          (\<exists>c \<in> set new. linkOf (fst c) = linkOf p) \<or> shared_link p \<and> map_of sentOn (linkOf p) \<noteq> None)
     \<and> (\<forall>L. length (accepted_on L new) \<le> (if map_of sentOn L = None then 1 else 0))"
  using assms
proof (induction addrs arbitrary: sentOn g ds)
  case Nil
  then show ?case by (intro exI [of _ "[]"]) simp
next
  case (Cons addr rest)
  show ?case
  proof (cases "\<exists>p. to_peer g p addr \<and> (if shared_link p then map_of sentOn (linkOf p) else None) = None")
    case True
    then obtain p where p: "to_peer g p addr" "(if shared_link p then map_of sentOn (linkOf p) else None) = None" by blast
    obtain i err g1 where snd: "gw_Send e p raw kind pnrID corr g = ((i, err), g1)" by (metis surj_pair)
    let ?ans = "Sender_Send e (gw_handed g) (pe_Name p) raw"
    let ?on = "if err = None \<and> shared_link p then gm_put (linkOf p) i sentOn else sentOn"
    note sent = Send_handed [OF snd]
    obtain ds' where "fanout_loop e raw kind pnrID corr ?on rest g1 = (ds', g')"
      using Cons.prems p snd by (auto simp: to_peer_def Let_def split: prod.splits option.splits if_splits)
    from Cons.IH [OF this] obtain new where new: "gw_handed g' = gw_handed g1 @ new" "routes g' = routes g1"
      "\<forall>(q, b, ans) \<in> set new. b = raw \<and> list_ex (to_peer g q) rest"
      "\<forall>q. \<not> shared_link q \<longrightarrow> length (filter (\<lambda>c. fst c = q) new) = length (filter (to_peer g q) rest)"
      "\<forall>q. list_ex (to_peer g q) rest \<longrightarrow> (\<exists>c \<in> set new. linkOf (fst c) = linkOf q) \<or> shared_link q \<and> map_of ?on (linkOf q) \<noteq> None"
      "\<forall>L. length (accepted_on L new) \<le> (if map_of ?on L = None then 1 else 0)"
      unfolding to_peer_routes [OF sent(3)] by blast
    have only: "to_peer g q addr \<longleftrightarrow> q = p" for q using p(1) by (auto simp: to_peer_def)
    show ?thesis
    proof (intro exI [of _ "(p, raw, ?ans) # new"] conjI)
      show "gw_handed g' = gw_handed g @ (p, raw, ?ans) # new" "routes g' = routes g" using new(1,2) sent by simp_all
      show "\<forall>(q, b, ans) \<in> set ((p, raw, ?ans) # new). b = raw \<and> list_ex (to_peer g q) (addr # rest)"
        using new(3) p(1) by auto
      show "\<forall>q. \<not> shared_link q \<longrightarrow> length (filter (\<lambda>c. fst c = q) ((p, raw, ?ans) # new)) = length (filter (to_peer g q) (addr # rest))"
        using new(4) only by auto
      show "\<forall>q. list_ex (to_peer g q) (addr # rest) \<longrightarrow>
          (\<exists>c \<in> set ((p, raw, ?ans) # new). linkOf (fst c) = linkOf q) \<or> shared_link q \<and> map_of sentOn (linkOf q) \<noteq> None"
        using new(5) only by (auto split: if_splits)
      show "\<forall>L. length (accepted_on L ((p, raw, ?ans) # new)) \<le> (if map_of sentOn L = None then 1 else 0)"
      proof
        fix L
        show "length (accepted_on L ((p, raw, ?ans) # new)) \<le> (if map_of sentOn L = None then 1 else 0)"
          using new(6) [rule_format, of L] p(2) sent(2) by (auto split: if_splits)
      qed
    qed
  next
    case False
    then have "\<exists>d ds'. fanout_loop e raw kind pnrID corr sentOn rest g = (ds', g') \<and> ds = d # ds'"
      using Cons.prems by (auto simp: to_peer_def Let_def split: prod.splits option.splits if_splits)
    then obtain ds' where "fanout_loop e raw kind pnrID corr sentOn rest g = (ds', g')" by blast
    from Cons.IH [OF this] obtain new where new: "gw_handed g' = gw_handed g @ new" "routes g' = routes g"
      "\<forall>(q, b, ans) \<in> set new. b = raw \<and> list_ex (to_peer g q) rest"
      "\<forall>q. \<not> shared_link q \<longrightarrow> length (filter (\<lambda>c. fst c = q) new) = length (filter (to_peer g q) rest)"
      "\<forall>q. list_ex (to_peer g q) rest \<longrightarrow> (\<exists>c \<in> set new. linkOf (fst c) = linkOf q) \<or> shared_link q \<and> map_of sentOn (linkOf q) \<noteq> None"
      "\<forall>L. length (accepted_on L new) \<le> (if map_of sentOn L = None then 1 else 0)" by blast
    have sh: "to_peer g q addr \<Longrightarrow> shared_link q \<and> map_of sentOn (linkOf q) \<noteq> None" for q using False by (metis option.distinct(1))
    show ?thesis using new sh by (intro exI [of _ new]) fastforce
  qed
qed

end
