(* ===== verification/Pnr_Date.thy ===== *)
theory Pnr_Date
  imports Pnr
begin

text \<open>
  The dates of the wire (\<open>src/pkg/pnr/date.go\<close>). Airline messages carry a day and a month and no
  year; \<open>ResolveDate\<close> supplies the year. A \<open>time.Time\<close> in UTC is its nanoseconds since the epoch;
  the calendar of the standard library (\<open>time.Date\<close>, \<open>Year\<close>, \<open>Month\<close>, \<open>Day\<close>) is the proleptic
  Gregorian one, defined here on day numbers. The theorem at the end shows that formatting a date
  and resolving it again gives the date back exactly when it lies in the booking window.
\<close>

section \<open>The calendar\<close>

definition leap :: "int \<Rightarrow> bool" where
  "leap y \<longleftrightarrow> y mod 4 = 0 \<and> (y mod 100 \<noteq> 0 \<or> y mod 400 = 0)"

text \<open>The number of the first day of a year, day 0 being 1 January 1970.\<close>

definition year_start :: "int \<Rightarrow> int" where
  "year_start y = 365 * (y - 1970) + ((y - 1) div 4 - 492) - ((y - 1) div 100 - 19) + ((y - 1) div 400 - 4)"

definition month_lengths :: "int \<Rightarrow> int list" where
  "month_lengths y = [31, if leap y then 29 else 28, 31, 30, 31, 30, 31, 31, 30, 31, 30, 31]"

definition month_start :: "int \<Rightarrow> nat \<Rightarrow> int" where
  "month_start y m = sum_list (take (m - 1) (month_lengths y))"

definition day_ns :: int where "day_ns = 86400 * 1000000000"

text \<open>\<open>time.Date(y, m, d, 0, 0, 0, 0, time.UTC)\<close> for a month from 1 to 12; a day past the end of the month runs into the next.\<close>

definition Date :: "int \<Rightarrow> nat \<Rightarrow> int \<Rightarrow> time" where
  "Date y m d = (year_start y + month_start y m + d - 1) * day_ns"

definition day_number :: "time \<Rightarrow> int" where
  "day_number t = t div day_ns"

definition year_of_day :: "int \<Rightarrow> int" where
  "year_of_day n =
     (let y = 1970 + (400 * n) div 146097 in
      if n < year_start y then y - 1 else if year_start (y + 1) \<le> n then y + 1 else y)"

fun month_of :: "nat \<Rightarrow> int list \<Rightarrow> int \<Rightarrow> nat \<times> int" where
  "month_of m [] n = (m, n)"
| "month_of m (l # ls) n = (if n < l then (m, n) else month_of (Suc m) ls (n - l))"

definition Year :: "time \<Rightarrow> int" where
  "Year t = year_of_day (day_number t)"

definition Month :: "time \<Rightarrow> nat" where
  "Month t = fst (month_of 1 (month_lengths (Year t)) (day_number t - year_start (Year t)))"

definition MDay :: "time \<Rightarrow> int" where
  "MDay t = snd (month_of 1 (month_lengths (Year t)) (day_number t - year_start (Year t))) + 1"

section \<open>\<open>date.go\<close>\<close>

definition months :: "nat strmap" where
  "months = [(''JAN'', 1), (''FEB'', 2), (''MAR'', 3), (''APR'', 4), (''MAY'', 5), (''JUN'', 6),
     (''JUL'', 7), (''AUG'', 8), (''SEP'', 9), (''OCT'', 10), (''NOV'', 11), (''DEC'', 12)]"

definition monthNames :: "string list" where
  "monthNames = [''JAN'', ''FEB'', ''MAR'', ''APR'', ''MAY'', ''JUN'', ''JUL'', ''AUG'', ''SEP'', ''OCT'', ''NOV'', ''DEC'']"

definition FormatDate :: "time \<Rightarrow> string" where
  "FormatDate t = pad2 (nat (MDay t)) @ monthNames ! (Month t - 1)"

definition pastWindow :: int where "pastWindow = 14 * day_ns"
definition futureWindow :: int where "futureWindow = 350 * day_ns"

definition real_date :: "int \<Rightarrow> nat \<Rightarrow> int \<Rightarrow> bool" where
  "real_date y m d \<longleftrightarrow> MDay (Date y m d) = d \<and> Month (Date y m d) = m"

fun resolve_years :: "time \<Rightarrow> nat \<Rightarrow> int \<Rightarrow> int list \<Rightarrow> time \<Rightarrow> time" where
  "resolve_years ref mon day [] best = best"
| "resolve_years ref mon day (y # ys) best =
     (let d = Date y mon day in
      if \<not> real_date y mon day then resolve_years ref mon day ys best
      else if d < ref - pastWindow then resolve_years ref mon day ys best
      else if d > ref + futureWindow then resolve_years ref mon day ys best
      else resolve_years ref mon day ys (if best = zero_time \<or> d < best then d else best))"

datatype date_error = TooShort | InvalidDay | UnknownMonth | UnusableYear | NotReal | OutsideWindow

definition ResolveDate :: "string \<Rightarrow> time \<Rightarrow> date_error + time" where
  "ResolveDate ddmmm ref =
     (let s = ToUpper (TrimSpace ddmmm) in
      if length s < 5 then Inl TooShort
      else case Atoi (take 2 s) of
        None \<Rightarrow> Inl InvalidDay
      | Some day \<Rightarrow>
          if day < 1 \<or> day > 31 then Inl InvalidDay
          else case map_of months (take 3 (drop 2 s)) of
            None \<Rightarrow> Inl UnknownMonth
          | Some mon \<Rightarrow>
              let rest = drop 5 s;
                  window = (let best = resolve_years ref mon day [Year ref - 1, Year ref, Year ref + 1] zero_time
                            in if best = zero_time then Inl OutsideWindow else Inr best)
              in case (if rest = '''' then None else Atoi rest) of
                   None \<Rightarrow> window
                 | Some y0 \<Rightarrow>
                     if length rest \<noteq> 2 \<and> length rest \<noteq> 4 then Inl UnusableYear
                     else let y = (if length rest = 2 then y0 + 2000 else y0) in
                          if real_date y mon day then Inr (Date y mon day) else Inl NotReal)"

definition ResolveTime :: "time \<Rightarrow> string \<Rightarrow> string + time" where
  "ResolveTime date hhmm0 =
     (let hhmm = TrimSpace hhmm0 in
      if length hhmm \<noteq> 4 then Inl hhmm
      else case (Atoi (take 2 hhmm), Atoi (drop 2 hhmm)) of
             (Some h, Some m) \<Rightarrow>
               if h > 23 \<or> m > 59 then Inl hhmm
               else Inr (day_number date * day_ns + (h * 60 + m) * 60 * 1000000000)
           | _ \<Rightarrow> Inl hhmm)"

section \<open>The calendar is consistent\<close>

lemma day_ns_pos [simp]: "0 < day_ns" "day_ns \<noteq> 0"
  by (simp_all add: day_ns_def)

lemma div_step:
  assumes "0 < (k :: int)"
  shows "y div k = (y - 1) div k + (if y mod k = 0 then 1 else 0)"
proof (cases "y mod k = 0")
  case True
  then have "y - 1 = k * (y div k - 1) + (k - 1)" by (simp add: algebra_simps mod_0_imp_dvd)
  from int_div_pos_eq [OF this] show ?thesis using assms True by simp
next
  case False
  have "y - 1 = k * (y div k) + (y mod k - 1)" by simp
  from int_div_pos_eq [OF this] show ?thesis using assms False pos_mod_sign [OF assms, of y] pos_mod_bound [OF assms, of y] by simp
qed

lemma mod_chain: "(y :: int) mod 400 = 0 \<Longrightarrow> y mod 100 = 0" "(y :: int) mod 100 = 0 \<Longrightarrow> y mod 4 = 0"
  using dvd_trans [of "100 :: int" 400 y] dvd_trans [of "4 :: int" 100 y] by (simp_all add: mod_eq_0_iff_dvd)

lemma year_start_step: "year_start (y + 1) = year_start y + (if leap y then 366 else 365)"
proof -
  have ring: "365 * (y + 1 - 1970) + (a + u - 492) - (b + v - 19) + (c + w - 4) = 365 * (y - 1970) + (a - 492) - (b - 19) + (c - 4) + 365 + u - v + w"
    for a b c u v w :: int by simp
  define p q r where "p \<longleftrightarrow> y mod 4 = 0" and "q \<longleftrightarrow> y mod 100 = 0" and "r \<longleftrightarrow> y mod 400 = 0"
  have "y div 4 = (y - 1) div 4 + (if p then 1 else 0)" "y div 100 = (y - 1) div 100 + (if q then 1 else 0)"
    "y div 400 = (y - 1) div 400 + (if r then 1 else 0)" unfolding p_def q_def r_def by (rule div_step, simp)+
  then have "year_start (y + 1) = year_start y + 365 + (if p then 1 else 0) - (if q then 1 else 0) + (if r then 1 else 0)"
    by (simp only: year_start_def add_diff_cancel_right') (rule ring)
  moreover have "leap y \<longleftrightarrow> p \<and> (\<not> q \<or> r)" "r \<longrightarrow> q" "q \<longrightarrow> p" using mod_chain [of y] by (auto simp: leap_def p_def q_def r_def)
  ultimately show ?thesis by (cases p; cases q; cases r) simp_all
qed

lemma year_start_mono: "y \<le> z \<Longrightarrow> year_start y + 365 * (z - y) \<le> year_start z"
proof (induction z rule: int_ge_induct)
  case (step z)
  then show ?case using year_start_step [of z] by (simp split: if_splits)
qed simp

lemma year_start_bounds:
  "146097 * (y - 1970) - 506 \<le> 400 * year_start y" "400 * year_start y \<le> 146097 * (y - 1970) + 589"
proof -
  let ?u = "y - 1"
  have "4 * (?u div 4) \<le> ?u" "?u - 3 \<le> 4 * (?u div 4)" "100 * (?u div 100) \<le> ?u" "?u - 99 \<le> 100 * (?u div 100)"
    "400 * (?u div 400) \<le> ?u" "?u - 399 \<le> 400 * (?u div 400)" by linarith+
  then show "146097 * (y - 1970) - 506 \<le> 400 * year_start y" "400 * year_start y \<le> 146097 * (y - 1970) + 589"
    by (simp_all add: year_start_def)
qed

lemma year_of_day_bounds: "year_start (year_of_day n) \<le> n \<and> n < year_start (year_of_day n + 1)"
proof -
  define y where "y = 1970 + (400 * n) div 146097"
  have y: "146097 * (y - 1970) \<le> 400 * n" "400 * n < 146097 * (y - 1970) + 146097" 
    using minus_mod_eq_mult_div [of "400 * n" 146097] pos_mod_sign [of 146097 "400 * n"] pos_mod_bound [of 146097 "400 * n"]
    by (simp_all add: y_def)
  have eq: "year_of_day n = (if n < year_start y then y - 1 else if year_start (y + 1) \<le> n then y + 1 else y)"
    by (simp add: year_of_day_def y_def Let_def)
  have "n < year_start (y + 2)" using year_start_bounds(1) [of "y + 2"] y by (simp add: algebra_simps)
  moreover have "year_start (y - 1) \<le> n" using year_start_bounds(2) [of "y - 1"] y by (simp add: algebra_simps)
  ultimately
  show ?thesis unfolding eq by (simp add: add.assoc)
qed

lemma year_of_day_unique: "year_start y \<le> n \<Longrightarrow> n < year_start (y + 1) \<Longrightarrow> year_of_day n = y"
  using year_of_day_bounds [of n] year_start_mono [of "y + 1" "year_of_day n"] year_start_mono [of "year_of_day n + 1" y]
  by (cases "year_of_day n" y rule: linorder_cases) auto

lemma month_of_at:
  "j < length ls \<Longrightarrow> \<forall>l \<in> set ls. 0 \<le> l \<Longrightarrow> 0 \<le> r \<Longrightarrow> r < ls ! j \<Longrightarrow> month_of k ls (sum_list (take j ls) + r) = (k + j, r)"
proof (induction ls arbitrary: j k)
  case (Cons l ls)
  show ?case
  proof (cases j)
    case (Suc i)
    have "0 \<le> sum_list (take i ls)" using Cons.prems(2) by (auto intro!: sum_list_nonneg dest: in_set_takeD)
    then have "\<not> sum_list (take j (l # ls)) + r < l" using Cons.prems Suc by simp
    then show ?thesis using Cons.IH [of i "Suc k"] Cons.prems Suc by (simp add: algebra_simps)
  qed (use Cons.prems in simp)
qed simp

lemma month_of_ex:
  "0 \<le> n \<Longrightarrow> n < sum_list (ls :: int list) \<Longrightarrow> \<exists>j r. j < length ls \<and> n = sum_list (take j ls) + r \<and> 0 \<le> r \<and> r < ls ! j"
proof (induction ls arbitrary: n)
  case (Cons l ls)
  show ?case
  proof (cases "n < l")
    case True
    then show ?thesis using Cons.prems by (intro exI [of _ 0] exI [of _ n]) simp
  next
    case False
    then obtain j r where "j < length ls" "n - l = sum_list (take j ls) + r" "0 \<le> r" "r < ls ! j"
      using Cons.IH [of "n - l"] Cons.prems by auto
    then show ?thesis by (intro exI [of _ "Suc j"] exI [of _ r]) simp
  qed
qed simp

lemma month_lengths_facts:
  "length (month_lengths y) = 12" "\<forall>l \<in> set (month_lengths y). 0 \<le> l \<and> l \<le> 31"
  "sum_list (month_lengths y) = (if leap y then 366 else 365)"
  by (simp_all add: month_lengths_def)

text \<open>A day of the calendar: a month from 1 to 12 and a day of that month.\<close>

definition civil :: "int \<Rightarrow> nat \<Rightarrow> int \<Rightarrow> bool" where
  "civil y m d \<longleftrightarrow> 1 \<le> m \<and> m \<le> 12 \<and> 1 \<le> d \<and> d \<le> month_lengths y ! (m - 1)"

lemma civil_in_year:
  assumes "civil y m d"
  shows "0 \<le> month_start y m" "month_start y m + d \<le> (if leap y then 366 else 365)"
proof -
  let ?ls = "month_lengths y"
  have m: "m - 1 < length ?ls" using assms by (auto simp: civil_def month_lengths_facts)
  have "sum_list ?ls = sum_list (take (m - 1) ?ls) + ?ls ! (m - 1) + sum_list (drop m ?ls)"
    using m assms by (subst id_take_nth_drop [OF m]) (simp add: civil_def)
  moreover have "0 \<le> sum_list (take (m - 1) ?ls)" "0 \<le> sum_list (drop m ?ls)"
    using month_lengths_facts(2) [of y] by (auto intro!: sum_list_nonneg dest: in_set_takeD in_set_dropD)
  ultimately show "0 \<le> month_start y m" "month_start y m + d \<le> (if leap y then 366 else 365)"
    using assms month_lengths_facts(3) [of y] by (auto simp: civil_def month_start_def)
qed

lemma Date_fields:
  assumes "civil y m d"
  shows "Year (Date y m d) = y" "Month (Date y m d) = m" "MDay (Date y m d) = d"
proof -
  let ?n = "year_start y + month_start y m + d - 1"
  have n: "day_number (Date y m d) = ?n" by (simp add: day_number_def Date_def)
  have y: "Year (Date y m d) = y"
    unfolding Year_def n using civil_in_year [OF assms] assms year_start_step [of y]
    by (intro year_of_day_unique) (auto simp: civil_def)
  have "month_of 1 (month_lengths y) (sum_list (take (m - 1) (month_lengths y)) + (d - 1)) = (1 + (m - 1), d - 1)"
    using assms month_lengths_facts(1,2) [of y] by (intro month_of_at) (auto simp: civil_def)
  then have "month_of 1 (month_lengths y) (?n - year_start y) = (m, d - 1)"
    using assms by (simp add: month_start_def civil_def algebra_simps)
  then show "Year (Date y m d) = y" "Month (Date y m d) = m" "MDay (Date y m d) = d"
    by (simp_all add: y Month_def MDay_def n)
qed

lemma midnight_civil:
  assumes "t mod day_ns = 0"
  shows "civil (Year t) (Month t) (MDay t)" "Date (Year t) (Month t) (MDay t) = t"
proof -
  define y n where "y = Year t" and "n = day_number t - year_start y"
  have "0 \<le> n" "n < sum_list (month_lengths y)"
    using year_of_day_bounds [of "day_number t"] year_start_step [of y] by (auto simp: y_def n_def Year_def month_lengths_facts)
  then obtain j r where jr: "j < length (month_lengths y)" "n = sum_list (take j (month_lengths y)) + r" "0 \<le> r" "r < month_lengths y ! j"
    using month_of_ex by blast
  have "month_of 1 (month_lengths y) n = (1 + j, r)"
    unfolding jr(2) using jr month_lengths_facts(2) [of y] by (intro month_of_at) auto
  then have f: "Month t = Suc j" "MDay t = r + 1" by (simp_all add: Month_def MDay_def y_def n_def)
  show "civil (Year t) (Month t) (MDay t)" using jr f by (simp add: civil_def month_lengths_facts flip: y_def)
  have "day_number t * day_ns = t" using assms by (simp add: day_number_def mod_0_imp_dvd)
  then show "Date (Year t) (Month t) (MDay t) = t"
    using jr(2) n_def by (simp add: Date_def f month_start_def flip: y_def) (simp add: algebra_simps)
qed

lemma real_date_iff:
  assumes "1 \<le> m" "m \<le> 12"
  shows "real_date y m d \<longleftrightarrow> civil y m d"
proof
  assume r: "real_date y m d"
  let ?t = "Date y m d" and ?z = "Year (Date y m d)"
  have mid: "?t mod day_ns = 0" by (simp add: Date_def)
  have c: "civil ?z m d" "Date ?z m d = ?t" using midnight_civil [OF mid] r by (simp_all add: real_date_def)
  then have e: "year_start ?z + month_start ?z m = year_start y + month_start y m" by (simp add: Date_def)
  have b: "0 \<le> month_start w m \<and> month_start w m < 365" for w
    using assms by (cases m rule: nat.exhaust, simp) (auto simp: month_start_def month_lengths_def numeral_eq_Suc le_Suc_eq less_Suc_eq)
  have "?z = y" using e b [of y] b [of ?z] year_start_mono [of "y + 1" ?z] year_start_mono [of "?z + 1" y] year_start_step [of y] year_start_step [of ?z]
    by (cases ?z y rule: linorder_cases) (auto split: if_splits)
  then show "civil y m d" using c(1) by simp
qed (simp add: real_date_def Date_fields)

section \<open>Resolving a date\<close>

lemma day_text:
  "\<forall>d \<in> set [1..31]. let s = pad2 (nat d) in length s = 2 \<and> all_digits s \<and> Atoi s = Some d"
  by code_simp

lemma month_text:
  "\<forall>m \<in> set [1..<13]. let s = monthNames ! (m - 1) in length s = 3 \<and> list_all is_upper s \<and> map_of months s = Some m"
  by code_simp

definition in_window :: "time \<Rightarrow> time \<Rightarrow> bool" where
  "in_window ref d \<longleftrightarrow> ref - pastWindow \<le> d \<and> d \<le> ref + futureWindow"

lemma civil_bounds: "civil y m d \<Longrightarrow> d \<in> set [1..31] \<and> m \<in> set [1..<13]"
proof -
  assume c: "civil y m d"
  then have "month_lengths y ! (m - 1) \<in> set (month_lengths y)" by (intro nth_mem) (auto simp: civil_def month_lengths_facts(1))
  then have "month_lengths y ! (m - 1) \<le> 31" using month_lengths_facts(2) [of y] by blast
  then show ?thesis using c by (auto simp: civil_def)
qed

lemma digits_upalnum: "all_digits s \<Longrightarrow> list_all is_upalnum s"
  by (simp add: all_digits_def list_all_iff is_upalnum_def)

text \<open>What \<open>ResolveDate\<close> reads in the text of a date: the search over three years.\<close>

lemma ResolveDate_text:
  assumes "civil y m d"
  shows "ResolveDate (pad2 (nat d) @ monthNames ! (m - 1)) ref =
    (let best = resolve_years ref m d [Year ref - 1, Year ref, Year ref + 1] zero_time in if best = zero_time then Inl OutsideWindow else Inr best)"
proof -
  let ?a = "pad2 (nat d)" and ?b = "monthNames ! (m - 1)"
  have a: "length ?a = 2" "all_digits ?a" "Atoi ?a = Some d" and b: "length ?b = 3" "list_all is_upper ?b" "map_of months ?b = Some m"
    using day_text month_text civil_bounds [OF assms] by (simp_all add: Let_def)
  have up: "list_all is_upalnum (?a @ ?b)" using digits_upalnum [OF a(2)] b(2) by (auto simp: list_all_iff is_upalnum_def)
  then have "TrimSpace (?a @ ?b) = ?a @ ?b" by (intro TrimSpace_nospace) (auto simp: list_all_iff)
  then have "ToUpper (TrimSpace (?a @ ?b)) = ?a @ ?b" using up by simp
  then show ?thesis using a b civil_bounds [OF assms] by (simp add: ResolveDate_def Let_def)
qed

text \<open>Two different years put a day of the year at least 365 days apart, more than the window is wide.\<close>

lemma month_start_le: "1 \<le> m \<Longrightarrow> m \<le> 12 \<Longrightarrow> 0 \<le> month_start y m \<and> month_start y m < 365 \<and> month_start z m \<le> month_start y m + (if leap z \<and> \<not> leap y then 1 else 0)"
  by (cases m rule: nat.exhaust, simp) (auto simp: month_start_def month_lengths_def numeral_eq_Suc le_Suc_eq less_Suc_eq)

lemma Date_apart:
  assumes "civil y m d" "civil z m d" "y < z"
  shows "Date y m d + 365 * day_ns \<le> Date z m d"
proof -
  have m: "1 \<le> m" "m \<le> 12" using assms by (simp_all add: civil_def)
  have "year_start y + (if leap y then 366 else 365) + 365 * (z - (y + 1)) \<le> year_start z"
    using year_start_mono [of "y + 1" z] assms(3) year_start_step [of y] by simp
  then have "year_start y + month_start y m + 365 \<le> year_start z + month_start z m"
    using month_start_le [OF m, of z y] assms(3) by (auto split: if_splits)
  then have "(year_start y + month_start y m + d - 1 + 365) * day_ns \<le> (year_start z + month_start z m + d - 1) * day_ns"
    by (intro mult_right_mono) (simp_all add: day_ns_def)
  then show ?thesis by (simp add: Date_def algebra_simps)
qed

lemma window_unique:
  assumes "civil y m d" "civil z m d" "in_window ref (Date y m d)" "in_window ref (Date z m d)"
  shows "y = z"
proof (rule ccontr)
  assume "y \<noteq> z"
  then have "Date y m d + 365 * day_ns \<le> Date z m d \<or> Date z m d + 365 * day_ns \<le> Date y m d"
    using Date_apart assms by (meson linorder_neqE)
  then show False using assms(3,4) by (auto simp: in_window_def pastWindow_def futureWindow_def day_ns_def)
qed

lemma resolve_years_spec:
  assumes "1 \<le> m" "m \<le> 12" "\<forall>y \<in> set ys. civil y m d \<and> in_window ref (Date y m d) \<longrightarrow> Date y m d = D" "D \<noteq> zero_time" "best = zero_time \<or> best = D"
  shows "resolve_years ref m d ys best = (if \<exists>y \<in> set ys. civil y m d \<and> in_window ref (Date y m d) then D else best)"
  using assms(3,5)
proof (induction ys arbitrary: best)
  case (Cons y ys)
  then show ?case using assms(1,2,4) by (auto simp: Let_def real_date_iff in_window_def not_less)
qed simp

lemma year_in_range:
  assumes "t mod day_ns = 0" "in_window ref t"
  shows "Year t \<in> set [Year ref - 1, Year ref, Year ref + 1]"
proof -
  let ?n = "day_number t" and ?r = "day_number ref"
  have "?r - 15 \<le> ?n" "?n \<le> ?r + 350"
  proof -
    have "ref - 14 * day_ns \<le> ?n * day_ns" "?n * day_ns \<le> ref + 350 * day_ns"
      using assms by (auto simp: in_window_def pastWindow_def futureWindow_def day_number_def)
    moreover have "?r * day_ns \<le> ref" "ref < ?r * day_ns + day_ns"
      using pos_mod_bound [of day_ns ref] pos_mod_sign [of day_ns ref] div_mult_mod_eq [of ref day_ns]
        day_ns_pos(1) unfolding day_number_def by linarith+
    ultimately have "?r * day_ns - 14 * day_ns \<le> ?n * day_ns" "?n * day_ns < (?r + 351) * day_ns" by (simp_all add: algebra_simps)
    then have "(?r - 14) * day_ns \<le> ?n * day_ns" "?n * day_ns < (?r + 351) * day_ns" by (simp_all add: algebra_simps)
    then show "?r - 15 \<le> ?n" "?n \<le> ?r + 350" by (simp_all only: mult_le_cancel_right mult_less_cancel_right day_ns_pos(1)) auto
  qed
  then have "Year t \<le> Year ref + 1" "Year ref - 1 \<le> Year t"
    using year_of_day_bounds [of ?n] year_of_day_bounds [of ?r]
      year_start_mono [of "Year ref + 2" "Year t"] year_start_mono [of "Year t + 2" "Year ref"]
      year_start_step [of "Year ref + 1"] year_start_step [of "Year t + 1"]
    by (auto simp: Year_def add.assoc split: if_splits intro: leI)
  then show ?thesis by auto
qed

text \<open>C35: the year that a message leaves out is supplied correctly. Writing a date as day and month and
  resolving that text at any reference time gives the date back exactly when it lies in the booking
  window, from a fortnight before the reference to 350 days after it; outside the window the text
  resolves, if at all, to the one date inside it that is written the same way. Every date in the
  window can therefore travel without a year, across the turn of the year and the leap day.\<close>

theorem resolve_date_window:
  assumes "d mod day_ns = 0" "zero_time < ref - pastWindow"
  shows "(ResolveDate (FormatDate d) ref = Inr d \<longleftrightarrow> in_window ref d)
     \<and> (\<forall>t. ResolveDate (FormatDate d) ref = Inr t \<longrightarrow> in_window ref t \<and> FormatDate t = FormatDate d)"
proof -
  define m n where "m = Month d" and "n = MDay d"
  have c: "civil (Year d) m n" "Date (Year d) m n = d" using midnight_civil [OF assms(1)] by (simp_all add: m_def n_def)
  then have m: "1 \<le> m" "m \<le> 12" by (simp_all add: civil_def)
  let ?ys = "[Year ref - 1, Year ref, Year ref + 1]" and ?ok = "\<lambda>y. civil y m n \<and> in_window ref (Date y m n)"
  have wire: "FormatDate d = pad2 (nat n) @ monthNames ! (m - 1)" by (simp add: FormatDate_def m_def n_def)
  have zero: "in_window ref t \<Longrightarrow> t \<noteq> zero_time" for t using assms(2) by (auto simp: in_window_def)
  show ?thesis
  proof (cases "\<exists>y \<in> set ?ys. ?ok y")
    case True
    then obtain y where y: "y \<in> set ?ys" "?ok y" by blast
    have "\<forall>z \<in> set ?ys. ?ok z \<longrightarrow> Date z m n = Date y m n" using window_unique y(2) by blast
    then have "resolve_years ref m n ?ys zero_time = Date y m n"
      using y zero by (subst resolve_years_spec [OF m, where D = "Date y m n"]) auto
    then have r: "ResolveDate (FormatDate d) ref = Inr (Date y m n)" using zero y unfolding wire ResolveDate_text [OF c(1)] Let_def by (simp del: resolve_years.simps)
    have "Date y m n = d \<longleftrightarrow> in_window ref d" using y window_unique [of y m n "Year d" ref] c by auto
    then show ?thesis using r y Date_fields [of y m n] by (auto simp: FormatDate_def m_def n_def)
  next
    case False
    then have "resolve_years ref m n ?ys zero_time = zero_time"
      by (subst resolve_years_spec [OF m, where D = "zero_time + 1"]) auto
    then have "ResolveDate (FormatDate d) ref = Inl OutsideWindow" unfolding wire ResolveDate_text [OF c(1)] Let_def by (simp del: resolve_years.simps)
    moreover have "\<not> in_window ref d" using False year_in_range [OF assms(1), of ref] c by auto
    ultimately show ?thesis by simp
  qed
qed

lemma demo_dates:
  "civil 2026 1 1" "civil 2028 2 29" "civil 2025 12 20" "civil 2027 12 31"
  by (simp_all add: civil_def month_lengths_def leap_def)

lemma demo_starts:
  "year_start 2025 = 20089" "year_start 2026 = 20454" "year_start 2027 = 20819" "year_start 2028 = 21184"
  "month_start 2026 1 = 0" "month_start 2025 12 = 334" "month_start 2027 12 = 334" "month_start 2028 2 = 31" "month_start 2026 (Suc 0) = 0"
  by (simp_all add: year_start_def month_start_def month_lengths_def leap_def)

theorem resolve_date_window_witness:
  "ResolveDate ''01JAN'' (Date 2025 12 20) = Inr (Date 2026 1 1) \<and> ResolveDate ''29FEB'' (Date 2027 12 31) = Inr (Date 2028 2 29)"
proof -
  have lit: "pad2 1 = ''01''" "pad2 29 = ''29''" "monthNames ! 0 = ''JAN''" "monthNames ! Suc 0 = ''FEB''" by code_simp+
  have fmt: "FormatDate (Date 2026 1 1) = ''01JAN''" "FormatDate (Date 2028 2 29) = ''29FEB''"
    using Date_fields [OF demo_dates(1)] Date_fields [OF demo_dates(2)] lit by (simp_all add: FormatDate_def)
  have mid: "Date y m d mod day_ns = 0" for y m d by (simp add: Date_def)
  have win: "in_window (Date 2025 12 20) (Date 2026 1 1)" "in_window (Date 2027 12 31) (Date 2028 2 29)"
    and pos: "zero_time < Date 2025 12 20 - pastWindow" "zero_time < Date 2027 12 31 - pastWindow"
    by (simp_all add: in_window_def pastWindow_def futureWindow_def Date_def day_ns_def demo_starts zero_time_def)
  have "ResolveDate (FormatDate (Date 2026 1 1)) (Date 2025 12 20) = Inr (Date 2026 1 1)"
    using conjunct1 [OF resolve_date_window [OF mid pos(1)]] win(1) by blast
  moreover have "ResolveDate (FormatDate (Date 2028 2 29)) (Date 2027 12 31) = Inr (Date 2028 2 29)"
    using conjunct1 [OF resolve_date_window [OF mid pos(2)]] win(2) by blast
  ultimately show ?thesis unfolding fmt by blast
qed

end
