(* ===== verification/Airimp.thy ===== *)
theory Airimp
  imports Store Typeb Pnr_Date "HOL-Library.Monad_Syntax"
begin

text \<open>
  The AIRIMP reservation text (\<open>src/pkg/airimp/element.go\<close>, \<open>parse.go\<close>): the elements of a message,
  how each is written, and the recognizers that read a line. A regular expression of the code is a
  backtracking matcher: the list of its matches in the order Go's engine prefers them, of which the
  first counts. Diagnostics are left out; lines that no recognizer claims become \<open>Unknown\<close> elements,
  which is the part of the outcome the code acts on.
\<close>

section \<open>Matchers\<close>

text \<open>A class repeated between \<open>lo\<close> and \<open>hi\<close> times, longest first: \<open>[..]{lo,hi}\<close>.\<close>

definition re_class :: "(char \<Rightarrow> bool) \<Rightarrow> nat \<Rightarrow> nat \<Rightarrow> string \<Rightarrow> (string \<times> string) list" where
  "re_class p lo hi s = (let n = min hi (length (takeWhile p s)) in map (\<lambda>k. (take k s, drop k s)) (rev [lo..<Suc n]))"

text \<open>An optional character, taken first: \<open>c?\<close>.\<close>

definition re_opt :: "char \<Rightarrow> string \<Rightarrow> string list" where
  "re_opt c s = (case s of x # t \<Rightarrow> if x = c then [t, s] else [s] | [] \<Rightarrow> [s])"

definition re_lit :: "string \<Rightarrow> string \<Rightarrow> string list" where
  "re_lit p s = (if HasPrefix s p then [drop (length p) s] else [])"

text \<open>One or more spaces, and the rest of the line: \<open> +\<close> and \<open>(.*)$\<close>.\<close>

definition re_spaces :: "nat \<Rightarrow> string \<Rightarrow> string list" where
  "re_spaces lo s = map snd (re_class (\<lambda>c. c = CHR '' '') lo (length s) s)"

definition re_rest :: "string \<Rightarrow> string list" where
  "re_rest s = (if LF \<in> set s then [] else [s])"

definition re_first :: "'a list \<Rightarrow> 'a option" where
  "re_first ms = (case ms of [] \<Rightarrow> None | m # _ \<Rightarrow> Some m)"

section \<open>Elements\<close>

record ai_segment =
  as_Carrier :: string
  as_FlightNum :: string
  as_Class :: string
  as_Date :: string
  as_Board :: string
  as_Off :: string
  as_Action :: string
  as_Seats :: int
  as_Trailer :: string

record ai_name =
  an_Count :: int
  an_Surname :: string
  Givens :: "string list"
  an_Infant :: bool

record ai_ssr =
  ss_Code :: string
  ss_Carrier :: string
  ss_Action :: string
  ss_Count :: int
  Itinerary :: string
  FreeText :: string
  NameRef :: string

datatype element = ESegment ai_segment | EName ai_name | ESSR ai_ssr | EOSI string string | ELocator string string
  | ETicketing string | EContact string | EReceivedFrom string | ERemark string | EUnknown string nat

definition as_Key :: "ai_segment \<Rightarrow> string" where
  "as_Key s = Join [as_Carrier s, as_FlightNum s, as_Class s, as_Date s, as_Board s, as_Off s] ''|''"

definition seg_Wire :: "ai_segment \<Rightarrow> string" where
  "seg_Wire s = as_Carrier s @ as_FlightNum s @ as_Class s @ as_Date s @ as_Board s @ as_Off s @ as_Action s
     @ itoa_int (as_Seats s) @ as_Trailer s"

definition name_Wire :: "ai_name \<Rightarrow> string" where
  "name_Wire n = itoa_int (an_Count n) @ an_Surname n @ ''/'' @ Join (Givens n) ''/''"

definition ssr_Wire :: "ai_ssr \<Rightarrow> string" where
  "ssr_Wire s = ''SSR '' @ ss_Code s @ '' '' @ ss_Carrier s @ '' '' @ ss_Action s @ itoa_int (ss_Count s)
     @ (if Itinerary s \<noteq> '''' then '' '' @ Itinerary s else '''')
     @ (if FreeText s \<noteq> '''' then '' '' @ FreeText s else '''')
     @ (if NameRef s \<noteq> '''' then ''/'' @ NameRef s else '''')"

fun Wire :: "element \<Rightarrow> string" where
  "Wire (ESegment s) = seg_Wire s"
| "Wire (EName n) = name_Wire n"
| "Wire (ESSR s) = ssr_Wire s"
| "Wire (EOSI c t) = ''OSI '' @ c @ '' '' @ t"
| "Wire (ELocator c v) = ''RL '' @ c @ ''/'' @ v"
| "Wire (ETicketing t) = ''TK '' @ t"
| "Wire (EContact t) = ''AP '' @ t"
| "Wire (EReceivedFrom t) = ''RF '' @ t"
| "Wire (ERemark t) = ''RM '' @ t"
| "Wire (EUnknown l n) = l"

definition ssr_Sensitive :: "ai_ssr \<Rightarrow> bool" where
  "ssr_Sensitive s \<longleftrightarrow> ToUpper (ss_Code s) \<in> set [''DOCS'', ''DOCA'', ''DOCO'', ''FOID'']"

definition atoiOr :: "string \<Rightarrow> int \<Rightarrow> int" where
  "atoiOr s d = (if s = '''' then d else case Atoi s of Some n \<Rightarrow> n | None \<Rightarrow> d)"

definition Contains :: "string \<Rightarrow> string \<Rightarrow> bool" where
  "Contains s sub \<longleftrightarrow> list_ex (\<lambda>k. HasPrefix (drop k s) sub) [0..<Suc (length s)]"

text \<open>\<open>strings.LastIndex\<close>; \<open>None\<close> is -1.\<close>

definition LastIndex :: "string \<Rightarrow> string \<Rightarrow> nat option" where
  "LastIndex s sub = find (\<lambda>k. HasPrefix (drop k s) sub) (rev [0..<Suc (length s)])"

section \<open>Recognizers\<close>

definition segmentRe :: "string \<Rightarrow> ai_segment list" where
  "segmentRe s = do {
     s0 \<leftarrow> re_opt CHR ''-'' s;
     (car, s1) \<leftarrow> re_class is_upalnum 2 2 s0;
     s2 \<leftarrow> re_opt CHR '' '' s1;
     (num, s3) \<leftarrow> re_class is_digit 1 4 s2;
     (suf, s4) \<leftarrow> re_class is_upper 0 1 s3;
     s5 \<leftarrow> re_opt CHR '' '' s4;
     (cls, s6) \<leftarrow> re_class is_upper 1 1 s5;
     s7 \<leftarrow> re_opt CHR '' '' s6;
     (dd, s8) \<leftarrow> re_class is_digit 2 2 s7;
     (mmm, s9) \<leftarrow> re_class is_upper 3 3 s8;
     s10 \<leftarrow> re_opt CHR '' '' s9;
     (brd, s11) \<leftarrow> re_class is_upper 3 3 s10;
     s12 \<leftarrow> re_opt CHR '' '' s11;
     (off, s13) \<leftarrow> re_class is_upper 3 3 s12;
     s14 \<leftarrow> re_opt CHR '' '' s13;
     (act, s15) \<leftarrow> re_class is_upper 2 2 s14;
     s16 \<leftarrow> re_opt CHR '' '' s15;
     (seats, s17) \<leftarrow> re_class is_digit 1 2 s16;
     trailer \<leftarrow> re_rest s17;
     [\<lparr>as_Carrier = car, as_FlightNum = num @ suf, as_Class = cls, as_Date = dd @ mmm, as_Board = brd, as_Off = off,
       as_Action = act, as_Seats = atoiOr seats 1, as_Trailer = trailer\<rparr>]}"

definition matchSegment :: "string \<Rightarrow> element option" where
  "matchSegment line = map_option ESegment (re_first (segmentRe line))"

definition name_char :: "char \<Rightarrow> bool" where
  "name_char c \<longleftrightarrow> is_upalnum c \<or> c \<in> set [CHR '' '', CHR 0x27, CHR ''.'', CHR ''-'']"

text \<open>The submatches of \<open>nameRe\<close>: count, surname, the rest.\<close>

definition nameRe :: "string \<Rightarrow> (string \<times> string \<times> string) list" where
  "nameRe s = do {
     s0 \<leftarrow> re_opt CHR ''-'' s;
     (n, s1) \<leftarrow> re_class is_digit 1 2 s0;
     (c, s2) \<leftarrow> re_class is_upper 1 1 s1;
     (cs, s3) \<leftarrow> re_class name_char 0 (length s2) s2;
     s4 \<leftarrow> re_lit ''/'' s3;
     givens \<leftarrow> re_rest s4;
     if givens = '''' then [] else [(n, c @ cs, givens)]}"

definition matchName :: "string \<Rightarrow> element option" where
  "matchName line =
     map_option (\<lambda>(n, sur, rest). let givens = split_on CHR ''/'' rest in
         EName \<lparr>an_Count = atoiOr n 1, an_Surname = TrimSpace sur, Givens = givens,
                an_Infant = list_ex (\<lambda>g. Contains g ''INF'') givens\<rparr>)
       (re_first (nameRe line))"

text \<open>The submatches of \<open>ssrRe\<close>: code, carrier, action, count, the optional tail (empty when absent).\<close>

definition ssrRe :: "string \<Rightarrow> (string \<times> string \<times> string \<times> string \<times> string) list" where
  "ssrRe s = do {
     s0 \<leftarrow> re_lit ''SSR'' s;
     s1 \<leftarrow> re_spaces 1 s0;
     (code, s2) \<leftarrow> re_class is_upper 4 4 s1;
     s3 \<leftarrow> re_spaces 1 s2;
     (car, s4) \<leftarrow> re_class is_upalnum 2 2 s3;
     s5 \<leftarrow> re_spaces 1 s4;
     (act, s6) \<leftarrow> re_class is_upper 2 2 s5;
     (cnt, s7) \<leftarrow> re_class is_digit 0 2 s6;
     tail \<leftarrow> List.bind (re_spaces 1 s7) re_rest @ (if s7 = '''' then [''''] else []);
     [(code, car, act, cnt, tail)]}"

definition ssrItinRe :: "string \<Rightarrow> bool" where
  "ssrItinRe s \<longleftrightarrow> (do {
     (a, s1) \<leftarrow> re_class is_upper 6 6 s;
     (n, s2) \<leftarrow> re_class is_digit 1 4 s1;
     (x, s3) \<leftarrow> re_class is_upper 0 1 s2;
     (c, s4) \<leftarrow> re_class is_upper 1 1 s3;
     (d, s5) \<leftarrow> re_class is_digit 2 2 s4;
     (m, s6) \<leftarrow> re_class is_upper 3 3 s5;
     if s6 = '''' then [()] else []}) \<noteq> []"

definition TrimPrefix :: "string \<Rightarrow> string \<Rightarrow> string" where
  "TrimPrefix s p = (if HasPrefix s p then drop (length p) s else s)"

definition matchSSR :: "string \<Rightarrow> element option" where
  "matchSSR line =
     map_option (\<lambda>(code, car, act, cnt, tail).
         let rest0 = TrimSpace tail;
             (ref, rest1) = (case LastIndex rest0 ''/-'' of
                               Some i \<Rightarrow> (TrimPrefix (drop (i + 1) rest0) ''-'', TrimSpace (take i rest0))
                             | None \<Rightarrow> ('''', rest0));
             (itin, rest2) = (case Fields rest1 of
                                f # _ \<Rightarrow> if ssrItinRe f then (f, TrimSpace (TrimPrefix rest1 f)) else ('''', rest1)
                              | [] \<Rightarrow> ('''', rest1))
         in ESSR \<lparr>ss_Code = code, ss_Carrier = car, ss_Action = act, ss_Count = atoiOr cnt 1, Itinerary = itin,
                  FreeText = rest2, NameRef = ref\<rparr>)
       (re_first (ssrRe line))"

definition matchOSI :: "string \<Rightarrow> element option" where
  "matchOSI line =
     map_option (\<lambda>(c, t). EOSI c (TrimSpace t))
       (re_first (do {
          s0 \<leftarrow> re_lit ''OSI'' line;
          s1 \<leftarrow> re_spaces 1 s0;
          (c, s2) \<leftarrow> re_class is_upalnum 2 2 s1;
          s3 \<leftarrow> re_spaces 1 s2;
          t \<leftarrow> re_rest s3;
          if t = '''' then [] else [(c, t)]}))"

definition matchLocator :: "string \<Rightarrow> element option" where
  "matchLocator line =
     map_option (\<lambda>(c, v). ELocator c v)
       (re_first (do {
          s0 \<leftarrow> re_lit ''RL'' line @ re_lit ''.L'' line;
          s1 \<leftarrow> re_spaces 0 s0;
          (c, s2) \<leftarrow> re_class is_upalnum 2 2 s1 @ [('''', s1)];
          s3 \<leftarrow> re_opt CHR ''/'' s2;
          (v, s4) \<leftarrow> re_class is_upalnum 5 8 s3;
          if s4 = '''' then [(c, v)] else []}))"

definition matchPrefixed :: "string \<Rightarrow> element option" where
  "matchPrefixed line =
     map_option (\<lambda>(k, t). let txt = TrimSpace t in
         if k = ''TK'' then ETicketing txt else if k = ''AP'' then EContact txt
         else if k = ''RF'' then EReceivedFrom txt else ERemark txt)
       (re_first (do {
          k \<leftarrow> [''TK'', ''AP'', ''RF'', ''RM''];
          s0 \<leftarrow> re_lit k line;
          s1 \<leftarrow> re_spaces 1 s0;
          t \<leftarrow> re_rest s1;
          if t = '''' then [] else [(k, t)]}))"

section \<open>Messages\<close>

record profile =
  Recognizers :: "(string \<Rightarrow> element option) list"
  Identifiers :: "string list"

definition ai_Default :: profile where
  "ai_Default = \<lparr>Recognizers = [matchSSR, matchOSI, matchLocator, matchPrefixed, matchSegment, matchName],
     Identifiers = [''SS'', ''SR'', ''CX'', ''RC'', ''AV'', ''KK'', ''UC'', ''US'', ''UU'', ''NO'', ''SC'', ''DIV'', ''NAM'', ''CHG'', ''CNL'']\<rparr>"

record ai_message =
  Identifier :: string
  Elements :: "element list"

fun recognise :: "(string \<Rightarrow> element option) list \<Rightarrow> string \<Rightarrow> element option" where
  "recognise [] line = None"
| "recognise (r # rs) line = (case r line of Some el \<Rightarrow> Some el | None \<Rightarrow> recognise rs line)"

fun parse_elements :: "(string \<Rightarrow> element option) list \<Rightarrow> nat \<Rightarrow> string list \<Rightarrow> element list" where
  "parse_elements rs n [] = []"
| "parse_elements rs n (raw # ls) =
     (let line = TrimSpace raw; rest = parse_elements rs (Suc n) ls in
      if line = '''' \<or> line = ''E'' \<or> line = ''.E'' then rest
      else (case recognise rs line of Some el \<Rightarrow> el | None \<Rightarrow> EUnknown raw n) # rest)"

definition ai_Parse :: "profile \<Rightarrow> string \<Rightarrow> ai_message" where
  "ai_Parse p txt =
     (let lines0 = split_on LF (ReplaceCRLF txt);
          start = length (takeWhile (\<lambda>l. TrimSpace l = '''') lines0);
          rest = drop start lines0
      in case rest of
           l # ls \<Rightarrow>
             if ToUpper (TrimSpace l) \<in> set (Identifiers p)
             then \<lparr>Identifier = ToUpper (TrimSpace l), Elements = parse_elements (Recognizers p) (start + 2) ls\<rparr>
             else \<lparr>Identifier = '''', Elements = parse_elements (Recognizers p) (start + 1) rest\<rparr>
         | [] \<Rightarrow> \<lparr>Identifier = '''', Elements = []\<rparr>)"

definition ai_Build :: "string \<Rightarrow> element list \<Rightarrow> string" where
  "ai_Build ident els = (if ident \<noteq> '''' then ident @ [LF] else '''') @ Join (map Wire els) [LF]"

definition ai_Segments :: "ai_message \<Rightarrow> ai_segment list" where
  "ai_Segments m = List.map_filter (\<lambda>e. case e of ESegment s \<Rightarrow> Some s | _ \<Rightarrow> None) (Elements m)"

definition ai_Names :: "ai_message \<Rightarrow> ai_name list" where
  "ai_Names m = List.map_filter (\<lambda>e. case e of EName n \<Rightarrow> Some n | _ \<Rightarrow> None) (Elements m)"

definition ai_SSRs :: "ai_message \<Rightarrow> ai_ssr list" where
  "ai_SSRs m = List.map_filter (\<lambda>e. case e of ESSR s \<Rightarrow> Some s | _ \<Rightarrow> None) (Elements m)"

definition ai_Locators :: "ai_message \<Rightarrow> (string \<times> string) list" where
  "ai_Locators m = List.map_filter (\<lambda>e. case e of ELocator c v \<Rightarrow> Some (c, v) | _ \<Rightarrow> None) (Elements m)"

datatype intent = IntentSell | IntentReply | IntentCancel | IntentAdvise | IntentInfoOnly | IntentUnknown

definition Intent :: "ai_message \<Rightarrow> intent" where
  "Intent m =
     (let has = (\<lambda>c. list_ex (\<lambda>s. Category (as_Action s) = c) (ai_Segments m)) in
      if has CatRequest then IntentSell
      else if has CatReply then IntentReply
      else if has CatCancel then IntentCancel
      else if has CatAdvice then IntentAdvise
      else if ai_SSRs m \<noteq> [] \<or> ai_Segments m \<noteq> [] then IntentInfoOnly
      else IntentUnknown)"

end
