(* ===== verification/Airimp_Apply.thy ===== *)
theory Airimp_Apply
  imports Airimp
begin

text \<open>
  Folding an AIRIMP message into a record and building messages from one (\<open>src/pkg/airimp/mapping.go\<close>).
  \<open>Apply\<close> is total: what it cannot place it keeps on the record as an unparsed fragment. A pointer
  into the record's segments is an index. The result of applying is the list of changes, which is what
  the gateway records as events.
\<close>

section \<open>Applying\<close>

record change =
  ch_Op :: string
  ch_Detail :: string

record apply_options =
  ReceivedAt :: time
  ao_Party :: string
  ao_Inbound :: bool
  ao_Self :: string

definition Describe :: "segment \<Rightarrow> string" where
  "Describe s =
     (if sg_Type s = SegmentSurface then ''ARNK''
      else Carrier s @ FlightNum s @ '' '' @ Class s @ '' '' @ WireDate s @ '' '' @ Board s @ ''-'' @ Off s @ '' '' @ sg_Status s @ itoa_int (Seats s))"

definition chg :: "string \<Rightarrow> string \<Rightarrow> change" where
  "chg op det = \<lparr>ch_Op = op, ch_Detail = det\<rparr>"

definition findPassenger :: "pnr \<Rightarrow> string \<Rightarrow> string \<Rightarrow> nat option" where
  "findPassenger p sur given = find_index (\<lambda>x. Surname x = sur \<and> Given x = given) (Passengers p)"

definition unparsed :: "string \<Rightarrow> string \<Rightarrow> pnr \<Rightarrow> pnr" where
  "unparsed detail raw p = p\<lparr>Unparsed := Unparsed p @ [(''airimp'', detail, raw)]\<rparr>"

fun apply_givens :: "ai_name \<Rightarrow> string list \<Rightarrow> pnr \<Rightarrow> change list \<times> pnr" where
  "apply_givens n [] p = ([], p)"
| "apply_givens n (g # gs) p =
     (let (given, title) = SplitTitle g in
      if findPassenger p (an_Surname n) given \<noteq> None then apply_givens n gs p
      else let (cs, p') = apply_givens n gs
                 (p\<lparr>Passengers := Passengers p @ [\<lparr>px_Ref = 0, Surname = an_Surname n, Given = given, Title = title, px_Type = '''',
                                                  Infant = an_Infant n, FrequentFlyer = []\<rparr>]\<rparr>)
           in (chg ''add_passenger'' (an_Surname n @ ''/'' @ g) # cs, p'))"

text \<open>\<open>p.Segments[i] = f(p.Segments[i])\<close>.\<close>

definition upd_seg :: "nat \<Rightarrow> (segment \<Rightarrow> segment) \<Rightarrow> pnr \<Rightarrow> pnr" where
  "upd_seg i f p = p\<lparr>Segments := (Segments p)[i := f (Segments p ! i)]\<rparr>"

definition new_segment :: "ai_segment \<Rightarrow> time \<Rightarrow> string \<Rightarrow> segment" where
  "new_segment el depart status =
     \<lparr>sg_Ref = 0, sg_Type = SegmentAir, Carrier = as_Carrier el, OperatingCarrier = '''', FlightNum = as_FlightNum el,
      Class = as_Class el, Depart = depart, DepartTime = '''', ArriveTime = '''', Board = as_Board el, Off = as_Off el,
      FareBasis = '''', sg_Status = status, Seats = as_Seats el, CarrierLocator = '''', WireDate = as_Date el\<rparr>"

definition applySegment :: "apply_options \<Rightarrow> ai_segment \<Rightarrow> pnr \<Rightarrow> change list \<times> pnr" where
  "applySegment opts el p0 =
     (let resolved = ResolveDate (as_Date el) (ReceivedAt opts);
          depart = (case resolved of Inr d \<Rightarrow> d | Inl _ \<Rightarrow> zero_time);
          p = (case resolved of Inr _ \<Rightarrow> p0 | Inl _ \<Rightarrow> unparsed ''unresolvable segment date'' (seg_Wire el) p0);
          key = as_Key el;
          existing = SegmentByKey p key;
          act = as_Action el
      in case Category act of
           CatReply \<Rightarrow>
             (case existing of
                None \<Rightarrow> ([chg ''orphan_reply'' (act @ '' for '' @ key)],
                         unparsed (''reply '' @ act @ '' for a segment not on this record'') (seg_Wire el) p)
              | Some i \<Rightarrow>
                  let holding = (case ReplyTo act of Some h \<Rightarrow> h | None \<Rightarrow> '''') in
                  if holding = '''' then
                    let p1 = upd_seg i (\<lambda>s. s\<lparr>sg_Status := act\<rparr>) p in
                    ([chg ''segment_refused'' (Describe (Segments p1 ! i) @ '' '' @ act)], p1)
                  else if Category (sg_Status (Segments p ! i)) = CatCancel then
                    ([chg ''late_confirmation_ignored'' (Describe (Segments p ! i) @ '' answered '' @ act @ '' after cancellation'')], p)
                  else
                    let p1 = upd_seg i (\<lambda>s. s\<lparr>sg_Status := holding, Seats := as_Seats el\<rparr>) p in
                    ([chg ''segment_confirmed'' (Describe (Segments p1 ! i) @ '' -> '' @ holding)], p1))
         | CatCancel \<Rightarrow>
             (case existing of
                None \<Rightarrow> ([chg ''cancel_unknown_segment'' key], p)
              | Some i \<Rightarrow>
                  let p1 = upd_seg i (\<lambda>s. s\<lparr>sg_Status := ''XX''\<rparr>) p in
                  ([chg ''segment_cancelled'' (Describe (Segments p1 ! i))], p1))
         | _ \<Rightarrow>
             let status = (if ao_Inbound opts \<and> NeedsReply act then ''HN'' else act) in
             (case existing of
                Some i \<Rightarrow>
                  let p1 = upd_seg i (\<lambda>s. s\<lparr>sg_Status := status, Seats := as_Seats el\<rparr>) p in
                  ([chg ''segment_updated'' (Describe (Segments p1 ! i))], p1)
              | None \<Rightarrow>
                  let p1 = Recompute (p\<lparr>Segments := Segments p @ [new_segment el depart status]\<rparr>) in
                  ([chg ''add_segment'' (Describe (last (Segments p1)))], p1)))"

definition itineraryKey :: "string \<Rightarrow> (string \<times> string \<times> string \<times> string \<times> string) option" where
  "itineraryKey itin =
     (if length itin < 12 then None
      else let rest = drop 6 itin; n = length rest in
           if n < 7 then None
           else Some (take (n - 6) rest, take 1 (drop (n - 6) rest), drop (n - 5) rest, take 3 itin, take 3 (drop 3 itin)))"

definition segmentByItinerary :: "pnr \<Rightarrow> string \<Rightarrow> nat option" where
  "segmentByItinerary p itin =
     (case itineraryKey itin of
        None \<Rightarrow> None
      | Some (flight, cls, date, board, off) \<Rightarrow>
          find_index (\<lambda>s. sg_Type s = SegmentAir \<and> TrimLeft0 (FlightNum s) = TrimLeft0 flight \<and> Class s = cls \<and> Board s = board \<and> Off s = off
                        \<and> (EqualFold (WireDate s) date \<or> EqualFold (FormatDate (Depart s)) date)) (Segments p))"

definition updateSSR :: "pnr \<Rightarrow> ssr \<Rightarrow> nat option" where
  "updateSSR p s = find_index (\<lambda>x. ssr_Code x = ssr_Code s \<and> ssr_Carrier x = ssr_Carrier s \<and> ssr_Text x = ssr_Text s) (SSRs p)"

definition contactType :: "string \<Rightarrow> string" where
  "contactType txt = (if CHR ''@'' \<in> set txt then ''email'' else if list_ex is_digit txt then ''phone'' else ''other'')"

definition soleName :: "element list \<Rightarrow> ai_name option" where
  "soleName els =
     (case List.map_filter (\<lambda>e. case e of EName n \<Rightarrow> Some n | _ \<Rightarrow> None) els of
        [n] \<Rightarrow> if length (Givens n) = 1 then Some n else None
      | _ \<Rightarrow> None)"

text \<open>\<open>strings.FieldsFunc\<close> on slashes and spaces, and the value of \<open>strconv.Atoi\<close> when its error is ignored.\<close>

definition slash_fields :: "string \<Rightarrow> string list" where
  "slash_fields s = filter (\<lambda>f. f \<noteq> '''') (split_on CHR '' '' (map (\<lambda>c. if c = CHR ''/'' then CHR '' '' else c) s))"

definition atoi_value :: "string \<Rightarrow> int" where
  "atoi_value s =
     (case Atoi s of
        Some n \<Rightarrow> n
      | None \<Rightarrow> let body = (if s \<noteq> [] \<and> (hd s = CHR ''-'' \<or> hd s = CHR ''+'') then tl s else s) in
                if body \<noteq> [] \<and> all_digits body then (if hd s = CHR ''-'' then - (2 ^ 63) else 2 ^ 63 - 1) else 0)"

fun tkne_number :: "string list \<Rightarrow> string \<Rightarrow> int \<Rightarrow> string \<times> int" where
  "tkne_number [] num coupon = (num, coupon)"
| "tkne_number (f # fs) num coupon =
     (if length f \<ge> 13 \<and> all_digits (take 13 f)
      then let rest = drop 13 f in
           tkne_number fs (take 13 f) (if length rest \<ge> 2 \<and> hd rest = CHR ''C'' then atoi_value (tl rest) else coupon)
      else tkne_number fs num coupon)"

definition zero_assoc :: association where
  "zero_assoc = \<lparr>as_Document = \<lparr>AirlineCode = '''', Serial = ''''\<rparr>, as_Coupon = 0, as_SegmentRef = 0\<rparr>"

definition plain_coupon :: "int \<Rightarrow> int \<Rightarrow> string \<Rightarrow> coupon" where
  "plain_coupon n segRef st =
     \<lparr>cp_Number = n, cp_SegmentRef = segRef, cp_Status = st, RFISC = '''', Assoc = zero_assoc, Amount = '''', Currency = ''''\<rparr>"

definition tkne_pax :: "pnr \<Rightarrow> ai_ssr \<Rightarrow> ai_name option \<Rightarrow> int" where
  "tkne_pax p el name =
     (let (sur, gt) = (case re_first (nameRe (NameRef el)) of
                         Some (_, s, g) \<Rightarrow> (s, g)
                       | None \<Rightarrow> (case name of Some n \<Rightarrow> if length (Givens n) = 1 then (an_Surname n, hd (Givens n)) else ('''', '''')
                                            | None \<Rightarrow> ('''', '''')));
          (given, title) = SplitTitle gt;
          found = (if sur = '''' then None
                   else find (\<lambda>x. EqualFold (Surname x) sur \<and> EqualFold (Given x) given \<and> (title = '''' \<or> EqualFold (Title x) title)) (Passengers p));
          ref = (case found of Some x \<Rightarrow> px_Ref x | None \<Rightarrow> 0)
      in if ref = 0 \<and> length (Passengers p) = 1 then px_Ref (hd (Passengers p)) else ref)"

fun add_coupon :: "ticket_number \<Rightarrow> coupon \<Rightarrow> ticket list \<Rightarrow> ticket list option" where
  "add_coupon tn c [] = None"
| "add_coupon tn c (t # ts) =
     (if Number t \<noteq> tn then map_option (Cons t) (add_coupon tn c ts)
      else if list_ex (\<lambda>x. cp_Number x = cp_Number c) (Coupons t) then Some (t # ts)
      else Some (t\<lparr>Coupons := Coupons t @ [c]\<rparr> # ts))"

definition applyTKNE :: "ai_ssr \<Rightarrow> int \<Rightarrow> ai_name option \<Rightarrow> pnr \<Rightarrow> (string \<times> int) option \<times> pnr" where
  "applyTKNE el segRef name p =
     (let (num, cpn0) = tkne_number (slash_fields (FreeText el)) '''' 0 in
      if num = '''' then (None, p)
      else let tn = \<lparr>AirlineCode = take 3 num, Serial = drop 3 num\<rparr>;
               cpn = (if cpn0 = 0 then 1 else cpn0);
               c = plain_coupon cpn segRef CouponOpen
           in (Some (num, cpn),
               case add_coupon tn c (Tickets p) of
                 Some ts \<Rightarrow> p\<lparr>Tickets := ts\<rparr>
               | None \<Rightarrow> p\<lparr>Tickets := Tickets p @
                   [\<lparr>Number = tn, DocType = DocTicket, RFIC = '''', tkt_PaxRef = tkne_pax p el name, IssuedAt = zero_time, IssuedBy = ss_Carrier el,
                     Coupons = [c], Conjunction = [], RefundedAt = None, ExchangedFrom = None\<rparr>]\<rparr>))"

definition applySSR :: "element list \<Rightarrow> ai_ssr \<Rightarrow> pnr \<Rightarrow> change list \<times> pnr" where
  "applySSR els el p =
     (let ref = (case segmentByItinerary p (Itinerary el) of Some i \<Rightarrow> sg_Ref (Segments p ! i) | None \<Rightarrow> 0);
          s = \<lparr>ssr_Code = ss_Code el, ssr_Carrier = ss_Carrier el, ssr_Status = ss_Action el, ssr_Count = ss_Count el,
               ssr_SegmentRef = ref, ssr_PaxRef = 0, ssr_Text = FreeText el, Sensitive = ssr_Sensitive el\<rparr>;
          (c1, p1) = (case updateSSR p s of
                        Some i \<Rightarrow> (chg ''update_ssr'' (ss_Code el @ '' '' @ ss_Action el),
                                   p\<lparr>SSRs := (SSRs p)[i := (SSRs p ! i)\<lparr>ssr_Status := ssr_Status s, ssr_Count := ssr_Count s\<rparr>]\<rparr>)
                      | None \<Rightarrow> (chg ''add_ssr'' (ss_Code el @ '' '' @ ss_Action el @ itoa_int (ss_Count el)), p\<lparr>SSRs := SSRs p @ [s]\<rparr>))
      in if ss_Code el = ''TKNE''
         then case applyTKNE el ref (soleName els) p1 of
                (Some (t, c), p2) \<Rightarrow> ([c1, chg ''ticket'' (t @ '' coupon '' @ itoa_int c)], p2)
              | (None, p2) \<Rightarrow> ([c1], p2)
         else ([c1], p1))"

definition applyLocator :: "apply_options \<Rightarrow> string \<Rightarrow> string \<Rightarrow> pnr \<Rightarrow> change list \<times> pnr" where
  "applyLocator opts car v p =
     (let owner = (if car = '''' then ao_Party opts else car) in
      if ao_Self opts \<noteq> '''' \<and> owner = ao_Self opts then ([], p)
      else if LocatorFor p owner = Some v then ([], p)
      else ([chg ''set_locator'' (owner @ ''='' @ v)], SetLocator owner v p))"

fun apply_element :: "apply_options \<Rightarrow> element list \<Rightarrow> element \<Rightarrow> pnr \<Rightarrow> change list \<times> pnr" where
  "apply_element opts els (EName n) p = apply_givens n (Givens n) p"
| "apply_element opts els (ESegment s) p = applySegment opts s p"
| "apply_element opts els (ESSR s) p = applySSR els s p"
| "apply_element opts els (EOSI c t) p = ([chg ''add_osi'' (c @ '' '' @ t)], p\<lparr>OSIs := OSIs p @ [(c, t)]\<rparr>)"
| "apply_element opts els (ELocator c v) p = applyLocator opts c v p"
| "apply_element opts els (ETicketing t) p = ([chg ''add_ticketing'' t], p\<lparr>Ticketing := Ticketing p @ [\<lparr>tk_Text = t, Deadline = None\<rparr>]\<rparr>)"
| "apply_element opts els (EContact t) p = ([chg ''add_contact'' t], p\<lparr>Contacts := Contacts p @ [\<lparr>ct_Type = contactType t, ct_Text = t\<rparr>]\<rparr>)"
| "apply_element opts els (EReceivedFrom t) p = ([chg ''received_from'' t], p\<lparr>ReceivedFrom := t\<rparr>)"
| "apply_element opts els (ERemark t) p = ([chg ''add_remark'' t], p\<lparr>Remarks := Remarks p @ [t]\<rparr>)"
| "apply_element opts els (EUnknown l n) p =
     ([chg ''unparsed'' (''line '' @ Itoa n @ '' retained verbatim'')], unparsed (''line '' @ Itoa n @ '', profile airimp-default'') l p)"

fun apply_elements :: "apply_options \<Rightarrow> element list \<Rightarrow> element list \<Rightarrow> pnr \<Rightarrow> change list \<times> pnr" where
  "apply_elements opts els [] p = ([], p)"
| "apply_elements opts els (e # es) p =
     (let (cs, p1) = apply_element opts els e p; (cs', p2) = apply_elements opts els es p1 in (cs @ cs', p2))"

definition Apply :: "apply_options \<Rightarrow> ai_message \<Rightarrow> pnr \<Rightarrow> change list \<times> pnr" where
  "Apply opts m p = (let (cs, p') = apply_elements opts (Elements m) (Elements m) p in (cs, Recompute p'))"

section \<open>Building\<close>

definition group_of :: "passenger list \<Rightarrow> string \<Rightarrow> string list" where
  "group_of ps sur = map (\<lambda>x. Given x @ Title x) (filter (\<lambda>x. Surname x = sur) ps)"

definition groupPassengers :: "pnr \<Rightarrow> element list" where
  "groupPassengers p =
     map (\<lambda>sur. let gs = group_of (Passengers p) sur in EName \<lparr>an_Count = int (length gs), an_Surname = sur, Givens = gs, an_Infant = False\<rparr>)
       (rev (remdups (rev (map Surname (Passengers p)))))"

definition line_of :: "string \<Rightarrow> segment \<Rightarrow> element" where
  "line_of action s =
     ESegment \<lparr>as_Carrier = Carrier s, as_FlightNum = FlightNum s, as_Class = Class s, as_Date = WireDate s, as_Board = Board s,
       as_Off = Off s, as_Action = action, as_Seats = Seats s, as_Trailer = ''''\<rparr>"

definition own_locator :: "pnr \<Rightarrow> element list" where
  "own_locator p = (if RecordLocator p \<noteq> '''' then [ELocator (fst (pnr_Origin p)) (RecordLocator p)] else [])"

definition their_locators :: "string \<Rightarrow> pnr \<Rightarrow> element list" where
  "their_locators carrier p = map (\<lambda>l. ELocator (Owner l) (lv_Value l)) (filter (\<lambda>l. Owner l = carrier \<and> lv_Value l \<noteq> '''') (Locators p))"

definition BuildSell :: "pnr \<Rightarrow> string \<Rightarrow> string \<Rightarrow> string" where
  "BuildSell p carrier action =
     (let segs = map (line_of action) (filter (\<lambda>s. Carrier s = carrier \<and> sg_Type s = SegmentAir) (Segments p)) in
      if segs = [] then ''''
      else ai_Build ''SS'' (segs @ groupPassengers p
        @ map (\<lambda>s. ESSR \<lparr>ss_Code = ssr_Code s, ss_Carrier = carrier, ss_Action = ssr_Status s, ss_Count = ssr_Count s, Itinerary = '''',
                          FreeText = ssr_Text s, NameRef = ''''\<rparr>)
              (filter (\<lambda>s. ssr_Carrier s = '''' \<or> ssr_Carrier s = carrier) (SSRs p))
        @ map (\<lambda>(c, t). EOSI carrier t) (filter (\<lambda>(c, t). c = '''' \<or> c = carrier) (OSIs p))
        @ own_locator p))"

definition reply_line :: "string strmap \<Rightarrow> ai_segment \<Rightarrow> element" where
  "reply_line outcomes s =
     ESegment (s\<lparr>as_Action := (case map_of outcomes (as_Key s) of Some c \<Rightarrow> c | None \<Rightarrow> ''NO''), as_Trailer := ''''\<rparr>)"

definition BuildReply :: "ai_message \<Rightarrow> string strmap \<Rightarrow> pnr option \<Rightarrow> string \<Rightarrow> string" where
  "BuildReply req outcomes rec self =
     ai_Build '''' (map (reply_line outcomes) (ai_Segments req) @ map EName (ai_Names req)
       @ (case rec of
            None \<Rightarrow> []
          | Some p \<Rightarrow> (if RecordLocator p \<noteq> '''' then [ELocator self (RecordLocator p)] else [])
              @ map (\<lambda>l. ELocator (Owner l) (lv_Value l)) (filter (\<lambda>l. Owner l \<noteq> self \<and> lv_Value l \<noteq> '''') (Locators p))))"

definition ai_BuildCancel :: "pnr \<Rightarrow> string \<Rightarrow> int list \<Rightarrow> string" where
  "ai_BuildCancel p carrier refs =
     (let segs = map (line_of ''XX'') (filter (\<lambda>s. Carrier s = carrier \<and> sg_Type s = SegmentAir
                   \<and> (if refs \<noteq> [] then sg_Ref s \<in> set refs else sg_Status s \<noteq> ''XX'')) (Segments p)) in
      if segs = [] then ''''
      else ai_Build ''XX'' (segs @ groupPassengers p @ own_locator p @ their_locators carrier p))"

definition advice_line :: "pnr \<Rightarrow> string \<Rightarrow> ticket \<Rightarrow> coupon \<Rightarrow> element list" where
  "advice_line p carrier t c =
     (case find (\<lambda>s. sg_Ref s = cp_SegmentRef c) (rev (Segments p)) of
        None \<Rightarrow> []
      | Some s \<Rightarrow>
          let op = (if OperatingCarrier s = '''' then Carrier s else OperatingCarrier s) in
          if sg_Type s \<noteq> SegmentAir \<or> op \<noteq> carrier \<and> Carrier s \<noteq> carrier then []
          else [ESSR \<lparr>ss_Code = ''TKNE'', ss_Carrier = carrier, ss_Action = ''HK'', ss_Count = 1,
                  Itinerary = Board s @ Off s @ FlightNum s @ Class s @ WireDate s,
                  FreeText = ''/'' @ AirlineCode (Number t) @ Serial (Number t) @ ''C'' @ itoa_int (cp_Number c), NameRef = ''''\<rparr>])"

definition BuildTicketAdvice :: "pnr \<Rightarrow> string \<Rightarrow> ticket \<Rightarrow> string" where
  "BuildTicketAdvice p carrier t =
     (let els = concat (map (advice_line p carrier t) (Coupons t));
          pax = find (\<lambda>x. px_Ref x = tkt_PaxRef t) (rev (Passengers p))
      in if els = [] then ''''
         else ai_Build ''SS''
           ((case pax of Some x \<Rightarrow> [EName \<lparr>an_Count = 1, an_Surname = Surname x, Givens = [Given x @ Title x], an_Infant = Infant x\<rparr>] | None \<Rightarrow> [])
            @ els @ own_locator p @ their_locators carrier p))"

end
