(* ===== verification/Gateway_Relay.thy ===== *)
theory Gateway_Relay
  imports Gateway Airimp_Apply
begin

text \<open>
  A decoded message, and what a switch does with one that is addressed elsewhere
  (\<open>src/pkg/gateway/decode.go\<close>, \<open>gateway.go\<close>): the relays for Type B, AFTN and EDIFACT traffic.
  The theorems show that a Type B relay makes exactly the copies it should, with unchanged bytes:
  never to the origin of the message, never back down the trunk it came from, one per trunk. The
  relay for AFTN has no trunk rule, and the last theorem shows two switches returning one message
  to each other.
\<close>

section \<open>Decoded messages and results\<close>

record aftn_message =
  TransmissionID :: string
  aftn_Priority :: string
  Addressees :: "string list"
  FilingTime :: string
  Originator :: string
  aftn_Text :: string

record ssim_leg =
  leg_Board :: string
  leg_Depart :: string
  leg_Arrive :: string

record schedule_message =
  sm_Action :: string
  sm_Carrier :: string
  sm_FlightKey :: string
  sm_From :: string
  sm_Single :: bool
  sm_Local :: bool
  sm_Legs :: "ssim_leg list"
  sm_Describe :: string

record coupon_ref =
  cr_Number :: int
  cr_Status :: string

record ticket_control =
  tc_Response :: bool
  tc_Number :: ticket_number
  tc_Coupons :: "coupon_ref list"
  tc_Refusal :: string
  tc_Locator :: string
  tc_Party :: string

text \<open>
  The traffic that is handed on to somebody else's code and touches no record here: passenger
  lists and record pushes to a state, through check-in answers, movements, airport messages.
\<close>

datatype onward_kind = PAXLST | PNRGOV | ThroughCheckInResponse | Movement | NameList | Baggage | Departure | OOOI | ATS | ATFM

record decoded =
  dc_Format :: string
  dc_Kind :: string
  dc_DedupKey :: string
  dc_PossibleDuplicate :: bool
  dc_Diagnostics :: "string list"
  dc_Locators :: "string list"
  dc_NeedsReply :: bool
  CreatesRecord :: bool
  dc_Test :: bool
  dc_TypeB :: "tb_message option"
  dc_AVS :: "avail_entry list option"
  dc_AFTN :: "aftn_message option"
  Unreadable :: string
  Schedule :: "schedule_message option"
  dc_ReplyTo :: address
  EdifactSender :: string
  dc_Interchange :: "interchange option"
  dc_CONTRL :: "report option"
  TicketControl :: "ticket_control option"
  ThroughCheckIn :: bool
  Onward :: "onward_kind option"
  dc_Airimp :: "ai_message option"
  dc_Edifact :: "ed_message option"
  dc_self :: string

record result =
  rs_MessageID :: string
  rs_PNRID :: string
  rs_Locator :: string
  rs_Status :: string
  rs_Duplicate :: bool
  Changes :: "string list"
  Replies :: "string list"
  rs_Reply :: "bytes option"
  rs_Err :: "string option"

text \<open>What a handler changes: the captured message, the result, the gateway.\<close>

type_synonym step = "message \<times> result \<times> gateway"

definition settle :: "string \<Rightarrow> message \<Rightarrow> result \<Rightarrow> message \<times> result" where
  "settle st m r = (m\<lparr>msg_Status := st\<rparr>, r\<lparr>rs_Status := st\<rparr>)"

definition settle_error :: "string \<Rightarrow> string \<Rightarrow> message \<Rightarrow> result \<Rightarrow> message \<times> result" where
  "settle_error st err m r = (m\<lparr>msg_Status := st, msg_Error := err\<rparr>, r\<lparr>rs_Status := st\<rparr>)"

section \<open>Type B\<close>

datatype relay_class = ForUs | Reflected | ToOnward

definition relay_class :: "gateway \<Rightarrow> gw_peer \<Rightarrow> string \<Rightarrow> address \<Rightarrow> relay_class" where
  "relay_class g frm origin d =
     (let addr = address_String d in
      if IsSelf g addr then ForUs
      else if normaliseAddress addr = origin then Reflected
      else case PeerByAddress g addr of
             Some p \<Rightarrow> if Trunk frm \<and> linkOf p = pe_Name frm then Reflected else ToOnward
           | None \<Rightarrow> ToOnward)"

definition relay :: "env \<Rightarrow> gw_peer \<Rightarrow> tb_message \<Rightarrow> string \<Rightarrow> step \<Rightarrow> bool \<times> step" where
  "relay e frm tb kind s =
     (case s of (m, r, g) \<Rightarrow>
        let origin = normaliseAddress (address_String (tb_Origin tb));
            cls = relay_class g frm origin;
            forUs = list_ex (\<lambda>d. cls d = ForUs) (Destinations tb);
            onward = filter (\<lambda>d. cls d = ToOnward) (Destinations tb);
            reflected = length (filter (\<lambda>d. cls d = Reflected) (Destinations tb))
        in if onward = [] then
             (if \<not> forUs \<and> reflected > 0
              then let (m1, r1) = settle_error StatusUndeliverable ''addressed only to its own origin'' m r in (True, m1, r1, g)
              else (False, m, r, g))
           else
             let (deliveries, g1) = Fanout e onward (Raw m) (''relay/'' @ kind) '''' (msg_ID m) g;
                 sent = filter (\<lambda>d. dl_Err d = '''' \<and> dl_MessageID d \<noteq> '''') deliveries;
                 r1 = r\<lparr>Replies := Replies r @ map dl_MessageID sent\<rparr>
             in if forUs then (False, m, r1, g1)
                else let (m2, r2) = (if sent = [] then settle_error StatusUndeliverable ''addressed elsewhere and no addressee could be routed'' m r1
                                     else settle StatusApplied m r1)
                     in (True, m2, r2, g1))"

section \<open>AFTN\<close>

fun relay_aftn_loop :: "env \<Rightarrow> gw_peer \<Rightarrow> bytes \<Rightarrow> string \<Rightarrow> string \<Rightarrow> string list \<Rightarrow> nat \<Rightarrow> gateway \<Rightarrow> nat \<times> gateway" where
  "relay_aftn_loop e frm raw kind corr [] sent g = (sent, g)"
| "relay_aftn_loop e frm raw kind corr (a # as) sent g =
     (case PeerByAddress g a of
        None \<Rightarrow> relay_aftn_loop e frm raw kind corr as sent g
      | Some peer \<Rightarrow>
          if pe_Name peer = pe_Name frm \<and> normaliseAddress a = normaliseAddress (pe_TTYAddress frm)
          then relay_aftn_loop e frm raw kind corr as sent g
          else let ((i, err), g1) = gw_Send e peer raw kind '''' corr g
               in relay_aftn_loop e frm raw kind corr as (if err = None then Suc sent else sent) g1)"

definition relayAFTN :: "env \<Rightarrow> gw_peer \<Rightarrow> aftn_message \<Rightarrow> string \<Rightarrow> step \<Rightarrow> bool \<times> step" where
  "relayAFTN e frm am kind s =
     (case s of (m, r, g) \<Rightarrow>
        let origin = normaliseAddress (Originator am);
            forUs = list_ex (IsSelf g) (Addressees am);
            onward = filter (\<lambda>a. \<not> IsSelf g a \<and> normaliseAddress a \<noteq> origin) (Addressees am)
        in if onward = [] then (False, m, r, g)
           else let (sent, g1) = relay_aftn_loop e frm (Raw m) (''relay/'' @ kind) (msg_ID m) onward 0 g
                in if forUs then (False, m, r, g1)
                   else let (m1, r1) = (if sent = 0 then settle_error StatusUndeliverable ''addressed elsewhere and no addressee could be routed'' m r
                                        else settle StatusApplied m r)
                        in (True, m1, r1, g1))"

section \<open>EDIFACT\<close>

definition relayEDIFACT :: "env \<Rightarrow> gw_peer \<Rightarrow> interchange \<Rightarrow> string \<Rightarrow> step \<Rightarrow> bool \<times> step" where
  "relayEDIFACT e frm ic kind s =
     (case s of (m, r, g) \<Rightarrow>
        let recipient = pa_ID (Recipient ic) in
        if recipient = '''' \<or> recipient = Designator (Identity g) then (False, m, r, g)
        else
          case (case PeerForCarrier g recipient of Some p \<Rightarrow> Some p | None \<Rightarrow> gw_Peer g recipient) of
            None \<Rightarrow>
              let (m1, r1) = settle_error StatusUndeliverable (''interchange for '' @ recipient @ '', who is not on this switch'') m r
              in (True, m1, r1, g)
          | Some to \<Rightarrow>
              if pe_Name to = pe_Name frm then
                let (m1, r1) = settle_error StatusUndeliverable
                                 (''interchange for '' @ recipient @ '' arrived on that subscriber's own link'') m r
                in (True, m1, r1, g)
              else
                let ((i, err), g1) = gw_Send e to (Raw m) (''relay/'' @ kind) '''' (msg_ID m) g in
                case err of
                  Some x \<Rightarrow>
                    let (m1, r1) = settle_error StatusUndeliverable (''could not forward to '' @ recipient @ '': '' @ x) m r
                    in (True, m1, r1, g1)
                | None \<Rightarrow>
                    let (m1, r1) = settle StatusApplied m r in (True, m1, r1\<lparr>Replies := Replies r1 @ [i]\<rparr>, g1))"

section \<open>The copies a relay makes\<close>

text \<open>The addressees of a message that are another party's, not its origin, not across the trunk it came from, and served by a peer.\<close>

definition owed :: "gateway \<Rightarrow> gw_peer \<Rightarrow> tb_message \<Rightarrow> gw_peer \<Rightarrow> address list" where
  "owed g frm tb p =
     filter (\<lambda>d. \<not> IsSelf g (address_String d) \<and> PeerByAddress g (address_String d) = Some p
        \<and> normaliseAddress (address_String d) \<noteq> normaliseAddress (address_String (tb_Origin tb))
        \<and> \<not> (Trunk frm \<and> linkOf p = pe_Name frm)) (Destinations tb)"

definition onward_of :: "gateway \<Rightarrow> gw_peer \<Rightarrow> tb_message \<Rightarrow> address list" where
  "onward_of g frm tb =
     filter (\<lambda>d. relay_class g frm (normaliseAddress (address_String (tb_Origin tb))) d = ToOnward) (Destinations tb)"

lemma owed_onward: "filter (to_peer g p) (map address_String (onward_of g frm tb)) = map address_String (owed g frm tb p)"
  unfolding owed_def onward_of_def filter_map filter_filter
  by (rule arg_cong [where f = "map address_String"], rule filter_cong)
     (auto simp: relay_class_def to_peer_def Let_def split: option.splits)

lemma owed_ex: "list_ex (to_peer g p) (map address_String (onward_of g frm tb)) \<longleftrightarrow> owed g frm tb p \<noteq> []"
  using owed_onward [of g p frm tb] by (metis filter_empty_conv list.map_disc_iff list_ex_iff)

lemma relay_handed:
  assumes "relay e frm tb kind (m, r, g) = (fin, m', r', g')"
  shows "\<exists>ds. fanout_loop e (Raw m) (''relay/'' @ kind) '''' (msg_ID m) [] (map address_String (onward_of g frm tb)) g = (ds, g')"
proof (cases "onward_of g frm tb = []")
  case True
  then show ?thesis using assms by (auto simp: relay_def onward_of_def Let_def settle_error_def split: if_splits)
next
  case False
  then show ?thesis using assms unfolding relay_def onward_of_def
    by (auto simp: Let_def Fanout_def settle_def settle_error_def split: if_splits prod.splits)
qed

lemma relay_fin:
  assumes "relay e frm tb kind (m, r, g) = (fin, s')"
  shows "fin \<longleftrightarrow> Destinations tb \<noteq> [] \<and> \<not> list_ex (\<lambda>d. IsSelf g (address_String d)) (Destinations tb)"
proof -
  let ?c = "relay_class g frm (normaliseAddress (address_String (tb_Origin tb)))"
  have us: "list_ex (\<lambda>d. ?c d = ForUs) (Destinations tb) \<longleftrightarrow> list_ex (\<lambda>d. IsSelf g (address_String d)) (Destinations tb)"
    by (auto simp: list_ex_iff relay_class_def Let_def split: option.splits)
  have three: "?c d = ForUs \<or> ?c d = ToOnward \<or> ?c d = Reflected" for d by (cases "?c d") auto
  show ?thesis
  proof (cases "onward_of g frm tb = []")
    case True
    then have "(filter (\<lambda>d. ?c d = Reflected) (Destinations tb) \<noteq> [] \<or> list_ex (\<lambda>d. ?c d = ForUs) (Destinations tb)) \<longleftrightarrow> Destinations tb \<noteq> []"
      using three by (cases "Destinations tb") (fastforce simp: onward_of_def)+
    then show ?thesis using assms True us by (auto simp: relay_def onward_of_def Let_def settle_error_def split: if_splits)
  next
    case False
    then have "Destinations tb \<noteq> []" by (auto simp: onward_of_def)
    then show ?thesis using assms False us unfolding relay_def onward_of_def
      by (auto simp: Let_def split: if_splits prod.splits)
  qed
qed

text \<open>C6: a switch makes exactly the copies of a Type B message that its addressees are owed. Every
  copy carries the bytes that arrived, on the link of an addressee that is neither this node nor the
  origin of the message nor across the trunk the message arrived on, so a message is never reflected
  to its sender or its sending switch. A subscriber with a link of its own is handed one copy per
  addressee, every such addressee has a copy on its link, a trunk accepts at most one however many
  addressees are behind it, and the message is finished here exactly when it names somebody and this
  node is not among them.\<close>

theorem relay_copies:
  assumes "relay e frm tb kind (m, r, g) = (fin, m', r', g')"
  shows "(\<exists>new. gw_handed g' = gw_handed g @ new
       \<and> (\<forall>(p, b, ans) \<in> set new. b = Raw m \<and> owed g frm tb p \<noteq> [])
       \<and> (\<forall>p. \<not> shared_link p \<longrightarrow> length (filter (\<lambda>c. fst c = p) new) = length (owed g frm tb p))
       \<and> (\<forall>p. owed g frm tb p \<noteq> [] \<longrightarrow> (\<exists>c \<in> set new. linkOf (fst c) = linkOf p))
       \<and> (\<forall>L. length (accepted_on L new) \<le> 1))
     \<and> (fin \<longleftrightarrow> Destinations tb \<noteq> [] \<and> \<not> list_ex (\<lambda>d. IsSelf g (address_String d)) (Destinations tb))"
proof -
  obtain ds where "fanout_loop e (Raw m) (''relay/'' @ kind) '''' (msg_ID m) [] (map address_String (onward_of g frm tb)) g = (ds, g')"
    using relay_handed [OF assms] by blast
  from fanout_loop_handed [OF this, unfolded owed_ex owed_onward] obtain new where "gw_handed g' = gw_handed g @ new"
    "\<forall>(p, b, ans) \<in> set new. b = Raw m \<and> owed g frm tb p \<noteq> []"
    "\<forall>p. \<not> shared_link p \<longrightarrow> length (filter (\<lambda>c. fst c = p) new) = length (owed g frm tb p)"
    "\<forall>p. owed g frm tb p \<noteq> [] \<longrightarrow> (\<exists>c \<in> set new. linkOf (fst c) = linkOf p)"
    "\<forall>L. length (accepted_on L new) \<le> 1" by auto
  then show ?thesis using relay_fin [OF assms] by blast
qed

section \<open>AFTN has no trunk rule\<close>

lemma relay_aftn_loop_handed:
  assumes "relay_aftn_loop e frm raw kind corr as sent g = (n, g')"
  shows "\<exists>new. gw_handed g' = gw_handed g @ new
     \<and> (\<forall>a \<in> set as. \<forall>p. PeerByAddress g a = Some p
           \<and> \<not> (pe_Name p = pe_Name frm \<and> normaliseAddress a = normaliseAddress (pe_TTYAddress frm))
           \<longrightarrow> (\<exists>ans. (p, raw, ans) \<in> set new))"
  using assms
proof (induction as arbitrary: sent g)
  case (Cons a as)
  show ?case
  proof (cases "\<exists>p. PeerByAddress g a = Some p \<and> \<not> (pe_Name p = pe_Name frm \<and> normaliseAddress a = normaliseAddress (pe_TTYAddress frm))")
    case True
    then obtain p where p: "PeerByAddress g a = Some p" "\<not> (pe_Name p = pe_Name frm \<and> normaliseAddress a = normaliseAddress (pe_TTYAddress frm))" by blast
    obtain i err g1 where snd: "gw_Send e p raw kind '''' corr g = ((i, err), g1)" by (metis surj_pair)
    note sent = Send_handed [OF snd]
    have "relay_aftn_loop e frm raw kind corr as (if err = None then Suc sent else sent) g1 = (n, g')"
      using Cons.prems p snd by (auto simp: Let_def)
    from Cons.IH [OF this, unfolded routes_cong(2) [OF sent(3)]] show ?thesis using sent(1) p(1) by (auto, blast+)
  next
    case False
    then have "relay_aftn_loop e frm raw kind corr as sent g = (n, g')" using Cons.prems by (auto split: option.splits if_splits)
    from Cons.IH [OF this] False show ?thesis by auto
  qed
qed simp

text \<open>The AFTN relay returns messages down the trunk they arrived on. Unlike the Type B relay it
  never asks whether the message came over a trunk: an addressee that the other switch serves is sent
  back to that switch, whatever the transport answers. The witness is two switches joined by a
  trunk, with one addressee on each side: each of them hands the message it got from the other back to
  the other, and nothing in the message has changed when it arrives again.\<close>

theorem aftn_relay_returns_on_trunk:
  assumes "relayAFTN e frm am kind (m, r, g) = (fin, m', r', g')"
    and "Trunk frm" "a \<in> set (Addressees am)" "\<not> IsSelf g a" "normaliseAddress a \<noteq> normaliseAddress (Originator am)"
    and "PeerByAddress g a = Some p" "linkOf p = pe_Name frm" "normaliseAddress a \<noteq> normaliseAddress (pe_TTYAddress frm)"
  shows "\<exists>new ans. gw_handed g' = gw_handed g @ new \<and> (p, Raw m, ans) \<in> set new"
proof -
  let ?on = "filter (\<lambda>a. \<not> IsSelf g a \<and> normaliseAddress a \<noteq> normaliseAddress (Originator am)) (Addressees am)"
  have mem: "a \<in> set ?on" using assms by simp
  then have "?on \<noteq> []" by (metis list.distinct(1) list.set_cases)
  then obtain n where "relay_aftn_loop e frm (Raw m) (''relay/'' @ kind) (msg_ID m) ?on 0 g = (n, g')"
    using assms(1) by (auto simp: relayAFTN_def Let_def settle_def settle_error_def split: if_splits prod.splits)
  from relay_aftn_loop_handed [OF this] show ?thesis using mem assms(6,8) by blast
qed

section \<open>Two switches\<close>

text \<open>A quiet environment, and two switches joined by a trunk, each with a subscriber.\<close>

definition demo_env :: env where
  "demo_env = \<lparr>Now = int, NewAt = (\<lambda>t n. CHR ''M'' # Itoa n), gen = (\<lambda>n. CHR ''G'' # Itoa n), Sender_Send = (\<lambda>h n b. None),
     mac = (\<lambda>k b. [])\<rparr>"

definition demo_peer :: "string \<Rightarrow> string \<Rightarrow> string \<Rightarrow> bool \<Rightarrow> string list \<Rightarrow> gw_peer" where
  "demo_peer name carrier via trunk addrs =
     \<lparr>pe_Name = name, pe_Carrier = carrier, pe_Format = FormatTypeB, SequenceWrap = 0, pe_CONTRL = '''', Via = via, Trunk = trunk,
      pe_TTYAddress = '''', pe_Addresses = addrs, ICAO = '''', pe_AFTN = False\<rparr>"

definition demo_allocator :: locator_allocator where
  "demo_allocator = NewLocatorAllocator (\<lambda>b. b) []"

definition demo_identity :: "string \<Rightarrow> string \<Rightarrow> identity" where
  "demo_identity des tty = \<lparr>Designator = des, id_TTYAddress = tty, id_Name = des, AFTNAddress = ''''\<rparr>"

definition trunk_to_a :: gw_peer where "trunk_to_a = demo_peer ''A'' '''' '''' True []"
definition trunk_to_b :: gw_peer where "trunk_to_b = demo_peer ''B'' '''' '''' True []"

definition switch_a :: gateway where
  "switch_a = AddPeer trunk_to_b (AddPeer (demo_peer ''BA'' ''BA'' '''' False [''LONRRBA'', ''EGLLBAWO''])
     (AddPeer (demo_peer ''AF'' ''AF'' ''B'' False [''PARRRAF'', ''PARKKAF'', ''LFPGAFRO'']) (gw_New (demo_identity ''1A'' ''XCHDD1A'') NewMem demo_allocator)))"

definition switch_b :: gateway where
  "switch_b = AddPeer trunk_to_a (AddPeer (demo_peer ''AF'' ''AF'' '''' False [''PARRRAF'', ''PARKKAF'', ''LFPGAFRO''])
     (AddPeer (demo_peer ''BA'' ''BA'' ''A'' False [''LONRRBA'', ''EGLLBAWO'']) (gw_New (demo_identity ''1B'' ''XCHDD1B'') NewMem demo_allocator)))"

definition demo_address :: "string \<Rightarrow> address" where
  "demo_address s = (case ParseAddress s of Some a \<Rightarrow> a | None \<Rightarrow> zero_address)"

definition demo_tb :: tb_message where
  "demo_tb = (zero_tb '''')\<lparr>Priority := ''QU'', tb_Origin := demo_address ''NYCRRAA'',
     Destinations := map demo_address [''LONRRBA'', ''PARRRAF'', ''PARKKAF'', ''NYCRRAA'']\<rparr>"

definition demo_aftn :: aftn_message where
  "demo_aftn = \<lparr>TransmissionID = '''', aftn_Priority = ''FF'', Addressees = [''EGLLBAWO'', ''LFPGAFRO''], FilingTime = ''201838'',
     Originator = ''KJFKAALX'', aftn_Text = ''HELLO''\<rparr>"

definition demo_message :: message where
  "demo_message = (out_message ''M'' 0 (demo_peer ''AA'' ''AA'' '''' False []) '''' [1, 2, 3] StatusReceived '''' '''' '''')\<lparr>Direction := Inbound\<rparr>"

definition demo_result :: result where
  "demo_result = \<lparr>rs_MessageID = ''M'', rs_PNRID = '''', rs_Locator = '''', rs_Status = '''', rs_Duplicate = False, Changes = [], Replies = [],
     rs_Reply = None, rs_Err = None\<rparr>"

definition sent_by :: "bool \<times> step \<Rightarrow> handed" where
  "sent_by out = (case out of (fin, m, r, g) \<Rightarrow> gw_handed g)"

definition names_of :: "handed \<Rightarrow> string list" where
  "names_of h = map (\<lambda>c. pe_Name (fst c)) h"

lemma nothing_handed [simp]: "gw_handed (AddPeer p g) = gw_handed g" "gw_handed (gw_New i st al) = []"
  by (simp_all add: AddPeer_def gw_New_def Let_def)

lemma switches_quiet [simp]: "gw_handed switch_a = []" "gw_handed switch_b = []"
  by (simp_all add: switch_a_def switch_b_def)

theorem relay_copies_witness:
  "\<exists>fin m r g. relay demo_env (demo_peer ''AA'' '''' '''' False []) demo_tb ''MSG'' (demo_message, demo_result, switch_a) = (fin, m, r, g)
     \<and> length (accepted_on ''B'' (gw_handed g)) \<le> 1 \<and> names_of (gw_handed g) = [''BA'', ''AF''] \<and> fin"
proof -
  let ?run = "relay demo_env (demo_peer ''AA'' '''' '''' False []) demo_tb ''MSG'' (demo_message, demo_result, switch_a)"
  obtain fin m r g where eq: "?run = (fin, m, r, g)" by (metis surj_pair)
  have "names_of (sent_by ?run) = [''BA'', ''AF'']" by code_simp
  then have names: "names_of (gw_handed g) = [''BA'', ''AF'']" by (simp add: eq sent_by_def)
  have "Destinations demo_tb \<noteq> [] \<and> \<not> list_ex (\<lambda>d. IsSelf switch_a (address_String d)) (Destinations demo_tb)" by code_simp
  then show ?thesis using relay_copies [OF eq] eq names by auto
qed

lemma trunk_routes:
  "PeerByAddress switch_b ''EGLLBAWO'' = Some (demo_peer ''BA'' ''BA'' ''A'' False [''LONRRBA'', ''EGLLBAWO''])"
  "PeerByAddress switch_a ''LFPGAFRO'' = Some (demo_peer ''AF'' ''AF'' ''B'' False [''PARRRAF'', ''PARKKAF'', ''LFPGAFRO''])"
  "\<not> IsSelf switch_b ''EGLLBAWO''" "\<not> IsSelf switch_a ''LFPGAFRO''"
  "normaliseAddress ''EGLLBAWO'' = ''EGLLBAWO''" "normaliseAddress ''LFPGAFRO'' = ''LFPGAFRO''" "normaliseAddress '''' = ''''"
  "normaliseAddress ''KJFKAALX'' = ''KJFKAALX''"
  by code_simp+

theorem aftn_relay_returns_on_trunk_witness:
  "(\<exists>m r g fin ans. relayAFTN demo_env trunk_to_a demo_aftn ''AFTN/FF'' (demo_message, demo_result, switch_b) = (fin, m, r, g)
      \<and> (demo_peer ''BA'' ''BA'' ''A'' False [''LONRRBA'', ''EGLLBAWO''], [1, 2, 3], ans) \<in> set (gw_handed g))
   \<and> (\<exists>m r g fin ans. relayAFTN demo_env trunk_to_b demo_aftn ''AFTN/FF'' (demo_message, demo_result, switch_a) = (fin, m, r, g)
      \<and> (demo_peer ''AF'' ''AF'' ''B'' False [''PARRRAF'', ''PARKKAF'', ''LFPGAFRO''], [1, 2, 3], ans) \<in> set (gw_handed g))"
proof (intro conjI)
  obtain fin m r g where eq: "relayAFTN demo_env trunk_to_a demo_aftn ''AFTN/FF'' (demo_message, demo_result, switch_b) = (fin, m, r, g)"
    by (metis surj_pair)
  show "\<exists>m r g fin ans. relayAFTN demo_env trunk_to_a demo_aftn ''AFTN/FF'' (demo_message, demo_result, switch_b) = (fin, m, r, g)
      \<and> (demo_peer ''BA'' ''BA'' ''A'' False [''LONRRBA'', ''EGLLBAWO''], [1, 2, 3], ans) \<in> set (gw_handed g)"
    using aftn_relay_returns_on_trunk [OF eq _ _ trunk_routes(3) _ trunk_routes(1)] eq
    by (auto simp: trunk_routes trunk_to_a_def demo_peer_def demo_aftn_def linkOf_def demo_message_def out_message_def)
next
  obtain fin m r g where eq: "relayAFTN demo_env trunk_to_b demo_aftn ''AFTN/FF'' (demo_message, demo_result, switch_a) = (fin, m, r, g)"
    by (metis surj_pair)
  show "\<exists>m r g fin ans. relayAFTN demo_env trunk_to_b demo_aftn ''AFTN/FF'' (demo_message, demo_result, switch_a) = (fin, m, r, g)
      \<and> (demo_peer ''AF'' ''AF'' ''B'' False [''PARRRAF'', ''PARKKAF'', ''LFPGAFRO''], [1, 2, 3], ans) \<in> set (gw_handed g)"
    using aftn_relay_returns_on_trunk [OF eq _ _ trunk_routes(4) _ trunk_routes(2)] eq
    by (auto simp: trunk_routes trunk_to_b_def demo_peer_def demo_aftn_def linkOf_def demo_message_def out_message_def)
qed

end
