(* ===== verification/Padis.thy ===== *)
theory Padis
  imports Airimp_Apply Edifact_Parse
begin

text \<open>
  The PADIS reservation messages over EDIFACT (\<open>src/pkg/padis/padis.go\<close>, \<open>build.go\<close>): folding a
  PAOREQ or PAORES into a record one segment at a time, and rendering requests, responses and
  cancellations from a record. The handler state is the index of the itinerary segment seen last;
  only \<open>handleTVL\<close> appends segments and it sets the state anew, so the code's pointer never dangles.
  The profile is the default one.
\<close>

section \<open>Dates\<close>

text \<open>\<open>time.Format\<close> with the layouts \<open>020106\<close>, \<open>060102\<close> and \<open>1504\<close>.\<close>

definition yy :: "time \<Rightarrow> string" where "yy t = pad2 (nat (Year t mod 100))"

definition FormatTVLDate :: "time \<Rightarrow> string" where
  "FormatTVLDate t = pad2 (nat (MDay t)) @ pad2 (Month t) @ yy t"

definition format_060102 :: "time \<Rightarrow> string" where
  "format_060102 t = yy t @ pad2 (Month t) @ pad2 (nat (MDay t))"

definition minute_of_day :: "time \<Rightarrow> nat" where
  "minute_of_day t = nat ((t mod day_ns) div (60 * 1000000000))"

definition format_1504 :: "time \<Rightarrow> string" where
  "format_1504 t = pad2 (minute_of_day t div 60) @ pad2 (minute_of_day t mod 60)"

text \<open>\<open>time.Parse("020106", s)\<close> of six digits; a year below 69 is in this century.\<close>

definition parse_020106 :: "string \<Rightarrow> time option" where
  "parse_020106 s =
     (let d = dec_val (take 2 s); m = dec_val (take 2 (drop 2 s)); y2 = dec_val (drop 4 s);
          y = (if y2 \<ge> 69 then 1900 + int y2 else 2000 + int y2)
      in if m < 1 \<or> m > 12 \<or> d < 1 \<or> int d > month_lengths y ! (m - 1) then None
         else Some (Date y m (int d)))"

text \<open>The date, the spelling that keys the segment, and whether there was an error.\<close>

definition parseTVLDate :: "string \<Rightarrow> time \<Rightarrow> time \<times> string \<times> bool" where
  "parseTVLDate s0 ref =
     (let s = ToUpper (TrimSpace s0);
          resolved = (case ResolveDate s ref of Inl _ \<Rightarrow> (zero_time, s, True) | Inr t \<Rightarrow> (t, FormatDate t, False))
      in if length s = 6 \<and> Atoi s \<noteq> None
         then (if \<not> all_digits s then (zero_time, '''', True)
               else case parse_020106 s of None \<Rightarrow> (zero_time, '''', True) | Some t \<Rightarrow> (t, FormatDate t, False))
         else resolved)"

section \<open>Handlers\<close>

definition PaxAdult :: string where "PaxAdult = ''A''"
definition PaxInfant :: string where "PaxInfant = ''IN''"

definition pd_atoiOr :: "string \<Rightarrow> int \<Rightarrow> int" where
  "pd_atoiOr s d = (case Atoi (TrimSpace s) of Some n \<Rightarrow> n | None \<Rightarrow> d)"

definition sensitiveSSR :: "string \<Rightarrow> bool" where
  "sensitiveSSR code \<longleftrightarrow> code \<in> set [''DOCS'', ''DOCA'', ''DOCO'', ''FOID'']"

definition pd_hasPassenger :: "pnr \<Rightarrow> string \<Rightarrow> string \<Rightarrow> bool" where
  "pd_hasPassenger p surname given = list_ex (\<lambda>x. Surname x = surname \<and> Given x = given) (Passengers p)"

text \<open>A handler returns the changes, the record and the segment seen last, or \<open>None\<close> for \<open>ok\<close> false beside the record it leaves.\<close>

type_synonym handled = "change list option \<times> pnr \<times> nat option"

definition handleMSG :: "ed_segment \<Rightarrow> pnr \<Rightarrow> nat option \<Rightarrow> handled" where
  "handleMSG seg p st = (Some [chg ''message_function'' (seg_Get seg 0 1)], p, st)"

definition TrimRightSpaces :: "string \<Rightarrow> string" where
  "TrimRightSpaces s = rev (dropWhile (\<lambda>c. c = CHR '' '') (rev s))"

text \<open>\<open>Origin\<close> is the triple of party, agent and channel.\<close>

definition handleORG :: "ed_segment \<Rightarrow> pnr \<Rightarrow> nat option \<Rightarrow> handled" where
  "handleORG seg p st =
     (let sys = seg_Get seg 0 0; loc = seg_Get seg 0 1; agent = seg_Value seg 1;
          (party, ag, channel) = pnr_Origin p;
          o1 = (if party = '''' then sys else party, if agent \<noteq> '''' then agent else ag, channel)
      in (Some [chg ''origin'' (TrimRightSpaces (sys @ '' '' @ loc @ '' '' @ agent))], p\<lparr>pnr_Origin := o1\<rparr>, st))"

fun tif_names :: "string \<Rightarrow> composite list \<Rightarrow> pnr \<Rightarrow> change list \<times> pnr" where
  "tif_names surname [] p = ([], p)"
| "tif_names surname (c # cs) p =
     (let raw = TrimSpace (comp_Get c 0); (given, title) = SplitTitle raw in
      if raw = '''' \<or> pd_hasPassenger p surname given then tif_names surname cs p
      else let pt = ToUpper (TrimSpace (comp_Get c 1));
               (chs, p') = tif_names surname cs
                 (p\<lparr>Passengers := Passengers p @ [\<lparr>px_Ref = 0, Surname = surname, Given = given, Title = title, px_Type = pt,
                                                  Infant = (pt = PaxInfant), FrequentFlyer = []\<rparr>]\<rparr>)
           in (chg ''add_passenger'' (surname @ ''/'' @ raw) # chs, p'))"

definition handleTIF :: "ed_segment \<Rightarrow> pnr \<Rightarrow> nat option \<Rightarrow> handled" where
  "handleTIF seg p st =
     (let surname = TrimSpace (seg_Value seg 0) in
      if surname = '''' then (None, p, st)
      else if length (ed_segment.Elements seg) = 1 then
        (Some [chg ''add_passenger'' surname],
         p\<lparr>Passengers := Passengers p @ [\<lparr>px_Ref = 0, Surname = surname, Given = '''', Title = '''',
             px_Type = ToUpper (elem_Get (seg_Elem seg 0) 1), Infant = False, FrequentFlyer = []\<rparr>]\<rparr>, st)
      else let (chs, p') = tif_names surname (concat (tl (ed_segment.Elements seg))) p in (Some chs, p', st))"

definition blank_segment :: segment where
  "blank_segment = \<lparr>sg_Ref = 0, sg_Type = '''', Carrier = '''', OperatingCarrier = '''', FlightNum = '''', Class = '''',
     Depart = zero_time, DepartTime = '''', ArriveTime = '''', Board = '''', Off = '''', FareBasis = '''', sg_Status = '''',
     Seats = 0, CarrierLocator = '''', WireDate = ''''\<rparr>"

definition append_segment :: "segment \<Rightarrow> pnr \<Rightarrow> pnr \<times> nat option" where
  "append_segment s p = (Recompute (p\<lparr>Segments := Segments p @ [s]\<rparr>), Some (length (Segments p)))"

definition handleTVL :: "apply_options \<Rightarrow> ed_segment \<Rightarrow> pnr \<Rightarrow> nat option \<Rightarrow> handled" where
  "handleTVL opts seg p st =
     (let board = seg_Value seg 1; off = seg_Value seg 2; marketing = seg_Get seg 3 0; operating = seg_Get seg 3 1;
          flight = seg_Get seg 4 0; class = seg_Get seg 4 1; literal = ToUpper (TrimSpace flight)
      in if literal = ''ARNK'' then
           let (p1, st1) = append_segment (blank_segment\<lparr>sg_Type := SegmentSurface, Board := board, Off := off, sg_Status := ''HK''\<rparr>) p
           in (Some [chg ''add_segment'' ''ARNK surface gap''], p1, st1)
         else if literal = ''OPEN'' then
           let (p1, st1) = append_segment (blank_segment\<lparr>sg_Type := SegmentAir, Carrier := marketing, OperatingCarrier := operating,
                             Class := class, Board := board, Off := off, sg_Status := ''HN'', Seats := 1\<rparr>) p
           in (Some [chg ''add_segment'' (''OPEN '' @ marketing @ '' '' @ board @ ''-'' @ off)], p1, st1)
         else if board = '''' \<or> off = '''' \<or> marketing = '''' then (None, p, st)
         else
           let (depart, wire, err) = parseTVLDate (seg_Get seg 0 0) (ReceivedAt opts);
               p1 = (if err then p\<lparr>Unparsed := Unparsed p @ [(''edifact'', ''unresolvable TVL date'', EncodeTo (DefaultSyntax 3) seg)]\<rparr> else p);
               s = blank_segment\<lparr>sg_Type := SegmentAir, Carrier := marketing, OperatingCarrier := operating, FlightNum := flight,
                     Class := class, Depart := depart, WireDate := wire, DepartTime := seg_Get seg 0 1, ArriveTime := seg_Get seg 0 3,
                     Board := board, Off := off, sg_Status := ''HN'', Seats := 1\<rparr>
           in case SegmentByKey p1 (Key s) of
                Some i \<Rightarrow> (Some [chg ''segment_seen'' (Describe (Segments p1 ! i))], p1, Some i)
              | None \<Rightarrow>
                  let (p2, st2) = append_segment s p1
                  in (Some [chg ''add_segment'' (Describe (last (Segments p2)))], p2, st2))"

definition handleRPI :: "apply_options \<Rightarrow> ed_segment \<Rightarrow> pnr \<Rightarrow> nat option \<Rightarrow> handled" where
  "handleRPI opts seg p st =
     (case st of
        None \<Rightarrow> (None, p, st)
      | Some i \<Rightarrow>
          let p1 = (case Atoi (seg_Value seg 0) of
                      Some q \<Rightarrow> if q > 0 then upd_seg i (\<lambda>s. s\<lparr>Seats := q\<rparr>) p else p
                    | None \<Rightarrow> p);
              code = ToUpper (seg_Value seg 1);
              setst = (\<lambda>v. upd_seg i (\<lambda>s. s\<lparr>sg_Status := v\<rparr>) p1);
              done = (\<lambda>op q. (Some [chg op (Describe (Segments q ! i))], q, st))
          in if code = '''' then (None, p1, st)
             else if ao_Inbound opts \<and> NeedsReply code then done ''segment_requested'' (setst ''HN'')
             else if Category code = CatCancel then done ''segment_cancelled'' (setst code)
             else case ReplyTo code of
                    Some h \<Rightarrow>
                      if h = '''' then done ''segment_refused'' (setst code)
                      else if Category (sg_Status (Segments p1 ! i)) = CatCancel then
                        (Some [chg ''late_confirmation_ignored'' (Describe (Segments p1 ! i) @ '' answered '' @ code @ '' after cancellation'')], p1, st)
                      else done ''segment_status'' (setst h)
                  | None \<Rightarrow> done ''segment_status'' (setst code))"

definition handleSSR :: "ed_segment \<Rightarrow> pnr \<Rightarrow> nat option \<Rightarrow> handled" where
  "handleSSR seg p st =
     (let c = elem_First (seg_Elem seg 0); code = ToUpper (comp_Get c 0) in
      if code = '''' then (None, p, st)
      else let text1 = TrimSpace (comp_Get c 6);
               text2 = (if text1 = '''' \<and> length (ed_segment.Elements seg) > 1 then TrimSpace (seg_Value seg 1) else text1);
               s = \<lparr>ssr_Code = code, ssr_Carrier = comp_Get c 3, ssr_Status = comp_Get c 1, ssr_Count = pd_atoiOr (comp_Get c 2) 1,
                    ssr_SegmentRef = (case st of Some i \<Rightarrow> sg_Ref (Segments p ! i) | None \<Rightarrow> 0), ssr_PaxRef = 0,
                    ssr_Text = text2, Sensitive = sensitiveSSR code\<rparr>
           in (Some [chg ''add_ssr'' (code @ '' '' @ ssr_Status s)], p\<lparr>SSRs := SSRs p @ [s]\<rparr>, st))"

fun rci_locators :: "apply_options \<Rightarrow> composite list \<Rightarrow> pnr \<Rightarrow> change list \<times> pnr" where
  "rci_locators opts [] p = ([], p)"
| "rci_locators opts (c # cs) p =
     (let loc = comp_Get c 1 in
      if loc = '''' then rci_locators opts cs p
      else let (c1, p1) = applyLocator opts (comp_Get c 0) loc p; (c2, p2) = rci_locators opts cs p1 in (c1 @ c2, p2))"

definition handleRCI :: "apply_options \<Rightarrow> ed_segment \<Rightarrow> pnr \<Rightarrow> nat option \<Rightarrow> handled" where
  "handleRCI opts seg p st =
     (let (chs, p1) = rci_locators opts (concat (ed_segment.Elements seg)) p
      in (if chs \<noteq> [] \<or> ed_segment.Elements seg \<noteq> [] then Some chs else None, p1, st))"

definition handleIFT :: "ed_segment \<Rightarrow> pnr \<Rightarrow> nat option \<Rightarrow> handled" where
  "handleIFT seg p st =
     (let body = TrimSpace (seg_Value seg 1); q = seg_Get seg 0 0 in
      if body = '''' then (None, p, st)
      else if q = ''3'' then
        (Some [chg ''add_contact'' body], p\<lparr>Contacts := Contacts p @ [\<lparr>ct_Type = contactType body, ct_Text = body\<rparr>]\<rparr>, st)
      else if q = ''4'' then (Some [chg ''add_osi'' body], p\<lparr>OSIs := OSIs p @ [('''', body)]\<rparr>, st)
      else (Some [chg ''add_remark'' body], p\<lparr>Remarks := Remarks p @ [body]\<rparr>, st))"

text \<open>The handlers of the default profile.\<close>

definition pd_handler :: "apply_options \<Rightarrow> ed_segment \<Rightarrow> pnr \<Rightarrow> nat option \<Rightarrow> handled" where
  "pd_handler opts seg p st =
     (let t = Tag seg in
      if t = ''MSG'' then handleMSG seg p st
      else if t = ''ORG'' then handleORG seg p st
      else if t = ''TIF'' then handleTIF seg p st
      else if t = ''TVL'' then handleTVL opts seg p st
      else if t = ''RPI'' then handleRPI opts seg p st
      else if t = ''SSR'' then handleSSR seg p st
      else if t = ''RCI'' then handleRCI opts seg p st
      else if t = ''IFT'' then handleIFT seg p st
      else (None, p, st))"

definition message_id_String :: "message_id \<Rightarrow> string" where
  "message_id_String m =
     (let parts = [mi_Version m, mi_Release m, ControllingAgency m] @ (if AssociationCode m \<noteq> '''' then [AssociationCode m] else [])
      in Join (mi_Type m # rtrim_empty parts) '':'')"

fun pd_apply_loop :: "apply_options \<Rightarrow> string \<Rightarrow> ed_segment list \<Rightarrow> pnr \<Rightarrow> nat option \<Rightarrow> change list \<times> pnr" where
  "pd_apply_loop opts mid [] p st = ([], p)"
| "pd_apply_loop opts mid (seg # segs) p st =
     (case pd_handler opts seg p st of
        (Some cs, p1, st1) \<Rightarrow> (let (cs', p2) = pd_apply_loop opts mid segs p1 st1 in (cs @ cs', p2))
      | (None, p1, st1) \<Rightarrow>
          (let (cs', p2) = pd_apply_loop opts mid segs
                 (p1\<lparr>Unparsed := Unparsed p1 @ [(''edifact'', ''segment '' @ Tag seg @ '' in '' @ mid @ '' (profile padis-default)'',
                                                  EncodeTo (DefaultSyntax 3) seg)]\<rparr>) st1
           in (chg ''unparsed'' (''segment '' @ Tag seg @ '' retained verbatim'') # cs', p2)))"

definition pd_Apply :: "apply_options \<Rightarrow> ed_message \<Rightarrow> pnr \<Rightarrow> change list \<times> pnr" where
  "pd_Apply opts m p =
     (let (cs, p') = pd_apply_loop opts (message_id_String (message_ID m)) (m_Segments m) p None in (cs, Recompute p'))"

section \<open>Building\<close>

definition MsgPAOREQ :: string where "MsgPAOREQ = ''PAOREQ''"
definition MsgPAORES :: string where "MsgPAORES = ''PAORES''"
definition FuncCancellation :: string where "FuncCancellation = ''1''"
definition FuncRequest :: string where "FuncRequest = ''11''"
definition FuncResponse :: string where "FuncResponse = ''22''"

text \<open>\<open>bo_Now\<close> is the time the interchange is stamped with: \<open>o.Now\<close>, or the reading of the clock when that is unset.\<close>

record build_options =
  bo_Sender :: party
  bo_Recipient :: party
  bo_ControlRef :: string
  bo_MessageRef :: string
  bo_Now :: time
  bo_SyntaxVersion :: int
  bo_Test :: bool
  bo_Charset :: "ed_charset option"

definition bo_text :: "build_options \<Rightarrow> string \<Rightarrow> string" where
  "bo_text o' s = Sanitise (case bo_Charset o' of None \<Rightarrow> CharsetUNOA | Some c \<Rightarrow> c) s"

definition msgRef :: "build_options \<Rightarrow> string" where
  "msgRef o' = (if bo_MessageRef o' = '''' then ''1'' else bo_MessageRef o')"

definition messageID :: "string \<Rightarrow> message_id" where
  "messageID t = \<lparr>mi_Type = t, mi_Version = ''96'', mi_Release = ''1'', ControllingAgency = ''IA'', AssociationCode = ''''\<rparr>"

definition pd_params :: "string \<Rightarrow> build_options \<Rightarrow> unb_params" where
  "pd_params t o' =
     \<lparr>CharsetID = ''UNOA'', SyntaxVersion = (if bo_SyntaxVersion o' = 0 then 3 else bo_SyntaxVersion o'),
      up_Sender = bo_Sender o', up_Recipient = bo_Recipient o', up_Date = format_060102 (bo_Now o'), up_Time = format_1504 (bo_Now o'),
      up_ControlRef = bo_ControlRef o', AppRef = t, AckRequest = False, up_Test = bo_Test o'\<rparr>"

definition newInterchange :: "string \<Rightarrow> build_options \<Rightarrow> interchange" where
  "newInterchange t o' = NewInterchange (pd_params t o')"

definition MessageFunction :: "ed_message \<Rightarrow> string" where
  "MessageFunction m =
     (case find (\<lambda>seg. seg_Get seg 0 1 \<noteq> '''') (msg_Find m ''MSG'') of Some seg \<Rightarrow> seg_Get seg 0 1 | None \<Rightarrow> '''')"

definition tvlSegment :: "segment \<Rightarrow> ed_segment" where
  "tvlSegment s =
     (let dep = FormatTVLDate (Depart s) in
      if sg_Type s = SegmentSurface
      then Seg ''TVL'' [simple '''', simple (Board s), simple (Off s), simple '''', simple ''ARNK'']
      else Seg ''TVL'' [Comp [dep, DepartTime s, dep, ArriveTime s], simple (Board s), simple (Off s),
                        Comp [Carrier s, OperatingCarrier s], Comp [FlightNum s, Class s]])"

definition tif_type :: "passenger \<Rightarrow> string" where
  "tif_type x = (if px_Type x = '''' then (if Infant x then PaxInfant else PaxAdult) else px_Type x)"

definition tifSegments :: "pnr \<Rightarrow> ed_segment list" where
  "tifSegments p =
     map (\<lambda>sn. Seg ''TIF'' (simple sn # map (\<lambda>x. Comp [Given x @ Title x, tif_type x, itoa_int (px_Ref x)])
                              (filter (\<lambda>x. Surname x = sn) (Passengers p))))
       (rev (remdups (rev (map Surname (Passengers p)))))"

definition ssrSegments :: "pnr \<Rightarrow> string \<Rightarrow> ed_segment list" where
  "ssrSegments p carrier =
     map (\<lambda>s. Seg ''SSR'' [Comp [ssr_Code s, ssr_Status s, itoa_int (ssr_Count s), carrier, '''', '''', ssr_Text s]])
       (filter (\<lambda>s. ssr_Carrier s = '''' \<or> ssr_Carrier s = carrier) (SSRs p))"

definition rpi :: "int \<Rightarrow> string \<Rightarrow> ed_segment" where
  "rpi n code = Seg ''RPI'' [simple (itoa_int n), simple code]"

definition org_segment :: "build_options \<Rightarrow> pnr \<Rightarrow> ed_segment" where
  "org_segment o' p = (case pnr_Origin p of (party, agent, _) \<Rightarrow> Seg ''ORG'' [Comp [bo_text o' party, bo_text o' agent]])"

definition own_rci :: "pnr \<Rightarrow> ed_segment list" where
  "own_rci p = (if RecordLocator p \<noteq> '''' then [Seg ''RCI'' [Comp [fst (pnr_Origin p), RecordLocator p, '''']]] else [])"

definition finish :: "string \<Rightarrow> build_options \<Rightarrow> ed_segment list \<Rightarrow> interchange" where
  "finish t o' body = Finalize (AddMessage (msgRef o') (messageID t) body (newInterchange t o'))"

text \<open>\<open>None\<close> is the error of a record with nothing to say to the carrier.\<close>

definition BuildPAOREQ :: "pnr \<Rightarrow> string \<Rightarrow> build_options \<Rightarrow> interchange option" where
  "BuildPAOREQ p carrier o' =
     (let segs = filter (\<lambda>s. Carrier s = carrier \<and> sg_Type s = SegmentAir) (Segments p) in
      if segs = [] then None
      else Some (finish MsgPAOREQ o'
        ([Seg ''MSG'' [Comp ['''', FuncRequest]], org_segment o' p] @ own_rci p @ tifSegments p
         @ concat (map (\<lambda>s. [tvlSegment s, rpi (Seats s) ''NN'']) segs)
         @ ssrSegments p carrier
         @ map (\<lambda>c. Seg ''IFT'' [Comp [''3'', ''1''], simple (ct_Text c)]) (Contacts p)
         @ map (\<lambda>(c, t). Seg ''IFT'' [Comp [''4'', ''28''], simple t]) (OSIs p))))"

definition paores_rci :: "pnr \<Rightarrow> string \<Rightarrow> string \<Rightarrow> ed_segment list" where
  "paores_rci p locator carrier =
     (let rci = (if locator \<noteq> '''' then [Comp [carrier, locator, '''']] else [])
                @ map (\<lambda>l. Comp [Owner l, lv_Value l, '''']) (filter (\<lambda>l. Owner l \<noteq> carrier \<and> lv_Value l \<noteq> '''') (Locators p))
      in if rci = [] then [] else [Seg ''RCI'' rci])"

definition paores_body :: "pnr \<Rightarrow> string strmap \<Rightarrow> string \<Rightarrow> string \<Rightarrow> ed_segment list" where
  "paores_body p outcomes locator carrier =
     [Seg ''MSG'' [Comp ['''', FuncResponse]]] @ paores_rci p locator carrier @ tifSegments p
     @ concat (map (\<lambda>s. [tvlSegment s, rpi (Seats s) (case map_of outcomes (Key s) of Some c \<Rightarrow> c | None \<Rightarrow> ''NO'')])
                (filter (\<lambda>s. Carrier s = carrier) (Segments p)))
     @ ssrSegments p carrier"

definition BuildPAORES :: "pnr \<Rightarrow> string strmap \<Rightarrow> string \<Rightarrow> string \<Rightarrow> build_options \<Rightarrow> interchange" where
  "BuildPAORES p outcomes locator carrier o' = finish MsgPAORES o' (paores_body p outcomes locator carrier)"

definition pd_BuildCancel :: "pnr \<Rightarrow> string \<Rightarrow> int list \<Rightarrow> build_options \<Rightarrow> interchange option" where
  "pd_BuildCancel p carrier refs o' =
     (let segs = filter (\<lambda>s. Carrier s = carrier \<and> sg_Type s = SegmentAir
                    \<and> (if refs \<noteq> [] then sg_Ref s \<in> set refs else sg_Status s \<noteq> ''XX'')) (Segments p) in
      if segs = [] then None
      else Some (finish MsgPAOREQ o'
        ([Seg ''MSG'' [Comp ['''', FuncCancellation]], org_segment o' p] @ own_rci p
         @ map (\<lambda>l. Seg ''RCI'' [Comp [Owner l, lv_Value l, '''']]) (filter (\<lambda>l. Owner l = carrier \<and> lv_Value l \<noteq> '''') (Locators p))
         @ tifSegments p
         @ concat (map (\<lambda>s. [tvlSegment s, rpi (Seats s) ''XX'']) segs))))"

end
