(* ===== verification/Work_Queue.thy ===== *)
theory Work_Queue
  imports Store_Work Pnr_Date
begin

text \<open>
  Turning what happened into work (\<open>src/pkg/queue/queue.go\<close>, \<open>sweep.go\<close>): the manager that places
  records on queues, the rule from a segment status to a queue, and the sweeper that notices what
  no message announces: a ticketing limit that comes near, a request nobody answered. The external
  publisher is told after a placement is stored and its answer only logged; it is left out. The
  canceller is an argument: what a cancellation makes of the store. The theorems show that a pass
  which does not reach its limit leaves no overdue record unraised and that a repeated pass adds
  nothing, and that a pass which does reach it can overlook the same requests for ever.
\<close>

section \<open>The manager: \<open>queue.go\<close>\<close>

definition QueueConfirmation :: string where "QueueConfirmation = ''confirmation''"
definition QueueUnable :: string where "QueueUnable = ''unable''"
definition QueueWaitlist :: string where "QueueWaitlist = ''waitlist''"
definition QueuePending :: string where "QueuePending = ''pending''"
definition QueueTicketing :: string where "QueueTicketing = ''ticketing''"
definition QueueScheduleChange :: string where "QueueScheduleChange = ''schedule-change''"
definition QueueDivergence :: string where "QueueDivergence = ''divergence''"
definition QueueGeneral :: string where "QueueGeneral = ''general''"

definition new_item :: "string \<Rightarrow> string \<Rightarrow> string \<Rightarrow> string \<Rightarrow> string \<Rightarrow> queue_item" where
  "new_item q pnrID locator code reason =
     \<lparr>qi_ID = '''', Queue = q, qi_PNRID = pnrID, qi_Locator = locator, qi_Code = code, Reason = reason, qi_MessageID = '''',
      qi_SegmentRef = 0, PlacedAt = zero_time, PlacedBy = '''', WorkedAt = None, WorkedBy = '''', Note = ''''\<rparr>"

definition place_defaults :: "time \<Rightarrow> queue_item \<Rightarrow> queue_item" where
  "place_defaults now it =
     (let i1 = (if Queue it = '''' then it\<lparr>Queue := QueueGeneral\<rparr> else it);
          i2 = (if PlacedAt i1 = zero_time then i1\<lparr>PlacedAt := now\<rparr> else i1)
      in if PlacedBy i2 = '''' then i2\<lparr>PlacedBy := ''gateway''\<rparr> else i2)"

definition Place :: "(nat \<Rightarrow> string) \<Rightarrow> time \<Rightarrow> queue_item \<Rightarrow> mem \<Rightarrow> (store_error + bool) \<times> mem" where
  "Place gen now it s =
     (case Enqueue gen now (place_defaults now it) s of
        Inl ErrDuplicate \<Rightarrow> (Inr False, s)
      | Inl e \<Rightarrow> (Inl e, s)
      | Inr (s', _) \<Rightarrow> (Inr True, s'))"

definition Work :: "time \<Rightarrow> string \<Rightarrow> string \<Rightarrow> string \<Rightarrow> mem \<Rightarrow> store_error + mem" where
  "Work now i worker txt s = WorkQueueItem now i worker txt s"

definition segment_item :: "pnr \<Rightarrow> segment option \<Rightarrow> string \<Rightarrow> string \<Rightarrow> string \<Rightarrow> string \<Rightarrow> queue_item" where
  "segment_item rec seg q code reason msgID =
     (new_item q (ID rec) (RecordLocator rec) code reason)\<lparr>qi_MessageID := msgID,
        qi_SegmentRef := (case seg of Some sg \<Rightarrow> sg_Ref sg | None \<Rightarrow> 0)\<rparr>"

definition PlaceForSegment ::
  "(nat \<Rightarrow> string) \<Rightarrow> time \<Rightarrow> pnr \<Rightarrow> segment option \<Rightarrow> string \<Rightarrow> string \<Rightarrow> string \<Rightarrow> string \<Rightarrow> mem \<Rightarrow> (store_error + bool) \<times> mem" where
  "PlaceForSegment gen now rec seg q code reason msgID s = Place gen now (segment_item rec seg q code reason msgID) s"

text \<open>The prose of the code table, \<open>rescode.go\<close>, which reaches the reasons on a queue.\<close>

definition Meanings :: "string strmap" where
  "Meanings =
     [(''NN'', ''need, sell and report''), (''LL'', ''add to waitlist''), (''SS'', ''sold, segment sold from availability''),
      (''DS'', ''need, do not sell if unable''), (''GN'', ''group request, name list to follow''),
      (''PE'', ''priority waitlist request''), (''RQ'', ''requested''), (''KK'', ''confirming''),
      (''KL'', ''confirming from waitlist''), (''UC'', ''unable, flight closed, waitlist closed''),
      (''UN'', ''unable, flight does not operate''), (''US'', ''unable, have waitlisted''), (''UU'', ''unable, have waitlisted''),
      (''NO'', ''no action taken''), (''TK'', ''confirming, advise times changed''), (''TL'', ''waitlisted, advise times changed''),
      (''HK'', ''holding confirmed''), (''HL'', ''holding waitlisted''), (''HN'', ''holding need, requested''),
      (''RR'', ''reconfirmed''), (''PN'', ''pending, request not yet processed''), (''XX'', ''cancel''),
      (''XK'', ''cancel, no action required''), (''HX'', ''have cancelled''), (''SC'', ''schedule change''),
      (''WK'', ''was confirmed, schedule change''), (''WL'', ''was waitlisted, schedule change''),
      (''WN'', ''was need, schedule change''), (''IX'', ''cancelled, if holding''), (''DL'', ''received deletion''),
      (''MM'', ''meet and assist'')]"

definition Meaning :: "string \<Rightarrow> string" where
  "Meaning status = gm_get '''' Meanings (ToUpper status)"

text \<open>The queue, the stable code and the reason; \<open>None\<close> when the status needs no attention.\<close>

definition ForStatus :: "string \<Rightarrow> (string \<times> string \<times> string) option" where
  "ForStatus status =
     (if status = '''' then None
      else case Rescode.Info status of
        None \<Rightarrow> Some (QueueDivergence, ''unknown_status_'' @ status,
                      ''partner used status '' @ status @ '', which is not in the interline vocabulary'')
      | Some i \<Rightarrow>
          if ci_Category i = CatRequest then None
          else if ci_Category i = CatCancel then
            Some (QueueUnable, ''cancelled_'' @ status, ''partner cancelled the segment ('' @ Meaning status @ '')'')
          else if ci_Waitlisted i then Some (QueueWaitlist, ''waitlisted_'' @ status, ''segment waitlisted ('' @ Meaning status @ '')'')
          else if ci_Confirmed i then Some (QueueConfirmation, ''confirmed_'' @ status, ''partner confirmed ('' @ Meaning status @ '')'')
          else if ci_Category i = CatReply then Some (QueueUnable, ''unable_'' @ status, ''partner could not confirm ('' @ Meaning status @ '')'')
          else None)"

section \<open>The sweeper: \<open>sweep.go\<close>\<close>

record sweeper =
  PendingAfter :: int
  TicketingLead :: int
  sw_Limit :: int
  CancelExpired :: "(string \<Rightarrow> string \<Rightarrow> mem \<Rightarrow> mem) option"

definition hour_ns :: int where "hour_ns = 3600 * 1000000000"

definition pendingAfter :: "sweeper \<Rightarrow> int" where
  "pendingAfter sw = (if PendingAfter sw > 0 then PendingAfter sw else 6 * hour_ns)"

definition ticketingLead :: "sweeper \<Rightarrow> int" where
  "ticketingLead sw = (if TicketingLead sw > 0 then TicketingLead sw else 24 * hour_ns)"

definition sw_limit :: "sweeper \<Rightarrow> int" where
  "sw_limit sw = (if sw_Limit sw > 0 then sw_Limit sw else 500)"

definition awaitingReply :: "string \<Rightarrow> bool" where
  "awaitingReply status =
     (case Rescode.Info status of
        None \<Rightarrow> False
      | Some i \<Rightarrow>
          (case ci_Category i of
             CatRequest \<Rightarrow> \<not> ci_Confirmed i
           | CatHolding \<Rightarrow> \<not> ci_Confirmed i \<and> \<not> ci_Waitlisted i
           | _ \<Rightarrow> False))"

text \<open>\<open>time.RFC3339\<close> in UTC.\<close>

definition pad4 :: "nat \<Rightarrow> string" where
  "pad4 n = replicate (4 - length (Itoa n)) CHR ''0'' @ Itoa n"

definition RFC3339 :: "time \<Rightarrow> string" where
  "RFC3339 t =
     (let secs = nat ((t mod day_ns) div 1000000000) in
      pad4 (nat (Year t)) @ ''-'' @ pad2 (Month t) @ ''-'' @ pad2 (nat (MDay t)) @ ''T''
      @ pad2 (secs div 3600) @ '':'' @ pad2 (secs div 60 mod 60) @ '':'' @ pad2 (secs mod 60) @ ''Z'')"

definition deadline_item :: "pnr \<Rightarrow> string \<Rightarrow> string \<Rightarrow> queue_item" where
  "deadline_item rec code reason = (new_item QueueTicketing (ID rec) (RecordLocator rec) code reason)\<lparr>PlacedBy := ''sweeper''\<rparr>"

text \<open>Whether the pass over a record ends here, the placements so far or the error, and the store.\<close>

fun sweep_deadlines ::
  "sweeper \<Rightarrow> (nat \<Rightarrow> string) \<Rightarrow> time \<Rightarrow> pnr \<Rightarrow> bool \<Rightarrow> ticketing list \<Rightarrow> nat \<Rightarrow> mem \<Rightarrow> bool \<times> (store_error + nat) \<times> mem" where
  "sweep_deadlines sw gen now rec ticketed [] placed s = (False, Inr placed, s)"
| "sweep_deadlines sw gen now rec ticketed (tk # tks) placed s =
     (case Deadline tk of
        None \<Rightarrow> sweep_deadlines sw gen now rec ticketed tks placed s
      | Some d \<Rightarrow>
          if ticketed \<or> \<not> now > d \<and> \<not> d - now \<le> ticketingLead sw then sweep_deadlines sw gen now rec ticketed tks placed s
          else
            let expired = now > d;
                it = (if expired then deadline_item rec ''tktl_expired'' (''ticketing time limit passed at '' @ RFC3339 d)
                      else deadline_item rec ''tktl_near'' (''ticketing time limit at '' @ RFC3339 d))
            in case Place gen now it s of
                 (Inl e, s1) \<Rightarrow> (True, Inl e, s1)
               | (Inr ok, s1) \<Rightarrow>
                   let placed1 = (if ok then Suc placed else placed) in
                   (case CancelExpired sw of
                      Some cancel \<Rightarrow>
                        if expired
                        then (True, Inr placed1, cancel (RecordLocator rec) (''ticketing time limit passed at '' @ RFC3339 d) s1)
                        else sweep_deadlines sw gen now rec ticketed tks placed1 s1
                    | None \<Rightarrow> sweep_deadlines sw gen now rec ticketed tks placed1 s1))"

definition stalled_item :: "pnr \<Rightarrow> segment \<Rightarrow> queue_item" where
  "stalled_item rec seg =
     segment_item rec (Some seg) QueuePending (''unanswered_'' @ sg_Status seg)
       (''segment '' @ itoa_int (sg_Ref seg) @ '' has sat at '' @ sg_Status seg @ '' since '' @ RFC3339 (UpdatedAt rec) @ '' with no reply'') ''''"

fun sweep_segments :: "(nat \<Rightarrow> string) \<Rightarrow> time \<Rightarrow> pnr \<Rightarrow> segment list \<Rightarrow> nat \<Rightarrow> mem \<Rightarrow> (store_error + nat) \<times> mem" where
  "sweep_segments gen now rec [] placed s = (Inr placed, s)"
| "sweep_segments gen now rec (seg # segs) placed s =
     (if \<not> awaitingReply (sg_Status seg) then sweep_segments gen now rec segs placed s
      else case Place gen now (stalled_item rec seg) s of
             (Inl e, s1) \<Rightarrow> (Inl e, s1)
           | (Inr ok, s1) \<Rightarrow> sweep_segments gen now rec segs (if ok then Suc placed else placed) s1)"

definition sweepRecord :: "sweeper \<Rightarrow> (nat \<Rightarrow> string) \<Rightarrow> time \<Rightarrow> pnr \<Rightarrow> mem \<Rightarrow> (store_error + nat) \<times> mem" where
  "sweepRecord sw gen now rec s =
     (case sweep_deadlines sw gen now rec (Ticketed rec) (Ticketing rec) 0 s of
        (True, r, s1) \<Rightarrow> (r, s1)
      | (False, Inl e, s1) \<Rightarrow> (Inl e, s1)
      | (False, Inr placed, s1) \<Rightarrow>
          if now - UpdatedAt rec \<ge> pendingAfter sw then sweep_segments gen now rec (Segments rec) placed s1 else (Inr placed, s1))"

fun sweep_loop :: "sweeper \<Rightarrow> (nat \<Rightarrow> string) \<Rightarrow> time \<Rightarrow> pnr list \<Rightarrow> string list \<Rightarrow> nat \<Rightarrow> mem \<Rightarrow> nat \<times> mem" where
  "sweep_loop sw gen now [] seen placed s = (placed, s)"
| "sweep_loop sw gen now (rec # recs) seen placed s =
     (if ID rec \<in> set seen then sweep_loop sw gen now recs seen placed s
      else case sweepRecord sw gen now rec s of
             (Inl e, s1) \<Rightarrow> sweep_loop sw gen now recs (ID rec # seen) placed s1
           | (Inr n, s1) \<Rightarrow> sweep_loop sw gen now recs (ID rec # seen) (placed + n) s1)"

definition Sweep :: "sweeper \<Rightarrow> (nat \<Rightarrow> string) \<Rightarrow> time \<Rightarrow> mem \<Rightarrow> nat \<times> mem" where
  "Sweep sw gen now s =
     (let stale = FindPNRsStale s (now - pendingAfter sw) (sw_limit sw);
          due = FindPNRsDueBy s (now + ticketingLead sw) (sw_limit sw)
      in sweep_loop sw gen now (due @ stale) [] 0 s)"

section \<open>Placing only adds\<close>

text \<open>A reason that is on its queue, by the index the store keeps of what is pending.\<close>

definition raised :: "mem \<Rightarrow> queue_item \<Rightarrow> bool" where
  "raised s it \<longleftrightarrow> map_of (queuePending s) (item_key it) \<noteq> None"

definition grows :: "mem \<Rightarrow> mem \<Rightarrow> bool" where
  "grows s s' \<longleftrightarrow> pnrs s' = pnrs s \<and> (\<forall>k. map_of (queuePending s) k \<noteq> None \<longrightarrow> map_of (queuePending s') k \<noteq> None)"

lemma grows_refl [simp, intro]: "grows s s"
  by (simp add: grows_def)

lemma grows_trans [trans]: "grows s t \<Longrightarrow> grows t u \<Longrightarrow> grows s u"
  by (simp add: grows_def)

lemma grows_raised: "grows s t \<Longrightarrow> raised s it \<Longrightarrow> raised t it"
  by (simp add: grows_def raised_def)

lemma item_key_defaults: "Queue it \<noteq> '''' \<Longrightarrow> item_key (place_defaults now it) = item_key it"
  by (simp add: place_defaults_def item_key_def Let_def)

text \<open>Identifiers still to be drawn name nothing on a queue.\<close>

definition ids_fresh :: "(nat \<Rightarrow> string) \<Rightarrow> mem \<Rightarrow> bool" where
  "ids_fresh gen s \<longleftrightarrow> mem_wf s \<and> inj gen \<and> (\<forall>n \<ge> drawn s. map_of (queue s) (gen n) = None)"

lemma Enqueue_fresh:
  assumes "ids_fresh gen s" "Enqueue gen now it s = Inr (s', it')" "qi_ID it = ''''" "Pending it"
  shows "ids_fresh gen s'"
proof -
  have s': "qi_ID it' = gen (drawn s)" "drawn s' = Suc (drawn s)" "queue s' = gm_put (gen (drawn s)) it' (queue s)"
    using assms(2,3) by (auto simp: Enqueue_eq with_item_id_def Let_def split: if_splits)
  have "mem_wf s'" using assms by (intro Enqueue_wf [OF _ assms(2)]) (auto simp: ids_fresh_def s')
  moreover have "map_of (queue s') (gen n) = None" if "drawn s' \<le> n" for n
    using assms(1) that s' by (auto simp: ids_fresh_def dest: injD)
  ultimately show ?thesis using assms(1) by (simp add: ids_fresh_def)
qed

lemma defaults_frame [simp]: "qi_ID (place_defaults now it) = qi_ID it" "Pending (place_defaults now it) = Pending it"
  by (simp_all add: place_defaults_def Pending_def Let_def)

definition fresh_item :: "queue_item \<Rightarrow> bool" where
  "fresh_item it \<longleftrightarrow> Queue it \<noteq> '''' \<and> qi_ID it = '''' \<and> Pending it"

lemma Place_spec:
  assumes "fresh_item it"
  shows "\<exists>s'. Place gen now it s = (Inr (\<not> raised s it), s') \<and> grows s s' \<and> raised s' it \<and> (raised s it \<longrightarrow> s' = s)
           \<and> (ids_fresh gen s \<longrightarrow> ids_fresh gen s')"
proof (cases "Enqueue gen now (place_defaults now it) s")
  case (Inl e)
  then have "raised s it" "e = ErrDuplicate" using assms
    by (auto simp: Enqueue_eq item_key_defaults raised_def fresh_item_def Let_def split: if_splits)
  then show ?thesis using Inl by (simp add: Place_def)
next
  case (Inr r)
  obtain s' it' where r: "r = (s', it')" by (cases r)
  have "\<not> raised s it" "grows s s'" "raised s' it"
    using Inr r assms
    by (auto simp: Enqueue_eq item_key_defaults raised_def grows_def with_item_id_def fresh_item_def Let_def split: if_splits)
  moreover have "ids_fresh gen s'" if "ids_fresh gen s"
    using Enqueue_fresh [OF that, of now "place_defaults now it" s' it'] Inr r assms by (simp add: fresh_item_def)
  ultimately show ?thesis using Inr r by (simp add: Place_def)
qed

section \<open>A pass is a list of placements\<close>

fun place_all :: "(nat \<Rightarrow> string) \<Rightarrow> time \<Rightarrow> queue_item list \<Rightarrow> nat \<Rightarrow> mem \<Rightarrow> nat \<times> mem" where
  "place_all gen now [] placed s = (placed, s)"
| "place_all gen now (it # its) placed s =
     (let (r, s1) = Place gen now it s in place_all gen now its (if r = Inr True then Suc placed else placed) s1)"

lemma place_all_append:
  "place_all gen now (xs @ ys) n s = (let (m, s1) = place_all gen now xs n s in place_all gen now ys m s1)"
  by (induction xs arbitrary: n s) (simp_all add: case_prod_beta Let_def)

lemma place_all_count: "place_all gen now its (k + n) s = (k + fst (place_all gen now its n s), snd (place_all gen now its n s))"
proof (induction its arbitrary: n s)
  case (Cons it its)
  then show ?case using Cons [of "Suc n"] by (simp add: case_prod_beta Let_def)
qed simp

lemma place_all_spec:
  "list_all fresh_item its \<Longrightarrow>
     \<exists>n s'. place_all gen now its placed s = (n, s') \<and> grows s s' \<and> list_all (raised s') its
       \<and> (ids_fresh gen s \<longrightarrow> ids_fresh gen s') \<and> (list_all (raised s) its \<longrightarrow> n = placed \<and> s' = s)"
proof (induction its arbitrary: placed s)
  case (Cons it its)
  then have "fresh_item it" by simp
  from Place_spec [OF this, of gen now s] obtain s1 where
    s1: "Place gen now it s = (Inr (\<not> raised s it), s1)" "grows s s1" "raised s1 it" "raised s it \<longrightarrow> s1 = s"
      "ids_fresh gen s \<longrightarrow> ids_fresh gen s1" by blast
  from Cons.prems have "list_all fresh_item its" by simp
  note that_rest = Cons.IH [OF this, of "if \<not> raised s it then Suc placed else placed" s1]
  then obtain n s' where
    s': "place_all gen now its (if \<not> raised s it then Suc placed else placed) s1 = (n, s')" "grows s1 s'"
      "list_all (raised s') its" "ids_fresh gen s1 \<longrightarrow> ids_fresh gen s'"
      "list_all (raised s1) its \<longrightarrow> n = (if \<not> raised s it then Suc placed else placed) \<and> s' = s1"
    using that_rest by blast
  have "list_all (raised s) (it # its) \<longrightarrow> n = placed \<and> s' = s" using s1(4) s'(5) by auto
  then show ?case using s1 s' grows_trans [OF s1(2) s'(2)] grows_raised [OF s'(2) s1(3)] by simp
qed simp

text \<open>What a record is owed at a time: the items a pass over it places, when nothing is cancelled.\<close>

definition deadline_due :: "sweeper \<Rightarrow> time \<Rightarrow> pnr \<Rightarrow> ticketing \<Rightarrow> queue_item option" where
  "deadline_due sw now rec tk =
     (case Deadline tk of
        None \<Rightarrow> None
      | Some d \<Rightarrow>
          if Ticketed rec then None
          else if now > d then Some (deadline_item rec ''tktl_expired'' (''ticketing time limit passed at '' @ RFC3339 d))
          else if d - now \<le> ticketingLead sw then Some (deadline_item rec ''tktl_near'' (''ticketing time limit at '' @ RFC3339 d))
          else None)"

definition deadline_items :: "sweeper \<Rightarrow> time \<Rightarrow> pnr \<Rightarrow> ticketing list \<Rightarrow> queue_item list" where
  "deadline_items sw now rec tks = List.map_filter (deadline_due sw now rec) tks"

definition record_items :: "sweeper \<Rightarrow> time \<Rightarrow> pnr \<Rightarrow> queue_item list" where
  "record_items sw now rec =
     deadline_items sw now rec (Ticketing rec)
     @ (if now - UpdatedAt rec \<ge> pendingAfter sw
        then map (stalled_item rec) (filter (\<lambda>seg. awaitingReply (sg_Status seg)) (Segments rec)) else [])"

lemma items_fresh [simp]: "fresh_item (deadline_item rec c r)" "fresh_item (stalled_item rec seg)"
  by (simp_all add: fresh_item_def deadline_item_def stalled_item_def segment_item_def new_item_def Pending_def
      QueueTicketing_def QueuePending_def)

lemma sweep_segments_items:
  "sweep_segments gen now rec segs n s =
     (let (m, s') = place_all gen now (map (stalled_item rec) (filter (\<lambda>seg. awaitingReply (sg_Status seg)) segs)) n s in (Inr m, s'))"
proof (induction segs arbitrary: n s)
  case (Cons seg segs)
  obtain s1 where "Place gen now (stalled_item rec seg) s = (Inr (\<not> raised s (stalled_item rec seg)), s1)"
    using Place_spec [OF items_fresh(2)] by blast
  then show ?case using Cons by (simp add: Let_def)
qed simp

lemma Place_never_fails: "fresh_item it \<Longrightarrow> \<exists>b s1. Place gen now it s = (Inr b, s1)"
  using Place_spec by blast

lemma sweep_deadlines_step:
  assumes "CancelExpired sw = None"
  shows "sweep_deadlines sw gen now rec (Ticketed rec) (tk # tks) n s =
     (case deadline_due sw now rec tk of
        None \<Rightarrow> sweep_deadlines sw gen now rec (Ticketed rec) tks n s
      | Some it \<Rightarrow>
          let (r, s1) = Place gen now it s
          in sweep_deadlines sw gen now rec (Ticketed rec) tks (if r = Inr True then Suc n else n) s1)"
proof (cases "deadline_due sw now rec tk")
  case None
  then show ?thesis by (auto simp: deadline_due_def split: option.splits if_splits)
next
  case (Some it)
  then have "fresh_item it" by (auto simp: deadline_due_def split: option.splits if_splits)
  then obtain b s1 where pl: "Place gen now it s = (Inr b, s1)" using Place_never_fails by blast
  with Some assms show ?thesis by (auto simp: deadline_due_def Let_def split: option.splits if_splits)
qed

lemma sweep_deadlines_items:
  assumes "CancelExpired sw = None"
  shows "sweep_deadlines sw gen now rec (Ticketed rec) tks n s =
     (let (m, s') = place_all gen now (deadline_items sw now rec tks) n s in (False, Inr m, s'))"
proof (induction tks arbitrary: n s)
  case Nil
  show ?case by (simp add: deadline_items_def map_filter_simps)
next
  case (Cons tk tks)
  show ?case
    unfolding sweep_deadlines_step [OF assms]
    by (cases "deadline_due sw now rec tk") (simp_all add: Cons deadline_items_def map_filter_simps Let_def case_prod_beta)
qed

lemma sweepRecord_items:
  assumes "CancelExpired sw = None"
  shows "sweepRecord sw gen now rec s = (let (m, s') = place_all gen now (record_items sw now rec) 0 s in (Inr m, s'))"
  unfolding sweepRecord_def record_items_def
  by (simp add: sweep_deadlines_items [OF assms] sweep_segments_items place_all_append Let_def split: prod.splits)

fun first_of :: "string list \<Rightarrow> pnr list \<Rightarrow> pnr list" where
  "first_of seen [] = []"
| "first_of seen (p # ps) = (if ID p \<in> set seen then first_of seen ps else p # first_of (ID p # seen) ps)"

lemma sweep_loop_items:
  assumes "CancelExpired sw = None"
  shows "sweep_loop sw gen now recs seen n s = place_all gen now (concat (map (record_items sw now) (first_of seen recs))) n s"
proof (induction recs arbitrary: seen n s)
  case (Cons p ps)
  show ?case
    using place_all_count [of gen now "record_items sw now p" n 0 s]
    by (auto simp: Cons sweepRecord_items [OF assms] place_all_append Let_def split: prod.splits)
qed simp

definition stale_now :: "sweeper \<Rightarrow> time \<Rightarrow> pnr \<Rightarrow> bool" where
  "stale_now sw now p \<longleftrightarrow> pnr_Status p \<noteq> StatusCancelled \<and> UpdatedAt p < now - pendingAfter sw"

definition swept :: "sweeper \<Rightarrow> time \<Rightarrow> mem \<Rightarrow> pnr list" where
  "swept sw now s = first_of [] (FindPNRsDueBy s (now + ticketingLead sw) (sw_limit sw) @ FindPNRsStale s (now - pendingAfter sw) (sw_limit sw))"

lemma Sweep_items:
  "CancelExpired sw = None \<Longrightarrow> Sweep sw gen now s = place_all gen now (concat (map (record_items sw now) (swept sw now s))) 0 s"
  by (simp add: Sweep_def swept_def sweep_loop_items Let_def)

lemma swept_cong: "pnrs s' = pnrs s \<Longrightarrow> swept sw now s' = swept sw now s"
  by (simp add: swept_def FindPNRsDueBy_def FindPNRsStale_def)

lemma deadline_due_fresh: "deadline_due sw now p tk = Some it \<Longrightarrow> fresh_item it"
  by (auto simp: deadline_due_def split: option.splits if_splits)

lemma record_items_fresh: "list_all fresh_item (concat (map (record_items sw now) ps))"
proof -
  have "fresh_item it" if "it \<in> set (record_items sw now p)" for it p
    using that by (auto simp: record_items_def deadline_items_def map_filter_def deadline_due_fresh split: if_splits)
  then show ?thesis by (auto simp: list_all_iff)
qed

lemma first_of_covers:
  "p \<in> set ps \<Longrightarrow> ID p \<notin> set seen \<Longrightarrow> \<forall>q \<in> set ps. ID q = ID p \<longrightarrow> q = p \<Longrightarrow> p \<in> set (first_of seen ps)"
  by (induction ps arbitrary: seen) auto

lemma sw_limit_pos: "0 < sw_limit sw"
  by (simp add: sw_limit_def)

lemma stale_found:
  assumes "p \<in> snd ` set (pnrs s)" "stale_now sw now p"
    and "int (length (filter (stale_now sw now) (map snd (pnrs s)))) \<le> sw_limit sw"
  shows "p \<in> set (FindPNRsStale s (now - pendingAfter sw) (sw_limit sw))"
proof -
  have eq: "filter (\<lambda>p. \<not> (pnr_Status p = StatusCancelled \<or> \<not> UpdatedAt p < now - pendingAfter sw)) (map snd (pnrs s))
      = filter (stale_now sw now) (map snd (pnrs s))"
    by (rule filter_cong) (auto simp: stale_now_def)
  have "length (filter (stale_now sw now) (map snd (pnrs s))) \<le> nat (sw_limit sw)" using assms(3) by linarith
  then show ?thesis using assms(1,2) sw_limit_pos [of sw]
    unfolding FindPNRsStale_def Let_def eq by simp
qed

lemma due_list_mem: "p \<in> fst ` set (due_list dl ps) \<longleftrightarrow> p \<in> set ps \<and> (\<exists>d. NextDeadline p = Some d \<and> d < dl)"
  by (induction ps) (auto split: option.splits)

lemma due_found:
  assumes "p \<in> snd ` set (pnrs s)" "pnr_Status p \<noteq> StatusCancelled" "\<not> Ticketed p"
    and "tk \<in> set (Ticketing p)" "Deadline tk = Some d" "d < now + ticketingLead sw"
    and "int (length (due_list (now + ticketingLead sw) (map snd (pnrs s)))) \<le> sw_limit sw"
  shows "p \<in> set (FindPNRsDueBy s (now + ticketingLead sw) (sw_limit sw))"
proof -
  let ?D = "{d. Some d \<in> Deadline ` set (Ticketing p)}"
  have d: "d \<in> ?D" using assms(4,5) by (auto simp: image_iff intro!: bexI [of _ tk])
  moreover have "finite ?D" by (rule finite_deadlines)
  ultimately have "NextDeadline p = Some (Min ?D)" "Min ?D \<le> d"
    using assms(2,3) by (auto simp: NextDeadline_def soonest_loop_set Let_def)
  then have "p \<in> fst ` set (due_list (now + ticketingLead sw) (map snd (pnrs s)))"
    using assms(1,6) by (auto simp: due_list_mem)
  moreover have "length (due_list (now + ticketingLead sw) (map snd (pnrs s))) \<le> nat (sw_limit sw)" using assms(7) by linarith
  ultimately show ?thesis using sw_limit_pos [of sw] by (simp add: FindPNRsDueBy_def Let_def image_image)
qed

lemma found_stored:
  assumes "p \<in> set (FindPNRsDueBy s dl lim) \<or> p \<in> set (FindPNRsStale s before lim')"
  shows "p \<in> snd ` set (pnrs s)"
  using assms
proof
  assume "p \<in> set (FindPNRsDueBy s dl lim)"
  from in_set_takeD [OF this [unfolded FindPNRsDueBy_def Let_def]]
  have "p \<in> fst ` set (due_list dl (map snd (pnrs s)))" by simp
  then show ?thesis by (simp add: due_list_mem)
next
  assume "p \<in> set (FindPNRsStale s before lim')"
  from in_set_takeD [OF this [unfolded FindPNRsStale_def Let_def]] show ?thesis by auto
qed

lemma swept_covers:
  assumes "mem_wf s" "p \<in> snd ` set (pnrs s)"
    and "p \<in> set (FindPNRsDueBy s (now + ticketingLead sw) (sw_limit sw)) \<or> p \<in> set (FindPNRsStale s (now - pendingAfter sw) (sw_limit sw))"
  shows "p \<in> set (swept sw now s)"
proof -
  have w: "rec_wf s" using assms(1) by (simp add: mem_wf_def)
  have uniq: "q = p" if "q \<in> snd ` set (pnrs s)" "ID q = ID p" for q
    using that assms(2) gm_wf_in_set [OF rec_wfD(1) [OF w]] rec_wfD(2) [OF w] by fastforce
  show ?thesis
    unfolding swept_def
  proof (rule first_of_covers)
    show "\<forall>q \<in> set (FindPNRsDueBy s (now + ticketingLead sw) (sw_limit sw) @ FindPNRsStale s (now - pendingAfter sw) (sw_limit sw)). ID q = ID p \<longrightarrow> q = p"
      using found_stored uniq by (metis set_append Un_iff)
  qed (use assms(3) in auto)
qed

section \<open>What a pass guarantees\<close>

definition on_queue :: "mem \<Rightarrow> string \<Rightarrow> string \<Rightarrow> string \<Rightarrow> int \<Rightarrow> bool" where
  "on_queue s q pnrID code ref \<longleftrightarrow> (\<exists>x \<in> snd ` set (queue s). Pending x \<and> item_key x = pendingKey q pnrID code ref)"

lemma raised_on_queue:
  assumes "mem_wf s" "raised s it"
  shows "on_queue s (Queue it) (qi_PNRID it) (qi_Code it) (qi_SegmentRef it)"
proof -
  have w: "queue_wf s" using assms(1) by (simp add: mem_wf_def)
  from assms(2) obtain i where "map_of (queuePending s) (item_key it) = Some i" by (auto simp: raised_def)
  then obtain x where "map_of (queue s) i = Some x" "Pending x" "item_key x = item_key it" using queue_wfD(6) [OF w] by blast
  then show ?thesis
    unfolding on_queue_def using map_of_SomeD [of "queue s" i x] by (intro bexI [of _ x]) (auto simp: item_key_def intro: rev_image_eqI)
qed

text \<open>
  C23: nothing overdue is forgotten. After a pass of the sweeper that is within its limit, every live
  record left untouched past the agreed time has, for each of its segments still waiting on a
  partner, a pending item on the pending queue, and every unticketed live record whose ticketing
  limit has passed or falls within the lead has one on the ticketing queue. The pass changes no
  record, and repeating it at once places nothing.
\<close>

theorem sweep_raises_overdue:
  assumes "mem_reachable gen s" "inj gen" "\<forall>n \<ge> drawn s. map_of (queue s) (gen n) = None" "CancelExpired sw = None"
    and "int (length (filter (stale_now sw now) (map snd (pnrs s)))) \<le> sw_limit sw"
    and "int (length (due_list (now + ticketingLead sw) (map snd (pnrs s)))) \<le> sw_limit sw"
    and "Sweep sw gen now s = (n, s')"
  shows "(\<forall>p \<in> snd ` set (pnrs s). pnr_Status p \<noteq> StatusCancelled \<longrightarrow>
            (UpdatedAt p < now - pendingAfter sw \<longrightarrow> (\<forall>seg \<in> set (Segments p). awaitingReply (sg_Status seg) \<longrightarrow>
               on_queue s' QueuePending (ID p) (''unanswered_'' @ sg_Status seg) (sg_Ref seg)))
          \<and> (\<not> Ticketed p \<longrightarrow> (\<forall>tk \<in> set (Ticketing p). \<forall>d. Deadline tk = Some d \<longrightarrow> d < now + ticketingLead sw \<longrightarrow>
               on_queue s' QueueTicketing (ID p) (if d < now then ''tktl_expired'' else ''tktl_near'') 0)))
       \<and> pnrs s' = pnrs s \<and> Sweep sw gen now s' = (0, s')"
proof -
  let ?its = "concat (map (record_items sw now) (swept sw now s))"
  have wf: "mem_wf s" by (rule reachable_wf [OF assms(1)])
  then have "ids_fresh gen s" using assms(2,3) by (simp add: ids_fresh_def)
  then obtain g: "grows s s'" and r: "list_all (raised s') ?its" and f: "ids_fresh gen s'"
    using place_all_spec [OF record_items_fresh, of gen now sw now "swept sw now s" 0 s] assms(7)
    by (auto simp: Sweep_items [OF assms(4)])
  have wf': "mem_wf s'" using f by (simp add: ids_fresh_def)
  have up: "raised s' it" if "p \<in> set (swept sw now s)" "it \<in> set (record_items sw now p)" for p it
    using r that by (auto simp: list_all_iff)
  show ?thesis
  proof (intro conjI ballI impI allI)
    show "pnrs s' = pnrs s" using g by (simp add: grows_def)
    then show "Sweep sw gen now s' = (0, s')"
      using place_all_spec [OF record_items_fresh, of gen now sw now "swept sw now s" 0 s'] r
      by (auto simp: Sweep_items [OF assms(4)] swept_cong [of s' s])
  next
    fix p seg
    assume p: "p \<in> snd ` set (pnrs s)" "pnr_Status p \<noteq> StatusCancelled" "UpdatedAt p < now - pendingAfter sw"
      and seg: "seg \<in> set (Segments p)" "awaitingReply (sg_Status seg)"
    have "p \<in> set (swept sw now s)"
      using swept_covers [OF wf p(1)] stale_found [OF p(1) _ assms(5)] p(2,3) by (simp add: stale_now_def)
    moreover have "stalled_item p seg \<in> set (record_items sw now p)" using seg p(3) by (simp add: record_items_def)
    ultimately have "on_queue s' (Queue (stalled_item p seg)) (qi_PNRID (stalled_item p seg)) (qi_Code (stalled_item p seg)) (qi_SegmentRef (stalled_item p seg))"
      by (intro raised_on_queue [OF wf'] up)
    then show "on_queue s' QueuePending (ID p) (''unanswered_'' @ sg_Status seg) (sg_Ref seg)"
      by (simp add: stalled_item_def segment_item_def new_item_def)
  next
    fix p tk d
    assume p: "p \<in> snd ` set (pnrs s)" "pnr_Status p \<noteq> StatusCancelled" "\<not> Ticketed p"
      and tk: "tk \<in> set (Ticketing p)" "Deadline tk = Some d" "d < now + ticketingLead sw"
    have sw: "p \<in> set (swept sw now s)" using swept_covers [OF wf p(1)] due_found [OF p tk assms(6)] by blast
    obtain it where it: "deadline_due sw now p tk = Some it" "Queue it = QueueTicketing" "qi_PNRID it = ID p" "qi_SegmentRef it = 0"
      "qi_Code it = (if d < now then ''tktl_expired'' else ''tktl_near'')"
      using p(3) tk(2,3) by (cases "d < now") (simp_all add: deadline_due_def deadline_item_def new_item_def)
    then have "it \<in> set (record_items sw now p)"
      using tk(1) by (force simp: record_items_def deadline_items_def map_filter_def)
    from raised_on_queue [OF wf' up [OF sw this]] it
    show "on_queue s' QueueTicketing (ID p) (if d < now then ''tktl_expired'' else ''tktl_near'') 0" by simp
  qed
qed

section \<open>What the limit hides\<close>

lemma sorted_take_below:
  assumes "sorted (map f xs)" "n \<le> length (filter (\<lambda>x. f x < (b :: 'b :: linorder)) xs)" "x \<in> set (take n xs)"
  shows "f x < b"
  using assms
proof (induction xs arbitrary: n)
  case (Cons y ys)
  show ?case
  proof (cases "f y < b")
    case True
    with Cons show ?thesis by (cases n) auto
  next
    case False
    then have "filter (\<lambda>x. f x < b) (y # ys) = []" using Cons.prems(1) by (auto simp: filter_empty_conv)
    then show ?thesis using Cons.prems(2,3) by simp
  qed
qed simp

text \<open>
  C38: a pass at its limit can overlook the same requests for ever. The sweeper reads the records
  untouched for longest, and a booking that is settled is never touched. Once as many settled live
  bookings as the limit are older than every request still waiting on a partner, a pass raises
  nothing and changes nothing, at this and at every later time, however long those requests have
  been waiting.
\<close>

theorem sweep_starves_requests:
  assumes "CancelExpired sw = None" "\<forall>p \<in> snd ` set (pnrs s). \<forall>tk \<in> set (Ticketing p). Deadline tk = None"
    and "sw_limit sw \<le> int (length (filter (\<lambda>p. pnr_Status p \<noteq> StatusCancelled \<and> UpdatedAt p < b) (map snd (pnrs s))))"
    and "\<forall>p \<in> snd ` set (pnrs s). UpdatedAt p < b \<longrightarrow> \<not> list_ex (\<lambda>seg. awaitingReply (sg_Status seg)) (Segments p)"
    and "b \<le> now - pendingAfter sw"
  shows "Sweep sw gen now s = (0, s)"
proof -
  let ?recs = "map snd (pnrs s)"
  have "NextDeadline p = None" if "p \<in> set ?recs" for p
    using assms(2) that by (auto simp: NextDeadline_def soonest_loop_set Let_def)
  then have "due_list dl ps = []" if "set ps \<subseteq> set ?recs" for dl ps using that by (induction ps) auto
  then have due: "FindPNRsDueBy s dl l = []" for dl l by (simp add: FindPNRsDueBy_def)
  define xs where "xs = sort_key UpdatedAt
      (filter (\<lambda>p. \<not> (pnr_Status p = StatusCancelled \<or> \<not> UpdatedAt p < now - pendingAfter sw)) ?recs)"
  have st: "FindPNRsStale s (now - pendingAfter sw) (sw_limit sw) = take (nat (sw_limit sw)) xs"
    using sw_limit_pos [of sw] by (simp add: FindPNRsStale_def xs_def)
  have "filter (\<lambda>p. UpdatedAt p < b) xs = sort_key UpdatedAt (filter (\<lambda>p. pnr_Status p \<noteq> StatusCancelled \<and> UpdatedAt p < b) ?recs)"
    using assms(5) unfolding xs_def filter_sort filter_filter by (intro arg_cong [of _ _ "sort_key UpdatedAt"] filter_cong) auto
  then have "nat (sw_limit sw) \<le> length (filter (\<lambda>p. UpdatedAt p < b) xs)" using assms(3) by (simp add: nat_le_iff)
  note enough = this
  have "sorted (map UpdatedAt xs)" by (simp add: xs_def)
  from sorted_take_below [OF this enough] have old: "UpdatedAt p < b" if "p \<in> set (take (nat (sw_limit sw)) xs)" for p
    using that by blast
  have "record_items sw now p = []" if "p \<in> set (swept sw now s)" for p
  proof -
    have f: "p \<in> set (first_of seen ps) \<Longrightarrow> p \<in> set ps" for seen ps by (induction ps arbitrary: seen) (auto split: if_splits)
    have p: "p \<in> set (FindPNRsStale s (now - pendingAfter sw) (sw_limit sw))" using that f by (auto simp: swept_def due)
    then have "p \<in> snd ` set (pnrs s)" using found_stored by blast
    moreover have "UpdatedAt p < b" using p st old by simp
    ultimately have "filter (\<lambda>seg. awaitingReply (sg_Status seg)) (Segments p) = []" "\<forall>tk \<in> set (Ticketing p). Deadline tk = None"
      using assms(2,4) by (auto simp: filter_empty_conv list_ex_iff)
    then show ?thesis by (auto simp: record_items_def deadline_items_def deadline_due_def map_filter_def)
  qed
  then have "concat (map (record_items sw now) (swept sw now s)) = []" by simp
  then show ?thesis by (simp only: Sweep_items [OF assms(1)] place_all.simps)
qed

section \<open>Examples\<close>

definition booking :: "string \<Rightarrow> time \<Rightarrow> string \<Rightarrow> pnr" where
  "booking i t st = zero_pnr\<lparr>ID := i, RecordLocator := i, pnr_Version := 1, UpdatedAt := t, pnr_Status := StatusOpen,
     Segments := [\<lparr>sg_Ref = 1, sg_Type = SegmentAir, Carrier = ''BA'', OperatingCarrier = '''', FlightNum = ''0175'', Class = ''Y'',
        Depart = 0, DepartTime = '''', ArriveTime = '''', Board = ''LHR'', Off = ''JFK'', FareBasis = '''', sg_Status = st, Seats = 1,
        CarrierLocator = '''', WireDate = ''15JUN''\<rparr>]\<rparr>"

definition one_per_pass :: sweeper where
  "one_per_pass = \<lparr>PendingAfter = 10, TicketingLead = 0, sw_Limit = 1, CancelExpired = None\<rparr>"

text \<open>A store that held the given bookings from the start.\<close>

fun holding :: "pnr list \<Rightarrow> mem" where
  "holding [] = NewMem"
| "holding (p # ps) = (case CreatePNR demo_gen p [] (holding ps) of Inr (s, _) \<Rightarrow> s | Inl _ \<Rightarrow> NewMem)"

lemmas holding_simps = CreatePNR_def NewMem_def trimRecordsLocked_def appendEventsLocked_def put_pnr_def gm_put_def
  booking_def zero_pnr_def Let_def

lemma demo_gen_inj: "inj demo_gen"
  by (rule injI) (simp add: demo_gen_def Itoa_inj)

lemma waiting_store: "pnrs (holding [booking ''B'' 5 ''HN'']) = [(''B'', booking ''B'' 5 ''HN'')]"
    "queue (holding [booking ''B'' 5 ''HN'']) = []"
  and two_store: "pnrs (holding [booking ''B'' 5 ''HN'', booking ''A'' 0 ''HK'']) = [(''A'', booking ''A'' 0 ''HK''), (''B'', booking ''B'' 5 ''HN'')]"
  by (simp_all add: holding_simps)

lemma waiting_reachable: "mem_reachable demo_gen (holding [booking ''B'' 5 ''HN''])"
proof -
  have c: "CreatePNR demo_gen (booking ''B'' 5 ''HN'') [] NewMem = Inr (holding [booking ''B'' 5 ''HN''], booking ''B'' 5 ''HN'')"
    by (simp add: holding_simps)
  have "mem_reachable demo_gen (NewMem\<lparr>MaxMessages := 0, MaxRecords := 0\<rparr>)" by (rule mem_reachable.start)
  then have "mem_reachable demo_gen NewMem" by (simp add: NewMem_def)
  then show ?thesis by (rule mem_reachable.step) (rule mem_step.create [OF c], simp add: NewMem_def)
qed

declare holding.simps [simp del]

lemma awaiting_examples [simp]: "awaitingReply ''HN''" "\<not> awaitingReply ''HK''"
  by (simp_all add: awaitingReply_def Rescode.Info_def Codes_def info_def ToUpper_def upper_char_def is_lower_def)

lemma one_per_pass_simps [simp]:
  "pendingAfter one_per_pass = 10" "sw_limit one_per_pass = 1" "CancelExpired one_per_pass = None"
  by (simp_all add: one_per_pass_def pendingAfter_def sw_limit_def)

theorem sweep_raises_overdue_witness:
  "\<exists>n s'. Sweep one_per_pass demo_gen 100 (holding [booking ''B'' 5 ''HN'']) = (n, s') \<and> on_queue s' ''pending'' ''B'' ''unanswered_HN'' 1"
proof -
  let ?s = "holding [booking ''B'' 5 ''HN'']"
  obtain n s' where sw: "Sweep one_per_pass demo_gen 100 ?s = (n, s')" by (cases "Sweep one_per_pass demo_gen 100 ?s")
  have nd: "NextDeadline (booking ''B'' 5 ''HN'') = None" by (simp add: NextDeadline_def booking_def zero_pnr_def)
  have "booking ''B'' 5 ''HN'' \<in> snd ` set (pnrs ?s)" by (simp add: waiting_store)
  moreover have b: "pnr_Status (booking ''B'' 5 ''HN'') \<noteq> StatusCancelled" "UpdatedAt (booking ''B'' 5 ''HN'') = 5" "ID (booking ''B'' 5 ''HN'') = ''B''"
    by (simp_all add: booking_def StatusOpen_def StatusCancelled_def)
  moreover obtain seg where seg: "seg \<in> set (Segments (booking ''B'' 5 ''HN''))" "sg_Status seg = ''HN''" "sg_Ref seg = 1"
    by (simp add: booking_def)
  moreover have "(\<forall>p \<in> snd ` set (pnrs ?s). pnr_Status p \<noteq> StatusCancelled \<longrightarrow>
      (UpdatedAt p < 100 - pendingAfter one_per_pass \<longrightarrow> (\<forall>seg \<in> set (Segments p). awaitingReply (sg_Status seg) \<longrightarrow>
         on_queue s' QueuePending (ID p) (''unanswered_'' @ sg_Status seg) (sg_Ref seg))))"
    using sweep_raises_overdue [OF waiting_reachable demo_gen_inj _ _ _ _ sw] nd by (simp add: waiting_store)
  ultimately have "awaitingReply (sg_Status seg) \<longrightarrow> on_queue s' QueuePending (ID (booking ''B'' 5 ''HN'')) (''unanswered_'' @ sg_Status seg) (sg_Ref seg)"
    by force
  then have "on_queue s' QueuePending ''B'' (''unanswered_'' @ ''HN'') 1" by (simp add: b seg)
  then show ?thesis using sw by (auto simp: QueuePending_def)
qed

theorem sweep_starves_requests_witness:
  "Sweep one_per_pass demo_gen 1000000 (holding [booking ''B'' 5 ''HN'', booking ''A'' 0 ''HK''])
     = (0, holding [booking ''B'' 5 ''HN'', booking ''A'' 0 ''HK''])
   \<and> stale_now one_per_pass 1000000 (booking ''B'' 5 ''HN'')"
proof
  show "Sweep one_per_pass demo_gen 1000000 (holding [booking ''B'' 5 ''HN'', booking ''A'' 0 ''HK''])
     = (0, holding [booking ''B'' 5 ''HN'', booking ''A'' 0 ''HK''])"
    by (rule sweep_starves_requests [where b = 5])
      (simp_all add: two_store, simp_all add: booking_def zero_pnr_def StatusOpen_def StatusCancelled_def)
  show "stale_now one_per_pass 1000000 (booking ''B'' 5 ''HN'')"
    by (simp add: stale_now_def booking_def StatusOpen_def StatusCancelled_def)
qed

end
