(* ===== verification/Gateway_Apply.thy ===== *)
theory Gateway_Apply
  imports Gateway_Relay Padis Work_Queue
begin

text \<open>
  Folding a decoded message into a record (\<open>src/pkg/gateway/gateway.go\<close>, \<open>decode.go\<close>):
  resolving the record a message refers to and the optimistic read-apply-write loop. The gateway serves many links at once, so between
  reading a record and writing it other callers may change the store: \<open>others k s\<close> is what they make
  of the store \<open>s\<close> at the \<open>k\<close>-th such point of a call. An error is its text up to the wrapped cause.
  The theorems show that the loop amounts to one atomic update of the record that is stored when it
  writes, and that a message which only amends never creates a record.
\<close>

type_synonym others = "nat \<Rightarrow> mem \<Rightarrow> mem"

definition to_bytes :: "string \<Rightarrow> bytes" where "to_bytes s = map (\<lambda>c. of_nat (of_char c)) s"
definition of_bytes :: "bytes \<Rightarrow> string" where "of_bytes bs = map (\<lambda>b. char_of (unat b)) bs"

section \<open>Applying to a record\<close>

definition set_origin :: "string \<Rightarrow> string \<Rightarrow> pnr \<Rightarrow> pnr" where
  "set_origin sender channel p =
     (case pnr_Origin p of (party, agent, ch) \<Rightarrow> if party = '''' then p\<lparr>pnr_Origin := (sender, agent, channel)\<rparr> else p)"

definition inbound_options :: "time \<Rightarrow> string \<Rightarrow> string \<Rightarrow> apply_options" where
  "inbound_options at sender self = \<lparr>ReceivedAt = at, ao_Party = sender, ao_Inbound = True, ao_Self = self\<rparr>"

text \<open>The message of a decoded interchange; it is the zero message when nothing was decoded.\<close>

definition edifact_of :: "decoded \<Rightarrow> ed_message" where
  "edifact_of d = (case dc_Edifact d of Some m \<Rightarrow> m
     | None \<Rightarrow> \<lparr>m_Header = Seg '''' [], m_Segments = [], m_Trailer = Seg '''' []\<rparr>)"

definition applyTo :: "decoded \<Rightarrow> gw_peer \<Rightarrow> time \<Rightarrow> pnr \<Rightarrow> change list \<times> pnr" where
  "applyTo d peer at rec =
     (if dc_Format d = FormatTypeB then
        (case dc_Airimp d of
           None \<Rightarrow> ([], rec)
         | Some am \<Rightarrow> let (cs, r) = Apply (inbound_options at (pe_Carrier peer) (dc_self d)) am rec in (cs, set_origin (pe_Carrier peer) ''typeb'' r))
      else if dc_Format d = FormatEDIFACT then
        (let (cs, r) = pd_Apply (inbound_options at (EdifactSender d) (dc_self d)) (edifact_of d) rec
         in (cs, set_origin (EdifactSender d) ''edifact'' r))
      else ([], rec))"

text \<open>The first locator of the message that names a record here; a dangling index entry would be a panic, which no reachable store has.\<close>

fun by_locator :: "mem \<Rightarrow> string list \<Rightarrow> pnr option" where
  "by_locator s [] = None"
| "by_locator s (loc # locs) =
     (if loc = '''' then by_locator s locs
      else case GetPNR s loc of Some (Inr p) \<Rightarrow> Some p | _ \<Rightarrow> by_locator s locs)"

fun by_external :: "mem \<Rightarrow> string \<Rightarrow> string list \<Rightarrow> pnr option" where
  "by_external s owner [] = None"
| "by_external s owner (loc # locs) =
     (if loc = '''' then by_external s owner locs
      else case FindPNRByExternalLocator s owner loc of Some p \<Rightarrow> Some p | None \<Rightarrow> by_external s owner locs)"

definition resolveRecord :: "mem \<Rightarrow> decoded \<Rightarrow> gw_peer \<Rightarrow> string + (pnr \<times> bool)" where
  "resolveRecord s dec peer =
     (case by_locator s (dc_Locators dec) of
        Some p \<Rightarrow> Inr (p, True)
      | None \<Rightarrow>
          if CreatesRecord dec then Inr (zero_pnr\<lparr>pnr_Status := StatusOpen\<rparr>, False)
          else case by_external s (pe_Carrier peer) (dc_Locators dec) of
                 Some p \<Rightarrow> Inr (p, True)
               | None \<Rightarrow> Inl (''gateway: '' @ dc_Kind dec @ '' refers to record locator(s) ['' @ Join (dc_Locators dec) '' '' @ ''] that this system does not hold''))"

definition newLocator :: "env \<Rightarrow> gateway \<Rightarrow> string \<times> gateway" where
  "newLocator e g =
     (let (st, n) = NextLocatorCounter (gw_Store g) in (Allocate (mac e) (locators g) n, g\<lparr>gw_Store := st\<rparr>))"

definition change_event :: "gw_peer \<Rightarrow> message \<Rightarrow> change \<Rightarrow> event" where
  "change_event peer msg c =
     \<lparr>ev_ID = '''', ev_PNRID = '''', Seq = 0, ev_Type = ch_Op c, Detail = ch_Detail c, ev_MessageID = msg_ID msg,
      Actor = pe_Name peer, ev_At = msg_At msg\<rparr>"

text \<open>
  What was read, what became of it, and whether it was stored before: the record before the message
  was applied, the changes, the record as written.
\<close>

record applied =
  ap_Before :: pnr
  ap_Changes :: "change list"
  ap_Rec :: pnr
  ap_Existing :: bool

definition on_store :: "(mem \<Rightarrow> mem) \<Rightarrow> gateway \<Rightarrow> gateway" where
  "on_store f g = g\<lparr>gw_Store := f (gw_Store g)\<rparr>"

text \<open>One pass of the loop body of \<open>apply\<close>: \<open>Inl None\<close> is the conflict that is retried.\<close>

definition attempt :: "env \<Rightarrow> (mem \<Rightarrow> mem) \<Rightarrow> gw_peer \<Rightarrow> decoded \<Rightarrow> message \<Rightarrow> gateway \<Rightarrow> (string option + applied) \<times> change list \<times> gateway" where
  "attempt e meanwhile peer dec msg g =
     (case resolveRecord (gw_Store g) dec peer of
        Inl err \<Rightarrow> (Inl (Some err), [], g)
      | Inr (rec, existing) \<Rightarrow>
          let (changes, rec1) = applyTo dec peer (msg_At msg) rec;
              rec2 = rec1\<lparr>UpdatedAt := msg_At msg\<rparr>;
              evs = map (change_event peer msg) changes;
              g1 = on_store meanwhile g;
              (r, g2) =
                (if existing then (UpdatePNR (gen e) rec2 (pnr_Version rec) evs (gw_Store g1), g1)
                 else let rec3 = rec2\<lparr>CreatedAt := msg_At msg\<rparr>;
                          (loc, g') = (if RecordLocator rec3 = '''' then newLocator e g1 else (RecordLocator rec3, g1))
                      in (CreatePNR (gen e) (rec3\<lparr>RecordLocator := loc\<rparr>) evs (gw_Store g'), g'))
          in case r of
               Inr (st, stored) \<Rightarrow>
                 (Inr \<lparr>ap_Before = rec, ap_Changes = changes, ap_Rec = stored, ap_Existing = existing\<rparr>, changes, g2\<lparr>gw_Store := st\<rparr>)
             | Inl ErrNotFound \<Rightarrow> (Inl (Some ''gateway: persist record''), changes, g2)
             | Inl _ \<Rightarrow> (Inl None, changes, g2))"

definition change_text :: "change \<Rightarrow> string" where
  "change_text c = ch_Op c @ '': '' @ ch_Detail c"

text \<open>The changes of every attempt are reported on the result, those of attempts that lost the race too.\<close>

datatype apply_error = GaveUp | Refused string

fun apply_loop :: "env \<Rightarrow> others \<Rightarrow> gw_peer \<Rightarrow> decoded \<Rightarrow> message \<Rightarrow> nat \<Rightarrow> nat \<Rightarrow> result \<times> gateway \<Rightarrow> (apply_error + applied) \<times> result \<times> gateway" where
  "apply_loop e others peer dec msg k 0 (r, g) = (Inl GaveUp, r, g)"
| "apply_loop e others peer dec msg k (Suc left) (r, g) =
     (case attempt e (others k) peer dec msg g of
        (Inl (Some err), cs, g1) \<Rightarrow> (Inl (Refused err), r\<lparr>Changes := Changes r @ map change_text cs\<rparr>, g1)
      | (Inl None, cs, g1) \<Rightarrow> apply_loop e others peer dec msg (Suc k) left (r\<lparr>Changes := Changes r @ map change_text cs\<rparr>, g1)
      | (Inr a, cs, g1) \<Rightarrow> (Inr a, r\<lparr>Changes := Changes r @ map change_text cs\<rparr>, g1))"

definition maxAttempts :: nat where "maxAttempts = 5"

section \<open>Applying keeps the identity of a record\<close>

definition same_record :: "pnr \<Rightarrow> pnr \<Rightarrow> bool" where
  "same_record p q \<longleftrightarrow> ID q = ID p \<and> RecordLocator q = RecordLocator p"

lemma same_record_refl [simp, intro]: "same_record p p"
  by (simp add: same_record_def)

lemma same_record_trans [trans]: "same_record p q \<Longrightarrow> same_record q r \<Longrightarrow> same_record p r"
  by (simp add: same_record_def)

lemma same_record_Recompute [simp]: "same_record p (Recompute q) \<longleftrightarrow> same_record p q"
  by (simp add: same_record_def Recompute_def Let_def)

lemma same_record_upd [simp]:
  "same_record p (upd_seg i f q) \<longleftrightarrow> same_record p q" "same_record p (unparsed d r q) \<longleftrightarrow> same_record p q"
  "same_record p (SetLocator o' v q) \<longleftrightarrow> same_record p q" "same_record p (set_origin sender ch q) \<longleftrightarrow> same_record p q"
  "same_record p (q\<lparr>Segments := ss\<rparr>) \<longleftrightarrow> same_record p q" "same_record p (q\<lparr>Passengers := ps\<rparr>) \<longleftrightarrow> same_record p q"
  "same_record p (q\<lparr>SSRs := sr\<rparr>) \<longleftrightarrow> same_record p q" "same_record p (q\<lparr>OSIs := os\<rparr>) \<longleftrightarrow> same_record p q"
  "same_record p (q\<lparr>Tickets := tk\<rparr>) \<longleftrightarrow> same_record p q" "same_record p (q\<lparr>Ticketing := tg\<rparr>) \<longleftrightarrow> same_record p q"
  "same_record p (q\<lparr>Contacts := ct\<rparr>) \<longleftrightarrow> same_record p q" "same_record p (q\<lparr>Remarks := rm\<rparr>) \<longleftrightarrow> same_record p q"
  "same_record p (q\<lparr>ReceivedFrom := rf\<rparr>) \<longleftrightarrow> same_record p q" "same_record p (q\<lparr>Unparsed := un\<rparr>) \<longleftrightarrow> same_record p q"
  "same_record p (q\<lparr>pnr_Origin := og\<rparr>) \<longleftrightarrow> same_record p q" "same_record p (q\<lparr>UpdatedAt := t\<rparr>) \<longleftrightarrow> same_record p q"
  "same_record (q\<lparr>Passengers := ps\<rparr>) p \<longleftrightarrow> same_record q p"
  by (auto simp: same_record_def upd_seg_def unparsed_def SetLocator_def set_origin_def split: prod.splits)

lemma apply_givens_same: "same_record p (snd (apply_givens n gs p))"
proof (induction n gs p rule: apply_givens.induct)
  case (2 n g gs p)
  then show ?case by (auto simp: Let_def split: prod.splits)
qed simp

lemma applySegment_same: "same_record p (snd (applySegment opts el p))"
  by (auto simp: applySegment_def Let_def split: sum.splits category.splits option.splits)

lemma applyTKNE_same: "same_record p (snd (applyTKNE el r n p))"
  by (auto simp: applyTKNE_def Let_def split: prod.splits option.splits)

lemma applySSR_same: "same_record p (snd (applySSR els el p))"
  using applyTKNE_same
  by (fastforce simp: applySSR_def Let_def split: prod.splits option.splits
      intro: same_record_trans [of p "p\<lparr>SSRs := ss\<rparr>" for ss] dest: arg_cong [of _ _ snd])

lemma applyLocator_same: "same_record p (snd (applyLocator opts c v p))"
  by (simp add: applyLocator_def Let_def)

lemma apply_element_same: "same_record p (snd (apply_element opts els el p))"
  by (cases el) (simp_all add: apply_givens_same applySegment_same applySSR_same applyLocator_same)

lemma apply_elements_same: "same_record p (snd (apply_elements opts els es p))"
proof (induction es arbitrary: p)
  case (Cons e es)
  show ?case using same_record_trans [OF apply_element_same Cons] by (simp add: Let_def case_prod_beta)
qed simp

lemma Apply_same: "same_record p (snd (Apply opts m p))"
  using apply_elements_same by (simp add: Apply_def Let_def case_prod_beta)

lemma tif_names_same: "same_record p (snd (tif_names sn cs p))"
proof (induction sn cs p rule: tif_names.induct)
  case (2 sn c cs p)
  then show ?case by (auto simp: Let_def split: prod.splits)
qed simp

lemma rci_locators_same: "same_record p (snd (rci_locators opts cs p))"
proof (induction cs arbitrary: p)
  case (Cons c cs)
  show ?case using same_record_trans [OF applyLocator_same Cons] Cons by (auto simp: Let_def case_prod_beta)
qed simp

lemma handlers_same:
  "same_record p (fst (snd (handleMSG seg p st)))" "same_record p (fst (snd (handleORG seg p st)))"
  "same_record p (fst (snd (handleTIF seg p st)))" "same_record p (fst (snd (handleTVL opts seg p st)))"
  "same_record p (fst (snd (handleRPI opts seg p st)))" "same_record p (fst (snd (handleSSR seg p st)))"
  "same_record p (fst (snd (handleRCI opts seg p st)))" "same_record p (fst (snd (handleIFT seg p st)))"
proof -
  show "same_record p (fst (snd (handleMSG seg p st)))" "same_record p (fst (snd (handleORG seg p st)))"
    "same_record p (fst (snd (handleSSR seg p st)))" "same_record p (fst (snd (handleIFT seg p st)))"
    by (simp_all add: handleMSG_def handleORG_def handleSSR_def handleIFT_def Let_def case_prod_beta)
  show "same_record p (fst (snd (handleTIF seg p st)))"
    using tif_names_same by (simp add: handleTIF_def Let_def case_prod_beta)
  show "same_record p (fst (snd (handleTVL opts seg p st)))"
    by (auto simp: handleTVL_def append_segment_def Let_def case_prod_beta split: option.splits)
  show "same_record p (fst (snd (handleRPI opts seg p st)))"
    by (auto simp: handleRPI_def Let_def split: option.splits)
  show "same_record p (fst (snd (handleRCI opts seg p st)))"
    using rci_locators_same by (simp add: handleRCI_def Let_def case_prod_beta)
qed

lemma pd_handler_same: "same_record p (fst (snd (pd_handler opts seg p st)))"
  by (simp add: pd_handler_def Let_def handlers_same)

lemma pd_apply_loop_same: "same_record p (snd (pd_apply_loop opts mid segs p st))"
proof (induction segs arbitrary: p st)
  case (Cons seg segs)
  obtain r p1 st1 where h: "pd_handler opts seg p st = (r, p1, st1)" by (metis prod_cases3)
  have p1: "same_record p p1" using pd_handler_same [of p opts seg st] by (simp add: h)
  show ?case
  proof (cases r)
    case None
    show ?thesis using same_record_trans [OF _ Cons] p1 by (simp add: h None Let_def case_prod_beta)
  next
    case (Some cs)
    show ?thesis using same_record_trans [OF p1 Cons] by (simp add: h Some Let_def case_prod_beta)
  qed
qed simp

lemma pd_Apply_same: "same_record p (snd (pd_Apply opts m p))"
  using pd_apply_loop_same by (simp add: pd_Apply_def Let_def case_prod_beta)

lemma applyTo_same: "same_record p (snd (applyTo d peer at p))"
  using Apply_same pd_Apply_same by (simp add: applyTo_def Let_def case_prod_beta split: option.splits)

section \<open>Other callers\<close>

text \<open>
  What other callers may do to the store while a message is being applied: any sequence of the
  store's methods; a record that is stored before and after was stored throughout.
\<close>

definition well_behaved :: "(nat \<Rightarrow> string) \<Rightarrow> others \<Rightarrow> bool" where
  "well_behaved gn others \<longleftrightarrow>
     (\<forall>k s. (mem_step gn)\<^sup>*\<^sup>* s (others k s)
       \<and> (\<forall>i. map_of (pnrs s) i \<noteq> None \<longrightarrow> map_of (pnrs (others k s)) i \<noteq> None \<longrightarrow> run_keeping gn i s (others k s)))"

lemma steps_wf: "(mem_step gn)\<^sup>*\<^sup>* s t \<Longrightarrow> mem_wf s \<Longrightarrow> mem_wf t"
  by (induction rule: rtranclp_induct) (auto intro: mem_step_wf)

lemma others_newer:
  assumes "well_behaved gn others" "mem_wf s" "map_of (pnrs s) i = Some p" "map_of (pnrs (others k s)) i = Some q"
  shows "newer p q"
  using assms run_newer [of gn i s "others k s" p] by (auto simp: well_behaved_def)

lemma find_mem: "find P xs = Some x \<Longrightarrow> x \<in> set xs"
  by (induction xs) (auto split: if_splits)

lemma resolved_stored:
  assumes "mem_wf s" "resolveRecord s dec peer = Inr (p, True)"
  shows "map_of (pnrs s) (ID p) = Some p"
proof -
  have w: "rec_wf s" using assms(1) by (simp add: mem_wf_def)
  have loc: "by_locator s locs = Some p \<Longrightarrow> map_of (pnrs s) (ID p) = Some p" for locs
  proof (induction locs)
    case (Cons l locs)
    have "GetPNR s l = Some (Inr x) \<Longrightarrow> map_of (pnrs s) (ID x) = Some x" for x
      using rec_wfD(2) [OF w, of _ x] by (fastforce simp: GetPNR_def split: option.splits)
    then show ?case using Cons by (auto split: if_splits option.splits sum.splits)
  qed simp
  have ext: "by_external s o' locs = Some p \<Longrightarrow> map_of (pnrs s) (ID p) = Some p" for o' locs
  proof (induction locs)
    case (Cons l locs)
    have mem: "map_of (pnrs s) (ID x) = Some x" if "x \<in> snd ` set (pnrs s)" for x
      using that gm_wf_in_set [OF rec_wfD(1) [OF w]] rec_wfD(2) [OF w] by fastforce
    have "FindPNRByExternalLocator s o' l = Some x \<Longrightarrow> map_of (pnrs s) (ID x) = Some x" for x
      using mem find_mem [of _ "map snd (pnrs s)" x] by (auto simp: FindPNRByExternalLocator_def split: if_splits)
    then show ?case using Cons by (auto split: if_splits option.splits)
  qed simp
  show ?thesis using assms(2) loc ext by (auto simp: resolveRecord_def split: option.splits if_splits)
qed

section \<open>An attempt that succeeds is atomic\<close>

text \<open>The specification: the record that is stored is replaced by what the message makes of it.\<close>

definition atomic_apply :: "decoded \<Rightarrow> gw_peer \<Rightarrow> time \<Rightarrow> string \<Rightarrow> (string \<rightharpoonup> pnr) \<Rightarrow> (string \<rightharpoonup> pnr)" where
  "atomic_apply dec peer at i R =
     (case R i of
        None \<Rightarrow> R
      | Some p \<Rightarrow> R(i \<mapsto> (snd (applyTo dec peer at p))\<lparr>UpdatedAt := at, pnr_Version := pnr_Version p + 1\<rparr>))"

lemma attempt_update:
  assumes "mem_wf (gw_Store g)" "well_behaved (gen e) others"
    and "attempt e (others k) peer dec msg g = (Inr a, cs, g')" "ap_Existing a"
  defines "t \<equiv> others k (gw_Store g)"
  shows "resolveRecord (gw_Store g) dec peer = Inr (ap_Before a, True)" "map_of (pnrs t) (ID (ap_Before a)) = Some (ap_Before a)"
    "ap_Changes a = fst (applyTo dec peer (msg_At msg) (ap_Before a))"
    "map_of (pnrs (gw_Store g')) = atomic_apply dec peer (msg_At msg) (ID (ap_Before a)) (map_of (pnrs t))"
    "length (Events (gw_Store g') (ID (ap_Before a))) = length (Events t (ID (ap_Before a))) + length (ap_Changes a)"
    "gw_handed g' = gw_handed g" "Responder g' = Responder g"
proof -
  from assms(3,4) obtain rec where r: "resolveRecord (gw_Store g) dec peer = Inr (rec, True)"
    by (auto simp: attempt_def Let_def split: sum.splits prod.splits if_splits store_error.splits)
  obtain chs q where q: "applyTo dec peer (msg_At msg) rec = (chs, q)" by (cases "applyTo dec peer (msg_At msg) rec")
  let ?evs = "map (change_event peer msg) chs"
  from assms(3) r q obtain st stored where
    u: "UpdatePNR (gen e) (q\<lparr>UpdatedAt := msg_At msg\<rparr>) (pnr_Version rec) ?evs t = Inr (st, stored)"
    and a: "a = \<lparr>ap_Before = rec, ap_Changes = chs, ap_Rec = stored, ap_Existing = True\<rparr>" and g': "g' = g\<lparr>gw_Store := st\<rparr>"
    by (auto simp: attempt_def Let_def on_store_def t_def split: sum.splits prod.splits store_error.splits)
  have id: "ID q = ID rec" "RecordLocator q = RecordLocator rec"
    using applyTo_same [of rec dec peer "msg_At msg"] q by (simp_all add: same_record_def)
  note d = UpdatePNR_InrD [OF u]
  have s: "map_of (pnrs (gw_Store g)) (ID rec) = Some rec" by (rule resolved_stored [OF assms(1) r])
  from d(1) id obtain cur where cur: "map_of (pnrs t) (ID rec) = Some cur" "pnr_Version cur = pnr_Version rec" by auto
  have "newer rec cur" using others_newer [OF assms(2,1) s] cur(1) by (simp add: t_def)
  then have c: "cur = rec" using cur(2) by (auto simp: newer_def)
  have "mem_wf t" using assms(1,2) steps_wf [of "gen e" "gw_Store g" t] by (auto simp: well_behaved_def t_def)
  then have ev: "events_wf t" by (simp add: mem_wf_def)
  show "resolveRecord (gw_Store g) dec peer = Inr (ap_Before a, True)" "map_of (pnrs t) (ID (ap_Before a)) = Some (ap_Before a)"
    "ap_Changes a = fst (applyTo dec peer (msg_At msg) (ap_Before a))" "gw_handed g' = gw_handed g" "Responder g' = Responder g"
    using r q cur(1) c by (simp_all add: a g')
  show "map_of (pnrs (gw_Store g')) = atomic_apply dec peer (msg_At msg) (ID (ap_Before a)) (map_of (pnrs t))"
    using cur(1) c q id by (simp add: a g' d(2,3) put_pnr_def atomic_apply_def)
  show "length (Events (gw_Store g') (ID (ap_Before a))) = length (Events t (ID (ap_Before a))) + length (ap_Changes a)"
    using append_events_spec(2) [where s = "put_pnr stored t" and i = "ID rec" and gen = "gen e" and evs = ?evs] ev id
    by (simp add: a g' d(3) Events_def events_wf_put) (simp add: d(2) put_pnr_def)
qed

text \<open>An attempt is lost only to somebody else's success: the record moved on, or the locator was taken.\<close>

lemma attempt_lost:
  assumes "mem_wf (gw_Store g)" "well_behaved (gen e) others" "attempt e (others k) peer dec msg g = (Inl None, cs, g')"
  shows "(\<exists>p q. map_of (pnrs (gw_Store g)) (ID p) = Some p \<and> map_of (pnrs (others k (gw_Store g))) (ID p) = Some q \<and> pnr_Version p < pnr_Version q)
       \<or> CreatesRecord dec \<and> map_of (byLocator (others k (gw_Store g)))
            (Allocate (mac e) (locators g) (counter (others k (gw_Store g)) + 1)) \<noteq> None"
proof -
  from assms(3) obtain rec ex where r: "resolveRecord (gw_Store g) dec peer = Inr (rec, ex)"
    by (auto simp: attempt_def split: sum.splits)
  obtain chs q where q: "applyTo dec peer (msg_At msg) rec = (chs, q)" by (cases "applyTo dec peer (msg_At msg) rec")
  show ?thesis
  proof (cases ex)
    case True
    have s: "map_of (pnrs (gw_Store g)) (ID rec) = Some rec" using resolved_stored [OF assms(1)] r True by simp
    have id: "ID q = ID rec" using applyTo_same [of rec dec peer "msg_At msg"] q by (simp add: same_record_def)
    from assms(3) r q True id obtain cur where
      "map_of (pnrs (others k (gw_Store g))) (ID rec) = Some cur" "pnr_Version cur \<noteq> pnr_Version rec"
      by (auto simp: attempt_def Let_def on_store_def UpdatePNR_def split: sum.splits prod.splits store_error.splits option.splits if_splits)
    then show ?thesis using s others_newer [OF assms(2,1) s] by (fastforce simp: newer_def)
  next
    case False
    then have c: "CreatesRecord dec" "RecordLocator rec = ''''"
      using r by (auto simp: resolveRecord_def zero_pnr_def split: option.splits if_splits)
    then have "RecordLocator q = ''''" using applyTo_same [of rec dec peer "msg_At msg"] q by (simp add: same_record_def)
    then have "map_of (byLocator (others k (gw_Store g))) (Allocate (mac e) (locators g) (counter (others k (gw_Store g)) + 1)) \<noteq> None"
      using assms(3) r q False
      by (auto simp: attempt_def Let_def on_store_def newLocator_def NextLocatorCounter_def CreatePNR_def
          split: sum.splits prod.splits store_error.splits if_splits)
    with c show ?thesis by blast
  qed
qed

lemma attempt_conflict_steps:
  assumes "well_behaved (gen e) others" "attempt e (others k) peer dec msg g = (Inl None, cs, g')"
  shows "(mem_step (gen e))\<^sup>*\<^sup>* (gw_Store g) (gw_Store g')" "gw_handed g' = gw_handed g" "locators g' = locators g"
proof -
  have o: "(mem_step (gen e))\<^sup>*\<^sup>* (gw_Store g) (others k (gw_Store g))" using assms(1) by (simp add: well_behaved_def)
  have c: "mem_step (gen e) t (t\<lparr>counter := counter t + 1\<rparr>)" for t
    by (rule mem_step.counter [of t _ "counter t + 1"]) (simp add: NextLocatorCounter_def)
  have "gw_Store g' = others k (gw_Store g)
      \<or> gw_Store g' = (others k (gw_Store g))\<lparr>counter := counter (others k (gw_Store g)) + 1\<rparr>"
    using assms(2)
    by (auto simp: attempt_def Let_def on_store_def newLocator_def NextLocatorCounter_def
        split: sum.splits prod.splits store_error.splits if_splits)
  then show "(mem_step (gen e))\<^sup>*\<^sup>* (gw_Store g) (gw_Store g')"
    using o c [of "others k (gw_Store g)"] by (auto intro: rtranclp.rtrancl_into_rtrancl)
  show "gw_handed g' = gw_handed g" "locators g' = locators g"
    using assms(2)
    by (auto simp: attempt_def Let_def on_store_def newLocator_def NextLocatorCounter_def
        split: sum.splits prod.splits store_error.splits if_splits)
qed

lemma apply_loop_atomic:
  assumes "mem_wf (gw_Store g)" "well_behaved (gen e) others"
    and "apply_loop e others peer dec msg k n (r, g) = (Inr a, r', g')" "ap_Existing a"
  shows "\<exists>t. (mem_step (gen e))\<^sup>*\<^sup>* (gw_Store g) t \<and> map_of (pnrs t) (ID (ap_Before a)) = Some (ap_Before a)
       \<and> map_of (pnrs (gw_Store g')) = atomic_apply dec peer (msg_At msg) (ID (ap_Before a)) (map_of (pnrs t))
       \<and> length (Events (gw_Store g') (ID (ap_Before a))) = length (Events t (ID (ap_Before a))) + length (ap_Changes a)
       \<and> gw_handed g' = gw_handed g"
  using assms
proof (induction n arbitrary: k r g)
  case (Suc n)
  obtain x cs g1 where at: "attempt e (others k) peer dec msg g = (x, cs, g1)" by (metis prod_cases3)
  consider (won) "x = Inr a" "g' = g1" | (lost) "x = Inl None"
    using Suc.prems(3) at by (auto split: sum.splits option.splits)
  then show ?case
  proof cases
    case won
    have "attempt e (others k) peer dec msg g = (Inr a, cs, g')" using at won by simp
    from attempt_update [OF Suc.prems(1,2) this Suc.prems(4)] Suc.prems(2) show ?thesis
      by (intro exI [of _ "others k (gw_Store g)"]) (auto simp: well_behaved_def)
  next
    case lost
    have at': "attempt e (others k) peer dec msg g = (Inl None, cs, g1)" using at lost by simp
    note st = attempt_conflict_steps [OF Suc.prems(2) at']
    have "mem_wf (gw_Store g1)" by (rule steps_wf [OF st(1) Suc.prems(1)])
    from Suc.IH [OF this Suc.prems(2) _ Suc.prems(4)] Suc.prems(3) at' obtain t where
      t: "(mem_step (gen e))\<^sup>*\<^sup>* (gw_Store g1) t" "map_of (pnrs t) (ID (ap_Before a)) = Some (ap_Before a)"
        "map_of (pnrs (gw_Store g')) = atomic_apply dec peer (msg_At msg) (ID (ap_Before a)) (map_of (pnrs t))"
        "length (Events (gw_Store g') (ID (ap_Before a))) = length (Events t (ID (ap_Before a))) + length (ap_Changes a)"
        "gw_handed g' = gw_handed g1" by auto
    show ?thesis using t st(2) rtranclp_trans [OF st(1) t(1)] by (intro exI [of _ t]) simp
  qed
qed simp

lemma apply_loop_amends:
  assumes "apply_loop e others peer dec msg k n (r, g) = (Inr a, r', g')" "\<not> CreatesRecord dec"
  shows "ap_Existing a"
  using assms
proof (induction n arbitrary: k r g)
  case (Suc n)
  obtain x cs g1 where at: "attempt e (others k) peer dec msg g = (x, cs, g1)" by (metis prod_cases3)
  have "ap_Existing b" if "x = Inr b" for b
    using at that Suc.prems(2)
    by (auto simp: attempt_def resolveRecord_def Let_def split: sum.splits prod.splits store_error.splits if_splits option.splits)
  then show ?case using Suc.prems Suc.IH at by (auto split: sum.splits option.splits)
qed simp

text \<open>
  C10: applying a message is one atomic update of the record it names. Whatever other callers do to
  the store while a message is applied, and however often the write has to be repeated, a
  successful call has read, changed and written the record exactly as it is stored at one moment of
  the call: the records afterwards are those of that moment with the message applied to this one
  record and its version raised by one, with one event per change. A message that only amends
  changes a record that is held here and never creates one.
\<close>

theorem apply_atomic:
  assumes "mem_reachable (gen e) (gw_Store g)" "well_behaved (gen e) others"
    and "apply_loop e others peer dec msg 0 maxAttempts (r, g) = (Inr a, r', g')"
  shows "(\<not> CreatesRecord dec \<longrightarrow> ap_Existing a)
       \<and> (ap_Existing a \<longrightarrow>
            (\<exists>t. (mem_step (gen e))\<^sup>*\<^sup>* (gw_Store g) t \<and> map_of (pnrs t) (ID (ap_Before a)) = Some (ap_Before a)
               \<and> map_of (pnrs (gw_Store g')) = atomic_apply dec peer (msg_At msg) (ID (ap_Before a)) (map_of (pnrs t))
               \<and> length (Events (gw_Store g') (ID (ap_Before a))) = length (Events t (ID (ap_Before a))) + length (ap_Changes a)
               \<and> gw_handed g' = gw_handed g))"
  using apply_loop_amends [OF assms(3)] apply_loop_atomic [OF reachable_wf [OF assms(1)] assms(2,3)] by blast

definition beaten :: "env \<Rightarrow> gateway \<Rightarrow> decoded \<Rightarrow> mem \<Rightarrow> mem \<Rightarrow> bool" where
  "beaten e g dec s t \<longleftrightarrow>
     (\<exists>p q. map_of (pnrs s) (ID p) = Some p \<and> map_of (pnrs t) (ID p) = Some q \<and> pnr_Version p < pnr_Version q)
   \<or> CreatesRecord dec \<and> map_of (byLocator t) (Allocate (mac e) (locators g) (counter t + 1)) \<noteq> None"

lemma apply_loop_beaten:
  assumes "mem_wf (gw_Store g)" "well_behaved (gen e) others"
    and "apply_loop e others peer dec msg k n (r, g) = (Inl GaveUp, r', g')"
  shows "\<exists>ss. length ss = n \<and> (n > 0 \<longrightarrow> ss ! 0 = gw_Store g) \<and> (\<forall>i < n. beaten e g dec (ss ! i) (others (k + i) (ss ! i)))"
  using assms
proof (induction n arbitrary: k r g)
  case (Suc n)
  obtain x cs g1 where at: "attempt e (others k) peer dec msg g = (x, cs, g1)" by (metis prod_cases3)
  then have at': "attempt e (others k) peer dec msg g = (Inl None, cs, g1)"
    using Suc.prems(3) by (auto split: sum.splits option.splits)
  note st = attempt_conflict_steps [OF Suc.prems(2) at']
  have wf: "mem_wf (gw_Store g1)" by (rule steps_wf [OF st(1) Suc.prems(1)])
  have first: "beaten e g dec (gw_Store g) (others k (gw_Store g))"
    using attempt_lost [OF Suc.prems(1,2) at'] by (simp add: beaten_def)
  from Suc.IH [OF wf Suc.prems(2), of "Suc k"] Suc.prems(3) at' obtain ss where
    ss: "length ss = n" "\<forall>i < n. beaten e g1 dec (ss ! i) (others (Suc k + i) (ss ! i))" by auto
  have "beaten e g1 dec s t = beaten e g dec s t" for s t by (simp add: beaten_def st(3))
  then have "\<forall>i < Suc n. beaten e g dec ((gw_Store g # ss) ! i) (others (k + i) ((gw_Store g # ss) ! i))"
    using first ss(2) by (auto simp: less_Suc_eq_0_disj)
  then show ?case using ss(1) by (intro exI [of _ "gw_Store g # ss"]) simp
qed simp

text \<open>
  C24: an attempt is lost only to somebody else's success. The loop gives a message up only after
  five attempts, and between the read and the write of each of them another caller had written a
  newer version of a record, or taken the locator the new record was to have. So when nobody
  else writes, a message that can be placed is placed at the first attempt.
\<close>

theorem apply_gives_up_only_when_beaten:
  assumes "mem_reachable (gen e) (gw_Store g)" "well_behaved (gen e) others"
    and "apply_loop e others peer dec msg 0 maxAttempts (r, g) = (Inl GaveUp, r', g')"
  shows "\<exists>ss. length ss = 5 \<and> ss ! 0 = gw_Store g \<and> (\<forall>i < 5. beaten e g dec (ss ! i) (others i (ss ! i)))"
  using apply_loop_beaten [OF reachable_wf [OF assms(1)] assms(2,3)] by (auto simp: maxAttempts_def)

section \<open>A contended record\<close>

text \<open>A caller that writes the record \<open>R1\<close> between the read and the write of the first \<open>n\<close> attempts.\<close>

definition busy :: "nat \<Rightarrow> others" where
  "busy n k s =
     (case map_of (pnrs s) ''R1'' of
        None \<Rightarrow> s
      | Some p \<Rightarrow>
          if k < n \<and> ID p = ''R1''
          then (case UpdatePNR demo_gen (p\<lparr>ReceivedFrom := ''AGENT''\<rparr>) (pnr_Version p) [] s of Inr (s', _) \<Rightarrow> s' | Inl _ \<Rightarrow> s)
          else s)"

lemma busy_step: "busy n k s = s \<or> mem_step demo_gen s (busy n k s)"
proof (cases "map_of (pnrs s) ''R1''")
  case (Some p)
  show ?thesis
  proof (cases "k < n \<and> ID p = ''R1''")
    case True
    then obtain s' p' where u: "UpdatePNR demo_gen (p\<lparr>ReceivedFrom := ''AGENT''\<rparr>) (pnr_Version p) [] s = Inr (s', p')"
      using Some by (auto simp: UpdatePNR_def Let_def)
    then have "mem_step demo_gen s s'" using Some True by (intro mem_step.update [OF u]) auto
    then show ?thesis using Some True u by (simp add: busy_def)
  next
    case False
    then show ?thesis by (intro disjI1) (simp only: busy_def Some option.case if_False)
  qed
qed (simp add: busy_def)

lemma busy_well_behaved: "well_behaved demo_gen (busy n)"
  unfolding well_behaved_def
proof (intro allI conjI impI)
  fix k s i
  show "(mem_step demo_gen)\<^sup>*\<^sup>* s (busy n k s)" using busy_step [of n k s] by auto
  assume i: "map_of (pnrs s) i \<noteq> None" "map_of (pnrs (busy n k s)) i \<noteq> None"
  then have h: "run_keeping demo_gen i s s" by (intro run_keeping.here)
  from busy_step [of n k s] show "run_keeping demo_gen i s (busy n k s)"
    using h run_keeping.more [OF h _ i(2)] by auto
qed

definition holds_R1 :: "mem \<Rightarrow> pnr \<Rightarrow> bool" where
  "holds_R1 s p \<longleftrightarrow> map_of (pnrs s) ''R1'' = Some p \<and> ID p = ''R1'' \<and> RecordLocator p = ''ABC23D''
     \<and> map_of (byLocator s) ''ABC23D'' = Some ''R1''"

lemma busy_holds:
  assumes "holds_R1 s p"
  shows "k < n \<Longrightarrow> holds_R1 (busy n k s) (p\<lparr>ReceivedFrom := ''AGENT'', pnr_Version := pnr_Version p + 1\<rparr>)" "\<not> k < n \<Longrightarrow> busy n k s = s"
  using assms by (auto simp: busy_def holds_R1_def UpdatePNR_def put_pnr_def Let_def)

definition shop_env :: env where "shop_env = demo_env\<lparr>gen := demo_gen\<rparr>"

definition shop :: gateway where
  "shop = gw_New (demo_identity ''1A'' ''XCHDD1A'') demo_store demo_allocator"

definition shop_link :: gw_peer where "shop_link = demo_peer ''BA'' ''BA'' '''' False [''LONRRBA'']"

definition blank_decoded :: decoded where
  "blank_decoded = \<lparr>dc_Format = FormatTypeB, dc_Kind = '''', dc_DedupKey = '''', dc_PossibleDuplicate = False, dc_Diagnostics = [],
     dc_Locators = [], dc_NeedsReply = False, CreatesRecord = False, dc_Test = False, dc_TypeB = None, dc_AVS = None, dc_AFTN = None,
     Unreadable = '''', Schedule = None, dc_ReplyTo = zero_address, EdifactSender = '''', dc_Interchange = None, dc_CONTRL = None,
     TicketControl = None, ThroughCheckIn = False, Onward = None, dc_Airimp = None, dc_Edifact = None, dc_self = ''1A''\<rparr>"

definition remark_message :: decoded where
  "remark_message = blank_decoded\<lparr>dc_Kind := ''AIRIMP/info'', dc_Locators := [''ABC23D''],
     dc_Airimp := Some (ai_Parse ai_Default ''RM VIP'')\<rparr>"

lemma attempt_R1:
  assumes "holds_R1 (gw_Store g) p"
  shows "k < n \<Longrightarrow> \<exists>cs. attempt shop_env (busy n k) shop_link remark_message demo_message g = (Inl None, cs, on_store (busy n k) g)"
    and "\<not> k < n \<Longrightarrow> \<exists>a cs g'. attempt shop_env (busy n k) shop_link remark_message demo_message g = (Inr a, cs, g') \<and> ap_Existing a"
proof -
  obtain cs q where q: "applyTo remark_message shop_link (msg_At demo_message) p = (cs, q)" by fastforce
  have id: "ID q = ''R1''" using applyTo_same [of p remark_message shop_link "msg_At demo_message"] q assms
    by (simp add: same_record_def holds_R1_def)
  have r: "resolveRecord (gw_Store g) remark_message shop_link = Inr (p, True)"
    using assms by (simp add: resolveRecord_def remark_message_def blank_decoded_def GetPNR_def holds_R1_def)
  show "\<exists>cs. attempt shop_env (busy n k) shop_link remark_message demo_message g = (Inl None, cs, on_store (busy n k) g)" if "k < n"
    using busy_holds(1) [OF assms that] r q id by (simp add: attempt_def on_store_def UpdatePNR_def holds_R1_def Let_def)
  show "\<exists>a cs g'. attempt shop_env (busy n k) shop_link remark_message demo_message g = (Inr a, cs, g') \<and> ap_Existing a" if "\<not> k < n"
    using busy_holds(2) [OF assms that] assms r q id by (simp add: attempt_def on_store_def UpdatePNR_def holds_R1_def Let_def)
qed

lemma shop_holds: "holds_R1 (gw_Store shop) (demo_pnr\<lparr>ID := ''R1''\<rparr>)"
proof -
  have "map_of (byLocator demo_store) ''ABC23D'' = Some ''R1''"
    by (simp add: demo_store_def CreatePNR_def NewMem_def trimRecordsLocked_def appendEventsLocked_def put_pnr_def
        gm_put_def demo_pnr_def zero_pnr_def Let_def)
  then show ?thesis using demo_store_holds by (simp add: holds_R1_def shop_def gw_New_def demo_pnr_def)
qed

lemma loop_R1_won:
  assumes "holds_R1 (gw_Store g) p" "k \<le> n" "n < k + left"
  shows "\<exists>a r' g'. apply_loop shop_env (busy n) shop_link remark_message demo_message k left (r, g) = (Inr a, r', g') \<and> ap_Existing a"
  using assms
proof (induction left arbitrary: k r g p)
  case (Suc left)
  show ?case
  proof (cases "k < n")
    case True
    obtain cs where at: "attempt shop_env (busy n k) shop_link remark_message demo_message g = (Inl None, cs, on_store (busy n k) g)"
      using attempt_R1(1) [OF Suc.prems(1) True] by blast
    have "holds_R1 (gw_Store (on_store (busy n k) g)) (p\<lparr>ReceivedFrom := ''AGENT'', pnr_Version := pnr_Version p + 1\<rparr>)"
      using busy_holds(1) [OF Suc.prems(1) True] by (simp add: on_store_def)
    from Suc.IH [OF this, of "Suc k"] Suc.prems(3) True at show ?thesis by simp
  next
    case False
    then show ?thesis using attempt_R1(2) [OF Suc.prems(1) False] by fastforce
  qed
qed simp

lemma loop_R1_lost:
  assumes "holds_R1 (gw_Store g) p" "k + left \<le> n"
  shows "\<exists>r' g'. apply_loop shop_env (busy n) shop_link remark_message demo_message k left (r, g) = (Inl GaveUp, r', g')"
  using assms
proof (induction left arbitrary: k r g p)
  case (Suc left)
  then have k: "k < n" by simp
  obtain cs where at: "attempt shop_env (busy n k) shop_link remark_message demo_message g = (Inl None, cs, on_store (busy n k) g)"
    using attempt_R1(1) [OF Suc.prems(1) k] by blast
  have "holds_R1 (gw_Store (on_store (busy n k) g)) (p\<lparr>ReceivedFrom := ''AGENT'', pnr_Version := pnr_Version p + 1\<rparr>)"
    using busy_holds(1) [OF Suc.prems(1) k] by (simp add: on_store_def)
  from Suc.IH [OF this, of "Suc k"] Suc.prems(2) at show ?case by simp
qed simp

lemma shop_env_gen [simp]: "gen shop_env = demo_gen"
  by (simp add: shop_env_def)

lemma shop_store [simp]: "gw_Store shop = demo_store"
  by (simp add: shop_def gw_New_def)

theorem apply_atomic_witness:
  "\<exists>a r' g'. \<exists>t :: mem. apply_loop shop_env (busy 1) shop_link remark_message demo_message 0 maxAttempts (demo_result, shop) = (Inr a, r', g')
     \<and> map_of (pnrs t) (ID (ap_Before a)) = Some (ap_Before a)
     \<and> map_of (pnrs (gw_Store g')) = atomic_apply remark_message shop_link (msg_At demo_message) (ID (ap_Before a)) (map_of (pnrs t))"
proof -
  obtain a r' g' where l: "apply_loop shop_env (busy 1) shop_link remark_message demo_message 0 maxAttempts (demo_result, shop) = (Inr a, r', g')"
    "ap_Existing a" using loop_R1_won [OF shop_holds, of 0 1 maxAttempts demo_result] by (auto simp: maxAttempts_def)
  have "mem_reachable (gen shop_env) (gw_Store shop)" "well_behaved (gen shop_env) (busy 1)"
    by (simp_all add: demo_store_reachable busy_well_behaved)
  from mp [OF conjunct2 [OF apply_atomic [OF this l(1)]] l(2)] obtain t :: mem where
    "map_of (pnrs t) (ID (ap_Before a)) = Some (ap_Before a)"
    "map_of (pnrs (gw_Store g')) = atomic_apply remark_message shop_link (msg_At demo_message) (ID (ap_Before a)) (map_of (pnrs t))"
    by blast
  with l(1) show ?thesis by blast
qed

theorem apply_gives_up_only_when_beaten_witness:
  "\<exists>r' g' ss. apply_loop shop_env (busy 5) shop_link remark_message demo_message 0 maxAttempts (demo_result, shop) = (Inl GaveUp, r', g')
     \<and> length ss = 5 \<and> beaten shop_env shop remark_message (ss ! 4) (busy 5 4 (ss ! 4))"
proof -
  obtain r' g' where l: "apply_loop shop_env (busy 5) shop_link remark_message demo_message 0 maxAttempts (demo_result, shop) = (Inl GaveUp, r', g')"
    using loop_R1_lost [OF shop_holds, of 0 maxAttempts 5 demo_result] by (auto simp: maxAttempts_def)
  have "mem_reachable (gen shop_env) (gw_Store shop)" "well_behaved (gen shop_env) (busy 5)"
    by (simp_all add: demo_store_reachable busy_well_behaved)
  from apply_gives_up_only_when_beaten [OF this l] l show ?thesis by fastforce
qed

end
