(* ===== verification/Gateway_Build.thy ===== *)
theory Gateway_Build
  imports Gateway_Apply
begin

text \<open>
  What the gateway says to a carrier (\<open>src/pkg/gateway/gateway.go\<close>, \<open>cancel.go\<close>, \<open>book.go\<close>): sell
  requests and cancellations in the format the carrier's link speaks, and the queue items placed
  when a carrier could not be told. Every message reads the clock and the process-wide counter of
  control references, so building is a step of the gateway. An error is a value of \<open>gw_error\<close>; the
  text it leaves on a queue item names the package of an encoder's error and not its detail.
\<close>

section \<open>Errors\<close>

datatype gw_error =
    NoLink string
  | NothingToSay string
  | BadTTYAddress string string
  | EncodeTypeB tb_error
  | EncodeEdifact ed_error
  | SendFailed string

text \<open>\<open>%q\<close> of printable text.\<close>

definition quoted :: "string \<Rightarrow> string" where
  "quoted s = CHR 0x22 # concat (map (\<lambda>c. if c = CHR 0x22 \<or> c = CHR 0x5C then [CHR 0x5C, c] else [c]) s) @ [CHR 0x22]"

fun error_text :: "gw_error \<Rightarrow> string" where
  "error_text (NoLink carrier) = ''no link configured for carrier '' @ quoted carrier"
| "error_text (NothingToSay t) = t"
| "error_text (BadTTYAddress name addr) =
     ''peer '' @ name @ '' has no usable teletype address: typeb: '' @ quoted addr @ '' is not a valid TTY address''"
| "error_text (EncodeTypeB e) = ''typeb: encode''"
| "error_text (EncodeEdifact e) = ''edifact: encode''"
| "error_text (SendFailed t) = t"

section \<open>Clock, counter and addresses\<close>

text \<open>The teletype alphabet; \<open>0x27\<close> is the apostrophe.\<close>

definition CharsetITA2 :: charset where
  "CharsetITA2 = \<lparr>cs_Name = ''ITA2'', cs_allowed = upper_letters @ decimal_digits @ '' .,-/()'' @ [CHR 0x27] @ '':=+?''\<rparr>"

definition mustAddress :: "string \<Rightarrow> address" where
  "mustAddress s = (case ParseAddress s of Some a \<Rightarrow> a
     | None \<Rightarrow> \<lparr>Location = '''', Department = '''', ad_Carrier = '''', Extra = ''''\<rparr>)"

definition nowOriginTime :: "env \<Rightarrow> gateway \<Rightarrow> origin_time \<times> gateway" where
  "nowOriginTime e g =
     (let (n, g1) = gw_now e g
      in (\<lparr>Day = nat (MDay n), Hour = minute_of_day n div 60, Minute = minute_of_day n mod 60, Present = True\<rparr>, g1))"

definition nextControlRef :: "env \<Rightarrow> gateway \<Rightarrow> string \<times> gateway" where
  "nextControlRef e g =
     (let n = Suc (controlRefSeq g); (t, g1) = gw_now e (g\<lparr>controlRefSeq := n\<rparr>)
      in (itoa_int ((t div 1000000000) mod 100000) @ pad4 (n mod 10000), g1))"

definition zz_party :: "string \<Rightarrow> party" where
  "zz_party i = \<lparr>pa_ID = i, Qualifier = ''ZZ'', RoutingAddr = '''', InternalID = '''', InternalSub = ''''\<rparr>"

text \<open>The options the gateway builds with: message reference 1, the version and the time left to the builder.\<close>

definition gw_build_options :: "gateway \<Rightarrow> string \<Rightarrow> string \<Rightarrow> time \<Rightarrow> ed_charset option \<Rightarrow> build_options" where
  "gw_build_options g recipient ref t cs =
     \<lparr>bo_Sender = zz_party (Designator (Identity g)), bo_Recipient = zz_party recipient, bo_ControlRef = ref, bo_MessageRef = ''1'',
      bo_Now = t, bo_SyntaxVersion = 0, bo_Test = False, bo_Charset = cs\<rparr>"

definition edifact_line_options :: "ed_charset option \<Rightarrow> ed_encode_options" where
  "edifact_line_options cs = \<lparr>ee_Syntax = None, EmitUNA = False, SegmentPerLine = True, ee_CRLF = False, ee_Charset = cs\<rparr>"

definition ita2_options :: encode_options where
  "ita2_options = \<lparr>MaxLineLength = 0, MaxLines = 0, MaxBytes = 0, Frame = False, eo_Channel = '''', CRLF = True,
     BlankLineAfterOrigin = False, eo_Charset = Some CharsetITA2\<rparr>"

definition typeb_out :: "gateway \<Rightarrow> address \<Rightarrow> origin_time \<Rightarrow> string \<Rightarrow> tb_message" where
  "typeb_out g dest ot txt =
     \<lparr>Framed = False, Channel = '''', Priority = ''QU'', Destinations = [dest], tb_Origin = mustAddress (id_TTYAddress (Identity g)),
      OriginTime = ot, OriginExtra = [], tb_PDM = False, SMI = '''', tb_Text = txt, tb_Raw = '''', Diagnostics = []\<rparr>"

section \<open>Cancellations\<close>

record cancel_message =
  cm_peer :: gw_peer
  cm_raw :: bytes
  cm_kind :: string
  cm_key :: string

definition cancel_typeb :: "env \<Rightarrow> gw_peer \<Rightarrow> pnr \<Rightarrow> string \<Rightarrow> int list \<Rightarrow> gateway \<Rightarrow> (gw_error + cancel_message) \<times> gateway" where
  "cancel_typeb e peer rec carrier refs g =
     (let txt = ai_BuildCancel rec carrier refs in
      if txt = '''' then (Inl (NothingToSay (''nothing to cancel with '' @ carrier)), g)
      else case ParseAddress (pe_TTYAddress peer) of
             None \<Rightarrow> (Inl (BadTTYAddress (pe_Name peer) (pe_TTYAddress peer)), g)
           | Some dest \<Rightarrow>
               let (ot, g1) = nowOriginTime e g in
               (case Encode ita2_options (typeb_out g dest ot txt) of
                  Inl err \<Rightarrow> (Inl (EncodeTypeB err), g1)
                | Inr raw \<Rightarrow> (Inr \<lparr>cm_peer = peer, cm_raw = to_bytes raw, cm_kind = ''AIRIMP/cancel'', cm_key = ''''\<rparr>, g1)))"

definition cancel_edifact :: "env \<Rightarrow> gw_peer \<Rightarrow> pnr \<Rightarrow> string \<Rightarrow> int list \<Rightarrow> gateway \<Rightarrow> (gw_error + cancel_message) \<times> gateway" where
  "cancel_edifact e peer rec carrier refs g =
     (let (ref, g1) = nextControlRef e g;
          (t, g2) = gw_now e g1
      in case pd_BuildCancel rec carrier refs (gw_build_options g carrier ref t (Some CharsetUNOA)) of
           None \<Rightarrow> (Inl (NothingToSay (''padis: record has no '' @ carrier @ '' segments left to cancel'')), g1)
         | Some ic \<Rightarrow>
             (case ed_Encode (edifact_line_options (Some CharsetUNOA)) ic of
                Inl err \<Rightarrow> (Inl (EncodeEdifact err), g2)
              | Inr raw \<Rightarrow> (Inr \<lparr>cm_peer = peer, cm_raw = to_bytes raw, cm_kind = ''PADIS/cancel'', cm_key = ''unb:'' @ ref\<rparr>, g2)))"

definition buildCancel :: "env \<Rightarrow> pnr \<Rightarrow> string \<Rightarrow> int list \<Rightarrow> gateway \<Rightarrow> (gw_error + cancel_message) \<times> gateway" where
  "buildCancel e rec carrier refs g =
     (case PeerForCarrier g carrier of
        None \<Rightarrow> (Inl (NoLink carrier), g)
      | Some peer \<Rightarrow>
          if pe_Format peer = FormatEDIFACT then cancel_edifact e peer rec carrier refs g
          else cancel_typeb e peer rec carrier refs g)"

section \<open>Work\<close>

text \<open>The work queues stand on the gateway's store; a placement that fails is logged and nothing else.\<close>

definition gw_place :: "env \<Rightarrow> queue_item \<Rightarrow> gateway \<Rightarrow> gateway" where
  "gw_place e it g =
     (let (t, g1) = gw_now e g in g1\<lparr>gw_Store := snd (Place (gen e) t it (gw_Store g1))\<rparr>)"

definition divergence_item :: "pnr \<Rightarrow> string \<Rightarrow> string \<Rightarrow> string \<Rightarrow> queue_item" where
  "divergence_item rec carrier cause worker =
     (new_item QueueDivergence (ID rec) (RecordLocator rec) (''cancel_not_sent_'' @ carrier)
        (carrier @ '' was not told this booking is cancelled and may still hold the seats: '' @ cause))\<lparr>PlacedBy := worker\<rparr>"

definition queueCancelDivergence :: "env \<Rightarrow> pnr \<Rightarrow> string \<Rightarrow> gw_error \<Rightarrow> string \<Rightarrow> gateway \<Rightarrow> gateway" where
  "queueCancelDivergence e rec carrier cause worker g =
     (if Queues g then gw_place e (divergence_item rec carrier (error_text cause) worker) g else g)"

text \<open>Sending a built cancellation; the identifier of the log entry or the error.\<close>

definition send_cancel :: "env \<Rightarrow> pnr \<Rightarrow> string \<Rightarrow> cancel_message \<Rightarrow> gateway \<Rightarrow> gw_error option \<times> gateway" where
  "send_cancel e rec corr m g =
     (case SendKeyed e (cm_peer m) (cm_raw m) (cm_kind m) (ID rec) corr (cm_key m) g of
        ((i, Some err), g1) \<Rightarrow> (Some (SendFailed err), g1)
      | ((i, None), g1) \<Rightarrow> (None, g1))"

section \<open>Requests\<close>

definition allFreeSold :: "pnr \<Rightarrow> string \<Rightarrow> bool" where
  "allFreeSold rec carrier =
     (let ss = filter (\<lambda>s. Carrier s = carrier \<and> sg_Type s = SegmentAir) (Segments rec)
      in ss \<noteq> [] \<and> list_all (\<lambda>s. sg_Status s = ''HK'') ss)"

definition request_typeb :: "env \<Rightarrow> gw_peer \<Rightarrow> pnr \<Rightarrow> string \<Rightarrow> gateway \<Rightarrow> (gw_error + string) \<times> gateway" where
  "request_typeb e peer rec carrier g =
     (let txt = BuildSell rec carrier (if allFreeSold rec carrier then ''SS'' else ''NN'') in
      if txt = '''' then (Inl (NothingToSay (''gateway: record has no '' @ carrier @ '' segments to request'')), g)
      else case ParseAddress (pe_TTYAddress peer) of
             None \<Rightarrow> (Inl (BadTTYAddress (pe_Name peer) (pe_TTYAddress peer)), g)
           | Some dest \<Rightarrow>
               let (ot, g1) = nowOriginTime e g in
               (case Encode ita2_options (typeb_out g dest ot txt) of
                  Inl err \<Rightarrow> (Inl (EncodeTypeB err), g1)
                | Inr raw \<Rightarrow>
                    (case gw_Send e peer (to_bytes raw) ''AIRIMP/sell'' (ID rec) '''' g1 of
                       ((i, Some err), g2) \<Rightarrow> (Inl (SendFailed err), g2)
                     | ((i, None), g2) \<Rightarrow> (Inr i, g2))))"

definition request_edifact :: "env \<Rightarrow> gw_peer \<Rightarrow> pnr \<Rightarrow> string \<Rightarrow> gateway \<Rightarrow> (gw_error + string) \<times> gateway" where
  "request_edifact e peer rec carrier g =
     (let (ref, g1) = nextControlRef e g;
          (t, g2) = gw_now e g1
      in case BuildPAOREQ rec carrier (gw_build_options g carrier ref t (Some CharsetUNOA)) of
           None \<Rightarrow> (Inl (NothingToSay (''padis: record has no '' @ carrier @ '' segments to request'')), g1)
         | Some ic \<Rightarrow>
             (case ed_Encode (edifact_line_options (Some CharsetUNOA)) ic of
                Inl err \<Rightarrow> (Inl (EncodeEdifact err), g2)
              | Inr raw \<Rightarrow>
                  (case SendKeyed e peer (to_bytes raw) MsgPAOREQ (ID rec) '''' (''unb:'' @ ref) g2 of
                     ((i, Some err), g3) \<Rightarrow> (Inl (SendFailed err), g3)
                   | ((i, None), g3) \<Rightarrow> (Inr i, g3))))"

text \<open>\<open>only\<close> selects the segments to ask for; \<open>None\<close> asks for all of the carrier's.\<close>

definition requestSegments ::
  "env \<Rightarrow> pnr \<Rightarrow> string \<Rightarrow> (segment \<Rightarrow> bool) option \<Rightarrow> gateway \<Rightarrow> (gw_error + string) \<times> gateway" where
  "requestSegments e rec carrier only g =
     (let view = (case only of None \<Rightarrow> rec
                  | Some f \<Rightarrow> rec\<lparr>Segments := filter (\<lambda>s. Carrier s = carrier \<and> f s) (Segments rec)\<rparr>)
      in if only \<noteq> None \<and> Segments view = []
         then (Inl (NothingToSay (''gateway: record has no '' @ carrier @ '' segments to request'')), g)
         else case PeerForCarrier g carrier of
                None \<Rightarrow> (Inl (NoLink carrier), g)
              | Some peer \<Rightarrow>
                  if pe_Format peer = FormatEDIFACT then request_edifact e peer view carrier g
                  else request_typeb e peer view carrier g)"

definition RequestFromCarrier :: "env \<Rightarrow> pnr \<Rightarrow> string \<Rightarrow> gateway \<Rightarrow> (gw_error + string) \<times> gateway" where
  "RequestFromCarrier e rec carrier g = requestSegments e rec carrier None g"


section \<open>What building, sending and placing leave alone\<close>

text \<open>The records, the seat inventory and the configuration: only handlers change these.\<close>

definition settled :: "gateway \<Rightarrow> (string \<times> pnr) list \<times> identity \<times> inventory option \<times> bool \<times> gw_peer strmap" where
  "settled g = (pnrs (gw_Store g), Identity g, Responder g, Queues g, byCarrier g)"

lemma settled_eqD:
  assumes "settled g = settled h"
  shows "pnrs (gw_Store g) = pnrs (gw_Store h)" "Identity g = Identity h" "Responder g = Responder h" "Queues g = Queues h" "byCarrier g = byCarrier h"
  using assms by (simp_all add: settled_def)

lemma settled_upd [simp]:
  "settled (g\<lparr>ticks := n\<rparr>) = settled g" "settled (g\<lparr>controlRefSeq := n\<rparr>) = settled g" "settled (g\<lparr>gw_handed := h\<rparr>) = settled g"
  "pnrs s = pnrs (gw_Store g) \<Longrightarrow> settled (g\<lparr>gw_Store := s\<rparr>) = settled g"
  by (simp_all add: settled_def)

lemma pnrs_messages [simp]: "pnrs (fst (AppendMessage gn m s)) = pnrs s" "UpdateMessage m s = Inr s' \<Longrightarrow> pnrs s' = pnrs s"
  by (auto simp: AppendMessage_def UpdateMessage_def Let_def split: if_splits)

lemma pnrs_Place [simp]: "pnrs (snd (Place gn t it s)) = pnrs s"
  by (auto simp: Place_def Enqueue_def Let_def split: sum.splits store_error.splits if_splits)

lemma clock_settled [simp]:
  "settled (snd (gw_now e g)) = settled g" "gw_handed (snd (gw_now e g)) = gw_handed g"
  "settled (snd (nowOriginTime e g)) = settled g" "gw_handed (snd (nowOriginTime e g)) = gw_handed g"
  "settled (snd (nextControlRef e g)) = settled g" "gw_handed (snd (nextControlRef e g)) = gw_handed g"
  by (simp_all add: nowOriginTime_def nextControlRef_def gw_now_def Let_def)

lemma place_settled [simp]: "settled (gw_place e it g) = settled g" "gw_handed (gw_place e it g) = gw_handed g"
  by (simp_all add: gw_place_def gw_now_def Let_def)

lemma divergence_settled [simp]:
  "settled (queueCancelDivergence e rec c err w g) = settled g" "gw_handed (queueCancelDivergence e rec c err w g) = gw_handed g"
  by (simp_all add: queueCancelDivergence_def)

lemma SendKeyed_settled:
  assumes "SendKeyed e peer raw kind pnrID corr key g = (r, g')"
  shows "settled g' = settled g"
proof -
  have "settled (update_message m h) = settled h" for m h by (auto simp: update_message_def split: sum.splits)
  then show ?thesis using assms
    by (auto simp: SendKeyed_def gw_now_def draw_def append_message_def Let_def split: option.splits)
qed

lemma send_cancel_handed:
  assumes "send_cancel e rec corr m g = (err, g')"
  shows "\<exists>ans. gw_handed g' = gw_handed g @ [(cm_peer m, cm_raw m, ans)] \<and> (err = None \<longleftrightarrow> ans = None)" "settled g' = settled g"
proof -
  obtain i er h where k: "SendKeyed e (cm_peer m) (cm_raw m) (cm_kind m) (ID rec) corr (cm_key m) g = ((i, er), h)"
    by (metis surj_pair)
  with assms have g': "g' = h" "err = map_option SendFailed er" by (auto simp: send_cancel_def split: option.splits)
  show "\<exists>ans. gw_handed g' = gw_handed g @ [(cm_peer m, cm_raw m, ans)] \<and> (err = None \<longleftrightarrow> ans = None)"
    using SendKeyed_handed [OF k] by (auto simp: g')
  show "settled g' = settled g" using SendKeyed_settled [OF k] by (simp add: g')
qed

lemma buildCancel_settled:
  assumes "buildCancel e rec c refs g = (r, g')"
  shows "settled g' = settled g" "gw_handed g' = gw_handed g"
proof -
  have "settled (snd (buildCancel e rec c refs g)) = settled g \<and> gw_handed (snd (buildCancel e rec c refs g)) = gw_handed g"
    by (auto simp: buildCancel_def cancel_edifact_def cancel_typeb_def Let_def case_prod_beta split: option.splits sum.splits)
  then show "settled g' = settled g" "gw_handed g' = gw_handed g" using assms by simp_all
qed

end
