(* ===== verification/Gateway_Reply.thy ===== *)
theory Gateway_Reply
  imports Gateway_Build
begin

text \<open>
  What follows a message that was folded into a record (\<open>src/pkg/gateway/gateway.go\<close>): cancelled
  seats go back to the inventory, changed statuses become work, a confirmation that crossed a
  cancellation is cancelled again, and a request is decided, the decision stored and answered.
  The responder is the seat inventory of theory \<open>Inventory\<close>, which is also told of releases.
\<close>

section \<open>Following up on what changed\<close>

definition segmentStatuses :: "pnr \<Rightarrow> string strmap" where
  "segmentStatuses p = fold (\<lambda>s m. gm_put (Key s) (sg_Status s) m) (Segments p) []"

fun release_loop :: "string strmap \<Rightarrow> segment list \<Rightarrow> inventory \<Rightarrow> inventory" where
  "release_loop before [] iv = iv"
| "release_loop before (s # ss) iv =
     (if sg_Status s \<noteq> ''XX'' then release_loop before ss iv
      else case map_of before (Key s) of
             None \<Rightarrow> release_loop before ss iv
           | Some was \<Rightarrow>
               if was \<noteq> ''XX'' \<and> was \<noteq> '''' then release_loop before ss (inv_Release s was iv)
               else release_loop before ss iv)"

definition releaseCancelled :: "pnr \<Rightarrow> string strmap \<Rightarrow> gateway \<Rightarrow> gateway" where
  "releaseCancelled rec before g =
     (case Responder g of
        None \<Rightarrow> g
      | Some iv \<Rightarrow> g\<lparr>Responder := Some (release_loop before (Segments rec) iv)\<rparr>)"

definition status_item :: "pnr \<Rightarrow> string strmap \<Rightarrow> string \<Rightarrow> segment \<Rightarrow> queue_item option" where
  "status_item rec before msgID seg =
     (let was = gm_get '''' before (Key seg) in
      if sg_Status seg = was then None
      else case ForStatus (sg_Status seg) of
             None \<Rightarrow> None
           | Some (q, code, reason) \<Rightarrow>
               Some (segment_item rec (Some seg) q code
                 (Describe seg @ '': '' @ reason @ (if was \<noteq> '''' then '' was '' @ was @ '', now '' @ sg_Status seg else '''')) msgID))"

definition enqueueStatusChanges :: "env \<Rightarrow> pnr \<Rightarrow> string strmap \<Rightarrow> string \<Rightarrow> gateway \<Rightarrow> gateway" where
  "enqueueStatusChanges e rec before msgID g =
     (if Queues g then fold (gw_place e) (List.map_filter (status_item rec before msgID) (Segments rec)) g else g)"

definition cancelled_refs :: "pnr \<Rightarrow> string \<Rightarrow> int list" where
  "cancelled_refs rec carrier = map sg_Ref (filter (\<lambda>s. Carrier s = carrier \<and> sg_Status s = ''XX'') (Segments rec))"

definition late_item :: "pnr \<Rightarrow> string \<Rightarrow> queue_item" where
  "late_item rec carrier =
     (new_item QueueDivergence (ID rec) (RecordLocator rec) (''late_confirmation_'' @ carrier)
        (carrier @ '' confirmed a cancelled segment; the cancellation was re-sent''))\<lparr>PlacedBy := ''late-confirmation''\<rparr>"

definition reCancelAfterLateConfirmation :: "env \<Rightarrow> gw_peer \<Rightarrow> pnr \<Rightarrow> change list \<Rightarrow> string \<Rightarrow> gateway \<Rightarrow> gateway" where
  "reCancelAfterLateConfirmation e peer rec changes msgID g =
     (if \<not> list_ex (\<lambda>c. ch_Op c = ''late_confirmation_ignored'') changes \<or> pe_Carrier peer = '''' then g
      else case buildCancel e rec (pe_Carrier peer) (cancelled_refs rec (pe_Carrier peer)) g of
             (Inl err, g1) \<Rightarrow> queueCancelDivergence e rec (pe_Carrier peer) err ''late-confirmation'' g1
           | (Inr m, g1) \<Rightarrow>
               (case send_cancel e rec msgID m g1 of
                  (Some err, g2) \<Rightarrow> queueCancelDivergence e rec (pe_Carrier peer) err ''late-confirmation'' g2
                | (None, g2) \<Rightarrow> if Queues g2 then gw_place e (late_item rec (pe_Carrier peer)) g2 else g2))"

section \<open>Deciding and answering\<close>

record ingest_options =
  io_Transport :: string
  FromFile :: bool
  HoldReply :: bool

definition decided_status :: "string \<Rightarrow> string" where
  "decided_status code = (case ReplyTo code of Some h \<Rightarrow> if h \<noteq> '''' then h else code | None \<Rightarrow> code)"

definition decided_segment :: "string strmap \<Rightarrow> segment \<Rightarrow> segment" where
  "decided_segment outcomes s =
     (case map_of outcomes (Key s) of None \<Rightarrow> s | Some code \<Rightarrow> s\<lparr>sg_Status := decided_status code\<rparr>)"

definition decided :: "string strmap \<Rightarrow> pnr \<Rightarrow> pnr" where
  "decided outcomes q = Recompute (q\<lparr>Segments := map (decided_segment outcomes) (Segments q)\<rparr>)"

definition decided_events :: "string strmap \<Rightarrow> string \<Rightarrow> message \<Rightarrow> segment list \<Rightarrow> event list" where
  "decided_events outcomes actor msg ss =
     List.map_filter (\<lambda>s. case map_of outcomes (Key s) of
         None \<Rightarrow> None
       | Some code \<Rightarrow> Some \<lparr>ev_ID = '''', ev_PNRID = '''', Seq = 0, ev_Type = ''decided'',
           Detail = Describe (decided_segment outcomes s) @ '' -> '' @ code, ev_MessageID = msg_ID msg,
           Actor = actor, ev_At = msg_At msg\<rparr>) ss"

text \<open>The bytes, the kind and the key of the reply; no bytes when there is nothing to say.\<close>

type_synonym built_reply = "bytes \<times> string \<times> string"

definition buildReply :: "env \<Rightarrow> decoded \<Rightarrow> pnr \<Rightarrow> string strmap \<Rightarrow> gateway \<Rightarrow> (gw_error + built_reply) \<times> gateway" where
  "buildReply e dec rec outcomes g =
     (if dc_Format dec = FormatTypeB then
        (case dc_Airimp dec of
           None \<Rightarrow> (Inr ([], '''', ''''), g)
         | Some am \<Rightarrow>
             let txt = BuildReply am outcomes (Some rec) (Designator (Identity g)) in
             if txt = '''' then (Inr ([], '''', ''''), g)
             else let (ot, g1) = nowOriginTime e g in
               (case Encode ita2_options (typeb_out g (dc_ReplyTo dec) ot txt) of
                  Inl err \<Rightarrow> (Inl (EncodeTypeB err), g1)
                | Inr raw \<Rightarrow> (Inr (to_bytes raw, ''AIRIMP/reply'', ''''), g1)))
      else if dc_Format dec = FormatEDIFACT then
        (let (ref, g1) = nextControlRef e g;
             (t, g2) = gw_now e g1;
             ic = BuildPAORES rec outcomes (RecordLocator rec) (Designator (Identity g))
                    (gw_build_options g (EdifactSender dec) ref t None)
         in case ed_Encode (edifact_line_options None) ic of
              Inl err \<Rightarrow> (Inl (EncodeEdifact err), g2)
            | Inr raw \<Rightarrow> (Inr (to_bytes raw, MsgPAORES, ''unb:'' @ ref), g2))
      else (Inr ([], '''', ''''), g))"

text \<open>Handing a reply over: to the caller that waits for it, or to the link.\<close>

definition give_reply :: "env \<Rightarrow> ingest_options \<Rightarrow> gw_peer \<Rightarrow> pnr \<Rightarrow> built_reply \<Rightarrow> message \<Rightarrow> result \<times> gateway \<Rightarrow> string option \<times> result \<times> gateway" where
  "give_reply e opts peer rec b msg rg =
     (case (b, rg) of ((raw, kind, key), r, g) \<Rightarrow>
        if raw = [] then (None, r, g)
        else if HoldReply opts then
          (let (i, g1) = gw_record e peer raw kind (ID rec) (msg_ID msg) StatusSent g
           in (None, r\<lparr>Replies := Replies r @ [i], rs_Reply := Some raw\<rparr>, g1))
        else (case SendKeyed e peer raw kind (ID rec) (msg_ID msg) key g of
                ((i, Some err), g1) \<Rightarrow> (Some err, r, g1)
              | ((i, None), g1) \<Rightarrow> (None, r\<lparr>Replies := Replies r @ [i]\<rparr>, g1)))"

text \<open>
  \<open>meanwhile\<close> is what other callers make of the store between the write of \<open>apply\<close> and the write of
  the decision. The seats are committed in the inventory before that write.
\<close>

definition respond ::
  "env \<Rightarrow> (mem \<Rightarrow> mem) \<Rightarrow> ingest_options \<Rightarrow> gw_peer \<Rightarrow> decoded \<Rightarrow> pnr \<Rightarrow> message \<Rightarrow> result \<times> gateway \<Rightarrow> string option \<times> result \<times> gateway" where
  "respond e meanwhile opts peer dec rec msg rg =
     (case rg of (r, g) \<Rightarrow>
        case Responder g of
          None \<Rightarrow> (None, r, g)
        | Some iv \<Rightarrow>
            if \<not> dc_NeedsReply dec then (None, r, g)
            else
              let (outcomes, iv') = inv_Decide rec iv;
                  evs = decided_events outcomes (id_Name (Identity g)) msg (Segments rec);
                  rec1 = decided outcomes rec;
                  (t, g1) = gw_now e (g\<lparr>Responder := Some iv'\<rparr>);
                  g2 = on_store meanwhile g1
              in case UpdatePNR (gen e) (rec1\<lparr>UpdatedAt := t\<rparr>) (pnr_Version rec) evs (gw_Store g2) of
                   Inl err \<Rightarrow> (Some ''gateway: record decision'', r, g2)
                 | Inr (st, rec2) \<Rightarrow>
                     (case buildReply e dec rec2 outcomes (g2\<lparr>gw_Store := st\<rparr>) of
                        (Inl err, g3) \<Rightarrow> (Some (error_text err), r, g3)
                      | (Inr b, g3) \<Rightarrow> give_reply e opts peer rec2 b msg (r, g3)))"

section \<open>Apply\<close>

text \<open>Everything after a successful write, in the order of the code.\<close>

definition follow_up ::
  "env \<Rightarrow> (mem \<Rightarrow> mem) \<Rightarrow> ingest_options \<Rightarrow> gw_peer \<Rightarrow> decoded \<Rightarrow> applied \<Rightarrow> step \<Rightarrow> string option \<times> step" where
  "follow_up e meanwhile opts peer dec a s =
     (case s of (m, r, g) \<Rightarrow>
        let rec = ap_Rec a;
            before = segmentStatuses (ap_Before a);
            m1 = m\<lparr>msg_PNRID := ID rec, msg_Status := StatusApplied\<rparr>;
            r1 = r\<lparr>rs_PNRID := ID rec, rs_Locator := RecordLocator rec, rs_Status := StatusApplied\<rparr>;
            g1 = releaseCancelled rec before g;
            g2 = enqueueStatusChanges e rec before (msg_ID m) g1;
            g3 = reCancelAfterLateConfirmation e peer rec (ap_Changes a) (msg_ID m) g2;
            (err, r2, g4) = respond e meanwhile opts peer dec rec m1 (r1, g3)
        in (err, m1, r2, g4))"

definition gw_apply :: "env \<Rightarrow> others \<Rightarrow> ingest_options \<Rightarrow> gw_peer \<Rightarrow> decoded \<Rightarrow> step \<Rightarrow> string option \<times> step" where
  "gw_apply e others opts peer dec s =
     (case s of (m, r, g) \<Rightarrow>
        case apply_loop e others peer dec m 0 maxAttempts (r, g) of
          (Inl GaveUp, r1, g1) \<Rightarrow> (Some ''gateway: gave up applying after 5 attempts'', m, r1, g1)
        | (Inl (Refused err), r1, g1) \<Rightarrow> (Some err, m, r1, g1)
        | (Inr a, r1, g1) \<Rightarrow> follow_up e (others maxAttempts) opts peer dec a (m, r1, g1))"


section \<open>The decision is stored before it is answered\<close>

lemma buildReply_settled:
  "settled (snd (buildReply e dec rec outcomes g)) = settled g" "gw_handed (snd (buildReply e dec rec outcomes g)) = gw_handed g"
  by (auto simp: buildReply_def Let_def case_prod_beta split: option.splits sum.splits)

lemma give_reply_handed:
  assumes "give_reply e opts peer rec (raw, kind, key) msg (r, g) = (err, r', g')"
  shows "settled g' = settled g"
    and "gw_handed g' = gw_handed g \<or> (\<exists>ans. gw_handed g' = gw_handed g @ [(peer, raw, ans)])"
    and "rs_Reply r' = rs_Reply r \<or> rs_Reply r' = Some raw"
proof -
  have rc: "settled (snd (gw_record e peer raw kind i c st h)) = settled h" "gw_handed (snd (gw_record e peer raw kind i c st h)) = gw_handed h" for i c st h
    by (simp_all add: gw_record_def gw_now_def draw_def append_message_def Let_def)
  obtain i er h where k: "SendKeyed e peer raw kind (ID rec) (msg_ID msg) key g = ((i, er), h)" by (metis surj_pair)
  have "settled g' = settled g \<and> (gw_handed g' = gw_handed g \<or> (\<exists>ans. gw_handed g' = gw_handed g @ [(peer, raw, ans)]))
      \<and> (rs_Reply r' = rs_Reply r \<or> rs_Reply r' = Some raw)"
    using assms rc SendKeyed_handed(1) [OF k] SendKeyed_settled [OF k]
    by (auto simp: give_reply_def k Let_def case_prod_beta split: if_splits option.splits)
  then show "settled g' = settled g" "gw_handed g' = gw_handed g \<or> (\<exists>ans. gw_handed g' = gw_handed g @ [(peer, raw, ans)])"
    "rs_Reply r' = rs_Reply r \<or> rs_Reply r' = Some raw" by blast+
qed

lemma decided_ID [simp]: "ID (decided outcomes q) = ID q"
  by (simp add: decided_def Recompute_def Let_def)

lemma respond_eq:
  assumes "Responder g = Some iv" "dc_NeedsReply dec" "inv_Decide rec iv = (outcomes, iv')" "gw_now e (g\<lparr>Responder := Some iv'\<rparr>) = (t, g1)"
  shows "respond e meanwhile opts peer dec rec msg (r, g) =
     (case UpdatePNR (gen e) ((decided outcomes rec)\<lparr>UpdatedAt := t\<rparr>) (pnr_Version rec)
             (decided_events outcomes (id_Name (Identity g)) msg (Segments rec)) (gw_Store (on_store meanwhile g1)) of
        Inl err \<Rightarrow> (Some ''gateway: record decision'', r, on_store meanwhile g1)
      | Inr (st, rec2) \<Rightarrow>
          (case buildReply e dec rec2 outcomes ((on_store meanwhile g1)\<lparr>gw_Store := st\<rparr>) of
             (Inl err, g3) \<Rightarrow> (Some (error_text err), r, g3)
           | (Inr b, g3) \<Rightarrow> give_reply e opts peer rec2 b msg (r, g3)))"
  using assms by (simp add: respond_def Let_def)

text \<open>
  C13: the answer never runs ahead of the record. When a request is answered, the record that is
  stored carries the decision: the next version of the record that was read, with each decided
  segment at the holding its code stands for. What goes to the link or back to the caller is built
  from that stored record and from the same outcomes, and at most one copy is handed over. Otherwise
  another writer changed the record first, and then nothing is stored and nothing is said to anybody.
\<close>

theorem decision_stored_before_answer:
  assumes "respond e meanwhile opts peer dec rec msg (r, g) = (err, r', g')" "Responder g = Some iv" "dc_NeedsReply dec"
  defines "outcomes \<equiv> fst (inv_Decide rec iv)"
  shows "err \<noteq> None \<and> gw_handed g' = gw_handed g \<and> rs_Reply r' = rs_Reply r \<and> gw_Store g' = meanwhile (gw_Store g)
        \<and> (\<forall>q. map_of (pnrs (meanwhile (gw_Store g))) (ID rec) = Some q \<longrightarrow> pnr_Version q \<noteq> pnr_Version rec)
     \<or> (\<exists>p h. map_of (pnrs (gw_Store g')) (ID rec) = Some p \<and> pnr_Version p = pnr_Version rec + 1
          \<and> Segments p = Segments (decided outcomes rec)
          \<and> (\<forall>c \<in> set (drop (length (gw_handed g)) (gw_handed g')). fst c = peer \<and> (\<exists>k. fst (buildReply e dec p outcomes h) = Inr (fst (snd c), k)))
          \<and> take (length (gw_handed g)) (gw_handed g') = gw_handed g \<and> length (gw_handed g') \<le> length (gw_handed g) + 1
          \<and> (rs_Reply r' \<noteq> rs_Reply r \<longrightarrow> (\<exists>b k. rs_Reply r' = Some b \<and> fst (buildReply e dec p outcomes h) = Inr (b, k))))"
proof -
  obtain ans iv' where d: "inv_Decide rec iv = (ans, iv')" by (cases "inv_Decide rec iv")
  obtain t g1 where n: "gw_now e (g\<lparr>Responder := Some iv'\<rparr>) = (t, g1)" by (cases "gw_now e (g\<lparr>Responder := Some iv'\<rparr>)")
  define g2 where "g2 = on_store meanwhile g1"
  define evs where "evs = decided_events outcomes (id_Name (Identity g)) msg (Segments rec)"
  have g2: "gw_handed g2 = gw_handed g" "gw_Store g2 = meanwhile (gw_Store g)" using n by (auto simp: g2_def on_store_def gw_now_def)
  have o: "ans = outcomes" by (simp add: outcomes_def d)
  note r = respond_eq [OF assms(2,3) d n, of meanwhile opts peer msg r, unfolded o, folded g2_def evs_def]
  show ?thesis
  proof (cases "UpdatePNR (gen e) ((decided outcomes rec)\<lparr>UpdatedAt := t\<rparr>) (pnr_Version rec) evs (gw_Store g2)")
    case (Inl x)
    then show ?thesis using assms(1) r g2 by (auto simp: UpdatePNR_def Let_def split: option.splits if_splits)
  next
    case (Inr y)
    obtain st p where u: "UpdatePNR (gen e) ((decided outcomes rec)\<lparr>UpdatedAt := t\<rparr>) (pnr_Version rec) evs (gw_Store g2) = Inr (st, p)"
      using Inr by (cases y) auto
    note ud = UpdatePNR_InrD [OF u]
    let ?h = "g2\<lparr>gw_Store := st\<rparr>"
    have p: "map_of (pnrs st) (ID rec) = Some p" "pnr_Version p = pnr_Version rec + 1" "Segments p = Segments (decided outcomes rec)"
      using ud by (simp_all add: put_pnr_def)
    obtain x g3 where b: "buildReply e dec p outcomes ?h = (x, g3)" by (cases "buildReply e dec p outcomes ?h")
    have g3: "pnrs (gw_Store g3) = pnrs st" "gw_handed g3 = gw_handed g"
      using settled_eqD(1) [OF buildReply_settled(1) [of e dec p outcomes ?h]] buildReply_settled(2) [of e dec p outcomes ?h] g2 by (simp_all add: b)
    show ?thesis
    proof (cases x)
      case (Inl er)
      then have "r' = r" "g' = g3" using assms(1) by (simp_all add: r u b)
      with p g3 show ?thesis by auto
    next
      case (Inr w)
      obtain raw kind key where w: "w = (raw, kind, key)" by (cases w)
      have gv: "give_reply e opts peer p (raw, kind, key) msg (r, g3) = (err, r', g')" using assms(1) by (simp add: r u b Inr w)
      have bb: "fst (buildReply e dec p outcomes ?h) = Inr (raw, kind, key)" by (simp add: b Inr w)
      show ?thesis using give_reply_handed(2,3) [OF gv] settled_eqD(1) [OF give_reply_handed(1) [OF gv]] p g3 bb
        by (intro disjI2 exI [of _ p] exI [of _ ?h]) auto
    qed
  qed
qed


section \<open>A decision that is lost\<close>

text \<open>
  C39: a decision lost to another writer keeps its seats. When somebody else writes the record
  between the write of the message and the write of the decision, the decision is not tried again:
  the call ends in an error, no answer is sent, the record stays as the other writer left it, and
  the inventory still counts every seat that was granted.
\<close>

theorem lost_decision_keeps_seats:
  assumes "Responder g = Some iv" "dc_NeedsReply dec" "map_of (pnrs (meanwhile (gw_Store g))) (ID rec) = Some q" "pnr_Version q \<noteq> pnr_Version rec"
  shows "\<exists>g'. respond e meanwhile opts peer dec rec msg (r, g) = (Some ''gateway: record decision'', r, g')
     \<and> gw_handed g' = gw_handed g \<and> gw_Store g' = meanwhile (gw_Store g) \<and> Responder g' = Some (snd (inv_Decide rec iv))"
proof -
  obtain ans iv' where d: "inv_Decide rec iv = (ans, iv')" by (cases "inv_Decide rec iv")
  obtain t g1 where n: "gw_now e (g\<lparr>Responder := Some iv'\<rparr>) = (t, g1)" by (cases "gw_now e (g\<lparr>Responder := Some iv'\<rparr>)")
  then have g1: "gw_Store g1 = gw_Store g" "gw_handed g1 = gw_handed g" "Responder g1 = Some iv'" by (auto simp: gw_now_def)
  show ?thesis using assms(3,4) g1
    by (simp add: respond_eq [OF assms(1,2) d n] UpdatePNR_def on_store_def d)
qed

definition desk_record :: pnr where
  "desk_record = demo_pnr\<lparr>ID := ''R1'', Segments := [ask ''Y'' 2]\<rparr>"

definition desk :: gateway where
  "desk = shop\<lparr>gw_Store := demo_store\<lparr>pnrs := [(''R1'', desk_record)]\<rparr>, Responder := Some demo_inv\<rparr>"

definition desk_request :: decoded where
  "desk_request = blank_decoded\<lparr>dc_NeedsReply := True, dc_ReplyTo := mustAddress ''LONRRBA'',
     dc_Airimp := Some (ai_Parse ai_Default ''BA175Y12AUGLHRJFKNN2'')\<rparr>"

definition desk_options :: ingest_options where
  "desk_options = \<lparr>io_Transport = '''', FromFile = False, HoldReply = False\<rparr>"

lemma desk_facts: "Responder desk = Some demo_inv" "dc_NeedsReply desk_request" "ID desk_record = ''R1''" "pnr_Version desk_record = 1"
  "gw_Store desk = demo_store\<lparr>pnrs := [(''R1'', desk_record)]\<rparr>"
  by (simp_all add: desk_def desk_request_def desk_record_def demo_pnr_def)

definition intruder :: "mem \<Rightarrow> mem" where
  "intruder s = s\<lparr>pnrs := [(''R1'', desk_record\<lparr>pnr_Version := 2\<rparr>)]\<rparr>"

theorem decision_stored_before_answer_witness:
  "\<exists>err r' g' p. respond shop_env id desk_options shop_link desk_request desk_record demo_message (demo_result, desk) = (err, r', g')
     \<and> map_of (pnrs (gw_Store g')) ''R1'' = Some p \<and> pnr_Version p = 2
     \<and> Segments p = Segments (decided (fst (inv_Decide desk_record demo_inv)) desk_record)"
proof -
  obtain err r' g' where r: "respond shop_env id desk_options shop_link desk_request desk_record demo_message (demo_result, desk) = (err, r', g')"
    by (metis surj_pair)
  show ?thesis using decision_stored_before_answer [OF r desk_facts(1,2)] r by (auto simp: desk_facts)
qed

theorem lost_decision_keeps_seats_witness:
  "\<exists>g'. respond shop_env intruder desk_options shop_link desk_request desk_record demo_message
          (demo_result, desk) = (Some ''gateway: record decision'', demo_result, g')
     \<and> gw_handed g' = gw_handed desk \<and> map_of (pnrs (gw_Store g')) ''R1'' = Some (desk_record\<lparr>pnr_Version := 2\<rparr>)
     \<and> Responder g' = Some (snd (inv_Decide desk_record demo_inv)) \<and> sold_in (snd (inv_Decide desk_record demo_inv)) ''BA/175/12AUG/LHR/Y'' = 2"
proof -
  have "sold_in (snd (inv_Decide desk_record demo_inv)) ''BA/175/12AUG/LHR/Y'' = 2" by code_simp
  moreover have "map_of (pnrs (intruder (gw_Store desk))) (ID desk_record)
      = Some (desk_record\<lparr>pnr_Version := 2\<rparr>)" by (simp add: desk_facts intruder_def)
  from lost_decision_keeps_seats [where meanwhile = intruder and e = shop_env and opts = desk_options and peer = shop_link and msg = demo_message and r = demo_result, OF desk_facts(1,2) this] obtain g' where
    "respond shop_env intruder desk_options shop_link desk_request desk_record demo_message
          (demo_result, desk) = (Some ''gateway: record decision'', demo_result, g')"
    "gw_handed g' = gw_handed desk" "gw_Store g' = (gw_Store desk)\<lparr>pnrs := [(''R1'', desk_record\<lparr>pnr_Version := 2\<rparr>)]\<rparr>"
    "Responder g' = Some (snd (inv_Decide desk_record demo_inv))" by (auto simp: desk_facts intruder_def)
  ultimately show ?thesis by simp
qed


section \<open>A late confirmation of a segment the partner cancelled\<close>

lemma finish_body: "Messages (finish t o' body) = [finalize_message \<lparr>m_Header = Seg ''UNH'' [simple (msgRef o'),
     Comp [t, ''96'', ''1'', ''IA'', '''']], m_Segments = body, m_Trailer = zero_segment\<rparr>]"
  by (simp add: finish_def Finalize_def AddMessage_def newInterchange_def NewInterchange_def messageID_def Let_def zero_interchange_def)

text \<open>A cancellation that names no segments names every segment of the carrier that is not at \<open>XX\<close>.\<close>

lemma cancel_without_refs:
  assumes "s \<in> set (Segments rec)" "Carrier s = c" "sg_Type s = SegmentAir" "sg_Status s \<noteq> ''XX''"
  shows "\<exists>ic m xs ys. pd_BuildCancel rec c [] o' = Some ic \<and> Messages ic = [m] \<and> MessageFunction m = FuncCancellation
     \<and> m_Segments m = xs @ [tvlSegment s, rpi (Seats s) ''XX''] @ ys"
proof -
  let ?ss = "filter (\<lambda>s. Carrier s = c \<and> sg_Type s = SegmentAir \<and> sg_Status s \<noteq> ''XX'') (Segments rec)"
  obtain us vs where "?ss = us @ s # vs" using assms split_list [of s ?ss] by auto
  then have k: "?ss \<noteq> []" "concat (map (\<lambda>s. [tvlSegment s, rpi (Seats s) ''XX'']) ?ss)
      = concat (map (\<lambda>s. [tvlSegment s, rpi (Seats s) ''XX'']) us) @ [tvlSegment s, rpi (Seats s) ''XX''] @ concat (map (\<lambda>s. [tvlSegment s, rpi (Seats s) ''XX'']) vs)"
    by auto
  let ?head = "[Seg ''MSG'' [Comp ['''', FuncCancellation]], org_segment o' rec] @ own_rci rec
     @ map (\<lambda>l. Seg ''RCI'' [Comp [Owner l, lv_Value l, '''']]) (filter (\<lambda>l. Owner l = c \<and> lv_Value l \<noteq> '''') (Locators rec)) @ tifSegments rec"
  let ?ic = "finish MsgPAOREQ o' (?head @ concat (map (\<lambda>s. [tvlSegment s, rpi (Seats s) ''XX'']) ?ss))"
  have "pd_BuildCancel rec c [] o' = Some ?ic" using k(1) by (simp add: pd_BuildCancel_def Let_def)
  moreover have "m_Segments (hd (Messages ?ic)) = (?head @ concat (map (\<lambda>s. [tvlSegment s, rpi (Seats s) ''XX'']) us))
      @ [tvlSegment s, rpi (Seats s) ''XX''] @ concat (map (\<lambda>s. [tvlSegment s, rpi (Seats s) ''XX'']) vs)"
    by (simp add: finish_body finalize_message_def k(2))
  moreover have "Messages ?ic = [hd (Messages ?ic)]" by (simp add: finish_body)
  moreover have "MessageFunction (hd (Messages ?ic)) = FuncCancellation"
    by (simp add: finish_body finalize_message_def MessageFunction_def msg_Find_def Seg_def seg_Get_def seg_Elem_def elem_Get_def
        elem_First_def comp_Get_def Comp_def FuncCancellation_def)
  ultimately show ?thesis by blast
qed

lemma reCancel_settled: "settled (reCancelAfterLateConfirmation e peer rec changes msgID g) = settled g"
proof -
  obtain r g1 where b: "buildCancel e rec (pe_Carrier peer) (cancelled_refs rec (pe_Carrier peer)) g = (r, g1)"
    by (cases "buildCancel e rec (pe_Carrier peer) (cancelled_refs rec (pe_Carrier peer)) g")
  have "settled (snd (send_cancel e rec msgID m g1)) = settled g1" for m
    using send_cancel_handed(2) by (metis prod.collapse)
  then have "settled g2 = settled g1" if "send_cancel e rec msgID m g1 = (x, g2)" for m x g2 using that by (metis snd_conv)
  then show ?thesis using buildCancel_settled(1) [OF b]
    by (auto simp: reCancelAfterLateConfirmation_def b split: sum.splits prod.splits option.splits)
qed

lemma reCancel_sends:
  assumes "list_ex (\<lambda>c. ch_Op c = ''late_confirmation_ignored'') changes" "pe_Carrier peer \<noteq> ''''"
    and "buildCancel e rec (pe_Carrier peer) (cancelled_refs rec (pe_Carrier peer)) g = (Inr m, g1)"
  shows "\<exists>ans. gw_handed (reCancelAfterLateConfirmation e peer rec changes msgID g) = gw_handed g @ [(cm_peer m, cm_raw m, ans)]"
proof -
  obtain err g2 where k: "send_cancel e rec msgID m g1 = (err, g2)" by (cases "send_cancel e rec msgID m g1")
  from send_cancel_handed(1) [OF k] buildCancel_settled(2) [OF assms(3)] show ?thesis
    using assms by (auto simp: reCancelAfterLateConfirmation_def k split: option.splits)
qed

text \<open>
  C40: a late confirmation can withdraw segments that are wanted. A partner on an EDIFACT link may
  cancel a segment with a code other than \<open>XX\<close>, which the record keeps as it came. If the partner then
  confirms that segment, the gateway means to cancel it again; but it looks for segments at \<open>XX\<close>, finds
  none, and builds a cancellation that names no segments. Whenever that can be built, it is handed to
  the link: the cancellation of every segment of the carrier that is not at \<open>XX\<close>, with each confirmed
  segment in it, while the record still shows them as they were.
\<close>

theorem late_confirmation_withdraws_live:
  fixes e peer rec changes msgID g
  defines "g' \<equiv> reCancelAfterLateConfirmation e peer rec changes msgID g"
  assumes "list_ex (\<lambda>c. ch_Op c = ''late_confirmation_ignored'') changes" "pe_Carrier peer \<noteq> ''''" "cancelled_refs rec (pe_Carrier peer) = []"
    and "PeerForCarrier g (pe_Carrier peer) = Some link" "pe_Format link = FormatEDIFACT"
    and "s \<in> set (Segments rec)" "Carrier s = pe_Carrier peer" "sg_Type s = SegmentAir" "sg_Status s = ''HK''"
    and built: "buildCancel e rec (pe_Carrier peer) [] g = (Inr out, g1)"
  shows "\<exists>ref t ic m xs ys raw ans. pd_BuildCancel rec (pe_Carrier peer) [] (gw_build_options g (pe_Carrier peer) ref t (Some CharsetUNOA)) = Some ic
     \<and> Messages ic = [m] \<and> MessageFunction m = FuncCancellation \<and> m_Segments m = xs @ [tvlSegment s, rpi (Seats s) ''XX''] @ ys
     \<and> ed_Encode (edifact_line_options (Some CharsetUNOA)) ic = Inr raw \<and> gw_handed g' = gw_handed g @ [(link, to_bytes raw, ans)]
     \<and> pnrs (gw_Store g') = pnrs (gw_Store g)"
proof -
  let ?c = "pe_Carrier peer"
  obtain ref g2 where n: "nextControlRef e g = (ref, g2)" by (cases "nextControlRef e g")
  obtain t g3 where n2: "gw_now e g2 = (t, g3)" by (cases "gw_now e g2")
  let ?o = "gw_build_options g ?c ref t (Some CharsetUNOA)"
  have "Identity g2 = Identity g" using settled_eqD(2) [of g2 g] clock_settled(5) [of e g] n by simp
  then have o: "gw_build_options g2 ?c ref t (Some CharsetUNOA) = ?o" by (simp add: gw_build_options_def)
  have "sg_Status s \<noteq> ''XX''" using assms(10) by simp
  from cancel_without_refs [OF assms(7-9) this, of ?o] obtain ic m xs ys where
    b: "pd_BuildCancel rec ?c [] ?o = Some ic" "Messages ic = [m]" "MessageFunction m = FuncCancellation"
      "m_Segments m = xs @ [tvlSegment s, rpi (Seats s) ''XX''] @ ys" by blast
  obtain raw where r: "ed_Encode (edifact_line_options (Some CharsetUNOA)) ic = Inr raw" "cm_peer out = link" "cm_raw out = to_bytes raw"
    using built assms(5,6) by (auto simp: buildCancel_def cancel_edifact_def n n2 o b(1) split: sum.splits)
  have "buildCancel e rec ?c (cancelled_refs rec ?c) g = (Inr out, g1)" using built assms(4) by simp
  from reCancel_sends [OF assms(2,3) this] obtain ans where "gw_handed g' = gw_handed g @ [(link, to_bytes raw, ans)]"
    using r(2,3) by (auto simp: g'_def)
  moreover have "pnrs (gw_Store g') = pnrs (gw_Store g)" using settled_eqD(1) [OF reCancel_settled] by (simp add: g'_def)
  ultimately show ?thesis using b r(1) by blast
qed


definition hotel_link :: gw_peer where "hotel_link = shop_link\<lparr>pe_Format := FormatEDIFACT\<rparr>"

definition crossed_record :: pnr where
  "crossed_record = demo_pnr\<lparr>Segments := [(ask ''Y'' 2)\<lparr>WireDate := ''01JAN'', sg_Status := ''HX''\<rparr>, (ask ''Y'' 2)\<lparr>sg_Ref := 2, FlightNum := ''178'', sg_Status := ''HK''\<rparr>]\<rparr>"

definition crossed_reply :: "ed_message" where
  "crossed_reply = \<lparr>m_Header = zero_segment, m_Segments = [tvlSegment (hd (Segments crossed_record)), rpi 2 ''KK''], m_Trailer = zero_segment\<rparr>"

lemma crossed_encodes:
  "case pd_BuildCancel crossed_record ''BA'' [] \<lparr>bo_Sender = zz_party ''1A'', bo_Recipient = zz_party ''BA'', bo_ControlRef = ''00001'',
        bo_MessageRef = ''1'', bo_Now = 1, bo_SyntaxVersion = 0, bo_Test = False, bo_Charset = Some CharsetUNOA\<rparr> of
     None \<Rightarrow> False
   | Some ic \<Rightarrow> (case ed_Encode (edifact_line_options None) ic of
        Inl _ \<Rightarrow> False
      | Inr raw \<Rightarrow> list_all (\<lambda>c. is_upper c \<or> is_digit c \<or> c \<in> set levelAPunct) (filter (\<lambda>c. \<not> is_nl c) raw))"
  by code_simp

lemma unoa_text: "list_all (\<lambda>c. is_upper c \<or> is_digit c \<or> c \<in> set levelAPunct) s \<Longrightarrow> charset_Valid CharsetUNOA s"
proof -
  have "c \<in> set upper_letters" if "is_upper c" for c
  proof -
    have "of_char c \<in> set [65 ..< 91 :: nat]" using that unfolding is_upper_def set_upt atLeastLessThan_iff by linarith
    then have "char_of (of_char c :: nat) \<in> char_of ` set [65 ..< 91 :: nat]" by (rule imageI)
    then show ?thesis unfolding upper_letters_def set_map by simp
  qed
  moreover have "c \<in> set decimal_digits" if "is_digit c" for c
  proof -
    have "of_char c \<in> set [48 ..< 58 :: nat]" using that unfolding is_digit_def set_upt atLeastLessThan_iff by linarith
    then have "char_of (of_char c :: nat) \<in> char_of ` set [48 ..< 58 :: nat]" by (rule imageI)
    then show ?thesis unfolding decimal_digits_def set_map by simp
  qed
  ultimately show "list_all (\<lambda>c. is_upper c \<or> is_digit c \<or> c \<in> set levelAPunct) s \<Longrightarrow> charset_Valid CharsetUNOA s"
    by (auto simp: CharsetUNOA_def list_all_iff)
qed

lemma encode_in_charset:
  assumes "ed_Encode (edifact_line_options None) ic = Inr raw" "charset_Valid cs (filter (\<lambda>c. \<not> is_nl c) raw)"
  shows "ed_Encode (edifact_line_options (Some cs)) ic = Inr raw"
proof -
  define syn where "syn = (if SegmentTerm (ic_Syntax ic) = CHR 0x00 then DefaultSyntax 3 else ic_Syntax ic)"
  define out where "out = (if \<not> IsDefault syn \<or> HadUNA ic then UNAString syn @ [CHR 0x0A] else '''')
      @ concat (map (\<lambda>s. EncodeTo syn s @ [CHR 0x0A]) (if ic_Segments ic = [] then flatten ic else ic_Segments ic))"
  have "ed_Encode (edifact_line_options None) ic = (case ed_Validate syn of Some e \<Rightarrow> Inl e | None \<Rightarrow> Inr out)"
    "ed_Encode (edifact_line_options (Some cs)) ic = (case ed_Validate syn of Some e \<Rightarrow> Inl e
        | None \<Rightarrow> if charset_Valid cs (filter (\<lambda>c. \<not> is_nl c) out) then Inr out else Inl OutsideRepertoire)"
    by (simp_all only: ed_Encode_def edifact_line_options_def line_end_def Let_def ed_encode_options.select_convs option.case if_True if_False
        simp_thms syn_def [symmetric] out_def [symmetric])
  then show ?thesis using assms by (simp split: option.splits)
qed

lemma crossed_builds: "\<exists>out g1. buildCancel shop_env crossed_record ''BA'' [] (AddPeer hotel_link shop) = (Inr out, g1)"
proof -
  let ?g = "AddPeer hotel_link shop"
  obtain ref g2 where n: "nextControlRef shop_env ?g = (ref, g2)" by (cases "nextControlRef shop_env ?g")
  obtain t g3 where n2: "gw_now shop_env g2 = (t, g3)" by (cases "gw_now shop_env g2")
  have g: "controlRefSeq ?g = 0" "ticks ?g = 0" "Designator (Identity ?g) = ''1A''" "Now shop_env = int"
    by (simp_all add: AddPeer_def shop_def gw_New_def demo_identity_def shop_env_def demo_env_def Let_def)
  have c: "itoa_int ((int 0 div 1000000000) mod 100000) @ pad4 (Suc 0 mod 10000) = ''00001''" by code_simp
  have i: "ref = ''00001''" "t = 1"
    using n n2 c by (auto simp: nextControlRef_def gw_now_def g Let_def)
  define o' where "o' = gw_build_options ?g ''BA'' ref t (Some CharsetUNOA)"
  have o: "o' = \<lparr>bo_Sender = zz_party ''1A'', bo_Recipient = zz_party ''BA'', bo_ControlRef = ''00001'',
        bo_MessageRef = ''1'', bo_Now = 1, bo_SyntaxVersion = 0, bo_Test = False, bo_Charset = Some CharsetUNOA\<rparr>"
    by (simp add: o'_def gw_build_options_def i g)
  obtain ic raw where ic: "pd_BuildCancel crossed_record ''BA'' [] o' = Some ic" "ed_Encode (edifact_line_options None) ic = Inr raw"
    "list_all (\<lambda>c. is_upper c \<or> is_digit c \<or> c \<in> set levelAPunct) (filter (\<lambda>c. \<not> is_nl c) raw)"
    using crossed_encodes unfolding o [symmetric] by (auto split: option.splits sum.splits)
  have "ed_Encode (edifact_line_options (Some CharsetUNOA)) ic = Inr raw" by (rule encode_in_charset [OF ic(2) unoa_text [OF ic(3)]])
  moreover have "PeerForCarrier ?g ''BA'' = Some hotel_link" "pe_Format hotel_link = FormatEDIFACT"
    by (simp_all add: hotel_link_def shop_link_def demo_peer_def PeerForCarrier_def AddPeer_def Let_def)
  ultimately show ?thesis using ic(1) by (simp add: buildCancel_def cancel_edifact_def n n2 o'_def)
qed

theorem late_confirmation_withdraws_live_witness:
  "\<exists>m xs ys raw ans. m_Segments m = xs @ [tvlSegment (Segments crossed_record ! 1), rpi 2 ''XX''] @ ys \<and> MessageFunction m = FuncCancellation
     \<and> gw_handed (reCancelAfterLateConfirmation shop_env hotel_link crossed_record
          (fst (pd_Apply (inbound_options 0 ''BA'' ''1A'') crossed_reply crossed_record)) ''M1'' (AddPeer hotel_link shop)) = [(hotel_link, to_bytes raw, ans)]"
proof -
  let ?cs = "fst (pd_Apply (inbound_options 0 ''BA'' ''1A'') crossed_reply crossed_record)" and ?s = "Segments crossed_record ! 1"
  have l: "list_ex (\<lambda>c. ch_Op c = ''late_confirmation_ignored'') ?cs" by code_simp
  have p: "pe_Carrier hotel_link = ''BA''" "pe_Format hotel_link = FormatEDIFACT"
    by (simp_all add: hotel_link_def shop_link_def demo_peer_def)
  have c: "cancelled_refs crossed_record (pe_Carrier hotel_link) = []" unfolding p by code_simp
  have g: "PeerForCarrier (AddPeer hotel_link shop) (pe_Carrier hotel_link) = Some hotel_link" "gw_handed (AddPeer hotel_link shop) = []"
    by (simp_all add: PeerForCarrier_def AddPeer_def p Let_def shop_def gw_New_def)
  have s: "?s \<in> set (Segments crossed_record)" "Carrier ?s = pe_Carrier hotel_link" "sg_Type ?s = SegmentAir" "sg_Status ?s = ''HK''" "Seats ?s = 2"
    by (simp_all add: crossed_record_def ask_def demo_seg_def p SegmentAir_def)
  have ne: "pe_Carrier hotel_link \<noteq> ''''" by (simp add: p)
  obtain out g1 where b: "buildCancel shop_env crossed_record (pe_Carrier hotel_link) [] (AddPeer hotel_link shop) = (Inr out, g1)"
    using crossed_builds unfolding p by blast
  from late_confirmation_withdraws_live [OF l ne c g(1) p(2) s(1-4) b, of "''M1''"] show ?thesis unfolding s(5) g(2) by auto
qed

end
