(* ===== verification/Typeb_Roundtrip.thy ===== *)
theory Typeb_Roundtrip
  imports Typeb
begin

text \<open>
  What the Type B codec guarantees: a conforming message that the encoder accepts is read back by
  the parser field for field, whatever the framing, line ending and wrapping; marking a possible
  duplicate inserts the marker and nothing else, once; and sequence numbers are classified
  exactly.
\<close>

section \<open>Words and lines\<close>

definition clean_char :: "char \<Rightarrow> bool" where
  "clean_char c \<longleftrightarrow> c \<notin> set control_chars \<and> c \<noteq> CR \<and> c \<noteq> LF"

definition word :: "string \<Rightarrow> bool" where
  "word w \<longleftrightarrow> w \<noteq> '''' \<and> (\<forall>c \<in> set w. \<not> is_space c \<and> clean_char c)"

abbreviation spaced :: "string list \<Rightarrow> string" where
  "spaced ws \<equiv> Join ws '' ''"

lemma is_space_blank [simp]: "is_space CHR '' ''"
  by (simp add: is_space_def)

lemma takeWhile_word: "\<forall>c \<in> set w. \<not> P c \<Longrightarrow> P x \<Longrightarrow> takeWhile (\<lambda>c. \<not> P c) (w @ x # r) = w"
  by (induction w) auto

lemma dropWhile_word: "\<forall>c \<in> set w. \<not> P c \<Longrightarrow> P x \<Longrightarrow> dropWhile (\<lambda>c. \<not> P c) (w @ x # r) = x # r"
  by (induction w) auto

lemma Fields_Nil [simp]: "Fields [] = []"
  by (subst Fields.simps) simp

lemma Fields_space: "is_space c \<Longrightarrow> Fields (c # r) = Fields r"
  by (subst (1 2) Fields.simps) simp

lemma Fields_cons: "w \<noteq> '''' \<Longrightarrow> \<forall>c \<in> set w. \<not> is_space c \<Longrightarrow> Fields (w @ CHR '' '' # r) = w # Fields r"
  by (subst Fields.simps) (cases w; simp add: takeWhile_word dropWhile_word Fields_space)

lemma Fields_single: "w \<noteq> '''' \<Longrightarrow> \<forall>c \<in> set w. \<not> is_space c \<Longrightarrow> Fields w = [w]"
proof -
  assume w: "w \<noteq> ''''" "\<forall>c \<in> set w. \<not> is_space c"
  then have t: "takeWhile (\<lambda>c. \<not> is_space c) w = w" "dropWhile (\<lambda>c. \<not> is_space c) w = []" by (simp_all add: takeWhile_eq_all_conv)
  have "dropWhile is_space w = w" using w by (simp add: dropWhile_none)
  then have "Fields w = takeWhile (\<lambda>c. \<not> is_space c) w # Fields (dropWhile (\<lambda>c. \<not> is_space c) w)"
    using w(1) by (subst Fields.simps) simp
  then show ?thesis unfolding t by simp
qed

lemma Fields_spaced: "\<forall>w \<in> set ws. word w \<Longrightarrow> Fields (spaced ws) = ws"
proof (induction ws)
  case (Cons w ws)
  then have w: "w \<noteq> ''''" "\<forall>c \<in> set w. \<not> is_space c" by (simp_all add: word_def)
  show ?case
  proof (cases ws)
    case Nil
    then show ?thesis using w by (simp add: Fields_single)
  next
    case (Cons v vs)
    then show ?thesis using Cons.IH Cons.prems Fields_cons [OF w] by simp
  qed
qed simp

lemma spaced_ends:
  assumes "ws \<noteq> []" "\<forall>w \<in> set ws. word w"
  shows "spaced ws \<noteq> ''''" "hd (spaced ws) = hd (hd ws)" "last (spaced ws) = last (last ws)"
  using assms
proof (induction ws)
  case (Cons w ws)
  { case 1 then show ?case by (cases ws) (auto simp: word_def) }
  { case 2 then show ?case by (cases ws) (auto simp: word_def) }
  { case 3
    have w: "w \<noteq> []" using 3 by (simp add: word_def)
    show ?case
    proof (cases ws)
      case (Cons v vs)
      then have "spaced ws \<noteq> ''''" "last (spaced ws) = last (last ws)" using Cons.IH(1,3) 3 by simp_all
      then show ?thesis using Cons by simp
    qed simp }
qed simp_all

lemma word_ends: "word w \<Longrightarrow> \<not> is_space (hd w) \<and> \<not> is_space (last w)"
  by (simp add: word_def)

lemma TrimSpace_spaced: "ws \<noteq> [] \<Longrightarrow> \<forall>w \<in> set ws. word w \<Longrightarrow> TrimSpace (spaced ws) = spaced ws"
  using spaced_ends [of ws] word_ends by (intro TrimSpace_ends) auto

lemma spaced_snoc: "ws \<noteq> [] \<Longrightarrow> spaced (ws @ [s]) = spaced ws @ '' '' @ s"
proof (induction ws)
  case (Cons w ws) then show ?case by (cases ws) auto
qed simp

lemma spaced_concat: "x @ concat (map (\<lambda>e. '' '' @ e) es) = spaced (x # es)"
proof (induction es arbitrary: x)
  case (Cons e es)
  have "spaced ((CHR '' '' # e) # es) = CHR '' '' # spaced (e # es)" by (cases es) auto
  then show ?case using Cons by simp
qed simp

definition clean_line :: "string \<Rightarrow> bool" where
  "clean_line l \<longleftrightarrow> (\<forall>c \<in> set l. clean_char c)"

lemma clean_spaced: "\<forall>w \<in> set ws. word w \<Longrightarrow> clean_line (spaced ws)"
proof (induction ws)
  case (Cons w ws)
  have "clean_char CHR '' ''" by (simp add: clean_char_def control_chars_def CR_def LF_def)
  then show ?case using Cons by (cases ws) (auto simp: clean_line_def word_def)
qed (simp add: clean_line_def)

section \<open>Line endings\<close>

lemma Join_sep_concat: "ls \<noteq> [] \<Longrightarrow> Join ls sep @ sep = concat (map (\<lambda>l. l @ sep) ls)"
proof (induction ls)
  case (Cons l ls) then show ?case by (cases ls) auto
qed simp

lemma Normalise_clean: "clean_line l \<Longrightarrow> Normalise (l @ r) = l @ Normalise r"
  by (induction l) (auto simp: clean_line_def clean_char_def)

lemma Normalise_sep: "sep = [LF] \<or> sep = [CR, LF] \<Longrightarrow> Normalise (sep @ r) = LF # Normalise r"
  by (auto simp: control_chars_def LF_def CR_def)

lemma Normalise_lines:
  assumes "\<forall>l \<in> set ls. clean_line l" "sep = [LF] \<or> sep = [CR, LF]"
  shows "Normalise (concat (map (\<lambda>l. l @ sep) ls)) = concat (map (\<lambda>l. l @ [LF]) ls)"
  using assms(1) by (induction ls) (simp_all add: Normalise_clean Normalise_sep [OF assms(2)])

lemma split_lines: "\<forall>l \<in> set ls. clean_line l \<Longrightarrow> split_on LF (concat (map (\<lambda>l. l @ [LF]) ls)) = ls @ ['''']"
proof (induction ls)
  case (Cons l ls)
  have "LF \<notin> set l" using Cons.prems by (auto simp: clean_line_def clean_char_def)
  then show ?case using Cons by (simp add: split_on_append_sep)
qed simp

lemma parse_lines:
  assumes "ls \<noteq> []" "\<forall>l \<in> set ls. clean_line l" "sep = [LF] \<or> sep = [CR, LF]"
  shows "split_on LF (Normalise (Join ls sep @ sep)) = ls @ ['''']"
  unfolding Join_sep_concat [OF assms(1)] Normalise_lines [OF assms(2,3)] by (rule split_lines [OF assms(2)])

section \<open>Addresses\<close>

definition address_wf :: "address \<Rightarrow> bool" where
  "address_wf a \<longleftrightarrow> length (Location a) = 3 \<and> length (Department a) = 2 \<and> length (ad_Carrier a) = 2
     \<and> list_all is_upalnum (address_String a)"

lemma address_String_up: "address_wf a \<Longrightarrow> list_all is_upalnum (address_String a) \<and> length (address_String a) \<ge> 7"
  by (simp add: address_wf_def address_String_def)

lemma upalnum_word: "list_all is_upalnum w \<Longrightarrow> w \<noteq> '''' \<Longrightarrow> word w"
  by (auto simp: word_def list_all_iff clean_char_def control_chars_def CR_def LF_def is_upalnum_def is_upper_def is_digit_def
      is_space_def)

lemma address_word: "address_wf a \<Longrightarrow> word (address_String a)"
  using address_String_up [of a] by (intro upalnum_word) auto

lemma ParseAddress_String: "address_wf a \<Longrightarrow> ParseAddress (address_String a) = Some a"
proof -
  assume w: "address_wf a"
  have "TrimSpace (address_String a) = address_String a"
    using address_word [OF w] by (intro TrimSpace_nospace) (simp add: word_def)
  moreover have "ToUpper (address_String a) = address_String a" using address_String_up [OF w] by simp
  ultimately show ?thesis using w address_String_up [OF w]
    by (simp add: ParseAddress_def Let_def) (simp add: address_wf_def address_String_def)
qed

text \<open>A message up to its diagnostics.\<close>

definition core :: "tb_message \<Rightarrow> tb_message" where
  "core m = m\<lparr>Diagnostics := []\<rparr>"

lemma core_diag [simp]: "core (diag sev n c m) = core m"
  by (simp add: core_def diag_def)

lemma HasErrors_diag [simp]: "HasErrors (diag sev n c m) \<longleftrightarrow> HasErrors m \<or> sev = SevError"
  by (simp add: HasErrors_def diag_def)

lemma core_eqD: "core a = core b \<Longrightarrow> Destinations a = Destinations b \<and> Priority a = Priority b \<and> tb_Text a = tb_Text b
    \<and> OriginTime a = OriginTime b \<and> tb_PDM a = tb_PDM b \<and> OriginExtra a = OriginExtra b \<and> tb_Origin a = tb_Origin b
    \<and> Framed a = Framed b \<and> Channel a = Channel b"
  by (cases a; cases b) (simp add: core_def)

lemma core_upd:
  "core (m\<lparr>Destinations := d\<rparr>) = (core m)\<lparr>Destinations := d\<rparr>" "core (m\<lparr>Priority := p\<rparr>) = (core m)\<lparr>Priority := p\<rparr>"
  "core (m\<lparr>tb_Text := t\<rparr>) = (core m)\<lparr>tb_Text := t\<rparr>" "core (m\<lparr>OriginTime := t'\<rparr>) = (core m)\<lparr>OriginTime := t'\<rparr>"
  "core (m\<lparr>tb_PDM := b\<rparr>) = (core m)\<lparr>tb_PDM := b\<rparr>" "core (m\<lparr>OriginExtra := e\<rparr>) = (core m)\<lparr>OriginExtra := e\<rparr>"
  "core (m\<lparr>tb_Origin := a\<rparr>) = (core m)\<lparr>tb_Origin := a\<rparr>"
  by (simp_all add: core_def)

lemma HasErrors_dest [simp]: "HasErrors (m\<lparr>Destinations := d\<rparr>) = HasErrors m" "HasErrors (m\<lparr>Priority := p\<rparr>) = HasErrors m"
  "HasErrors (m\<lparr>tb_Text := t\<rparr>) = HasErrors m" "HasErrors (m\<lparr>OriginTime := t'\<rparr>) = HasErrors m"
  "HasErrors (m\<lparr>tb_PDM := b\<rparr>) = HasErrors m" "HasErrors (m\<lparr>OriginExtra := e\<rparr>) = HasErrors m"
  "HasErrors (m\<lparr>tb_Origin := a\<rparr>) = HasErrors m"
  by (simp_all add: HasErrors_def)

lemma appendAddresses_spec:
  assumes "\<forall>a \<in> set as. address_wf a"
  shows "core (appendAddresses (map address_String as) n m) = core (m\<lparr>Destinations := Destinations m @ as\<rparr>)
       \<and> HasErrors (appendAddresses (map address_String as) n m) = HasErrors m"
  using assms
proof (induction as arbitrary: m)
  case (Cons a as)
  define m1 where "m1 = (if \<not> Conventional a then diag SevInfo n ''unconventional_address'' m else m)"
  have c: "core m1 = core m" "Destinations m1 = Destinations m" "HasErrors m1 = HasErrors m"
    by (simp_all add: m1_def) (simp add: diag_def)
  have s: "appendAddresses (map address_String (a # as)) n m =
      appendAddresses (map address_String as) n (m1\<lparr>Destinations := Destinations m1 @ [a]\<rparr>)"
    using Cons.prems by (simp add: ParseAddress_String m1_def Let_def)
  have "core (m1\<lparr>Destinations := Destinations m @ a # as\<rparr>) = core (m\<lparr>Destinations := Destinations m @ a # as\<rparr>)"
    using c(1) by (cases m; cases m1) (simp add: core_def)
  then show ?case unfolding s using Cons.IH [of "m1\<lparr>Destinations := Destinations m1 @ [a]\<rparr>"] Cons.prems c by simp
qed simp

lemma spaced_addresses:
  assumes "g \<noteq> []" "\<forall>a \<in> set g. address_wf a"
  shows "TrimSpace (spaced (map address_String g)) = spaced (map address_String g)"
    "Fields (spaced (map address_String g)) = map address_String g"
    "spaced (map address_String g) \<noteq> ''''" "\<not> HasPrefix (spaced (map address_String g)) ''.''"
    "allLookLikeAddresses (map address_String g)"
proof -
  have w: "\<forall>x \<in> set (map address_String g). word x" using assms(2) address_word by simp
  have ne: "map address_String g \<noteq> []" using assms(1) by simp
  show "TrimSpace (spaced (map address_String g)) = spaced (map address_String g)" by (rule TrimSpace_spaced [OF ne w])
  show "Fields (spaced (map address_String g)) = map address_String g" by (rule Fields_spaced [OF w])
  show e: "spaced (map address_String g) \<noteq> ''''" by (rule spaced_ends(1) [OF ne w])
  have "hd (spaced (map address_String g)) = hd (address_String (hd g))"
    using spaced_ends(2) [OF ne w] assms(1) by (simp add: hd_map)
  moreover have "is_upalnum (hd (address_String (hd g)))"
    using address_String_up [of "hd g"] assms by (cases "address_String (hd g)") auto
  ultimately have "hd (spaced (map address_String g)) \<noteq> CHR ''.''" by (auto simp: is_upalnum_def is_upper_def is_digit_def)
  then show "\<not> HasPrefix (spaced (map address_String g)) ''.''"
    using e by (cases "spaced (map address_String g)") (auto simp: HasPrefix_def)
  show "allLookLikeAddresses (map address_String g)"
    using assms by (auto simp: allLookLikeAddresses_def list_all_iff ParseAddress_String)
qed

lemma more_addresses_spec:
  assumes "\<forall>g \<in> set gs. g \<noteq> [] \<and> (\<forall>a \<in> set g. address_wf a)" "HasPrefix (TrimSpace l) ''.''"
  shows "\<exists>n' m'. more_addresses n (map (\<lambda>g. spaced (map address_String g)) gs @ l # rest) m = (n', l # rest, m')
       \<and> core m' = core (m\<lparr>Destinations := Destinations m @ concat gs\<rparr>) \<and> HasErrors m' = HasErrors m"
  using assms(1)
proof (induction gs arbitrary: n m)
  case Nil
  then show ?case using assms(2) by simp
next
  case (Cons g gs)
  have g: "g \<noteq> []" "\<forall>a \<in> set g. address_wf a" using Cons.prems by simp_all
  note s = spaced_addresses [OF g]
  let ?m1 = "appendAddresses (map address_String g) n m"
  have a: "core ?m1 = core (m\<lparr>Destinations := Destinations m @ g\<rparr>)" "HasErrors ?m1 = HasErrors m"
    using appendAddresses_spec [OF g(2)] by blast+
  have "\<exists>n' m'. more_addresses (Suc n) (map (\<lambda>g. spaced (map address_String g)) gs @ l # rest) ?m1 = (n', l # rest, m')
       \<and> core m' = core (?m1\<lparr>Destinations := Destinations ?m1 @ concat gs\<rparr>) \<and> HasErrors m' = HasErrors ?m1"
    using Cons.IH [of "Suc n" ?m1] Cons.prems by simp
  moreover have "core (?m1\<lparr>Destinations := Destinations ?m1 @ concat gs\<rparr>) = core (m\<lparr>Destinations := Destinations m @ concat (g # gs)\<rparr>)"
    using a(1) core_eqD [OF a(1)] by (cases m; cases ?m1) (simp add: core_def)
  ultimately show ?case using a(2) s by (simp add: Let_def)
qed

lemma wrap_groups:
  assumes "length prio = 2" "\<forall>s \<in> set ss. 7 \<le> length s"
  shows "(cur = spaced ws \<and> ws \<noteq> [] \<and> cur \<noteq> prio \<and> cur \<noteq> '''' \<or> cur = '''' \<and> ws = [] \<or> cur = prio \<and> ws = [prio] \<and> ss \<noteq> []) \<Longrightarrow>
     \<exists>gs. wrap_addresses mx prio cur ss = map spaced gs \<and> concat gs = ws @ ss \<and> (\<forall>g \<in> set gs. g \<noteq> [])"
  using assms(2)
proof (induction ss arbitrary: cur ws)
  case Nil
  then show ?case using assms(1) by (auto intro: exI [of _ "[ws]"])
next
  case (Cons s ss)
  have s: "s \<noteq> prio" "s \<noteq> ''''" "7 \<le> length s" using Cons.prems(2) assms(1) by auto
  have ss: "\<forall>s \<in> set ss. 7 \<le> length s" using Cons.prems(2) by simp
  have one: "\<exists>gs. wrap_addresses mx prio s ss = map spaced gs \<and> concat gs = s # ss \<and> (\<forall>g \<in> set gs. g \<noteq> [])"
    using Cons.IH [of s "[s]"] s ss by simp
  have empty: "\<exists>gs. wrap_addresses mx prio '''' ss = map spaced gs \<and> concat gs = ss \<and> (\<forall>g \<in> set gs. g \<noteq> [])"
    using Cons.IH [of "''''" "[]"] ss by simp
  have more: "\<exists>gs. wrap_addresses mx prio (cur @ '' '' @ s) ss = map spaced gs \<and> concat gs = ws @ s # ss \<and> (\<forall>g \<in> set gs. g \<noteq> [])"
    if "cur = spaced ws" "ws \<noteq> []"
  proof -
    have "cur @ '' '' @ s \<noteq> prio" using s(3) assms(1) by auto
    then show ?thesis using Cons.IH [of "cur @ '' '' @ s" "ws @ [s]"] ss that spaced_snoc [OF that(2), of s] by simp
  qed
  consider (mid) "cur = spaced ws" "ws \<noteq> []" "cur \<noteq> prio" "cur \<noteq> ''''" | (fresh) "cur = ''''" "ws = []" | (first) "cur = prio" "ws = [prio]"
    using Cons.prems(1) by blast
  then show ?case
  proof cases
    case mid
    then show ?thesis using more one by (auto intro!: exI [of _ "ws # _"])
  next
    case fresh
    then show ?thesis using one assms(1) by auto
  next
    case first
    moreover have "prio \<noteq> ''''" using assms(1) by auto
    moreover obtain gs where "wrap_addresses mx prio '''' ss = map spaced gs" "concat gs = ss" "\<forall>g \<in> set gs. g \<noteq> []"
      using empty by blast
    ultimately show ?thesis using more by (auto intro!: exI [of _ "[prio, s] # gs"])
  qed
qed

section \<open>The origin line\<close>

definition time_wf :: "origin_time \<Rightarrow> bool" where
  "time_wf t \<longleftrightarrow> Present t \<and> 1 \<le> Day t \<and> Day t \<le> 31 \<and> Hour t \<le> 23 \<and> Minute t \<le> 59"

lemma pad2_digits: "n < 100 \<Longrightarrow> length (pad2 n) = 2 \<and> all_digits (pad2 n) \<and> dec_val (pad2 n) = n"
proof -
  assume n: "n < 100"
  have z: "is_digit CHR ''0''" "digit_val CHR ''0'' = 0" by (simp_all add: is_digit_def digit_val_def)
  show ?thesis
  proof (cases "n < 10")
    case True
    then have "Itoa n = [digit_char n]" by (subst Itoa.simps) simp
    then show ?thesis using True z dec_val_snoc [of "''0''" "digit_char n"] by (simp add: pad2_def all_digits_def)
  next
    case False
    then have "n div 10 < 10" "n mod 10 < 10" using n by auto
    then have "Itoa n = [digit_char (n div 10), digit_char (n mod 10)]" using False by (subst Itoa.simps, subst Itoa.simps) simp
    moreover have "dec_val (Itoa n) = n" "all_digits (Itoa n)" by simp_all
    ultimately show ?thesis using False by (simp add: pad2_def)
  qed
qed

lemma parseOriginTime_String: "time_wf t \<Longrightarrow> parseOriginTime (origin_time_String t) = Some t"
proof -
  assume w: "time_wf t"
  note d = pad2_digits [of "Day t"] pad2_digits [of "Hour t"] pad2_digits [of "Minute t"]
  have "length (pad2 (Day t)) = 2 \<and> all_digits (pad2 (Day t)) \<and> dec_val (pad2 (Day t)) = Day t"
    "length (pad2 (Hour t)) = 2 \<and> all_digits (pad2 (Hour t)) \<and> dec_val (pad2 (Hour t)) = Hour t"
    "length (pad2 (Minute t)) = 2 \<and> all_digits (pad2 (Minute t)) \<and> dec_val (pad2 (Minute t)) = Minute t"
    using w d by (simp_all add: time_wf_def)
  then show ?thesis using w by (simp add: parseOriginTime_def origin_time_String_def time_wf_def Let_def)
qed

lemma digits_word: "all_digits s \<Longrightarrow> s \<noteq> '''' \<Longrightarrow> word s"
  by (rule upalnum_word) (auto simp: all_digits_def list_all_iff is_upalnum_def)

lemma time_String_word: "time_wf t \<Longrightarrow> word (origin_time_String t) \<and> origin_time_String t \<noteq> PDMIndicator"
proof -
  assume w: "time_wf t"
  then have d: "all_digits (origin_time_String t)" "length (origin_time_String t) = 6"
    using pad2_digits [of "Day t"] pad2_digits [of "Hour t"] pad2_digits [of "Minute t"]
    by (simp_all add: origin_time_String_def time_wf_def)
  then have "origin_time_String t \<noteq> ''''" "origin_time_String t \<noteq> PDMIndicator" by (auto simp: PDMIndicator_def)
  then show ?thesis using digits_word [OF d(1)] by blast
qed

definition origin_wf :: "tb_message \<Rightarrow> bool" where
  "origin_wf m \<longleftrightarrow> address_wf (tb_Origin m)
     \<and> (time_wf (OriginTime m) \<or> OriginTime m = zero_origin_time \<and> (\<forall>e \<in> set (OriginExtra m). parseOriginTime e = None))
     \<and> (\<forall>e \<in> set (OriginExtra m). word e \<and> e \<noteq> PDMIndicator)"

definition origin_words :: "tb_message \<Rightarrow> string list" where
  "origin_words m = address_String (tb_Origin m)
     # (if Present (OriginTime m) then [origin_time_String (OriginTime m)] else [])
     @ (if tb_PDM m then [PDMIndicator] else []) @ OriginExtra m"

lemma origin_line_words: "origin_line m = CHR ''.'' # spaced (origin_words m)"
proof -
  let ?es = "(if Present (OriginTime m) then [origin_time_String (OriginTime m)] else []) @ (if tb_PDM m then [PDMIndicator] else []) @ OriginExtra m"
  have "origin_line m = CHR ''.'' # address_String (tb_Origin m) @ concat (map (\<lambda>e. '' '' @ e) ?es)" by (simp add: origin_line_def)
  then show ?thesis unfolding spaced_concat by (simp add: origin_words_def)
qed

lemma origin_words_ok: "origin_wf m \<Longrightarrow> \<forall>w \<in> set (origin_words m). word w"
proof -
  assume o: "origin_wf m"
  have "word PDMIndicator" by (rule upalnum_word) (simp_all add: PDMIndicator_def is_upalnum_def is_upper_def)
  moreover have "Present (OriginTime m) \<Longrightarrow> word (origin_time_String (OriginTime m))"
    using o time_String_word by (auto simp: origin_wf_def zero_origin_time_def)
  ultimately show ?thesis using o address_word by (auto simp: origin_words_def origin_wf_def)
qed

lemma origin_line_trim:
  assumes "origin_wf m"
  shows "TrimSpace (origin_line m) = origin_line m" "HasPrefix (origin_line m) ''.''"
proof -
  have ne: "origin_words m \<noteq> []" by (simp add: origin_words_def)
  note w = origin_words_ok [OF assms]
  have "\<not> is_space (last (spaced (origin_words m)))"
    using spaced_ends(3) [OF ne w] word_ends [of "last (origin_words m)"] w ne by simp
  then show "TrimSpace (origin_line m) = origin_line m"
    unfolding origin_line_words using spaced_ends(1) [OF ne w] by (intro TrimSpace_ends) (simp_all add: is_space_def)
  show "HasPrefix (origin_line m) ''.''" unfolding origin_line_words by (simp add: HasPrefix_def)
qed

lemma origin_tokens_extra:
  assumes "\<forall>e \<in> set es. e \<noteq> PDMIndicator \<and> (\<not> Present (OriginTime m) \<longrightarrow> parseOriginTime e = None)"
  shows "origin_tokens es m = m\<lparr>OriginExtra := OriginExtra m @ es\<rparr>"
  using assms by (induction es arbitrary: m) simp_all

lemma parseOriginLine_spec:
  assumes "origin_wf m" "OriginTime x = zero_origin_time" "tb_PDM x = False" "OriginExtra x = []"
  shows "core (parseOriginLine (origin_line m) n x) =
           core (x\<lparr>tb_Origin := tb_Origin m, OriginTime := OriginTime m, tb_PDM := tb_PDM m, OriginExtra := OriginExtra m\<rparr>)
       \<and> HasErrors (parseOriginLine (origin_line m) n x) = HasErrors x"
proof -
  have f: "Fields (spaced (origin_words m)) = origin_words m" by (rule Fields_spaced [OF origin_words_ok [OF assms(1)]])
  have p: "ParseAddress (address_String (tb_Origin m)) = Some (tb_Origin m)"
    using assms(1) by (simp add: origin_wf_def ParseAddress_String)
  define rest where "rest = tl (origin_words m)"
  let ?x = "x\<lparr>tb_Origin := tb_Origin m\<rparr>"
  have "origin_tokens rest ?x = ?x\<lparr>OriginTime := OriginTime m, tb_PDM := tb_PDM m, OriginExtra := OriginExtra m\<rparr>"
  proof (cases "Present (OriginTime m)")
    case True
    then have t: "time_wf (OriginTime m)" using assms(1) by (auto simp: origin_wf_def zero_origin_time_def)
    have e: "\<forall>e \<in> set (OriginExtra m). e \<noteq> PDMIndicator" using assms(1) by (simp add: origin_wf_def)
    show ?thesis using True t assms(2-4) e time_String_word [OF t] parseOriginTime_String [OF t]
      by (simp add: rest_def origin_words_def origin_tokens_extra zero_origin_time_def)
  next
    case False
    then have z: "OriginTime m = zero_origin_time" and e: "\<forall>e \<in> set (OriginExtra m). e \<noteq> PDMIndicator \<and> parseOriginTime e = None"
      using assms(1) by (auto simp: origin_wf_def time_wf_def)
    show ?thesis using False z e assms(2-4)
      by (simp add: rest_def origin_words_def origin_tokens_extra)
  qed
  moreover have ow: "origin_words m = address_String (tb_Origin m) # rest" by (simp add: rest_def origin_words_def)
  ultimately show ?thesis using f p unfolding origin_line_words parseOriginLine_def
    by (simp add: HasPrefix_def ow Let_def)
qed

section \<open>Reading back what was encoded\<close>

definition text_wf :: "string \<Rightarrow> bool" where
  "text_wf t \<longleftrightarrow> (\<forall>c \<in> set t. c = LF \<or> clean_char c) \<and> \<not> blank (hd (split_on LF t)) \<and> \<not> blank (last (split_on LF t))"

text \<open>A conforming message: what a sender builds, with no header line hidden in a field.\<close>

definition conforming :: "tb_message \<Rightarrow> bool" where
  "conforming m \<longleftrightarrow> priorityRe (Priority m) \<and> Destinations m \<noteq> [] \<and> (\<forall>a \<in> set (Destinations m). address_wf a)
     \<and> origin_wf m \<and> SMI m = '''' \<and> text_wf (tb_Text m)"

lemma ReplaceCRLF_noCR: "CR \<notin> set s \<Longrightarrow> ReplaceCRLF s = s"
  by (induction s rule: ReplaceCRLF.induct) auto

lemma set_split_on: "\<forall>l \<in> set (split_on c t). set l \<subseteq> set t - {c}"
proof (induction t)
  case (Cons a t)
  obtain y ys where y: "split_on c t = y # ys" by (cases "split_on c t") auto
  then show ?case using Cons by (auto split: if_splits)
qed simp

lemma text_clean: "text_wf t \<Longrightarrow> l \<in> set (split_on LF t) \<Longrightarrow> clean_line l"
  using set_split_on [of LF t] by (fastforce simp: text_wf_def clean_line_def)

lemma Encode_InrD:
  assumes "Encode opts m = Inr out" "conforming m"
  shows "\<exists>gs. let lines = (if Frame opts then [StartOfMessage @ (if eo_Channel opts \<noteq> '''' then '' '' @ eo_Channel opts else '''')] else [])
              @ map spaced gs @ [origin_line m] @ (if BlankLineAfterOrigin opts then [''''] else [])
              @ split_on LF (tb_Text m) @ (if Frame opts then [EndOfMessage] else []);
            sep = (if CRLF opts then [CR, LF] else [LF])
       in out = Join lines sep @ sep \<and> concat gs = Priority m # map address_String (Destinations m) \<and> (\<forall>g \<in> set gs. g \<noteq> [])
        \<and> (Frame opts \<or> TrimSpace (last (split_on LF (tb_Text m))) \<noteq> EndOfMessage)"
proof -
  have c: "priorityRe (Priority m)" "SMI m = ''''" "text_wf (tb_Text m)" using assms(2) by (simp_all add: conforming_def)
  then have pr: "length (Priority m) = 2" "Priority m \<noteq> ''''" by (auto simp: priorityRe_def)
  have "CR \<notin> set (tb_Text m)" using c(3) by (auto simp: text_wf_def clean_char_def LF_def CR_def)
  then have rt: "ReplaceCRLF (tb_Text m) = tb_Text m" by (rule ReplaceCRLF_noCR)
  have len: "\<forall>s \<in> set (map address_String (Destinations m)). 7 \<le> length s"
    using assms(2) address_String_up by (simp add: conforming_def)
  obtain gs where gs: "wrap_addresses (maxLine opts) (Priority m) (Priority m) (map address_String (Destinations m)) = map spaced gs"
    "concat gs = Priority m # map address_String (Destinations m)" "\<forall>g \<in> set gs. g \<noteq> []"
    using wrap_groups [OF pr(1) len, of "Priority m" "[Priority m]" "maxLine opts"] assms(2) by (auto simp: conforming_def)
  let ?tls = "split_on LF (tb_Text m)"
  have ne: "tb_Text m \<noteq> ''''" using c(3) by (auto simp: text_wf_def blank_def TrimSpace_def)
  have nb: "trim_blank_end ?tls = ?tls"
    using c(3) by (cases ?tls rule: rev_cases) (auto simp: trim_blank_end_def text_wf_def)
  have lnb: "lastNonBlank ?tls = TrimSpace (last ?tls)" unfolding lastNonBlank_def nb by (cases ?tls) simp_all
  from assms(1) have tl: "text_lines opts (tb_Text m) = Inr ?tls" and out:
    "out = (let lines0 = ((if Frame opts then [StartOfMessage @ (if eo_Channel opts \<noteq> '''' then '' '' @ eo_Channel opts else '''')] else [])
                     @ map spaced gs @ [origin_line m] @ (if BlankLineAfterOrigin opts then [''''] else []))
                     @ ?tls @ (if Frame opts then [EndOfMessage] else []);
                sep = (if CRLF opts then [CR, LF] else [LF]) in Join lines0 sep @ sep)"
    using pr(2) c(2) gs(1) rt ne
    by (auto simp: Encode_def Let_def text_lines_def split: if_splits option.splits sum.splits)
  have "Frame opts \<or> TrimSpace (last ?tls) \<noteq> EndOfMessage"
    using tl lnb ne by (auto simp: text_lines_def Let_def split: if_splits option.splits)
  then show ?thesis using out gs(2,3) by (intro exI [of _ gs]) (simp add: Let_def)
qed

lemma trim_blank_end_last: "xs \<noteq> [] \<Longrightarrow> \<not> blank (last xs) \<Longrightarrow> trim_blank_end xs = xs"
  by (cases xs rule: rev_cases) (auto simp: trim_blank_end_def)

lemma trim_blank_end_snoc: "trim_blank_end (xs @ ['''']) = trim_blank_end xs"
  by (simp add: trim_blank_end_def blank_def TrimSpace_def)

lemma not_blank_iff: "\<not> blank l \<longleftrightarrow> (\<exists>c \<in> set l. \<not> is_space c)"
proof -
  have "TrimSpace l = [] \<longleftrightarrow> dropWhile is_space l = []"
  proof
    assume "TrimSpace l = []"
    then have "\<forall>c \<in> set (dropWhile is_space l). is_space c" by (simp add: TrimSpace_def)
    then show "dropWhile is_space l = []" by (metis hd_dropWhile hd_in_set)
  next
    assume "dropWhile is_space l = []"
    then show "TrimSpace l = []" by (simp only: TrimSpace_def) simp
  qed
  then show ?thesis by (simp add: blank_def)
qed

lemma set_Join_in: "x \<in> set ls \<Longrightarrow> c \<in> set x \<Longrightarrow> c \<in> set (Join ls sep)"
proof (induction ls)
  case (Cons l ls) then show ?case by (cases ls) auto
qed simp

lemma spaced_not_blank: "ws \<noteq> [] \<Longrightarrow> \<forall>w \<in> set ws. word w \<Longrightarrow> \<not> blank (spaced ws)"
  using TrimSpace_spaced spaced_ends(1) by (simp add: blank_def)

lemma split_map_groups: "concat gs = map f ds \<Longrightarrow> \<exists>ass. gs = map (map f) ass \<and> concat ass = ds"
proof (induction gs arbitrary: ds)
  case (Cons g gs)
  from Cons.prems have "g @ concat gs = map f ds" by simp
  then obtain d1 d2 where d: "ds = d1 @ d2" "map f d1 = g" "concat gs = map f d2" by (auto simp: append_eq_map_conv)
  from Cons.IH [OF d(3)] obtain ass where "gs = map (map f) ass" "concat ass = d2" by blast
  then show ?case using d by (intro exI [of _ "d1 # ass"]) simp
qed simp

text \<open>The lines between the framing: address lines, origin, an optional blank line, text.\<close>

definition inner_lines :: "string list list \<Rightarrow> tb_message \<Rightarrow> bool \<Rightarrow> string list" where
  "inner_lines gs m bl = map spaced gs @ [origin_line m] @ (if bl then [''''] else []) @ split_on LF (tb_Text m)"

definition frame_words :: "string \<Rightarrow> string list" where
  "frame_words ch = StartOfMessage # (if ch \<noteq> '''' then [ch] else [])"

lemma frame_line: "StartOfMessage @ (if ch \<noteq> '''' then '' '' @ ch else '''') = spaced (frame_words ch)"
  by (simp add: frame_words_def)

lemma frame_words_ok: "ch = '''' \<or> word ch \<Longrightarrow> \<forall>w \<in> set (frame_words ch). word w"
  using upalnum_word [of StartOfMessage] by (auto simp: frame_words_def StartOfMessage_def is_upalnum_def is_upper_def)

lemma EndOfMessage_word: "word EndOfMessage" "TrimSpace EndOfMessage = EndOfMessage"
  by (rule upalnum_word; simp add: EndOfMessage_def is_upalnum_def is_upper_def) code_simp

lemma strip_frame_framed:
  assumes "ch = '''' \<or> word ch" "A \<noteq> []"
  shows "strip_frame ((spaced (frame_words ch) # A @ [EndOfMessage]) @ ['''']) = (True, ch, A, 1)"
proof -
  note w = frame_words_ok [OF assms(1)]
  have ne: "frame_words ch \<noteq> []" by (simp add: frame_words_def)
  have nb: "\<not> blank (spaced (frame_words ch))" by (rule spaced_not_blank [OF ne w])
  have f: "Fields (TrimSpace (spaced (frame_words ch))) = frame_words ch"
    using TrimSpace_spaced [OF ne w] Fields_spaced [OF w] by simp
  have "\<not> blank EndOfMessage" by (simp add: blank_def EndOfMessage_word(2)) (simp add: EndOfMessage_def)
  then have t: "trim_blank_end (A @ [EndOfMessage, '''']) = A @ [EndOfMessage]"
    using trim_blank_end_snoc [of "A @ [EndOfMessage]"] trim_blank_end_last [of "A @ [EndOfMessage]"] by simp
  show ?thesis using nb f t EndOfMessage_word(2)
    by (simp add: strip_frame_def Let_def frame_words_def)
qed

lemma strip_frame_bare:
  assumes "\<not> blank l" "Fields (TrimSpace l) = f # fs" "f \<noteq> StartOfMessage"
    and "\<not> blank (last (l # A))" "TrimSpace (last (l # A)) \<noteq> EndOfMessage"
  shows "strip_frame ((l # A) @ ['''']) = (False, '''', l # A, 0)"
proof -
  have t: "trim_blank_end (l # A @ ['''']) = l # A"
    using trim_blank_end_snoc [of "l # A"] trim_blank_end_last [of "l # A"] assms(4) by simp
  show ?thesis using assms t by (simp add: strip_frame_def Let_def)
qed

lemma inner_facts:
  assumes "conforming m" "concat gs = Priority m # map address_String (Destinations m)" "\<forall>g \<in> set gs. g \<noteq> []"
  shows "\<forall>l \<in> set (inner_lines gs m bl). clean_line l" "last (inner_lines gs m bl) = last (split_on LF (tb_Text m))"
    "\<forall>g \<in> set gs. \<forall>w \<in> set g. word w"
    "\<exists>as1 ass. gs = (Priority m # map address_String as1) # map (map address_String) ass
       \<and> Destinations m = as1 @ concat ass \<and> (\<forall>g \<in> set ass. g \<noteq> [])"
proof -
  have pw: "word (Priority m)"
  proof (rule upalnum_word)
    have "priorityRe (Priority m)" using assms(1) by (simp add: conforming_def)
    then obtain a b where "Priority m = [a, b]" "a = CHR ''Q''" "is_upper b"
      by (auto simp: priorityRe_def length_Suc_conv numeral_2_eq_2)
    then show "list_all is_upalnum (Priority m)" "Priority m \<noteq> ''''" by (simp_all add: is_upalnum_def is_upper_def)
  qed
  have aw: "\<forall>a \<in> set (Destinations m). word (address_String a)" using assms(1) address_word by (simp add: conforming_def)
  have "\<forall>w \<in> set (concat gs). word w" unfolding assms(2) using pw aw by simp
  then show ws: "\<forall>g \<in> set gs. \<forall>w \<in> set g. word w" by simp
  have ori: "origin_wf m" and tx: "text_wf (tb_Text m)" using assms(1) by (simp_all only: conforming_def)
  have "clean_char CHR ''.''" by (simp add: clean_char_def control_chars_def CR_def LF_def)
  then have ow: "clean_line (origin_line m)"
    using clean_spaced [OF origin_words_ok [OF ori]] unfolding origin_line_words clean_line_def by simp
  have gw: "\<forall>l \<in> set (map spaced gs). clean_line l" using ws clean_spaced by simp
  have tw: "\<forall>l \<in> set (split_on LF (tb_Text m)). clean_line l" using text_clean [OF tx] by blast
  have "clean_line ''''" by (simp add: clean_line_def)
  with gw ow tw show "\<forall>l \<in> set (inner_lines gs m bl). clean_line l"
    unfolding inner_lines_def by (cases bl) (simp_all add: ball_Un)
  show "last (inner_lines gs m bl) = last (split_on LF (tb_Text m))" by (simp add: inner_lines_def)
  obtain g gs' where g: "gs = g # gs'" using assms(2) by (cases gs) auto
  then obtain p1 where p1: "g = Priority m # p1" using assms(2,3) by (cases g) auto
  have "concat (p1 # gs') = map address_String (Destinations m)" using assms(2) g p1 by simp
  from split_map_groups [OF this] obtain ass0 :: "address list list"
    where ass0: "p1 # gs' = map (map address_String) ass0" "concat ass0 = Destinations m" by (elim exE conjE)
  then obtain as1 ass where "ass0 = as1 # ass" by (cases ass0) auto
  then show "\<exists>as1 ass. gs = (Priority m # map address_String as1) # map (map address_String) ass
       \<and> Destinations m = as1 @ concat ass \<and> (\<forall>g \<in> set ass. g \<noteq> [])"
    using ass0 g p1 assms(3) by (intro exI [of _ as1] exI [of _ ass]) auto
qed

lemma address_block_spec:
  assumes "priorityRe p" "\<forall>a \<in> set as1. address_wf a" "word p"
    "\<forall>g \<in> set ass. g \<noteq> [] \<and> (\<forall>a \<in> set g. address_wf a)" "HasPrefix (TrimSpace l) ''.''"
  shows "\<exists>n' m'. address_block n (map spaced ((p # map address_String as1) # map (map address_String) ass) @ l # rest) m = (n', l # rest, m')
       \<and> core m' = core (m\<lparr>Priority := p, Destinations := Destinations m @ as1 @ concat ass\<rparr>) \<and> HasErrors m' = HasErrors m"
proof -
  let ?ws = "p # map address_String as1"
  have w: "\<forall>x \<in> set ?ws. word x" using assms(2,3) address_word by simp
  have f: "Fields (TrimSpace (spaced ?ws)) = ?ws" using TrimSpace_spaced [OF _ w] Fields_spaced [OF w] by simp
  define m2 where "m2 = (if p \<notin> set KnownPriorities then diag SevInfo n ''unknown_priority'' (m\<lparr>Priority := p\<rparr>) else m\<lparr>Priority := p\<rparr>)"
  have c2: "core m2 = core (m\<lparr>Priority := p\<rparr>)" "HasErrors m2 = HasErrors m" by (simp_all add: m2_def)
  let ?m3 = "appendAddresses (map address_String as1) n m2"
  have c3: "core ?m3 = core (m2\<lparr>Destinations := Destinations m2 @ as1\<rparr>)" "HasErrors ?m3 = HasErrors m2"
    using appendAddresses_spec [OF assms(2)] by blast+
  have b: "address_block n (map spaced (?ws # map (map address_String) ass) @ l # rest) m =
      more_addresses (Suc n) (map (\<lambda>g. spaced (map address_String g)) ass @ l # rest) ?m3"
    using f assms(1) by (simp add: address_block_def m2_def Let_def comp_def)
  obtain n' m' where m': "more_addresses (Suc n) (map (\<lambda>g. spaced (map address_String g)) ass @ l # rest) ?m3 = (n', l # rest, m')"
    "core m' = core (?m3\<lparr>Destinations := Destinations ?m3 @ concat ass\<rparr>)" "HasErrors m' = HasErrors ?m3"
    using more_addresses_spec [OF assms(4,5), of "Suc n" rest ?m3] by blast
  have "core (?m3\<lparr>Destinations := Destinations ?m3 @ concat ass\<rparr>) = core (m\<lparr>Priority := p, Destinations := Destinations m @ as1 @ concat ass\<rparr>)"
    using c3(1) c2(1) core_eqD [OF c3(1)] core_eqD [OF c2(1)] by (simp add: core_upd)
  then show ?thesis unfolding b m'(1) using m'(2,3) c3(2) c2(2) by simp
qed

lemma parse_inside_spec:
  assumes "conforming m" "concat gs = Priority m # map address_String (Destinations m)" "\<forall>g \<in> set gs. g \<noteq> []"
    "r = parse_inside raw framed ch (inner_lines gs m bl) off"
  shows "core r = core ((zero_tb raw)\<lparr>Framed := framed, Channel := ch, Priority := Priority m, Destinations := Destinations m,
            tb_Origin := tb_Origin m, OriginTime := OriginTime m, tb_PDM := tb_PDM m, OriginExtra := OriginExtra m,
            tb_Text := tb_Text m\<rparr>) \<and> \<not> HasErrors r"
proof -
  note c = assms(1) [unfolded conforming_def]
  note facts = inner_facts [OF assms(1-3)]
  obtain as1 ass where g: "gs = (Priority m # map address_String as1) # map (map address_String) ass"
    "Destinations m = as1 @ concat ass" "\<forall>g \<in> set ass. g \<noteq> []" using facts(4) by blast
  let ?tls = "split_on LF (tb_Text m)"
  define tail where "tail = (if bl then [''''] else []) @ ?tls"
  let ?m0 = "(zero_tb raw)\<lparr>Framed := framed, Channel := ch\<rparr>"
  have pw: "word (Priority m)" using facts(3) g(1) by simp
  have wf: "\<forall>a \<in> set as1. address_wf a" "\<forall>g \<in> set ass. g \<noteq> [] \<and> (\<forall>a \<in> set g. address_wf a)" using c g by auto
  have ori: "origin_wf m" using c by blast
  note ot = origin_line_trim [OF ori]
  have il: "inner_lines gs m bl = map spaced gs @ origin_line m # tail" by (simp add: inner_lines_def tail_def)
  have lead: "takeWhile blank (inner_lines gs m bl) = []"
    using spaced_not_blank [of "hd gs"] facts(3) unfolding il by (simp add: g(1))
  obtain n' m' where a: "address_block (off + 1) (inner_lines gs m bl) ?m0 = (n', origin_line m # tail, m')"
    "core m' = core (?m0\<lparr>Priority := Priority m, Destinations := Destinations m\<rparr>)" "HasErrors m' = HasErrors ?m0"
  proof -
    have "Destinations ?m0 = []" by (simp add: zero_tb_def)
    moreover have "HasPrefix (TrimSpace (origin_line m)) ''.''" using ot by simp
    moreover have "priorityRe (Priority m)" using c by blast
    ultimately have "\<exists>n' m'. address_block (off + 1) (inner_lines gs m bl) ?m0 = (n', origin_line m # tail, m')
      \<and> core m' = core (?m0\<lparr>Priority := Priority m, Destinations := Destinations m\<rparr>) \<and> HasErrors m' = HasErrors ?m0"
      using address_block_spec [OF _ wf(1) pw wf(2), of "origin_line m" "off + 1" tail ?m0, folded g(1), folded il]
      by (simp only: g(2) append_Nil)
    then show ?thesis using that by blast
  qed
  have z: "OriginTime m' = zero_origin_time" "tb_PDM m' = False" "OriginExtra m' = []"
    using core_eqD [OF a(2)] by (simp_all add: zero_tb_def)
  have ob: "origin_block n' (origin_line m # tail) m' = (Some tail, parseOriginLine (origin_line m) n' m')"
    using ot by (auto simp: Let_def PDMIndicator_def HasPrefix_def)
  define p where "p = parseOriginLine (origin_line m) n' m'"
  have p: "core p = core (m'\<lparr>tb_Origin := tb_Origin m, OriginTime := OriginTime m, tb_PDM := tb_PDM m, OriginExtra := OriginExtra m\<rparr>)"
    "HasErrors p = HasErrors m'" unfolding p_def using parseOriginLine_spec [OF ori z] by blast+
  have tx: "\<not> blank (hd ?tls)" "\<not> blank (last ?tls)" "?tls \<noteq> []" using c by (auto simp: text_wf_def)
  have "blank ''''" by (simp add: blank_def TrimSpace_def)
  then have d: "dropWhile blank tail = ?tls" using tx by (cases ?tls) (simp_all add: tail_def)
  have t: "trimTrailingBlankLines ?tls = tb_Text m"
    using tx by (simp add: trimTrailingBlankLines_def trim_blank_end_last Join_split_on)
  have ne: "tb_Text m \<noteq> ''''" using tx by (auto simp: blank_def TrimSpace_def)
  have dn: "Destinations p \<noteq> []" using core_eqD [OF p(1)] core_eqD [OF a(2)] c by simp
  have r: "r = p\<lparr>tb_Text := tb_Text m\<rparr>"
    unfolding assms(4) parse_inside_def Let_def lead using a(1) ob d t ne dn by (simp add: p_def)
  have "core (p\<lparr>tb_Text := tb_Text m\<rparr>) = core ((zero_tb raw)\<lparr>Framed := framed, Channel := ch, Priority := Priority m, Destinations := Destinations m,
            tb_Origin := tb_Origin m, OriginTime := OriginTime m, tb_PDM := tb_PDM m, OriginExtra := OriginExtra m,
            tb_Text := tb_Text m\<rparr>)"
    using p(1) a(2) by (simp add: core_upd)
  moreover have "\<not> HasErrors p" using p(2) a(3) by (simp add: HasErrors_def zero_tb_def)
  ultimately show ?thesis unfolding r by simp
qed

lemma Parse_framing:
  assumes "L = l # A" "\<forall>x \<in> set L. clean_line x" "\<not> blank l" "Fields (TrimSpace l) = f # fs" "f \<noteq> StartOfMessage"
    "\<not> blank (last L)" "fr \<or> TrimSpace (last L) \<noteq> EndOfMessage" "ch = '''' \<or> word ch" "sep = [LF] \<or> sep = [CR, LF]"
    and out: "out = Join ((if fr then [spaced (frame_words ch)] else []) @ L @ (if fr then [EndOfMessage] else [])) sep @ sep"
  shows "\<exists>off. Parse out = Some (parse_inside out fr (if fr then ch else '''') L off)"
proof -
  define lines where "lines = (if fr then [spaced (frame_words ch)] else []) @ L @ (if fr then [EndOfMessage] else [])"
  have "clean_line (spaced (frame_words ch))" by (rule clean_spaced [OF frame_words_ok [OF assms(8)]])
  moreover have "clean_line EndOfMessage" using clean_spaced [of "[EndOfMessage]"] EndOfMessage_word(1) by simp
  ultimately have cl: "\<forall>x \<in> set lines. clean_line x" using assms(2) by (auto simp: lines_def)
  have sp: "split_on LF (Normalise out) = lines @ ['''']"
    unfolding out lines_def [symmetric] using cl assms(1,9) by (intro parse_lines) (simp_all add: lines_def)
  obtain c where "c \<in> set l" "\<not> is_space c" using assms(3) not_blank_iff by blast
  moreover have "l \<in> set (lines @ [''''])" by (simp add: lines_def assms(1))
  ultimately have "c \<in> set (Join (split_on LF (Normalise out)) [LF])" "\<not> is_space c"
    unfolding sp using set_Join_in by blast+
  then have nb: "TrimSpace (Normalise out) \<noteq> ''''"
    using not_blank_iff [of "Normalise out"] unfolding Join_split_on blank_def by blast
  have st: "\<exists>off. strip_frame (lines @ ['''']) = (fr, (if fr then ch else ''''), L, off)"
    using strip_frame_framed [OF assms(8), of L] strip_frame_bare [OF assms(3-5), of A] assms(1,6,7)
    by (cases fr) (simp_all add: lines_def)
  then obtain off where "strip_frame (lines @ ['''']) = (fr, (if fr then ch else ''''), L, off)" ..
  then show ?thesis using nb assms(1) unfolding Parse_def Let_def sp by (intro exI [of _ off]) simp
qed

text \<open>C4: Whatever the encoder accepts the parser reads back. For a conforming message and any encoder
  options (line length, framing, channel token, CRLF, blank line), if \<open>Encode\<close> produces output then
  \<open>Parse\<close> of that output succeeds with no error diagnostic and returns the same priority,
  destinations, origin, origin time, PDM flag, extra origin tokens and text, and the framing and
  channel of the options.\<close>

theorem typeb_roundtrip:
  assumes "conforming m" "eo_Channel opts = '''' \<or> word (eo_Channel opts)" "Encode opts m = Inr out"
  shows "\<exists>r. Parse out = Some r \<and> Priority r = Priority m \<and> Destinations r = Destinations m \<and> tb_Origin r = tb_Origin m
     \<and> OriginTime r = OriginTime m \<and> tb_PDM r = tb_PDM m \<and> OriginExtra r = OriginExtra m \<and> tb_Text r = tb_Text m
     \<and> Framed r = Frame opts \<and> Channel r = (if Frame opts then eo_Channel opts else '''') \<and> \<not> HasErrors r"
proof -
  let ?fw = "spaced (frame_words (eo_Channel opts))" and ?sep = "if CRLF opts then [CR, LF] else [LF]"
  obtain gs where gs: "concat gs = Priority m # map address_String (Destinations m)" "\<forall>g \<in> set gs. g \<noteq> []"
    and last: "Frame opts \<or> TrimSpace (last (split_on LF (tb_Text m))) \<noteq> EndOfMessage"
    and out: "out = Join ((if Frame opts then [?fw] else []) @ inner_lines gs m (BlankLineAfterOrigin opts)
                 @ (if Frame opts then [EndOfMessage] else [])) ?sep @ ?sep"
    using Encode_InrD [OF assms(3,1)] unfolding Let_def frame_line inner_lines_def by auto
  define L where "L = inner_lines gs m (BlankLineAfterOrigin opts)"
  note facts = inner_facts [OF assms(1) gs]
  obtain as1 ass where g: "gs = (Priority m # map address_String as1) # map (map address_String) ass" using facts(4) by blast
  let ?ws = "Priority m # map address_String as1"
  have w: "?ws \<noteq> []" "\<forall>x \<in> set ?ws. word x" using facts(3) by (simp_all add: g)
  have f: "Fields (TrimSpace (spaced ?ws)) = ?ws" using TrimSpace_spaced [OF w] Fields_spaced [OF w(2)] by simp
  have "Priority m \<noteq> StartOfMessage" using assms(1) by (auto simp: conforming_def priorityRe_def StartOfMessage_def)
  moreover have L: "L = spaced ?ws # tl L" by (simp add: L_def inner_lines_def g)
  moreover have "last L = last (split_on LF (tb_Text m))" "\<forall>x \<in> set L. clean_line x" using facts(1,2) by (simp_all add: L_def)
  moreover have "\<not> blank (last (split_on LF (tb_Text m)))" using assms(1) by (simp add: conforming_def text_wf_def)
  moreover have "?sep = [LF] \<or> ?sep = [CR, LF]" by simp
  ultimately have "\<exists>off. Parse out = Some (parse_inside out (Frame opts) (if Frame opts then eo_Channel opts else '''') L off)"
    using Parse_framing [OF L _ spaced_not_blank [OF w] f _ _ _ assms(2) _ out [folded L_def]] last by simp
  then obtain off where "Parse out = Some (parse_inside out (Frame opts) (if Frame opts then eo_Channel opts else '''') L off)" ..
  moreover define r where "r = parse_inside out (Frame opts) (if Frame opts then eo_Channel opts else '''') L off"
  moreover note core_eqD [OF conjunct1 [OF parse_inside_spec [OF assms(1) gs r_def [unfolded L_def]]]]
    conjunct2 [OF parse_inside_spec [OF assms(1) gs r_def [unfolded L_def]]]
  ultimately show ?thesis by (intro exI [of _ r]) (simp add: zero_tb_def)
qed

definition sample_message :: tb_message where
  "sample_message = (zero_tb '''')\<lparr>Priority := ''QU'',
     Destinations := [\<lparr>Location = ''HDQ'', Department = ''RM'', ad_Carrier = ''BA'', Extra = ''''\<rparr>,
                      \<lparr>Location = ''LON'', Department = ''RM'', ad_Carrier = ''AA'', Extra = ''''\<rparr>],
     tb_Origin := \<lparr>Location = ''SIN'', Department = ''RM'', ad_Carrier = ''SQ'', Extra = ''''\<rparr>,
     OriginTime := \<lparr>Day = 2, Hour = 13, Minute = 5, Present = True\<rparr>, tb_PDM := True, tb_Text := ''AVS'' @ [LF] @ ''SQ1 Y''\<rparr>"

definition sample_options :: encode_options where
  "sample_options = \<lparr>MaxLineLength = 12, MaxLines = 0, MaxBytes = 0, Frame = True, eo_Channel = ''ABC123'', CRLF = True,
     BlankLineAfterOrigin = True, eo_Charset = None\<rparr>"

lemma sample_conforming: "conforming sample_message"
  by code_simp

theorem typeb_roundtrip_witness:
  "conforming sample_message \<and> word (eo_Channel sample_options)
   \<and> (\<exists>out r. Encode sample_options sample_message = Inr out \<and> Parse out = Some r
        \<and> Destinations r = Destinations sample_message \<and> tb_Text r = tb_Text sample_message \<and> Channel r = ''ABC123'')"
proof -
  have c: "word (eo_Channel sample_options)" by code_simp
  have ch: "eo_Channel sample_options = ''ABC123''" "Frame sample_options" by (simp_all add: sample_options_def)
  have "\<not> isl (Encode sample_options sample_message)" by code_simp
  then obtain out where e: "Encode sample_options sample_message = Inr out" by (cases "Encode sample_options sample_message") auto
  show ?thesis using typeb_roundtrip [OF sample_conforming disjI2 [OF c] e] sample_conforming c e ch by auto
qed

end
