(* ===== verification/Airimp_Roundtrip.thy ===== *)
theory Airimp_Roundtrip
  imports Airimp_Apply Typeb_Roundtrip
begin

text \<open>
  What the AIRIMP builder writes, the parser reads back: a lemma per kind of element, that its line is
  claimed by its own recognizer and by none that is tried before it, and the round trip of whole
  messages.
\<close>

section \<open>Matchers on text they were built for\<close>

lemma re_first_simps [simp]: "re_first [] = None" "re_first (x # xs) = Some x"
  by (simp_all add: re_first_def)

lemma re_first_append: "re_first (xs @ ys) = (case re_first xs of Some x \<Rightarrow> Some x | None \<Rightarrow> re_first ys)"
  by (cases xs) simp_all

lemma bind_simps [simp]: "List.bind [] f = []" "List.bind (x # xs) f = f x @ List.bind xs f"
  by (simp_all add: List.bind_def)

lemma first_bind_skip: "f x = [] \<Longrightarrow> re_first (List.bind (x # xs) f) = re_first (List.bind xs f)"
  by simp

lemma takeWhile_run: "list_all p a \<Longrightarrow> b = [] \<or> \<not> p (hd b) \<Longrightarrow> takeWhile p (a @ b) = a"
  by (cases b) (auto simp: takeWhile_append2 list_all_iff)

lemma re_class_exact: "length a = n \<Longrightarrow> list_all p a \<Longrightarrow> re_class p n n (a @ b) = [(a, b)]"
proof -
  assume a: "length a = n" "list_all p a"
  then have "takeWhile p (a @ b) = a @ takeWhile p b" by (simp add: takeWhile_append2 list_all_iff)
  then show ?thesis using a by (simp add: re_class_def)
qed

lemma re_class_run:
  assumes "list_all p a" "b = [] \<or> \<not> p (hd b)" "lo \<le> length a" "length a \<le> hi"
  shows "\<exists>ms. re_class p lo hi (a @ b) = (a, b) # ms"
proof -
  have "[lo..<Suc (length a)] = [lo..<length a] @ [length a]" using assms(3) by simp
  then show ?thesis using assms by (simp add: re_class_def takeWhile_run Let_def)
qed

lemma re_class_none: "length (takeWhile p s) < lo \<Longrightarrow> lo \<le> hi \<Longrightarrow> re_class p lo hi s = []"
  by (simp add: re_class_def)

lemma re_class_none_hd: "s = [] \<or> \<not> p (hd s) \<Longrightarrow> 0 < lo \<Longrightarrow> lo \<le> hi \<Longrightarrow> re_class p lo hi s = []"
  by (rule re_class_none) (cases s, auto)

lemma re_opt_other: "s = [] \<or> hd s \<noteq> c \<Longrightarrow> re_opt c s = [s]"
  by (cases s) (auto simp: re_opt_def)

lemma re_lit_append [simp]: "re_lit p (p @ s) = [s]"
  by (simp add: re_lit_def HasPrefix_def)

lemma re_rest_line [simp]: "LF \<notin> set s \<Longrightarrow> re_rest s = [s]"
  by (simp add: re_rest_def)

lemma char_classes [simp]:
  "is_digit c \<Longrightarrow> \<not> is_upper c" "is_upper c \<Longrightarrow> \<not> is_digit c" "is_upper c \<Longrightarrow> is_upalnum c" "is_digit c \<Longrightarrow> is_upalnum c"
  by (auto simp: is_digit_def is_upper_def is_upalnum_def)

lemma char_facts [simp]:
  "is_upalnum c \<Longrightarrow> c \<noteq> CHR '' ''" "is_upalnum c \<Longrightarrow> c \<noteq> CHR ''-''" "is_upalnum c \<Longrightarrow> c \<noteq> CHR ''/''" "is_upalnum c \<Longrightarrow> c \<noteq> LF" "is_upalnum c \<Longrightarrow> c \<noteq> CR"
  "\<not> is_upper CHR '' ''" "\<not> is_digit CHR '' ''" "\<not> is_upper CHR ''/''" "\<not> is_digit CHR ''/''" "\<not> is_upalnum CHR ''/''" "\<not> is_upalnum CHR '' ''"
  "\<not> is_upalnum LF" "\<not> is_upalnum CR"
  by (auto simp: is_digit_def is_upper_def is_upalnum_def LF_def CR_def)

section \<open>Well-formed elements\<close>

definition upper_of :: "nat \<Rightarrow> string \<Rightarrow> bool" where
  "upper_of n s \<longleftrightarrow> length s = n \<and> list_all is_upper s"

definition alnum_of :: "nat \<Rightarrow> string \<Rightarrow> bool" where
  "alnum_of n s \<longleftrightarrow> length s = n \<and> list_all is_upalnum s"

definition flight_ok :: "string \<Rightarrow> bool" where
  "flight_ok f \<longleftrightarrow> (let ds = takeWhile is_digit f; sfx = dropWhile is_digit f in
     1 \<le> length ds \<and> length ds \<le> 4 \<and> (sfx = '''' \<or> upper_of 1 sfx))"

definition date_ok :: "string \<Rightarrow> bool" where
  "date_ok d \<longleftrightarrow> length d = 5 \<and> all_digits (take 2 d) \<and> list_all is_upper (drop 2 d)"

text \<open>Text that survives trimming and the division into lines.\<close>

definition text_ok :: "string \<Rightarrow> bool" where
  "text_ok t \<longleftrightarrow> t \<noteq> '''' \<and> \<not> is_space (hd t) \<and> \<not> is_space (last t) \<and> LF \<notin> set t \<and> CR \<notin> set t"

definition two_digits :: "int \<Rightarrow> bool" where
  "two_digits n \<longleftrightarrow> 0 \<le> n \<and> n < 100"

definition name_ok :: "ai_name \<Rightarrow> bool" where
  "name_ok n \<longleftrightarrow> two_digits (an_Count n) \<and> text_ok (an_Surname n) \<and> is_upper (hd (an_Surname n))
     \<and> list_all (\<lambda>c. name_char c \<and> \<not> is_digit c) (an_Surname n)
     \<and> Givens n \<noteq> [] \<and> list_all (\<lambda>g. text_ok g \<and> CHR ''/'' \<notin> set g) (Givens n)
     \<and> an_Infant n = list_ex (\<lambda>g. Contains g ''INF'') (Givens n)"

definition ssr_ok :: "ai_ssr \<Rightarrow> bool" where
  "ssr_ok s \<longleftrightarrow> upper_of 4 (ss_Code s) \<and> alnum_of 2 (ss_Carrier s) \<and> upper_of 2 (ss_Action s) \<and> two_digits (ss_Count s)
     \<and> (Itinerary s = '''' \<or> ssrItinRe (Itinerary s)) \<and> (FreeText s = '''' \<or> text_ok (FreeText s))
     \<and> \<not> Contains (FreeText s) ''/-'' \<and> (Itinerary s = '''' \<longrightarrow> (case Fields (FreeText s) of f # _ \<Rightarrow> \<not> ssrItinRe f | [] \<Rightarrow> True))
     \<and> NameRef s = ''''"

definition seg_ok :: "ai_segment \<Rightarrow> bool" where
  "seg_ok s \<longleftrightarrow> alnum_of 2 (as_Carrier s) \<and> flight_ok (as_FlightNum s) \<and> upper_of 1 (as_Class s) \<and> date_ok (as_Date s)
     \<and> upper_of 3 (as_Board s) \<and> upper_of 3 (as_Off s) \<and> upper_of 2 (as_Action s) \<and> two_digits (as_Seats s) \<and> as_Trailer s = ''''"

lemma two_digit_text:
  assumes "two_digits n"
  shows "all_digits (itoa_int n)" "1 \<le> length (itoa_int n)" "length (itoa_int n) \<le> 2" "atoiOr (itoa_int n) d = n"
proof -
  have i: "itoa_int n = Itoa (nat n)" and n: "nat n < 100" using assms by (auto simp: two_digits_def itoa_int_def)
  have "length (Itoa (nat n)) \<le> 2" using n by (subst Itoa.simps) (auto simp: Itoa.simps [of "nat n div 10"])
  then show "all_digits (itoa_int n)" "1 \<le> length (itoa_int n)" "length (itoa_int n) \<le> 2" "atoiOr (itoa_int n) d = n"
    using n assms by (auto simp: i atoiOr_def two_digits_def Suc_le_eq)
qed

lemma flight_parts:
  assumes "flight_ok f"
  obtains ds sfx where "f = ds @ sfx" "list_all is_digit ds" "1 \<le> length ds" "length ds \<le> 4" "sfx = '''' \<or> upper_of 1 sfx"
proof -
  show thesis
    using assms by (intro that [of "takeWhile is_digit f" "dropWhile is_digit f"]) (auto simp: flight_ok_def Let_def list_all_iff dest: set_takeWhileD)
qed

lemma hd_of [simp]: "upper_of n s \<Longrightarrow> 0 < n \<Longrightarrow> is_upper (hd s)" "alnum_of n s \<Longrightarrow> 0 < n \<Longrightarrow> is_upalnum (hd s)"
  by (cases s; simp add: upper_of_def alnum_of_def; fail)+

lemma of_nonempty [simp]: "upper_of n s \<Longrightarrow> 0 < n \<Longrightarrow> s \<noteq> ''''" "alnum_of n s \<Longrightarrow> 0 < n \<Longrightarrow> s \<noteq> ''''"
  by (auto simp: upper_of_def alnum_of_def)

lemma alnum_lists:
  "upper_of n s \<Longrightarrow> list_all is_upalnum s" "alnum_of n s \<Longrightarrow> list_all is_upalnum s" "list_all is_digit s \<Longrightarrow> list_all is_upalnum s"
  by (simp_all add: upper_of_def alnum_of_def list_all_iff)

lemma date_parts:
  assumes "date_ok dt"
  obtains dd mmm where "dt = dd @ mmm" "length dd = 2" "list_all is_digit dd" "upper_of 3 mmm" "is_digit (hd dd)" "dd \<noteq> ''''"
proof -
  show thesis using assms
    by (intro that [of "take 2 dt" "drop 2 dt"]) (auto simp: date_ok_def upper_of_def all_digits_def numeral_eq_Suc length_Suc_conv)
qed

text \<open>The fields from the class on, which is where the search for an operational suffix may backtrack to.\<close>

definition seg_tail :: "string \<Rightarrow> string \<Rightarrow> string \<Rightarrow> ai_segment list" where
  "seg_tail car num s = do {
     s5 \<leftarrow> re_opt CHR '' '' s;
     (cls, s6) \<leftarrow> re_class is_upper 1 1 s5;
     s7 \<leftarrow> re_opt CHR '' '' s6;
     (dd, s8) \<leftarrow> re_class is_digit 2 2 s7;
     (mmm, s9) \<leftarrow> re_class is_upper 3 3 s8;
     s10 \<leftarrow> re_opt CHR '' '' s9;
     (brd, s11) \<leftarrow> re_class is_upper 3 3 s10;
     s12 \<leftarrow> re_opt CHR '' '' s11;
     (off, s13) \<leftarrow> re_class is_upper 3 3 s12;
     s14 \<leftarrow> re_opt CHR '' '' s13;
     (act, s15) \<leftarrow> re_class is_upper 2 2 s14;
     s16 \<leftarrow> re_opt CHR '' '' s15;
     (seats, s17) \<leftarrow> re_class is_digit 1 2 s16;
     trailer \<leftarrow> re_rest s17;
     [\<lparr>as_Carrier = car, as_FlightNum = num, as_Class = cls, as_Date = dd @ mmm, as_Board = brd, as_Off = off,
       as_Action = act, as_Seats = atoiOr seats 1, as_Trailer = trailer\<rparr>]}"

lemma segmentRe_tail:
  "segmentRe s = do {
     s0 \<leftarrow> re_opt CHR ''-'' s; (car, s1) \<leftarrow> re_class is_upalnum 2 2 s0; s2 \<leftarrow> re_opt CHR '' '' s1;
     (num, s3) \<leftarrow> re_class is_digit 1 4 s2; (sfx, s4) \<leftarrow> re_class is_upper 0 1 s3; seg_tail car (num @ sfx) s4}"
  by (simp add: segmentRe_def seg_tail_def)

lemma seg_tail_wire:
  assumes "upper_of 1 cls" "date_ok dt" "upper_of 3 brd" "upper_of 3 off" "upper_of 2 act" "two_digits n"
  shows "\<exists>ms. seg_tail car num (cls @ dt @ brd @ off @ act @ itoa_int n) =
    \<lparr>as_Carrier = car, as_FlightNum = num, as_Class = cls, as_Date = dt, as_Board = brd, as_Off = off, as_Action = act, as_Seats = n, as_Trailer = ''''\<rparr> # ms"
proof -
  obtain dd mmm where dt: "dt = dd @ mmm" "length dd = 2" "list_all is_digit dd" "upper_of 3 mmm" "is_digit (hd dd)" "dd \<noteq> ''''"
    using date_parts [OF assms(2)] by metis
  have n: "all_digits (itoa_int n)" "itoa_int n \<noteq> ''''" "is_digit (hd (itoa_int n))"
    using two_digit_text [OF assms(6)] by (auto simp: all_digits_def list_all_iff Suc_le_eq)
  obtain ms where ms: "re_class is_digit 1 2 (itoa_int n) = (itoa_int n, []) # ms"
    using re_class_run [of is_digit "itoa_int n" "[]" 1 2] two_digit_text [OF assms(6)] by (auto simp: all_digits_def)
  have cl: "length x = k \<Longrightarrow> list_all is_upper x \<Longrightarrow> re_class is_upper k k (x @ y) = [(x, y)]" for x y k by (rule re_class_exact)
  have sp: "x \<noteq> '''' \<Longrightarrow> is_upalnum (hd x) \<Longrightarrow> re_opt CHR '' '' (x @ y) = [x @ y]" for x y by (rule re_opt_other) auto
  have spn: "re_opt CHR '' '' (itoa_int n) = [itoa_int n]" using sp [of "itoa_int n" "[]"] n by simp
  have "re_class is_digit 2 2 (dd @ y) = [(dd, y)]" for y using dt by (intro re_class_exact) auto
  then show ?thesis
    using assms dt cl sp spn n ms two_digit_text(4) [OF assms(6), of 1]
    by (simp add: seg_tail_def upper_of_def)
qed

lemma segmentRe_wire:
  assumes "seg_ok s"
  shows "re_first (segmentRe (seg_Wire s)) = Some s"
proof -
  let ?tl = "as_Class s @ as_Date s @ as_Board s @ as_Off s @ as_Action s @ itoa_int (as_Seats s)"
  obtain ds sfx where f: "as_FlightNum s = ds @ sfx" "list_all is_digit ds" "1 \<le> length ds" "length ds \<le> 4" "sfx = '''' \<or> upper_of 1 sfx"
    using assms flight_parts [of "as_FlightNum s"] unfolding seg_ok_def by metis
  have ok: "alnum_of 2 (as_Carrier s)" "upper_of 1 (as_Class s)" "date_ok (as_Date s)" "upper_of 3 (as_Board s)" "upper_of 3 (as_Off s)"
    "upper_of 2 (as_Action s)" "two_digits (as_Seats s)" "as_Trailer s = ''''" using assms by (simp_all add: seg_ok_def)
  obtain ms where tl: "seg_tail (as_Carrier s) (ds @ sfx) ?tl = s # ms" using seg_tail_wire [OF ok(2-7), of "as_Carrier s" "ds @ sfx"] f(1) ok(8) by auto
  have w: "seg_Wire s = as_Carrier s @ ds @ sfx @ ?tl" by (simp add: seg_Wire_def f(1) ok(8))
  have car: "re_opt CHR ''-'' (seg_Wire s) = [seg_Wire s]" "re_class is_upalnum 2 2 (seg_Wire s) = [(as_Carrier s, ds @ sfx @ ?tl)]"
    using ok(1) by (auto simp: w alnum_of_def intro!: re_opt_other re_class_exact)
  have ds: "re_opt CHR '' '' (ds @ sfx @ ?tl) = [ds @ sfx @ ?tl]" using f(2,3) by (cases ds) (auto intro!: re_opt_other)
  have nd: "sfx @ ?tl \<noteq> [] \<and> \<not> is_digit (hd (sfx @ ?tl))" using f(5) ok(2) by (cases sfx) (auto simp: upper_of_def list_all_iff)
  then obtain ms1 where num: "re_class is_digit 1 4 (ds @ sfx @ ?tl) = (ds, sfx @ ?tl) # ms1"
    using re_class_run [OF f(2), of "sfx @ ?tl" 1 4] f(3,4) by auto
  have "\<exists>ms2. List.bind (re_class is_upper 0 1 (sfx @ ?tl)) (\<lambda>(x, s4). seg_tail (as_Carrier s) (ds @ x) s4) = s # ms2"
  proof (cases "sfx = ''''")
    case True
    obtain c where c: "as_Class s = [c]" "is_upper c" using ok(2) by (auto simp: upper_of_def length_Suc_conv)
    obtain d r where d: "as_Date s = d # r" "is_digit d" using date_parts [OF ok(3)] by (metis append_Cons list.collapse)
    have "re_class is_upper 0 1 ?tl = [([c], tl ?tl), ([], ?tl)]" using c d by (simp add: re_class_def numeral_eq_Suc)
    moreover have "seg_tail (as_Carrier s) (ds @ [c]) (tl ?tl) = []"
      using c d by (simp add: seg_tail_def re_opt_other re_class_none_hd)
    ultimately show ?thesis using True tl by simp
  next
    case False
    then obtain u where u: "sfx = [u]" "is_upper u" using f(5) by (auto simp: upper_of_def length_Suc_conv)
    have "\<exists>ms. re_class is_upper 0 1 (u # ?tl) = ([u], ?tl) # ms" using u by (simp add: re_class_def)
    then show ?thesis using u tl by auto
  qed
  then show ?thesis using car ds num by (auto simp: segmentRe_tail)
qed

section \<open>Every line is claimed by its own recognizer\<close>

lemma recognisers: "Recognizers ai_Default = [matchSSR, matchOSI, matchLocator, matchPrefixed, matchSegment, matchName]"
  by (simp add: ai_Default_def)

lemma re_lit_none [simp]: "take (length p) s \<noteq> p \<Longrightarrow> re_lit p s = []"
  by (simp add: re_lit_def HasPrefix_def)

text \<open>A line whose third character cannot follow any keyword is left to the positional recognizers.\<close>

lemma keyword_lines:
  assumes "length line \<ge> 3" "line ! 2 \<noteq> CHR ''R''" "line ! 2 \<noteq> CHR ''I''" "line ! 2 \<noteq> CHR '' ''"
  shows "matchSSR line = None" "matchOSI line = None" "matchPrefixed line = None"
proof -
  obtain a b c r where l: "line = a # b # c # r" using assms(1) by (auto simp: numeral_eq_Suc Suc_le_length_iff)
  have c: "c \<noteq> CHR ''R''" "c \<noteq> CHR ''I''" "c \<noteq> CHR '' ''" using assms by (simp_all add: l)
  have sp: "re_spaces 1 (c # r) = []" using c by (simp add: re_spaces_def re_class_none_hd)
  show "matchSSR line = None" "matchOSI line = None" using c by (simp_all add: l matchSSR_def ssrRe_def matchOSI_def)
  show "matchPrefixed line = None" using sp by (simp add: l matchPrefixed_def re_lit_def HasPrefix_def)
qed

lemma bind_empty: "(\<And>x. x \<in> set xs \<Longrightarrow> f x = []) \<Longrightarrow> List.bind xs f = []"
  by (induction xs) auto

lemma re_class_parts: "(a, b) \<in> set (re_class p lo hi s) \<Longrightarrow> s = a @ b \<and> lo \<le> length a \<and> length a \<le> hi \<and> list_all p a"
proof -
  assume "(a, b) \<in> set (re_class p lo hi s)"
  then obtain k where k: "a = take k s" "b = drop k s" "lo \<le> k" "k \<le> hi" "k \<le> length (takeWhile p s)"
    by (auto simp: re_class_def Let_def)
  have "k \<le> length s" using k(5) length_takeWhile_le le_trans by blast
  moreover have "take k s = take k (takeWhile p s)" using k(5) by (metis append_take_drop_id le_iff_add length_take min_def take_append takeWhile_dropWhile_id diff_is_0_eq take0 append_Nil2)
  then have "list_all p (take k s)" by (auto simp: list_all_iff dest!: in_set_takeD set_takeWhileD)
  ultimately show ?thesis using k by simp
qed

lemma locator_short:
  assumes "CHR '' '' \<notin> set line" "length line > 13"
  shows "matchLocator line = None"
proof -
  have "List.bind (re_lit ''RL'' line @ re_lit ''.L'' line) (\<lambda>s0. List.bind (re_spaces 0 s0) (\<lambda>s1.
      List.bind (re_class is_upalnum 2 2 s1 @ [('''', s1)]) (\<lambda>(c, s2). List.bind (re_opt CHR ''/'' s2) (\<lambda>s3.
      List.bind (re_class is_upalnum 5 8 s3) (\<lambda>(v, s4). if s4 = '''' then [(c, v)] else []))))) = []"
  proof (rule bind_empty, rule bind_empty)
    fix s0 s1 assume s0: "s0 \<in> set (re_lit ''RL'' line @ re_lit ''.L'' line)" and s1: "s1 \<in> set (re_spaces 0 s0)"
    have "length s0 > 11" using s0 assms(2) by (auto simp: re_lit_def split: if_splits)
    moreover have "CHR '' '' \<notin> set s0" using s0 assms(1) by (auto simp: re_lit_def split: if_splits dest: in_set_dropD)
    ultimately have l1: "length s1 > 11"
      using s1 re_class_parts [of _ s1 "\<lambda>c. c = CHR '' ''" 0 "length s0" s0] by (auto simp: re_spaces_def list_all_iff) (metis append_Nil in_set_conv_decomp list.exhaust set_ConsD Un_iff set_append list.set_intros(1))
    show "List.bind (re_class is_upalnum 2 2 s1 @ [('''', s1)]) (\<lambda>(c, s2). List.bind (re_opt CHR ''/'' s2) (\<lambda>s3.
      List.bind (re_class is_upalnum 5 8 s3) (\<lambda>(v, s4). if s4 = '''' then [(c, v)] else []))) = []"
    proof (rule bind_empty, clarify, rule bind_empty, rule bind_empty, clarify)
      fix c s2 s3 v s4 assume a: "(c, s2) \<in> set (re_class is_upalnum 2 2 s1 @ [('''', s1)])" "s3 \<in> set (re_opt CHR ''/'' s2)"
        "(v, s4) \<in> set (re_class is_upalnum 5 8 s3)"
      have "length s2 > 9" using a(1) l1 re_class_parts [of c s2 is_upalnum 2 2 s1] by auto
      then have "length s3 > 8" using a(2) by (auto simp: re_opt_def split: list.splits if_splits)
      then show "(if s4 = '''' then [(c, v)] else []) = []" using re_class_parts [OF a(3)] by auto
    qed
  qed
  then show ?thesis by (simp add: matchLocator_def)
qed

lemma recognise_segment:
  assumes "seg_ok s"
  shows "recognise (Recognizers ai_Default) (seg_Wire s) = Some (ESegment s)"
proof -
  obtain ds sfx where f: "as_FlightNum s = ds @ sfx" "list_all is_digit ds" "1 \<le> length ds" "sfx = '''' \<or> upper_of 1 sfx"
    using assms flight_parts [of "as_FlightNum s"] unfolding seg_ok_def by metis
  obtain dd mmm where d: "as_Date s = dd @ mmm" "length dd = 2" "list_all is_digit dd" "upper_of 3 mmm"
    using assms date_parts [of "as_Date s"] unfolding seg_ok_def by metis
  have ok: "alnum_of 2 (as_Carrier s)" "upper_of 1 (as_Class s)" "upper_of 3 (as_Board s)" "upper_of 3 (as_Off s)"
    "upper_of 2 (as_Action s)" "two_digits (as_Seats s)" "as_Trailer s = ''''" using assms by (simp_all add: seg_ok_def)
  note n = two_digit_text [OF ok(6)]
  obtain x xs where x: "ds = x # xs" using f(3) by (cases ds) auto
  have third: "seg_Wire s ! 2 = x" "is_digit x" using ok(1) f x by (auto simp: seg_Wire_def alnum_of_def nth_append)
  have len: "length (seg_Wire s) > 13" using f(1,3) d ok n by (simp add: seg_Wire_def alnum_of_def upper_of_def)
  have "list_all is_upalnum (seg_Wire s)" unfolding seg_Wire_def f(1) d(1) list_all_append
    using f(2,4) d(3,4) ok(1-5,7) n(1) by (auto simp: alnum_lists digits_upalnum all_digits_def)
  then have "CHR '' '' \<notin> set (seg_Wire s)" by (auto simp: list_all_iff)
  moreover have "x \<noteq> CHR ''R''" "x \<noteq> CHR ''I''" "x \<noteq> CHR '' ''" using third(2) by (auto simp: is_digit_def)
  ultimately have "matchSSR (seg_Wire s) = None" "matchOSI (seg_Wire s) = None" "matchPrefixed (seg_Wire s) = None" "matchLocator (seg_Wire s) = None"
    using keyword_lines [of "seg_Wire s"] locator_short len third by auto
  then show ?thesis using segmentRe_wire [OF assms] by (simp add: recognisers matchSegment_def)
qed

lemma first_bind: "xs = x # ys \<Longrightarrow> re_first (f x) = Some r \<Longrightarrow> re_first (List.bind xs f) = Some r"
  by (simp add: re_first_append)

lemma re_spaces_one: "s \<noteq> '''' \<Longrightarrow> hd s \<noteq> CHR '' '' \<Longrightarrow> lo \<le> 1 \<Longrightarrow> \<exists>ms. re_spaces lo (CHR '' '' # s) = s # ms"
  using re_class_run [of "\<lambda>c. c = CHR '' ''" "[CHR '' '']" s lo "Suc (length s)"] by (auto simp: re_spaces_def)

lemma text_ok_facts:
  "text_ok t \<Longrightarrow> t \<noteq> ''''" "text_ok t \<Longrightarrow> hd t \<noteq> CHR '' ''" "text_ok t \<Longrightarrow> LF \<notin> set t" "text_ok t \<Longrightarrow> CR \<notin> set t" "text_ok t \<Longrightarrow> TrimSpace t = t"
  by (auto simp: text_ok_def TrimSpace_ends)

lemma recognise_osi:
  assumes "alnum_of 2 c" "text_ok t"
  shows "recognise (Recognizers ai_Default) (Wire (EOSI c t)) = Some (EOSI c t)"
proof -
  have t: "t \<noteq> ''''" "hd t \<noteq> CHR '' ''" "LF \<notin> set t" "TrimSpace t = t" using text_ok_facts [OF assms(2)] by simp_all
  obtain ms where m1: "re_spaces 1 (CHR '' '' # c @ CHR '' '' # t) = (c @ CHR '' '' # t) # ms"
    using re_spaces_one [of "c @ CHR '' '' # t" 1] assms(1) by auto
  obtain ms' where m2: "re_spaces 1 (CHR '' '' # t) = t # ms'" using re_spaces_one [OF t(1,2), of 1] by auto
  have "re_class is_upalnum 2 2 (c @ CHR '' '' # t) = [(c, CHR '' '' # t)]" using assms(1) by (intro re_class_exact) (auto simp: alnum_of_def)
  then show ?thesis using m1 m2 t by (simp add: recognisers matchSSR_def ssrRe_def matchOSI_def re_lit_def HasPrefix_def)
qed

lemma recognise_locator:
  assumes "c = '''' \<or> alnum_of 2 c" "list_all is_upalnum v" "5 \<le> length v" "length v \<le> 8"
  shows "recognise (Recognizers ai_Default) (Wire (ELocator c v)) = Some (ELocator c v)"
proof -
  obtain ms where m1: "re_spaces 0 (CHR '' '' # c @ CHR ''/'' # v) = (c @ CHR ''/'' # v) # ms"
    using re_spaces_one [of "c @ CHR ''/'' # v" 0] assms(1) by auto
  have "\<exists>ms. re_class is_upalnum 2 2 (c @ CHR ''/'' # v) @ [('''', c @ CHR ''/'' # v)] = (c, CHR ''/'' # v) # ms"
    using assms(1) re_class_exact [of c 2 is_upalnum "CHR ''/'' # v"] by (auto simp: alnum_of_def re_class_none_hd)
  moreover obtain ms'' where "re_class is_upalnum 5 8 v = (v, []) # ms''" using re_class_run [OF assms(2), of "[]" 5 8] assms by auto
  ultimately show ?thesis using m1
    by (auto simp: recognisers matchSSR_def ssrRe_def matchOSI_def matchLocator_def re_lit_def HasPrefix_def re_opt_def)
qed

lemma recognise_prefixed:
  assumes "text_ok t"
  shows "recognise (Recognizers ai_Default) (Wire (ETicketing t)) = Some (ETicketing t)"
    "recognise (Recognizers ai_Default) (Wire (EContact t)) = Some (EContact t)"
    "recognise (Recognizers ai_Default) (Wire (EReceivedFrom t)) = Some (EReceivedFrom t)"
    "recognise (Recognizers ai_Default) (Wire (ERemark t)) = Some (ERemark t)"
proof -
  obtain ms where "re_spaces 1 (CHR '' '' # t) = t # ms" using re_spaces_one [of t 1] text_ok_facts [OF assms] by auto
  then show "recognise (Recognizers ai_Default) (Wire (ETicketing t)) = Some (ETicketing t)"
    "recognise (Recognizers ai_Default) (Wire (EContact t)) = Some (EContact t)"
    "recognise (Recognizers ai_Default) (Wire (EReceivedFrom t)) = Some (EReceivedFrom t)"
    "recognise (Recognizers ai_Default) (Wire (ERemark t)) = Some (ERemark t)"
    using text_ok_facts [OF assms]
    by (simp_all add: recognisers matchSSR_def ssrRe_def matchOSI_def matchLocator_def matchPrefixed_def re_lit_def HasPrefix_def Let_def)
qed

lemma digit_lines:
  assumes "line \<noteq> ''''" "is_digit (hd line)"
  shows "matchSSR line = None" "matchOSI line = None" "matchLocator line = None" "matchPrefixed line = None" "re_opt CHR ''-'' line = [line]"
proof -
  obtain d r where l: "line = d # r" "is_digit d" using assms by (cases line) auto
  then have "d \<noteq> CHR ''S''" "d \<noteq> CHR ''O''" "d \<noteq> CHR ''R''" "d \<noteq> CHR ''.''" "d \<noteq> CHR ''T''" "d \<noteq> CHR ''A''" "d \<noteq> CHR ''-''" by (auto simp: is_digit_def)
  then show "matchSSR line = None" "matchOSI line = None" "matchLocator line = None" "matchPrefixed line = None" "re_opt CHR ''-'' line = [line]"
    by (simp_all add: l(1) matchSSR_def ssrRe_def matchOSI_def matchLocator_def matchPrefixed_def re_lit_def HasPrefix_def re_opt_def)
qed

text \<open>A name is no segment: after the two characters read as a carrier comes no digit, with or without a space.\<close>

lemma not_a_segment:
  assumes "line \<noteq> ''''" "is_digit (hd line)" "line = a @ t" "length a = 2" "list_all is_upalnum a"
    and "t \<noteq> []" "\<not> is_digit (hd t)" "hd t = CHR '' '' \<Longrightarrow> tl t \<noteq> [] \<and> \<not> is_digit (hd (tl t))"
  shows "matchSegment line = None"
proof -
  have "re_class is_digit 1 4 x = []" if "x \<in> set (re_opt CHR '' '' t)" for x
    using that assms(6-8) by (intro re_class_none_hd) (auto simp: re_opt_def split: list.splits if_splits)
  then have "List.bind (re_opt CHR '' '' t) (\<lambda>s2. List.bind (re_class is_digit 1 4 s2) f) = []" for f :: "_ \<Rightarrow> ai_segment list"
    by (intro bind_empty) simp
  then show ?thesis using digit_lines(5) [OF assms(1,2)] re_class_exact [OF assms(4,5), of t] by (simp add: matchSegment_def segmentRe_tail assms(3))
qed

lemma Join_ends:
  assumes "gs \<noteq> []" "list_all text_ok gs"
  shows "Join gs sep \<noteq> ''''" "last (Join gs sep) = last (last gs)" "hd (Join gs sep) = hd (hd gs)"
  using assms
proof (induction gs)
  case (Cons g gs)
  { case 1 then show ?case using Cons by (cases gs) (auto simp: text_ok_def) }
  { case 2 then show ?case using Cons by (cases gs) (auto simp: text_ok_def) }
  { case 3 then show ?case using Cons by (cases gs) (auto simp: text_ok_def) }
qed simp_all

lemma set_Join: "set (Join gs sep) \<subseteq> (\<Union>g \<in> set gs. set g) \<union> set sep"
proof (induction gs)
  case (Cons g gs) then show ?case by (cases gs) auto
qed simp

lemma recognise_name:
  assumes "name_ok n"
  shows "recognise (Recognizers ai_Default) (name_Wire n) = Some (EName n)"
proof -
  let ?n = "itoa_int (an_Count n)" and ?s = "an_Surname n" and ?g = "Join (Givens n) ''/''"
  have ok: "two_digits (an_Count n)" "text_ok ?s" "is_upper (hd ?s)" "list_all (\<lambda>c. name_char c \<and> \<not> is_digit c) ?s" "Givens n \<noteq> []"
    "list_all (\<lambda>g. text_ok g \<and> CHR ''/'' \<notin> set g) (Givens n)" "an_Infant n = list_ex (\<lambda>g. Contains g ''INF'') (Givens n)"
    using assms by (simp_all add: name_ok_def)
  note d = two_digit_text [OF ok(1)]
  have dg: "?n \<noteq> ''''" "list_all is_digit ?n" "is_digit (hd ?n)" using d by (auto simp: all_digits_def list_all_iff Suc_le_eq)
  obtain c cs where s: "?s = c # cs" using ok(2) by (cases ?s) (auto simp: text_ok_def)
  have c: "is_upper c" "list_all (\<lambda>c. name_char c \<and> \<not> is_digit c) cs" using ok(3,4) by (simp_all add: s)
  have g: "?g \<noteq> ''''" "LF \<notin> set ?g" "split_on CHR ''/'' ?g = Givens n"
  proof -
    have t: "list_all text_ok (Givens n)" using ok(6) by (auto simp: list_all_iff)
    show "?g \<noteq> ''''" using Join_ends(1) [OF ok(5) t] .
    show "LF \<notin> set ?g" using set_Join [of "Givens n" "''/''"] t text_ok_facts(3) by (auto simp: list_all_iff LF_def)
    show "split_on CHR ''/'' ?g = Givens n" using ok(5,6) by (intro split_on_Join) (auto simp: list_all_iff)
  qed
  have w: "name_Wire n = ?n @ c # cs @ CHR ''/'' # ?g" by (simp add: name_Wire_def s)
  have seg: "matchSegment (name_Wire n) = None"
  proof (cases "length ?n = 2")
    case True
    show ?thesis by (rule not_a_segment [where a = ?n and t = "c # cs @ CHR ''/'' # ?g"]) (use True dg c alnum_lists in \<open>auto simp: w\<close>)
  next
    case False
    then have "length ?n = Suc 0" using d(2,3) by linarith
    then obtain x where x: "?n = [x]" "is_digit x" using dg by (auto simp: length_Suc_conv)
    have sp: "cs \<noteq> [] \<Longrightarrow> last cs \<noteq> CHR '' ''" using ok(2) s by (auto simp: text_ok_def)
    show ?thesis
    proof (rule not_a_segment [where a = "[x, c]" and t = "cs @ CHR ''/'' # ?g"])
      show "tl (cs @ CHR ''/'' # ?g) \<noteq> [] \<and> \<not> is_digit (hd (tl (cs @ CHR ''/'' # ?g)))" if "hd (cs @ CHR ''/'' # ?g) = CHR '' ''"
        using that c(2) sp by (cases cs rule: list.exhaust; cases "tl cs") auto
      show "\<not> is_digit (hd (cs @ CHR ''/'' # ?g))" using c(2) by (cases cs) auto
    qed (use x c in \<open>auto simp: w\<close>)
  qed
  obtain m1 where m1: "re_class is_digit 1 2 (?n @ c # cs @ CHR ''/'' # ?g) = (?n, c # cs @ CHR ''/'' # ?g) # m1"
    using re_class_run [OF dg(2), of "c # cs @ CHR ''/'' # ?g" 1 2] d c by auto
  have m2: "re_class is_upper 1 1 (c # cs @ CHR ''/'' # ?g) = [([c], cs @ CHR ''/'' # ?g)]"
    using re_class_exact [of "[c]" 1 is_upper "cs @ CHR ''/'' # ?g"] c by simp
  have "list_all name_char cs" "\<not> name_char CHR ''/''" using c(2) by (auto simp: list_all_iff name_char_def)
  then obtain m3 where m3: "re_class name_char 0 (length (cs @ CHR ''/'' # ?g)) (cs @ CHR ''/'' # ?g) = (cs, CHR ''/'' # ?g) # m3"
    using re_class_run [of name_char cs "CHR ''/'' # ?g" 0 "length (cs @ CHR ''/'' # ?g)"] by auto
  have dl: "name_Wire n \<noteq> ''''" "is_digit (hd (name_Wire n))" using dg by (simp_all add: w)
  have "re_first (nameRe (name_Wire n)) = Some (?n, ?s, ?g)"
    unfolding nameRe_def digit_lines(5) [OF dl] using m1 m2 m3 g s by (simp add: w re_lit_def HasPrefix_def)
  then show ?thesis using digit_lines [OF dl] seg g d(4) ok(7) text_ok_facts(5) [OF ok(2)]
    by (simp add: recognisers matchName_def Let_def)
qed

subsection \<open>Service requests\<close>

lemma bind_nonempty: "List.bind xs f \<noteq> [] \<longleftrightarrow> (\<exists>x \<in> set xs. f x \<noteq> [])"
  by (induction xs) auto

lemma itin_alnum:
  assumes "ssrItinRe s"
  shows "list_all is_upalnum s" "s \<noteq> ''''"
proof -
  from assms obtain a s1 n s2 x s3 c s4 d s5 m s6 where *: "(a, s1) \<in> set (re_class is_upper 6 6 s)" "(n, s2) \<in> set (re_class is_digit 1 4 s1)"
    "(x, s3) \<in> set (re_class is_upper 0 1 s2)" "(c, s4) \<in> set (re_class is_upper 1 1 s3)" "(d, s5) \<in> set (re_class is_digit 2 2 s4)"
    "(m, s6) \<in> set (re_class is_upper 3 3 s5)" "s6 = ''''"
    unfolding ssrItinRe_def by (auto simp: bind_nonempty split: if_splits prod.splits) metis
  from *(1-6) [THEN re_class_parts] *(7) show "list_all is_upalnum s" "s \<noteq> ''''" by (auto simp: list_all_iff)
qed

lemma HasPrefix_past: "x \<notin> set a \<Longrightarrow> HasPrefix (drop k (a @ s)) (x # p) \<Longrightarrow> HasPrefix (drop (k - length a) s) (x # p)"
proof (induction a arbitrary: k)
  case (Cons b a)
  then show ?case by (cases k) (auto simp: HasPrefix_def)
qed simp

lemma no_name_ref:
  assumes "CHR ''/'' \<notin> set a" "\<not> Contains t ''/-''"
  shows "LastIndex (a @ t) ''/-'' = None"
proof -
  have "\<not> HasPrefix (drop k (a @ t)) ''/-''" for k
  proof
    assume "HasPrefix (drop k (a @ t)) ''/-''"
    from HasPrefix_past [OF assms(1) this] have h: "HasPrefix (drop (k - length a) t) ''/-''" .
    then have "k - length a \<le> length t" by (cases "k - length a \<le> length t") (auto simp: HasPrefix_def)
    then show False using h assms(2) by (auto simp: Contains_def list_ex_iff)
  qed
  then show ?thesis by (simp add: LastIndex_def find_None_iff)
qed

definition ssr_rest :: "ai_ssr \<Rightarrow> string" where
  "ssr_rest s = Itinerary s @ (if Itinerary s \<noteq> '''' \<and> FreeText s \<noteq> '''' then '' '' else '''') @ FreeText s"

lemma ssr_rest_ends:
  assumes "ssr_ok s" "ssr_rest s \<noteq> ''''"
  shows "\<not> is_space (hd (ssr_rest s))" "\<not> is_space (last (ssr_rest s))" "LF \<notin> set (ssr_rest s)" "CR \<notin> set (ssr_rest s)"
proof -
  have i: "Itinerary s = '''' \<or> ssrItinRe (Itinerary s)" and f: "FreeText s = '''' \<or> text_ok (FreeText s)" using assms(1) by (simp_all add: ssr_ok_def)
  have al: "Itinerary s \<noteq> '''' \<Longrightarrow> list_all is_upalnum (Itinerary s)" using i itin_alnum by blast
  then have ih: "Itinerary s \<noteq> '''' \<Longrightarrow> is_upalnum (hd (Itinerary s)) \<and> is_upalnum (last (Itinerary s))" by (simp add: list_all_iff)
  show "\<not> is_space (hd (ssr_rest s))" "\<not> is_space (last (ssr_rest s))"
    using assms(2) ih f not_space_upalnum by (auto simp: ssr_rest_def text_ok_def split: if_splits)
  have "set (Itinerary s) \<subseteq> {c. is_upalnum c}" using al by (cases "Itinerary s = ''''") (auto simp: list_all_iff)
  then show "LF \<notin> set (ssr_rest s)" "CR \<notin> set (ssr_rest s)"
    using f text_ok_facts(3,4) [of "FreeText s"] char_facts(4,5) by (auto simp: ssr_rest_def LF_def CR_def split: if_splits)
qed

lemma recognise_ssr:
  assumes "ssr_ok s"
  shows "recognise (Recognizers ai_Default) (ssr_Wire s) = Some (ESSR s)"
proof -
  let ?r = "ssr_rest s" and ?n = "itoa_int (ss_Count s)"
  let ?tl = "if ?r = '''' then '''' else CHR '' '' # ?r"
  have ok: "upper_of 4 (ss_Code s)" "alnum_of 2 (ss_Carrier s)" "upper_of 2 (ss_Action s)" "two_digits (ss_Count s)" "NameRef s = ''''"
    using assms by (simp_all add: ssr_ok_def)
  note d = two_digit_text [OF ok(4)]
  have dg: "list_all is_digit ?n" "?n \<noteq> ''''" using d(1,2) by (auto simp: all_digits_def)
  have w: "ssr_Wire s = ''SSR'' @ '' '' @ ss_Code s @ '' '' @ ss_Carrier s @ '' '' @ ss_Action s @ ?n @ ?tl"
    using ok(5) by (auto simp: ssr_Wire_def ssr_rest_def)
  have sp: "is_upalnum (hd x) \<Longrightarrow> x \<noteq> [] \<Longrightarrow> \<exists>ms. re_spaces 1 (CHR '' '' # x @ y) = (x @ y) # ms" for x y
    using re_spaces_one [of "x @ y" 1] by auto
  obtain a1 where a1: "re_spaces 1 (CHR '' '' # ss_Code s @ CHR '' '' # ss_Carrier s @ CHR '' '' # ss_Action s @ ?n @ ?tl) = (ss_Code s @ CHR '' '' # ss_Carrier s @ CHR '' '' # ss_Action s @ ?n @ ?tl) # a1"
    using sp [of "ss_Code s"] ok(1) by fastforce
  obtain a2 where a2: "re_spaces 1 (CHR '' '' # ss_Carrier s @ CHR '' '' # ss_Action s @ ?n @ ?tl) = (ss_Carrier s @ CHR '' '' # ss_Action s @ ?n @ ?tl) # a2"
    using sp [of "ss_Carrier s"] ok(2) by fastforce
  obtain a3 where a3: "re_spaces 1 (CHR '' '' # ss_Action s @ ?n @ ?tl) = (ss_Action s @ ?n @ ?tl) # a3"
    using sp [of "ss_Action s"] ok(3) by fastforce
  have cl: "re_class is_upper 4 4 (ss_Code s @ y) = [(ss_Code s, y)]" "re_class is_upalnum 2 2 (ss_Carrier s @ y) = [(ss_Carrier s, y)]"
    "re_class is_upper 2 2 (ss_Action s @ y) = [(ss_Action s, y)]" for y
    using ok(1-3) by (simp_all add: re_class_exact upper_of_def alnum_of_def)
  obtain a4 where a4: "re_class is_digit 0 2 (?n @ ?tl) = (?n, ?tl) # a4"
    using re_class_run [OF dg(1), of ?tl 0 2] d(3) by (cases "?r = ''''") auto
  have tl: "\<exists>ms. List.bind (re_spaces 1 ?tl) re_rest @ (if ?tl = '''' then [''''] else []) = ?r # ms"
  proof (cases "?r = ''''")
    case True
    then show ?thesis by (simp add: re_spaces_def re_class_def)
  next
    case False
    then obtain ms where "re_spaces 1 (CHR '' '' # ?r) = ?r # ms" using re_spaces_one [of ?r 1] ssr_rest_ends(1) [OF assms] by fastforce
    then show ?thesis using False ssr_rest_ends(3) [OF assms] by simp
  qed
  have "re_first (ssrRe (ssr_Wire s)) = Some (ss_Code s, ss_Carrier s, ss_Action s, ?n, ?r)"
    unfolding ssrRe_def w re_lit_append using a1 a2 a3 a4 cl tl by auto
  moreover have "TrimSpace ?r = ?r" 
  proof (cases "?r = ''''")
    case False
    then show ?thesis using ssr_rest_ends(1,2) [OF assms False] by (intro TrimSpace_ends)
  qed (simp add: TrimSpace_def)
  moreover have "LastIndex ?r ''/-'' = None"
    using assms itin_alnum [of "Itinerary s"] no_name_ref [of "Itinerary s @ (if Itinerary s \<noteq> '''' \<and> FreeText s \<noteq> '''' then '' '' else '''')" "FreeText s"]
    by (fastforce simp: ssr_ok_def ssr_rest_def list_all_iff)
  moreover have "(case Fields ?r of f # _ \<Rightarrow> if ssrItinRe f then (f, TrimSpace (TrimPrefix ?r f)) else ('''', ?r) | [] \<Rightarrow> ('''', ?r)) = (Itinerary s, FreeText s)"
  proof (cases "Itinerary s = ''''")
    case True
    then show ?thesis using assms by (auto simp: ssr_rest_def ssr_ok_def split: list.splits)
  next
    case False
    then have i: "ssrItinRe (Itinerary s)" "\<forall>c \<in> set (Itinerary s). \<not> is_space c" using assms itin_alnum [of "Itinerary s"] by (auto simp: ssr_ok_def list_all_iff)
    have t: "FreeText s \<noteq> '''' \<Longrightarrow> TrimSpace (CHR '' '' # FreeText s) = FreeText s"
      using assms text_ok_facts(5) [of "FreeText s"] by (auto simp: ssr_ok_def TrimSpace_def)
    show ?thesis using False i t Fields_cons [OF False i(2), of "FreeText s"] Fields_single [OF False i(2)]
      by (cases "FreeText s = ''''") (auto simp: ssr_rest_def TrimPrefix_def HasPrefix_def TrimSpace_def)
  qed
  ultimately show ?thesis using d(4) ok(5) by (simp add: recognisers matchSSR_def Let_def)
qed

section \<open>Messages\<close>

fun elem_ok :: "element \<Rightarrow> bool" where
  "elem_ok (ESegment s) \<longleftrightarrow> seg_ok s"
| "elem_ok (EName n) \<longleftrightarrow> name_ok n"
| "elem_ok (ESSR s) \<longleftrightarrow> ssr_ok s"
| "elem_ok (EOSI c t) \<longleftrightarrow> alnum_of 2 c \<and> text_ok t"
| "elem_ok (ELocator c v) \<longleftrightarrow> (c = '''' \<or> alnum_of 2 c) \<and> list_all is_upalnum v \<and> 5 \<le> length v \<and> length v \<le> 8"
| "elem_ok (ETicketing t) \<longleftrightarrow> text_ok t"
| "elem_ok (EContact t) \<longleftrightarrow> text_ok t"
| "elem_ok (EReceivedFrom t) \<longleftrightarrow> text_ok t"
| "elem_ok (ERemark t) \<longleftrightarrow> text_ok t"
| "elem_ok (EUnknown l n) \<longleftrightarrow> False"

lemma recognise_wire: "elem_ok e \<Longrightarrow> recognise (Recognizers ai_Default) (Wire e) = Some e"
  using recognise_osi recognise_locator recognise_prefixed
  by (cases e) (simp_all only: Wire.simps(1-3) recognise_segment recognise_name recognise_ssr elem_ok.simps)

text \<open>A well-formed element is one line of at least four characters that trimming leaves alone.\<close>

lemma text_ok_append: "a \<noteq> '''' \<Longrightarrow> \<not> is_space (hd a) \<Longrightarrow> LF \<notin> set a \<Longrightarrow> CR \<notin> set a \<Longrightarrow> text_ok b \<Longrightarrow> text_ok (a @ b)"
  by (auto simp: text_ok_def)

lemma text_ok_alnum: "list_all is_upalnum s \<Longrightarrow> s \<noteq> '''' \<Longrightarrow> text_ok s"
  using char_facts(12,13) not_space_upalnum by (auto simp: text_ok_def list_all_iff)

lemma no_breaks: "\<not> is_upalnum CHR 0x0A" "\<not> is_upalnum CHR 0x0D"
  by (simp_all add: is_upalnum_def is_upper_def is_digit_def)

lemma text_ok_join: "text_ok a \<Longrightarrow> text_ok b \<Longrightarrow> text_ok (a @ b)"
  by (auto simp: text_ok_def)

lemma text_ok_word: "list_all is_upalnum a \<Longrightarrow> a \<noteq> '''' \<Longrightarrow> text_ok b \<Longrightarrow> text_ok (a @ '' '' @ b)"
  using text_ok_alnum [of a] by (auto simp: text_ok_def LF_def CR_def)

lemma seg_Wire_alnum: "seg_ok s \<Longrightarrow> list_all is_upalnum (seg_Wire s) \<and> length (seg_Wire s) > 13"
proof -
  assume s: "seg_ok s"
  obtain ds sfx where f: "as_FlightNum s = ds @ sfx" "list_all is_digit ds" "1 \<le> length ds" "sfx = '''' \<or> upper_of 1 sfx"
    using s flight_parts [of "as_FlightNum s"] unfolding seg_ok_def by metis
  obtain dd mmm where d: "as_Date s = dd @ mmm" "length dd = 2" "list_all is_digit dd" "upper_of 3 mmm"
    using s date_parts [of "as_Date s"] unfolding seg_ok_def by metis
  have ok: "alnum_of 2 (as_Carrier s)" "upper_of 1 (as_Class s)" "upper_of 3 (as_Board s)" "upper_of 3 (as_Off s)"
    "upper_of 2 (as_Action s)" "two_digits (as_Seats s)" "as_Trailer s = ''''" using s by (simp_all add: seg_ok_def)
  note n = two_digit_text [OF ok(6)]
  have "list_all is_upalnum (seg_Wire s)" unfolding seg_Wire_def f(1) d(1) list_all_append
    using f(2,4) d(3,4) ok(1-5,7) n(1) by (auto simp: alnum_lists digits_upalnum all_digits_def)
  moreover have "length (seg_Wire s) > 13" using f(1,3) d ok n by (simp add: seg_Wire_def alnum_of_def upper_of_def)
  ultimately show ?thesis by simp
qed

lemma name_Wire_text:
  assumes "name_ok n"
  shows "text_ok (name_Wire n)" "length (name_Wire n) \<ge> 4"
proof -
  let ?n = "itoa_int (an_Count n)" and ?g = "Join (Givens n) ''/''"
  have ok: "two_digits (an_Count n)" "text_ok (an_Surname n)" "Givens n \<noteq> []" "list_all text_ok (Givens n)"
    using assms by (auto simp: name_ok_def list_all_iff)
  note d = two_digit_text [OF ok(1)]
  have g: "text_ok ?g"
    using Join_ends [OF ok(3,4), of "''/''"] ok set_Join [of "Givens n" "''/''"] text_ok_facts(3,4)
    by (auto simp: text_ok_def list_all_iff LF_def CR_def)
  have sl: "text_ok (''/'' @ ?g)" using g by (intro text_ok_append) (auto simp: is_space_def LF_def CR_def)
  have "text_ok ?n" using d by (intro text_ok_alnum digits_upalnum) (auto simp: Suc_le_eq)
  then show "text_ok (name_Wire n)" unfolding name_Wire_def by (rule text_ok_join [OF _ text_ok_join [OF ok(2) sl]])
  show "length (name_Wire n) \<ge> 4" using d(2) text_ok_facts(1) [OF ok(2)] text_ok_facts(1) [OF g]
    by (cases "an_Surname n"; cases ?g) (auto simp: name_Wire_def)
qed

lemma ssr_Wire_text:
  assumes "ssr_ok s"
  shows "text_ok (ssr_Wire s)" "length (ssr_Wire s) \<ge> 4"
proof -
  let ?h = "''SSR '' @ ss_Code s @ '' '' @ ss_Carrier s @ '' '' @ ss_Action s @ itoa_int (ss_Count s)"
  have ok: "upper_of 4 (ss_Code s)" "alnum_of 2 (ss_Carrier s)" "upper_of 2 (ss_Action s)" "two_digits (ss_Count s)" "NameRef s = ''''"
    using assms by (simp_all add: ssr_ok_def)
  note d = two_digit_text [OF ok(4)]
  have w: "ssr_Wire s = ?h @ (if ssr_rest s = '''' then '''' else '' '' @ ssr_rest s)" using ok(5) by (auto simp: ssr_Wire_def ssr_rest_def)
  have al: "list_all is_upalnum (ss_Code s)" "list_all is_upalnum (ss_Carrier s)" "list_all is_upalnum (ss_Action s)" "list_all is_upalnum (itoa_int (ss_Count s))"
    using ok d by (auto simp: alnum_lists digits_upalnum)
  have "text_ok (ss_Action s @ itoa_int (ss_Count s))" using al(3,4) ok(3) by (intro text_ok_alnum) (auto simp: upper_of_def)
  then have "text_ok (''SSR'' @ '' '' @ ss_Code s @ '' '' @ ss_Carrier s @ '' '' @ ss_Action s @ itoa_int (ss_Count s))"
    using al ok by (intro text_ok_word) (auto simp: upper_of_def alnum_of_def is_upalnum_def is_upper_def)
  then have h: "text_ok ?h" by simp
  show "text_ok (ssr_Wire s)"
  proof (cases "ssr_rest s = ''''")
    case False
    have "text_ok (ssr_rest s)" using ssr_rest_ends [OF assms False] False by (simp add: text_ok_def)
    then show ?thesis unfolding w using h False by (auto simp: text_ok_def LF_def CR_def)
  qed (use h w in simp)
  show "length (ssr_Wire s) \<ge> 4" by (simp add: w)
qed

lemma Wire_text: "elem_ok e \<Longrightarrow> text_ok (Wire e) \<and> length (Wire e) \<ge> 4"
proof (cases e)
  case (ESegment s) then show "elem_ok e \<Longrightarrow> ?thesis" using seg_Wire_alnum [of s] by (auto intro: text_ok_alnum)
next
  case (ELocator c v)
  assume "elem_ok e"
  then have "text_ok v" "c = '''' \<or> list_all is_upalnum c" using ELocator by (auto intro: text_ok_alnum simp: alnum_lists)
  then show ?thesis using ELocator text_ok_facts(1) [of v] no_breaks
    by (auto simp: text_ok_def list_all_iff is_space_def LF_def CR_def Suc_le_eq)
next
  case (EOSI c t)
  assume "elem_ok e"
  then have "text_ok t" "list_all is_upalnum c" using EOSI by (auto simp: alnum_lists)
  then show ?thesis using EOSI no_breaks by (auto simp: text_ok_def list_all_iff is_space_def LF_def CR_def)
qed (auto simp: name_Wire_text ssr_Wire_text, auto simp: text_ok_def is_space_def LF_def CR_def Suc_le_eq)

lemma parse_wire: "list_all elem_ok es \<Longrightarrow> parse_elements (Recognizers ai_Default) n (map Wire es) = es"
proof (induction es arbitrary: n)
  case (Cons e es)
  have t: "text_ok (Wire e)" "length (Wire e) \<ge> 4" "recognise (Recognizers ai_Default) (Wire e) = Some e"
    using Cons.prems Wire_text recognise_wire by auto
  then have "Wire e \<noteq> ''''" "Wire e \<noteq> ''E''" "Wire e \<noteq> ''.E''" by auto
  then show ?case using Cons t text_ok_facts(5) [OF t(1)] by (simp add: Let_def)
qed simp

lemma wire_lines:
  assumes "list_all elem_ok els"
  shows "CR \<notin> set (Join (map Wire els) [LF])" "split_on LF (Join (map Wire els) [LF]) = (if els = [] then [''''] else map Wire els)"
proof -
  have t: "e \<in> set els \<Longrightarrow> text_ok (Wire e)" for e using assms Wire_text by (auto simp: list_all_iff)
  show "CR \<notin> set (Join (map Wire els) [LF])" using set_Join [of "map Wire els" "[LF]"] t text_ok_facts(4) by (force simp: LF_def CR_def)
  show "split_on LF (Join (map Wire els) [LF]) = (if els = [] then [''''] else map Wire els)"
    using split_on_Join [of "map Wire els" LF] t text_ok_facts(3) by auto
qed

lemma identifier_facts:
  assumes "i \<in> set (Identifiers ai_Default)"
  shows "CR \<notin> set i" "LF \<notin> set i" "TrimSpace i = i" "ToUpper i = i" "length i < 4" "i \<noteq> ''''"
proof -
  have "list_all is_upper i \<and> length i < 4 \<and> i \<noteq> ''''" using assms by (auto simp: ai_Default_def is_upper_def)
  then have u: "list_all is_upalnum i" "length i < 4" "i \<noteq> ''''" by (auto simp: list_all_iff)
  then show "CR \<notin> set i" "LF \<notin> set i" "TrimSpace i = i" "ToUpper i = i" "length i < 4" "i \<noteq> ''''"
    using text_ok_facts(3-5) [OF text_ok_alnum [OF u(1,3)]] by simp_all
qed

lemma build_parses:
  assumes "list_all elem_ok els" "ident = '''' \<or> ident \<in> set (Identifiers ai_Default)"
  shows "ai_Parse ai_Default (ai_Build ident els) = \<lparr>Identifier = ident, Elements = els\<rparr>"
proof (cases "ident = ''''")
  case True
  then have ls: "split_on LF (ReplaceCRLF (ai_Build ident els)) = (if els = [] then [''''] else map Wire els)"
    using wire_lines [OF assms(1)] by (simp add: ai_Build_def ReplaceCRLF_noCR)
  show ?thesis
  proof (cases els)
    case Nil
    then show ?thesis using True ls by (simp add: ai_Parse_def TrimSpace_def)
  next
    case (Cons e es)
    have t: "text_ok (Wire e)" "4 \<le> length (Wire e)" using assms(1) Cons Wire_text by auto
    then have "ToUpper (TrimSpace (Wire e)) \<notin> set (Identifiers ai_Default)"
      using identifier_facts(5) [of "ToUpper (Wire e)"] text_ok_facts(5) [OF t(1)] by auto
    then show ?thesis using True ls Cons t text_ok_facts(1,5) [OF t(1)] parse_wire [OF assms(1)] by (simp add: ai_Parse_def Let_def)
  qed
next
  case False
  then have i: "ident \<in> set (Identifiers ai_Default)" using assms(2) by simp
  note f = identifier_facts [OF i]
  have b: "ai_Build ident els = ident @ LF # Join (map Wire els) [LF]" using False by (simp add: ai_Build_def)
  have "CR \<notin> set (ai_Build ident els)" unfolding b using wire_lines(1) [OF assms(1)] f(1) by (simp add: LF_def CR_def)
  from ReplaceCRLF_noCR [OF this] have ls: "split_on LF (ReplaceCRLF (ai_Build ident els)) = ident # (if els = [] then [''''] else map Wire els)"
    using split_on_append_sep [OF f(2)] wire_lines(2) [OF assms(1)] by (simp only: b)
  have "parse_elements (Recognizers ai_Default) 2 (if els = [] then [''''] else map Wire els) = els"
    using parse_wire [OF assms(1)] by (auto simp: TrimSpace_def)
  then show ?thesis unfolding ai_Parse_def ls Let_def using i f parse_wire [OF assms(1)] by simp
qed

text \<open>C7: an AIRIMP message survives the line. Rendering any list of well-formed elements, in any order
  and with any of the identifiers of the profile or none, and parsing the text gives back the
  identifier and exactly the same elements: segments solid on the line with or without an operational
  suffix, name groups, service requests with and without an itinerary reference, service information,
  locators and the prefixed lines. No line is claimed by the recognizer of another kind.\<close>

theorem airimp_roundtrip:
  assumes "list_all elem_ok els" "ident = '''' \<or> ident \<in> set (Identifiers ai_Default)"
  shows "ai_Parse ai_Default (ai_Build ident els) = \<lparr>Identifier = ident, Elements = els\<rparr>"
  using assms by (rule build_parses)

definition demo_segment :: "string \<Rightarrow> string \<Rightarrow> ai_segment" where
  "demo_segment fl act = \<lparr>as_Carrier = ''BA'', as_FlightNum = fl, as_Class = ''Y'', as_Date = ''15JUN'', as_Board = ''LHR'', as_Off = ''JFK'',
     as_Action = act, as_Seats = 2, as_Trailer = ''''\<rparr>"

definition demo_elements :: "element list" where
  "demo_elements = [ESegment (demo_segment ''0175'' ''NN''), ESegment (demo_segment ''12A'' ''NN''),
     EName \<lparr>an_Count = 2, an_Surname = ''O'' @ [CHR 0x27] @ ''NEIL'', Givens = [''JOHNMR'', ''MARYMRS''], an_Infant = False\<rparr>,
     ESSR \<lparr>ss_Code = ''VGML'', ss_Carrier = ''BA'', ss_Action = ''NN'', ss_Count = 1, Itinerary = ''LHRJFK0175Y15JUN'', FreeText = ''NO NUTS'', NameRef = ''''\<rparr>,
     EOSI ''BA'' ''VIP'', ELocator ''1A'' ''ABCDEF'', ETicketing ''TL20MAY'']"

lemma demo_elements_ok: "list_all elem_ok demo_elements"
  by code_simp

theorem airimp_roundtrip_witness:
  "ai_Parse ai_Default (ai_Build ''SS'' demo_elements) = \<lparr>Identifier = ''SS'', Elements = demo_elements\<rparr>"
  by (rule airimp_roundtrip [OF demo_elements_ok]) (simp add: ai_Default_def)

end
