(* ===== verification/Booking_Agreement.thy ===== *)
theory Booking_Agreement
  imports Gateway_Reply Airimp_Roundtrip
begin

text \<open>
  The conversation two gateways have about a booking, end to end: the requester writes a sell
  (\<open>airimp.BuildSell\<close>), the carrier reads it and opens a record (\<open>airimp.Parse\<close>, \<open>Apply\<close>), its
  inventory decides and the decision is noted on the record (\<open>respond\<close>), the reply is written
  (\<open>BuildReply\<close>), read and applied by the requester. What a record says about its segments is the list
  of their keys and statuses, \<open>held\<close>.
\<close>

section \<open>What a message does to the statuses\<close>

definition held :: "pnr \<Rightarrow> (string \<times> string) list" where
  "held p = map (\<lambda>s. (Key s, sg_Status s)) (Segments p)"

lemma held_renumber: "map (\<lambda>s. (Key s, sg_Status s)) (renumber_from (\<lambda>i s. s\<lparr>sg_Ref := i\<rparr>) n ss) = map (\<lambda>s. (Key s, sg_Status s)) ss"
  by (induction ss arbitrary: n) (simp_all add: Key_def)

lemma held_Recompute [simp]: "held (Recompute p) = held p"
  by (simp add: held_def Recompute_def Let_def held_renumber)

lemma held_simps [simp]:
  "held (p\<lparr>Passengers := ps\<rparr>) = held p" "held (p\<lparr>SSRs := sr\<rparr>) = held p" "held (p\<lparr>OSIs := os\<rparr>) = held p"
  "held (p\<lparr>Tickets := tk\<rparr>) = held p" "held (p\<lparr>Ticketing := tg\<rparr>) = held p" "held (p\<lparr>Contacts := ct\<rparr>) = held p"
  "held (p\<lparr>Remarks := rm\<rparr>) = held p" "held (p\<lparr>ReceivedFrom := rf\<rparr>) = held p" "held (p\<lparr>Unparsed := un\<rparr>) = held p"
  "held (p\<lparr>RecordLocator := l\<rparr>) = held p" "held (unparsed d r p) = held p" "held (SetLocator o' v p) = held p"
  by (simp_all add: held_def unparsed_def SetLocator_def)

lemma Segments_givens: "Segments (snd (apply_givens n gs p)) = Segments p"
proof (induction n gs p rule: apply_givens.induct)
  case (2 n g gs p)
  then show ?case by (auto simp: Let_def split: prod.splits)
qed simp

lemma Segments_TKNE: "Segments (snd (applyTKNE el r n p)) = Segments p"
  by (auto simp: applyTKNE_def Let_def split: prod.splits option.splits)

text \<open>What neither the service requests nor a ticket touches is as it was.\<close>

lemma SSR_frame:
  assumes "\<And>sr. f (p\<lparr>SSRs := sr\<rparr>) = f p" "\<And>r n p. f (snd (applyTKNE el r n p)) = f p"
  shows "f (snd (applySSR els el p)) = f p"
proof -
  have "f (snd (case applyTKNE el r n p1 of
           (Some (t, c), p2) \<Rightarrow> ([c1, chg ''ticket'' (t @ '' coupon '' @ itoa_int c)], p2)
         | (None, p2) \<Rightarrow> ([c1], p2))) = f p1" for r n p1 c1
    using assms(2) [of r n p1] by (cases "applyTKNE el r n p1"; cases "fst (applyTKNE el r n p1)") auto
  then show ?thesis by (simp add: applySSR_def Let_def assms(1) split: option.split)
qed

lemma Segments_SSR: "Segments (snd (applySSR els el p)) = Segments p"
  by (rule SSR_frame) (simp_all add: Segments_TKNE)

fun is_segment :: "element \<Rightarrow> bool" where
  "is_segment (ESegment s) = True"
| "is_segment _ = False"

lemma Segments_other: "\<not> is_segment e \<Longrightarrow> Segments (snd (apply_element opts els e p)) = Segments p"
  by (cases e) (simp_all add: Segments_givens Segments_SSR applyLocator_def SetLocator_def unparsed_def Let_def)

lemma Segments_others: "list_all (\<lambda>e. \<not> is_segment e) es \<Longrightarrow> Segments (snd (apply_elements opts els es p)) = Segments p"
  by (induction es arbitrary: p) (simp_all add: Let_def case_prod_beta Segments_other)

lemma held_others: "list_all (\<lambda>e. \<not> is_segment e) es \<Longrightarrow> held (snd (apply_elements opts els es p)) = held p"
  by (simp add: held_def Segments_others)

lemma apply_elements_append:
  "snd (apply_elements opts els (xs @ ys) p) = snd (apply_elements opts els ys (snd (apply_elements opts els xs p)))"
  by (induction xs arbitrary: p) (simp_all add: Let_def case_prod_beta)

lemma find_index_held: "find_index (\<lambda>s. Key s = k) ss = find_index (\<lambda>x. fst x = k) (map (\<lambda>s. (Key s, sg_Status s)) ss)"
  by (induction ss) simp_all

lemma SegmentByKey_held: "SegmentByKey p k = find_index (\<lambda>x. fst x = k) (held p)"
  by (simp add: SegmentByKey_def held_def find_index_held)

lemma find_index_None: "find_index P xs = None \<longleftrightarrow> (\<forall>x \<in> set xs. \<not> P x)"
  by (induction xs) auto

lemma find_index_Some: "find_index P xs = Some i \<Longrightarrow> i < length xs \<and> P (xs ! i)"
  by (induction xs arbitrary: i) (auto split: if_splits)

lemma held_add: "held (p\<lparr>Segments := Segments p @ [s]\<rparr>) = held p @ [(Key s, sg_Status s)]"
  by (simp add: held_def)

lemma new_segment_held [simp]: "Key (new_segment el d st) = as_Key el" "sg_Status (new_segment el d st) = st"
  by (simp_all add: new_segment_def Key_def as_Key_def)

text \<open>A request for a segment the record does not have yet is held as needed.\<close>

lemma held_request:
  assumes "NeedsReply (as_Action el)" "Category (as_Action el) = CatRequest" "ao_Inbound opts" "as_Key el \<notin> fst ` set (held p)"
  shows "held (snd (applySegment opts el p)) = held p @ [(as_Key el, ''HN'')]"
proof -
  have "SegmentByKey p (as_Key el) = None" "\<And>d r. SegmentByKey (unparsed d r p) (as_Key el) = None"
    using assms(4) by (force simp: SegmentByKey_held find_index_None)+
  then show ?thesis using assms(1-3)
    by (auto simp: applySegment_def Let_def held_add split: sum.splits)
qed


lemma held_requests:
  assumes "list_all (\<lambda>el. NeedsReply (as_Action el) \<and> Category (as_Action el) = CatRequest) ls" "ao_Inbound opts"
    and "distinct (map as_Key ls)" "\<forall>el \<in> set ls. as_Key el \<notin> fst ` set (held p)"
  shows "held (snd (apply_elements opts els (map ESegment ls) p)) = held p @ map (\<lambda>el. (as_Key el, ''HN'')) ls"
  using assms
proof (induction ls arbitrary: p)
  case (Cons el ls)
  have h: "held (snd (applySegment opts el p)) = held p @ [(as_Key el, ''HN'')]" using Cons.prems by (intro held_request) auto
  have "as_Key x \<noteq> as_Key el" if "x \<in> set ls" for x using Cons.prems(3) that by (auto dest: sym)
  then have "\<forall>x \<in> set ls. as_Key x \<notin> fst ` set (held (snd (applySegment opts el p)))" using Cons.prems(4) by (simp add: h)
  from Cons.IH [OF _ _ _ this] show ?case using Cons.prems(1-3) by (simp add: Let_def case_prod_beta h)
qed simp

text \<open>What a reply makes of a status: a refusal is noted as it came, a confirmation is held unless the segment is cancelled.\<close>

definition reply_held :: "string \<Rightarrow> string \<Rightarrow> string" where
  "reply_held code st =
     (case ReplyTo code of
        None \<Rightarrow> st
      | Some h \<Rightarrow> if h = '''' then code else if Category st = CatCancel then st else h)"

definition answered :: "string \<Rightarrow> string \<Rightarrow> (string \<times> string) list \<Rightarrow> (string \<times> string) list" where
  "answered k code = map (\<lambda>(k', st). (k', if k' = k then reply_held code st else st))"

lemma update_at_key:
  "distinct (map fst xs) \<Longrightarrow> find_index (\<lambda>x. fst x = k) xs = Some i \<Longrightarrow>
     xs[i := (k, f (snd (xs ! i)))] = map (\<lambda>(k', v). (k', if k' = k then f v else v)) xs"
proof (induction xs arbitrary: i)
  case (Cons x xs)
  have "k \<notin> fst ` set xs \<Longrightarrow> map (\<lambda>(k', v). (k', if k' = k then f v else v)) xs = xs"
    by (rule map_idI) force
  with Cons show ?case by (cases x) (auto split: if_splits)
qed simp

lemma held_upd_seg:
  "held (upd_seg i f p) = (if i < length (Segments p) then (held p)[i := (Key (f (Segments p ! i)), sg_Status (f (Segments p ! i)))] else held p)"
  by (auto simp: held_def upd_seg_def map_update list_update_beyond)

lemma Key_status [simp]: "Key (s\<lparr>sg_Status := st\<rparr>) = Key s" "Key (s\<lparr>Seats := n\<rparr>) = Key s"
  by (simp_all add: Key_def)

lemma held_reply:
  assumes "Category (as_Action el) = CatReply" "distinct (map fst (held p))"
  shows "held (snd (applySegment opts el p)) = answered (as_Key el) (as_Action el) (held p)"
proof -
  have core: "held (snd (applySegment opts el p)) =
     (case SegmentByKey p (as_Key el) of None \<Rightarrow> held p | Some i \<Rightarrow> (held p)[i := (as_Key el, reply_held (as_Action el) (snd (held p ! i)))])"
  proof (cases "SegmentByKey p (as_Key el)")
    case None
    moreover have "SegmentByKey (unparsed d r p) (as_Key el) = None" for d r using None by (simp add: SegmentByKey_held)
    ultimately show ?thesis using assms(1) by (auto simp: applySegment_def Let_def split: sum.splits)
  next
    case (Some i)
    have k: "i < length (Segments p)" "Key (Segments p ! i) = as_Key el"
      using find_index_Some [OF Some [unfolded SegmentByKey_def]] by auto
    obtain h where h: "ReplyTo (as_Action el) = Some h" using assms(1) ReplyTo_agrees_with_table by metis
    have u: "SegmentByKey (unparsed d r p) (as_Key el) = Some i" for d r using Some by (simp add: SegmentByKey_held)
    have n: "(held p)[i := (as_Key el, sg_Status (Segments p ! i))] = held p"
      using k by (simp add: held_def list_update_same_conv)
    have hu: "held (upd_seg i f (unparsed d r p)) = held (upd_seg i f p)" "Segments (unparsed d r p) = Segments p" for f d r
      by (simp_all add: held_def upd_seg_def unparsed_def)
    show ?thesis using assms(1) h Some k n
      by (auto simp: applySegment_def Let_def u hu reply_held_def held_upd_seg split: sum.splits)
        (simp_all add: held_def)
  qed
  show ?thesis
  proof (cases "SegmentByKey p (as_Key el)")
    case None
    then have "answered (as_Key el) (as_Action el) (held p) = held p"
      unfolding answered_def by (intro map_idI) (force simp: SegmentByKey_held find_index_None)
    then show ?thesis using core None by simp
  next
    case (Some i)
    then show ?thesis using core update_at_key [OF assms(2)] by (simp add: answered_def SegmentByKey_held)
  qed
qed


lemma keys_answered [simp]: "map fst (answered k code h) = map fst h"
  by (auto simp: answered_def)

lemma map_of_answered: "map_of (answered k code h) k' = (if k' = k then map_option (reply_held code) (map_of h k') else map_of h k')"
  by (induction h) (auto simp: answered_def)

lemma held_replies:
  assumes "list_all (\<lambda>el. Category (as_Action el) = CatReply) ls" "distinct (map fst (held p))" "distinct (map as_Key ls)"
  shows "map_of (held (snd (apply_elements opts els (map ESegment ls) p))) k =
     (case map_of (map (\<lambda>el. (as_Key el, as_Action el)) ls) k of
        None \<Rightarrow> map_of (held p) k | Some code \<Rightarrow> map_option (reply_held code) (map_of (held p) k))"
  using assms
proof (induction ls arbitrary: p)
  case (Cons el ls)
  have h: "held (snd (applySegment opts el p)) = answered (as_Key el) (as_Action el) (held p)" using Cons.prems by (intro held_reply) auto
  have "as_Key el \<notin> dom (map_of (map (\<lambda>el. (as_Key el, as_Action el)) ls))" using Cons.prems(3) by (auto simp: dom_map_of_conv_image_fst)
  then show ?case using Cons.IH [of "snd (applySegment opts el p)"] Cons.prems
    by (auto simp: Let_def case_prod_beta h map_of_answered split: option.splits)
qed simp

section \<open>Locators\<close>

fun is_locator :: "element \<Rightarrow> bool" where
  "is_locator (ELocator c v) = True"
| "is_locator _ = False"

lemma Locators_upd [simp]:
  "Locators (Recompute p) = Locators p" "Locators (upd_seg i f p) = Locators p" "Locators (unparsed d r p) = Locators p"
  by (simp_all add: Recompute_def Let_def upd_seg_def unparsed_def)

lemma Locators_givens: "Locators (snd (apply_givens n gs p)) = Locators p"
proof (induction n gs p rule: apply_givens.induct)
  case (2 n g gs p)
  then show ?case by (auto simp: Let_def split: prod.splits)
qed simp

lemma Locators_TKNE: "Locators (snd (applyTKNE el r n p)) = Locators p"
  by (auto simp: applyTKNE_def Let_def split: prod.splits option.splits)

lemma Locators_SSR: "Locators (snd (applySSR els el p)) = Locators p"
  by (rule SSR_frame) (simp_all add: Locators_TKNE)

lemma Locators_segment: "Locators (snd (applySegment opts el p)) = Locators p"
  by (auto simp: applySegment_def Let_def split: sum.splits category.splits option.splits)

lemma Locators_other: "\<not> is_locator e \<Longrightarrow> Locators (snd (apply_element opts els e p)) = Locators p"
  by (cases e) (simp_all add: Locators_givens Locators_SSR Locators_segment)

lemma Locators_others: "list_all (\<lambda>e. \<not> is_locator e) es \<Longrightarrow> Locators (snd (apply_elements opts els es p)) = Locators p"
  by (induction es arbitrary: p) (simp_all add: Let_def case_prod_beta Locators_other)

lemma locator_for_set: "locator_for (set_locator o' v ls) o' = Some v"
  by (induction ls) simp_all

lemma LocatorFor_applied:
  assumes "c \<noteq> ''''" "ao_Self opts \<noteq> c"
  shows "LocatorFor (snd (applyLocator opts c v p)) c = Some v"
  using assms by (auto simp: applyLocator_def Let_def LocatorFor_def SetLocator_def locator_for_set)

section \<open>Deciding\<close>

lemma decide_loop_codes:
  "decide_loop ladders disp ss iv = (ans, iv') \<Longrightarrow> overrides iv = [] \<Longrightarrow>
     map fst ans = ss \<and> snd ` set ans \<subseteq> {''KK'', ''US'', ''UC'', ''UN''}"
proof (induction ss arbitrary: iv ans iv')
  case (Cons s ss)
  obtain st iv1 where d: "decide_one (gm_get [] ladders (Key s)) disp s iv = (st, iv1)" by (cases "decide_one (gm_get [] ladders (Key s)) disp s iv")
  obtain ans1 where r: "decide_loop ladders disp ss iv1 = (ans1, iv')" "ans = (s, st) # ans1"
    using Cons.prems d by (auto simp: Let_def split: prod.splits)
  have "st \<in> {''KK'', ''US'', ''UC'', ''UN''} \<and> same_setup iv1 iv"
    by (cases rule: decide_one_cases [OF d forced_none [OF Cons.prems(2)]]) auto
  with Cons.IH [OF r(1)] Cons.prems(2) show ?case by (simp add: r(2) same_setup_def)
qed simp

lemma answers_of_asked:
  assumes "overrides iv = []" "s \<in> set (Segments p)" "mine iv s" "awaitingDecision (sg_Status s)"
  shows "\<exists>code. map_of (fst (inv_Decide p iv)) (Key s) = Some code \<and> code \<in> {''KK'', ''US'', ''UC'', ''UN''}"
proof -
  obtain ans iv' where d: "decide_run p iv = (ans, iv')" by (cases "decide_run p iv")
  from decide_loop_codes [OF d [unfolded decide_run_def Let_def] assms(1)]
  have a: "map fst ans = asked_of iv p" "snd ` set ans \<subseteq> {''KK'', ''US'', ''UC'', ''UN''}" by auto
  have "s \<in> fst ` set ans" using assms a(1) unfolding set_map [symmetric] by (simp add: asked_of_def)
  then obtain st where "(s, st) \<in> set ans" by auto
  then have "(Key s, st) \<in> set (rev (map (\<lambda>(s, st). (Key s, st)) ans))" by force
  from weak_map_of_SomeI [OF this] obtain code where "map_of (answers ans) (Key s) = Some code" by (auto simp: map_of_answers)
  moreover from this have "code \<in> snd ` set ans" by (force simp: map_of_answers dest: map_of_SomeD)
  ultimately show ?thesis using a(2) by (auto simp: inv_Decide_run [OF d])
qed


section \<open>The two messages\<close>

definition as_of :: "string \<Rightarrow> segment \<Rightarrow> ai_segment" where
  "as_of action s =
     \<lparr>as_Carrier = Carrier s, as_FlightNum = FlightNum s, as_Class = Class s, as_Date = WireDate s, as_Board = Board s,
       as_Off = Off s, as_Action = action, as_Seats = Seats s, as_Trailer = ''''\<rparr>"

lemma line_of_as: "line_of action = ESegment \<circ> as_of action"
  by (simp add: fun_eq_iff line_of_def as_of_def)

lemma as_of_simps [simp]: "as_Key (as_of action s) = Key s" "as_Action (as_of action s) = action"
  by (simp_all add: as_of_def as_Key_def Key_def)

text \<open>The segments a carrier is asked for, and the lines of the request after them.\<close>

definition asked_segments :: "pnr \<Rightarrow> string \<Rightarrow> segment list" where
  "asked_segments p c = filter (\<lambda>s. Carrier s = c \<and> sg_Type s = SegmentAir) (Segments p)"

definition sell_tail :: "pnr \<Rightarrow> string \<Rightarrow> element list" where
  "sell_tail p c = groupPassengers p
     @ map (\<lambda>s. ESSR \<lparr>ss_Code = ssr_Code s, ss_Carrier = c, ss_Action = ssr_Status s, ss_Count = ssr_Count s, Itinerary = '''',
                      FreeText = ssr_Text s, NameRef = ''''\<rparr>)
          (filter (\<lambda>s. ssr_Carrier s = '''' \<or> ssr_Carrier s = c) (SSRs p))
     @ map (\<lambda>(_, t). EOSI c t) (filter (\<lambda>(c', t). c' = '''' \<or> c' = c) (OSIs p))"

definition sell_elements :: "pnr \<Rightarrow> string \<Rightarrow> string \<Rightarrow> element list" where
  "sell_elements p c action = map ESegment (map (as_of action) (asked_segments p c)) @ sell_tail p c @ own_locator p"

lemma BuildSell_elements: "asked_segments p c \<noteq> [] \<Longrightarrow> BuildSell p c action = ai_Build ''SS'' (sell_elements p c action)"
  by (simp add: BuildSell_def Let_def asked_segments_def sell_elements_def sell_tail_def line_of_as)

lemma sell_tail_plain: "list_all (\<lambda>e. \<not> is_segment e \<and> \<not> is_locator e) (sell_tail p c)"
  by (auto simp: sell_tail_def groupPassengers_def list_all_iff Let_def)

lemma sell_tail_other: "list_all (\<lambda>e. \<not> is_segment e) (sell_tail p c)" "list_all (\<lambda>e. \<not> is_locator e) (sell_tail p c)"
  using sell_tail_plain [of p c] by (simp_all add: list_all_iff)

lemma own_locator_other: "list_all (\<lambda>e. \<not> is_segment e) (own_locator p)"
  by (simp add: own_locator_def)

definition segments_of :: "element list \<Rightarrow> ai_segment list" where
  "segments_of es = List.map_filter (\<lambda>e. case e of ESegment s \<Rightarrow> Some s | _ \<Rightarrow> None) es"

lemma segments_of_simps [simp]: "segments_of (xs @ ys) = segments_of xs @ segments_of ys" "segments_of (map ESegment ls) = ls"
  by (simp_all add: segments_of_def List.map_filter_def comp_def)

lemma segments_of_other: "list_all (\<lambda>e. \<not> is_segment e) es \<Longrightarrow> segments_of es = []"
proof (induction es)
  case (Cons e es)
  then show ?case by (cases e) (simp_all add: segments_of_def List.map_filter_simps)
qed (simp add: segments_of_def List.map_filter_simps)

lemma sell_segments: "ai_Segments \<lparr>Identifier = i, Elements = sell_elements p c action\<rparr> = map (as_of action) (asked_segments p c)"
  unfolding ai_Segments_def segments_of_def [symmetric]
  by (simp add: sell_elements_def segments_of_other sell_tail_other own_locator_other del: map_map)

lemma names_ok: "list_all elem_ok (Elements m) \<Longrightarrow> list_all elem_ok (map EName (ai_Names m))"
  by (auto simp: ai_Names_def List.map_filter_def list_all_iff split: element.splits)

lemma distinct_asked: "distinct (map Key (Segments p)) \<Longrightarrow> distinct (map Key (asked_segments p c))"
  by (simp add: asked_segments_def distinct_map_filter)

section \<open>The carrier's record\<close>

definition theirs :: "string \<Rightarrow> pnr \<Rightarrow> bool" where
  "theirs c p \<longleftrightarrow> list_all (\<lambda>s. sg_Type s = SegmentAir \<and> Carrier s = c) (Segments p)"

lemma theirs_renumber:
  "list_all (\<lambda>s. sg_Type s = SegmentAir \<and> Carrier s = c) (renumber_from (\<lambda>i s. s\<lparr>sg_Ref := i\<rparr>) n ss)
     = list_all (\<lambda>s. sg_Type s = SegmentAir \<and> Carrier s = c) ss"
  by (induction ss arbitrary: n) simp_all

lemma theirs_Recompute [simp]: "theirs c (Recompute p) = theirs c p"
  by (simp add: theirs_def Recompute_def Let_def theirs_renumber)

lemma theirs_of_request:
  assumes "theirs c p" "as_Carrier el = c" "NeedsReply (as_Action el)" "Category (as_Action el) = CatRequest"
    "as_Key el \<notin> fst ` set (held p)"
  shows "theirs c (snd (applySegment opts el p))"
proof -
  have "SegmentByKey p (as_Key el) = None" "\<And>d r. SegmentByKey (unparsed d r p) (as_Key el) = None"
    using assms(5) by (force simp: SegmentByKey_held find_index_None)+
  then show ?thesis using assms(1-4)
    by (auto simp: applySegment_def Let_def split: sum.splits) (auto simp: theirs_def unparsed_def new_segment_def)
qed


lemma theirs_of_requests:
  assumes "list_all (\<lambda>el. as_Carrier el = c \<and> NeedsReply (as_Action el) \<and> Category (as_Action el) = CatRequest) ls" "ao_Inbound opts"
    and "distinct (map as_Key ls)" "\<forall>el \<in> set ls. as_Key el \<notin> fst ` set (held p)" "theirs c p"
  shows "theirs c (snd (apply_elements opts els (map ESegment ls) p))"
  using assms
proof (induction ls arbitrary: p)
  case (Cons el ls)
  have h: "held (snd (applySegment opts el p)) = held p @ [(as_Key el, ''HN'')]" using Cons.prems by (intro held_request) auto
  have "as_Key x \<noteq> as_Key el" if "x \<in> set ls" for x using Cons.prems(3) that by (auto dest: sym)
  then have new: "\<forall>x \<in> set ls. as_Key x \<notin> fst ` set (held (snd (applySegment opts el p)))" using Cons.prems(4) by (simp add: h)
  have "theirs c (snd (applySegment opts el p))" using Cons.prems by (intro theirs_of_request) auto
  from Cons.IH [OF _ _ _ new this] show ?case using Cons.prems(1-3) by (simp add: Let_def case_prod_beta)
qed simp

text \<open>The record a sell opens at the carrier, before it has a locator of its own.\<close>

definition opened :: "time \<Rightarrow> string \<Rightarrow> string \<Rightarrow> ai_message \<Rightarrow> pnr" where
  "opened at frm c m = snd (Apply (inbound_options at frm c) m (zero_pnr\<lparr>pnr_Status := StatusOpen\<rparr>))"

lemma NN_request: "NeedsReply ''NN''" "Category ''NN'' = CatRequest"
  by code_simp+

lemma inbound_simps [simp]: "ao_Inbound (inbound_options at frm c)" "ao_Self (inbound_options at frm c) = c"
  by (simp_all add: inbound_options_def)

lemma opened_sell:
  assumes "distinct (map Key (Segments p))" "Elements m = sell_elements p c ''NN''"
  shows "held (opened at frm c m) = map (\<lambda>s. (Key s, ''HN'')) (asked_segments p c)" "theirs c (opened at frm c m)"
proof -
  let ?ls = "map (as_of ''NN'') (asked_segments p c)" and ?o = "inbound_options at frm c" and ?z = "zero_pnr\<lparr>pnr_Status := StatusOpen\<rparr>"
  let ?q = "snd (apply_elements ?o (Elements m) (map ESegment ?ls) ?z)"
  have z: "held ?z = []" "theirs c ?z" by (simp_all add: held_def theirs_def zero_pnr_def)
  have d: "distinct (map as_Key ?ls)" using distinct_asked [OF assms(1)] by (simp add: comp_def)
  have tl: "list_all (\<lambda>e. \<not> is_segment e) (sell_tail p c @ own_locator p)" by (simp add: sell_tail_other own_locator_other)
  have o: "opened at frm c m = Recompute (snd (apply_elements ?o (Elements m) (sell_tail p c @ own_locator p) ?q))"
    by (simp add: opened_def Apply_def Let_def case_prod_beta assms(2) sell_elements_def apply_elements_append del: map_map)
  have "held ?q = map (\<lambda>s. (Key s, ''HN'')) (asked_segments p c)"
    using held_requests [of ?ls ?o ?z "Elements m"] d z by (simp add: NN_request list_all_iff comp_def del: map_map) simp
  then show "held (opened at frm c m) = map (\<lambda>s. (Key s, ''HN'')) (asked_segments p c)" by (simp add: o held_others [OF tl])
  have "theirs c ?q"
    using d z by (intro theirs_of_requests) (auto simp: NN_request list_all_iff asked_segments_def as_of_def)
  then show "theirs c (opened at frm c m)" unfolding o theirs_Recompute unfolding theirs_def Segments_others [OF tl] .
qed


lemma opened_locators:
  assumes "Elements m = sell_elements p c ''NN''" "fst (pnr_Origin p) = d" "d \<noteq> c" "d \<noteq> ''''" "RecordLocator p \<noteq> ''''"
  shows "Locators (opened at frm c m) = [\<lparr>Owner = d, lv_Value = RecordLocator p\<rparr>]"
proof -
  let ?o = "inbound_options at frm c" and ?z = "zero_pnr\<lparr>pnr_Status := StatusOpen\<rparr>"
  let ?es = "map ESegment (map (as_of ''NN'') (asked_segments p c)) @ sell_tail p c"
  let ?q = "snd (apply_elements ?o (Elements m) ?es ?z)"
  have "list_all (\<lambda>e. \<not> is_locator e) ?es" using sell_tail_other(2) [of p c] by (auto simp: list_all_iff)
  from Locators_others [OF this] have q: "Locators ?q = []" by (simp add: zero_pnr_def)
  have "opened at frm c m = Recompute (snd (apply_elements ?o (Elements m) (own_locator p) ?q))"
    by (simp add: opened_def Apply_def Let_def case_prod_beta assms(1) sell_elements_def apply_elements_append del: map_map)
  then show ?thesis using q assms(2-5)
    by (simp add: own_locator_def applyLocator_def Let_def case_prod_beta LocatorFor_def SetLocator_def del: map_map)
qed

section \<open>Deciding and replying\<close>

text \<open>The record after the decision, as \<open>respond\<close> stores it, is \<open>decided\<close>.\<close>

lemma held_decided:
  "held (decided outcomes q) = map (\<lambda>(k, st). (k, case map_of outcomes k of None \<Rightarrow> st | Some code \<Rightarrow> decided_status code)) (held q)"
proof -
  have "held (q\<lparr>Segments := map (decided_segment outcomes) (Segments q)\<rparr>)
      = map (\<lambda>(k, st). (k, case map_of outcomes k of None \<Rightarrow> st | Some code \<Rightarrow> decided_status code)) (held q)"
    by (auto simp: held_def decided_segment_def split: option.splits)
  then show ?thesis by (simp add: decided_def)
qed

lemma reply_codes_facts:
  assumes "code \<in> {''KK'', ''US'', ''UC'', ''UN''}"
  shows "Category code = CatReply" "upper_of 2 code" "Category st \<noteq> CatCancel \<Longrightarrow> reply_held code st = decided_status code"
proof -
  have "list_all (\<lambda>code. Category code = CatReply \<and> upper_of 2 code) [''KK'', ''US'', ''UC'', ''UN'']" by code_simp
  with assms show "Category code = CatReply" "upper_of 2 code" by (auto simp: list_all_iff)
  then have "ReplyTo code \<noteq> None" using ReplyTo_agrees_with_table [of code] by simp
  then show "Category st \<noteq> CatCancel \<Longrightarrow> reply_held code st = decided_status code"
    by (auto simp: reply_held_def decided_status_def)
qed

lemma decided_not_needed: "code \<in> {''KK'', ''US'', ''UC'', ''UN''} \<Longrightarrow> decided_status code \<noteq> ''HN''"
proof -
  have "list_all (\<lambda>code. decided_status code \<noteq> ''HN'') [''KK'', ''US'', ''UC'', ''UN'']" by code_simp
  then show "code \<in> {''KK'', ''US'', ''UC'', ''UN''} \<Longrightarrow> decided_status code \<noteq> ''HN''" by (auto simp: list_all_iff)
qed

definition reply_tail :: "pnr \<Rightarrow> string \<Rightarrow> element list" where
  "reply_tail q self = (if RecordLocator q \<noteq> '''' then [ELocator self (RecordLocator q)] else [])
     @ map (\<lambda>l. ELocator (Owner l) (lv_Value l)) (filter (\<lambda>l. Owner l \<noteq> self \<and> lv_Value l \<noteq> '''') (Locators q))"

definition reply_as :: "string strmap \<Rightarrow> ai_segment \<Rightarrow> ai_segment" where
  "reply_as outcomes s = s\<lparr>as_Action := (case map_of outcomes (as_Key s) of Some c \<Rightarrow> c | None \<Rightarrow> ''NO''), as_Trailer := ''''\<rparr>"

lemma reply_as_simps [simp]:
  "as_Key (reply_as outcomes s) = as_Key s" "as_Action (reply_as outcomes s) = (case map_of outcomes (as_Key s) of Some c \<Rightarrow> c | None \<Rightarrow> ''NO'')"
  by (simp_all add: reply_as_def as_Key_def)

lemma BuildReply_elements:
  "BuildReply m outcomes (Some q) self =
     ai_Build '''' (map ESegment (map (reply_as outcomes) (ai_Segments m)) @ map EName (ai_Names m) @ reply_tail q self)"
proof -
  have "reply_line outcomes = ESegment \<circ> reply_as outcomes" by (simp add: fun_eq_iff reply_line_def reply_as_def)
  then show ?thesis by (simp add: BuildReply_def reply_tail_def)
qed

lemma reply_as_ok: "seg_ok s \<Longrightarrow> upper_of 2 (as_Action (reply_as outcomes s)) \<Longrightarrow> seg_ok (reply_as outcomes s)"
  by (simp add: seg_ok_def reply_as_def)


section \<open>The requester's record\<close>

lemma reply_tail_other: "list_all (\<lambda>e. \<not> is_segment e) (map EName ns @ reply_tail q self)"
  by (auto simp: reply_tail_def list_all_iff)

lemma requester_held:
  assumes "distinct (map Key (Segments p))" "Elements m = map ESegment ls @ map EName ns @ reply_tail q self"
    and "list_all (\<lambda>el. Category (as_Action el) = CatReply) ls" "distinct (map as_Key ls)"
  shows "map_of (held (snd (Apply opts m p))) k =
     (case map_of (map (\<lambda>el. (as_Key el, as_Action el)) ls) k of
        None \<Rightarrow> map_of (held p) k | Some code \<Rightarrow> map_option (reply_held code) (map_of (held p) k))"
proof -
  have "held (snd (Apply opts m p)) = held (snd (apply_elements opts (Elements m) (map ESegment ls) p))"
    unfolding Apply_def Let_def case_prod_beta snd_conv held_Recompute
    by (subst (2) assms(2), subst apply_elements_append, rule held_others [OF reply_tail_other])
  moreover have "distinct (map fst (held p))" using assms(1) by (simp add: held_def comp_def)
  ultimately show ?thesis using held_replies [OF assms(3) _ assms(4)] by simp
qed

text \<open>The requester learns the carrier's locator; the locators after it are the requester's own.\<close>

lemma requester_locator:
  assumes "Elements m = map ESegment ls @ map EName ns @ reply_tail q c" "RecordLocator q = L" "L \<noteq> ''''"
    and "list_all (\<lambda>l. Owner l = d) (Locators q)" "c \<noteq> ''''" "d \<noteq> c" "d \<noteq> ''''"
  shows "LocatorFor (snd (Apply (inbound_options at frm d) m p)) c = Some L"
proof -
  let ?o = "inbound_options at frm d"
  define rest where "rest = map (\<lambda>l. ELocator (Owner l) (lv_Value l)) (filter (\<lambda>l. Owner l \<noteq> c \<and> lv_Value l \<noteq> '''') (Locators q))"
  define q1 where "q1 = snd (apply_elements ?o (Elements m) (map ESegment ls @ map EName ns) p)"
  have skip: "snd (apply_elements ?o els rest r) = r" for els r
  proof -
    have "list_all (\<lambda>e. \<exists>v. e = ELocator d v) rest" using assms(4) by (auto simp: rest_def list_all_iff)
    then show ?thesis
      by (induction rest arbitrary: r) (auto simp: Let_def case_prod_beta applyLocator_def assms(7))
  qed
  have "snd (Apply ?o m p) = Recompute (snd (applyLocator ?o c L q1))"
    using assms(2,3) by (simp add: Apply_def Let_def case_prod_beta assms(1) apply_elements_append reply_tail_def rest_def [symmetric] skip q1_def)
  moreover have "LocatorFor (Recompute r) c = LocatorFor r c" for r by (simp add: LocatorFor_def)
  ultimately show ?thesis using LocatorFor_applied [of c ?o] assms(5,6) by simp
qed

section \<open>Agreement\<close>

lemma asked_answered:
  assumes "held q = map (\<lambda>s. (Key s, ''HN'')) ss" "theirs c q" "overrides iv = []" "inv_Carrier iv = '''' \<or> inv_Carrier iv = c" "s \<in> set ss"
  shows "\<exists>code. map_of (fst (inv_Decide q iv)) (Key s) = Some code \<and> code \<in> {''KK'', ''US'', ''UC'', ''UN''}"
proof -
  have "(Key s, ''HN'') \<in> set (held q)" using assms(1,5) by simp
  then obtain t where t: "t \<in> set (Segments q)" "Key t = Key s" "sg_Status t = ''HN''" by (auto simp: held_def)
  then have "mine iv t" using assms(2,4) by (auto simp: theirs_def list_all_iff mine_def)
  then show ?thesis using answers_of_asked [OF assms(3) t(1)] t(2,3) by (simp add: awaitingDecision_def)
qed

lemma map_of_by_key: "map_of (map (\<lambda>s. (key s, f (key s))) ss) k = (if k \<in> key ` set ss then Some (f k) else None)"
  by (induction ss) auto

lemma held_lookup: "distinct (map Key (Segments p)) \<Longrightarrow> s \<in> set (Segments p) \<Longrightarrow> map_of (held p) (Key s) = Some (sg_Status s)"
  by (rule map_of_is_SomeI) (auto simp: held_def comp_def)

lemma reply_ok:
  assumes "list_all elem_ok (sell_elements p c ''NN'')" "RecordLocator p \<noteq> ''''" "fst (pnr_Origin p) = d" "elem_ok (ELocator c L)"
    and "\<forall>s \<in> set (asked_segments p c). \<exists>code. map_of outcomes (Key s) = Some code \<and> code \<in> {''KK'', ''US'', ''UC'', ''UN''}"
    and "RecordLocator q = L" "Locators q = [\<lparr>Owner = d, lv_Value = RecordLocator p\<rparr>]"
  shows "list_all elem_ok (map ESegment (map (reply_as outcomes) (map (as_of ''NN'') (asked_segments p c)))
     @ map EName (ai_Names \<lparr>Identifier = i, Elements = sell_elements p c ''NN''\<rparr>) @ reply_tail q c)"
proof -
  have "seg_ok (reply_as outcomes (as_of ''NN'' s))" if s: "s \<in> set (asked_segments p c)" for s
  proof (rule reply_as_ok)
    have "ESegment (as_of ''NN'' s) \<in> set (sell_elements p c ''NN'')" using s by (simp add: sell_elements_def)
    then have "elem_ok (ESegment (as_of ''NN'' s))" using assms(1) unfolding list_all_iff by blast
    then show "seg_ok (as_of ''NN'' s)" by simp
    from assms(5) s reply_codes_facts(2) show "upper_of 2 (as_Action (reply_as outcomes (as_of ''NN'' s)))" by fastforce
  qed
  moreover have "elem_ok (ELocator d (RecordLocator p))" using assms(1-3) by (auto simp: sell_elements_def own_locator_def)
  moreover have "list_all elem_ok (map EName (ai_Names \<lparr>Identifier = i, Elements = sell_elements p c ''NN''\<rparr>))"
    using assms(1) by (intro names_ok) simp
  ultimately show ?thesis using assms(4,6,7) by (auto simp: list_all_iff reply_tail_def)
qed

text \<open>The requester's side of a reply that answers every segment asked for.\<close>

lemma requester_side:
  fixes p c outcomes
  defines "ss \<equiv> asked_segments p c"
  assumes "distinct (map Key (Segments p))" "\<forall>s \<in> set ss. Category (sg_Status s) \<noteq> CatCancel"
    and code: "\<forall>s \<in> set ss. \<exists>code. map_of outcomes (Key s) = Some code \<and> code \<in> {''KK'', ''US'', ''UC'', ''UN''}"
    and m: "Elements m = map ESegment (map (reply_as outcomes) (map (as_of ''NN'') ss)) @ map EName ns @ reply_tail q self"
  shows "s \<in> set ss \<Longrightarrow> map_of (held (snd (Apply opts m p))) (Key s) = map_option decided_status (map_of outcomes (Key s))"
    and "s \<in> set (Segments p) \<Longrightarrow> s \<notin> set ss \<Longrightarrow> map_of (held (snd (Apply opts m p))) (Key s) = Some (sg_Status s)"
proof -
  let ?ls = "map (reply_as outcomes) (map (as_of ''NN'') ss)"
  let ?f = "\<lambda>k. case map_of outcomes k of Some c \<Rightarrow> c | None \<Rightarrow> ''NO''"
  have keys: "map_of (map (\<lambda>el. (as_Key el, as_Action el)) ?ls) k = (if k \<in> Key ` set ss then Some (?f k) else None)" for k
    using map_of_by_key [of Key ?f ss k] by (simp add: comp_def)
  have rep: "list_all (\<lambda>el. Category (as_Action el) = CatReply) ?ls" using code reply_codes_facts(1) by (fastforce simp: list_all_iff)
  have dk: "distinct (map as_Key ?ls)" using distinct_asked [OF assms(2)] by (simp add: comp_def ss_def)
  have req: "map_of (held (snd (Apply opts m p))) k =
      (if k \<in> Key ` set ss then map_option (reply_held (?f k)) (map_of (held p) k) else map_of (held p) k)" for k
    using requester_held [OF assms(2) m rep dk] by (simp add: keys del: map_map)
  show "map_of (held (snd (Apply opts m p))) (Key s) = map_option decided_status (map_of outcomes (Key s))" if s: "s \<in> set ss"
  proof -
    from code s obtain cd where cd: "map_of outcomes (Key s) = Some cd" "cd \<in> {''KK'', ''US'', ''UC'', ''UN''}" by blast
    have "map_of (held p) (Key s) = Some (sg_Status s)" using s by (intro held_lookup [OF assms(2)]) (simp add: ss_def asked_segments_def)
    moreover have "reply_held cd (sg_Status s) = decided_status cd" using assms(3) s by (intro reply_codes_facts(3) [OF cd(2)]) simp
    ultimately show ?thesis using s cd by (simp add: req)
  qed
  show "map_of (held (snd (Apply opts m p))) (Key s) = Some (sg_Status s)" if s: "s \<in> set (Segments p)" "s \<notin> set ss"
  proof -
    have "Key s \<noteq> Key t" if "t \<in> set ss" for t
      using inj_onD [of Key "set (Segments p)" s t] assms(2) s that by (auto simp: distinct_map ss_def asked_segments_def)
    then have "Key s \<notin> Key ` set ss" by blast
    then show ?thesis using held_lookup [OF assms(2) s(1)] by (simp add: req)
  qed
qed

text \<open>
  C2: after a request and its reply both sides say the same. A requester sends a carrier the sell of
  a record; the carrier opens a record from the text, gives it a locator, lets its inventory decide
  and notes the decision; the requester applies the reply. Then every segment asked for has on the
  requester's record exactly the status it has on the carrier's, every other segment is as it was,
  and each side knows the other's locator. The two messages travel as text through the builder and
  the parser of the line.
\<close>

theorem booking_agreement:
  fixes p c L d iv at1 at2
  defines "m \<equiv> ai_Parse ai_Default (BuildSell p c ''NN'')"
  defines "q \<equiv> (opened at1 d c m)\<lparr>RecordLocator := L\<rparr>"
  defines "outcomes \<equiv> fst (inv_Decide q iv)"
  defines "q' \<equiv> decided outcomes q"
  defines "p' \<equiv> snd (Apply (inbound_options at2 c d) (ai_Parse ai_Default (BuildReply m outcomes (Some q') c)) p)"
  assumes "asked_segments p c \<noteq> []" "distinct (map Key (Segments p))" "list_all elem_ok (sell_elements p c ''NN'')"
    and "\<forall>s \<in> set (asked_segments p c). Category (sg_Status s) \<noteq> CatCancel"
    and "overrides iv = []" "inv_Carrier iv = '''' \<or> inv_Carrier iv = c"
    and "fst (pnr_Origin p) = d" "RecordLocator p \<noteq> ''''" "d \<noteq> c" "alnum_of 2 c" "alnum_of 2 d" "elem_ok (ELocator c L)"
  shows "(\<forall>s \<in> set (asked_segments p c). map_of (held p') (Key s) = map_of (held q') (Key s) \<and> map_of (held q') (Key s) \<noteq> Some ''HN'')
       \<and> (\<forall>s \<in> set (Segments p). s \<notin> set (asked_segments p c) \<longrightarrow> map_of (held p') (Key s) = Some (sg_Status s))
       \<and> LocatorFor p' c = Some L \<and> LocatorFor q' d = Some (RecordLocator p)"
proof -
  let ?ss = "asked_segments p c"
  have m: "m = \<lparr>Identifier = ''SS'', Elements = sell_elements p c ''NN''\<rparr>"
    unfolding m_def BuildSell_elements [OF assms(6)] by (rule build_parses [OF assms(8)]) (simp add: ai_Default_def)
  have ne: "c \<noteq> ''''" "d \<noteq> ''''" "L \<noteq> ''''" using assms(15,16,17) by (auto simp: alnum_of_def)
  have op: "held q = map (\<lambda>s. (Key s, ''HN'')) ?ss" "theirs c q" "Locators q = [\<lparr>Owner = d, lv_Value = RecordLocator p\<rparr>]"
    using opened_sell [OF assms(7), of m c at1 d] opened_locators [of m p c d at1 d] assms(12-14) ne m by (simp_all add: q_def theirs_def)
  have code: "\<forall>s \<in> set ?ss. \<exists>code. map_of outcomes (Key s) = Some code \<and> code \<in> {''KK'', ''US'', ''UC'', ''UN''}"
    using asked_answered [OF op(1,2) assms(10,11)] by (simp add: outcomes_def)
  have q': "RecordLocator q' = L" "Locators q' = [\<lparr>Owner = d, lv_Value = RecordLocator p\<rparr>]"
    using op(3) by (simp_all add: q'_def decided_def Recompute_def Let_def q_def)
  let ?ls = "map (reply_as outcomes) (map (as_of ''NN'') ?ss)"
  let ?m = "\<lparr>Identifier = '''', Elements = map ESegment ?ls @ map EName (ai_Names m) @ reply_tail q' c\<rparr>"
  have "list_all elem_ok (Elements ?m)"
    unfolding m ai_message.simps by (rule reply_ok [OF assms(8) assms(13) assms(12) assms(17) code q'])
  from build_parses [OF this, of "''''"] have p': "p' = snd (Apply (inbound_options at2 c d) ?m p)"
    by (simp add: p'_def BuildReply_elements m sell_segments del: map_map)
  have car: "map_of (held q') (Key s) = map_option decided_status (map_of outcomes (Key s)) \<and> map_of (held q') (Key s) \<noteq> Some ''HN''"
    if s: "s \<in> set ?ss" for s
  proof -
    let ?f = "\<lambda>k. case map_of outcomes k of None \<Rightarrow> ''HN'' | Some code \<Rightarrow> decided_status code"
    from code s obtain cd where cd: "map_of outcomes (Key s) = Some cd" "decided_status cd \<noteq> ''HN''" using decided_not_needed by blast
    then show ?thesis using map_of_by_key [of Key ?f ?ss "Key s"] s by (simp add: q'_def held_decided op(1) comp_def)
  qed
  note side = requester_side [OF assms(7) assms(9) code, of ?m "ai_Names m" q' c, unfolded ai_message.simps, OF refl]
  have s1: "map_of (held p') (Key s) = map_option decided_status (map_of outcomes (Key s))" if "s \<in> set ?ss" for s
    unfolding p' by (rule side(1) [OF that])
  have s2: "map_of (held p') (Key s) = Some (sg_Status s)" if "s \<in> set (Segments p)" "s \<notin> set ?ss" for s
    unfolding p' by (rule side(2) [OF that])
  have "LocatorFor p' c = Some L" unfolding p'
    using q' ne assms(14) by (intro requester_locator [where ls = ?ls and ns = "ai_Names m" and q = q']) auto
  moreover have "LocatorFor q' d = Some (RecordLocator p)" using q'(2) by (simp add: LocatorFor_def)
  ultimately show ?thesis using s1 s2 car by metis
qed

definition demo_leg :: "string \<Rightarrow> string \<Rightarrow> string \<Rightarrow> string \<Rightarrow> segment" where
  "demo_leg car fl brd off = blank_segment\<lparr>sg_Type := SegmentAir, Carrier := car, FlightNum := fl, Class := ''Y'', WireDate := ''12AUG'',
     Board := brd, Off := off, sg_Status := ''HN'', Seats := 2\<rparr>"

definition demo_booking :: pnr where
  "demo_booking = zero_pnr\<lparr>RecordLocator := ''ABCDEF'', pnr_Origin := (''1A'', ''AGT'', ''api''),
     Segments := [demo_leg ''BA'' ''175'' ''LHR'' ''JFK'', demo_leg ''AF'' ''12'' ''CDG'' ''LHR''],
     Passengers := [\<lparr>px_Ref = 1, Surname = ''SMITH'', Given = ''JOHN'', Title = ''MR'', px_Type = '''', Infant = False, FrequentFlyer = []\<rparr>,
                    \<lparr>px_Ref = 2, Surname = ''SMITH'', Given = ''ANN'', Title = ''MRS'', px_Type = '''', Infant = False, FrequentFlyer = []\<rparr>]\<rparr>"

lemma demo_booking_ok:
  "asked_segments demo_booking ''BA'' = [demo_leg ''BA'' ''175'' ''LHR'' ''JFK'']" "distinct (map Key (Segments demo_booking))"
  "list_all elem_ok (sell_elements demo_booking ''BA'' ''NN'')" "Category ''HN'' \<noteq> CatCancel"
  by code_simp+

theorem booking_agreement_witness:
  "let m = ai_Parse ai_Default (BuildSell demo_booking ''BA'' ''NN'');
       q = (opened 0 ''1A'' ''BA'' m)\<lparr>RecordLocator := ''QWERTY''\<rparr>;
       outcomes = fst (inv_Decide q demo_inv);
       q' = decided outcomes q;
       p' = snd (Apply (inbound_options 1 ''BA'' ''1A'') (ai_Parse ai_Default (BuildReply m outcomes (Some q') ''BA'')) demo_booking);
       k = Key (demo_leg ''BA'' ''175'' ''LHR'' ''JFK'')
   in map_of (held p') k = map_of (held q') k \<and> map_of (held q') k \<noteq> Some ''HN''
      \<and> map_of (held p') (Key (demo_leg ''AF'' ''12'' ''CDG'' ''LHR'')) = Some ''HN''
      \<and> LocatorFor p' ''BA'' = Some ''QWERTY'' \<and> LocatorFor q' ''1A'' = Some ''ABCDEF''"
proof -
  note t = booking_agreement [of demo_booking "''BA''" demo_inv "''1A''" "''QWERTY''" 1 0, unfolded demo_booking_ok(1)]
  have "sg_Status (demo_leg c f b o') = ''HN''" for c f b o' by (simp add: demo_leg_def)
  moreover have "Segments demo_booking = [demo_leg ''BA'' ''175'' ''LHR'' ''JFK'', demo_leg ''AF'' ''12'' ''CDG'' ''LHR'']"
    "demo_leg ''AF'' ''12'' ''CDG'' ''LHR'' \<noteq> demo_leg ''BA'' ''175'' ''LHR'' ''JFK''"
    by (simp_all add: demo_booking_def demo_leg_def blank_segment_def)
  moreover have "overrides demo_inv = []" "inv_Carrier demo_inv = ''BA''" by (simp_all add: demo_inv_def)
  moreover have "fst (pnr_Origin demo_booking) = ''1A''" "RecordLocator demo_booking = ''ABCDEF''" by (simp_all add: demo_booking_def)
  moreover have "alnum_of 2 ''BA''" "alnum_of 2 ''1A''" "elem_ok (ELocator ''BA'' ''QWERTY'')" by code_simp+
  ultimately show ?thesis using t demo_booking_ok(2-4) by (simp add: Let_def)
qed

end
