(* ===== verification/Gateway_Cancel.thy ===== *)
theory Gateway_Cancel
  imports Gateway_Reply
begin

text \<open>
  Withdrawing a booking (\<open>src/pkg/gateway/cancel.go\<close>): the messages to the carriers are built while
  the segments are live, the cancellation is stored, and only then is anyone told; a carrier that
  could not be told goes to the divergence queue. Other callers may change the store between the
  read and the write of an attempt, as in theory \<open>Gateway_Apply\<close>. The code ranges over a map of
  carriers in any order when it builds; here it is the order of the segments. The theorem shows
  that every carrier of a cancelled segment is told or its divergence queued, and that nothing is
  sent unless the cancellation is stored.
\<close>

record cancel_options =
  co_Segments :: "int list"
  co_By :: string
  co_Reason :: string

record cancel_result =
  cr_PNR :: pnr
  Notified :: "string list"
  Unreachable :: "string list"

datatype cancel_error = RecordUnknown | NothingToCancel | NotPersisted | GaveUpCancelling

definition reasonSuffix :: "string \<Rightarrow> string" where
  "reasonSuffix reason = (if reason = '''' then '''' else '': '' @ reason)"

definition live_air :: "segment \<Rightarrow> bool" where
  "live_air s \<longleftrightarrow> sg_Type s = SegmentAir \<and> sg_Status s \<noteq> ''XX''"

definition hasLiveSegment :: "pnr \<Rightarrow> bool" where
  "hasLiveSegment rec = list_ex live_air (Segments rec)"

definition doomed :: "cancel_options \<Rightarrow> segment \<Rightarrow> bool" where
  "doomed opts s \<longleftrightarrow> live_air s \<and> (co_Segments opts = [] \<or> sg_Ref s \<in> set (co_Segments opts))"

definition carriers :: "cancel_options \<Rightarrow> segment list \<Rightarrow> int list strmap" where
  "carriers opts ss =
     fold (\<lambda>s m. gm_put (Carrier s) (gm_get [] m (Carrier s) @ [sg_Ref s]) m) (filter (doomed opts) ss) []"

fun buildCancels :: "env \<Rightarrow> pnr \<Rightarrow> int list strmap \<Rightarrow> gateway \<Rightarrow> (cancel_message strmap \<times> gw_error strmap) \<times> gateway" where
  "buildCancels e rec [] g = (([], []), g)"
| "buildCancels e rec ((carrier, refs) # cs) g =
     (case buildCancel e rec carrier refs g of
        (Inl err, g1) \<Rightarrow> let ((out, errs), g2) = buildCancels e rec cs g1 in ((out, (carrier, err) # errs), g2)
      | (Inr m, g1) \<Rightarrow> let ((out, errs), g2) = buildCancels e rec cs g1 in (((carrier, m) # out, errs), g2))"

definition cancel_event :: "cancel_options \<Rightarrow> time \<Rightarrow> string \<Rightarrow> string \<Rightarrow> event" where
  "cancel_event opts now typ detail =
     \<lparr>ev_ID = '''', ev_PNRID = '''', Seq = 0, ev_Type = typ, Detail = detail @ reasonSuffix (co_Reason opts),
      ev_MessageID = '''', Actor = co_By opts, ev_At = now\<rparr>"

definition withdrawn :: "cancel_options \<Rightarrow> time \<Rightarrow> pnr \<Rightarrow> pnr" where
  "withdrawn opts now rec =
     (let rec1 = rec\<lparr>Segments := map (\<lambda>s. if doomed opts s then s\<lparr>sg_Status := ''XX''\<rparr> else s) (Segments rec)\<rparr>;
          rec2 = (if hasLiveSegment rec1 then rec1 else rec1\<lparr>pnr_Status := StatusCancelled\<rparr>)
      in rec2\<lparr>UpdatedAt := now\<rparr>)"

definition withdrawn_events :: "cancel_options \<Rightarrow> time \<Rightarrow> pnr \<Rightarrow> event list" where
  "withdrawn_events opts now rec =
     map (\<lambda>s. cancel_event opts now ''segment_cancelled'' (Describe s @ '' cancelled'')) (filter (doomed opts) (Segments rec))
     @ (if hasLiveSegment (withdrawn opts now rec) then []
        else [cancel_event opts now ''record_cancelled'' ''no live segment remains''])"

text \<open>One carrier of \<open>notifyCancel\<close>: a build error counts like an error of the send.\<close>

definition notify_one ::
  "env \<Rightarrow> pnr \<Rightarrow> cancel_message strmap \<Rightarrow> gw_error strmap \<Rightarrow> string \<Rightarrow> gateway \<Rightarrow> gw_error option \<times> gateway" where
  "notify_one e rec outbound buildErrs carrier g =
     (case map_of buildErrs carrier of
        Some err \<Rightarrow> (Some err, g)
      | None \<Rightarrow> (case map_of outbound carrier of None \<Rightarrow> (None, g) | Some m \<Rightarrow> send_cancel e rec '''' m g))"

fun notify_loop ::
  "env \<Rightarrow> cancel_options \<Rightarrow> cancel_message strmap \<Rightarrow> gw_error strmap \<Rightarrow> string list \<Rightarrow> cancel_result \<times> gateway \<Rightarrow> cancel_result \<times> gateway" where
  "notify_loop e opts outbound buildErrs [] (res, g) = (res, g)"
| "notify_loop e opts outbound buildErrs (carrier # names) (res, g) =
     (case notify_one e (cr_PNR res) outbound buildErrs carrier g of
        (Some err, g1) \<Rightarrow>
          notify_loop e opts outbound buildErrs names
            (res\<lparr>Unreachable := Unreachable res @ [carrier]\<rparr>, queueCancelDivergence e (cr_PNR res) carrier err (co_By opts) g1)
      | (None, g1) \<Rightarrow> notify_loop e opts outbound buildErrs names (res\<lparr>Notified := Notified res @ [carrier]\<rparr>, g1))"

definition notifyCancel ::
  "env \<Rightarrow> pnr \<Rightarrow> cancel_message strmap \<Rightarrow> gw_error strmap \<Rightarrow> cancel_options \<Rightarrow> gateway \<Rightarrow> cancel_result \<times> gateway" where
  "notifyCancel e rec outbound buildErrs opts g =
     notify_loop e opts outbound buildErrs (sort (map fst outbound @ map fst buildErrs))
       (\<lparr>cr_PNR = rec, Notified = [], Unreachable = []\<rparr>, g)"

text \<open>One attempt: \<open>Inl None\<close> is the conflict that is retried.\<close>

definition cancel_attempt ::
  "env \<Rightarrow> (mem \<Rightarrow> mem) \<Rightarrow> string \<Rightarrow> cancel_options \<Rightarrow> gateway \<Rightarrow> (cancel_error option + cancel_result) \<times> gateway" where
  "cancel_attempt e meanwhile locator opts g =
     (case GetPNR (gw_Store g) locator of
        Some (Inr rec) \<Rightarrow>
          let (now, g1) = gw_now e g in
          if \<not> list_ex (doomed opts) (Segments rec) then (Inl (Some NothingToCancel), g1)
          else
            let ((outbound, buildErrs), g2) = buildCancels e rec (carriers opts (Segments rec)) g1;
                g3 = on_store meanwhile g2
            in (case UpdatePNR (gen e) (withdrawn opts now rec) (pnr_Version rec) (withdrawn_events opts now rec) (gw_Store g3) of
                  Inr (st, stored) \<Rightarrow>
                    let (res, g4) = notifyCancel e stored outbound buildErrs opts (g3\<lparr>gw_Store := st\<rparr>) in (Inr res, g4)
                | Inl ErrConflict \<Rightarrow> (Inl None, g3)
                | Inl _ \<Rightarrow> (Inl (Some NotPersisted), g3))
      | _ \<Rightarrow> (Inl (Some RecordUnknown), g))"

fun cancel_loop ::
  "env \<Rightarrow> others \<Rightarrow> string \<Rightarrow> cancel_options \<Rightarrow> nat \<Rightarrow> nat \<Rightarrow> gateway \<Rightarrow> (cancel_error + cancel_result) \<times> gateway" where
  "cancel_loop e others locator opts k 0 g = (Inl GaveUpCancelling, g)"
| "cancel_loop e others locator opts k (Suc left) g =
     (case cancel_attempt e (others k) locator opts g of
        (Inl (Some err), g1) \<Rightarrow> (Inl err, g1)
      | (Inl None, g1) \<Rightarrow> cancel_loop e others locator opts (Suc k) left g1
      | (Inr res, g1) \<Rightarrow> (Inr res, g1))"

definition Cancel :: "env \<Rightarrow> others \<Rightarrow> string \<Rightarrow> cancel_options \<Rightarrow> gateway \<Rightarrow> (cancel_error + cancel_result) \<times> gateway" where
  "Cancel e others locator opts g = cancel_loop e others locator opts 0 5 g"

definition CancelExpired :: "env \<Rightarrow> others \<Rightarrow> string \<Rightarrow> string \<Rightarrow> gateway \<Rightarrow> (cancel_error + string list) \<times> gateway" where
  "CancelExpired e others locator reason g =
     (case Cancel e others locator \<lparr>co_Segments = [], co_By = ''sweeper'', co_Reason = reason\<rparr> g of
        (Inl NothingToCancel, g1) \<Rightarrow> (Inr [], g1)
      | (Inl err, g1) \<Rightarrow> (Inl err, g1)
      | (Inr res, g1) \<Rightarrow> (Inr (Unreachable res), g1))"


section \<open>Building\<close>

definition refs_of :: "cancel_options \<Rightarrow> segment list \<Rightarrow> string \<Rightarrow> int list" where
  "refs_of opts ss c = map sg_Ref (filter (\<lambda>s. doomed opts s \<and> Carrier s = c) ss)"

lemma carriers_append:
  "carriers opts (ss @ [s]) =
     (if doomed opts s then gm_put (Carrier s) (gm_get [] (carriers opts ss) (Carrier s) @ [sg_Ref s]) (carriers opts ss)
      else carriers opts ss)"
  by (simp add: carriers_def)

lemma carriers_spec:
  "map_of (carriers opts ss) c = (if refs_of opts ss c = [] then None else Some (refs_of opts ss c)) \<and> gm_wf (carriers opts ss)"
proof (induction ss arbitrary: c rule: rev_induct)
  case Nil
  then show ?case by (simp add: carriers_def refs_of_def)
next
  case (snoc s ss)
  have "gm_get [] (carriers opts ss) (Carrier s) = refs_of opts ss (Carrier s)"
    using snoc.IH [of "Carrier s"] by (simp add: gm_get_def)
  then show ?case using snoc.IH by (auto simp: carriers_append refs_of_def)
qed

lemma carriers_keys: "set (map fst (carriers opts ss)) = Carrier ` {s \<in> set ss. doomed opts s}"
proof -
  have "c \<in> fst ` set (carriers opts ss) \<longleftrightarrow> refs_of opts ss c \<noteq> []" for c
    using carriers_spec [of opts ss c] map_of_eq_None_iff [of "carriers opts ss" c] by (auto split: if_splits)
  then show ?thesis by (intro set_eqI) (auto simp: refs_of_def filter_empty_conv image_iff)
qed

lemma buildCancel_store:
  assumes "buildCancel e rec c refs g = (r, g')"
  shows "gw_Store g' = gw_Store g" "r = Inr m \<Longrightarrow> PeerForCarrier g c = Some (cm_peer m)"
  using assms
  by (auto simp: buildCancel_def cancel_edifact_def cancel_typeb_def nowOriginTime_def nextControlRef_def gw_now_def Let_def
      case_prod_beta split: option.splits sum.splits if_splits)

lemma buildCancels_spec:
  assumes "buildCancels e rec cs g = ((out, errs), g')"
  shows "gw_Store g' = gw_Store g \<and> gw_handed g' = gw_handed g \<and> settled g' = settled g
     \<and> mset (map fst out @ map fst errs) = mset (map fst cs)
     \<and> (\<forall>c m. (c, m) \<in> set out \<longrightarrow> PeerForCarrier g c = Some (cm_peer m)
            \<and> (\<exists>refs h h'. (c, refs) \<in> set cs \<and> settled h = settled g \<and> buildCancel e rec c refs h = (Inr m, h')))"
  using assms
proof (induction cs arbitrary: g out errs)
  case (Cons x cs)
  obtain c refs where x: "x = (c, refs)" by (cases x)
  obtain r g1 where b: "buildCancel e rec c refs g = (r, g1)" by (metis surj_pair)
  note one = buildCancel_store [OF b] buildCancel_settled [OF b]
  obtain out1 errs1 where rest: "buildCancels e rec cs g1 = ((out1, errs1), g')"
    using Cons.prems x b by (auto simp: Let_def split: sum.splits prod.splits)
  have peer: "PeerForCarrier g1 = PeerForCarrier g"
    using settled_eqD(5) [OF one(3)] by (simp add: PeerForCarrier_def fun_eq_iff)
  have IH: "gw_Store g' = gw_Store g \<and> gw_handed g' = gw_handed g \<and> settled g' = settled g
     \<and> mset (map fst out1 @ map fst errs1) = mset (map fst cs)
     \<and> (\<forall>c m. (c, m) \<in> set out1 \<longrightarrow> PeerForCarrier g c = Some (cm_peer m)
            \<and> (\<exists>refs h h'. (c, refs) \<in> set cs \<and> settled h = settled g \<and> buildCancel e rec c refs h = (Inr m, h')))"
    using Cons.IH [OF rest] one by (simp add: peer)
  show ?case
  proof (cases r)
    case (Inl err)
    then have "out = out1" "errs = (c, err) # errs1" using Cons.prems x b rest by (auto simp: Let_def)
    then show ?thesis using IH x by fastforce
  next
    case (Inr m)
    then have "out = (c, m) # out1" "errs = errs1" using Cons.prems x b rest by (auto simp: Let_def)
    then show ?thesis using IH x b Inr one(2) by fastforce
  qed
qed simp

section \<open>Telling\<close>

lemma messages_grow: "grows s (fst (AppendMessage gn m s))" "UpdateMessage m s = Inr s' \<Longrightarrow> grows s s'"
  by (auto simp: grows_def AppendMessage_def UpdateMessage_def Let_def split: if_splits)


lemma place_grows: "fresh_item it \<Longrightarrow> grows (gw_Store g) (gw_Store (gw_place e it g)) \<and> raised (gw_Store (gw_place e it g)) it"
  using Place_spec [of it "gen e" "Now e (ticks g)" "gw_Store g"] by (auto simp: gw_place_def gw_now_def Let_def)

lemma SendKeyed_grows:
  assumes "SendKeyed e peer raw kind pnrID corr key g = (r, g')"
  shows "grows (gw_Store g) (gw_Store g')"
proof -
  obtain t g1 where t: "gw_now e g = (t, g1)" by (metis surj_pair)
  obtain i g2 where i: "draw e t g1 = (i, g2)" by (metis surj_pair)
  have "grows (gw_Store g) (gw_Store g2)" using t i by (auto simp: draw_def gw_now_def grows_def)
  then have g3: "grows (gw_Store g) (gw_Store (append_message e m g2))" for m
    using grows_trans messages_grow(1) by (fastforce simp: append_message_def)
  have up: "grows (gw_Store h) (gw_Store (update_message m h))" for m h
    using messages_grow(2) [of m "gw_Store h"] by (auto simp: update_message_def split: sum.splits)
  have "grows (gw_Store g) (gw_Store (update_message m ((append_message e m' g2)\<lparr>gw_handed := h\<rparr>)))" for m m' h
    by (rule grows_trans [OF _ up]) (simp add: g3)
  then show ?thesis using assms g3 by (auto simp: SendKeyed_def t i Let_def split: option.splits)
qed

text \<open>Telling one carrier, its failure queued.\<close>

definition told :: "cancel_options \<Rightarrow> pnr \<Rightarrow> cancel_message strmap \<Rightarrow> handed \<Rightarrow> string \<Rightarrow> bool" where
  "told opts rec outbound new c \<longleftrightarrow> (\<exists>m. map_of outbound c = Some m \<and> (cm_peer m, cm_raw m, None) \<in> set new)"

definition divergence_raised :: "cancel_options \<Rightarrow> pnr \<Rightarrow> mem \<Rightarrow> string \<Rightarrow> bool" where
  "divergence_raised opts rec s c \<longleftrightarrow> (\<exists>why. raised s (divergence_item rec c why (co_By opts)))"

lemma divergence_fresh [simp]: "fresh_item (divergence_item rec c why by')"
  by (simp add: fresh_item_def divergence_item_def new_item_def QueueDivergence_def Pending_def)

lemma divergence_grows:
  "grows (gw_Store g) (gw_Store (queueCancelDivergence e rec c err by' g))"
  "Queues g \<Longrightarrow> raised (gw_Store (queueCancelDivergence e rec c err by' g)) (divergence_item rec c (error_text err) by')"
  using place_grows [OF divergence_fresh] by (auto simp: queueCancelDivergence_def)

lemma notify_one_spec:
  assumes "notify_one e rec out errs c g = (r, g1)" "map_of errs c = None \<Longrightarrow> map_of out c \<noteq> None"
  shows "\<exists>new. gw_handed g1 = gw_handed g @ new \<and> settled g1 = settled g \<and> grows (gw_Store g) (gw_Store g1)
           \<and> (r = None \<longrightarrow> told opts rec out new c)"
proof (cases "map_of errs c")
  case (Some err)
  then show ?thesis using assms by (auto simp: notify_one_def)
next
  case None
  with assms obtain m where m: "map_of out c = Some m" by blast
  with None assms(1) have s: "send_cancel e rec '''' m g = (r, g1)" by (simp add: notify_one_def)
  obtain k g2 where k: "SendKeyed e (cm_peer m) (cm_raw m) (cm_kind m) (ID rec) '''' (cm_key m) g = (k, g2)" by (metis surj_pair)
  have "g1 = g2" using s k by (auto simp: send_cancel_def split: prod.splits option.splits)
  then have "grows (gw_Store g) (gw_Store g1)" using SendKeyed_grows [OF k] by simp
  then show ?thesis using send_cancel_handed [OF s] m by (auto simp: told_def)
qed

lemma notify_loop_spec:
  assumes "notify_loop e opts out errs names (res, g) = (res', g')"
    "\<And>c. c \<in> set names \<Longrightarrow> map_of errs c = None \<Longrightarrow> map_of out c \<noteq> None"
  shows "\<exists>new N U. gw_handed g' = gw_handed g @ new \<and> settled g' = settled g \<and> grows (gw_Store g) (gw_Store g')
     \<and> cr_PNR res' = cr_PNR res \<and> Notified res' = Notified res @ N \<and> Unreachable res' = Unreachable res @ U
     \<and> mset (N @ U) = mset names
     \<and> (\<forall>c \<in> set N. told opts (cr_PNR res) out new c)
     \<and> (Queues g \<longrightarrow> (\<forall>c \<in> set U. divergence_raised opts (cr_PNR res) (gw_Store g') c))"
  using assms
proof (induction names arbitrary: res g)
  case Nil
  then show ?case by auto
next
  case (Cons c names)
  obtain r g1 where one: "notify_one e (cr_PNR res) out errs c g = (r, g1)" by (metis surj_pair)
  obtain new1 where new1: "gw_handed g1 = gw_handed g @ new1" "settled g1 = settled g" "grows (gw_Store g) (gw_Store g1)"
    "r = None \<longrightarrow> told opts (cr_PNR res) out new1 c"
    using notify_one_spec [OF one, of opts] Cons.prems(2) [of c] by auto
  have more: "told opts rec out new c \<Longrightarrow> told opts rec out (new' @ new) c" "told opts rec out new' c \<Longrightarrow> told opts rec out (new' @ new) c"
    for rec new new' c by (auto simp: told_def)
  show ?case
  proof (cases r)
    case None
    define res1 where "res1 = res\<lparr>Notified := Notified res @ [c]\<rparr>"
    have "notify_loop e opts out errs names (res1, g1) = (res', g')" using Cons.prems(1) one None by (simp add: res1_def)
    from Cons.IH [OF this Cons.prems(2)] obtain new N U where
      "gw_handed g' = gw_handed g1 @ new" "settled g' = settled g1" "grows (gw_Store g1) (gw_Store g')"
      "cr_PNR res' = cr_PNR res1" "Notified res' = Notified res1 @ N" "Unreachable res' = Unreachable res1 @ U"
      "mset (N @ U) = mset names" "\<forall>c \<in> set N. told opts (cr_PNR res1) out new c"
      "Queues g1 \<longrightarrow> (\<forall>c \<in> set U. divergence_raised opts (cr_PNR res1) (gw_Store g') c)" by auto
    then show ?thesis using new1 None more settled_eqD(4) [OF new1(2)] grows_trans [OF new1(3)]
      by (intro exI [of _ "new1 @ new"] exI [of _ "c # N"] exI [of _ U]) (auto simp: res1_def)
  next
    case (Some err)
    define res1 where "res1 = res\<lparr>Unreachable := Unreachable res @ [c]\<rparr>"
    define g2 where "g2 = queueCancelDivergence e (cr_PNR res) c err (co_By opts) g1"
    have g2: "gw_handed g2 = gw_handed g1" "settled g2 = settled g" "grows (gw_Store g) (gw_Store g2)"
      using new1(2) grows_trans [OF new1(3) divergence_grows(1)] by (simp_all add: g2_def)
    have q: "divergence_raised opts (cr_PNR res) (gw_Store g2) c" if "Queues g"
      using divergence_grows(2) [of g1 e "cr_PNR res" c err "co_By opts"] settled_eqD(4) [OF new1(2)] that
      unfolding g2_def divergence_raised_def by blast
    have "notify_loop e opts out errs names (res1, g2) = (res', g')" using Cons.prems(1) one Some by (simp add: res1_def g2_def)
    from Cons.IH [OF this Cons.prems(2)] obtain new N U where rest:
      "gw_handed g' = gw_handed g2 @ new" "settled g' = settled g2" "grows (gw_Store g2) (gw_Store g')"
      "cr_PNR res' = cr_PNR res1" "Notified res' = Notified res1 @ N" "Unreachable res' = Unreachable res1 @ U"
      "mset (N @ U) = mset names" "\<forall>c \<in> set N. told opts (cr_PNR res1) out new c"
      "Queues g2 \<longrightarrow> (\<forall>c \<in> set U. divergence_raised opts (cr_PNR res1) (gw_Store g') c)" by auto
    have "divergence_raised opts (cr_PNR res) (gw_Store g') c" if "Queues g"
      using q [OF that] grows_raised [OF rest(3)] by (auto simp: divergence_raised_def)
    then show ?thesis using new1 rest g2 more settled_eqD(4) [OF g2(2)] grows_trans [OF g2(3) rest(3)]
      by (intro exI [of _ "new1 @ new"] exI [of _ N] exI [of _ "c # U"]) (auto simp: res1_def)
  qed
qed


section \<open>A cancellation is stored, then told or queued\<close>

lemma withdrawn_sel [simp]: "ID (withdrawn opts now rec) = ID rec"
  by (simp add: withdrawn_def Let_def)

lemma withdrawn_done: "\<not> list_ex (doomed opts) (Segments (withdrawn opts now rec))"
  by (auto simp: withdrawn_def list_ex_iff doomed_def live_air_def Let_def)

text \<open>The store before attempt \<open>k\<close>, when the attempts before it have stored nothing: what the other callers made of it.\<close>

definition seen :: "others \<Rightarrow> nat \<Rightarrow> mem \<Rightarrow> mem" where
  "seen others k s = fold others [0..<k] s"

lemma seen_simps [simp]: "seen others 0 s = s" "seen others (Suc k) s = others k (seen others k s)"
  by (simp_all add: seen_def)

text \<open>An attempt on \<open>s\<close> is lost: another caller has written the record since it was read.\<close>

definition overtaken :: "(mem \<Rightarrow> mem) \<Rightarrow> string \<Rightarrow> mem \<Rightarrow> bool" where
  "overtaken meanwhile loc s \<longleftrightarrow>
     (\<exists>rec cur. GetPNR s loc = Some (Inr rec) \<and> map_of (pnrs (meanwhile s)) (ID rec) = Some cur \<and> pnr_Version cur \<noteq> pnr_Version rec)"

lemma UpdatePNR_conflict:
  assumes "UpdatePNR gn p v evs s = Inl ErrConflict"
  shows "\<exists>cur. map_of (pnrs s) (ID p) = Some cur \<and> pnr_Version cur \<noteq> v"
  using assms by (auto simp: UpdatePNR_def Let_def split: option.splits if_splits)

text \<open>What a successful cancellation on the record \<open>rec\<close>, written into \<open>s\<close>, has made of the gateway.\<close>

definition cancelled_ok :: "env \<Rightarrow> cancel_options \<Rightarrow> pnr \<Rightarrow> mem \<Rightarrow> gateway \<Rightarrow> cancel_result \<Rightarrow> gateway \<Rightarrow> bool" where
  "cancelled_ok e opts rec s g res g' \<longleftrightarrow>
     (\<exists>now st new.
        list_ex (doomed opts) (Segments rec)
      \<and> UpdatePNR (gen e) (withdrawn opts now rec) (pnr_Version rec) (withdrawn_events opts now rec) s = Inr (st, cr_PNR res)
      \<and> pnrs (gw_Store g') = pnrs st
      \<and> cr_PNR res = (withdrawn opts now rec)\<lparr>pnr_Version := pnr_Version rec + 1\<rparr>
      \<and> map_of (pnrs (gw_Store g')) (ID rec) = Some (cr_PNR res)
      \<and> \<not> list_ex (doomed opts) (Segments (cr_PNR res))
      \<and> gw_handed g' = gw_handed g @ new
      \<and> distinct (Notified res @ Unreachable res)
      \<and> set (Notified res @ Unreachable res) = Carrier ` {s \<in> set (Segments rec). doomed opts s}
      \<and> (\<forall>c \<in> set (Notified res). \<exists>m h h'. Identity h = Identity g \<and> byCarrier h = byCarrier g
            \<and> buildCancel e rec c (refs_of opts (Segments rec) c) h = (Inr m, h') \<and> PeerForCarrier g c = Some (cm_peer m) \<and> (cm_peer m, cm_raw m, None) \<in> set new)
      \<and> (Queues g \<longrightarrow> (\<forall>c \<in> set (Unreachable res). divergence_raised opts (cr_PNR res) (gw_Store g') c)))"

text \<open>Nothing handed to a link, and the same links and identity.\<close>

definition same_frame :: "gateway \<Rightarrow> gateway \<Rightarrow> bool" where
  "same_frame g h \<longleftrightarrow> gw_handed h = gw_handed g \<and> byCarrier h = byCarrier g \<and> Identity h = Identity g \<and> Queues h = Queues g"

lemma same_frame_refl [simp]: "same_frame g g"
  by (simp add: same_frame_def)

lemma cancelled_ok_frame: "same_frame g h \<Longrightarrow> cancelled_ok e opts rec s h res g' \<Longrightarrow> cancelled_ok e opts rec s g res g'"
  by (simp add: cancelled_ok_def same_frame_def PeerForCarrier_def)

lemma cancel_attempt_spec:
  assumes "cancel_attempt e f loc opts g = (r, g')"
  shows "case r of
      Inl None \<Rightarrow> same_frame g g' \<and> overtaken f loc (gw_Store g) \<and> gw_Store g' = f (gw_Store g)
    | Inl (Some err) \<Rightarrow> same_frame g g' \<and> err \<noteq> GaveUpCancelling \<and> gw_Store g' \<in> {gw_Store g, f (gw_Store g)}
    | Inr res \<Rightarrow> \<exists>rec. GetPNR (gw_Store g) loc = Some (Inr rec) \<and> cancelled_ok e opts rec (f (gw_Store g)) g res g'"
proof (cases "\<exists>rec. GetPNR (gw_Store g) loc = Some (Inr rec)")
  case False
  then have "r = Inl (Some RecordUnknown)" "g' = g" using assms by (auto simp: cancel_attempt_def split: option.splits sum.splits)
  then show ?thesis by simp
next
  case True
  then obtain rec where rec: "GetPNR (gw_Store g) loc = Some (Inr rec)" by blast
  define now g1 where "now = Now e (ticks g)" and "g1 = snd (gw_now e g)"
  obtain out errs g2 where b: "buildCancels e rec (carriers opts (Segments rec)) g1 = ((out, errs), g2)" by (metis surj_pair)
  note built = buildCancels_spec [OF b]
  have g1: "gw_now e g = (now, g1)" "same_frame g g1" "gw_Store g1 = gw_Store g"
    by (simp_all add: now_def g1_def gw_now_def same_frame_def)
  have frame: "same_frame g (on_store f g2)" "gw_Store (on_store f g2) = f (gw_Store g)"
    using built g1 settled_eqD [of g2 g1] by (simp_all add: same_frame_def on_store_def)
  let ?upd = "UpdatePNR (gen e) (withdrawn opts now rec) (pnr_Version rec) (withdrawn_events opts now rec) (f (gw_Store g))"
  consider "\<not> list_ex (doomed opts) (Segments rec)" | "list_ex (doomed opts) (Segments rec)" "?upd = Inl ErrConflict"
    | err where "list_ex (doomed opts) (Segments rec)" "?upd = Inl err" "err \<noteq> ErrConflict"
    | st stored where "list_ex (doomed opts) (Segments rec)" "?upd = Inr (st, stored)"
    by (cases ?upd) fastforce+
  then show ?thesis
  proof cases
    case 1
    then have "r = Inl (Some NothingToCancel)" "g' = g1" using assms rec g1(1) by (simp_all add: cancel_attempt_def)
    then show ?thesis using g1(2,3) by simp
  next
    case 2
    then have "r = Inl None" "g' = on_store f g2" using assms rec b g1(1) frame(2) by (simp_all add: cancel_attempt_def Let_def)
    moreover have "overtaken f loc (gw_Store g)" using UpdatePNR_conflict [OF 2(2)] rec by (auto simp: overtaken_def)
    ultimately show ?thesis using frame by simp
  next
    case 3
    then have "r = Inl (Some NotPersisted)" "g' = on_store f g2"
      using assms rec b g1(1) frame(2) by (auto simp: cancel_attempt_def Let_def split: store_error.splits)
    then show ?thesis using frame by simp
  next
    case 4
    define g3 where "g3 = (on_store f g2)\<lparr>gw_Store := st\<rparr>"
    have g3: "same_frame g g3" "gw_Store g3 = st" using frame(1) by (simp_all add: g3_def same_frame_def)
    obtain res where n: "notifyCancel e stored out errs opts g3 = (res, g')" and r: "r = Inr res"
      using assms rec b g1(1) 4 frame(2) by (auto simp: cancel_attempt_def g3_def Let_def split: prod.splits)
    have stored: "stored = (withdrawn opts now rec)\<lparr>pnr_Version := pnr_Version rec + 1\<rparr>" "map_of (pnrs st) (ID rec) = Some stored"
      using 4(2) by (auto simp: UpdatePNR_def Let_def append_events_frame put_pnr_frame split: option.splits if_splits)
    let ?names = "sort (map fst out @ map fst errs)"
    have keys: "mset ?names = mset (map fst (carriers opts (Segments rec)))" using built by simp
    have "distinct (map fst (carriers opts (Segments rec)))" using carriers_spec by (simp add: gm_wf_def)
    then have dist: "distinct ?names" using keys by (metis mset_eq_imp_distinct_iff)
    have names: "set ?names = Carrier ` {s \<in> set (Segments rec). doomed opts s}"
      using keys carriers_keys by (metis mset_eq_setD)
    have outs: "map_of out c \<noteq> None" if "c \<in> set ?names" "map_of errs c = None" for c
      using that by (auto simp: map_of_eq_None_iff)
    obtain new N U where nl: "gw_handed g' = gw_handed g3 @ new" "settled g' = settled g3"
      "cr_PNR res = stored" "Notified res = N" "Unreachable res = U" "mset (N @ U) = mset ?names"
      "\<forall>c \<in> set N. told opts stored out new c" "Queues g3 \<longrightarrow> (\<forall>c \<in> set U. divergence_raised opts stored (gw_Store g') c)"
      using notify_loop_spec [OF n [unfolded notifyCancel_def] outs] by auto
    have sent: "\<exists>m h h'. Identity h = Identity g \<and> byCarrier h = byCarrier g
        \<and> buildCancel e rec c (refs_of opts (Segments rec) c) h = (Inr m, h') \<and> PeerForCarrier g c = Some (cm_peer m)
        \<and> (cm_peer m, cm_raw m, None) \<in> set new" if cN: "c \<in> set N" for c
    proof -
      obtain m where m: "map_of out c = Some m" "(cm_peer m, cm_raw m, None) \<in> set new" using nl(7) cN unfolding told_def by blast
      obtain refs h h' where h: "(c, refs) \<in> set (carriers opts (Segments rec))" "settled h = settled g1"
        "buildCancel e rec c refs h = (Inr m, h')" "PeerForCarrier g1 c = Some (cm_peer m)" using built map_of_SomeD [OF m(1)] by blast
      have "map_of (carriers opts (Segments rec)) c = Some refs"
        using h(1) carriers_spec [of opts "Segments rec"] by (intro map_of_is_SomeI) (simp_all add: gm_wf_def)
      then have "refs = refs_of opts (Segments rec) c" using carriers_spec [of opts "Segments rec" c] by (auto split: if_splits)
      moreover have "Identity h = Identity g" "byCarrier h = byCarrier g" "PeerForCarrier g c = Some (cm_peer m)"
        using settled_eqD(2,5) [OF h(2)] g1(2) h(4) by (simp_all add: same_frame_def PeerForCarrier_def)
      ultimately show ?thesis using h(3) m(2) by blast
    qed
    have "cancelled_ok e opts rec (f (gw_Store g)) g res g'"
      unfolding cancelled_ok_def nl(3)
    proof (intro exI conjI)
      show "list_ex (doomed opts) (Segments rec)" "?upd = Inr (st, stored)" by (rule 4)+
      show "pnrs (gw_Store g') = pnrs st" using settled_eqD(1) [OF nl(2)] g3(2) by simp
      show "stored = (withdrawn opts now rec)\<lparr>pnr_Version := pnr_Version rec + 1\<rparr>" by (rule stored(1))
      show "map_of (pnrs (gw_Store g')) (ID rec) = Some stored" using settled_eqD(1) [OF nl(2)] stored(2) g3(2) by simp
      show "\<not> list_ex (doomed opts) (Segments stored)" using withdrawn_done [of opts now rec] by (simp add: stored(1))
      show "gw_handed g' = gw_handed g @ new" using nl(1) g3(1) by (simp add: same_frame_def)
      show "distinct (Notified res @ Unreachable res)" using dist nl(4-6) by (metis mset_eq_imp_distinct_iff)
      show "set (Notified res @ Unreachable res) = Carrier ` {s \<in> set (Segments rec). doomed opts s}"
        using names nl(4-6) by (metis mset_eq_setD)
      show "\<forall>c \<in> set (Notified res). \<exists>m h h'. Identity h = Identity g \<and> byCarrier h = byCarrier g
            \<and> buildCancel e rec c (refs_of opts (Segments rec) c) h = (Inr m, h') \<and> PeerForCarrier g c = Some (cm_peer m)
            \<and> (cm_peer m, cm_raw m, None) \<in> set new" using sent nl(4) by blast
      show "Queues g \<longrightarrow> (\<forall>c \<in> set (Unreachable res). divergence_raised opts stored (gw_Store g') c)"
        using nl(5,8) g3(1) by (simp add: same_frame_def)
    qed
    then show ?thesis using r rec by auto
  qed
qed

lemma cancel_loop_spec:
  assumes "cancel_loop e others loc opts k left g = (r, g')" "gw_Store g = seen others k s"
    "\<forall>j<k. overtaken (others j) loc (seen others j s)"
  shows "case r of
      Inl err \<Rightarrow> gw_handed g' = gw_handed g \<and> (\<exists>n \<le> k + left. gw_Store g' = seen others n s)
        \<and> (err = GaveUpCancelling \<longrightarrow> (\<forall>j < k + left. overtaken (others j) loc (seen others j s)))
    | Inr res \<Rightarrow> \<exists>n rec. n < k + left \<and> (\<forall>j<n. overtaken (others j) loc (seen others j s))
        \<and> GetPNR (seen others n s) loc = Some (Inr rec) \<and> cancelled_ok e opts rec (seen others (Suc n) s) g res g'"
  using assms
proof (induction left arbitrary: k g)
  case 0
  then show ?case by auto
next
  case (Suc left)
  obtain a g1 where a: "cancel_attempt e (others k) loc opts g = (a, g1)" by (metis surj_pair)
  note one = cancel_attempt_spec [OF a]
  consider "a = Inl None" | err where "a = Inl (Some err)" | res where "a = Inr res" by (metis sum.exhaust option.exhaust)
  then show ?case
  proof cases
    case 1
    then have run: "cancel_loop e others loc opts (Suc k) left g1 = (r, g')" using Suc.prems(1) a by simp
    have f: "same_frame g g1" "gw_Store g1 = seen others (Suc k) s" "overtaken (others k) loc (seen others k s)"
      using one 1 Suc.prems(2) by auto
    have "\<forall>j<Suc k. overtaken (others j) loc (seen others j s)" using f(3) Suc.prems(3) by (simp add: less_Suc_eq)
    note IH = Suc.IH [OF run f(2) this]
    show ?thesis
    proof (cases r)
      case (Inl err)
      then show ?thesis using IH f(1) by (simp add: same_frame_def)
    next
      case (Inr res)
      then obtain n rec where n: "n < Suc k + left" "\<forall>j<n. overtaken (others j) loc (seen others j s)"
        "GetPNR (seen others n s) loc = Some (Inr rec)" "cancelled_ok e opts rec (seen others (Suc n) s) g1 res g'"
        using IH by auto
      show ?thesis using Inr n(1-3) cancelled_ok_frame [OF f(1) n(4)] by auto
    qed
  next
    case (2 err)
    then have r: "r = Inl err" "g' = g1" using Suc.prems(1) a by simp_all
    have "gw_Store g1 = seen others k s \<or> gw_Store g1 = seen others (Suc k) s" "same_frame g g1" "err \<noteq> GaveUpCancelling"
      using one 2 Suc.prems(2) by auto
    then have "(\<exists>n \<le> k + Suc left. gw_Store g1 = seen others n s)" "gw_handed g1 = gw_handed g" "err \<noteq> GaveUpCancelling"
      by (auto simp: same_frame_def intro: exI [of _ k] exI [of _ "Suc k"])
    then show ?thesis by (simp add: r)
  next
    case (3 res)
    then have r: "r = Inr res" "g' = g1" using Suc.prems(1) a by simp_all
    then show ?thesis using one 3 Suc.prems(2,3) by (auto intro!: exI [of _ k])
  qed
qed

text \<open>
  C14: Cancelling a booking, whatever other callers do to the store meanwhile (\<open>seen others k\<close> is the
  store as they alone have left it before attempt \<open>k\<close>). When it fails nothing is handed to any link
  and nothing is stored, and it gives up only when each of the five attempts was overtaken by
  another writer. When it succeeds, the record is the one read at the first attempt that was not
  overtaken, the cancellation is written over the version read, no segment asked for is live any
  more, and the carriers of the segments that were live are split in two: each one notified has its
  own cancellation, built from the live record over its own link and naming exactly its segments,
  accepted by that link; for each other one the disagreement is on the divergence queue.
\<close>

theorem cancel_told_or_queued:
  assumes "Cancel e others loc opts g = (r, g')"
  shows "case r of
      Inl err \<Rightarrow> gw_handed g' = gw_handed g \<and> (\<exists>n \<le> 5. gw_Store g' = seen others n (gw_Store g))
        \<and> (err = GaveUpCancelling \<longrightarrow> (\<forall>j<5. overtaken (others j) loc (seen others j (gw_Store g))))
    | Inr res \<Rightarrow>
        (\<exists>n rec now st new.
            n < 5 \<and> (\<forall>j<n. overtaken (others j) loc (seen others j (gw_Store g)))
          \<and> GetPNR (seen others n (gw_Store g)) loc = Some (Inr rec)
          \<and> list_ex (doomed opts) (Segments rec)
          \<and> UpdatePNR (gen e) (withdrawn opts now rec) (pnr_Version rec) (withdrawn_events opts now rec)
              (seen others (Suc n) (gw_Store g)) = Inr (st, cr_PNR res)
          \<and> pnrs (gw_Store g') = pnrs st
          \<and> cr_PNR res = (withdrawn opts now rec)\<lparr>pnr_Version := pnr_Version rec + 1\<rparr>
          \<and> map_of (pnrs (gw_Store g')) (ID rec) = Some (cr_PNR res)
          \<and> \<not> list_ex (doomed opts) (Segments (cr_PNR res))
          \<and> gw_handed g' = gw_handed g @ new
          \<and> distinct (Notified res @ Unreachable res)
          \<and> set (Notified res @ Unreachable res) = Carrier ` {s \<in> set (Segments rec). doomed opts s}
          \<and> (\<forall>c \<in> set (Notified res). \<exists>m h h'. Identity h = Identity g \<and> byCarrier h = byCarrier g
                \<and> buildCancel e rec c (refs_of opts (Segments rec) c) h = (Inr m, h') \<and> PeerForCarrier g c = Some (cm_peer m)
                \<and> (cm_peer m, cm_raw m, None) \<in> set new)
          \<and> (Queues g \<longrightarrow> (\<forall>c \<in> set (Unreachable res). divergence_raised opts (cr_PNR res) (gw_Store g') c)))"
proof -
  have "gw_Store g = seen others 0 (gw_Store g)" "\<forall>j<0. overtaken (others j) loc (seen others j (gw_Store g))" by simp_all
  note run = cancel_loop_spec [OF assms [unfolded Cancel_def] this, unfolded cancelled_ok_def add_0]
  show ?thesis
  proof (cases r)
    case (Inl err)
    then show ?thesis using run by simp
  next
    case (Inr res)
    show ?thesis using run unfolding Inr sum.case by (elim exE conjE) (intro exI conjI; assumption)
  qed
qed


text \<open>A booking with two carriers, one of them without a link.\<close>

definition trip_record :: pnr where
  "trip_record = demo_pnr\<lparr>ID := ''R1'', Segments :=
     [(ask ''Y'' 2)\<lparr>WireDate := ''01JAN'', sg_Status := ''HK''\<rparr>,
      (ask ''Y'' 2)\<lparr>sg_Ref := 2, Carrier := ''AF'', FlightNum := ''178'', WireDate := ''01JAN'', sg_Status := ''HK''\<rparr>]\<rparr>"

definition trip_gateway :: gateway where
  "trip_gateway = (AddPeer (shop_link\<lparr>pe_Format := FormatEDIFACT\<rparr>) shop)\<lparr>
     gw_Store := demo_store\<lparr>pnrs := [(''R1'', trip_record)], byLocator := [(''ABC23D'', ''R1'')]\<rparr>, Queues := True\<rparr>"

definition trip_options :: cancel_options where
  "trip_options = \<lparr>co_Segments = [], co_By = ''desk'', co_Reason = ''schedule''\<rparr>"

lemma trip_segments: "set (Segments trip_record) = {hd (Segments trip_record), last (Segments trip_record)}"
  "doomed trip_options (hd (Segments trip_record))" "doomed trip_options (last (Segments trip_record))"
  "Carrier (last (Segments trip_record)) = ''AF''"
  by (simp_all add: trip_record_def doomed_def trip_options_def live_air_def ask_def demo_seg_def SegmentAir_def)

lemma trip_facts:
  "GetPNR (gw_Store trip_gateway) ''ABC23D'' = Some (Inr trip_record)" "list_ex (doomed trip_options) (Segments trip_record)"
  "Queues trip_gateway" "map_of (pnrs (gw_Store trip_gateway)) (ID trip_record) = Some trip_record"
  "PeerForCarrier trip_gateway ''AF'' = None" "''AF'' \<in> Carrier ` {s \<in> set (Segments trip_record). doomed trip_options s}"
proof -
  show "GetPNR (gw_Store trip_gateway) ''ABC23D'' = Some (Inr trip_record)" "Queues trip_gateway"
    "map_of (pnrs (gw_Store trip_gateway)) (ID trip_record) = Some trip_record"
    by (simp_all add: trip_gateway_def GetPNR_def trip_record_def)
  show "PeerForCarrier trip_gateway ''AF'' = None"
    by (simp add: trip_gateway_def AddPeer_def shop_link_def demo_peer_def shop_def gw_New_def PeerForCarrier_def gm_put_def Let_def)
  show "list_ex (doomed trip_options) (Segments trip_record)" using trip_segments by (auto simp: list_ex_iff)
  show "''AF'' \<in> Carrier ` {s \<in> set (Segments trip_record). doomed trip_options s}"
    using trip_segments by (intro image_eqI [where x = "last (Segments trip_record)"]) auto
qed

lemma trip_cancels: "\<exists>res g'. cancel_attempt shop_env (\<lambda>s. s) ''ABC23D'' trip_options trip_gateway = (Inr res, g')"
proof -
  obtain out errs g2 where b: "buildCancels shop_env trip_record (carriers trip_options (Segments trip_record)) (snd (gw_now shop_env trip_gateway)) = ((out, errs), g2)"
    by (metis surj_pair)
  have "gw_Store g2 = gw_Store trip_gateway" using buildCancels_spec [OF b] by (simp add: gw_now_def)
  then show ?thesis using b trip_facts
    by (simp add: cancel_attempt_def Let_def case_prod_beta UpdatePNR_def on_store_def)
qed

theorem cancel_told_or_queued_witness:
  "\<exists>res g'. Cancel shop_env (\<lambda>k s. s) ''ABC23D'' trip_options trip_gateway = (Inr res, g')
     \<and> Carrier ` set (Segments trip_record) = set (Notified res @ Unreachable res)
     \<and> ''AF'' \<in> set (Unreachable res) \<and> divergence_raised trip_options (cr_PNR res) (gw_Store g') ''AF''"
proof -
  obtain res g' where a: "cancel_attempt shop_env (\<lambda>s. s) ''ABC23D'' trip_options trip_gateway = (Inr res, g')"
    using trip_cancels by blast
  then have c: "Cancel shop_env (\<lambda>k s. s) ''ABC23D'' trip_options trip_gateway = (Inr res, g')"
    by (simp add: Cancel_def numeral_eq_Suc)
  have "seen (\<lambda>k s. s) n s = s" for n s by (induction n) simp_all
  with cancel_told_or_queued [OF c] trip_facts(1,3) have
    s: "set (Notified res @ Unreachable res) = Carrier ` {s \<in> set (Segments trip_record). doomed trip_options s}"
      "\<forall>c \<in> set (Notified res). PeerForCarrier trip_gateway c \<noteq> None"
      "\<forall>c \<in> set (Unreachable res). divergence_raised trip_options (cr_PNR res) (gw_Store g') c"
    by auto
  have "''AF'' \<notin> set (Notified res)" using s(2) trip_facts(5) by auto
  then have "''AF'' \<in> set (Unreachable res)" using s(1) trip_facts(6) by auto
  moreover have "{s \<in> set (Segments trip_record). doomed trip_options s} = set (Segments trip_record)" using trip_segments by auto
  ultimately show ?thesis using c s(1,3) by auto
qed

end
