(* ===== verification/Avs.thy ===== *)
theory Avs
  imports Airimp_Roundtrip Avail Work_Queue
begin

text \<open>
  Availability status messages (\<open>src/pkg/avs/avs.go\<close>): the text by which a carrier broadcasts which
  classes may be sold without asking. The three regular expressions are backtracking matchers as in
  theory \<open>Airimp\<close>; the default profile's recognizers are the only ones the code defines, its status
  map is an argument. A reading of the clock replaces a zero time of receipt. The theorems show
  that what is built is read back, so that a distributor sells free exactly what was offered.
\<close>

section \<open>Dates of a key\<close>

definition DateKey :: "time \<Rightarrow> string" where
  "DateKey t = pad4 (nat (Year t)) @ ''-'' @ pad2 (Month t) @ ''-'' @ pad2 (nat (MDay t))"

text \<open>\<open>time.Parse("2006-01-02", s)\<close>.\<close>

definition ParseDateKey :: "string \<Rightarrow> time option" where
  "ParseDateKey s =
     (let y = take 4 s; m = take 2 (drop 5 s); d = drop 8 s in
      if length s = 10 \<and> s ! 4 = CHR ''-'' \<and> s ! 7 = CHR ''-'' \<and> all_digits y \<and> all_digits m \<and> all_digits d
         \<and> civil (int (dec_val y)) (dec_val m) (int (dec_val d))
      then Some (Date (int (dec_val y)) (dec_val m) (int (dec_val d))) else None)"

section \<open>Messages\<close>

definition AVS :: string where "AVS = ''AVS''"

fun first_line_avs :: "string list \<Rightarrow> bool" where
  "first_line_avs [] = False"
| "first_line_avs (raw # ls) =
     (let l = TrimSpace raw in if l = '''' then first_line_avs ls else l = AVS \<or> HasPrefix l ''AVS '')"

definition IsAvailability :: "string \<Rightarrow> bool" where
  "IsAvailability txt = first_line_avs (split_on LF (ReplaceCRLF txt))"

definition DefaultStatusMap :: "avail_status strmap" where
  "DefaultStatusMap = [(''O'', Open), (''C'', Closed), (''L'', Waitlist), (''R'', Request)]"

text \<open>What a line lost, with its number: an error for a code without a meaning, a warning otherwise.\<close>

datatype avs_diagnostic = UnmappedCode nat string | UnrecognisedLine nat string

record avs_message =
  av_Entries :: "avail_entry list"
  av_Diagnostics :: "avs_diagnostic list"

definition av_HasErrors :: "avs_message \<Rightarrow> bool" where
  "av_HasErrors m = list_ex (\<lambda>d. case d of UnmappedCode _ _ \<Rightarrow> True | UnrecognisedLine _ _ \<Rightarrow> False) (av_Diagnostics m)"

text \<open>The flight that status lines refer to.\<close>

record flight_context =
  fc_Carrier :: string
  fc_FlightNum :: string
  fc_Board :: string
  fc_Off :: string
  fc_Depart :: time

definition MaxSeats :: int where "MaxSeats = 9999"

section \<open>Matchers\<close>

definition is_sep :: "char \<Rightarrow> bool" where
  "is_sep c \<longleftrightarrow> c = CHR ''/'' \<or> c = CHR '' ''"

text \<open>Both \<open>flightRe\<close> and \<open>singleRe\<close> up to the destination: the fields and the rest of the line.\<close>

definition avs_head :: "string \<Rightarrow> ((string \<times> string \<times> string \<times> string \<times> string) \<times> string) list" where
  "avs_head s = do {
     s0 \<leftarrow> List.bind (re_lit AVS s) (re_spaces 1) @ [s];
     (car, s1) \<leftarrow> re_class is_upalnum 2 2 s0;
     s2 \<leftarrow> re_opt CHR '' '' s1;
     (num, s3) \<leftarrow> re_class is_digit 1 4 s2;
     (sfx, s4) \<leftarrow> re_class is_upper 0 1 s3;
     (x1, s5) \<leftarrow> re_class is_sep 1 (length s4) s4;
     (dd, s6) \<leftarrow> re_class is_digit 2 2 s5;
     (mmm, s7) \<leftarrow> re_class is_upper 3 3 s6;
     (x2, s8) \<leftarrow> re_class is_sep 1 (length s7) s7;
     (brd, s9) \<leftarrow> re_class is_upper 3 3 s8;
     (x3, s10) \<leftarrow> re_class is_sep 0 1 s9;
     (off, s11) \<leftarrow> re_class is_upper 3 3 s10;
     [((car, num @ sfx, dd @ mmm, brd, off), s11)]}"

text \<open>\<open>([A-Z])[/ ]?([A-Z]{1,2})(\d{1,4})?$\<close>: class, code, count.\<close>

definition statusTokenRe :: "string \<Rightarrow> (string \<times> string \<times> string) list" where
  "statusTokenRe s = do {
     (cls, s1) \<leftarrow> re_class is_upper 1 1 s;
     (x, s2) \<leftarrow> re_class is_sep 0 1 s1;
     (code, s3) \<leftarrow> re_class is_upper 1 2 s2;
     (cnt, s4) \<leftarrow> re_class is_digit 1 4 s3 @ [('''', s3)];
     if s4 = '''' then [(cls, code, cnt)] else []}"

definition flightRe :: "string \<Rightarrow> (string \<times> string \<times> string \<times> string \<times> string) list" where
  "flightRe s = do { (h, rest) \<leftarrow> avs_head s; if rest = '''' then [h] else [] }"

definition singleRe :: "string \<Rightarrow> ((string \<times> string \<times> string \<times> string \<times> string) \<times> string \<times> string \<times> string) list" where
  "singleRe s = do {
     (h, s11) \<leftarrow> avs_head s;
     (x, s12) \<leftarrow> re_class is_sep 1 (length s11) s11;
     t \<leftarrow> statusTokenRe s12;
     [(h, t)]}"

section \<open>Recognizers\<close>

definition avs_entry :: "avail_status strmap \<Rightarrow> flight_context \<Rightarrow> string \<times> string \<times> string \<Rightarrow> time \<Rightarrow> avail_entry option" where
  "avs_entry st fc t now =
     (case t of (cls, code, cnt) \<Rightarrow>
        case map_of st code of
          None \<Rightarrow> None
        | Some status \<Rightarrow>
            let e = \<lparr>e_Key = NewKey (fc_Carrier fc) (fc_FlightNum fc) (DateKey (fc_Depart fc)) (fc_Board fc) (fc_Off fc) cls,
                     e_Status = status, e_Seats = 0, SeatsKnown = False, e_Source = SourceAVS, AsOf = now\<rparr>
            in Some (if cnt = '''' then e
                     else case Atoi cnt of
                            None \<Rightarrow> e
                          | Some n \<Rightarrow> e\<lparr>e_Seats := n, SeatsKnown := True, e_Status := (if n = 0 then Closed else status)\<rparr>))"

text \<open>The entries a line gives and the flight in force after it.\<close>

type_synonym avs_match = "(avail_entry list \<times> flight_context option) option"

definition head_context :: "string \<times> string \<times> string \<times> string \<times> string \<Rightarrow> time \<Rightarrow> flight_context" where
  "head_context h depart = (case h of (car, num, dt, brd, off) \<Rightarrow>
     \<lparr>fc_Carrier = car, fc_FlightNum = num, fc_Board = brd, fc_Off = off, fc_Depart = depart\<rparr>)"

definition head_date :: "string \<times> string \<times> string \<times> string \<times> string \<Rightarrow> string" where
  "head_date h = fst (snd (snd h))"

definition matchSingle :: "avail_status strmap \<Rightarrow> time \<Rightarrow> flight_context option \<Rightarrow> string \<Rightarrow> avs_match" where
  "matchSingle st now ctx line =
     (case re_first (singleRe line) of
        None \<Rightarrow> None
      | Some (h, t) \<Rightarrow>
          (case ResolveDate (head_date h) now of
             Inl _ \<Rightarrow> None
           | Inr depart \<Rightarrow> map_option (\<lambda>e. ([e], ctx)) (avs_entry st (head_context h depart) t now)))"

definition matchFlight :: "avail_status strmap \<Rightarrow> time \<Rightarrow> flight_context option \<Rightarrow> string \<Rightarrow> avs_match" where
  "matchFlight st now ctx line =
     (case re_first (flightRe line) of
        None \<Rightarrow> None
      | Some h \<Rightarrow>
          (case ResolveDate (head_date h) now of
             Inl _ \<Rightarrow> None
           | Inr depart \<Rightarrow> Some ([], Some (head_context h depart))))"

definition matchStatuses :: "avail_status strmap \<Rightarrow> time \<Rightarrow> flight_context option \<Rightarrow> string \<Rightarrow> avs_match" where
  "matchStatuses st now ctx line =
     (case ctx of
        None \<Rightarrow> None
      | Some fc \<Rightarrow>
          let fs = Fields line; ts = map (\<lambda>f. re_first (statusTokenRe f)) fs in
          if fs = [] \<or> None \<in> set ts then None
          else Some (List.map_filter (\<lambda>t. case t of None \<Rightarrow> None | Some t \<Rightarrow> avs_entry st fc t now) ts, ctx))"

definition avs_recognise :: "avail_status strmap \<Rightarrow> time \<Rightarrow> flight_context option \<Rightarrow> string \<Rightarrow> avs_match" where
  "avs_recognise st now ctx line =
     (case matchSingle st now ctx line of
        Some r \<Rightarrow> Some r
      | None \<Rightarrow> (case matchFlight st now ctx line of
                   Some r \<Rightarrow> Some r
                 | None \<Rightarrow> matchStatuses st now ctx line))"

definition unmappedCodes :: "avail_status strmap \<Rightarrow> string \<Rightarrow> string list" where
  "unmappedCodes st line =
     (let known = (\<lambda>code. map_of st code \<noteq> None) in
      case re_first (singleRe line) of
        Some (h, cls, code, cnt) \<Rightarrow> if known code then [] else [code]
      | None \<Rightarrow>
          fold (\<lambda>f out. case re_first (statusTokenRe f) of
                   None \<Rightarrow> out
                 | Some (cls, code, cnt) \<Rightarrow> if known code \<or> code \<in> set out then out else out @ [code])
            (Fields line) [])"

fun avs_lines :: "avail_status strmap \<Rightarrow> time \<Rightarrow> nat \<Rightarrow> flight_context option \<Rightarrow> string list \<Rightarrow> avs_message" where
  "avs_lines st now n ctx [] = \<lparr>av_Entries = [], av_Diagnostics = []\<rparr>"
| "avs_lines st now n ctx (raw # ls) =
     (let line = TrimSpace raw in
      if line = '''' \<or> line = AVS then avs_lines st now (Suc n) ctx ls
      else
        let lost = map (UnmappedCode n) (unmappedCodes st line) in
        case avs_recognise st now ctx line of
          None \<Rightarrow>
            let m = avs_lines st now (Suc n) ctx ls
            in m\<lparr>av_Diagnostics := lost @ UnrecognisedLine n line # av_Diagnostics m\<rparr>
        | Some (es, ctx') \<Rightarrow>
            let m = avs_lines st now (Suc n) ctx' ls
            in \<lparr>av_Entries = es @ av_Entries m, av_Diagnostics = lost @ av_Diagnostics m\<rparr>)"

definition avs_Parse :: "avail_status strmap \<Rightarrow> time \<Rightarrow> string \<Rightarrow> time \<Rightarrow> avs_message" where
  "avs_Parse st clock txt now0 =
     avs_lines st (if now0 = zero_time then clock else now0) 1 None (split_on LF (ReplaceCRLF txt))"

section \<open>Building\<close>

text \<open>The code for a status: the shortest, then the first in byte order.\<close>

fun better_code :: "avail_status \<Rightarrow> string \<times> avail_status \<Rightarrow> string option \<Rightarrow> string option" where
  "better_code status (code, s) best =
     (if s \<noteq> status then best
      else case best of
             None \<Rightarrow> Some code
           | Some cur \<Rightarrow> if length code < length cur \<or> (length code = length cur \<and> code < cur) then Some code else best)"

definition avs_code :: "avail_status strmap \<Rightarrow> avail_status \<Rightarrow> string option" where
  "avs_code st status = fold (better_code status) st None"

definition avs_token :: "string \<Rightarrow> avail_entry \<Rightarrow> string" where
  "avs_token code e = k_Class (e_Key e) @ ''/'' @ code @ (if SeatsKnown e then itoa_int (min (e_Seats e) MaxSeats) else '''')"

definition avs_head_line :: "avail_entry \<Rightarrow> time \<Rightarrow> string" where
  "avs_head_line e date =
     (let k = e_Key e in k_Carrier k @ k_FlightNum k @ ''/'' @ FormatDate date @ ''/'' @ k_Board k @ k_Off k)"

definition avs_group :: "avail_status strmap \<Rightarrow> avail_entry \<Rightarrow> string list strmap \<Rightarrow> string list strmap" where
  "avs_group st e gs =
     (case avs_code st (e_Status e) of
        None \<Rightarrow> gs
      | Some code \<Rightarrow>
          (case ParseDateKey (k_Date (e_Key e)) of
             None \<Rightarrow> gs
           | Some date \<Rightarrow>
               let head = avs_head_line e date in gm_put head (gm_get [] gs head @ [avs_token code e]) gs))"

definition avs_Build :: "avail_status strmap \<Rightarrow> avail_entry list \<Rightarrow> string" where
  "avs_Build st es =
     AVS @ concat (map (\<lambda>(head, toks). LF # head @ LF # Join toks '' '') (fold (avs_group st) es []))"


section \<open>Lines that were built are read back\<close>

definition key_ok :: "avail_key \<Rightarrow> bool" where
  "key_ok k \<longleftrightarrow> alnum_of 2 (k_Carrier k) \<and> flight_ok (k_FlightNum k) \<and> upper_of 3 (k_Board k) \<and> upper_of 3 (k_Off k) \<and> upper_of 1 (k_Class k)"

lemma sep_facts [simp]: "is_sep CHR ''/''" "is_sep CHR '' ''" "is_upalnum c \<Longrightarrow> \<not> is_sep c"
  by (auto simp: is_sep_def)

lemma re_class_all:
  assumes "list_all p a" "b = [] \<or> \<not> p (hd b)" "lo \<le> length a" "length a \<le> hi"
  shows "re_class p lo hi (a @ b) = (a, b) # map (\<lambda>k. (take k a, drop k a @ b)) (rev [lo..<length a])"
proof -
  have "[lo..<Suc (length a)] = [lo..<length a] @ [length a]" using assms(3) by simp
  then show ?thesis using assms by (simp add: re_class_def takeWhile_run Let_def)
qed

lemma sep_one: "b = [] \<or> is_upalnum (hd b) \<Longrightarrow> re_class is_sep 1 (Suc (length b)) (CHR ''/'' # b) = [(''/'', b)]"
  using re_class_all [of is_sep "''/''" b 1 "Suc (length b)"] by auto

lemma no_sep: "b \<noteq> [] \<Longrightarrow> is_upalnum (hd b) \<Longrightarrow> re_class is_sep 1 n b = []" "b = [] \<or> is_upalnum (hd b) \<Longrightarrow> re_class is_sep 0 1 b = [([], b)]"
  by (cases b; simp add: re_class_def)+

text \<open>The matcher from the first separator on.\<close>

definition avs_tail :: "string \<Rightarrow> string \<Rightarrow> string \<Rightarrow> ((string \<times> string \<times> string \<times> string \<times> string) \<times> string) list" where
  "avs_tail car num s4 = do {
     (x1, s5) \<leftarrow> re_class is_sep 1 (length s4) s4;
     (dd, s6) \<leftarrow> re_class is_digit 2 2 s5;
     (mmm, s7) \<leftarrow> re_class is_upper 3 3 s6;
     (x2, s8) \<leftarrow> re_class is_sep 1 (length s7) s7;
     (brd, s9) \<leftarrow> re_class is_upper 3 3 s8;
     (x3, s10) \<leftarrow> re_class is_sep 0 1 s9;
     (off, s11) \<leftarrow> re_class is_upper 3 3 s10;
     [((car, num, dd @ mmm, brd, off), s11)]}"

lemma avs_head_tail:
  "avs_head s = do {
     s0 \<leftarrow> List.bind (re_lit AVS s) (re_spaces 1) @ [s]; (car, s1) \<leftarrow> re_class is_upalnum 2 2 s0; s2 \<leftarrow> re_opt CHR '' '' s1;
     (num, s3) \<leftarrow> re_class is_digit 1 4 s2; (sfx, s4) \<leftarrow> re_class is_upper 0 1 s3; avs_tail car (num @ sfx) s4}"
  by (simp add: avs_head_def avs_tail_def)

lemma avs_tail_none: "s = [] \<or> is_upalnum (hd s) \<Longrightarrow> avs_tail car num s = []"
  by (cases s) (auto simp: avs_tail_def re_class_def)

lemma avs_tail_wire:
  assumes "date_ok dt" "upper_of 3 brd" "upper_of 3 off"
  shows "avs_tail car num (CHR ''/'' # dt @ CHR ''/'' # brd @ off) = [((car, num, dt, brd, off), [])]"
proof -
  obtain dd mmm where dt: "dt = dd @ mmm" "length dd = 2" "list_all is_digit dd" "upper_of 3 mmm" "is_digit (hd dd)" "dd \<noteq> ''''"
    using date_parts [OF assms(1)] by metis
  have up: "upper_of 3 x \<Longrightarrow> re_class is_upper 3 3 (x @ y) = [(x, y)]" for x y by (rule re_class_exact) (simp_all add: upper_of_def)
  have "re_class is_digit 2 2 (dd @ y) = [(dd, y)]" for y using dt by (intro re_class_exact) auto
  moreover have "re_class is_sep 1 (Suc (length (dt @ CHR ''/'' # brd @ off))) (CHR ''/'' # dt @ CHR ''/'' # brd @ off) = [(''/'', dt @ CHR ''/'' # brd @ off)]"
    using dt by (intro sep_one) auto
  moreover have "re_class is_sep 1 (Suc (length (brd @ off))) (CHR ''/'' # brd @ off) = [(''/'', brd @ off)]"
    using assms(2) by (intro sep_one) auto
  moreover have "re_class is_sep 0 1 off = [([], off)]" using assms(3) by (intro no_sep(2)) auto
  moreover have "re_class is_upper 3 3 off = [(off, [])]" using up [OF assms(3), of "[]"] by simp
  ultimately show ?thesis using up assms(2) dt(1,4) by (simp add: avs_tail_def)
qed

lemma avs_head_spec:
  assumes "alnum_of 2 car" "flight_ok num" "date_ok dt" "upper_of 3 brd" "upper_of 3 off"
  shows "avs_head (car @ num @ CHR ''/'' # dt @ CHR ''/'' # brd @ off) = [((car, num, dt, brd, off), [])]"
proof -
  obtain ds sfx where f: "num = ds @ sfx" "list_all is_digit ds" "1 \<le> length ds" "length ds \<le> 4" "sfx = '''' \<or> upper_of 1 sfx"
    using flight_parts [OF assms(2)] by metis
  let ?tl = "CHR ''/'' # dt @ CHR ''/'' # brd @ off"
  obtain x xs where x: "ds = x # xs" "is_digit x" using f(2,3) by (cases ds) auto
  obtain a b where car: "car = [a, b]" using assms(1) by (auto simp: alnum_of_def length_Suc_conv numeral_eq_Suc)
  have "re_lit AVS (car @ num @ ?tl) = []"
    using x by (auto simp: AVS_def re_lit_def HasPrefix_def car f(1) is_digit_def)
  then have pre: "List.bind (re_lit AVS (car @ num @ ?tl)) (re_spaces 1) @ [car @ num @ ?tl] = [car @ num @ ?tl]" by simp
  have c: "re_class is_upalnum 2 2 (car @ num @ ?tl) = [(car, num @ ?tl)]" using assms(1) by (intro re_class_exact) (auto simp: alnum_of_def)
  have sp: "re_opt CHR '' '' (num @ ?tl) = [num @ ?tl]" using x by (intro re_opt_other) (auto simp: f(1))
  have nd: "sfx @ ?tl = [] \<or> \<not> is_digit (hd (sfx @ ?tl))" using f(5) by (auto simp: upper_of_def length_Suc_conv)
  have digits: "re_class is_digit 1 4 (num @ ?tl) = (ds, sfx @ ?tl) # map (\<lambda>k. (take k ds, drop k ds @ sfx @ ?tl)) (rev [1..<length ds])"
    using re_class_all [OF f(2) nd f(3,4)] by (simp add: f(1))
  have other: "List.bind (map (\<lambda>k. (take k ds, drop k ds @ sfx @ ?tl)) (rev [1..<length ds]))
      (\<lambda>(n, s3). List.bind (re_class is_upper 0 1 s3) (\<lambda>(y, s4). avs_tail car (n @ y) s4)) = []"
  proof (rule bind_empty, clarsimp)
    fix k assume k: "Suc 0 \<le> k" "k < length ds"
    then obtain d r where d: "drop k ds = d # r" "is_digit d"
      using f(2) by (metis Cons_nth_drop_Suc list_all_length)
    have "re_class is_upper 0 (Suc 0) (drop k ds @ sfx @ ?tl) = [([], drop k ds @ sfx @ ?tl)]" using d by (simp add: re_class_def)
    then show "List.bind (re_class is_upper 0 (Suc 0) (drop k ds @ sfx @ ?tl)) (\<lambda>(y, s4). avs_tail car (take k ds @ y) s4) = []"
      using d by (simp add: avs_tail_none)
  qed
  have "List.bind (re_class is_upper 0 1 (sfx @ ?tl)) (\<lambda>(y, s4). avs_tail car (ds @ y) s4) = [((car, num, dt, brd, off), [])]"
  proof (cases "sfx = ''''")
    case True
    then show ?thesis using avs_tail_wire [OF assms(3-5), of car num] by (simp add: re_class_def f(1))
  next
    case False
    then obtain u where u: "sfx = [u]" "is_upper u" using f(5) by (auto simp: upper_of_def length_Suc_conv)
    have "re_class is_upper 0 1 (sfx @ ?tl) = [([u], ?tl), ([], u # ?tl)]" using u by (simp add: re_class_def)
    moreover have "avs_tail car ds (u # ?tl) = []" using u by (intro avs_tail_none) auto
    ultimately show ?thesis using u avs_tail_wire [OF assms(3-5), of car num] by (simp add: f(1))
  qed
  then show ?thesis using pre c sp digits other by (simp add: avs_head_tail)
qed


definition token_ok :: "string \<Rightarrow> string \<Rightarrow> string \<Rightarrow> bool" where
  "token_ok cls code cnt \<longleftrightarrow> upper_of 1 cls \<and> list_all is_upper code \<and> 1 \<le> length code \<and> length code \<le> 2 \<and> all_digits cnt \<and> length cnt \<le> 4"

lemma token_wire:
  assumes "token_ok cls code cnt"
  shows "re_first (statusTokenRe (cls @ CHR ''/'' # code @ cnt)) = Some (cls, code, cnt)"
proof -
  have up: "list_all is_upper code" "1 \<le> length code" "length code \<le> 2" and dg: "list_all is_digit cnt" "length cnt \<le> 4"
    using assms by (simp_all add: token_ok_def all_digits_def)
  have c: "re_class is_upper 1 1 (cls @ CHR ''/'' # code @ cnt) = [(cls, CHR ''/'' # code @ cnt)]"
    using assms by (intro re_class_exact) (auto simp: token_ok_def upper_of_def)
  have s: "re_class is_sep 0 1 (CHR ''/'' # code @ cnt) = [(''/'', code @ cnt), ([], CHR ''/'' # code @ cnt)]" by (simp add: re_class_def)
  have "cnt = [] \<or> \<not> is_upper (hd cnt)" using dg by (cases cnt) auto
  then obtain ms where u: "re_class is_upper 1 2 (code @ cnt) = (code, cnt) # ms" using re_class_run [OF up(1) _ up(2,3)] by blast
  have n: "re_first (List.bind (re_class is_digit 1 4 cnt @ [('''', cnt)]) (\<lambda>(n, r). if r = '''' then [(cls, code, n)] else [])) = Some (cls, code, cnt)"
  proof (cases "cnt = ''''")
    case True
    then show ?thesis by (simp add: re_class_def)
  next
    case False
    then have "1 \<le> length cnt" by (simp add: Suc_le_eq)
    from re_class_run [OF dg(1) _ this dg(2), of "[]"] obtain ms' where "re_class is_digit 1 4 cnt = (cnt, []) # ms'" by auto
    then show ?thesis by simp
  qed
  show ?thesis using c s u n by (auto simp: statusTokenRe_def re_first_append split: option.splits)
qed

lemma statusTokenRe_short: "8 < length s \<Longrightarrow> statusTokenRe s = []"
  unfolding statusTokenRe_def by (auto intro!: bind_empty dest!: re_class_parts split: if_splits)

lemma avs_head_token: "is_upper a \<Longrightarrow> avs_head (a # CHR ''/'' # r) = []"
  by (simp add: avs_head_tail AVS_def re_lit_def HasPrefix_def re_class_def)

section \<open>The date of a key\<close>

lemma dec_val_zeros: "dec_val (replicate k CHR ''0'') = 0"
  by (induction k) (simp_all add: dec_val.simps digit_val_def flip: replicate_append_same)

lemma pad4_facts:
  assumes "n < 10000"
  shows "length (pad4 n) = 4" "all_digits (pad4 n)" "dec_val (pad4 n) = n"
proof -
  have "length (Itoa n) \<le> 4" using assms
    by (subst Itoa.simps, subst Itoa.simps, subst Itoa.simps) (auto simp: Itoa.simps [of "n div 10 div 10 div 10"])
  then show "length (pad4 n) = 4" by (simp add: pad4_def)
  show "all_digits (pad4 n)" by (simp add: pad4_def) (simp add: all_digits_def is_digit_def list_all_iff)
  show "dec_val (pad4 n) = n" by (simp add: pad4_def dec_val_append dec_val_zeros)
qed

lemma ParseDateKey_DateKey:
  assumes "d mod day_ns = 0" "0 \<le> Year d" "Year d < 10000"
  shows "ParseDateKey (DateKey d) = Some d"
proof -
  note c = midnight_civil [OF assms(1)]
  have b: "1 \<le> Month d" "Month d < 13" "1 \<le> MDay d" "MDay d \<le> 31" using civil_bounds [OF c(1)] by auto
  have y: "nat (Year d) < 10000" using assms(2,3) by simp
  have m: "Month d < 100" "nat (MDay d) < 100" using b by simp_all
  note py = pad4_facts [OF y] and pm = pad2_digits [OF m(1)] and pd = pad2_digits [OF m(2)]
  show ?thesis using py pm pd b c assms(2) by (simp add: ParseDateKey_def DateKey_def nth_append Let_def)
qed


section \<open>Entries that survive the wire\<close>

definition status_map_ok :: "avail_status strmap \<Rightarrow> bool" where
  "status_map_ok st \<longleftrightarrow> gm_wf st \<and> list_all (\<lambda>(c, s). list_all is_upper c \<and> 1 \<le> length c \<and> length c \<le> 2) st"

definition entry_ok :: "avail_status strmap \<Rightarrow> time \<Rightarrow> avail_entry \<Rightarrow> bool" where
  "entry_ok st now e \<longleftrightarrow> key_ok (e_Key e) \<and> e_Status e \<in> snd ` set st \<and> (SeatsKnown e \<longrightarrow> 0 \<le> e_Seats e)
     \<and> (case ParseDateKey (k_Date (e_Key e)) of
          None \<Rightarrow> False
        | Some d \<Rightarrow> d mod day_ns = 0 \<and> in_window now d \<and> k_Date (e_Key e) = DateKey d)"

text \<open>What a receiver at \<open>now\<close> makes of an entry: a count is cut to four digits, a count of zero closes the class.\<close>

definition carried :: "time \<Rightarrow> avail_entry \<Rightarrow> avail_entry" where
  "carried now e = e\<lparr>e_Seats := (if SeatsKnown e then min (e_Seats e) MaxSeats else 0),
     e_Status := (if SeatsKnown e \<and> e_Seats e = 0 then Closed else e_Status e), e_Source := SourceAVS, AsOf := now\<rparr>"

definition tok :: "avail_status strmap \<Rightarrow> avail_entry \<Rightarrow> string" where
  "tok st e = avs_token (case avs_code st (e_Status e) of Some c \<Rightarrow> c | None \<Rightarrow> '''') e"

definition head_of :: "avail_entry \<Rightarrow> string" where
  "head_of e = (case ParseDateKey (k_Date (e_Key e)) of Some d \<Rightarrow> avs_head_line e d | None \<Rightarrow> '''')"

lemma better_code_in: "better_code s x b = Some c \<Longrightarrow> b = Some c \<or> x = (c, s)"
  by (cases x) (auto split: option.splits if_splits)

lemma better_code_some: "b \<noteq> None \<or> snd x = s \<Longrightarrow> better_code s x b \<noteq> None"
  by (cases x) (auto split: option.splits)

lemma avs_code_in:
  assumes "avs_code st s = Some c" shows "(c, s) \<in> set st"
proof -
  have "fold (better_code s) xs b = Some c \<Longrightarrow> b = Some c \<or> (c, s) \<in> set xs" for xs b
    by (induction xs arbitrary: b) (use better_code_in in fastforce)+
  from this [OF assms [unfolded avs_code_def]] show ?thesis by simp
qed

lemma avs_code_ex:
  assumes "s \<in> snd ` set st" shows "\<exists>c. avs_code st s = Some c"
proof -
  have "b \<noteq> None \<or> s \<in> snd ` set xs \<Longrightarrow> fold (better_code s) xs b \<noteq> None" for xs b
  proof (induction xs arbitrary: b)
    case (Cons x xs)
    then have "better_code s x b \<noteq> None \<or> s \<in> snd ` set xs" using better_code_some [of b x s] by auto
    from Cons.IH [OF this] show ?case by simp
  qed simp
  from this [of None st] assms show ?thesis by (simp add: avs_code_def)
qed

lemma entry_okE:
  assumes "status_map_ok st" "entry_ok st now e" "zero_time < now - pastWindow"
  obtains d code where "key_ok (e_Key e)" "ParseDateKey (k_Date (e_Key e)) = Some d" "k_Date (e_Key e) = DateKey d" "d mod day_ns = 0"
    "ResolveDate (FormatDate d) now = Inr d" "date_ok (FormatDate d)" "avs_code st (e_Status e) = Some code" "map_of st code = Some (e_Status e)"
    "list_all is_upper code" "1 \<le> length code" "length code \<le> 2" "SeatsKnown e \<longrightarrow> 0 \<le> e_Seats e"
proof -
  obtain d where d: "ParseDateKey (k_Date (e_Key e)) = Some d" "k_Date (e_Key e) = DateKey d" "d mod day_ns = 0" "in_window now d"
    using assms(2) by (auto simp: entry_ok_def split: option.splits)
  note c = civil_bounds [OF midnight_civil(1) [OF d(3)]]
  have "date_ok (FormatDate d)" using c day_text month_text by (auto simp: FormatDate_def date_ok_def Let_def)
  moreover obtain code where code: "avs_code st (e_Status e) = Some code" using avs_code_ex assms(2) by (auto simp: entry_ok_def)
  moreover have "map_of st code = Some (e_Status e)"
    using avs_code_in [OF code] assms(1) gm_wf_in_set by (fastforce simp: status_map_ok_def)
  moreover have "list_all is_upper code \<and> 1 \<le> length code \<and> length code \<le> 2"
    using avs_code_in [OF code] assms(1) unfolding status_map_ok_def list_all_iff by fast
  moreover have "ResolveDate (FormatDate d) now = Inr d" using resolve_date_window [OF d(3) assms(3)] d(4) by blast
  moreover have "key_ok (e_Key e)" "SeatsKnown e \<longrightarrow> 0 \<le> e_Seats e" using assms(2) by (simp_all add: entry_ok_def)
  ultimately show thesis using that [of d code] d code by blast
qed

lemma key_alnum:
  assumes "key_ok k"
  shows "list_all is_upalnum (k_Carrier k)" "list_all is_upalnum (k_FlightNum k)" "list_all is_upalnum (k_Board k)"
    "list_all is_upalnum (k_Off k)" "list_all is_upalnum (k_Class k)" "k_Carrier k \<noteq> ''''" "k_Off k \<noteq> ''''" "k_Class k \<noteq> ''''"
proof -
  obtain ds sfx where f: "k_FlightNum k = ds @ sfx" "list_all is_digit ds" "sfx = '''' \<or> upper_of 1 sfx"
    using assms flight_parts [of "k_FlightNum k"] unfolding key_ok_def by metis
  show "list_all is_upalnum (k_FlightNum k)" using f(3) alnum_lists(3) [OF f(2)] alnum_lists(1) [of 1 sfx] by (auto simp: f(1))
  show "list_all is_upalnum (k_Carrier k)" "list_all is_upalnum (k_Board k)" "list_all is_upalnum (k_Off k)" "list_all is_upalnum (k_Class k)"
    using assms unfolding key_ok_def by (blast intro: alnum_lists(1,2))+
  show "k_Carrier k \<noteq> ''''" "k_Off k \<noteq> ''''" "k_Class k \<noteq> ''''" using assms by (auto simp: key_ok_def alnum_of_def upper_of_def)
qed

lemma word_slash: "word a \<Longrightarrow> word b \<Longrightarrow> word (a @ CHR ''/'' # b)"
  by (auto simp: word_def clean_char_def control_chars_def is_space_def LF_def CR_def)


text \<open>An entry's line and token are what the recognizers expect of its flight and class.\<close>

definition head_fields :: "avail_entry \<Rightarrow> time \<Rightarrow> string \<times> string \<times> string \<times> string \<times> string" where
  "head_fields e d = (let k = e_Key e in (k_Carrier k, k_FlightNum k, FormatDate d, k_Board k, k_Off k))"

lemma head_line_read:
  assumes "key_ok (e_Key e)" "date_ok (FormatDate d)"
  shows "avs_head (avs_head_line e d) = [(head_fields e d, [])]"
    and "re_first (flightRe (avs_head_line e d)) = Some (head_fields e d)" "singleRe (avs_head_line e d) = []"
    and "word (avs_head_line e d)" "8 < length (avs_head_line e d)"
proof -
  let ?k = "e_Key e"
  have l: "avs_head_line e d = k_Carrier ?k @ k_FlightNum ?k @ CHR ''/'' # FormatDate d @ CHR ''/'' # k_Board ?k @ k_Off ?k"
    by (simp add: avs_head_line_def Let_def)
  show h: "avs_head (avs_head_line e d) = [(head_fields e d, [])]"
    unfolding l using avs_head_spec assms by (auto simp: key_ok_def head_fields_def Let_def)
  then show "re_first (flightRe (avs_head_line e d)) = Some (head_fields e d)" "singleRe (avs_head_line e d) = []"
    by (simp_all add: flightRe_def singleRe_def re_class_def)
  obtain ds sfx where f: "k_FlightNum ?k = ds @ sfx" "list_all is_digit ds" "1 \<le> length ds" "sfx = '''' \<or> upper_of 1 sfx"
    using assms flight_parts [of "k_FlightNum ?k"] unfolding key_ok_def by metis
  have dt: "length (FormatDate d) = 5" using assms(2) by (simp add: date_ok_def)
  show "8 < length (avs_head_line e d)" using f(1,3) dt assms(1) by (simp add: l key_ok_def alnum_of_def upper_of_def)
  obtain dd mmm where d': "FormatDate d = dd @ mmm" "list_all is_digit dd" "upper_of 3 mmm" using date_parts [OF assms(2)] by metis
  have "list_all is_upalnum (FormatDate d)" using alnum_lists(3) [OF d'(2)] alnum_lists(1) [OF d'(3)] by (simp add: d'(1))
  moreover have "FormatDate d \<noteq> ''''" using dt by auto
  ultimately have "word (FormatDate d)" "word (k_Carrier ?k @ k_FlightNum ?k)" "word (k_Board ?k @ k_Off ?k)"
    using key_alnum [OF assms(1)] by (simp_all add: upalnum_word)
  then show "word (avs_head_line e d)" using word_slash [of "k_Carrier ?k @ k_FlightNum ?k" "FormatDate d @ CHR ''/'' # k_Board ?k @ k_Off ?k"]
      word_slash [of "FormatDate d" "k_Board ?k @ k_Off ?k"] by (simp add: l)
qed

lemma count_text:
  assumes "0 \<le> n"
  shows "all_digits (itoa_int (min n MaxSeats))" "length (itoa_int (min n MaxSeats)) \<le> 4" "Atoi (itoa_int (min n MaxSeats)) = Some (min n MaxSeats)"
    "itoa_int (min n MaxSeats) \<noteq> ''''"
proof -
  define k where "k = nat (min n MaxSeats)"
  have k: "k < 10000" "min n MaxSeats = int k" using assms by (auto simp: k_def MaxSeats_def)
  have i: "itoa_int (min n MaxSeats) = Itoa k" by (simp add: k itoa_int_def)
  have "length (Itoa k) \<le> 4" using pad4_facts(1) [OF k(1)] by (simp add: pad4_def)
  then show "all_digits (itoa_int (min n MaxSeats))" "length (itoa_int (min n MaxSeats)) \<le> 4" "itoa_int (min n MaxSeats) \<noteq> ''''"
    by (simp_all add: i)
  show "Atoi (itoa_int (min n MaxSeats)) = Some (min n MaxSeats)" unfolding i using k by simp
qed

lemma token_read:
  assumes "status_map_ok st" "entry_ok st now e" "zero_time < now - pastWindow"
  shows "\<exists>t. re_first (statusTokenRe (tok st e)) = Some t \<and> map_of st (fst (snd t)) \<noteq> None
      \<and> (\<forall>d. ParseDateKey (k_Date (e_Key e)) = Some d \<longrightarrow> avs_entry st (head_context (head_fields e d) d) t now = Some (carried now e))"
    and "word (tok st e)" "\<exists>a r. tok st e = a # CHR ''/'' # r \<and> is_upper a"
proof -
  obtain d code where e: "key_ok (e_Key e)" "ParseDateKey (k_Date (e_Key e)) = Some d" "k_Date (e_Key e) = DateKey d"
    "avs_code st (e_Status e) = Some code" "map_of st code = Some (e_Status e)"
    "list_all is_upper code" "1 \<le> length code" "length code \<le> 2" "SeatsKnown e \<longrightarrow> 0 \<le> e_Seats e"
    using entry_okE [OF assms] by metis
  define cnt where "cnt = (if SeatsKnown e then itoa_int (min (e_Seats e) MaxSeats) else '''')"
  have cnt: "all_digits cnt" "length cnt \<le> 4" using count_text e(9) by (auto simp: cnt_def all_digits_def)
  have t: "tok st e = k_Class (e_Key e) @ CHR ''/'' # code @ cnt" by (simp add: tok_def e(4) avs_token_def cnt_def)
  have ok: "token_ok (k_Class (e_Key e)) code cnt" using e cnt by (simp add: token_ok_def key_ok_def)
  note up = key_alnum [OF e(1)]
  have "e_Key e = NewKey (k_Carrier (e_Key e)) (k_FlightNum (e_Key e)) (DateKey d) (k_Board (e_Key e)) (k_Off (e_Key e)) (k_Class (e_Key e))"
    using up e(3) by (simp add: NewKey_def)
  then have "avs_entry st (head_context (head_fields e d) d) (k_Class (e_Key e), code, cnt) now = Some (carried now e)"
    using e(5,9) count_text [of "e_Seats e"]
    by (auto simp: avs_entry_def head_context_def head_fields_def Let_def carried_def cnt_def MaxSeats_def)
  then show "\<exists>t. re_first (statusTokenRe (tok st e)) = Some t \<and> map_of st (fst (snd t)) \<noteq> None
      \<and> (\<forall>d. ParseDateKey (k_Date (e_Key e)) = Some d \<longrightarrow> avs_entry st (head_context (head_fields e d) d) t now = Some (carried now e))"
    using token_wire [OF ok] t e(2,5) by auto
  have "list_all is_upalnum code" "list_all is_upalnum cnt" "code \<noteq> ''''"
    using e(6,7) cnt(1) by (auto simp: list_all_iff all_digits_def)
  then have "word (code @ cnt)" "word (k_Class (e_Key e))" using up by (simp_all add: upalnum_word)
  then show "word (tok st e)" using word_slash by (simp add: t)
  show "\<exists>a r. tok st e = a # CHR ''/'' # r \<and> is_upper a" using e(1) by (auto simp: t key_ok_def upper_of_def length_Suc_conv)
qed


section \<open>Groups\<close>

definition by_head :: "avail_entry list \<Rightarrow> avail_entry list strmap" where
  "by_head es = fold (\<lambda>e gs. gm_put (head_of e) (gm_get [] gs (head_of e) @ [e]) gs) es []"

definition members :: "avail_entry list \<Rightarrow> string \<Rightarrow> avail_entry list" where
  "members es h = filter (\<lambda>e. head_of e = h) es"

lemma by_head_snoc: "by_head (es @ [e]) = gm_put (head_of e) (gm_get [] (by_head es) (head_of e) @ [e]) (by_head es)"
  by (simp add: by_head_def)

lemma by_head_spec:
  "map_of (by_head es) h = (if members es h = [] then None else Some (members es h)) \<and> gm_wf (by_head es)"
proof (induction es arbitrary: h rule: rev_induct)
  case Nil
  then show ?case by (simp add: by_head_def members_def)
next
  case (snoc e es)
  have "gm_get [] (by_head es) (head_of e) = members es (head_of e)"
    using snoc.IH [of "head_of e"] by (simp add: gm_get_def)
  then show ?case using snoc.IH by (auto simp: by_head_snoc members_def)
qed

lemma by_head_in: "(h, l) \<in> set (by_head es) \<Longrightarrow> l = members es h \<and> l \<noteq> []"
  using by_head_spec [of es h] by (auto simp: gm_wf_in_set split: if_splits)

lemma gm_put_mapped: "gm_put h (f v) (map (\<lambda>(k, v). (k, f v)) m) = map (\<lambda>(k, v). (k, f v)) (gm_put h v m)"
  unfolding gm_put_def by (induction m) auto

lemma built_groups:
  assumes "status_map_ok st" "list_all (entry_ok st now) es" "zero_time < now - pastWindow"
  shows "fold (avs_group st) es [] = map (\<lambda>(h, l). (h, map (tok st) l)) (by_head es)"
  using assms(2)
proof (induction es rule: rev_induct)
  case Nil
  then show ?case by (simp add: by_head_def)
next
  case (snoc e es)
  then have "entry_ok st now e" by simp
  then obtain d code where e: "ParseDateKey (k_Date (e_Key e)) = Some d" "avs_code st (e_Status e) = Some code"
    using entry_okE [OF assms(1) _ assms(3)] by metis
  let ?gs = "map (\<lambda>(h, l). (h, map (tok st) l)) (by_head es)"
  have "gm_get [] ?gs (head_of e) = map (tok st) (gm_get [] (by_head es) (head_of e))"
    by (induction "by_head es") (auto simp: gm_get_def map_of_map split: option.splits)
  then have "avs_group st e ?gs = gm_put (head_of e) (map (tok st) (gm_get [] (by_head es) (head_of e) @ [e])) ?gs"
    using e by (simp add: avs_group_def head_of_def tok_def Let_def)
  then show ?case using snoc gm_put_mapped [of "head_of e" "map (tok st)" "gm_get [] (by_head es) (head_of e) @ [e]" "by_head es"]
    by (simp add: by_head_snoc)
qed

text \<open>The two lines of a flight, read in any context.\<close>

lemma first_word: "ws \<noteq> [] \<Longrightarrow> \<forall>w \<in> set ws. word w \<and> (\<exists>a r. w = a # CHR ''/'' # r \<and> is_upper a) \<Longrightarrow>
    \<exists>a r. spaced ws = a # CHR ''/'' # r \<and> is_upper a"
  by (cases ws; cases "tl ws") auto

lemma no_unmapped:
  assumes "re_first (singleRe line) = None"
    "\<forall>f \<in> set (Fields line). case re_first (statusTokenRe f) of None \<Rightarrow> True | Some t \<Rightarrow> map_of st (fst (snd t)) \<noteq> None"
  shows "unmappedCodes st line = []"
proof -
  have "fold (\<lambda>f out. case re_first (statusTokenRe f) of None \<Rightarrow> out
      | Some (cls, code, cnt) \<Rightarrow> if map_of st code \<noteq> None \<or> code \<in> set out then out else out @ [code]) fs out = out"
    if "\<forall>f \<in> set fs. case re_first (statusTokenRe f) of None \<Rightarrow> True | Some t \<Rightarrow> map_of st (fst (snd t)) \<noteq> None" for fs out
    using that by (induction fs arbitrary: out) (auto split: option.splits)
  then show ?thesis using assms by (simp add: unmappedCodes_def Let_def del: not_None_eq)
qed

lemma head_line_parsed:
  assumes "status_map_ok st" "entry_ok st now e" "zero_time < now - pastWindow" "ParseDateKey (k_Date (e_Key e)) = Some d"
  shows "avs_lines st now n ctx (head_of e # ls) = avs_lines st now (Suc n) (Some (head_context (head_fields e d) d)) ls"
proof -
  have e: "key_ok (e_Key e)" "ResolveDate (FormatDate d) now = Inr d" "date_ok (FormatDate d)"
    using entry_okE [OF assms(1-3)] assms(4) by (metis option.inject)+
  note r = head_line_read [OF e(1,3)]
  have h: "head_of e = avs_head_line e d" by (simp add: head_of_def assms(4))
  have w: "TrimSpace (head_of e) = head_of e" "head_of e \<noteq> ''''" "head_of e \<noteq> AVS" "Fields (head_of e) = [head_of e]"
    using r(4,5) Fields_spaced [of "[head_of e]"] by (auto simp: h word_def AVS_def)
  have "unmappedCodes st (head_of e) = []"
    by (rule no_unmapped) (use r(3,5) w(4) statusTokenRe_short in \<open>simp_all add: h\<close>)
  moreover have "head_date (head_fields e d) = FormatDate d" by (simp add: head_date_def head_fields_def Let_def)
  ultimately show ?thesis using r(2,3) w(1-3) e(2)
    by (auto simp: h avs_recognise_def matchSingle_def matchFlight_def Let_def intro: avs_message.equality)
qed

lemma token_line_parsed:
  assumes "status_map_ok st" "list_all (entry_ok st now) l" "zero_time < now - pastWindow" "l \<noteq> []"
    "\<forall>e \<in> set l. \<exists>d. ParseDateKey (k_Date (e_Key e)) = Some d \<and> head_context (head_fields e d) d = fc"
  shows "avs_lines st now n (Some fc) (Join (map (tok st) l) '' '' # ls) =
    (let m = avs_lines st now (Suc n) (Some fc) ls in m\<lparr>av_Entries := map (carried now) l @ av_Entries m\<rparr>)"
proof -
  have t: "\<forall>e \<in> set l. \<exists>t. re_first (statusTokenRe (tok st e)) = Some t \<and> map_of st (fst (snd t)) \<noteq> None
      \<and> avs_entry st fc t now = Some (carried now e)"
    using token_read(1) [OF assms(1) _ assms(3)] assms(2,5) unfolding list_all_iff by metis
  let ?ws = "map (tok st) l" and ?line = "Join (map (tok st) l) '' ''"
  have w: "\<forall>w \<in> set ?ws. word w \<and> (\<exists>a r. w = a # CHR ''/'' # r \<and> is_upper a)"
    using token_read(2,3) [OF assms(1) _ assms(3)] assms(2) by (auto simp: list_all_iff)
  then obtain a r where line: "?line = a # CHR ''/'' # r" "is_upper a" using first_word [of ?ws] assms(4) by auto
  have f: "Fields ?line = ?ws" using w by (intro Fields_spaced) blast
  have trim: "TrimSpace ?line = ?line" using w assms(4) by (intro TrimSpace_spaced) auto
  have single: "singleRe ?line = []" "flightRe ?line = []" using avs_head_token [OF line(2)] by (simp_all add: singleRe_def flightRe_def line(1))
  have "unmappedCodes st ?line = []"
    by (rule no_unmapped) (use single f t in auto)
  moreover have "None \<notin> set (map (\<lambda>f. re_first (statusTokenRe f)) ?ws)" using t by force
  moreover have "List.map_filter (\<lambda>t. case t of None \<Rightarrow> None | Some t \<Rightarrow> avs_entry st fc t now) (map (\<lambda>f. re_first (statusTokenRe f)) ?ws)
      = map (carried now) l"
    using t by (induction l) (auto simp: List.map_filter_simps)
  ultimately show ?thesis using single f trim line assms(4)
    by (auto simp: avs_recognise_def matchSingle_def matchFlight_def matchStatuses_def AVS_def Let_def image_image intro!: avs_message.equality)
qed


lemma groups_parsed:
  assumes "status_map_ok st" "zero_time < now - pastWindow"
  shows "\<forall>(h, l) \<in> set gs. l \<noteq> [] \<and> list_all (entry_ok st now) l \<and> (\<forall>e \<in> set l. head_of e = h) \<Longrightarrow>
    avs_lines st now n ctx (concat (map (\<lambda>(h, l). [h, Join (map (tok st) l) '' '']) gs))
      = \<lparr>av_Entries = map (carried now) (concat (map snd gs)), av_Diagnostics = []\<rparr>"
proof (induction gs arbitrary: n ctx)
  case (Cons x gs)
  obtain h l where x: "x = (h, l)" by (cases x)
  with Cons.prems obtain e l' where l: "l = e # l'" "list_all (entry_ok st now) l" "\<forall>e \<in> set l. head_of e = h" by (cases l) auto
  have same: "\<exists>d. ParseDateKey (k_Date (e_Key a)) = Some d \<and> avs_head h = [(head_fields a d, [])] \<and> ResolveDate (head_date (head_fields a d)) now = Inr d"
    if "a \<in> set l" for a
  proof -
    have "entry_ok st now a" "head_of a = h" using l that by (auto simp: list_all_iff)
    then obtain d where d: "key_ok (e_Key a)" "ParseDateKey (k_Date (e_Key a)) = Some d" "ResolveDate (FormatDate d) now = Inr d" "date_ok (FormatDate d)"
      using entry_okE [OF assms(1) _ assms(2)] by metis
    then show ?thesis using head_line_read(1) [OF d(1,4)] \<open>head_of a = h\<close>
      by (auto simp: head_of_def head_date_def head_fields_def Let_def)
  qed
  obtain d where d: "ParseDateKey (k_Date (e_Key e)) = Some d" "avs_head h = [(head_fields e d, [])]" "ResolveDate (head_date (head_fields e d)) now = Inr d"
    using same [of e] l(1) by auto
  let ?fc = "head_context (head_fields e d) d"
  have fc: "\<forall>a \<in> set l. \<exists>d. ParseDateKey (k_Date (e_Key a)) = Some d \<and> head_context (head_fields a d) d = ?fc"
  proof
    fix a assume "a \<in> set l"
    from same [OF this] obtain d' where "ParseDateKey (k_Date (e_Key a)) = Some d'" "head_fields a d' = head_fields e d"
      "ResolveDate (head_date (head_fields a d')) now = Inr d'" using d(2) by auto
    then show "\<exists>d. ParseDateKey (k_Date (e_Key a)) = Some d \<and> head_context (head_fields a d) d = ?fc" using d(3) by auto
  qed
  have "entry_ok st now e" "head_of e = h" using l by auto
  from head_line_parsed [OF assms(1) this(1) assms(2) d(1)] this(2)
  have "avs_lines st now n ctx (h # ls) = avs_lines st now (Suc n) (Some ?fc) ls" for ls by simp
  moreover have "avs_lines st now (Suc n) (Some ?fc) (Join (map (tok st) l) '' '' # ls) =
    (let m = avs_lines st now (Suc (Suc n)) (Some ?fc) ls in m\<lparr>av_Entries := map (carried now) l @ av_Entries m\<rparr>)" for ls
    using token_line_parsed [OF assms(1) l(2) assms(2) _ fc] l(1) by simp
  ultimately show ?case using Cons.IH [of "Suc (Suc n)" "Some ?fc"] Cons.prems x by (simp add: Let_def)
qed simp

lemma parsed_build:
  assumes "status_map_ok st" "list_all (entry_ok st now) es" "zero_time < now - pastWindow"
  shows "avs_Parse st clock (avs_Build st es) now
    = \<lparr>av_Entries = map (carried now) (concat (map snd (by_head es))), av_Diagnostics = []\<rparr>"
proof -
  let ?gs = "by_head es" and ?lines = "\<lambda>gs. AVS # concat (map (\<lambda>(h, l). [h, Join (map (tok st) l) '' '']) gs)"
  have gs: "\<forall>(h, l) \<in> set ?gs. l \<noteq> [] \<and> list_all (entry_ok st now) l \<and> (\<forall>e \<in> set l. head_of e = h)"
    using by_head_in assms(2) by (fastforce simp: members_def list_all_iff)
  have joined: "AVS @ concat (map (\<lambda>(h, l). LF # h @ LF # Join (map (tok st) l) '' '') gs) = Join (?lines gs) [LF]" for gs
  proof -
    have "Join (l # concat (map (\<lambda>(h, l). [h, Join (map (tok st) l) '' '']) gs)) [LF]
      = l @ concat (map (\<lambda>(h, l). LF # h @ LF # Join (map (tok st) l) '' '') gs)" for l
      by (induction gs arbitrary: l) auto
    then show ?thesis by simp
  qed
  have clean: "clean_line h \<and> clean_line (Join (map (tok st) l) '' '')" if "(h, l) \<in> set ?gs" for h l
  proof -
    have l: "l \<noteq> []" "list_all (entry_ok st now) l" "\<forall>e \<in> set l. head_of e = h" using gs that by auto
    have "\<forall>w \<in> set (map (tok st) l). word w" using token_read(2) [OF assms(1) _ assms(3)] l(2) by (auto simp: list_all_iff)
    moreover obtain e where e: "entry_ok st now e" "head_of e = h" using l by (cases l) auto
    then have "word h" using entry_okE [OF assms(1) e(1) assms(3)] head_line_read(4) by (metis head_of_def option.simps(5))
    ultimately show ?thesis using clean_spaced [of "[h]"] clean_spaced [of "map (tok st) l"] by simp
  qed
  have avs: "clean_line AVS" by (simp add: clean_line_def AVS_def clean_char_def control_chars_def LF_def CR_def)
  have all: "\<forall>l \<in> set (?lines ?gs). clean_line l" using clean avs by auto
  have tokens: "map (\<lambda>(h, toks). LF # h @ LF # Join toks '' '') (map (\<lambda>(h, l). (h, map (tok st) l)) gs)
      = map (\<lambda>(h, l). LF # h @ LF # Join (map (tok st) l) '' '') gs" for gs by (induction gs) auto
  have b: "avs_Build st es = Join (?lines ?gs) [LF]"
    unfolding joined [symmetric] by (simp only: avs_Build_def built_groups [OF assms] tokens)
  have "CR \<notin> set (Join ls [LF])" if "\<forall>l \<in> set ls. clean_line l" for ls
    using that
  proof (induction ls)
    case (Cons l ls)
    moreover have "CR \<noteq> LF" by (simp add: CR_def LF_def)
    ultimately show ?case by (cases ls) (auto simp: clean_line_def clean_char_def)
  qed simp
  then have cr: "ReplaceCRLF (avs_Build st es) = avs_Build st es" using all b by (metis ReplaceCRLF_noCR)
  have "split_on LF (avs_Build st es) = ?lines ?gs"
    unfolding b by (rule split_on_Join) (use all in \<open>simp, unfold clean_line_def clean_char_def, blast\<close>)
  moreover have "now \<noteq> zero_time" using assms(3) by (auto simp: pastWindow_def day_ns_def)
  moreover have "TrimSpace AVS = AVS" by (simp add: AVS_def is_space_def)
  ultimately show ?thesis using groups_parsed [OF assms(1,3) gs] by (simp add: avs_Parse_def cr)
qed


section \<open>The round trip\<close>

lemma head_of_flight: "Flight (e_Key a) = Flight (e_Key b) \<Longrightarrow> head_of a = head_of b"
  by (cases "e_Key a"; cases "e_Key b") (auto simp: head_of_def avs_head_line_def Flight_def Let_def split: option.splits)

lemma flight_of_head:
  assumes "status_map_ok st" "zero_time < now - pastWindow" "entry_ok st now a" "entry_ok st now b" "head_of a = head_of b"
  shows "Flight (e_Key a) = Flight (e_Key b)"
proof -
  obtain d where d: "key_ok (e_Key a)" "ParseDateKey (k_Date (e_Key a)) = Some d" "k_Date (e_Key a) = DateKey d"
    "ResolveDate (FormatDate d) now = Inr d" "date_ok (FormatDate d)" using entry_okE [OF assms(1,3,2)] by metis
  obtain d' where d': "key_ok (e_Key b)" "ParseDateKey (k_Date (e_Key b)) = Some d'" "k_Date (e_Key b) = DateKey d'"
    "ResolveDate (FormatDate d') now = Inr d'" "date_ok (FormatDate d')" using entry_okE [OF assms(1,4,2)] by metis
  have "head_fields a d = head_fields b d'"
    using head_line_read(1) [OF d(1,5)] head_line_read(1) [OF d'(1,5)] assms(5) d(2) d'(2) by (simp add: head_of_def)
  moreover from this have "FormatDate d = FormatDate d'" by (simp add: head_fields_def Let_def)
  then have "d = d'" using d(4) d'(4) by (metis sum.inject(2))
  ultimately show ?thesis using d(3) d'(3)
    by (cases "e_Key a"; cases "e_Key b") (simp add: head_fields_def Flight_def Let_def)
qed

lemma filter_groups:
  "distinct (map fst gs) \<Longrightarrow> \<forall>(h', l) \<in> set gs. \<forall>e \<in> set l. head_of e = h' \<Longrightarrow>
     filter (\<lambda>e. head_of e = h) (concat (map snd gs)) = (case map_of gs h of None \<Rightarrow> [] | Some l \<Rightarrow> l)"
proof (induction gs)
  case (Cons x gs)
  obtain h' l where x: "x = (h', l)" by (cases x)
  have l: "filter (\<lambda>e. head_of e = h) l = (if h' = h then l else [])" using Cons.prems(2) x by (auto simp: filter_empty_conv intro: filter_True)
  have "h \<notin> fst ` set gs \<Longrightarrow> map_of gs h = None" by (simp add: map_of_eq_None_iff)
  then show ?case using Cons x l by auto
qed simp

lemma filter_by_head: "filter (\<lambda>e. head_of e = h) (concat (map snd (by_head es))) = members es h"
proof -
  have "\<forall>(h', l) \<in> set (by_head es). \<forall>e \<in> set l. head_of e = h'" using by_head_in by (fastforce simp: members_def)
  then show ?thesis using filter_groups [of "by_head es" h] by_head_spec [of es] by (simp add: gm_wf_def split: if_splits)
qed

lemma set_by_head: "set (concat (map snd (by_head es))) \<subseteq> set es"
  using by_head_in by (fastforce simp: members_def)

text \<open>
  C18: A carrier broadcasts availability for flights in the booking window of the receiver. The
  receiver decodes without a diagnostic and, flight by flight, reads every class offered in the order
  it was offered, with its status and count: a count above four digits is cut to the largest one, a
  count of zero closes the class. So classes of different flights never mix, whatever their order.
\<close>

theorem avs_roundtrip:
  assumes "status_map_ok st" "list_all (entry_ok st now) es" "zero_time < now - pastWindow"
  shows "av_Diagnostics (avs_Parse st clock (avs_Build st es) now) = []
    \<and> (\<forall>f. filter (\<lambda>e. Flight (e_Key e) = f) (av_Entries (avs_Parse st clock (avs_Build st es) now))
           = map (carried now) (filter (\<lambda>e. Flight (e_Key e) = f) es))"
proof -
  let ?all = "concat (map snd (by_head es))"
  have ok: "\<forall>e \<in> set es. entry_ok st now e" using assms(2) by (simp add: list_all_iff)
  have "filter (\<lambda>e. Flight (e_Key e) = f) ?all = filter (\<lambda>e. Flight (e_Key e) = f) es" for f
  proof (cases "\<exists>a \<in> set es. Flight (e_Key a) = f")
    case False
    then show ?thesis using set_by_head [of es] by (auto simp: filter_empty_conv)
  next
    case True
    then obtain a where a: "a \<in> set es" "Flight (e_Key a) = f" by blast
    have same: "Flight (e_Key e) = f \<longleftrightarrow> head_of e = head_of a" if e: "e \<in> set es" for e
    proof -
      have "entry_ok st now e" "entry_ok st now a" using e a(1) ok by simp_all
      note conv = flight_of_head [OF assms(1,3) this]
      show ?thesis
      proof
        assume "Flight (e_Key e) = f"
        then show "head_of e = head_of a" by (intro head_of_flight) (simp only: a(2))
      next
        assume "head_of e = head_of a"
        from conv [OF this] show "Flight (e_Key e) = f" by (simp only: a(2))
      qed
    qed
    have "filter (\<lambda>e. Flight (e_Key e) = f) ?all = filter (\<lambda>e. head_of e = head_of a) ?all"
      using same set_by_head [of es] by (intro filter_cong) auto
    also have "\<dots> = filter (\<lambda>e. Flight (e_Key e) = f) es"
      unfolding filter_by_head members_def using same by (intro filter_cong) auto
    finally show ?thesis .
  qed
  then show ?thesis using parsed_build [OF assms, of clock] by (simp add: filter_map comp_def carried_def)
qed

text \<open>Two flights of a summer, offered interleaved.\<close>

definition offer :: "string \<Rightarrow> string \<Rightarrow> avail_status \<Rightarrow> int \<Rightarrow> avail_entry" where
  "offer num cls status n = \<lparr>e_Key = \<lparr>k_Carrier = ''BA'', k_FlightNum = num, k_Date = ''1970-01-02'', k_Board = ''LHR'', k_Off = ''JFK'', k_Class = cls\<rparr>,
     e_Status = status, e_Seats = n, SeatsKnown = n > 0, e_Source = SourceDirect, AsOf = 0\<rparr>"

definition offers :: "avail_entry list" where
  "offers = [offer ''0175'' ''Y'' Open 4, offer ''12A'' ''J'' Closed 0, offer ''0175'' ''J'' Waitlist 0]"

lemma offer_dates: "ParseDateKey ''1970-01-02'' = Some day_ns" "DateKey day_ns = ''1970-01-02''" "in_window 0 day_ns" "zero_time < 0 - pastWindow"
  by code_simp+

lemma offer_keys: "status_map_ok DefaultStatusMap" "list_all (\<lambda>e. key_ok (e_Key e) \<and> e_Status e \<in> snd ` set DefaultStatusMap \<and> 0 \<le> e_Seats e) offers"
  by code_simp+

lemma offers_ok: "list_all (entry_ok DefaultStatusMap 0) offers"
proof -
  have "list_all (\<lambda>e. k_Date (e_Key e) = ''1970-01-02'') offers" by (simp add: offers_def offer_def)
  with offer_keys(2) show ?thesis by (auto simp: list_all_iff entry_ok_def offer_dates)
qed

theorem avs_roundtrip_witness:
  "filter (\<lambda>e. Flight (e_Key e) = Flight (e_Key (offer ''0175'' ''Y'' Open 4))) (av_Entries (avs_Parse DefaultStatusMap 5 (avs_Build DefaultStatusMap offers) 0))
     = [carried 0 (offer ''0175'' ''Y'' Open 4), carried 0 (offer ''0175'' ''J'' Waitlist 0)]"
  using avs_roundtrip [OF offer_keys(1) offers_ok offer_dates(4), of 5] by (simp add: offers_def) (simp add: offer_def Flight_def)

end
