(* ===== verification/Gateway_Ingest.thy ===== *)
theory Gateway_Ingest
  imports Gateway_Cancel Avs
begin

text \<open>
  The inbound pipeline (\<open>src/pkg/gateway/gateway.go\<close>, \<open>decode.go\<close>, \<open>ground.go\<close>): capture, decode,
  channel numbering, duplicates, relays, syntax reports, schedules, availability, and the booking
  path of theory \<open>Gateway_Reply\<close>. The dialects this development has no theory for (schedules, movements, name lists,
  baggage, departure control, datalink, air traffic, passenger lists, pushes to a state, check-in,
  ticket control) enter as the record \<open>seams\<close>: what their parsers and handlers answer, together
  with the digest of a text and the two interfaces the gateway is given from outside, the ground
  systems and the local clock of a station. The theorems hold for every choice of these.
\<close>

section \<open>Seams\<close>

record seams =
  digest :: "string \<Rightarrow> string"
  edifact_dialect :: "ed_message \<Rightarrow> (string + (decoded \<Rightarrow> decoded)) option"
  text_dialect :: "string \<Rightarrow> (string + (decoded \<Rightarrow> decoded)) option"
  aftn_dialect :: "bytes \<Rightarrow> (string + decoded) option"
  applyTicketControl :: "gw_peer \<Rightarrow> decoded \<Rightarrow> step \<Rightarrow> string option \<times> step"
  applyThroughCheckIn :: "gw_peer \<Rightarrow> decoded \<Rightarrow> step \<Rightarrow> string option \<times> step"
  Ground :: "(onward_kind \<Rightarrow> decoded \<Rightarrow> string option) option"
  HearsATFM :: bool
  LocalClock :: "(string \<Rightarrow> time \<Rightarrow> int option) option"
  avs_codes :: "avail_status strmap"

section \<open>Decoding\<close>

definition zero_scan :: scan_options where
  "zero_scan = \<lparr>so_Syntax = None, PreserveLineBreaks = False, MaxSegments = 0\<rparr>"

definition zero_decoded :: "string \<Rightarrow> decoded" where
  "zero_decoded fmt =
     \<lparr>dc_Format = fmt, dc_Kind = '''', dc_DedupKey = '''', dc_PossibleDuplicate = False, dc_Diagnostics = [],
      dc_Locators = [], dc_NeedsReply = False, CreatesRecord = False, dc_Test = False, dc_TypeB = None, dc_AVS = None, dc_AFTN = None,
      Unreadable = '''', Schedule = None, dc_ReplyTo = zero_address, EdifactSender = '''', dc_Interchange = None, dc_CONTRL = None,
      TicketControl = None, ThroughCheckIn = False, Onward = None, dc_Airimp = None, dc_Edifact = None, dc_self = ''''\<rparr>"

definition looksLikeEDIFACT :: "bytes \<Rightarrow> bool" where
  "looksLikeEDIFACT raw =
     (let head = take 512 (of_bytes raw);
          trimmed = dropWhile (\<lambda>c. c \<in> set [CHR '' '', CR, LF, CHR 0x09]) head
      in HasPrefix trimmed ''UNA'' \<or> HasPrefix trimmed ''UNB'' \<or> Contains head ''UNB+'')"

text \<open>The locators named in \<open>RCI\<close> segments.\<close>

definition rci_values :: "ed_message \<Rightarrow> string list" where
  "rci_values m =
     filter (\<lambda>loc. loc \<noteq> '''') (map (\<lambda>c. comp_Get c 1) (concat (map (\<lambda>seg. concat (ed_segment.Elements seg)) (msg_Find m ''RCI''))))"

definition multi_message :: "interchange \<Rightarrow> string list" where
  "multi_message ic = (if length (Messages ic) > 1 then [''multi_message_interchange''] else [])"

text \<open>What the reservation branch fills in.\<close>

definition edifact_booking :: "interchange \<Rightarrow> ed_message \<Rightarrow> decoded \<Rightarrow> decoded" where
  "edifact_booking ic m d =
     d\<lparr>dc_DedupKey := (if ControlRef ic \<noteq> '''' then ''unb:'' @ ControlRef ic else ''''),
       dc_Locators := rci_values m,
       dc_NeedsReply := (dc_Kind d = MsgPAOREQ \<and> MessageFunction m \<noteq> FuncCancellation),
       CreatesRecord := (dc_Kind d = MsgPAOREQ)\<rparr>"

definition decodeEDIFACT ::
  "seams \<Rightarrow> (string \<Rightarrow> bool) \<Rightarrow> (string \<Rightarrow> bool) \<Rightarrow> ingest_options \<Rightarrow> bytes \<Rightarrow> string + decoded" where
  "decodeEDIFACT sm latin1 utf8 opts raw =
     (case ed_Parse latin1 utf8 (of_bytes raw) \<lparr>po_Scan = zero_scan, SkipPreamble = FromFile opts, Strict = False, SkipCharsetCheck = False\<rparr> of
        Inl _ \<Rightarrow> Inl ''gateway: edifact decode''
      | Inr (ic, _) \<Rightarrow>
          (case Messages ic of
             [] \<Rightarrow> Inl ''gateway: edifact interchange carries no messages''
           | m # _ \<Rightarrow>
               let d = (zero_decoded FormatEDIFACT)\<lparr>dc_Diagnostics := map ed_Code (ic_Diagnostics ic) @ multi_message ic,
                          dc_Edifact := Some m, EdifactSender := pa_ID (Sender ic), dc_Kind := mi_Type (message_ID m),
                          dc_Test := TestIndicator ic, dc_Interchange := Some ic\<rparr>
               in case edifact_dialect sm m of
                    Some (Inl err) \<Rightarrow> Inl err
                  | Some (Inr f) \<Rightarrow> Inr (f d)
                  | None \<Rightarrow>
                      if IsCONTRL m then
                        (case ParseCONTRL m of Inl _ \<Rightarrow> Inl ''gateway: contrl'' | Inr rep \<Rightarrow> Inr (d\<lparr>dc_CONTRL := Some rep\<rparr>))
                      else Inr (edifact_booking ic m d)))"

definition address_IsZero :: "address \<Rightarrow> bool" where
  "address_IsZero a \<longleftrightarrow> Location a = '''' \<and> Department a = '''' \<and> ad_Carrier a = ''''"

definition serial :: "string \<Rightarrow> bool" where
  "serial extra \<longleftrightarrow> length extra \<ge> 3 \<and> all_digits extra"

definition typeBDedupKey :: "(string \<Rightarrow> string) \<Rightarrow> tb_message \<Rightarrow> string" where
  "typeBDedupKey dg tb =
     (if address_IsZero (tb_Origin tb) \<or> \<not> Present (OriginTime tb) then ''''
      else case find serial (OriginExtra tb) of
             Some extra \<Rightarrow> ''tty:'' @ address_String (tb_Origin tb) @ '':'' @ extra
           | None \<Rightarrow> ''tty:'' @ address_String (tb_Origin tb) @ '':'' @ origin_time_String (OriginTime tb) @ '':'' @ dg (tb_Text tb))"

fun intent_String :: "intent \<Rightarrow> string" where
  "intent_String IntentSell = ''sell''"
| "intent_String IntentReply = ''reply''"
| "intent_String IntentCancel = ''cancel''"
| "intent_String IntentAdvise = ''advise''"
| "intent_String IntentInfoOnly = ''info_only''"
| "intent_String IntentUnknown = ''unknown''"

text \<open>The diagnostics of the AIRIMP parser: lines nobody claimed, then action codes outside the vocabulary.\<close>

definition airimp_codes :: "ai_message \<Rightarrow> string list" where
  "airimp_codes am =
     map (\<lambda>x. ''unrecognised_element'') (filter (\<lambda>x. case x of EUnknown l n \<Rightarrow> True | _ \<Rightarrow> False) (Elements am))
     @ map (\<lambda>s. ''private_action_code'') (filter (\<lambda>s. Rescode.Info (as_Action s) = None) (ai_Segments am))"

definition typeb_booking :: "seams \<Rightarrow> gw_peer \<Rightarrow> tb_message \<Rightarrow> decoded \<Rightarrow> decoded" where
  "typeb_booking sm peer tb d =
     (let am = ai_Parse ai_Default (tb_Text tb); sell = (Intent am = IntentSell) in
      d\<lparr>dc_Airimp := Some am, dc_Diagnostics := dc_Diagnostics d @ airimp_codes am, dc_Kind := ''AIRIMP/'' @ intent_String (Intent am), dc_NeedsReply := sell, CreatesRecord := sell,
        dc_Locators := map snd (ai_Locators am), dc_DedupKey := typeBDedupKey (digest sm) tb, dc_PossibleDuplicate := tb_PDM tb,
        dc_ReplyTo := (if address_IsZero (dc_ReplyTo d) \<and> pe_TTYAddress peer \<noteq> '''' then mustAddress (pe_TTYAddress peer) else dc_ReplyTo d)\<rparr>)"

definition avs_code_text :: "avs_diagnostic \<Rightarrow> string" where
  "avs_code_text x = (case x of UnmappedCode _ _ \<Rightarrow> ''unmapped_status_code'' | UnrecognisedLine _ _ \<Rightarrow> ''unrecognised_line'')"

definition decodeTypeB :: "env \<Rightarrow> seams \<Rightarrow> gw_peer \<Rightarrow> bytes \<Rightarrow> gateway \<Rightarrow> (string + decoded) \<times> gateway" where
  "decodeTypeB e sm peer raw g =
     (case Parse (of_bytes raw) of
        None \<Rightarrow> (Inl ''gateway: type b decode'', g)
      | Some tb \<Rightarrow>
          let d = (zero_decoded FormatTypeB)\<lparr>dc_TypeB := Some tb, dc_ReplyTo := tb_Origin tb,
                     dc_Diagnostics := map dg_Code (Diagnostics tb)\<rparr> in
          if tb_Text tb = '''' then (Inl ''gateway: type b message has no text'', g)
          else case text_dialect sm (tb_Text tb) of
                 Some (Inl err) \<Rightarrow> (Inl err, g)
               | Some (Inr f) \<Rightarrow> (Inr (f d), g)
               | None \<Rightarrow>
                   if IsAvailability (tb_Text tb) then
                     (let (t, g1) = gw_now e g; am = avs_Parse (avs_codes sm) t (tb_Text tb) t
                      in (Inr (d\<lparr>dc_AVS := Some (av_Entries am), dc_Kind := AVS,
                                 dc_Diagnostics := dc_Diagnostics d @ map avs_code_text (av_Diagnostics am)\<rparr>), g1))
                   else (Inr (typeb_booking sm peer tb d), g))"

definition decode ::
  "env \<Rightarrow> seams \<Rightarrow> (string \<Rightarrow> bool) \<Rightarrow> (string \<Rightarrow> bool) \<Rightarrow> ingest_options \<Rightarrow> gw_peer \<Rightarrow> bytes \<Rightarrow> gateway \<Rightarrow> (string + decoded) \<times> gateway" where
  "decode e sm latin1 utf8 opts peer raw g =
     (if TrimSpace (of_bytes raw) = '''' then (Inl ''gateway: empty message'', g)
      else
        let (r, g1) = (if looksLikeEDIFACT raw then (decodeEDIFACT sm latin1 utf8 opts raw, g)
                       else case aftn_dialect sm raw of
                              Some r \<Rightarrow> (r, g)
                            | None \<Rightarrow> decodeTypeB e sm peer raw g)
        in (map_sum (\<lambda>err. err) (\<lambda>d. d\<lparr>dc_self := Designator (Identity g)\<rparr>) r, g1))"


section \<open>Channel numbering\<close>

definition gap_code :: "sequence_gap \<Rightarrow> string" where
  "gap_code gap = (if Repeat gap then ''sequence_repeat'' else ''sequence_gap'')"

definition checkSequence :: "gw_peer \<Rightarrow> decoded \<Rightarrow> message \<times> gateway \<Rightarrow> message \<times> gateway" where
  "checkSequence peer dec mg =
     (case (mg, dc_TypeB dec) of
        ((m, g), None) \<Rightarrow> (m, g)
      | ((m, g), Some tb) \<Rightarrow>
          (case (if Channel tb = '''' then None else ParseChannel (Channel tb)) of
             None \<Rightarrow> (m, g)
           | Some (channel, sq) \<Rightarrow>
               let key = pe_Name peer @ ''|'' @ channel;
                   g1 = g\<lparr>gw_seq := gm_put key sq (gw_seq g)\<rparr>
               in case map_of (gw_seq g) key of
                    None \<Rightarrow> (m, g1)
                  | Some lst \<Rightarrow>
                      (case CheckSequence lst sq (SequenceWrap peer) of
                         None \<Rightarrow> (m, g1)
                       | Some gap \<Rightarrow> (m\<lparr>msg_Diagnostics := msg_Diagnostics m @ [gap_code gap]\<rparr>, g1))))"

section \<open>Syntax reports\<close>

definition wantsCONTRL :: "gw_peer \<Rightarrow> interchange \<Rightarrow> bool \<Rightarrow> bool" where
  "wantsCONTRL p ic rejected \<longleftrightarrow>
     (if pe_CONTRL p = ''never'' then False
      else if pe_CONTRL p = ''always'' then True
      else if pe_CONTRL p = ''errors'' then rejected
      else if pe_CONTRL p = '''' \<or> pe_CONTRL p = ''requested'' then AckRequested ic
      else False)"

definition contrl_answer :: "gateway \<Rightarrow> decoded \<Rightarrow> interchange \<Rightarrow> string \<Rightarrow> time \<Rightarrow> contrl_options" where
  "contrl_answer g dec ic ref at =
     \<lparr>co_Sender = zz_party (Designator (Identity g)), co_Recipient = zz_party (EdifactSender dec), co_ControlRef = ref, MessageRef = '''',
      co_Date = format_060102 at, co_Time = format_1504 at, co_SyntaxVersion = sy_Version (ic_Syntax ic),
      co_CharsetID = '''', co_Version = '''', co_Release = ''''\<rparr>"

definition plain_options :: ed_encode_options where
  "plain_options = \<lparr>ee_Syntax = None, EmitUNA = False, SegmentPerLine = False, ee_CRLF = False, ee_Charset = None\<rparr>"

text \<open>A failure is logged; the message goes on.\<close>

definition sendCONTRL :: "env \<Rightarrow> gw_peer \<Rightarrow> message \<Rightarrow> decoded \<Rightarrow> gateway \<Rightarrow> gateway" where
  "sendCONTRL e peer m dec g =
     (case dc_Interchange dec of
        None \<Rightarrow> g
      | Some ic \<Rightarrow>
          if dc_Format dec \<noteq> FormatEDIFACT then g
          else let report = Check ic in
            if \<not> wantsCONTRL peer ic (Rejected report) then g
            else let (ref, g1) = nextControlRef e g in
              (case Build report (contrl_answer g dec ic ref (msg_At m)) of
                 Inl _ \<Rightarrow> g1
               | Inr out \<Rightarrow>
                   (case ed_Encode plain_options out of
                      Inl _ \<Rightarrow> g1
                    | Inr raw \<Rightarrow> snd (gw_Send e peer (to_bytes raw) ''CONTRL'' '''' (msg_ID m) g1))))"

definition ActionMeaning :: "string strmap" where
  "ActionMeaning = [
     (''4'', ''this level and all lower levels rejected''),
     (''7'', ''this level acknowledged, next lower level acknowledged if not explicitly rejected''),
     (''8'', ''interchange received'')]"

definition SyntaxErrorMeaning :: "string strmap" where
  "SyntaxErrorMeaning = [
     (''2'', ''syntax version or level not supported''),
     (''7'', ''interchange recipient is not the actual recipient''),
     (''12'', ''invalid value''),
     (''13'', ''missing''),
     (''14'', ''value not supported in this position''),
     (''15'', ''not supported in this position''),
     (''16'', ''too many constituents''),
     (''17'', ''no agreement''),
     (''18'', ''unspecified error''),
     (''19'', ''invalid decimal notation''),
     (''20'', ''character invalid as service character''),
     (''21'', ''invalid character(s)''),
     (''22'', ''invalid service character(s)''),
     (''23'', ''unknown interchange sender''),
     (''24'', ''too old''),
     (''25'', ''test indicator not supported''),
     (''26'', ''duplicate detected''),
     (''27'', ''security function not supported''),
     (''28'', ''references do not match''),
     (''29'', ''control count does not match number of instances received''),
     (''30'', ''functional groups and messages mixed''),
     (''31'', ''more than one message type in group''),
     (''32'', ''lower level empty''),
     (''33'', ''invalid occurrence outside message or functional group''),
     (''34'', ''nesting indicator not allowed''),
     (''35'', ''too many segment repetitions''),
     (''36'', ''too many segment group repetitions''),
     (''37'', ''invalid type of character(s)''),
     (''38'', ''missing digit in front of decimal sign''),
     (''39'', ''data element too long'')]"

definition meaning_in :: "string strmap \<Rightarrow> string \<Rightarrow> string" where
  "meaning_in t code = (let m = gm_get '''' t code in if m \<noteq> '''' then '' ('' @ m @ '')'' else '''')"

definition report_text :: "report \<Rightarrow> string" where
  "report_text r = ''interchange '' @ rp_ControlRef r @ '': '' @ rp_Action r @ meaning_in ActionMeaning (rp_Action r)
     @ (if rp_Error r \<noteq> '''' then ''; error '' @ rp_Error r @ meaning_in SyntaxErrorMeaning (rp_Error r)
          @ (if rp_ServiceTag r \<noteq> '''' then '' in '' @ rp_ServiceTag r else '''') else '''')"

definition refused_item :: "gw_peer \<Rightarrow> report \<Rightarrow> string \<Rightarrow> pnr \<Rightarrow> queue_item" where
  "refused_item peer rep msgID rec =
     (new_item QueueDivergence (ID rec) (RecordLocator rec) ''contrl_rejected''
        (pe_Name peer @ '' refused interchange '' @ rp_ControlRef rep @ '': '' @ report_text rep))\<lparr>qi_MessageID := msgID\<rparr>"

definition applyCONTRL :: "env \<Rightarrow> gw_peer \<Rightarrow> report \<Rightarrow> step \<Rightarrow> string option \<times> step" where
  "applyCONTRL e peer rep s =
     (case s of (m0, r0, g) \<Rightarrow>
        let (m, r) = settle StatusApplied (m0\<lparr>Kind := ''CONTRL''\<rparr>) r0 in
        case FindOutboundByKey (gw_Store g) (pe_Name peer) (''unb:'' @ rp_ControlRef rep) of
          None \<Rightarrow> (None, m\<lparr>msg_Error := ''reports on interchange '' @ rp_ControlRef rep @ '', which this node has no record of sending''\<rparr>, r, g)
        | Some subject \<Rightarrow>
            let m1 = m\<lparr>CorrelationID := subject\<rparr> in
            (case GetMessage (gw_Store g) subject of
               Inl _ \<Rightarrow> (Some ''gateway: read the acknowledged message'', m1, r, g)
             | Inr out0 \<Rightarrow>
                 let out = (if Rejected rep then out0\<lparr>msg_Status := StatusRefused, msg_Error := report_text rep\<rparr>
                            else out0\<lparr>msg_Status := StatusAcknowledged\<rparr>)
                 in case UpdateMessage out (gw_Store g) of
                      Inl _ \<Rightarrow> (Some ''gateway: record the acknowledgement'', m1, r, g)
                    | Inr st \<Rightarrow>
                        let g1 = g\<lparr>gw_Store := st\<rparr> in
                        (None, m1, r,
                         if Rejected rep \<and> Queues g \<and> msg_PNRID out \<noteq> '''' then
                           (case GetPNRByID st (msg_PNRID out) of
                              Inl _ \<Rightarrow> g1
                            | Inr rec \<Rightarrow> gw_place e (refused_item peer rep (msg_ID m) rec) g1)
                         else g1)))"

section \<open>Availability\<close>

fun status_text :: "avail_status \<Rightarrow> string" where
  "status_text Open = ''open''"
| "status_text Closed = ''closed''"
| "status_text Waitlist = ''waitlist''"
| "status_text Request = ''request''"
| "status_text Unknown = ''unknown''"

definition entry_text :: "avail_entry \<Rightarrow> string" where
  "entry_text e =
     (let k = e_Key e in
      k_Carrier k @ k_FlightNum k @ ''/'' @ k_Date k @ '' '' @ k_Board k @ ''-'' @ k_Off k @ ''/'' @ k_Class k @ '' '' @ status_text (e_Status e)
      @ (if SeatsKnown e then '' ('' @ itoa_int (e_Seats e) @ '' seats)'' else '''') @ '' via '' @ e_Source e)"

text \<open>The puts of the entries, with the changes they report; each put reads the cache's clock.\<close>

fun put_entries :: "(nat \<Rightarrow> time) \<Rightarrow> nat \<Rightarrow> avail_entry list \<Rightarrow> cache \<Rightarrow> string list \<times> cache" where
  "put_entries clock k [] c = ([], c)"
| "put_entries clock k (x # xs) c =
     (let (ok, c1) = avail_Put (clock k) x c; (chs, c2) = put_entries clock (Suc k) xs c1
      in ((if ok then [''availability: '' @ entry_text x] else []) @ chs, c2))"

definition applyAvailability :: "env \<Rightarrow> avail_entry list \<Rightarrow> step \<Rightarrow> string option \<times> step" where
  "applyAvailability e es s =
     (case s of (m, r, g) \<Rightarrow>
        case gw_Avail g of
          None \<Rightarrow> let (m1, r1) = settle_error StatusRejected ''this node holds no availability cache'' m r in (None, m1, r1, g)
        | Some c \<Rightarrow>
            let (chs, c1) = put_entries (Now e) (ticks g) es c;
                (m1, r1) = settle StatusApplied m r
            in (None, m1, r1\<lparr>Changes := Changes r1 @ chs\<rparr>, g\<lparr>gw_Avail := Some c1, ticks := ticks g + length es\<rparr>))"

section \<open>Ground\<close>

definition toGround :: "seams \<Rightarrow> onward_kind \<Rightarrow> decoded \<Rightarrow> step \<Rightarrow> string option \<times> step" where
  "toGround sm kind dec s =
     (case s of (m, r, g) \<Rightarrow>
        case (case Ground sm of None \<Rightarrow> None | Some hand \<Rightarrow> hand kind dec) of
          None \<Rightarrow> let (m1, r1) = settle StatusApplied m r in (None, m1, r1, g)
        | Some err \<Rightarrow> let (m1, r1) = settle_error StatusRejected err m r in (None, m1, r1, g))"


section \<open>Schedules\<close>

definition lower_char :: "char \<Rightarrow> char" where
  "lower_char c = (if is_upper c then char_of (of_char c + 32 :: nat) else c)"

definition ToLower :: "string \<Rightarrow> string" where
  "ToLower = map lower_char"

definition defaultScheduleScanLimit :: int where "defaultScheduleScanLimit = 1000"

definition flightMatches :: "segment \<Rightarrow> string \<Rightarrow> schedule_message \<Rightarrow> bool" where
  "flightMatches seg flightKey sc \<longleftrightarrow>
     Carrier seg @ dropWhile (\<lambda>c. c = CHR ''0'') (FlightNum seg) = flightKey
     \<and> (sm_From sc = '''' \<or> (if sm_Single sc then EqualFold (WireDate seg) (sm_From sc) else True))"

definition parse_hhmm :: "string \<Rightarrow> int option" where
  "parse_hhmm s =
     (let h = dec_val (take 2 s); m = dec_val (drop 2 s) in
      if length s = 4 \<and> all_digits s \<and> h < 24 \<and> m < 60 then Some (int (h * 60 + m) * 60 * 1000000000) else None)"

definition scheduleTimeLocal :: "seams \<Rightarrow> string \<Rightarrow> string \<Rightarrow> time \<Rightarrow> bool \<Rightarrow> string option" where
  "scheduleTimeLocal sm hhmm station date local =
     (case (if length hhmm < 4 then None else parse_hhmm (take 4 hhmm)) of
        None \<Rightarrow> None
      | Some t \<Rightarrow>
          if local then Some (take 4 hhmm)
          else case LocalClock sm of
                 None \<Rightarrow> None
               | Some clock \<Rightarrow> map_option (\<lambda>off. format_1504 (t + off)) (clock station date))"

definition on_schedule :: "string \<Rightarrow> string \<Rightarrow> schedule_message \<Rightarrow> segment \<Rightarrow> bool" where
  "on_schedule want wireDate sc seg \<longleftrightarrow> SegmentOnFlight seg want wireDate \<and> flightMatches seg want sc"

text \<open>The new times of a segment, and the event they leave; \<open>None\<close> when nothing changes.\<close>

definition retimed :: "seams \<Rightarrow> string \<Rightarrow> string \<Rightarrow> schedule_message \<Rightarrow> segment \<Rightarrow> segment option" where
  "retimed sm want wireDate sc seg =
     (if \<not> on_schedule want wireDate sc seg then None
      else case find (\<lambda>l. leg_Board l = Board seg) (sm_Legs sc) of
             None \<Rightarrow> None
           | Some leg \<Rightarrow>
               let dep = scheduleTimeLocal sm (leg_Depart leg) (Board seg) (Depart seg) (sm_Local sc);
                   arr = scheduleTimeLocal sm (leg_Arrive leg) (Off seg) (Depart seg) (sm_Local sc);
                   s1 = (case dep of Some d \<Rightarrow> seg\<lparr>DepartTime := d\<rparr> | None \<Rightarrow> seg);
                   s2 = (case arr of Some a \<Rightarrow> s1\<lparr>ArriveTime := a\<rparr> | None \<Rightarrow> s1)
               in if s2 = seg then None
                  else Some (if sg_Status s2 = ''HK'' then s2\<lparr>sg_Status := ''TK''\<rparr> else s2))"

definition retime_event :: "message \<Rightarrow> segment \<Rightarrow> segment \<Rightarrow> event" where
  "retime_event msg seg seg' =
     \<lparr>ev_ID = '''', ev_PNRID = '''', Seq = 0, ev_Type = ''retime'',
      Detail = Describe seg' @ '' '' @ DepartTime seg @ ''/'' @ ArriveTime seg @ '' -> '' @ DepartTime seg' @ ''/'' @ ArriveTime seg' @ '' '' @ sg_Status seg',
      ev_MessageID = msg_ID msg, Actor = ''schedule'', ev_At = msg_At msg\<rparr>"

definition retime_all :: "seams \<Rightarrow> string \<Rightarrow> string \<Rightarrow> schedule_message \<Rightarrow> segment list \<Rightarrow> segment list" where
  "retime_all sm want wireDate sc = map (\<lambda>seg. case retimed sm want wireDate sc seg of Some seg' \<Rightarrow> seg' | None \<Rightarrow> seg)"

definition retime_events :: "seams \<Rightarrow> string \<Rightarrow> string \<Rightarrow> schedule_message \<Rightarrow> message \<Rightarrow> segment list \<Rightarrow> event list" where
  "retime_events sm want wireDate sc msg =
     List.map_filter (\<lambda>seg. map_option (retime_event msg seg) (retimed sm want wireDate sc seg))"

text \<open>The loop of \<open>retime\<close>: a conflict reads the record again; what it read is what it writes next.\<close>

fun retime_loop :: "env \<Rightarrow> seams \<Rightarrow> others \<Rightarrow> string \<Rightarrow> string \<Rightarrow> schedule_message \<Rightarrow> message \<Rightarrow> nat \<Rightarrow> nat \<Rightarrow> pnr \<Rightarrow> gateway \<Rightarrow> nat option \<times> gateway" where
  "retime_loop e sm others want wireDate sc msg k 0 rec g = (None, g)"
| "retime_loop e sm others want wireDate sc msg k (Suc left) rec g =
     (let evs = retime_events sm want wireDate sc msg (Segments rec) in
      if evs = [] then (Some 0, g)
      else
        let g1 = on_store (others k) g;
            rec1 = rec\<lparr>Segments := retime_all sm want wireDate sc (Segments rec), UpdatedAt := msg_At msg\<rparr>
        in case UpdatePNR (gen e) rec1 (pnr_Version rec) evs (gw_Store g1) of
             Inr (st, _) \<Rightarrow> (Some (length evs), g1\<lparr>gw_Store := st\<rparr>)
           | Inl ErrConflict \<Rightarrow>
               (case GetPNR (gw_Store g1) (RecordLocator rec) of
                  Some (Inr again) \<Rightarrow> retime_loop e sm others want wireDate sc msg (Suc k) left again g1
                | _ \<Rightarrow> (None, g1))
           | Inl _ \<Rightarrow> (None, g1))"

definition retime :: "env \<Rightarrow> seams \<Rightarrow> others \<Rightarrow> string \<Rightarrow> string \<Rightarrow> schedule_message \<Rightarrow> message \<Rightarrow> pnr \<Rightarrow> gateway \<Rightarrow> nat option \<times> gateway" where
  "retime e sm others want wireDate sc msg rec g =
     (if sm_Legs sc = [] \<or> \<not> sm_Single sc then (Some 0, g)
      else retime_loop e sm others want wireDate sc msg 0 5 rec g)"

definition schedule_item :: "schedule_message \<Rightarrow> string \<Rightarrow> pnr \<Rightarrow> segment \<Rightarrow> queue_item" where
  "schedule_item sc msgID rec seg =
     segment_item rec (Some seg) QueueScheduleChange (''schedule_'' @ ToLower (sm_Action sc)) (Describe seg @ '': '' @ sm_Describe sc) msgID"

definition schedule_items :: "string \<Rightarrow> string \<Rightarrow> schedule_message \<Rightarrow> string \<Rightarrow> pnr list \<Rightarrow> queue_item list" where
  "schedule_items want wireDate sc msgID recs =
     concat (map (\<lambda>rec. map (schedule_item sc msgID rec) (filter (on_schedule want wireDate sc) (Segments rec))) recs)"

text \<open>The bookings a schedule message concerns, at most as many as the limit.\<close>

definition schedule_bookings :: "schedule_message \<Rightarrow> gateway \<Rightarrow> pnr list" where
  "schedule_bookings sc g =
     (let limit = (if ScheduleScanLimit g \<le> 0 then defaultScheduleScanLimit else ScheduleScanLimit g)
      in FindPNRsByFlight (gw_Store g) (sm_FlightKey sc) (if sm_Single sc then sm_From sc else '''') limit)"

definition applySchedule :: "env \<Rightarrow> seams \<Rightarrow> others \<Rightarrow> schedule_message \<Rightarrow> step \<Rightarrow> string option \<times> step" where
  "applySchedule e sm others sc s =
     (case s of (m0, r0, g) \<Rightarrow>
        let (m, r) = settle StatusApplied m0 r0 in
        if \<not> Queues g \<or> sm_Carrier sc = '''' then (None, m, r, g)
        else
          let want = sm_FlightKey sc;
              wireDate = (if sm_Single sc then sm_From sc else '''');
              recs = schedule_bookings sc g;
              g1 = fold (gw_place e) (schedule_items want wireDate sc (msg_ID m) recs) g;
              g2 = (if sm_Action sc = ''TIM'' then fold (\<lambda>rec h. snd (retime e sm others want wireDate sc m rec h)) recs g1 else g1)
          in (None, m, r, g2))"

section \<open>The pipeline\<close>

definition suppressed :: "decoded \<Rightarrow> string \<Rightarrow> step \<Rightarrow> step" where
  "suppressed dec prev s =
     (case s of (m, r, g) \<Rightarrow>
        (m\<lparr>msg_Status := StatusRejected, CorrelationID := prev,
           msg_Error := (if dc_PossibleDuplicate dec then ''retransmission of '' @ prev @ '', marked PDM by the sender''
                         else ''duplicate of '' @ prev @ '', not marked PDM'')\<rparr>,
         r\<lparr>rs_Duplicate := True, rs_Status := StatusRejected\<rparr>, g))"

text \<open>The three relays; true when the message was pure transit.\<close>

definition transit :: "env \<Rightarrow> gw_peer \<Rightarrow> decoded \<Rightarrow> step \<Rightarrow> bool \<times> step" where
  "transit e peer dec s0 =
     (let on = Relay (snd (snd s0));
          (d1, s1) = (case dc_TypeB dec of
                        Some tb \<Rightarrow> if on \<and> Destinations tb \<noteq> [] then relay e peer tb (dc_Kind dec) s0 else (False, s0)
                      | None \<Rightarrow> (False, s0));
          (d2, s2) = (if d1 then (True, s1)
                      else case dc_AFTN dec of Some am \<Rightarrow> if on then relayAFTN e peer am (dc_Kind dec) s1 else (False, s1) | None \<Rightarrow> (False, s1))
      in if d2 then (True, s2)
         else case dc_Interchange dec of Some ic \<Rightarrow> if on then relayEDIFACT e peer ic (dc_Kind dec) s2 else (False, s2) | None \<Rightarrow> (False, s2))"

definition with_kind :: "string \<Rightarrow> step \<Rightarrow> step" where
  "with_kind k s = (case s of (m, r, g) \<Rightarrow> (m\<lparr>Kind := k\<rparr>, r, g))"

definition filed :: "step \<Rightarrow> string option \<times> step" where
  "filed s = (case s of (m, r, g) \<Rightarrow> let (m1, r1) = settle StatusApplied m r in (None, m1, r1, g))"

text \<open>What a message is handed to, once it is known to be for this node.\<close>

definition dispatch ::
  "env \<Rightarrow> seams \<Rightarrow> others \<Rightarrow> ingest_options \<Rightarrow> gw_peer \<Rightarrow> decoded \<Rightarrow> step \<Rightarrow> string option \<times> step" where
  "dispatch e sm others opts peer dec s =
     (if TicketControl dec \<noteq> None then applyTicketControl sm peer dec s
      else if ThroughCheckIn dec then applyThroughCheckIn sm peer dec (with_kind ''DCQCKI'' s)
      else if Onward dec = Some ThroughCheckInResponse then filed (with_kind ''DCRCKA'' s)
      else if Onward dec = Some PAXLST then filed (with_kind ''PAXLST'' s)
      else if Onward dec = Some PNRGOV then filed (with_kind ''PNRGOV'' s)
      else case dc_CONTRL dec of
        Some rep \<Rightarrow> applyCONTRL e peer rep s
      | None \<Rightarrow>
          let s1 = (case s of (m, r, g) \<Rightarrow> (m, r, sendCONTRL e peer m dec g)) in
          case Schedule dec of
            Some sc \<Rightarrow> applySchedule e sm others sc s1
          | None \<Rightarrow>
              (case dc_AVS dec of
                 Some es \<Rightarrow> applyAvailability e es s1
               | None \<Rightarrow>
                   (case Onward dec of
                      Some Movement \<Rightarrow> filed s1
                    | Some ATFM \<Rightarrow> if Ground sm \<noteq> None \<and> HearsATFM sm then toGround sm ATFM dec s1 else filed s1
                    | Some kind \<Rightarrow> toGround sm kind dec s1
                    | None \<Rightarrow> if dc_AFTN dec \<noteq> None then filed s1 else gw_apply e others opts peer dec s1)))"

definition settle_process ::
  "env \<Rightarrow> seams \<Rightarrow> others \<Rightarrow> ingest_options \<Rightarrow> gw_peer \<Rightarrow> decoded \<Rightarrow> step \<Rightarrow> string option \<times> step" where
  "settle_process e sm others opts peer dec s =
     (if dc_Test dec then
        (case s of (m, r, g) \<Rightarrow>
           let (m1, r1) = settle_error StatusRejected ''test interchange refused on a production link'' m r in (None, m1, r1, g))
      else case transit e peer dec s of
             (True, s1) \<Rightarrow> (None, s1)
           | (False, s1) \<Rightarrow> dispatch e sm others opts peer dec s1)"

definition process ::
  "env \<Rightarrow> seams \<Rightarrow> (string \<Rightarrow> bool) \<Rightarrow> (string \<Rightarrow> bool) \<Rightarrow> others \<Rightarrow> ingest_options \<Rightarrow> gw_peer \<Rightarrow> step \<Rightarrow> string option \<times> step" where
  "process e sm latin1 utf8 others opts peer s =
     (case s of (m, r, g) \<Rightarrow>
        case decode e sm latin1 utf8 opts peer (Raw m) g of
          (Inl err, g1) \<Rightarrow> (Some err, m, r, g1)
        | (Inr dec, g1) \<Rightarrow>
            let m1 = m\<lparr>Format := dc_Format dec, Kind := dc_Kind dec, DedupKey := dc_DedupKey dec, PossibleDuplicate := dc_PossibleDuplicate dec\<rparr>;
                (m2, g2) = checkSequence peer dec (m1, g1);
                m3 = m2\<lparr>msg_Diagnostics := dc_Diagnostics dec, msg_Status := StatusDecoded\<rparr>
            in if Unreadable dec \<noteq> '''' then (Some (''gateway: '' @ dc_Kind dec @ '' not readable: '' @ Unreadable dec), m3, r, g2)
               else case (if dc_DedupKey dec \<noteq> '''' then FindByDedupKey (gw_Store g2) (pe_Name peer) (dc_DedupKey dec) else None) of
                      Some prev \<Rightarrow> if prev \<noteq> msg_ID m then (None, suppressed dec prev (m3, r, g2))
                                    else settle_process e sm others opts peer dec (m3, r, g2)
                    | None \<Rightarrow> settle_process e sm others opts peer dec (m3, r, g2))"


section \<open>Ingest\<close>

definition stranger :: "string \<Rightarrow> gw_peer" where
  "stranger name =
     \<lparr>pe_Name = name, pe_Carrier = '''', pe_Format = FormatUnknown, SequenceWrap = 0, pe_CONTRL = '''', Via = '''', Trunk = False,
      pe_TTYAddress = '''', pe_Addresses = [], ICAO = '''', pe_AFTN = False\<rparr>"

definition captured :: "string \<Rightarrow> time \<Rightarrow> string \<Rightarrow> string \<Rightarrow> bytes \<Rightarrow> message" where
  "captured i now transport peerName raw =
     \<lparr>msg_ID = i, Direction = Inbound, msg_At = now, Transport = transport, Peer = peerName, Format = FormatUnknown,
      Kind = '''', Raw = raw, msg_Status = StatusReceived, msg_Error = '''', DedupKey = '''', PossibleDuplicate = False,
      msg_PNRID = '''', CorrelationID = '''', msg_Diagnostics = []\<rparr>"

definition zero_result :: "string \<Rightarrow> result" where
  "zero_result i = \<lparr>rs_MessageID = i, rs_PNRID = '''', rs_Locator = '''', rs_Status = '''', rs_Duplicate = False, Changes = [], Replies = [],
     rs_Reply = None, rs_Err = None\<rparr>"

text \<open>What is left of the outcome of \<open>process\<close>: an error moves the message to the dead letter queue.\<close>

definition concluded :: "string option \<times> step \<Rightarrow> step" where
  "concluded out =
     (case out of
        (None, s) \<Rightarrow> s
      | (Some err, m, r, g) \<Rightarrow> (m\<lparr>msg_Status := StatusDLQ, msg_Error := err\<rparr>, r\<lparr>rs_Status := StatusDLQ, rs_Err := Some err\<rparr>, g))"

definition capture :: "env \<Rightarrow> ingest_options \<Rightarrow> string \<Rightarrow> bytes \<Rightarrow> gateway \<Rightarrow> message \<times> gateway" where
  "capture e opts peerName raw g =
     (let (now, g1) = gw_now e g;
          (i, g2) = draw e now g1;
          m = captured i now (if io_Transport opts = '''' then ''link'' else io_Transport opts) peerName raw
      in (m, append_message e m g2))"

definition IngestWith ::
  "env \<Rightarrow> seams \<Rightarrow> (string \<Rightarrow> bool) \<Rightarrow> (string \<Rightarrow> bool) \<Rightarrow> others \<Rightarrow> ingest_options \<Rightarrow> string \<Rightarrow> bytes \<Rightarrow> gateway \<Rightarrow> result \<times> gateway" where
  "IngestWith e sm latin1 utf8 others opts peerName raw g =
     (let peer = (case gw_Peer g peerName of Some p \<Rightarrow> p | None \<Rightarrow> stranger peerName);
          (m, g1) = capture e opts peerName raw g;
          (m', r', g') = concluded (process e sm latin1 utf8 others opts peer (m, zero_result (msg_ID m), g1))
      in (r', update_message m' g'))"

definition Ingest ::
  "env \<Rightarrow> seams \<Rightarrow> (string \<Rightarrow> bool) \<Rightarrow> (string \<Rightarrow> bool) \<Rightarrow> others \<Rightarrow> string \<Rightarrow> bytes \<Rightarrow> gateway \<Rightarrow> result \<times> gateway" where
  "Ingest e sm latin1 utf8 others peerName raw g =
     IngestWith e sm latin1 utf8 others \<lparr>io_Transport = '''', FromFile = False, HoldReply = False\<rparr> peerName raw g"

end
