(* ===== verification/Gateway_Outcome.thy ===== *)
theory Gateway_Outcome
  imports Gateway_Ingest
begin

text \<open>
  What becomes of a delivered message: the frame of the pipeline (which parts of the captured message
  a handler may change), the outcome left in the log, retransmissions, channel numbering, syntax
  reports, availability broadcasts and schedule changes.
\<close>

named_theorems kept_intros "handlers that keep the captured message"

section \<open>The captured message\<close>

text \<open>A handler may set the kind, the outcome and the links to a record and to another message.\<close>

definition kept :: "message \<Rightarrow> message \<Rightarrow> bool" where
  "kept m m' \<longleftrightarrow>
     m' = m\<lparr>Kind := Kind m', msg_Status := msg_Status m', msg_Error := msg_Error m', msg_PNRID := msg_PNRID m',
            CorrelationID := CorrelationID m'\<rparr>"

lemma kept_refl [simp, intro!]: "kept m m" by (simp add: kept_def)

lemma kept_upd [simp]:
  "kept m (m'\<lparr>Kind := k\<rparr>) = kept m m'" "kept m (m'\<lparr>msg_Status := st\<rparr>) = kept m m'" "kept m (m'\<lparr>msg_Error := er\<rparr>) = kept m m'"
  "kept m (m'\<lparr>msg_PNRID := i\<rparr>) = kept m m'" "kept m (m'\<lparr>CorrelationID := c\<rparr>) = kept m m'"
  by (cases m; cases m'; simp add: kept_def)+

lemma kept_upd_left [simp]:
  "kept (m\<lparr>Kind := k\<rparr>) m' = kept m m'"
  by (cases m; cases m'; simp add: kept_def)

lemma keptD:
  assumes "kept m m'"
  shows "msg_ID m' = msg_ID m" "Direction m' = Direction m" "msg_At m' = msg_At m" "Transport m' = Transport m" "Peer m' = Peer m"
    "Format m' = Format m" "Raw m' = Raw m" "DedupKey m' = DedupKey m" "PossibleDuplicate m' = PossibleDuplicate m"
    "msg_Diagnostics m' = msg_Diagnostics m"
  using assms by (cases m; cases m'; simp add: kept_def)+

lemma kept_trans: "kept a b \<Longrightarrow> kept b c \<Longrightarrow> kept a c"
  by (cases a; cases b; cases c; simp add: kept_def)

lemma settle_kept [simp]:
  "kept m (fst (settle st m' r)) = kept m m'" "kept m (fst (settle_error st er m' r)) = kept m m'"
  by (simp_all add: settle_def settle_error_def)

text \<open>The two handlers outside this development keep it too.\<close>

definition seams_keep :: "seams \<Rightarrow> bool" where
  "seams_keep sm \<longleftrightarrow> (\<forall>p d s. kept (fst s) (fst (snd (applyTicketControl sm p d s))) \<and> kept (fst s) (fst (snd (applyThroughCheckIn sm p d s))))"

lemma relay_kept [kept_intros]: "kept (fst s) (fst (snd (relay e p tb k s)))"
  by (cases s) (auto simp: relay_def Let_def case_prod_beta)

lemma relayAFTN_kept [kept_intros]: "kept (fst s) (fst (snd (relayAFTN e p am k s)))"
  by (cases s) (auto simp: relayAFTN_def Let_def case_prod_beta)

lemma relayEDIFACT_kept [kept_intros]: "kept (fst s) (fst (snd (relayEDIFACT e p ic k s)))"
  by (cases s) (auto simp: relayEDIFACT_def Let_def case_prod_beta split: option.split)

lemma filed_kept [kept_intros]: "kept (fst s) (fst (snd (filed s)))"
  by (cases s) (auto simp: filed_def Let_def case_prod_beta)

lemma with_kind_kept [kept_intros]: "kept (fst s) (fst (with_kind k s))"
  by (cases s) (auto simp: with_kind_def)

lemma toGround_kept [kept_intros]: "kept (fst s) (fst (snd (toGround sm k d s)))"
  by (cases s) (auto simp: toGround_def Let_def case_prod_beta split: option.split)

lemma applyAvailability_kept [kept_intros]: "kept (fst s) (fst (snd (applyAvailability e es s)))"
  by (cases s) (auto simp: applyAvailability_def Let_def case_prod_beta split: option.split)

lemma applySchedule_kept [kept_intros]: "kept (fst s) (fst (snd (applySchedule e sm others sc s)))"
  by (cases s) (auto simp: applySchedule_def Let_def case_prod_beta)

lemma applyCONTRL_kept [kept_intros]: "kept (fst s) (fst (snd (applyCONTRL e p rep s)))"
  by (cases s) (auto simp: applyCONTRL_def Let_def case_prod_beta split: option.split sum.split)

lemma gw_apply_kept [kept_intros]: "kept (fst s) (fst (snd (gw_apply e others opts p d s)))"
  by (cases s) (auto simp: gw_apply_def follow_up_def Let_def case_prod_beta split: sum.split apply_error.split)

lemma then_kept:
  "kept m (fst s) \<Longrightarrow> kept m (fst (snd (relay e p tb k s)))"
  "kept m (fst s) \<Longrightarrow> kept m (fst (snd (relayAFTN e p am k s)))"
  "kept m (fst s) \<Longrightarrow> kept m (fst (snd (relayEDIFACT e p ic k s)))"
  by (blast intro: kept_trans kept_intros)+

lemma transit_kept [kept_intros]: "kept (fst s) (fst (snd (transit e p d s)))"
  by (auto simp: transit_def Let_def case_prod_beta intro!: then_kept split: option.split)

lemma dispatch_kept:
  assumes "seams_keep sm"
  shows "kept (fst s) (fst (snd (dispatch e sm others opts p d s)))"
proof -
  have seam: "kept (fst x) (fst (snd (applyTicketControl sm p d x)))" "kept (fst x) (fst (snd (applyThroughCheckIn sm p d x)))" for x
    using assms unfolding seams_keep_def by blast+
  obtain m r g where s: "s = (m, r, g)" by (cases s)
  let ?s1 = "(m, r, sendCONTRL e p m d g)"
  have onward: "kept m (fst (snd (applySchedule e sm others sc ?s1)))" "kept m (fst (snd (applyAvailability e es ?s1)))"
    "kept m (fst (snd (toGround sm k d ?s1)))" "kept m (fst (snd (gw_apply e others opts p d ?s1)))" "kept m (fst (snd (filed ?s1)))" for sc es k
    using applySchedule_kept [of ?s1] applyAvailability_kept [of ?s1] toGround_kept [of ?s1] gw_apply_kept [of ?s1] filed_kept [of ?s1] by simp_all
  have early: "kept m (fst (snd (applyCONTRL e p rep s)))" "kept m (fst (snd (filed (with_kind kd s))))"
    "kept m (fst (snd (applyThroughCheckIn sm p d (with_kind kd s))))" for rep kd
    using applyCONTRL_kept [of s e p rep] kept_trans [OF with_kind_kept filed_kept, of s kd] kept_trans [OF with_kind_kept seam(2), of s kd] s by simp_all
  show ?thesis
    using seam(1) [of s] onward early by (auto simp: dispatch_def s Let_def split: option.split onward_kind.split)
qed

text \<open>What the decoder writes on the captured message.\<close>

definition classified :: "decoded \<Rightarrow> message \<Rightarrow> message" where
  "classified dec m =
     m\<lparr>Format := dc_Format dec, DedupKey := dc_DedupKey dec, PossibleDuplicate := dc_PossibleDuplicate dec,
       msg_Diagnostics := dc_Diagnostics dec\<rparr>"

lemma checkSequence_message: "\<exists>ds. fst (checkSequence p d (m, g)) = m\<lparr>msg_Diagnostics := ds\<rparr>"
proof -
  have "fst (checkSequence p d (m, g)) = m \<or> (\<exists>x. fst (checkSequence p d (m, g)) = m\<lparr>msg_Diagnostics := msg_Diagnostics m @ [x]\<rparr>)"
    unfolding checkSequence_def Let_def by (simp split: option.split) blast
  moreover have "m = m\<lparr>msg_Diagnostics := msg_Diagnostics m\<rparr>" by simp
  ultimately show ?thesis by metis
qed

lemma decoded_message:
  fixes dec :: decoded and m :: message and p :: gw_peer and g :: gateway and st :: string
  shows "kept (classified dec m) ((fst (checkSequence p dec (m\<lparr>Format := dc_Format dec, Kind := dc_Kind dec,
    DedupKey := dc_DedupKey dec, PossibleDuplicate := dc_PossibleDuplicate dec\<rparr>, g)))\<lparr>msg_Diagnostics := dc_Diagnostics dec, msg_Status := st\<rparr>)"
proof -
  obtain ds where "fst (checkSequence p dec (m\<lparr>Format := dc_Format dec, Kind := dc_Kind dec,
    DedupKey := dc_DedupKey dec, PossibleDuplicate := dc_PossibleDuplicate dec\<rparr>, g)) = m\<lparr>Format := dc_Format dec, Kind := dc_Kind dec,
    DedupKey := dc_DedupKey dec, PossibleDuplicate := dc_PossibleDuplicate dec, msg_Diagnostics := ds\<rparr>"
    using checkSequence_message by metis
  then show ?thesis by (cases m) (simp add: classified_def kept_def)
qed

lemma settle_process_kept:
  assumes "seams_keep sm"
  shows "kept (fst s) (fst (snd (settle_process e sm others opts p d s)))"
proof -
  have "kept (fst s) (fst (snd (transit e p d s)))" by (rule transit_kept)
  then show ?thesis
    using kept_trans [OF _ dispatch_kept [OF assms]]
    by (cases s) (auto simp: settle_process_def Let_def case_prod_beta split: bool.split)
qed

lemma process_kept:
  assumes "seams_keep sm" "process e sm latin1 utf8 others opts peer (m, r, g) = (err, m', r', g')"
  shows "case fst (decode e sm latin1 utf8 opts peer (Raw m) g) of
           Inl x \<Rightarrow> err = Some x \<and> m' = m \<and> r' = r
         | Inr dec \<Rightarrow> kept (classified dec m) m'"
proof (cases "decode e sm latin1 utf8 opts peer (Raw m) g")
  case (Pair d g1)
  show ?thesis
  proof (cases d)
    case (Inl x)
    then show ?thesis using assms(2) Pair by (auto simp: process_def)
  next
    case (Inr dec)
    let ?m1 = "m\<lparr>Format := dc_Format dec, Kind := dc_Kind dec, DedupKey := dc_DedupKey dec, PossibleDuplicate := dc_PossibleDuplicate dec\<rparr>"
    obtain m2 g2 where c: "checkSequence peer dec (?m1, g1) = (m2, g2)" by (metis surj_pair)
    let ?m3 = "m2\<lparr>msg_Diagnostics := dc_Diagnostics dec, msg_Status := StatusDecoded\<rparr>"
    have k: "kept (classified dec m) ?m3" using decoded_message [of dec m StatusDecoded peer g1] c by simp
    have "kept (classified dec m) (fst (snd (settle_process e sm others opts peer dec (?m3, r, g2))))"
      using kept_trans [OF k] settle_process_kept [OF assms(1), of "(?m3, r, g2)"] by simp
    then have "kept (classified dec m) m'"
      using assms(2) Pair Inr c k
      by (auto simp: process_def suppressed_def Let_def split: if_splits option.splits)
    then show ?thesis using Pair Inr by simp
  qed
qed

section \<open>The outcome of a delivery\<close>

text \<open>The peer a delivery is attributed to, and the message as it is captured.\<close>

definition peer_of :: "gateway \<Rightarrow> string \<Rightarrow> gw_peer" where
  "peer_of g name = (case gw_Peer g name of Some p \<Rightarrow> p | None \<Rightarrow> stranger name)"

definition new_id :: "env \<Rightarrow> gateway \<Rightarrow> string" where
  "new_id e g = NewAt e (Now e (ticks g)) (drawn (gw_Store g))"

definition taken_in :: "env \<Rightarrow> ingest_options \<Rightarrow> string \<Rightarrow> bytes \<Rightarrow> gateway \<Rightarrow> message" where
  "taken_in e opts name raw g =
     captured (new_id e g) (Now e (ticks g)) (if io_Transport opts = '''' then ''link'' else io_Transport opts) name raw"

lemma capture_message: "fst (capture e opts name raw g) = taken_in e opts name raw g"
  by (simp add: capture_def gw_now_def draw_def taken_in_def new_id_def Let_def)

lemma taken_in_fields [simp]:
  "msg_ID (taken_in e opts name raw g) = new_id e g" "Direction (taken_in e opts name raw g) = Inbound"
  "Peer (taken_in e opts name raw g) = name" "Raw (taken_in e opts name raw g) = raw" "DedupKey (taken_in e opts name raw g) = ''''"
  by (simp_all add: taken_in_def captured_def)

lemma IngestWith_eq:
  "IngestWith e sm latin1 utf8 others opts name raw g =
     (let (m', r', g') = concluded (process e sm latin1 utf8 others opts (peer_of g name)
             (taken_in e opts name raw g, zero_result (new_id e g), snd (capture e opts name raw g)))
      in (r', update_message m' g'))"
proof -
  obtain m g1 where c: "capture e opts name raw g = (m, g1)" by (metis surj_pair)
  then have m: "m = taken_in e opts name raw g" using capture_message [of e opts name raw g] by simp
  show ?thesis unfolding IngestWith_def c by (simp add: peer_of_def m Let_def)
qed

lemma update_held:
  assumes "map_of (messages (gw_Store (update_message m g))) (msg_ID m) = Some x"
  shows "x = m" "gw_Store (update_message m g) = index_dedup m ((gw_Store g)\<lparr>messages := gm_put (msg_ID m) m (messages (gw_Store g))\<rparr>)"
proof -
  have idx: "messages (index_dedup m s) = messages s" for s by (simp add: index_dedup_def Let_def)
  show "x = m" "gw_Store (update_message m g) = index_dedup m ((gw_Store g)\<lparr>messages := gm_put (msg_ID m) m (messages (gw_Store g))\<rparr>)"
    using assms by (auto simp: update_message_def UpdateMessage_def idx split: sum.splits if_splits)
qed

text \<open>The run of a delivery, taken apart.\<close>

lemma ingest_run:
  assumes "IngestWith e sm latin1 utf8 others opts name raw g = (r, g')"
  obtains err m0 r0 g0 m r1 where
    "process e sm latin1 utf8 others opts (peer_of g name) (taken_in e opts name raw g, zero_result (new_id e g), snd (capture e opts name raw g)) = (err, m0, r0, g0)"
    "concluded (err, m0, r0, g0) = (m, r, g0)" "g' = update_message m g0"
    "err = None \<Longrightarrow> m = m0 \<and> r = r0"
    "\<And>x. err = Some x \<Longrightarrow> m = m0\<lparr>msg_Status := StatusDLQ, msg_Error := x\<rparr> \<and> rs_Status r = StatusDLQ \<and> rs_Err r = Some x"
    "kept m0 m"
proof -
  obtain err m0 r0 g0 where p: "process e sm latin1 utf8 others opts (peer_of g name)
      (taken_in e opts name raw g, zero_result (new_id e g), snd (capture e opts name raw g)) = (err, m0, r0, g0)"
    by (metis prod_cases4)
  have r: "(r, g') = (let (m', r', h) = concluded (err, m0, r0, g0) in (r', update_message m' h))"
    using assms unfolding IngestWith_eq p by simp
  show thesis
  proof (cases err)
    case None
    have c: "concluded (err, m0, r0, g0) = (m0, r0, g0)" by (simp add: concluded_def None)
    have "r = r0" "g' = update_message m0 g0" using r unfolding c by simp_all
    then show thesis using c None by (intro that [OF p, of m0]) simp_all
  next
    case (Some x)
    have c: "concluded (err, m0, r0, g0) = (m0\<lparr>msg_Status := StatusDLQ, msg_Error := x\<rparr>, r0\<lparr>rs_Status := StatusDLQ, rs_Err := Some x\<rparr>, g0)"
      by (simp add: concluded_def Some)
    have "r = r0\<lparr>rs_Status := StatusDLQ, rs_Err := Some x\<rparr>" "g' = update_message (m0\<lparr>msg_Status := StatusDLQ, msg_Error := x\<rparr>) g0"
      using r unfolding c by simp_all
    then show thesis using c Some by (intro that [OF p, of "m0\<lparr>msg_Status := StatusDLQ, msg_Error := x\<rparr>"]) simp_all
  qed
qed

lemma outcome_parts:
  assumes "seams_keep sm"
    and run: "IngestWith e sm latin1 utf8 others opts name raw g = (r, g')"
    and held: "map_of (messages (gw_Store g')) (new_id e g) = Some m"
  shows "Raw m = raw \<and> Peer m = name \<and> Direction m = Inbound \<and> msg_At m = Now e (ticks g)"
    and "case fst (decode e sm latin1 utf8 opts (peer_of g name) raw (snd (capture e opts name raw g))) of
           Inl x \<Rightarrow> msg_Status m = StatusDLQ \<and> msg_Error m = x \<and> rs_Status r = StatusDLQ \<and> rs_Err r = Some x
         | Inr dec \<Rightarrow> Format m = dc_Format dec \<and> DedupKey m = dc_DedupKey dec
             \<and> PossibleDuplicate m = dc_PossibleDuplicate dec \<and> msg_Diagnostics m = dc_Diagnostics dec"
    and "case fst (process e sm latin1 utf8 others opts (peer_of g name)
               (taken_in e opts name raw g, zero_result (new_id e g), snd (capture e opts name raw g))) of
           Some x \<Rightarrow> msg_Status m = StatusDLQ \<and> msg_Error m = x \<and> rs_Status r = StatusDLQ \<and> rs_Err r = Some x
         | None \<Rightarrow> True"
    and "msg_ID m = new_id e g \<and> (\<exists>g0. g' = update_message m g0)"
proof -
  obtain err m0 r0 g0 m1 where p: "process e sm latin1 utf8 others opts (peer_of g name)
      (taken_in e opts name raw g, zero_result (new_id e g), snd (capture e opts name raw g)) = (err, m0, r0, g0)"
    "g' = update_message m1 g0" "err = None \<Longrightarrow> m1 = m0 \<and> r = r0"
    "\<And>x. err = Some x \<Longrightarrow> m1 = m0\<lparr>msg_Status := StatusDLQ, msg_Error := x\<rparr> \<and> rs_Status r = StatusDLQ \<and> rs_Err r = Some x"
    "kept m0 m1"
    by (rule ingest_run [OF run]) blast
  note kp = process_kept [OF assms(1) p(1)]
  let ?t = "taken_in e opts name raw g"
  have base: "msg_ID m1 = new_id e g \<and> Raw m1 = raw \<and> Peer m1 = name \<and> Direction m1 = Inbound \<and> msg_At m1 = Now e (ticks g)"
  proof (cases "fst (decode e sm latin1 utf8 opts (peer_of g name) (Raw ?t) (snd (capture e opts name raw g)))")
    case (Inl x)
    then show ?thesis using kp keptD [OF p(5)] by (simp add: taken_in_def captured_def)
  next
    case (Inr dec)
    then show ?thesis using kp keptD [OF p(5)] keptD [of "classified dec ?t" m0]
      by (simp add: classified_def) (simp add: taken_in_def captured_def)
  qed
  have m: "m = m1" using update_held(1) [of m1 g0 m] held base p(2) by simp
  show "Raw m = raw \<and> Peer m = name \<and> Direction m = Inbound \<and> msg_At m = Now e (ticks g)" using base m by simp
  show "case fst (decode e sm latin1 utf8 opts (peer_of g name) raw (snd (capture e opts name raw g))) of
           Inl x \<Rightarrow> msg_Status m = StatusDLQ \<and> msg_Error m = x \<and> rs_Status r = StatusDLQ \<and> rs_Err r = Some x
         | Inr dec \<Rightarrow> Format m = dc_Format dec \<and> DedupKey m = dc_DedupKey dec
             \<and> PossibleDuplicate m = dc_PossibleDuplicate dec \<and> msg_Diagnostics m = dc_Diagnostics dec"
    using kp p(4) m keptD [OF p(5)] keptD [of "classified _ ?t" m0] by (auto simp: classified_def split: sum.splits)
  show "case fst (process e sm latin1 utf8 others opts (peer_of g name)
               (?t, zero_result (new_id e g), snd (capture e opts name raw g))) of
           Some x \<Rightarrow> msg_Status m = StatusDLQ \<and> msg_Error m = x \<and> rs_Status r = StatusDLQ \<and> rs_Err r = Some x
         | None \<Rightarrow> True"
    using p(1,4) m by (simp split: option.split)
  show "msg_ID m = new_id e g \<and> (\<exists>g0. g' = update_message m g0)" using base m p(2) by blast
qed
lemma indexed_after:
  assumes "seams_keep sm" "IngestWith e sm latin1 utf8 others opts name raw g = (r, g')"
    "map_of (messages (gw_Store g')) (new_id e g) = Some m" "DedupKey m \<noteq> ''''"
  shows "map_of (dedup (gw_Store g')) (dedupKey (Direction m) (Peer m) (DedupKey m)) \<noteq> None"
proof -
  obtain g0 where g0: "msg_ID m = new_id e g" "g' = update_message m g0" using outcome_parts(4) [OF assms(1-3)] by blast
  have "gw_Store g' = index_dedup m ((gw_Store g0)\<lparr>messages := gm_put (msg_ID m) m (messages (gw_Store g0))\<rparr>)"
    using update_held(2) [of m g0 m] assms(3) g0 by simp
  then show ?thesis using assms(4) by (auto simp: index_dedup_def Let_def gm_put_def update_conv')
qed

text \<open>
  C11: No delivery is lost. Whatever bytes arrive on a link, from a configured peer or a stranger, and
  whatever becomes of them: if the log still holds the message, it holds exactly the bytes that
  arrived, under the name of the link and the time of arrival. Bytes that cannot be decoded are in the
  dead letter queue with the decoder's reason, as is every message whose handling failed, and the
  caller is told; what was decoded carries the decoder's format, key and diagnostics.
\<close>

theorem ingest_outcome:
  assumes "seams_keep sm" "IngestWith e sm latin1 utf8 others opts name raw g = (r, g')"
    and "map_of (messages (gw_Store g')) (new_id e g) = Some m"
  shows "Raw m = raw \<and> Peer m = name \<and> Direction m = Inbound \<and> msg_At m = Now e (ticks g)
     \<and> (case fst (decode e sm latin1 utf8 opts (peer_of g name) raw (snd (capture e opts name raw g))) of
           Inl x \<Rightarrow> msg_Status m = StatusDLQ \<and> msg_Error m = x \<and> rs_Status r = StatusDLQ \<and> rs_Err r = Some x
         | Inr dec \<Rightarrow> Format m = dc_Format dec \<and> DedupKey m = dc_DedupKey dec
             \<and> PossibleDuplicate m = dc_PossibleDuplicate dec \<and> msg_Diagnostics m = dc_Diagnostics dec)
     \<and> (case fst (process e sm latin1 utf8 others opts (peer_of g name)
               (taken_in e opts name raw g, zero_result (new_id e g), snd (capture e opts name raw g))) of
           Some x \<Rightarrow> msg_Status m = StatusDLQ \<and> msg_Error m = x \<and> rs_Status r = StatusDLQ \<and> rs_Err r = Some x
         | None \<Rightarrow> True)"
  using outcome_parts(1-3) [OF assms] by blast

section \<open>Retransmissions\<close>

lemma capture_identity: "Identity (snd (capture e opts name raw g)) = Identity g"
  by (simp add: capture_def gw_now_def draw_def append_message_def Let_def)

text \<open>Decoding depends on the gateway's name only, unless the message is an availability broadcast.\<close>

lemma decode_stateless:
  assumes "fst (decode e sm latin1 utf8 opts peer raw g) = Inr dec" "dc_DedupKey dec \<noteq> ''''" "Identity h = Identity g"
  shows "decode e sm latin1 utf8 opts peer raw h = (Inr dec, h)"
proof -
  have tb: "fst (decodeTypeB e sm peer raw g) = Inr d \<Longrightarrow> dc_DedupKey d \<noteq> '''' \<Longrightarrow> decodeTypeB e sm peer raw h = (Inr d, h)" for d
    by (auto simp: decodeTypeB_def zero_decoded_def gw_now_def Let_def case_prod_beta split: option.splits sum.splits if_splits)
  obtain d where d: "dec = d\<lparr>dc_self := Designator (Identity g)\<rparr>" "dc_DedupKey d \<noteq> ''''"
    "fst (if looksLikeEDIFACT raw then (decodeEDIFACT sm latin1 utf8 opts raw, g)
          else case aftn_dialect sm raw of Some r \<Rightarrow> (r, g) | None \<Rightarrow> decodeTypeB e sm peer raw g) = Inr d"
    "TrimSpace (of_bytes raw) \<noteq> ''''"
    using assms(1,2) unfolding decode_def
    by (cases "fst (if looksLikeEDIFACT raw then (decodeEDIFACT sm latin1 utf8 opts raw, g)
          else case aftn_dialect sm raw of Some r \<Rightarrow> (r, g) | None \<Rightarrow> decodeTypeB e sm peer raw g)")
       (auto simp: Let_def case_prod_beta split: if_splits)
  have "(if looksLikeEDIFACT raw then (decodeEDIFACT sm latin1 utf8 opts raw, h)
          else case aftn_dialect sm raw of Some r \<Rightarrow> (r, h) | None \<Rightarrow> decodeTypeB e sm peer raw h) = (Inr d, h)"
    using d(2,3) tb by (auto split: option.splits if_splits)
  then show ?thesis using d(1,4) assms(3) unfolding decode_def by simp
qed

lemma gm_put_put [simp]: "gm_put k v (gm_put k w m) = gm_put k v m"
  unfolding gm_put_def by (induction m) auto

lemma checkSequence_gateway: "\<exists>sq. snd (checkSequence p d (m, g)) = g\<lparr>gw_seq := sq\<rparr>"
proof -
  have "snd (checkSequence p d (m, g)) = g \<or> (\<exists>sq. snd (checkSequence p d (m, g)) = g\<lparr>gw_seq := sq\<rparr>)"
    unfolding checkSequence_def Let_def by (simp split: option.split) blast
  moreover have "g = g\<lparr>gw_seq := gw_seq g\<rparr>" by simp
  ultimately show ?thesis by metis
qed

text \<open>Room for one more message: the log is unbounded or not full.\<close>

definition log_room :: "mem \<Rightarrow> bool" where
  "log_room s \<longleftrightarrow> MaxMessages s \<le> 0 \<or> int (length (messageIDs s)) < MaxMessages s"

definition logged :: "message \<Rightarrow> mem \<Rightarrow> mem" where
  "logged m s = s\<lparr>drawn := Suc (drawn s), messages := gm_put (msg_ID m) m (messages s), messageIDs := push_sorted (messageIDs s) (msg_ID m)\<rparr>"

lemma length_push_sorted: "length (push_sorted is i) = Suc (length is)"
  by (simp add: push_sorted_def Let_def)

lemma capture_store:
  assumes "new_id e g \<noteq> ''''" "log_room (gw_Store g)"
  shows "snd (capture e opts name raw g) = g\<lparr>gw_Store := logged (taken_in e opts name raw g) (gw_Store g), ticks := Suc (ticks g)\<rparr>"
proof -
  let ?m = "taken_in e opts name raw g"
  have t: "trimMessagesLocked (logged ?m (gw_Store g)) = logged ?m (gw_Store g)"
    using assms(2) by (auto simp: trimMessagesLocked_def log_room_def logged_def length_push_sorted)
  have a: "fst (AppendMessage (gen e) ?m ((gw_Store g)\<lparr>drawn := Suc (drawn (gw_Store g))\<rparr>)) = logged ?m (gw_Store g)"
    using assms(1) t by (simp add: AppendMessage_def index_dedup_def logged_def Let_def)
  have "?m = captured (NewAt e (Now e (ticks g)) (drawn (gw_Store g))) (Now e (ticks g)) (if io_Transport opts = '''' then ''link'' else io_Transport opts) name raw"
    by (simp add: taken_in_def new_id_def)
  then show ?thesis using a
    by (simp add: capture_def gw_now_def draw_def append_message_def Let_def)
qed

text \<open>The store without its message log; the log is its entries, their order, the index of their keys and the identifiers drawn for it.\<close>

definition beside_log :: "mem \<Rightarrow> mem" where
  "beside_log s = s\<lparr>messages := [], messageIDs := [], dedup := [], drawn := 0\<rparr>"

lemma beside_log_upd [simp]:
  "beside_log (s\<lparr>messages := ms\<rparr>) = beside_log s" "beside_log (s\<lparr>messageIDs := is\<rparr>) = beside_log s"
  "beside_log (s\<lparr>dedup := d\<rparr>) = beside_log s" "beside_log (s\<lparr>drawn := n\<rparr>) = beside_log s"
  by (simp_all add: beside_log_def)

lemma beside_log_index [simp]: "beside_log (index_dedup m s) = beside_log s"
  by (simp add: index_dedup_def Let_def)

lemma beside_log_drop [simp]: "beside_log (drop_ids is s) = beside_log s"
  by (induction "is" s rule: drop_ids.induct) (simp_all add: drop_message_def Let_def split: option.split)

lemma beside_log_append [simp]: "beside_log (fst (AppendMessage gn m s)) = beside_log s"
  by (simp add: AppendMessage_def trimMessagesLocked_def Let_def)

lemma beside_log_update [simp]: "beside_log (gw_Store (update_message m g)) = beside_log (gw_Store g)"
  by (simp add: update_message_def UpdateMessage_def)

lemma update_message_only: "update_message m g = g\<lparr>gw_Store := gw_Store (update_message m g)\<rparr>"
  by (simp add: update_message_def split: sum.split)

lemma update_message_seq: "update_message m (g\<lparr>gw_seq := sq\<rparr>) = (update_message m g)\<lparr>gw_seq := sq\<rparr>"
  by (simp add: update_message_def split: sum.split)

text \<open>Taking a message in touches the log and the clock.\<close>

lemma capture_log:
  "snd (capture e opts name raw g) = g\<lparr>gw_Store := gw_Store (snd (capture e opts name raw g)), ticks := Suc (ticks g)\<rparr>"
  "beside_log (gw_Store (snd (capture e opts name raw g))) = beside_log (gw_Store g)"
  by (simp_all add: capture_def gw_now_def draw_def append_message_def Let_def)

lemma index_dedup_seen:
  "map_of (dedup s) (dedupKey (Direction m) (Peer m) (DedupKey m)) \<noteq> None \<Longrightarrow> index_dedup m s = s"
  by (simp add: index_dedup_def Let_def)

text \<open>
  The gateway after a suppressed delivery: what taking it in made of \<open>g\<close>, the outcome \<open>m\<close> written to its
  entry of the log. Nothing but the log, the clock and the numbering of the links differs from \<open>g\<close>.
\<close>

definition only_logged :: "env \<Rightarrow> ingest_options \<Rightarrow> string \<Rightarrow> bytes \<Rightarrow> message \<Rightarrow> gateway \<Rightarrow> gateway \<Rightarrow> bool" where
  "only_logged e opts name raw m g g' \<longleftrightarrow>
     (\<exists>sq. g' = (update_message m (snd (capture e opts name raw g)))\<lparr>gw_seq := sq\<rparr>
         \<and> g' = g\<lparr>gw_Store := gw_Store g', ticks := Suc (ticks g), gw_seq := sq\<rparr>)
   \<and> beside_log (gw_Store g') = beside_log (gw_Store g)"

lemma only_loggedI:
  assumes "g' = update_message m ((snd (capture e opts name raw g))\<lparr>gw_seq := sq\<rparr>)"
  shows "only_logged e opts name raw m g g'"
proof -
  let ?c = "snd (capture e opts name raw g)"
  have g': "g' = (update_message m ?c)\<lparr>gw_seq := sq\<rparr>" using assms by (simp only: update_message_seq)
  have "g' = ?c\<lparr>gw_Store := gw_Store g', gw_seq := sq\<rparr>"
    unfolding g' by (subst update_message_only) simp
  also have "\<dots> = g\<lparr>gw_Store := gw_Store g', ticks := Suc (ticks g), gw_seq := sq\<rparr>"
    by (subst capture_log(1)) simp
  finally have "g' = g\<lparr>gw_Store := gw_Store g', ticks := Suc (ticks g), gw_seq := sq\<rparr>" .
  moreover have "beside_log (gw_Store g') = beside_log (gw_Store g)" by (simp add: g' capture_log(2))
  ultimately show ?thesis unfolding only_logged_def using g' by blast
qed

lemma duplicate_delivery:
  assumes dec: "fst (decode e sm latin1 utf8 opts (peer_of g name) raw g) = Inr dec" "dc_DedupKey dec \<noteq> ''''" "Unreadable dec = ''''"
    and seen: "FindByDedupKey (gw_Store (snd (capture e opts name raw g))) name (dc_DedupKey dec) = Some prev" "prev \<noteq> new_id e g"
    and fits: "pe_Name (peer_of g name) = name"
    and run: "IngestWith e sm latin1 utf8 others opts name raw g = (r, g')"
  shows "\<exists>m. only_logged e opts name raw m g g' \<and> msg_ID m = new_id e g \<and> Raw m = raw \<and> msg_Status m = StatusRejected \<and> CorrelationID m = prev
             \<and> rs_Duplicate r \<and> rs_Status r = StatusRejected \<and> Replies r = [] \<and> rs_Reply r = None"
proof -
  let ?t = "taken_in e opts name raw g"
  define g1 where "g1 = snd (capture e opts name raw g)"
  have d: "decode e sm latin1 utf8 opts (peer_of g name) raw g1 = (Inr dec, g1)"
    by (rule decode_stateless [OF dec(1,2)]) (simp add: g1_def capture_identity)
  let ?m1 = "?t\<lparr>Format := dc_Format dec, Kind := dc_Kind dec, DedupKey := dc_DedupKey dec, PossibleDuplicate := dc_PossibleDuplicate dec\<rparr>"
  obtain sq where sq: "snd (checkSequence (peer_of g name) dec (?m1, g1)) = g1\<lparr>gw_seq := sq\<rparr>" using checkSequence_gateway by blast
  define m2 where "m2 = fst (checkSequence (peer_of g name) dec (?m1, g1))"
  have ck: "checkSequence (peer_of g name) dec (?m1, g1) = (m2, g1\<lparr>gw_seq := sq\<rparr>)" by (simp add: m2_def sq [symmetric])
  define m3 where "m3 = m2\<lparr>msg_Diagnostics := dc_Diagnostics dec, msg_Status := StatusDecoded\<rparr>"
  have k: "kept (classified dec ?t) m3" using decoded_message [of dec ?t StatusDecoded "peer_of g name" g1] by (simp add: m3_def m2_def)
  have m3: "msg_ID m3 = new_id e g" "Raw m3 = raw"
    using keptD [OF k] by (simp_all add: classified_def)
  define err where "err = (if dc_PossibleDuplicate dec then ''retransmission of '' @ prev @ '', marked PDM by the sender''
                         else ''duplicate of '' @ prev @ '', not marked PDM'')"
  define m where "m = m3\<lparr>msg_Status := StatusRejected, CorrelationID := prev, msg_Error := err\<rparr>"
  let ?r = "(zero_result (new_id e g))\<lparr>rs_Duplicate := True, rs_Status := StatusRejected\<rparr>"
  have p: "process e sm latin1 utf8 others opts (peer_of g name) (?t, zero_result (new_id e g), g1) = (None, m, ?r, g1\<lparr>gw_seq := sq\<rparr>)"
    using d ck dec(2,3) seen [folded g1_def] fits m3(1)
    by (simp add: process_def suppressed_def Let_def m3_def [symmetric] m_def err_def)
  have res: "r = ?r" "g' = update_message m (g1\<lparr>gw_seq := sq\<rparr>)"
    using run unfolding IngestWith_eq g1_def [symmetric] p by (simp_all add: concluded_def)
  show ?thesis using only_loggedI [OF res(2) [unfolded g1_def]] res(1)
    by (intro exI [of _ m]) (simp add: m_def m3 zero_result_def)
qed

text \<open>
  C5: A retransmission changes nothing, whatever became of the first delivery. A first delivery of
  bytes with a key that is itself still in the log leaves the key known to it. The same bytes arriving again on the same link at
  any later time, whatever happened in between, are rejected as a duplicate of the message the key
  names, as long as the log still knows the key when the repeat has been taken in (a full log forgets
  its oldest messages and their keys) and the identifier drawn is a fresh one. Nothing is answered,
  and nothing but the message log, the clock and the numbering of the links changes: no record,
  queue, seat, availability or link is touched. That holds for a first delivery that failed as well:
  it has the same key, so the retry its sender owes is the one message that will not be applied.
\<close>

theorem retransmission_suppressed:
  assumes "seams_keep sm" "pe_Name (peer_of g name) = name"
    and decoded: "fst (decode e sm latin1 utf8 opts (peer_of g name) raw (snd (capture e opts name raw g))) = Inr dec"
      "dc_DedupKey dec \<noteq> ''''" "Unreadable dec = ''''"
    and first: "IngestWith e sm latin1 utf8 others opts name raw g = (r, g')"
      "map_of (messages (gw_Store g')) (new_id e g) = Some m"
    and later: "Identity h = Identity g" "gw_Peer h name = gw_Peer g name"
      "FindByDedupKey (gw_Store (snd (capture e opts name raw h))) name (dc_DedupKey dec) = FindByDedupKey (gw_Store g') name (dc_DedupKey dec)"
      "FindByDedupKey (gw_Store g') name (dc_DedupKey dec) \<noteq> Some (new_id e h)"
    and second: "IngestWith e sm latin1 utf8 others' opts name raw h = (r2, h')"
  shows "\<exists>m2. only_logged e opts name raw m2 h h' \<and> msg_ID m2 = new_id e h \<and> Raw m2 = raw \<and> msg_Status m2 = StatusRejected
           \<and> FindByDedupKey (gw_Store g') name (dc_DedupKey dec) = Some (CorrelationID m2)
           \<and> rs_Duplicate r2 \<and> rs_Status r2 = StatusRejected \<and> Replies r2 = [] \<and> rs_Reply r2 = None"
proof -
  have o: "Peer m = name \<and> Direction m = Inbound \<and> DedupKey m = dc_DedupKey dec"
    using outcome_parts(1,2) [OF assms(1) first] decoded(1) by simp
  have "map_of (dedup (gw_Store g')) (dedupKey Inbound name (dc_DedupKey dec)) \<noteq> None"
    using indexed_after [OF assms(1) first] o decoded(2) by simp
  then obtain prev where prev: "FindByDedupKey (gw_Store g') name (dc_DedupKey dec) = Some prev"
    using decoded(2) by (auto simp: FindByDedupKey_def findKey_def)
  then have known: "FindByDedupKey (gw_Store (snd (capture e opts name raw h))) name (dc_DedupKey dec) = Some prev" "prev \<noteq> new_id e h"
    using later(3,4) by auto
  have peer: "peer_of h name = peer_of g name" using later(2) by (simp add: peer_of_def)
  have dec: "fst (decode e sm latin1 utf8 opts (peer_of h name) raw h) = Inr dec"
    using decode_stateless [OF decoded(1,2)] later(1) capture_identity [of e opts name raw g] by (simp add: peer)
  have "pe_Name (peer_of h name) = name" using assms(2) by (simp add: peer)
  from duplicate_delivery [OF dec decoded(2,3) known this second] show ?thesis using prev by metis
qed


text \<open>
  A confirmation that overtakes the request it answers: the record it names does not exist yet, so it
  fails. Sent again, it is a duplicate.
\<close>

definition no_seams :: seams where
  "no_seams = \<lparr>digest = (\<lambda>t. ''D''), edifact_dialect = (\<lambda>m. None), text_dialect = (\<lambda>t. None), aftn_dialect = (\<lambda>b. None),
     applyTicketControl = (\<lambda>p d s. (None, s)), applyThroughCheckIn = (\<lambda>p d s. (None, s)), Ground = None, HearsATFM = False,
     LocalClock = None, avs_codes = []\<rparr>"

lemma no_seams_keep: "seams_keep no_seams" by (simp add: seams_keep_def no_seams_def)

definition early_text :: string where
  "early_text = ''QU LONRMBA'' @ [CR, LF] @ ''.NYCRMAA 010203'' @ [CR, LF] @ ''BA175Y12AUGLHRJFKHK2'' @ [CR, LF]"

definition early_tb :: tb_message where "early_tb = the (Parse early_text)"

definition early_dec :: decoded where
  "early_dec = (typeb_booking no_seams shop_link early_tb ((zero_decoded FormatTypeB)\<lparr>dc_TypeB := Some early_tb, dc_ReplyTo := tb_Origin early_tb,
                     dc_Diagnostics := map dg_Code (Diagnostics early_tb)\<rparr>))\<lparr>dc_self := ''1A''\<rparr>"

definition early_bytes :: bytes where "early_bytes = to_bytes early_text"

lemma early_parse: "Parse early_text = Some early_tb" "tb_Text early_tb = ''BA175Y12AUGLHRJFKHK2''" "Channel early_tb = ''''"
  "tb_PDM early_tb = False" "Diagnostics early_tb = []" "\<not> IsAvailability ''BA175Y12AUGLHRJFKHK2''"
  by code_simp+

lemma of_to_bytes [simp]: "of_bytes (to_bytes s) = s"
  by (induction s) (simp_all add: of_bytes_def to_bytes_def unat_of_nat)

lemma early_shape: "of_bytes early_bytes = early_text" "TrimSpace early_text \<noteq> ''''" "\<not> looksLikeEDIFACT early_bytes"
  "typeBDedupKey (\<lambda>t. ''D'') early_tb \<noteq> ''''"
proof -
  show "of_bytes early_bytes = early_text" by (simp add: early_bytes_def)
  then show "\<not> looksLikeEDIFACT early_bytes"
    by (simp add: looksLikeEDIFACT_def) code_simp
  show "TrimSpace early_text \<noteq> ''''" "typeBDedupKey (\<lambda>t. ''D'') early_tb \<noteq> ''''" by code_simp+
qed

lemma early_intent: "(Intent (ai_Parse ai_Default ''BA175Y12AUGLHRJFKHK2'') = IntentSell) = False"
  "ai_Locators (ai_Parse ai_Default ''BA175Y12AUGLHRJFKHK2'') = []"
  by code_simp+

definition early_desk :: gateway where "early_desk = shop\<lparr>peers := [(''BA'', shop_link)]\<rparr>"

lemma early_decode: "Designator (Identity h) = ''1A'' \<Longrightarrow> decode shop_env no_seams l u opts shop_link early_bytes h = (Inr early_dec, h)"
  using early_parse early_shape
  by (simp add: decode_def decodeTypeB_def early_dec_def Let_def no_seams_def)

lemma early_fields: "dc_DedupKey early_dec \<noteq> ''''" "Unreadable early_dec = ''''" "TicketControl early_dec = None" "\<not> ThroughCheckIn early_dec"
  "Onward early_dec = None" "dc_CONTRL early_dec = None" "Schedule early_dec = None" "dc_AVS early_dec = None" "dc_AFTN early_dec = None"
  "dc_Interchange early_dec = None" "\<not> dc_Test early_dec" "dc_Locators early_dec = []" "\<not> CreatesRecord early_dec" "dc_TypeB early_dec = Some early_tb"
  using early_parse early_shape early_intent
  by (simp_all add: early_dec_def typeb_booking_def zero_decoded_def Let_def no_seams_def)

lemma early_refused:
  assumes "Responder g = None" "dedup (gw_Store g) = []" "\<not> Relay g" "Identity g = Identity early_desk" "by_external (gw_Store g) ''BA'' [] = None"
  shows "\<exists>x m. process shop_env no_seams l u (\<lambda>k s. s) opts shop_link (taken_in shop_env opts ''BA'' early_bytes h, r, g) = (Some x, m, r, g)"
proof -
  have id: "Designator (Identity g) = ''1A''" using assms(4) by (simp add: early_desk_def shop_def gw_New_def demo_identity_def)
  have c: "checkSequence shop_link early_dec (m, g) = (m, g)" for m by (simp add: checkSequence_def early_fields early_parse)
  have f: "FindByDedupKey (gw_Store g) n k = None" for n k using assms(2) by (simp add: FindByDedupKey_def findKey_def)
  have t: "transit shop_env shop_link early_dec (m, r, g) = (False, m, r, g)" for m using assms(3) by (simp add: transit_def early_fields)
  obtain x where a: "\<And>m. attempt shop_env (\<lambda>s. s) shop_link early_dec m g = (Inl (Some x), [], g)"
    using assms(5) by (simp add: attempt_def resolveRecord_def early_fields shop_link_def demo_peer_def)
  have d: "dispatch shop_env no_seams (\<lambda>k s. s) opts shop_link early_dec (m, r, g) = (Some x, m, r, g)" for m
    using a by (simp add: dispatch_def early_fields sendCONTRL_def gw_apply_def maxAttempts_def numeral_eq_Suc)
  show ?thesis
    using early_decode [OF id] c f t d by (simp add: process_def settle_process_def early_fields Let_def)
qed

lemma early_start:
  "peer_of early_desk ''BA'' = shop_link" "pe_Name shop_link = ''BA''" "new_id shop_env early_desk \<noteq> ''''" "log_room (gw_Store early_desk)"
  "Responder early_desk = None" "dedup (gw_Store early_desk) = []" "\<not> Relay early_desk" "messages (gw_Store early_desk) = []"
  "MaxMessages (gw_Store early_desk) = 0" "new_id shop_env early_desk = CHR ''M'' # Itoa (drawn (gw_Store early_desk))" "Designator (Identity early_desk) = ''1A''"
proof -
  have st: "dedup demo_store = []" "MaxMessages demo_store = 0" "messages demo_store = []"
    by (simp_all add: demo_store_def CreatePNR_def NewMem_def trimRecordsLocked_def appendEventsLocked_def put_pnr_def gm_put_def Let_def demo_pnr_def)
  then show "peer_of early_desk ''BA'' = shop_link" "pe_Name shop_link = ''BA''" "log_room (gw_Store early_desk)" "Responder early_desk = None"
    "dedup (gw_Store early_desk) = []" "\<not> Relay early_desk" "messages (gw_Store early_desk) = []" "MaxMessages (gw_Store early_desk) = 0"
    "Designator (Identity early_desk) = ''1A''"
    by (simp_all add: peer_of_def gw_Peer_def early_desk_def shop_link_def demo_peer_def log_room_def shop_def gw_New_def demo_identity_def)
  show "new_id shop_env early_desk = CHR ''M'' # Itoa (drawn (gw_Store early_desk))" "new_id shop_env early_desk \<noteq> ''''"
    by (simp_all add: new_id_def shop_env_def demo_env_def)
qed

lemma early_first:
  obtains r g' m where "IngestWith shop_env no_seams l u (\<lambda>k s. s) opts ''BA'' early_bytes early_desk = (r, g')" "rs_Status r = StatusDLQ"
    "map_of (messages (gw_Store g')) (new_id shop_env early_desk) = Some m" "Identity g' = Identity early_desk" "peers g' = peers early_desk"
    "MaxMessages (gw_Store g') = 0" "snd ` set (dedup (gw_Store g')) = {new_id shop_env early_desk}" "drawn (gw_Store g') = Suc (drawn (gw_Store early_desk))"
proof -
  let ?t = "taken_in shop_env opts ''BA'' early_bytes early_desk"
  let ?g1 = "early_desk\<lparr>gw_Store := logged ?t (gw_Store early_desk), ticks := Suc (ticks early_desk)\<rparr>"
  have c: "snd (capture shop_env opts ''BA'' early_bytes early_desk) = ?g1" by (rule capture_store [OF early_start(3,4)])
  obtain r g' where run: "IngestWith shop_env no_seams l u (\<lambda>k s. s) opts ''BA'' early_bytes early_desk = (r, g')" by (metis surj_pair)
  obtain x m0 r0 where p: "process shop_env no_seams l u (\<lambda>k s. s) opts shop_link (?t, zero_result (new_id shop_env early_desk), ?g1) = (Some x, m0, r0, ?g1)"
    using early_refused [of ?g1 l u opts early_desk "zero_result (new_id shop_env early_desk)"] early_start by (auto simp: logged_def)
  obtain m where m: "g' = update_message m ?g1" "kept m0 m" "rs_Status r = StatusDLQ"
    by (rule ingest_run [OF run]) (use p early_start(1) c in auto)
  have "kept (classified early_dec ?t) m0"
    using process_kept [OF no_seams_keep p] early_decode [of ?g1 l u opts] early_start(11) by simp
  then have f: "msg_ID m = new_id shop_env early_desk" "DedupKey m = dc_DedupKey early_dec"
    using keptD [OF m(2)] keptD [of "classified early_dec ?t" m0] by (simp_all add: classified_def)
  have "gw_Store g' = index_dedup m ((logged ?t (gw_Store early_desk))\<lparr>messages := gm_put (msg_ID m) m (messages (logged ?t (gw_Store early_desk)))\<rparr>)"
    "Identity g' = Identity early_desk" "peers g' = peers early_desk"
    by (simp_all add: m(1) update_message_def UpdateMessage_def logged_def f gm_put_def update_conv')
  then show thesis
    using run m(3) f early_fields(1) early_start
    by (intro that [of r g' m]) (simp_all add: index_dedup_def Let_def logged_def gm_put_def update_conv')
qed

text \<open>A later delivery is logged under an identifier of its own and does not disturb the index of keys.\<close>

lemma capture_keeps_keys:
  assumes "new_id e g \<noteq> ''''" "log_room (gw_Store g)"
  shows "FindByDedupKey (gw_Store (snd (capture e opts name raw g))) = FindByDedupKey (gw_Store g)"
  by (simp add: capture_store [OF assms] FindByDedupKey_def findKey_def logged_def fun_eq_iff)

theorem retransmission_suppressed_witness:
  "\<exists>r g' r2 h'. IngestWith shop_env no_seams (\<lambda>s. True) (\<lambda>s. True) (\<lambda>k s. s) desk_options ''BA'' early_bytes early_desk = (r, g')
     \<and> rs_Status r = StatusDLQ \<and> IngestWith shop_env no_seams (\<lambda>s. True) (\<lambda>s. True) (\<lambda>k s. s) desk_options ''BA'' early_bytes g' = (r2, h')
     \<and> rs_Duplicate r2 \<and> rs_Status r2 = StatusRejected"
proof -
  obtain r g' m where f: "IngestWith shop_env no_seams (\<lambda>s. True) (\<lambda>s. True) (\<lambda>k s. s) desk_options ''BA'' early_bytes early_desk = (r, g')"
    "rs_Status r = StatusDLQ" "map_of (messages (gw_Store g')) (new_id shop_env early_desk) = Some m" "Identity g' = Identity early_desk"
    "peers g' = peers early_desk" "MaxMessages (gw_Store g') = 0" "snd ` set (dedup (gw_Store g')) = {new_id shop_env early_desk}"
    "drawn (gw_Store g') = Suc (drawn (gw_Store early_desk))"
    by (rule early_first)
  obtain r2 h' where s: "IngestWith shop_env no_seams (\<lambda>s. True) (\<lambda>s. True) (\<lambda>k s. s) desk_options ''BA'' early_bytes g' = (r2, h')" by (metis surj_pair)
  have id: "Designator (Identity (snd (capture shop_env desk_options ''BA'' early_bytes early_desk))) = ''1A''"
    using early_start(11) by (simp add: capture_identity)
  have "new_id shop_env g' = CHR ''M'' # Itoa (drawn (gw_Store g'))" by (simp add: new_id_def shop_env_def demo_env_def)
  then have n: "new_id shop_env g' \<noteq> ''''" "new_id shop_env g' \<notin> snd ` set (dedup (gw_Store g'))"
    using f(7,8) early_start(10) by (simp_all add: Itoa_inj)
  have k: "FindByDedupKey (gw_Store (snd (capture shop_env desk_options ''BA'' early_bytes g'))) = FindByDedupKey (gw_Store g')"
    by (rule capture_keeps_keys [OF n(1)]) (simp add: log_room_def f(6))
  have new: "FindByDedupKey (gw_Store g') ''BA'' key \<noteq> Some (new_id shop_env g')" for key
    using n(2) by (force simp: FindByDedupKey_def findKey_def dest: map_of_SomeD split: if_splits)
  have "rs_Duplicate r2 \<and> rs_Status r2 = StatusRejected"
    using retransmission_suppressed [OF no_seams_keep _ _ early_fields(1,2) f(1,3) f(4) _ _ new s] early_start(1,2) early_decode [OF id] f(5) k
    by (auto simp: gw_Peer_def)
  then show ?thesis using f(1,2) s by blast
qed

theorem ingest_outcome_witness:
  "\<exists>r g' m. IngestWith shop_env no_seams (\<lambda>s. True) (\<lambda>s. True) (\<lambda>k s. s) desk_options ''BA'' early_bytes early_desk = (r, g')
     \<and> map_of (messages (gw_Store g')) (new_id shop_env early_desk) = Some m \<and> Raw m = early_bytes \<and> DedupKey m \<noteq> ''''"
proof -
  obtain r g' m where f: "IngestWith shop_env no_seams (\<lambda>s. True) (\<lambda>s. True) (\<lambda>k s. s) desk_options ''BA'' early_bytes early_desk = (r, g')"
    "map_of (messages (gw_Store g')) (new_id shop_env early_desk) = Some m" by (rule early_first)
  have id: "Designator (Identity (snd (capture shop_env desk_options ''BA'' early_bytes early_desk))) = ''1A''"
    using early_start(11) by (simp add: capture_identity)
  show ?thesis
    using ingest_outcome [OF no_seams_keep f] early_decode [OF id] early_start(1) early_fields(1) f by auto
qed

section \<open>Channel numbering\<close>

text \<open>
  C37: A gap in the numbering of a link is never recorded. When the numbers of a channel show that
  messages are missing, the check adds its diagnostic to the message; but the decoder's diagnostics
  are then written over it, so that whatever becomes of the message, its log entry carries exactly
  the decoder's diagnostics.
\<close>

theorem gap_never_recorded:
  assumes "seams_keep sm" "process e sm latin1 utf8 others opts peer (m, r, g) = (err, m', r', g')"
    and "decode e sm latin1 utf8 opts peer (Raw m) g = (Inr dec, g1)"
    and "dc_TypeB dec = Some tb" "Channel tb \<noteq> ''''" "ParseChannel (Channel tb) = Some (ch, sq)"
    and "map_of (gw_seq g1) (pe_Name peer @ ''|'' @ ch) = Some lst" "CheckSequence lst sq (SequenceWrap peer) = Some gap"
  shows "gap_code gap \<in> set (msg_Diagnostics (fst (checkSequence peer dec (m, g1)))) \<and> msg_Diagnostics m' = dc_Diagnostics dec"
proof
  show "gap_code gap \<in> set (msg_Diagnostics (fst (checkSequence peer dec (m, g1))))"
    using assms(4-8) by (simp add: checkSequence_def Let_def)
  have "kept (classified dec m) m'" using process_kept [OF assms(1,2)] assms(3) by simp
  then show "msg_Diagnostics m' = dc_Diagnostics dec" using keptD(10) [of "classified dec m" m'] by (simp add: classified_def)
qed

text \<open>Number 5 after number 2.\<close>

definition gap_text :: string where
  "gap_text = StartOfMessage @ '' ABC005'' @ [CR, LF] @ ''QU LONRMBA'' @ [CR, LF] @ ''.NYCRMAA 010203'' @ [CR, LF] @ ''BA175Y12AUGLHRJFKHK2'' @ [CR, LF]"

definition gap_tb :: tb_message where "gap_tb = the (Parse gap_text)"

lemma gap_parse: "Parse gap_text = Some gap_tb" "Channel gap_tb = ''ABC005''" "tb_Text gap_tb = ''BA175Y12AUGLHRJFKHK2''" "Diagnostics gap_tb = []"
  "airimp_codes (ai_Parse ai_Default ''BA175Y12AUGLHRJFKHK2'') = []" "ParseChannel ''ABC005'' = Some (''ABC'', 5)"
  "TrimSpace gap_text \<noteq> ''''"
  by code_simp+

theorem gap_never_recorded_witness:
  "\<exists>err m' r' g'. process shop_env no_seams (\<lambda>s. True) (\<lambda>s. True) (\<lambda>k s. s) desk_options shop_link
       (demo_message\<lparr>Raw := to_bytes gap_text\<rparr>, demo_result, shop\<lparr>gw_seq := [(''BA|ABC'', 2)]\<rparr>) = (err, m', r', g')
     \<and> msg_Diagnostics m' = []"
proof -
  let ?g = "shop\<lparr>gw_seq := [(''BA|ABC'', 2)]\<rparr>" and ?m = "demo_message\<lparr>Raw := to_bytes gap_text\<rparr>"
  have l: "\<not> looksLikeEDIFACT (to_bytes gap_text)" by (simp add: looksLikeEDIFACT_def) code_simp
  obtain dec where d: "decode shop_env no_seams (\<lambda>s. True) (\<lambda>s. True) desk_options shop_link (Raw ?m) ?g = (Inr dec, ?g)"
    "dc_TypeB dec = Some gap_tb" "dc_Diagnostics dec = []"
    using l gap_parse early_parse(6) by (simp add: decode_def decodeTypeB_def no_seams_def typeb_booking_def Let_def)
  obtain err m' r' g' where p: "process shop_env no_seams (\<lambda>s. True) (\<lambda>s. True) (\<lambda>k s. s) desk_options shop_link (?m, demo_result, ?g) = (err, m', r', g')"
    by (metis prod_cases4)
  have c: "CheckSequence 2 5 (SequenceWrap shop_link) = Some \<lparr>Expected = 3, Got = 5, Missing = 2, Repeat = False\<rparr>"
    by (simp add: CheckSequence_def shop_link_def demo_peer_def)
  have "map_of (gw_seq ?g) (pe_Name shop_link @ ''|'' @ ''ABC'') = Some 2" by (simp add: shop_link_def demo_peer_def)
  then show ?thesis
    using gap_never_recorded [OF no_seams_keep p d(1,2) _ _ _ c] gap_parse d(3) p by auto
qed

end
