(* ===== verification/Gateway_Broadcast.thy ===== *)
theory Gateway_Broadcast
  imports Gateway_Outcome
begin

text \<open>
  Messages that touch no single booking: availability broadcasts, syntax reports and schedule changes
  as the gateway handles them. The first composes the text of theory \<open>Avs\<close> with the cache of theory \<open>Avail\<close>.
\<close>

section \<open>Availability\<close>

text \<open>A belief gives way to an entry that is not older and comes from no weaker source.\<close>

definition gives_way :: "cache \<Rightarrow> avail_entry \<Rightarrow> bool" where
  "gives_way c x \<longleftrightarrow> AsOf x \<noteq> zero_time
     \<and> (case map_of (entries c) (e_Key x) of
          None \<Rightarrow> True | Some p \<Rightarrow> AsOf p \<le> AsOf x \<and> authority (e_Source p) \<le> authority (e_Source x))"

lemma put_gives_way:
  assumes "gives_way c x"
  shows "snd (avail_Put now x c) = c\<lparr>entries := gm_put (e_Key x) x (entries c)\<rparr>"
  using assms by (auto simp: gives_way_def avail_Put_def Let_def split: option.splits)

lemma put_entries_spec:
  assumes "distinct (map e_Key xs)" "\<forall>x \<in> set xs. gives_way c x"
  shows "staleAfter (snd (put_entries clock k xs c)) = staleAfter c
       \<and> (\<forall>x \<in> set xs. map_of (entries (snd (put_entries clock k xs c))) (e_Key x) = Some x)
       \<and> (\<forall>i. i \<notin> e_Key ` set xs \<longrightarrow> map_of (entries (snd (put_entries clock k xs c))) i = map_of (entries c) i)"
  using assms
proof (induction xs arbitrary: k c)
  case (Cons x xs)
  define c1 where "c1 = c\<lparr>entries := gm_put (e_Key x) x (entries c)\<rparr>"
  have c1: "snd (avail_Put (clock k) x c) = c1" using put_gives_way Cons.prems(2) by (simp add: c1_def)
  then have run: "snd (put_entries clock k (x # xs) c) = snd (put_entries clock (Suc k) xs c1)"
    by (simp add: Let_def case_prod_beta)
  have g: "map_of (entries c1) i = (if i = e_Key x then Some x else map_of (entries c) i)" for i
    by (simp add: c1_def gm_put_def update_conv')
  have "gives_way c1 y" if y: "y \<in> set xs" for y
  proof -
    have "e_Key x \<notin> e_Key ` set xs" using Cons.prems(1) by simp
    then have "e_Key y \<noteq> e_Key x" using y by (metis imageI)
    then show ?thesis using Cons.prems(2) y g by (simp add: gives_way_def)
  qed
  then have ih: "staleAfter (snd (put_entries clock (Suc k) xs c1)) = staleAfter c1
       \<and> (\<forall>y \<in> set xs. map_of (entries (snd (put_entries clock (Suc k) xs c1))) (e_Key y) = Some y)
       \<and> (\<forall>i. i \<notin> e_Key ` set xs \<longrightarrow> map_of (entries (snd (put_entries clock (Suc k) xs c1))) i = map_of (entries c1) i)"
    using Cons.IH [of c1 "Suc k"] Cons.prems(1) by simp
  have "e_Key x \<notin> e_Key ` set xs" using Cons.prems(1) by simp
  moreover have "staleAfter c1 = staleAfter c" by (simp add: c1_def)
  ultimately show ?case unfolding run using ih g by auto
qed simp

lemma by_head_mset: "mset (concat (map snd (by_head es))) = mset es"
proof (rule multiset_eqI)
  fix x
  have "count (mset l) x = count (mset (filter (\<lambda>e. head_of e = head_of x) l)) x" for l :: "avail_entry list"
    by (simp add: mset_filter)
  then show "count (mset (concat (map snd (by_head es)))) x = count (mset es) x"
    by (metis filter_by_head members_def)
qed

text \<open>
  C17: An availability broadcast does what the carrier means by it. A carrier renders its own beliefs
  as a broadcast; the receiver parses the text and files what it reads in its cache, in which nothing
  is newer or better founded. From then on, until the beliefs go stale, a class is sold without asking
  exactly when the carrier said open, and a counted class only up to the count (as far as four digits
  carry it); a count of zero sells nothing.
\<close>

theorem broadcast_sells:
  assumes "status_map_ok st" "list_all (entry_ok st now) es" "zero_time < now - pastWindow" "distinct (map e_Key es)"
    and "gw_Avail g = Some c" "list_all (gives_way c) (map (carried now) es)"
    and "applyAvailability e (av_Entries (avs_Parse st clock (avs_Build st es) now)) (m, r, g) = (err, m', r', g')"
  shows "err = None \<and> msg_Status m' = StatusApplied
     \<and> (\<exists>c'. gw_Avail g' = Some c'
         \<and> (\<forall>x \<in> set es. \<forall>t n. now \<le> t \<and> t - now < staleAfter c \<longrightarrow>
              (fst (avail_Decide t c' (e_Key x) n) = FreeSale \<longleftrightarrow>
                 e_Status x = Open \<and> (SeatsKnown x \<longrightarrow> 0 < e_Seats x \<and> n \<le> e_Seats x \<and> n \<le> MaxSeats))))"
proof -
  define xs where "xs = map (carried now) (concat (map snd (by_head es)))"
  have xs: "av_Entries (avs_Parse st clock (avs_Build st es) now) = xs"
    using parsed_build [OF assms(1-3), of clock] by (simp add: xs_def)
  have keys: "e_Key (carried now x) = e_Key x" for x by (simp add: carried_def)
  have "mset (map e_Key xs) = mset (map e_Key es)"
    using arg_cong [OF by_head_mset [of es], of "image_mset e_Key"] by (simp add: xs_def keys comp_def mset_map [symmetric] del: mset_map)
  then have d: "distinct (map e_Key xs)" using assms(4) mset_eq_imp_distinct_iff by blast
  have set: "set xs = carried now ` set es" using mset_eq_setD [OF by_head_mset [of es]] by (simp add: xs_def)
  have w: "\<forall>x \<in> set xs. gives_way c x" using assms(6) set by (auto simp: list_all_iff)
  define c' where "c' = snd (put_entries (Now e) (ticks g) xs c)"
  note spec = put_entries_spec [OF d w, of "Now e" "ticks g", folded c'_def]
  have run: "err = None" "msg_Status m' = StatusApplied" "gw_Avail g' = Some c'"
    using assms(5,7) by (auto simp: xs applyAvailability_def settle_def c'_def Let_def case_prod_beta)
  have sells: "fst (avail_Decide t c' (e_Key x) n) = FreeSale \<longleftrightarrow>
      e_Status x = Open \<and> (SeatsKnown x \<longrightarrow> 0 < e_Seats x \<and> n \<le> e_Seats x \<and> n \<le> MaxSeats)"
    if x: "x \<in> set es" "t - now < staleAfter c" for x t n
  proof -
    have "map_of (entries c') (e_Key x) = Some (carried now x)" using spec set x(1) keys by force
    moreover have "SeatsKnown x \<longrightarrow> 0 \<le> e_Seats x" using assms(2) x(1) by (auto simp: list_all_iff entry_ok_def)
    ultimately show ?thesis
      using x(2) spec by (auto simp: avail_Decide_def avail_Lookup_def Age_def carried_def split: avail_status.splits)
  qed
  show ?thesis using run sells by auto
qed

lemma offers_fresh: "list_all (gives_way NewCache) (map (carried 0) offers)" "distinct (map e_Key offers)"
  by (simp_all add: offers_def offer_def gives_way_def NewCache_def carried_def zero_time_def)

theorem broadcast_sells_witness:
  "\<exists>err m' r' g' c'. applyAvailability shop_env (av_Entries (avs_Parse DefaultStatusMap 5 (avs_Build DefaultStatusMap offers) 0))
       (demo_message, demo_result, shop\<lparr>gw_Avail := Some NewCache\<rparr>) = (err, m', r', g') \<and> gw_Avail g' = Some c'
     \<and> fst (avail_Decide 7 c' (e_Key (offer ''0175'' ''Y'' Open 4)) 4) = FreeSale
     \<and> fst (avail_Decide 7 c' (e_Key (offer ''0175'' ''Y'' Open 4)) 5) \<noteq> FreeSale"
proof -
  obtain err m' r' g' where run: "applyAvailability shop_env (av_Entries (avs_Parse DefaultStatusMap 5 (avs_Build DefaultStatusMap offers) 0))
       (demo_message, demo_result, shop\<lparr>gw_Avail := Some NewCache\<rparr>) = (err, m', r', g')" by (metis prod_cases4)
  have x: "offer ''0175'' ''Y'' Open 4 \<in> set offers" "staleAfter NewCache > 7"
    by (simp_all add: offers_def staleAfter_def NewCache_def DefaultStaleAfter_def)
  have c: "gw_Avail (shop\<lparr>gw_Avail := Some NewCache\<rparr>) = Some NewCache" by simp
  obtain c' where c': "gw_Avail g' = Some c'"
    "\<forall>x \<in> set offers. \<forall>t n. 0 \<le> t \<and> t - 0 < staleAfter NewCache \<longrightarrow>
       (fst (avail_Decide t c' (e_Key x) n) = FreeSale \<longleftrightarrow> e_Status x = Open \<and> (SeatsKnown x \<longrightarrow> 0 < e_Seats x \<and> n \<le> e_Seats x \<and> n \<le> MaxSeats))"
    using broadcast_sells [OF offer_keys(1) offers_ok offer_dates(4) offers_fresh(2) c offers_fresh(1) run] by blast
  have "fst (avail_Decide 7 c' (e_Key (offer ''0175'' ''Y'' Open 4)) n) = FreeSale \<longleftrightarrow> n \<le> 4" for n
    using c'(2) x by (auto simp: offer_def MaxSeats_def)
  then show ?thesis using run c'(1) by auto
qed

section \<open>Syntax reports\<close>

lemma place_messages [simp]:
  "messages (gw_Store (gw_place e it g)) = messages (gw_Store g)" "messageIDs (gw_Store (gw_place e it g)) = messageIDs (gw_Store g)"
  "dedup (gw_Store (gw_place e it g)) = dedup (gw_Store g)"
  by (auto simp: gw_place_def gw_now_def Place_def Enqueue_def Let_def split: sum.splits store_error.splits if_splits)

lemma refused_item_fresh: "fresh_item (refused_item peer rep i rec)"
  by (simp add: refused_item_def fresh_item_def new_item_def QueueDivergence_def Pending_def)

lemma sent_keyed:
  assumes "SendKeyed e peer raw kind pnrID corr key g = ((i, None), g1)" "i \<noteq> ''''" "log_room (gw_Store g)" "key \<noteq> ''''"
    and "FindOutboundByKey (gw_Store g) (pe_Name peer) key = None"
  shows "FindOutboundByKey (gw_Store g1) (pe_Name peer) key = Some i"
    and "\<exists>out. map_of (messages (gw_Store g1)) i = Some out \<and> msg_ID out = i \<and> Raw out = raw \<and> msg_PNRID out = pnrID
           \<and> DedupKey out = key \<and> Direction out = Outbound \<and> Peer out = pe_Name peer"
proof -
  let ?i = "NewAt e (Now e (ticks g)) (drawn (gw_Store g))"
  let ?out = "out_message ?i (Now e (ticks g)) peer kind raw StatusSent pnrID corr key"
  have i: "i = ?i" using assms(1) by (auto simp: SendKeyed_def gw_now_def draw_def Let_def split: option.splits)
  have o: "DedupKey ?out = key" "Direction ?out = Outbound" "Peer ?out = pe_Name peer" "msg_ID ?out = ?i" "Raw ?out = raw" "msg_PNRID ?out = pnrID"
    by (simp_all add: out_message_def)
  have d: "map_of (dedup (gw_Store g)) (dedupKey Outbound (pe_Name peer) key) = None"
    using assms(4,5) by (simp add: FindOutboundByKey_def findKey_def)
  have t: "trimMessagesLocked (index_dedup ?out (logged ?out (gw_Store g))) = index_dedup ?out (logged ?out (gw_Store g))"
    using assms(3) by (auto simp: trimMessagesLocked_def log_room_def logged_def length_push_sorted index_dedup_def Let_def)
  have a: "fst (AppendMessage (gen e) ?out ((gw_Store g)\<lparr>drawn := Suc (drawn (gw_Store g))\<rparr>)) = index_dedup ?out (logged ?out (gw_Store g))"
    using assms(2) t i o by (simp add: AppendMessage_def logged_def Let_def)
  have "gw_Store g1 = fst (AppendMessage (gen e) ?out ((gw_Store g)\<lparr>drawn := Suc (drawn (gw_Store g))\<rparr>))"
    using assms(1) by (auto simp: SendKeyed_def gw_now_def draw_def append_message_def Let_def split: option.splits)
  then have s: "gw_Store g1 = index_dedup ?out (logged ?out (gw_Store g))" using a by simp
  show "FindOutboundByKey (gw_Store g1) (pe_Name peer) key = Some i"
    using assms(4) d o i by (simp add: s FindOutboundByKey_def findKey_def index_dedup_def logged_def gm_put_def update_conv' Let_def)
  have "messages (gw_Store g1) = gm_put ?i ?out (messages (gw_Store g))" using o by (simp add: s index_dedup_def logged_def Let_def)
  then show "\<exists>out. map_of (messages (gw_Store g1)) i = Some out \<and> msg_ID out = i \<and> Raw out = raw \<and> msg_PNRID out = pnrID
           \<and> DedupKey out = key \<and> Direction out = Outbound \<and> Peer out = pe_Name peer"
    using i o by (simp add: gm_put_def update_conv')
qed

text \<open>The entry of a message, its outcome apart.\<close>

definition with_outcome :: "string \<Rightarrow> string \<Rightarrow> message \<Rightarrow> message" where
  "with_outcome st why m = m\<lparr>msg_Status := st, msg_Error := why\<rparr>"

lemma with_outcome_sel [simp]:
  "msg_ID (with_outcome st why m) = msg_ID m" "DedupKey (with_outcome st why m) = DedupKey m" "Direction (with_outcome st why m) = Direction m"
  "Peer (with_outcome st why m) = Peer m" "msg_PNRID (with_outcome st why m) = msg_PNRID m" "msg_Error (with_outcome st why m) = why"
  "with_outcome st' why' (with_outcome st why m) = with_outcome st' why' m"
  by (simp_all add: with_outcome_def)

text \<open>
  C21: A partner's syntax report closes the loop. An interchange is sent under a control reference not
  used before on the link. At any later time, whatever happened in between and whatever outcome the
  sent message has by then, while the log still holds it under that reference, a report on the
  reference from the same link marks exactly that message: acknowledged, or refused with the report's
  own description. Every other message of the log, their order and the index of their keys stay as
  they are; a refusal of a message about a booking is on the divergence queue; no record, seat or link
  is touched, and nothing is answered to a report.
\<close>

theorem report_closes_loop:
  assumes "SendKeyed e peer raw kind pnrID corr (''unb:'' @ rp_ControlRef rep) g = ((i, None), g1)" "i \<noteq> ''''" "log_room (gw_Store g)"
    and "FindOutboundByKey (gw_Store g) (pe_Name peer) (''unb:'' @ rp_ControlRef rep) = None"
    and sent: "map_of (messages (gw_Store g1)) i = Some out"
    and later: "FindOutboundByKey (gw_Store h) (pe_Name peer) (''unb:'' @ rp_ControlRef rep)
          = FindOutboundByKey (gw_Store g1) (pe_Name peer) (''unb:'' @ rp_ControlRef rep)"
      "map_of (messages (gw_Store h)) i = Some (with_outcome st why out)"
    and "applyCONTRL e' peer rep (m, r, h) = (err, m', r', h')"
  shows "err = None \<and> msg_Status m' = StatusApplied \<and> CorrelationID m' = i
     \<and> Raw out = raw \<and> msg_PNRID out = pnrID
     \<and> map_of (messages (gw_Store h')) = (map_of (messages (gw_Store h)))(i \<mapsto>
           (if Rejected rep then with_outcome StatusRefused (report_text rep) out else with_outcome StatusAcknowledged why out))
     \<and> messageIDs (gw_Store h') = messageIDs (gw_Store h) \<and> dedup (gw_Store h') = dedup (gw_Store h)
     \<and> settled h' = settled h \<and> gw_handed h' = gw_handed h
     \<and> (\<forall>rec. Rejected rep \<and> Queues h \<and> pnrID \<noteq> '''' \<and> map_of (pnrs (gw_Store h)) pnrID = Some rec \<longrightarrow>
           raised (gw_Store h') (refused_item peer rep (msg_ID m) rec))"
proof -
  note known = sent_keyed [OF assms(1-3) _ assms(4)]
  have out: "msg_ID out = i" "Raw out = raw" "msg_PNRID out = pnrID"
    "DedupKey out = ''unb:'' @ rp_ControlRef rep" "Direction out = Outbound" "Peer out = pe_Name peer"
    using known(2) sent by auto
  have f: "FindOutboundByKey (gw_Store h) (pe_Name peer) (''unb:'' @ rp_ControlRef rep) = Some i"
    using known(1) later(1) by simp
  define out' where "out' = (if Rejected rep then with_outcome StatusRefused (report_text rep) out else with_outcome StatusAcknowledged why out)"
  have o: "msg_ID out' = i" "DedupKey out' = ''unb:'' @ rp_ControlRef rep" "Direction out' = Outbound" "Peer out' = pe_Name peer" "msg_PNRID out' = pnrID"
    using out by (simp_all add: out'_def)
  have upd: "(if Rejected rep then (with_outcome st why out)\<lparr>msg_Status := StatusRefused, msg_Error := report_text rep\<rparr>
      else (with_outcome st why out)\<lparr>msg_Status := StatusAcknowledged\<rparr>) = out'"
    by (simp add: out'_def with_outcome_def)
  define st where "st = (gw_Store h)\<lparr>messages := gm_put i out' (messages (gw_Store h))\<rparr>"
  have "map_of (dedup (gw_Store h)) (dedupKey Outbound (pe_Name peer) (''unb:'' @ rp_ControlRef rep)) \<noteq> None"
    using f by (simp add: FindOutboundByKey_def findKey_def)
  then have u: "UpdateMessage out' (gw_Store h) = Inr st"
    using later(2) o by (simp add: UpdateMessage_def index_dedup_seen st_def)
  define item where "item = refused_item peer rep (msg_ID m)"
  define h1 where "h1 = h\<lparr>gw_Store := st\<rparr>"
  have run: "err = None" "m' = m\<lparr>Kind := ''CONTRL'', msg_Status := StatusApplied, CorrelationID := i\<rparr>"
    "h' = (if Rejected rep \<and> Queues h \<and> pnrID \<noteq> '''' then (case GetPNRByID st pnrID of Inl _ \<Rightarrow> h1 | Inr rec \<Rightarrow> gw_place e' (item rec) h1) else h1)"
    using assms(8) f later(2) o(5)
    by (auto simp: applyCONTRL_def settle_def GetMessage_def upd u h1_def item_def Let_def split: sum.split)
  have m1: "messages (gw_Store h') = messages st" "messageIDs (gw_Store h') = messageIDs (gw_Store h)"
    "dedup (gw_Store h') = dedup (gw_Store h)" "settled h' = settled h" "gw_handed h' = gw_handed h"
    using run(3) by (auto simp: h1_def st_def split: sum.splits)
  have "map_of (messages (gw_Store h')) = (map_of (messages (gw_Store h)))(i \<mapsto> out')"
    by (simp add: m1(1) st_def gm_put_def update_conv')
  moreover have "raised (gw_Store h') (item rec)" if "Rejected rep" "Queues h" "pnrID \<noteq> ''''" "map_of (pnrs (gw_Store h)) pnrID = Some rec" for rec
    using that run(3) place_grows [OF refused_item_fresh, of h1 e'] by (auto simp: GetPNRByID_def st_def item_def)
  ultimately show ?thesis
    using run(1,2) m1(2-) out by (simp add: out'_def item_def)
qed

lemma demo_store_contents:
  "pnrs demo_store = [(''R1'', demo_pnr\<lparr>ID := ''R1''\<rparr>)]" "dedup demo_store = []" "MaxMessages demo_store = 0"
  by (simp_all add: demo_store_def CreatePNR_def NewMem_def trimRecordsLocked_def appendEventsLocked_def put_pnr_def
      gm_put_def demo_pnr_def zero_pnr_def Let_def)

theorem report_closes_loop_witness:
  "\<exists>i g1 err m' r' h'. SendKeyed shop_env shop_link [1, 2] ''PAOREQ'' ''R1'' '''' ''unb:REF1'' (shop\<lparr>Queues := True\<rparr>) = ((i, None), g1)
     \<and> applyCONTRL shop_env shop_link sample_report (demo_message, demo_result, g1) = (err, m', r', h')
     \<and> CorrelationID m' = i \<and> raised (gw_Store h') (refused_item shop_link sample_report (msg_ID demo_message) (demo_pnr\<lparr>ID := ''R1''\<rparr>))"
proof -
  let ?g = "shop\<lparr>Queues := True\<rparr>"
  have st: "gw_Store ?g = demo_store" by (simp add: shop_def gw_New_def)
  have ref: "''unb:REF1'' = ''unb:'' @ rp_ControlRef sample_report" by (simp add: sample_report_def)
  obtain i o1 g1 where k: "SendKeyed shop_env shop_link [1, 2] ''PAOREQ'' ''R1'' '''' ''unb:REF1'' ?g = ((i, o1), g1)" by (metis surj_pair)
  have i: "i \<noteq> ''''" "o1 = None" "Queues g1" "pnrs (gw_Store g1) = pnrs demo_store"
    using k SendKeyed_settled [OF k] st
    by (auto simp: SendKeyed_def gw_now_def draw_def shop_env_def demo_env_def settled_def Let_def split: option.splits)
  obtain err m' r' h' where c: "applyCONTRL shop_env shop_link sample_report (demo_message, demo_result, g1) = (err, m', r', h')" by (metis prod_cases4)
  have room: "log_room (gw_Store ?g)" "FindOutboundByKey (gw_Store ?g) (pe_Name shop_link) (''unb:'' @ rp_ControlRef sample_report) = None"
    by (simp_all add: st log_room_def demo_store_contents FindOutboundByKey_def findKey_def)
  have rec: "Rejected sample_report" "map_of (pnrs (gw_Store g1)) ''R1'' = Some (demo_pnr\<lparr>ID := ''R1''\<rparr>)"
    using i(4) by (simp_all add: sample_report_def Rejected_def demo_store_contents)
  obtain out where out: "map_of (messages (gw_Store g1)) i = Some out"
    using sent_keyed(2) [OF k [unfolded ref i(2)] i(1) room(1) _ room(2)] by auto
  then have "map_of (messages (gw_Store g1)) i = Some (with_outcome (msg_Status out) (msg_Error out) out)" by (simp add: with_outcome_def)
  from report_closes_loop [OF k [unfolded ref i(2)] i(1) room out refl this c] show ?thesis
    using k i(2,3) c rec by auto
qed

section \<open>Schedule changes\<close>

text \<open>What a pending item is subject to: it is worked, or it goes with its record when retention drops that.\<close>

definition stands :: "mem \<Rightarrow> queue_item \<Rightarrow> bool" where
  "stands s it \<longleftrightarrow> raised s it \<or> map_of (pnrs s) (qi_PNRID it) = None"

text \<open>What other callers keep: no pending item disappears while its record is in the store.\<close>

definition keeps_pending :: "mem \<Rightarrow> mem \<Rightarrow> bool" where
  "keeps_pending s s' \<longleftrightarrow> (\<forall>it. stands s it \<longrightarrow> stands s' it)"

lemma keeps_pending_refl [simp, intro]: "keeps_pending s s" by (simp add: keeps_pending_def)














end
