(* ===== verification/Padis_Divide.thy ===== *)
theory Padis_Divide
  imports Padis
begin

text \<open>
  The advice that one booking has become two (\<open>src/pkg/padis/divide.go\<close>): rendering it for a carrier
  and reading it. Rendered, encoded and decoded at the partner it reads back as what was divided.
\<close>

section \<open>The advice\<close>

definition TagEQN :: string where "TagEQN = ''EQN''"

record split_ref =
  sref_Owner :: string
  sref_Locator :: string

record divide_advice =
  da_Party :: string
  da_Locator :: string
  da_Split :: "split_ref list"
  da_Passengers :: int

definition carrier_rci :: "pnr \<Rightarrow> string \<Rightarrow> ed_segment list" where
  "carrier_rci p carrier =
     map (\<lambda>l. Seg ''RCI'' [Comp [Owner l, lv_Value l, '''']]) (filter (\<lambda>l. Owner l = carrier \<and> lv_Value l \<noteq> '''') (Locators p))"

definition divide_body :: "pnr \<Rightarrow> pnr \<Rightarrow> string \<Rightarrow> build_options \<Rightarrow> ed_segment list" where
  "divide_body parent child carrier o' =
     (let me = pa_ID (bo_Sender o') in
      [Seg ''MSG'' [Comp ['''', ''11'']],
       Seg ''ORG'' [Comp [bo_text o' me, bo_text o' (fst (snd (pnr_Origin parent)))]],
       Seg ''RCI'' [Comp [me, RecordLocator parent, '''']]]
      @ carrier_rci parent carrier
      @ [Seg TagEQN [simple (Itoa (length (Passengers child)))], Seg ''RCI'' [Comp [me, RecordLocator child, '''']]]
      @ tifSegments child
      @ concat (map (\<lambda>s. [tvlSegment s, rpi (Seats s) (sg_Status s)])
          (filter (\<lambda>s. Carrier s = carrier \<and> sg_Type s = SegmentAir \<and> sg_Status s \<noteq> ''XX'') (Segments child))))"

text \<open>\<open>None\<close> is the error of a child nobody moved to.\<close>

definition BuildDivide :: "pnr \<Rightarrow> pnr \<Rightarrow> string \<Rightarrow> build_options \<Rightarrow> interchange option" where
  "BuildDivide parent child carrier o' =
     (if Passengers child = [] then None else Some (finish MsgPAOREQ o' (divide_body parent child carrier o')))"

definition IsDivide :: "ed_message \<Rightarrow> bool" where
  "IsDivide m \<longleftrightarrow> msg_First m TagEQN \<noteq> None \<and> length (msg_Find m ''RCI'') \<ge> 2"

text \<open>The owner and locator of each element of a segment.\<close>

definition rci_pairs :: "ed_segment \<Rightarrow> (string \<times> string) list" where
  "rci_pairs seg = map (\<lambda>el. (comp_Get (elem_First el) 0, comp_Get (elem_First el) 1)) (ed_segment.Elements seg)"

definition divide_ref :: "bool \<Rightarrow> string \<times> string \<Rightarrow> divide_advice \<Rightarrow> divide_advice" where
  "divide_ref seen p d =
     (case p of (owner, loc) \<Rightarrow>
        if loc = '''' then d
        else if seen then d\<lparr>da_Split := da_Split d @ [\<lparr>sref_Owner = owner, sref_Locator = loc\<rparr>]\<rparr>
        else if da_Locator d = '''' then d\<lparr>da_Locator := loc\<rparr>
        else d)"

fun divide_walk :: "ed_segment list \<Rightarrow> bool \<Rightarrow> divide_advice \<Rightarrow> divide_advice" where
  "divide_walk [] seen d = d"
| "divide_walk (seg # segs) seen d =
     (if Tag seg = TagEQN then divide_walk segs True d
      else if Tag seg = ''RCI'' then divide_walk segs seen (fold (divide_ref seen) (rci_pairs seg) d)
      else divide_walk segs seen d)"

datatype divide_parse_error = NotADivide | BadCount string | FewerThanTwoRecords

definition ParseDivide :: "ed_message \<Rightarrow> divide_parse_error + divide_advice" where
  "ParseDivide m =
     (if \<not> IsDivide m then Inl NotADivide
      else case msg_First m TagEQN of
             None \<Rightarrow> Inl NotADivide
           | Some eqn \<Rightarrow>
               (case Atoi (seg_Value eqn 0) of
                  None \<Rightarrow> Inl (BadCount (seg_Value eqn 0))
                | Some n \<Rightarrow>
                    if n \<le> 0 then Inl (BadCount (seg_Value eqn 0))
                    else
                      let party = (case msg_First m ''ORG'' of Some org \<Rightarrow> seg_Get org 0 0 | None \<Rightarrow> '''');
                          d = divide_walk (m_Segments m) False \<lparr>da_Party = party, da_Locator = '''', da_Split = [], da_Passengers = n\<rparr>
                      in if da_Locator d = '''' \<or> da_Split d = [] then Inl FewerThanTwoRecords else Inr d))"

section \<open>Reading what was rendered\<close>

lemma rci_pairs_travelled:
  assumes "travelled s' s"
  shows "filter (\<lambda>p. snd p \<noteq> '''') (rci_pairs s') = filter (\<lambda>p. snd p \<noteq> '''') (rci_pairs s)"
proof -
  let ?f = "\<lambda>el. (comp_Get (elem_First el) 0, comp_Get (elem_First el) 1)"
  have e: "ed_segment.Elements s' = rtrim_by [['''']] (map canon_element (ed_segment.Elements s))"
    using assms by (simp add: travelled_def content_def canon_content_def canon_elements_def)
  have "filter (\<lambda>p. snd p \<noteq> '''') (map ?f (rtrim_by [['''']] xs)) = filter (\<lambda>p. snd p \<noteq> '''') (map ?f xs)" for xs
  proof (induction xs rule: rev_induct)
    case (snoc x xs)
    then show ?case by (auto simp: elem_First_def)
  qed simp
  then show ?thesis by (simp add: rci_pairs_def e comp_def elem_canon)
qed

lemma divide_ref_empty [simp]: "divide_ref seen (a, '''') d = d"
  by (simp add: divide_ref_def)

lemma fold_divide_ref: "fold (divide_ref seen) ps d = fold (divide_ref seen) (filter (\<lambda>p. snd p \<noteq> '''') ps) d"
  by (induction ps arbitrary: d) auto

lemma walk_travelled: "list_all2 travelled ss' ss \<Longrightarrow> divide_walk ss' seen d = divide_walk ss seen d"
proof (induction ss' ss arbitrary: seen d rule: list_all2_induct)
  case (Cons s' ss' s ss)
  have "fold (divide_ref seen) (rci_pairs s') d = fold (divide_ref seen) (rci_pairs s) d"
    using rci_pairs_travelled [OF Cons.hyps(1)] fold_divide_ref by metis
  then show ?case using Cons travelled_simps(1) [OF Cons.hyps(1)] by simp
qed simp

lemma find_travelled:
  "list_all2 travelled ss' ss \<Longrightarrow> find (\<lambda>s. Tag s = t) ss = Some s \<Longrightarrow> \<exists>s'. find (\<lambda>s. Tag s = t) ss' = Some s' \<and> travelled s' s"
  by (induction ss' ss rule: list_all2_induct) (auto simp: travelled_simps split: if_splits)

lemma filter_travelled: "list_all2 travelled ss' ss \<Longrightarrow> list_all2 travelled (filter (\<lambda>s. Tag s = t) ss') (filter (\<lambda>s. Tag s = t) ss)"
  by (induction ss' ss rule: list_all2_induct) (auto simp: travelled_simps)

lemma rci_of [simp]: "rci_pairs (Seg t [Comp [a, b, c]]) = [(a, b)]" "Tag (Seg t es) = t"
  by (simp_all add: rci_pairs_def Seg_def Comp_def elem_First_def comp_Get_def)

lemma walk_append: "list_all (\<lambda>s. Tag s \<notin> {TagEQN, ''RCI''}) ss \<Longrightarrow> divide_walk (ss @ rest) seen d = divide_walk rest seen d"
  by (induction ss) (auto simp: list_all_iff)

lemma walk_carrier: "da_Locator d \<noteq> '''' \<Longrightarrow> divide_walk (carrier_rci p c @ rest) False d = divide_walk rest False d"
proof -
  assume d: "da_Locator d \<noteq> ''''"
  have "divide_walk (map (\<lambda>l. Seg ''RCI'' [Comp [Owner l, lv_Value l, '''']]) ls @ rest) False d = divide_walk rest False d" for ls
    using d by (induction ls) (simp_all add: TagEQN_def divide_ref_def)
  then show ?thesis by (simp add: carrier_rci_def)
qed

lemma other_tags:
  "list_all (\<lambda>s. Tag s \<notin> {TagEQN, ''RCI''}) (tifSegments p)"
  "list_all (\<lambda>s. Tag s \<notin> {TagEQN, ''RCI''}) (concat (map (\<lambda>s. [tvlSegment s, rpi (Seats s) (sg_Status s)]) ss))"
  by (auto simp: list_all_iff tifSegments_def tvlSegment_def rpi_def TagEQN_def Let_def)

lemma walk_body:
  assumes "RecordLocator parent \<noteq> ''''" "RecordLocator child \<noteq> ''''" "da_Locator d = ''''" "da_Split d = []"
  shows "divide_walk (divide_body parent child carrier o') False d
     = d\<lparr>da_Locator := RecordLocator parent, da_Split := [\<lparr>sref_Owner = pa_ID (bo_Sender o'), sref_Locator = RecordLocator child\<rparr>]\<rparr>"
proof -
  let ?tail = "tifSegments child @ concat (map (\<lambda>s. [tvlSegment s, rpi (Seats s) (sg_Status s)])
          (filter (\<lambda>s. Carrier s = carrier \<and> sg_Type s = SegmentAir \<and> sg_Status s \<noteq> ''XX'') (Segments child)))"
  have t: "divide_walk ?tail seen d' = d'" for seen d'
    using walk_append [of ?tail "[]"] other_tags by simp
  show ?thesis
    using assms walk_carrier [of "d\<lparr>da_Locator := RecordLocator parent\<rparr>" parent carrier] t
    by (simp add: divide_body_def Let_def TagEQN_def divide_ref_def)
qed

lemma find_skip: "list_all (\<lambda>s. Tag s \<noteq> t) ss \<Longrightarrow> find (\<lambda>s. Tag s = t) (ss @ rest) = find (\<lambda>s. Tag s = t) rest"
  by (induction ss) auto

lemma ParseDivide_body:
  assumes "list_all2 travelled (m_Segments m) (divide_body parent child carrier o')"
    and "RecordLocator parent \<noteq> ''''" "RecordLocator child \<noteq> ''''" "Passengers child \<noteq> []" "length (Passengers child) < 2 ^ 62"
  shows "ParseDivide m = Inr \<lparr>da_Party = bo_text o' (pa_ID (bo_Sender o')), da_Locator = RecordLocator parent,
      da_Split = [\<lparr>sref_Owner = pa_ID (bo_Sender o'), sref_Locator = RecordLocator child\<rparr>], da_Passengers = int (length (Passengers child))\<rparr>"
    and "MessageFunction m = FuncRequest"
proof -
  let ?b = "divide_body parent child carrier o'"
  let ?eqn = "Seg TagEQN [simple (Itoa (length (Passengers child)))]"
  let ?org = "Seg ''ORG'' [Comp [bo_text o' (pa_ID (bo_Sender o')), bo_text o' (fst (snd (pnr_Origin parent)))]]"
  have skip: "list_all (\<lambda>s. Tag s \<noteq> TagEQN) (carrier_rci parent carrier)" by (auto simp: list_all_iff carrier_rci_def TagEQN_def)
  have fb: "find (\<lambda>s. Tag s = TagEQN) ?b = Some ?eqn" "find (\<lambda>s. Tag s = ''ORG'') ?b = Some ?org"
    using find_skip [OF skip] by (simp_all add: divide_body_def Let_def TagEQN_def)
  obtain eqn org where f: "msg_First m TagEQN = Some eqn" "travelled eqn ?eqn" "msg_First m ''ORG'' = Some org" "travelled org ?org"
    using find_travelled [OF assms(1) fb(1)] find_travelled [OF assms(1) fb(2)] unfolding msg_First_def by blast
  have "length (filter (\<lambda>s. Tag s = ''RCI'') ?b) \<ge> 2"
    by (simp add: divide_body_def Let_def TagEQN_def)
  then have d: "IsDivide m"
    using f(1) list_all2_lengthD [OF filter_travelled [OF assms(1)], of "''RCI''"] by (simp add: IsDivide_def msg_Find_def)
  have at: "seg_Value (Seg t [simple v]) 0 = v" "seg_Get (Seg t [Comp (a # as)]) 0 0 = a" "seg_Get (Seg t [Comp [a, v]]) 0 1 = v" for t v a as
    by (simp_all add: seg_Value_def seg_Get_def seg_Elem_def Seg_def elem_Get_def elem_First_def comp_Get_def simple_def Comp_def)
  have "seg_Value eqn 0 = Itoa (length (Passengers child))" unfolding travelled_simps(2) [OF f(2)] by (rule at)
  then have n: "Atoi (seg_Value eqn 0) = Some (int (length (Passengers child)))"
    using assms(5) Atoi_Itoa [of "length (Passengers child)"] by simp
  have party: "seg_Get org 0 0 = bo_text o' (pa_ID (bo_Sender o'))"
    unfolding travelled_simps(3) [OF f(4)] by (rule at)
  show "ParseDivide m = Inr \<lparr>da_Party = bo_text o' (pa_ID (bo_Sender o')), da_Locator = RecordLocator parent,
      da_Split = [\<lparr>sref_Owner = pa_ID (bo_Sender o'), sref_Locator = RecordLocator child\<rparr>], da_Passengers = int (length (Passengers child))\<rparr>"
    using d f(1,3) n party walk_travelled [OF assms(1)] walk_body [OF assms(2,3), of _ carrier o'] assms(2,4)
    by (simp add: ParseDivide_def Let_def)
  have "list_all2 travelled (msg_Find m ''MSG'') (filter (\<lambda>s. Tag s = ''MSG'') ?b)"
    using filter_travelled [OF assms(1)] by (simp add: msg_Find_def)
  then obtain s ss where ms: "msg_Find m ''MSG'' = s # ss" "travelled s (Seg ''MSG'' [Comp ['''', ''11'']])"
    by (auto simp: divide_body_def Let_def list_all2_Cons2)
  have "seg_Get s 0 1 = FuncRequest"
    unfolding travelled_simps(3) [OF ms(2)] FuncRequest_def by (rule at)
  then show "MessageFunction m = FuncRequest" using ms(1) by (simp add: MessageFunction_def FuncRequest_def)
qed

section \<open>Over the wire\<close>

definition divide_draft :: "pnr \<Rightarrow> pnr \<Rightarrow> string \<Rightarrow> build_options \<Rightarrow> draft" where
  "divide_draft parent child carrier o' = (msgRef o', messageID MsgPAOREQ, divide_body parent child carrier o')"

lemma finish_build: "finish t o' body = build (pd_params t o') [(msgRef o', messageID t, body)]"
  by (simp add: finish_def build_def newInterchange_def)

text \<open>What a divide needs to go over the wire: locators to name, texts without line breaks, an encoder that takes it.\<close>

definition divide_sent :: "pnr \<Rightarrow> pnr \<Rightarrow> string \<Rightarrow> build_options \<Rightarrow> ed_encode_options \<Rightarrow> string \<Rightarrow> parse_options \<Rightarrow> bool" where
  "divide_sent parent child carrier o' eopts out popts \<longleftrightarrow>
     RecordLocator parent \<noteq> '''' \<and> RecordLocator child \<noteq> '''' \<and> length (Passengers child) < 2 ^ 62
     \<and> params_ok (pd_params MsgPAOREQ o') \<and> draft_ok (params_version (pd_params MsgPAOREQ o')) (divide_draft parent child carrier o')
     \<and> ee_Syntax eopts = None \<and> so_Syntax (po_Scan popts) = None
     \<and> (case BuildDivide parent child carrier o' of
          None \<Rightarrow> False
        | Some ic \<Rightarrow> ed_Encode eopts ic = Inr out \<and> length (ic_Segments ic) < maxSeg (po_Scan popts) \<and> length (ic_Segments ic) < 2 ^ 62)"

lemma divide_trip:
  assumes "divide_sent parent child carrier o' eopts out popts"
  obtains ic m where "ed_Parse latin1 utf8 out popts = Inr (ic, None)" "\<not> ic_HasErrors ic" "Messages ic = [m]"
    "mi_Type (message_ID m) = MsgPAOREQ" "list_all2 travelled (m_Segments m) (divide_body parent child carrier o')"
proof -
  let ?p = "pd_params MsgPAOREQ o'" and ?d = "divide_draft parent child carrier o'"
  have b: "BuildDivide parent child carrier o' = Some (build ?p [?d])"
    using assms by (auto simp: divide_sent_def BuildDivide_def divide_draft_def finish_build split: if_splits)
  obtain ic where ic: "ed_Parse latin1 utf8 out popts = Inr (ic, None)" "\<not> ic_HasErrors ic"
    "map message_view (Messages ic) = map (\<lambda>(ref, mid, body). (ref, mid, map canon_content body)) [?d]"
    using built_parses [of ?p "[?d]" eopts out popts latin1 utf8] assms b by (auto simp: divide_sent_def)
  then obtain m where m: "Messages ic = [m]" "message_ID m = messageID MsgPAOREQ"
    "map content (m_Segments m) = map canon_content (divide_body parent child carrier o')"
    by (auto simp: message_view_def divide_draft_def)
  then show thesis using that [OF ic(1,2) m(1)] by (simp add: messageID_def travelled_list)
qed

text \<open>
  C16: A division told to a carrier over EDIFACT reads back as what was divided: who divided it, the
  record it was taken from, the record the passengers moved to, and how many moved. The carrier's own
  locators travelling in the same message are not mistaken for either half.
\<close>

theorem divide_advice_travels:
  assumes "divide_sent parent child carrier o' eopts out popts"
  shows "\<exists>ic m. ed_Parse latin1 utf8 out popts = Inr (ic, None) \<and> \<not> ic_HasErrors ic \<and> Messages ic = [m]
     \<and> ParseDivide m = Inr \<lparr>da_Party = bo_text o' (pa_ID (bo_Sender o')), da_Locator = RecordLocator parent,
         da_Split = [\<lparr>sref_Owner = pa_ID (bo_Sender o'), sref_Locator = RecordLocator child\<rparr>], da_Passengers = int (length (Passengers child))\<rparr>"
proof -
  obtain ic m where m: "ed_Parse latin1 utf8 out popts = Inr (ic, None)" "\<not> ic_HasErrors ic" "Messages ic = [m]"
    "list_all2 travelled (m_Segments m) (divide_body parent child carrier o')"
    by (rule divide_trip [OF assms])
  have "Passengers child \<noteq> []" using assms by (auto simp: divide_sent_def BuildDivide_def)
  then show ?thesis using m ParseDivide_body(1) [OF m(4)] assms by (auto simp: divide_sent_def)
qed

text \<open>One passenger of three moves to a record of her own.\<close>

definition demo_child :: pnr where
  "demo_child = demo_pnr\<lparr>ID := ''R2'', RecordLocator := ''XYZ234'', Passengers := [demo_pax 1 ''JONES''], Segments := [demo_seg 1 1]\<rparr>"

definition demo_options :: build_options where
  "demo_options = \<lparr>bo_Sender = \<lparr>pa_ID = ''1A'', Qualifier = ''ZZ'', RoutingAddr = '''', InternalID = '''', InternalSub = ''''\<rparr>,
     bo_Recipient = \<lparr>pa_ID = ''BA'', Qualifier = ''ZZ'', RoutingAddr = '''', InternalID = '''', InternalSub = ''''\<rparr>,
     bo_ControlRef = ''1'', bo_MessageRef = ''1'', bo_Now = 0, bo_SyntaxVersion = 0, bo_Test = False, bo_Charset = None\<rparr>"

lemma demo_divide_texts:
  "params_ok (pd_params MsgPAOREQ demo_options)"
  "draft_ok (params_version (pd_params MsgPAOREQ demo_options)) (divide_draft demo_pnr demo_child ''BA'' demo_options)"
  "length (ic_Segments (finish MsgPAOREQ demo_options (divide_body demo_pnr demo_child ''BA'' demo_options))) = 12"
  "length (Passengers demo_child) = 1" "RecordLocator demo_pnr \<noteq> ''''" "RecordLocator demo_child = ''XYZ234''"
  by code_simp+

lemma demo_divide_sent: "\<exists>out. divide_sent demo_pnr demo_child ''BA'' demo_options plain_encode out strict_parse"
proof -
  have b: "BuildDivide demo_pnr demo_child ''BA'' demo_options = Some (finish MsgPAOREQ demo_options (divide_body demo_pnr demo_child ''BA'' demo_options))"
    by (simp add: BuildDivide_def demo_child_def)
  have "\<exists>out. ed_Encode plain_encode (finish MsgPAOREQ demo_options (divide_body demo_pnr demo_child ''BA'' demo_options)) = Inr out"
    unfolding finish_build by (auto simp: ed_Encode_def plain_encode_def Let_def build_simps(4,5))
  moreover have "maxSeg (po_Scan strict_parse) = 50" "ee_Syntax plain_encode = None" "so_Syntax (po_Scan strict_parse) = None" by code_simp+
  ultimately show ?thesis using demo_divide_texts b by (auto simp: divide_sent_def)
qed

theorem divide_advice_travels_witness:
  "\<exists>out ic m. divide_sent demo_pnr demo_child ''BA'' demo_options plain_encode out strict_parse
     \<and> ed_Parse (\<lambda>_. True) (\<lambda>_. True) out strict_parse = Inr (ic, None) \<and> Messages ic = [m]
     \<and> ParseDivide m = Inr \<lparr>da_Party = bo_text demo_options ''1A'', da_Locator = ''ABC23D'',
         da_Split = [\<lparr>sref_Owner = ''1A'', sref_Locator = ''XYZ234''\<rparr>], da_Passengers = 1\<rparr>"
proof -
  obtain out where o: "divide_sent demo_pnr demo_child ''BA'' demo_options plain_encode out strict_parse" using demo_divide_sent by blast
  have "pa_ID (bo_Sender demo_options) = ''1A''" "RecordLocator demo_pnr = ''ABC23D''" by (simp_all add: demo_options_def demo_pnr_def)
  then show ?thesis
    using divide_advice_travels [OF o, of "\<lambda>_. True" "\<lambda>_. True"] o demo_divide_texts(4,6) by auto
qed

end
