(* ===== verification/Gateway_Split.thy ===== *)
theory Gateway_Split
  imports Gateway_Outcome Padis_Divide
begin

text \<open>
  Dividing a booking (\<open>src/pkg/gateway/split.go\<close>): the passengers move to a record of their own, both
  halves are written in one step, then every carrier of the moved segments is told or its
  divergence queued. Other callers may change the store between the read and the write of an
  attempt, as in theory \<open>Gateway_Cancel\<close>. The theorems show that nothing is told unless both
  records are stored, and what a carrier running this same program reads the advice as.
\<close>

record split_request =
  sp_Locator :: string
  sp_Passengers :: "int list"
  sp_By :: string
  sp_Reason :: string

record split_result =
  sr_Parent :: pnr
  sr_Child :: pnr
  Advised :: "string list"
  Unadvised :: "string list"

datatype split_error =
    SplitsNobody
  | SplitUnknown
  | SplitCancelled
  | SplitRefused divide_error
  | SplitNotRecorded store_error
  | GaveUpSplitting

section \<open>Telling a carrier\<close>

definition unsent_item :: "pnr \<Rightarrow> pnr \<Rightarrow> string \<Rightarrow> string \<Rightarrow> string \<Rightarrow> queue_item" where
  "unsent_item parent child carrier cause worker =
     (new_item QueueDivergence (ID child) (RecordLocator child) (''split_not_advised_'' @ carrier)
        (carrier @ '' still holds one record covering both '' @ RecordLocator parent @ '' and '' @ RecordLocator child @ '': '' @ cause))
       \<lparr>PlacedBy := worker\<rparr>"

text \<open>The time the interchange is stamped with is read by the builder.\<close>

definition sendDivide :: "env \<Rightarrow> pnr \<Rightarrow> pnr \<Rightarrow> string \<Rightarrow> gateway \<Rightarrow> gw_error option \<times> gateway" where
  "sendDivide e parent child carrier g =
     (case PeerForCarrier g carrier of
        None \<Rightarrow> (Some (NoLink carrier), g)
      | Some peer \<Rightarrow>
          if pe_Format peer \<noteq> FormatEDIFACT then
            (Some (NothingToSay (''peer '' @ pe_Name peer @ '' is a teletype link and the AIRIMP divide message is not implemented'')), g)
          else
            let (ref, g1) = nextControlRef e g;
                (t, g2) = gw_now e g1
            in case BuildDivide parent child carrier (gw_build_options g carrier ref t (Some CharsetUNOA)) of
                 None \<Rightarrow> (Some (NothingToSay (''padis: '' @ RecordLocator child @ '' moved no passengers'')), g1)
               | Some ic \<Rightarrow>
                   (case ed_Encode (edifact_line_options (Some CharsetUNOA)) ic of
                      Inl err \<Rightarrow> (Some (EncodeEdifact err), g2)
                    | Inr raw \<Rightarrow>
                        (case SendKeyed e peer (to_bytes raw) ''PADIS/divide'' (ID child) '''' (''unb:'' @ ref) g2 of
                           ((i, Some err), g3) \<Rightarrow> (Some (SendFailed err), g3)
                         | ((i, None), g3) \<Rightarrow> (None, g3))))"

definition split_carriers :: "pnr \<Rightarrow> string list" where
  "split_carriers child = sort (remdups (map Carrier (filter live_air (Segments child))))"

fun adviseSplit :: "env \<Rightarrow> string \<Rightarrow> string list \<Rightarrow> split_result \<times> gateway \<Rightarrow> split_result \<times> gateway" where
  "adviseSplit e by' [] (res, g) = (res, g)"
| "adviseSplit e by' (carrier # names) (res, g) =
     (case sendDivide e (sr_Parent res) (sr_Child res) carrier g of
        (None, g1) \<Rightarrow> adviseSplit e by' names (res\<lparr>Advised := Advised res @ [carrier]\<rparr>, g1)
      | (Some err, g1) \<Rightarrow>
          adviseSplit e by' names
            (res\<lparr>Unadvised := Unadvised res @ [carrier]\<rparr>,
             if Queues g1 then gw_place e (unsent_item (sr_Parent res) (sr_Child res) carrier (error_text err) by') g1 else g1))"

section \<open>Dividing\<close>

definition moved_names :: "pnr \<Rightarrow> string list" where
  "moved_names child = sort (map (\<lambda>p. Surname p @ ''/'' @ Given p) (Passengers child))"

definition split_detail :: "split_request \<Rightarrow> pnr \<Rightarrow> pnr \<Rightarrow> string" where
  "split_detail req parent child =
     RecordLocator child @ '' divided from '' @ RecordLocator parent @ '': ['' @ Join (moved_names child) '' '' @ '']''
     @ (if sp_Reason req \<noteq> '''' then '' ('' @ sp_Reason req @ '')'' else '''')"

definition split_event :: "split_request \<Rightarrow> time \<Rightarrow> string \<Rightarrow> string \<Rightarrow> event" where
  "split_event req now typ detail =
     \<lparr>ev_ID = '''', ev_PNRID = '''', Seq = 0, ev_Type = typ, Detail = detail, ev_MessageID = '''', Actor = sp_By req, ev_At = now\<rparr>"

text \<open>The two halves as they are written: both keep the locators the carriers gave.\<close>

definition halves :: "time \<Rightarrow> pnr \<times> pnr \<Rightarrow> pnr \<times> pnr" where
  "halves now pc = (case pc of (parent, child) \<Rightarrow>
     (parent\<lparr>UpdatedAt := now\<rparr>, child\<lparr>Locators := Locators child @ Locators parent, CreatedAt := now, UpdatedAt := now\<rparr>))"

text \<open>One attempt: \<open>Inl None\<close> is the conflict that is retried.\<close>

definition split_attempt ::
  "env \<Rightarrow> (mem \<Rightarrow> mem) \<Rightarrow> split_request \<Rightarrow> gateway \<Rightarrow> (split_error option + split_result) \<times> gateway" where
  "split_attempt e meanwhile req g =
     (case GetPNR (gw_Store g) (sp_Locator req) of
        Some (Inr rec) \<Rightarrow>
          if pnr_Status rec = StatusCancelled then (Inl (Some SplitCancelled), g)
          else
            let (locator, g1) = newLocator e g
            in (case Divide rec (sp_Passengers req) locator of
                  Inl err \<Rightarrow> (Inl (Some (SplitRefused err)), g1)
                | Inr pc \<Rightarrow>
                    let (now, g2) = gw_now e g1;
                        (parent, child) = halves now pc;
                        detail = split_detail req parent child;
                        g3 = on_store meanwhile g2
                    in (case DividePNR (gen e) parent (pnr_Version rec) child [split_event req now ''split'' detail]
                               [split_event req now ''split_created'' detail] (gw_Store g3) of
                          Inr (st, parent', child') \<Rightarrow>
                            let (res, g4) = adviseSplit e (sp_By req) (split_carriers child')
                                  (\<lparr>sr_Parent = parent', sr_Child = child', Advised = [], Unadvised = []\<rparr>, g3\<lparr>gw_Store := st\<rparr>)
                            in (Inr res, g4)
                        | Inl ErrConflict \<Rightarrow> (Inl None, g3)
                        | Inl err \<Rightarrow> (Inl (Some (SplitNotRecorded err)), g3)))
      | _ \<Rightarrow> (Inl (Some SplitUnknown), g))"

fun split_loop ::
  "env \<Rightarrow> others \<Rightarrow> split_request \<Rightarrow> nat \<Rightarrow> nat \<Rightarrow> gateway \<Rightarrow> (split_error + split_result) \<times> gateway" where
  "split_loop e others req k 0 g = (Inl GaveUpSplitting, g)"
| "split_loop e others req k (Suc left) g =
     (case split_attempt e (others k) req g of
        (Inl (Some err), g1) \<Rightarrow> (Inl err, g1)
      | (Inl None, g1) \<Rightarrow> split_loop e others req (Suc k) left g1
      | (Inr res, g1) \<Rightarrow> (Inr res, g1))"

definition Split :: "env \<Rightarrow> others \<Rightarrow> split_request \<Rightarrow> gateway \<Rightarrow> (split_error + split_result) \<times> gateway" where
  "Split e others req g =
     (if sp_Passengers req = [] then (Inl SplitsNobody, g) else split_loop e others req 0 5 g)"

section \<open>Telling, or queueing\<close>

lemma unsent_fresh [simp]: "fresh_item (unsent_item parent child c why by')"
  by (simp add: fresh_item_def unsent_item_def new_item_def QueueDivergence_def Pending_def)

text \<open>The carrier's link is an EDIFACT one and has accepted an advice of this division.\<close>

definition advised_of :: "gateway \<Rightarrow> pnr \<Rightarrow> pnr \<Rightarrow> handed \<Rightarrow> string \<Rightarrow> bool" where
  "advised_of g parent child new c \<longleftrightarrow>
     (\<exists>peer ref t ic raw. PeerForCarrier g c = Some peer \<and> pe_Format peer = FormatEDIFACT
        \<and> BuildDivide parent child c (gw_build_options g c ref t (Some CharsetUNOA)) = Some ic
        \<and> ed_Encode (edifact_line_options (Some CharsetUNOA)) ic = Inr raw \<and> (peer, to_bytes raw, None) \<in> set new)"

definition unsent_raised :: "pnr \<Rightarrow> pnr \<Rightarrow> string \<Rightarrow> mem \<Rightarrow> string \<Rightarrow> bool" where
  "unsent_raised parent child by' s c \<longleftrightarrow> (\<exists>why. raised s (unsent_item parent child c why by'))"

lemma clock_store: "gw_Store (snd (gw_now e g)) = gw_Store g" "gw_Store (snd (nextControlRef e g)) = gw_Store g"
  by (simp_all add: nextControlRef_def gw_now_def Let_def)

lemma settled_same:
  assumes "settled h = settled g"
  shows "PeerForCarrier h = PeerForCarrier g" "gw_build_options h = gw_build_options g"
  using settled_eqD(2,5) [OF assms] by (simp_all add: PeerForCarrier_def gw_build_options_def fun_eq_iff)

lemma sendDivide_spec:
  assumes "sendDivide e parent child c g = (r, g')"
  shows "\<exists>new. gw_handed g' = gw_handed g @ new \<and> settled g' = settled g \<and> grows (gw_Store g) (gw_Store g')
           \<and> (r = None \<longrightarrow> advised_of g parent child new c)"
proof -
  obtain ref g1 where g1: "nextControlRef e g = (ref, g1)" by (metis surj_pair)
  obtain t g2 where g2: "gw_now e g1 = (t, g2)" by (metis surj_pair)
  have s: "gw_Store g1 = gw_Store g" "gw_Store g2 = gw_Store g" "settled g1 = settled g" "settled g2 = settled g"
    "gw_handed g1 = gw_handed g" "gw_handed g2 = gw_handed g"
    using clock_store(2) [of e g] clock_store(1) [of e g1] clock_settled(5,6) [of e g] clock_settled(1,2) [of e g1] g1 g2 by simp_all
  consider "r \<noteq> None" "g' \<in> {g, g1, g2}"
    | peer ic raw i er where "PeerForCarrier g c = Some peer" "pe_Format peer = FormatEDIFACT"
        "BuildDivide parent child c (gw_build_options g c ref t (Some CharsetUNOA)) = Some ic"
        "ed_Encode (edifact_line_options (Some CharsetUNOA)) ic = Inr raw"
        "SendKeyed e peer (to_bytes raw) ''PADIS/divide'' (ID child) '''' (''unb:'' @ ref) g2 = ((i, er), g')"
        "r = None \<longleftrightarrow> er = None"
    using assms by (auto simp: sendDivide_def g1 g2 split: option.splits sum.splits if_splits prod.splits)
  then show ?thesis
  proof cases
    case 1
    then show ?thesis using s by (intro exI [of _ "[]"]) auto
  next
    case 2
    then show ?thesis using SendKeyed_handed [OF 2(5)] SendKeyed_settled [OF 2(5)] SendKeyed_grows [OF 2(5)] s
      unfolding advised_of_def by fastforce
  qed
qed

lemma advised_more:
  "advised_of g p ch new c \<Longrightarrow> advised_of g p ch (new @ new') c" "advised_of g p ch new' c \<Longrightarrow> advised_of g p ch (new @ new') c"
  by (fastforce simp: advised_of_def)+

lemma advised_settled: "settled h = settled g \<Longrightarrow> advised_of h = advised_of g"
  using settled_same [of h g] by (simp add: advised_of_def fun_eq_iff)

lemma adviseSplit_spec:
  assumes "adviseSplit e by' names (res, g) = (res', g')"
  shows "\<exists>new A U. gw_handed g' = gw_handed g @ new \<and> settled g' = settled g \<and> grows (gw_Store g) (gw_Store g')
     \<and> sr_Parent res' = sr_Parent res \<and> sr_Child res' = sr_Child res
     \<and> Advised res' = Advised res @ A \<and> Unadvised res' = Unadvised res @ U \<and> mset (A @ U) = mset names
     \<and> (\<forall>c \<in> set A. advised_of g (sr_Parent res) (sr_Child res) new c)
     \<and> (Queues g \<longrightarrow> (\<forall>c \<in> set U. unsent_raised (sr_Parent res) (sr_Child res) by' (gw_Store g') c))"
  using assms
proof (induction names arbitrary: res g)
  case Nil
  then show ?case by auto
next
  case (Cons c names)
  obtain r g1 where one: "sendDivide e (sr_Parent res) (sr_Child res) c g = (r, g1)" by (metis surj_pair)
  obtain new1 where new1: "gw_handed g1 = gw_handed g @ new1" "settled g1 = settled g" "grows (gw_Store g) (gw_Store g1)"
    "r = None \<longrightarrow> advised_of g (sr_Parent res) (sr_Child res) new1 c" using sendDivide_spec [OF one] by auto
  define res1 where "res1 = (if r = None then res\<lparr>Advised := Advised res @ [c]\<rparr> else res\<lparr>Unadvised := Unadvised res @ [c]\<rparr>)"
  define it where "it = unsent_item (sr_Parent res) (sr_Child res) c (error_text (the r)) by'"
  define g2 where "g2 = (if r = None \<or> \<not> Queues g1 then g1 else gw_place e it g1)"
  have it: "grows (gw_Store g1) (gw_Store (gw_place e it g1))" "raised (gw_Store (gw_place e it g1)) it"
    using place_grows [of it g1 e] by (simp_all add: it_def)
  have g2: "gw_handed g2 = gw_handed g @ new1" "settled g2 = settled g" "grows (gw_Store g) (gw_Store g2)"
    "r \<noteq> None \<Longrightarrow> Queues g \<Longrightarrow> raised (gw_Store g2) it"
    using new1 it grows_trans [OF new1(3)] settled_eqD(4) [OF new1(2)] by (auto simp: g2_def)
  have run: "adviseSplit e by' names (res1, g2) = (res', g')" using Cons.prems one
    by (auto simp: res1_def g2_def it_def split: option.splits)
  have same: "sr_Parent res1 = sr_Parent res" "sr_Child res1 = sr_Child res" by (simp_all add: res1_def)
  obtain new A U where rest: "gw_handed g' = gw_handed g2 @ new" "settled g' = settled g2" "grows (gw_Store g2) (gw_Store g')"
      "sr_Parent res' = sr_Parent res" "sr_Child res' = sr_Child res"
      "Advised res' = Advised res1 @ A" "Unadvised res' = Unadvised res1 @ U" "mset (A @ U) = mset names"
      "\<forall>c \<in> set A. advised_of g (sr_Parent res) (sr_Child res) new c"
      "Queues g \<longrightarrow> (\<forall>c \<in> set U. unsent_raised (sr_Parent res) (sr_Child res) by' (gw_Store g') c)"
    using Cons.IH [OF run] advised_settled [OF g2(2)] settled_eqD(4) [OF g2(2)] by (auto simp: same)
  have q: "unsent_raised (sr_Parent res) (sr_Child res) by' (gw_Store g') c" if "r \<noteq> None" "Queues g"
    using grows_raised [OF rest(3) g2(4) [OF that]] by (auto simp: unsent_raised_def it_def)
  have frame: "gw_handed g' = gw_handed g @ new1 @ new" "settled g' = settled g" "grows (gw_Store g) (gw_Store g')"
    using rest(1-3) g2(1-3) grows_trans by auto
  show ?case
  proof (cases r)
    case None
    then show ?thesis using frame rest(4-10) new1(4) advised_more
      by (intro exI [of _ "new1 @ new"] exI [of _ "c # A"] exI [of _ U]) (auto simp: res1_def)
  next
    case (Some err)
    then show ?thesis using frame rest(4-10) q advised_more
      by (intro exI [of _ "new1 @ new"] exI [of _ A] exI [of _ "c # U"]) (auto simp: res1_def)
  qed
qed

lemma adviseSplit_child: "adviseSplit e by' names (res, g) = (res', g') \<Longrightarrow> sr_Child res' = sr_Child res"
  using adviseSplit_spec by blast

section \<open>All or nothing\<close>

text \<open>The number of the new locator is drawn before the other callers of the attempt take their turn.\<close>

definition numbered :: "others \<Rightarrow> others" where
  "numbered others k s = others k (fst (NextLocatorCounter s))"

definition next_locator :: "env \<Rightarrow> gateway \<Rightarrow> mem \<Rightarrow> string" where
  "next_locator e g s = Allocate (mac e) (locators g) (snd (NextLocatorCounter s))"

lemma DividePNR_conflict:
  assumes "DividePNR gn p v c pe ce s = Inl ErrConflict"
  shows "\<exists>cur. map_of (pnrs s) (ID p) = Some cur \<and> pnr_Version cur \<noteq> v"
  using assms by (auto simp: DividePNR_def Let_def split: option.splits if_splits)

text \<open>
  What a successful division of the record \<open>rec\<close> has made of the gateway: the locator was drawn from
  \<open>s\<close>, the halves were written into \<open>s'\<close>.
\<close>

definition split_ok :: "env \<Rightarrow> split_request \<Rightarrow> pnr \<Rightarrow> mem \<Rightarrow> mem \<Rightarrow> gateway \<Rightarrow> split_result \<Rightarrow> gateway \<Rightarrow> bool" where
  "split_ok e req rec s s' g res g' \<longleftrightarrow>
     (\<exists>pc now st new.
        pnr_Status rec \<noteq> StatusCancelled
      \<and> Divide rec (sp_Passengers req) (next_locator e g s) = Inr pc
      \<and> DividePNR (gen e) (fst (halves now pc)) (pnr_Version rec) (snd (halves now pc))
          [split_event req now ''split'' (split_detail req (fst (halves now pc)) (snd (halves now pc)))]
          [split_event req now ''split_created'' (split_detail req (fst (halves now pc)) (snd (halves now pc)))] s'
          = Inr (st, sr_Parent res, sr_Child res)
      \<and> pnrs (gw_Store g') = pnrs st
      \<and> gw_handed g' = gw_handed g @ new
      \<and> distinct (Advised res @ Unadvised res)
      \<and> set (Advised res @ Unadvised res) = Carrier ` {x \<in> set (Segments (sr_Child res)). live_air x}
      \<and> (\<forall>c \<in> set (Advised res). advised_of g (sr_Parent res) (sr_Child res) new c)
      \<and> (Queues g \<longrightarrow> (\<forall>c \<in> set (Unadvised res). unsent_raised (sr_Parent res) (sr_Child res) (sp_By req) (gw_Store g') c)))"

text \<open>Nothing handed, and the same configuration.\<close>

definition unsent :: "gateway \<Rightarrow> gateway \<Rightarrow> bool" where
  "unsent g h \<longleftrightarrow> same_frame g h \<and> locators h = locators g"

lemma advised_frame: "same_frame g h \<Longrightarrow> advised_of h = advised_of g"
  by (simp add: advised_of_def same_frame_def PeerForCarrier_def gw_build_options_def fun_eq_iff)

lemma split_ok_frame: "unsent g h \<Longrightarrow> split_ok e req rec s s' h res g' \<Longrightarrow> split_ok e req rec s s' g res g'"
  using advised_frame [of g h] by (simp add: split_ok_def unsent_def same_frame_def next_locator_def)

lemma names_of:
  "set (split_carriers ch) = Carrier ` {x \<in> set (Segments ch). live_air x}" "distinct (split_carriers ch)"
  by (simp_all add: split_carriers_def)

lemma Divide_ID: "Divide rec ps loc = Inr pc \<Longrightarrow> ID (fst (halves t pc)) = ID rec"
  by (auto simp: Divide_def Let_def halves_def Recompute_def remapPassengerRefs_def split: if_splits prod.splits)

lemma split_attempt_spec:
  assumes "split_attempt e (others k) req g = (r, g')"
  defines "s \<equiv> gw_Store g"
  shows "case r of
      Inl None \<Rightarrow> unsent g g' \<and> overtaken (numbered others k) (sp_Locator req) s \<and> gw_Store g' = numbered others k s
    | Inl (Some err) \<Rightarrow> unsent g g' \<and> err \<noteq> GaveUpSplitting \<and> gw_Store g' \<in> {s, fst (NextLocatorCounter s), numbered others k s}
    | Inr res \<Rightarrow> \<exists>rec. GetPNR s (sp_Locator req) = Some (Inr rec) \<and> split_ok e req rec s (numbered others k s) g res g'"
proof -
  obtain g1 where g1: "newLocator e g = (next_locator e g s, g1)" "gw_Store g1 = fst (NextLocatorCounter s)" "unsent g g1"
    by (simp add: newLocator_def NextLocatorCounter_def next_locator_def unsent_def same_frame_def s_def)
  obtain now g2 where g2: "gw_now e g1 = (now, g2)" by (metis surj_pair)
  define g3 where "g3 = on_store (others k) g2"
  have f: "unsent g g" "unsent g g3" "gw_Store g3 = numbered others k s"
    using g1 g2 by (auto simp: unsent_def same_frame_def gw_now_def g3_def on_store_def numbered_def)
  define detail where "detail pc = split_detail req (fst (halves now pc)) (snd (halves now pc))" for pc
  define written where "written rec pc = DividePNR (gen e) (fst (halves now pc)) (pnr_Version rec) (snd (halves now pc))
      [split_event req now ''split'' (detail pc)] [split_event req now ''split_created'' (detail pc)] (numbered others k s)" for rec :: pnr and pc
  consider err where "r = Inl (Some err)" "err \<noteq> GaveUpSplitting" "g' \<in> {g, g1, g3}"
    | rec pc where "r = Inl None" "g' = g3" "GetPNR s (sp_Locator req) = Some (Inr rec)"
        "Divide rec (sp_Passengers req) (next_locator e g s) = Inr pc" "written rec pc = Inl ErrConflict"
    | rec pc st p c res where "GetPNR s (sp_Locator req) = Some (Inr rec)" "pnr_Status rec \<noteq> StatusCancelled"
      "Divide rec (sp_Passengers req) (next_locator e g s) = Inr pc" "written rec pc = Inr (st, p, c)"
      "adviseSplit e (sp_By req) (split_carriers c)
         (\<lparr>sr_Parent = p, sr_Child = c, Advised = [], Unadvised = []\<rparr>, g3\<lparr>gw_Store := st\<rparr>) = (res, g')" "r = Inr res"
    using assms(1) f(3)
    by (auto simp: split_attempt_def g1(1) g2 Let_def g3_def [symmetric] s_def [symmetric] written_def detail_def
        split: option.splits sum.splits prod.splits store_error.splits if_splits)
  then show ?thesis
  proof cases
    case 1
    then show ?thesis using f g1(2,3) by (auto simp: s_def)
  next
    case 2
    obtain cur where "map_of (pnrs (numbered others k s)) (ID rec) = Some cur" "pnr_Version cur \<noteq> pnr_Version rec"
      using DividePNR_conflict [OF 2(5) [unfolded written_def]] Divide_ID [OF 2(4)] by auto
    then have "overtaken (numbered others k) (sp_Locator req) s" using 2(3) by (auto simp: overtaken_def)
    then show ?thesis using 2(1,2) f by simp
  next
    case 3
    let ?h = "g3\<lparr>gw_Store := st\<rparr>"
    have fr: "same_frame g ?h" using f(2) by (simp add: unsent_def same_frame_def)
    from adviseSplit_spec [OF 3(5)] obtain new where a: "gw_handed g' = gw_handed ?h @ new" "settled g' = settled ?h"
      "sr_Parent res = p" "sr_Child res = c" "mset (Advised res @ Unadvised res) = mset (split_carriers c)"
      "\<forall>x \<in> set (Advised res). advised_of ?h p c new x"
      "Queues ?h \<longrightarrow> (\<forall>x \<in> set (Unadvised res). unsent_raised p c (sp_By req) (gw_Store g') x)" by auto
    have "split_ok e req rec s (numbered others k s) g res g'"
      unfolding split_ok_def a(3,4)
    proof (intro exI conjI)
      show "pnr_Status rec \<noteq> StatusCancelled" "Divide rec (sp_Passengers req) (next_locator e g s) = Inr pc" by (rule 3)+
      show "DividePNR (gen e) (fst (halves now pc)) (pnr_Version rec) (snd (halves now pc))
          [split_event req now ''split'' (split_detail req (fst (halves now pc)) (snd (halves now pc)))]
          [split_event req now ''split_created'' (split_detail req (fst (halves now pc)) (snd (halves now pc)))] (numbered others k s)
          = Inr (st, p, c)" using 3(4) by (simp only: written_def detail_def)
      show "pnrs (gw_Store g') = pnrs st" using settled_eqD(1) [OF a(2)] by simp
      show "gw_handed g' = gw_handed g @ new" using a(1) fr by (simp add: same_frame_def)
      show "distinct (Advised res @ Unadvised res)" using a(5) names_of(2) by (metis mset_eq_imp_distinct_iff)
      show "set (Advised res @ Unadvised res) = Carrier ` {x \<in> set (Segments c). live_air x}"
        using a(5) names_of(1) by (metis mset_eq_setD)
      show "\<forall>x \<in> set (Advised res). advised_of g p c new x" using a(6) advised_frame [OF fr] by simp
      show "Queues g \<longrightarrow> (\<forall>x \<in> set (Unadvised res). unsent_raised p c (sp_By req) (gw_Store g') x)"
        using a(7) fr by (simp add: same_frame_def)
    qed
    then show ?thesis using 3(1,6) by auto
  qed
qed

text \<open>The stores a failing division can leave: those of the other callers, or one more locator number drawn from them.\<close>

definition not_written :: "others \<Rightarrow> nat \<Rightarrow> mem \<Rightarrow> mem \<Rightarrow> bool" where
  "not_written others m s s' \<longleftrightarrow>
     (\<exists>n \<le> m. s' = seen (numbered others) n s \<or> s' = fst (NextLocatorCounter (seen (numbered others) n s)))"

lemma split_loop_spec:
  assumes "split_loop e others req k left g = (r, g')" "gw_Store g = seen (numbered others) k s"
    "\<forall>j<k. overtaken (numbered others j) (sp_Locator req) (seen (numbered others) j s)"
  shows "case r of
      Inl err \<Rightarrow> gw_handed g' = gw_handed g \<and> not_written others (k + left) s (gw_Store g')
        \<and> (err = GaveUpSplitting \<longrightarrow> (\<forall>j < k + left. overtaken (numbered others j) (sp_Locator req) (seen (numbered others) j s)))
    | Inr res \<Rightarrow> \<exists>n rec. n < k + left \<and> (\<forall>j<n. overtaken (numbered others j) (sp_Locator req) (seen (numbered others) j s))
        \<and> GetPNR (seen (numbered others) n s) (sp_Locator req) = Some (Inr rec)
        \<and> split_ok e req rec (seen (numbered others) n s) (seen (numbered others) (Suc n) s) g res g'"
  using assms
proof (induction left arbitrary: k g)
  case 0
  then show ?case by (auto simp: not_written_def)
next
  case (Suc left)
  obtain a g1 where a: "split_attempt e (others k) req g = (a, g1)" by (metis surj_pair)
  note one = split_attempt_spec [of e others k, OF a]
  consider "a = Inl None" | err where "a = Inl (Some err)" | res where "a = Inr res" by (metis sum.exhaust option.exhaust)
  then show ?case
  proof cases
    case 1
    then have run: "split_loop e others req (Suc k) left g1 = (r, g')" using Suc.prems(1) a by simp
    have f: "unsent g g1" "gw_Store g1 = seen (numbered others) (Suc k) s"
      "overtaken (numbered others k) (sp_Locator req) (seen (numbered others) k s)"
      using one 1 Suc.prems(2) by auto
    have "\<forall>j<Suc k. overtaken (numbered others j) (sp_Locator req) (seen (numbered others) j s)"
      using f(3) Suc.prems(3) by (simp add: less_Suc_eq)
    note IH = Suc.IH [OF run f(2) this]
    show ?thesis
    proof (cases r)
      case (Inl err)
      then show ?thesis using IH f(1) by (simp add: unsent_def same_frame_def)
    next
      case (Inr res)
      then obtain n rec where n: "n < Suc k + left" "\<forall>j<n. overtaken (numbered others j) (sp_Locator req) (seen (numbered others) j s)"
        "GetPNR (seen (numbered others) n s) (sp_Locator req) = Some (Inr rec)"
        "split_ok e req rec (seen (numbered others) n s) (seen (numbered others) (Suc n) s) g1 res g'"
        using IH by auto
      show ?thesis using Inr n(1-3) split_ok_frame [OF f(1) n(4)] by auto
    qed
  next
    case (2 err)
    then have r: "r = Inl err" "g' = g1" using Suc.prems(1) a by simp_all
    have "gw_Store g1 \<in> {seen (numbered others) k s, fst (NextLocatorCounter (seen (numbered others) k s)), seen (numbered others) (Suc k) s}"
      "unsent g g1" "err \<noteq> GaveUpSplitting"
      using one 2 Suc.prems(2) by simp_all
    then have "not_written others (k + Suc left) s (gw_Store g1)" "gw_handed g1 = gw_handed g" "err \<noteq> GaveUpSplitting"
      unfolding not_written_def by (auto simp: unsent_def same_frame_def intro: exI [of _ k] exI [of _ "Suc k"])
    then show ?thesis by (simp add: r)
  next
    case (3 res)
    then have r: "r = Inr res" "g' = g1" using Suc.prems(1) a by simp_all
    then show ?thesis using one 3 Suc.prems(2,3) by (auto intro!: exI [of _ k])
  qed
qed

text \<open>
  C15: Dividing a booking, whatever other callers do to the store meanwhile (\<open>seen (numbered others) k\<close>
  is the store before attempt \<open>k\<close>, as they and the drawing of locator numbers have left it). When it
  fails no link is handed anything and the whole store is as the other callers left it but for a
  locator number: neither half is written without the other. It gives up only when each of the five
  attempts was overtaken by another writer. When it succeeds, the two halves are those of the record
  read, not a cancelled one, at the first attempt that was not overtaken, under the locator drawn
  there; they are written in one step over the version read; and the carriers of the child's live
  segments are split in two: each one advised has an advice of this very division accepted by its
  EDIFACT link, and for each other one the disagreement is on the divergence queue.
\<close>

theorem split_stored_then_told:
  assumes "Split e others req g = (r, g')"
  shows "case r of
      Inl err \<Rightarrow> gw_handed g' = gw_handed g \<and> not_written others 5 (gw_Store g) (gw_Store g')
        \<and> (err = GaveUpSplitting \<longrightarrow> (\<forall>j<5. overtaken (numbered others j) (sp_Locator req) (seen (numbered others) j (gw_Store g))))
    | Inr res \<Rightarrow>
        (\<exists>n rec pc now st new.
            n < 5 \<and> (\<forall>j<n. overtaken (numbered others j) (sp_Locator req) (seen (numbered others) j (gw_Store g)))
          \<and> GetPNR (seen (numbered others) n (gw_Store g)) (sp_Locator req) = Some (Inr rec)
          \<and> pnr_Status rec \<noteq> StatusCancelled
          \<and> Divide rec (sp_Passengers req) (next_locator e g (seen (numbered others) n (gw_Store g))) = Inr pc
          \<and> DividePNR (gen e) (fst (halves now pc)) (pnr_Version rec) (snd (halves now pc))
              [split_event req now ''split'' (split_detail req (fst (halves now pc)) (snd (halves now pc)))]
              [split_event req now ''split_created'' (split_detail req (fst (halves now pc)) (snd (halves now pc)))]
              (seen (numbered others) (Suc n) (gw_Store g)) = Inr (st, sr_Parent res, sr_Child res)
          \<and> pnrs (gw_Store g') = pnrs st
          \<and> gw_handed g' = gw_handed g @ new
          \<and> distinct (Advised res @ Unadvised res)
          \<and> set (Advised res @ Unadvised res) = Carrier ` {x \<in> set (Segments (sr_Child res)). live_air x}
          \<and> (\<forall>c \<in> set (Advised res). advised_of g (sr_Parent res) (sr_Child res) new c)
          \<and> (Queues g \<longrightarrow> (\<forall>c \<in> set (Unadvised res). unsent_raised (sr_Parent res) (sr_Child res) (sp_By req) (gw_Store g') c)))"
proof (cases "sp_Passengers req = []")
  case True
  have "not_written others 5 (gw_Store g) (gw_Store g)" unfolding not_written_def by (rule exI [of _ 0]) simp
  then show ?thesis using assms True by (auto simp: Split_def)
next
  case False
  then have l: "split_loop e others req 0 5 g = (r, g')" using assms by (simp add: Split_def)
  have "gw_Store g = seen (numbered others) 0 (gw_Store g)"
    "\<forall>j<0. overtaken (numbered others j) (sp_Locator req) (seen (numbered others) j (gw_Store g))" by simp_all
  note run = split_loop_spec [OF l this, unfolded split_ok_def add_0]
  show ?thesis
  proof (cases r)
    case (Inl err)
    then show ?thesis using run by simp
  next
    case (Inr res)
    show ?thesis using run unfolding Inr sum.case by (elim exE conjE) (intro exI conjI; assumption)
  qed
qed

text \<open>One passenger of three leaves a booking with two carriers, one of them without a link.\<close>

definition part_record :: pnr where
  "part_record = trip_record\<lparr>RecordLocator := ''OLD1''\<rparr>"

definition part_gateway :: gateway where
  "part_gateway = trip_gateway\<lparr>gw_Store := demo_store\<lparr>pnrs := [(''R1'', part_record)], byLocator := [(''OLD1'', ''R1'')]\<rparr>\<rparr>"

definition part_request :: split_request where
  "part_request = \<lparr>sp_Locator = ''OLD1'', sp_Passengers = [2], sp_By = ''desk'', sp_Reason = ''''\<rparr>"

lemma part_locator: "Allocate h a n \<noteq> ''OLD1''"
  using Allocate_valid [of h a n] by (auto simp: ValidLocator_def LocatorLength_def)

lemma part_divides:
  "\<exists>p c. Divide part_record [2] loc = Inr (p, c) \<and> ID p = ''R1'' \<and> ID c = '''' \<and> RecordLocator c = loc
     \<and> map Carrier (filter live_air (Segments c)) = [''BA'', ''AF'']"
proof -
  have h: "hasPassenger part_record 2" "length (Passengers part_record) = 3"
    by (auto simp: hasPassenger_def part_record_def trip_record_def demo_pnr_def demo_pax_def)
  show ?thesis using h
    by (simp add: Divide_def Let_def remapPassengerRefs_def Recompute_def)
      (simp add: part_record_def trip_record_def demo_pnr_def demo_pax_def ask_def demo_seg_def live_air_def SegmentAir_def zero_pnr_def)
qed

lemma part_splits: "\<exists>res g'. split_attempt shop_env (\<lambda>s. s) part_request part_gateway = (Inr res, g')
    \<and> ''AF'' \<in> Carrier ` {x \<in> set (Segments (sr_Child res)). live_air x}"
proof -
  obtain n where n: "newLocator shop_env part_gateway = (n, snd (newLocator shop_env part_gateway))" "n \<noteq> ''OLD1''"
    using part_locator by (simp add: newLocator_def Let_def case_prod_beta)
  obtain p c where d: "Divide part_record [2] n = Inr (p, c)" "ID p = ''R1''" "ID c = ''''" "RecordLocator c = n"
    "map Carrier (filter live_air (Segments c)) = [''BA'', ''AF'']" by (rule exE [OF part_divides [of n]], elim exE conjE, rule that)
  have g: "GetPNR (gw_Store part_gateway) ''OLD1'' = Some (Inr part_record)" "pnr_Status part_record \<noteq> StatusCancelled"
    by (simp_all add: part_gateway_def GetPNR_def part_record_def trip_record_def demo_pnr_def StatusCancelled_def)
  define s where "s = gw_Store (snd (newLocator shop_env part_gateway))"
  have s: "pnrs s = [(''R1'', part_record)]" "byLocator s = [(''OLD1'', ''R1'')]" "gen shop_env k \<noteq> ''R1''" for k
    by (simp_all add: s_def newLocator_def NextLocatorCounter_def part_gateway_def Let_def shop_env_def demo_gen_def)
  have div: "\<exists>st p' c'. DividePNR (gen shop_env) (p\<lparr>UpdatedAt := t\<rparr>) (pnr_Version part_record) (c\<lparr>Locators := l, CreatedAt := t, UpdatedAt := t\<rparr>) pe ce s
      = Inr (st, p', c') \<and> Segments c' = Segments c" for t l pe ce
    using d(2-4) n(2) s by (simp add: DividePNR_def Let_def)
  have af: "''AF'' \<in> Carrier ` {x \<in> set (Segments c). live_air x}"
    using arg_cong [OF d(5), of set] by auto
  obtain r g' where r: "split_attempt shop_env (\<lambda>s. s) part_request part_gateway = (r, g')" by (metis surj_pair)
  have "\<exists>res. r = Inr res \<and> Segments (sr_Child res) = Segments c"
  proof -
    obtain g1 where g1: "newLocator shop_env part_gateway = (n, g1)" "gw_Store g1 = s" using n(1) by (simp add: s_def)
    obtain t g2 where g2: "gw_now shop_env g1 = (t, g2)" "gw_Store g2 = s" using g1(2) by (simp add: gw_now_def)
    have h: "halves t (p, c) = (p\<lparr>UpdatedAt := t\<rparr>, c\<lparr>Locators := Locators c @ Locators p, CreatedAt := t, UpdatedAt := t\<rparr>)"
      by (simp add: halves_def)
    obtain st p' c' where w: "DividePNR (gen shop_env) (p\<lparr>UpdatedAt := t\<rparr>) (pnr_Version part_record)
        (c\<lparr>Locators := Locators c @ Locators p, CreatedAt := t, UpdatedAt := t\<rparr>)
        [split_event part_request t ''split'' (split_detail part_request (fst (halves t (p, c))) (snd (halves t (p, c))))]
        [split_event part_request t ''split_created'' (split_detail part_request (fst (halves t (p, c))) (snd (halves t (p, c))))] s
      = Inr (st, p', c')" "Segments c' = Segments c" using div by blast
    show ?thesis using r g d(1) g1 g2 h w adviseSplit_child
      by (auto simp: split_attempt_def part_request_def Let_def on_store_def split: prod.splits)
  qed
  then show ?thesis using r af by auto
qed

theorem split_stored_then_told_witness:
  "\<exists>res g'. Split shop_env (\<lambda>k s. s) part_request part_gateway = (Inr res, g')
     \<and> ''AF'' \<in> set (Unadvised res) \<and> unsent_raised (sr_Parent res) (sr_Child res) ''desk'' (gw_Store g') ''AF''"
proof -
  obtain res g' where a: "split_attempt shop_env (\<lambda>s. s) part_request part_gateway = (Inr res, g')"
    "''AF'' \<in> Carrier ` {x \<in> set (Segments (sr_Child res)). live_air x}"
    using part_splits by blast
  then have c: "Split shop_env (\<lambda>k s. s) part_request part_gateway = (Inr res, g')"
    by (simp add: Split_def numeral_eq_Suc part_request_def)
  have p: "PeerForCarrier part_gateway ''AF'' = None" "Queues part_gateway" "sp_By part_request = ''desk''"
    using trip_facts(3,5) by (simp_all add: part_gateway_def part_request_def PeerForCarrier_def)
  from split_stored_then_told [OF c] have
    t: "set (Advised res @ Unadvised res) = Carrier ` {x \<in> set (Segments (sr_Child res)). live_air x}"
      "\<forall>c \<in> set (Advised res). PeerForCarrier part_gateway c \<noteq> None"
      "\<forall>c \<in> set (Unadvised res). unsent_raised (sr_Parent res) (sr_Child res) ''desk'' (gw_Store g') c"
    unfolding p(3) using p(2) by (auto simp: advised_of_def)
  have "''AF'' \<notin> set (Advised res)" using t(2) p(1) by auto
  then show ?thesis using t a(2) c by auto
qed

section \<open>The advice at a carrier running this program\<close>

definition ingest_parse :: "ingest_options \<Rightarrow> parse_options" where
  "ingest_parse opts = \<lparr>po_Scan = zero_scan, SkipPreamble = FromFile opts, Strict = False, SkipCharsetCheck = False\<rparr>"

text \<open>
  C36: The decoder of the gateway never asks whether a reservation message advises a division. A divide
  advice that reaches a gateway running this program is one (\<open>IsDivide\<close>), and yet it is decoded as a
  request for a booking: it is to be answered, and it creates a record when no locator in it is
  known here. The other dialects stay out of it, as they claim other message types.
\<close>

theorem divide_advice_booked:
  assumes "divide_sent parent child carrier o' eopts out (ingest_parse opts)"
    and "\<And>m. mi_Type (message_ID m) = MsgPAOREQ \<Longrightarrow> edifact_dialect sm m = None"
  shows "\<exists>d m. decodeEDIFACT sm latin1 utf8 opts (to_bytes out) = Inr d \<and> dc_Edifact d = Some m \<and> IsDivide m
     \<and> dc_NeedsReply d \<and> CreatesRecord d"
proof -
  obtain ic m where m: "ed_Parse latin1 utf8 out (ingest_parse opts) = Inr (ic, None)" "Messages ic = [m]"
    "mi_Type (message_ID m) = MsgPAOREQ" "list_all2 travelled (m_Segments m) (divide_body parent child carrier o')"
    by (rule divide_trip [OF assms(1)])
  have "Passengers child \<noteq> []" using assms(1) by (auto simp: divide_sent_def BuildDivide_def)
  then have p: "ParseDivide m \<noteq> Inl NotADivide" "MessageFunction m = FuncRequest"
    using ParseDivide_body [OF m(4)] assms(1) by (auto simp: divide_sent_def)
  have "\<not> IsDivide m \<Longrightarrow> ParseDivide m = Inl NotADivide" by (simp add: ParseDivide_def)
  then have "IsDivide m" using p(1) by blast
  moreover have "\<not> IsCONTRL m" "FuncRequest \<noteq> FuncCancellation"
    using m(3) by (simp_all add: IsCONTRL_def MsgPAOREQ_def FuncRequest_def FuncCancellation_def)
  ultimately show ?thesis using m p(2) assms(2) [OF m(3)]
    by (simp add: decodeEDIFACT_def ingest_parse_def edifact_booking_def of_to_bytes)
qed

lemma demo_divide_received: "\<exists>out. divide_sent demo_pnr demo_child ''BA'' demo_options plain_encode out (ingest_parse desk_options)"
proof -
  obtain out where "divide_sent demo_pnr demo_child ''BA'' demo_options plain_encode out strict_parse" using demo_divide_sent by blast
  moreover have "maxSeg (po_Scan strict_parse) = 50" "maxSeg (po_Scan (ingest_parse desk_options)) = DefaultMaxSegments"
    "so_Syntax (po_Scan (ingest_parse desk_options)) = None"
    by (simp_all add: strict_parse_def ingest_parse_def zero_scan_def maxSeg_def)
  moreover have "50 \<le> DefaultMaxSegments" by (simp add: DefaultMaxSegments_def)
  ultimately show ?thesis by (intro exI [of _ out]) (auto simp: divide_sent_def split: option.splits)
qed

theorem divide_advice_booked_witness:
  "\<exists>out d m. decodeEDIFACT no_seams (\<lambda>_. True) (\<lambda>_. True) desk_options (to_bytes out) = Inr d \<and> dc_Edifact d = Some m \<and> IsDivide m
     \<and> dc_NeedsReply d \<and> CreatesRecord d"
proof -
  obtain out where o: "divide_sent demo_pnr demo_child ''BA'' demo_options plain_encode out (ingest_parse desk_options)"
    using demo_divide_received by blast
  have "edifact_dialect no_seams m = None" for m by (simp add: no_seams_def)
  then show ?thesis using divide_advice_booked [OF o, of no_seams "\<lambda>_. True" "\<lambda>_. True"] by blast
qed

end
