(* ===== verification/Spec2Isabelle.thy ===== *)
theory Spec2Isabelle
  imports Matip Framing Outbox Rescode Pnr Locator Ticket Store_Work Avail Inventory Edifact_Contrl
    Booking_Agreement Gateway_Broadcast Gateway_Split
begin

text \<open>
  Jetway is an airline messaging gateway written in Go: it speaks the teletype and EDIFACT dialects
  airlines use among themselves, keeps passenger name records and a log of every message, answers
  seat requests from an inventory, and relays traffic between links. This development models its
  core as executable functions on records and datatypes, one theory per component, and proves what
  the components promise. Sources are named relative to \<open>src/pkg\<close>.

  \<^bold>\<open>How the program fits together.\<close> Bytes arrive on a link. The link's framing (\<open>transport/frame.go\<close>, or
  the sessions of \<open>matip\<close>) cuts them into messages; the gateway (\<open>gateway/gateway.go\<close>) stores each
  before reading it (\<open>store\<close>), decodes its envelope (\<open>typeb\<close> or \<open>edifact\<close>) and its body (\<open>airimp\<close>,
  CONTRL), relays what is addressed to others, folds the rest into a record (\<open>pnr\<close>), asks the
  inventory (\<open>inventory\<close>) for a decision and sends a reply, through an outbox (\<open>transport/outbox.go\<close>)
  per link.

  \<^bold>\<open>Theories, sources and what is shown.\<close>

  \<^item> \<open>Jetway_Prelude\<close>: Go's strings, integers, maps, readers and times as far as the sources use them,
    with the lemma collections the other theories draw on. A Go map is an association list with
    distinct keys (\<open>gm_put\<close>); iteration order is fixed where the code does not depend on it.
  \<^item> \<open>Stream_Codec\<close>: a locale for codecs on a byte stream; \<open>Matip\<close> and \<open>Framing\<close> interpret it.
  \<^item> \<open>Matip\<close> (\<open>matip/packet.go\<close>, \<open>control.go\<close>, \<open>session.go\<close>): packets, control packets and the
    handshake. The reader accepts exactly what the writer renders; both ends of a handshake agree.
  \<^item> \<open>Framing\<close> (\<open>transport/frame.go\<close>): length-prefix and sentinel framings. The chunked reader equals
    the byte-at-a-time one; streams of frames read back.
  \<^item> \<open>Outbox\<close> (\<open>transport/outbox.go\<close>): the bounded queue between senders and the one writer as a step
    relation over every interleaving; what was acknowledged is written in order.
  \<^item> \<open>Rescode\<close> (\<open>rescode/rescode.go\<close>): the code table and the reply switch.
  \<^item> \<open>Pnr\<close>, \<open>Pnr_Date\<close>, \<open>Locator\<close>, \<open>Ticket\<close> (\<open>pnr/*.go\<close>): the record, its status and division, the dates
    of the wire, the keyed allocation of locators, documents. Dividing a record partitions it and
    keeps references; a date resolves to the one day in the booking window; the allocator is a
    bijection; document numbers round-trip and the check digit catches what it should.
  \<^item> \<open>Store\<close>, \<open>Store_Inv\<close>, \<open>Store_Steps\<close>, \<open>Store_Work\<close> (\<open>store/mem.go\<close>, \<open>store.go\<close>, \<open>queue.go\<close>): the
    in-memory store with records, events, messages, work queues and leases; its invariant, the step
    relation of its methods, and over it: consistent lookups, no lost update, retention, leases,
    one pending queue item per reason, exact flight lookups.
  \<^item> \<open>Avail\<close> (\<open>avail/avail.go\<close>): beliefs about other carriers' seats and the free-sale decision.
  \<^item> \<open>Inventory\<close> (\<open>inventory/inventory.go\<close>): pools, classes, ladders and waitlists; nothing is oversold,
    releases undo sales, advertised seats are the sellable ones.
  \<^item> \<open>Typeb\<close>, \<open>Typeb_Roundtrip\<close> (\<open>typeb/*.go\<close>): the teletype envelope and its round trip.
  \<^item> \<open>Edifact\<close>, \<open>Edifact_Scan\<close>, \<open>Edifact_Interchange\<close>, \<open>Edifact_Parse\<close>, \<open>Edifact_Contrl\<close> (\<open>edifact/*.go\<close>):
    scanner, encoder, envelopes, syntax reports; relaying is a fixed point, built interchanges and
    reports decode to what was built.
  \<^item> \<open>Airimp\<close>, \<open>Airimp_Apply\<close>, \<open>Airimp_Roundtrip\<close> (\<open>airimp/*.go\<close>): reservation text, its recognizers as
    backtracking matchers, folding a message into a record, building messages; built text parses back.
  \<^item> \<open>Gateway\<close>, \<open>Gateway_Relay\<close> (\<open>gateway/gateway.go\<close>, \<open>decode.go\<close>): peers, address routing, sending,
    fan-out and the relays of a switch. A relay makes exactly the copies owed.
  \<^item> \<open>Padis\<close> (\<open>padis/padis.go\<close>, \<open>build.go\<close>): reservation messages over EDIFACT, folding them into a
    record and building them.
  \<^item> \<open>Padis_Divide\<close> (\<open>padis/divide.go\<close>): the advice that a booking was divided; what is told reads back.
  \<^item> \<open>Work_Queue\<close> (\<open>queue/queue.go\<close>, \<open>sweep.go\<close>): placing work and the sweep for overdue records. A pass
    raises what is overdue among the records it reads; a backlog of settled records starves the rest.
  \<^item> \<open>Gateway_Apply\<close> (\<open>gateway/gateway.go\<close>, \<open>decode.go\<close>): resolving a record and the optimistic loop that
    folds a message into it. Under any interference of other callers a success is one atomic update,
    and the loop gives up only when each attempt lost to another writer.
  \<^item> \<open>Gateway_Build\<close> (\<open>gateway/book.go\<close>, \<open>cancel.go\<close>): the requests and cancellations a gateway sends, in the
    dialect of the partner, and the work it queues when one cannot be sent.
  \<^item> \<open>Gateway_Reply\<close> (\<open>gateway/gateway.go\<close>): what follows an applied message: releasing seats, queueing
    status changes, cancelling again after a late confirmation, deciding and answering. The decision
    is stored before it is answered; a decision that loses its write keeps the seats.
  \<^item> \<open>Gateway_Cancel\<close> (\<open>gateway/cancel.go\<close>): cancelling a booking and telling its carriers; each is told
    or the disagreement is queued.
  \<^item> \<open>Gateway_Split\<close> (\<open>gateway/split.go\<close>): dividing a booking and telling its carriers. Both halves are
    written or neither, then each carrier is told or the disagreement is queued; the gateway itself
    reads such an advice as a request.
  \<^item> \<open>Avs\<close> (\<open>avs/avs.go\<close>): availability broadcasts; what is built parses back to the same beliefs.
  \<^item> \<open>Gateway_Ingest\<close> (\<open>gateway/gateway.go\<close>, \<open>decode.go\<close>, \<open>ground.go\<close>): the inbound pipeline from capture to
    outcome: classification, decoding, numbering, duplicates, relays, syntax reports, schedule changes,
    availability, bookings. Its record \<open>seams\<close> holds the dialects and handlers without a theory of their own.
  \<^item> \<open>Gateway_Outcome\<close>: no delivery is lost, a retransmission changes nothing, a numbering gap leaves no trace.
  \<^item> \<open>Gateway_Broadcast\<close>: availability from the carrier's text to the sale, syntax reports back to the
    message they are about, schedule changes to every booking.
  \<^item> \<open>Booking_Agreement\<close>: two gateways and the text between them, from request to applied reply; both
    hold the same statuses afterwards.

  \<^bold>\<open>Conventions.\<close> A pointer into a slice is an index; a nil pointer is \<open>None\<close>; an error is the left
  summand of a sum or \<open>Some\<close> of its text. Times are nanoseconds since 1970 as \<open>int\<close>; Go's \<open>int\<close> counts
  that cannot overflow are \<open>int\<close> or \<open>nat\<close>; bytes and lengths on the wire are words. What the program
  takes from outside (clock, random identifiers, the keyed hash, digests, the transport's answer) is an
  argument of the definitions that use it. Concurrent components are step relations, so that a
  theorem on reachable states covers every interleaving; the store's methods hold one lock and are
  single steps. All loops are structurally recursive or proved to terminate; no fuel is used
  except where a theory says so.

  \<^bold>\<open>Not modelled.\<close> Logs, metrics, traces and the console's event bus, which nothing reads back; socket,
  file and HTTP plumbing; the Postgres store, whose statements a database executes; the other text
  dialects (schedules, passenger lists, movements, baggage, air traffic) and the other PADIS messages,
  which enter the pipeline as parameters; the gateway's ticketing, exchange, refund and rebooking handlers;
  departure control, crew, fares and settlement; configuration, demonstration data and the
  command-line programs.
\<close>

end
